(* ===== verification/Velum_Prelude.thy ===== *)
theory Velum_Prelude
  imports Main "HOL-Library.Word"
begin

text \<open>
  Shared vocabulary of the development: the machine integers of the Rust sources, the
  \<^verbatim>\<open>Result\<close> type with the operators the sources chain (\<^verbatim>\<open>?\<close>, \<^verbatim>\<open>map_err\<close>, \<^verbatim>\<open>ok_or\<close>), panics,
  checked and saturating arithmetic, and the big-endian byte representation of integers with
  its two round-trip laws.

  Conventions used by every theory of the development:
  \<^item> \<^verbatim>\<open>Result<T, E>\<close> is the sum \<open>'e + 'a\<close>; \<open>Ok\<close> and \<open>Err\<close> abbreviate its injections;
  \<^item> an operation that can panic (\<^verbatim>\<open>expect\<close>, \<^verbatim>\<open>assert!\<close>, arithmetic underflow) returns an
    \<open>option\<close> and \<open>None\<close> is the panic;
  \<^item> an operation with a \<^verbatim>\<open>&mut self\<close> receiver takes the state and returns it beside its result;
  \<^item> \<^verbatim>\<open>u8\<close> .. \<^verbatim>\<open>u128\<close> are words of that width; \<^verbatim>\<open>usize\<close> counts (lengths of vectors held in memory,
    configured limits) are \<open>nat\<close>, and where the source guards a \<^verbatim>\<open>usize\<close> addition with
    \<^verbatim>\<open>checked_add\<close> the 64-bit bound is written out.
\<close>

section \<open>Machine integers\<close>

type_synonym u8 = "8 word"
type_synonym u16 = "16 word"
type_synonym u32 = "32 word"
type_synonym u64 = "64 word"
type_synonym u128 = "128 word"
type_synonym bytes = "u8 list"

named_theorems be_simps \<open>round trips and lengths of big-endian byte strings\<close>
named_theorems result_simps \<open>inversion of chained results\<close>

definition checked_add :: "'a::len word \<Rightarrow> 'a word \<Rightarrow> 'a word option" where
  "checked_add a b = (if unat a + unat b < 2 ^ LENGTH('a) then Some (a + b) else None)"

definition saturating_sub :: "'a::len word \<Rightarrow> 'a word \<Rightarrow> 'a word" where
  "saturating_sub a b = (if b \<le> a then a - b else 0)"

definition usize_checked_add :: "nat \<Rightarrow> nat \<Rightarrow> nat option" where
  "usize_checked_add a b = (if a + b < 2 ^ 64 then Some (a + b) else None)"

definition usize_checked_sub :: "nat \<Rightarrow> nat \<Rightarrow> nat option" where
  "usize_checked_sub a b = (if b \<le> a then Some (a - b) else None)"

section \<open>Results\<close>

type_synonym ('e, 'a) result = "'e + 'a"

abbreviation Ok :: "'a \<Rightarrow> 'e + 'a" where "Ok \<equiv> Inr"
abbreviation Err :: "'e \<Rightarrow> 'e + 'a" where "Err \<equiv> Inl"

definition and_then :: "'e + 'a \<Rightarrow> ('a \<Rightarrow> 'e + 'b) \<Rightarrow> 'e + 'b" where
  "and_then r f = (case r of Inl e \<Rightarrow> Err e | Inr a \<Rightarrow> f a)"

definition map_err :: "('e \<Rightarrow> 'f) \<Rightarrow> 'e + 'a \<Rightarrow> 'f + 'a" where
  "map_err g r = (case r of Inl e \<Rightarrow> Err (g e) | Inr a \<Rightarrow> Ok a)"

definition ok_or :: "'a option \<Rightarrow> 'e \<Rightarrow> 'e + 'a" where
  "ok_or x e = (case x of None \<Rightarrow> Err e | Some a \<Rightarrow> Ok a)"

section \<open>Big-endian bytes\<close>

primrec nat_be_bytes :: "nat \<Rightarrow> nat \<Rightarrow> bytes" where
  "nat_be_bytes 0 v = []"
| "nat_be_bytes (Suc n) v = nat_be_bytes n (v div 256) @ [word_of_nat (v mod 256)]"

definition be_nat :: "bytes \<Rightarrow> nat" where
  "be_nat bs = foldl (\<lambda>acc b. acc * 256 + unat b) 0 bs"

definition u16_to_be_bytes :: "u16 \<Rightarrow> bytes" where
  "u16_to_be_bytes w = nat_be_bytes 2 (unat w)"

definition u16_from_be_bytes :: "bytes \<Rightarrow> u16" where
  "u16_from_be_bytes bs = word_of_nat (be_nat bs)"

definition u32_to_be_bytes :: "u32 \<Rightarrow> bytes" where
  "u32_to_be_bytes w = nat_be_bytes 4 (unat w)"

definition u32_from_be_bytes :: "bytes \<Rightarrow> u32" where
  "u32_from_be_bytes bs = word_of_nat (be_nat bs)"

definition u64_to_be_bytes :: "u64 \<Rightarrow> bytes" where
  "u64_to_be_bytes w = nat_be_bytes 8 (unat w)"

definition u64_from_be_bytes :: "bytes \<Rightarrow> u64" where
  "u64_from_be_bytes bs = word_of_nat (be_nat bs)"

definition u128_to_be_bytes :: "u128 \<Rightarrow> bytes" where
  "u128_to_be_bytes w = nat_be_bytes 16 (unat w)"

definition u128_from_be_bytes :: "bytes \<Rightarrow> u128" where
  "u128_from_be_bytes bs = word_of_nat (be_nat bs)"

section \<open>Lemmas on checked arithmetic and results\<close>

lemma unat_less_power: "unat (w :: 'a::len word) < 2 ^ LENGTH('a)"
  by (rule unsigned_less)

lemma checked_add_SomeD:
  "checked_add a b = Some (c :: 'a::len word) \<Longrightarrow> unat c = unat a + unat b"
  by (auto simp: checked_add_def unat_word_ariths split: if_splits)

lemma checked_add_Some_iff:
  "checked_add a b = Some (c :: 'a::len word) \<longleftrightarrow> unat c = unat a + unat b"
proof
  assume eq: "unat c = unat a + unat b"
  have "c = word_of_nat (unat a + unat b)"
    by (simp flip: eq)
  then have "c = a + b"
    by (simp add: of_nat_add)
  moreover have "unat a + unat b < 2 ^ LENGTH('a)"
    using eq unat_less_power [of c] by simp
  ultimately show "checked_add a b = Some c"
    by (simp add: checked_add_def)
qed (rule checked_add_SomeD)

lemma checked_add_None_iff:
  "checked_add a (b :: 'a::len word) = None \<longleftrightarrow> 2 ^ LENGTH('a) \<le> unat a + unat b"
  by (auto simp: checked_add_def)

lemma usize_checked_sub_Some [simp]:
  "usize_checked_sub a b = Some c \<longleftrightarrow> b \<le> a \<and> c = a - b"
  by (auto simp: usize_checked_sub_def)

lemma usize_checked_sub_None [simp]: "usize_checked_sub a b = None \<longleftrightarrow> a < b"
  by (auto simp: usize_checked_sub_def)

lemma usize_checked_add_Some [simp]:
  "usize_checked_add a b = Some c \<longleftrightarrow> a + b < 2 ^ 64 \<and> c = a + b"
  by (auto simp: usize_checked_add_def)

lemma usize_checked_add_None [simp]: "usize_checked_add a b = None \<longleftrightarrow> 2 ^ 64 \<le> a + b"
  by (auto simp: usize_checked_add_def)

lemma and_then_simps [simp]:
  "and_then (Err e) f = Err e" "and_then (Ok a) f = f a"
  by (simp_all add: and_then_def)

lemma and_then_Ok_iff [result_simps]:
  "and_then r f = Ok b \<longleftrightarrow> (\<exists>a. r = Ok a \<and> f a = Ok b)"
  by (cases r) auto

lemma map_err_simps [simp]:
  "map_err g (Err e) = Err (g e)" "map_err g (Ok a) = Ok a"
  by (simp_all add: map_err_def)

lemma map_err_Ok_iff [result_simps]: "map_err g r = Ok a \<longleftrightarrow> r = Ok a"
  by (cases r) auto

lemma ok_or_simps [simp]: "ok_or None e = Err e" "ok_or (Some a) e = Ok a"
  by (simp_all add: ok_or_def)

lemma ok_or_Ok_iff [result_simps]: "ok_or x e = Ok a \<longleftrightarrow> x = Some a"
  by (cases x) auto

section \<open>Lemmas on big-endian bytes\<close>

lemma length_nat_be_bytes [simp]: "length (nat_be_bytes n v) = n"
  by (induction n arbitrary: v) auto

lemma nat_be_bytes_numeral [be_simps]:
  "nat_be_bytes (numeral k) v = nat_be_bytes (pred_numeral k) (v div 256) @ [word_of_nat (v mod 256)]"
  unfolding numeral_eq_Suc [of k] by (rule nat_be_bytes.simps(2))

lemmas be_eval = u16_to_be_bytes_def u32_to_be_bytes_def u64_to_be_bytes_def u128_to_be_bytes_def
  u16_from_be_bytes_def u64_from_be_bytes_def nat_be_bytes_numeral

lemma be_nat_Nil [simp]: "be_nat [] = 0"
  by (simp add: be_nat_def)

lemma be_nat_snoc [simp]: "be_nat (bs @ [b]) = be_nat bs * 256 + unat b"
  by (simp add: be_nat_def)

lemma be_nat_bound: "be_nat bs < 256 ^ length bs"
proof (induction bs rule: rev_induct)
  case (snoc b bs)
  have "unat b < 256"
    using unat_less_power [of b] by simp
  with snoc.IH show ?case
    by (simp add: mult.commute)
qed simp

lemma be_nat_nat_be_bytes: "be_nat (nat_be_bytes n v) = v mod 256 ^ n"
proof (induction n arbitrary: v)
  case (Suc n)
  have "unat (word_of_nat (v mod 256) :: u8) = v mod 256"
    by (simp add: unat_of_nat)
  then have "be_nat (nat_be_bytes (Suc n) v) = (v div 256) mod 256 ^ n * 256 + v mod 256"
    using Suc.IH by simp
  also have "\<dots> = v mod 256 ^ Suc n"
    using mod_mult2_eq [of v 256 "256 ^ n"] by (simp add: mult.commute)
  finally show ?case .
qed simp

lemma nat_be_bytes_be_nat: "nat_be_bytes (length bs) (be_nat bs) = bs"
proof (induction bs rule: rev_induct)
  case (snoc b bs)
  have small: "unat b < 256"
    using unat_less_power [of b] by simp
  have "(be_nat bs * 256 + unat b) div 256 = be_nat bs"
    using small by simp
  moreover have "word_of_nat ((be_nat bs * 256 + unat b) mod 256) = b"
    using small by simp
  ultimately show ?case
    using snoc.IH by simp
qed simp

lemma be_word_roundtrip:
  assumes "256 ^ n = (2 :: nat) ^ LENGTH('a)"
  shows "word_of_nat (be_nat (nat_be_bytes n (unat w))) = (w :: 'a::len word)"
  using assms unat_less_power [of w] by (simp add: be_nat_nat_be_bytes)

lemma be_bytes_roundtrip:
  assumes "256 ^ n = (2 :: nat) ^ LENGTH('a)" and "length bs = n"
  shows "nat_be_bytes n (unat (word_of_nat (be_nat bs) :: 'a::len word)) = bs"
proof -
  have "be_nat bs < 2 ^ LENGTH('a)"
    using assms be_nat_bound [of bs] by simp
  then have "unat (word_of_nat (be_nat bs) :: 'a word) = be_nat bs"
    by (simp add: unat_of_nat)
  then show ?thesis
    using assms(2) nat_be_bytes_be_nat by auto
qed

lemma u16_be_roundtrip [simp, be_simps]: "u16_from_be_bytes (u16_to_be_bytes w) = w"
  unfolding u16_from_be_bytes_def u16_to_be_bytes_def by (rule be_word_roundtrip) simp

lemma u32_be_roundtrip [simp, be_simps]: "u32_from_be_bytes (u32_to_be_bytes w) = w"
  unfolding u32_from_be_bytes_def u32_to_be_bytes_def by (rule be_word_roundtrip) simp

lemma u64_be_roundtrip [simp, be_simps]: "u64_from_be_bytes (u64_to_be_bytes w) = w"
  unfolding u64_from_be_bytes_def u64_to_be_bytes_def by (rule be_word_roundtrip) simp

lemma u128_be_roundtrip [simp, be_simps]: "u128_from_be_bytes (u128_to_be_bytes w) = w"
  unfolding u128_from_be_bytes_def u128_to_be_bytes_def by (rule be_word_roundtrip) simp

lemma u16_be_roundtrip' [simp, be_simps]:
  "length bs = 2 \<Longrightarrow> u16_to_be_bytes (u16_from_be_bytes bs) = bs"
  unfolding u16_from_be_bytes_def u16_to_be_bytes_def by (rule be_bytes_roundtrip) simp_all

lemma u32_be_roundtrip' [simp, be_simps]:
  "length bs = 4 \<Longrightarrow> u32_to_be_bytes (u32_from_be_bytes bs) = bs"
  unfolding u32_from_be_bytes_def u32_to_be_bytes_def by (rule be_bytes_roundtrip) simp_all

lemma u64_be_roundtrip' [simp, be_simps]:
  "length bs = 8 \<Longrightarrow> u64_to_be_bytes (u64_from_be_bytes bs) = bs"
  unfolding u64_from_be_bytes_def u64_to_be_bytes_def by (rule be_bytes_roundtrip) simp_all

lemma u128_be_roundtrip' [simp, be_simps]:
  "length bs = 16 \<Longrightarrow> u128_to_be_bytes (u128_from_be_bytes bs) = bs"
  unfolding u128_from_be_bytes_def u128_to_be_bytes_def by (rule be_bytes_roundtrip) simp_all

lemma length_to_be_bytes [simp, be_simps]:
  "length (u16_to_be_bytes a) = 2" "length (u32_to_be_bytes b) = 4"
  "length (u64_to_be_bytes c) = 8" "length (u128_to_be_bytes d) = 16"
  by (simp_all add: u16_to_be_bytes_def u32_to_be_bytes_def u64_to_be_bytes_def
      u128_to_be_bytes_def)

lemma to_be_bytes_inj [simp]:
  "u16_to_be_bytes a = u16_to_be_bytes b \<longleftrightarrow> a = b"
  "u64_to_be_bytes c = u64_to_be_bytes d \<longleftrightarrow> c = d"
  by (metis u16_be_roundtrip, metis u64_be_roundtrip)

lemma unat_u16_from_be_bytes: "length bs = 2 \<Longrightarrow> unat (u16_from_be_bytes bs) = be_nat bs"
  using be_nat_bound [of bs] by (simp add: u16_from_be_bytes_def unat_of_nat)

lemma be_nat_u16_to_be_bytes [simp]: "be_nat (u16_to_be_bytes w) = unat w"
  using unat_less_power [of w] by (simp add: u16_to_be_bytes_def be_nat_nat_be_bytes)

end
