(* ===== verification/Ordered_Map.thy ===== *)
theory Ordered_Map
  imports Velum_Prelude
begin

text \<open>
  The part of \<^verbatim>\<open>std::collections::BTreeMap\<close> the sources use: lookup, insertion, removal, length
  and iteration in key order. A map is the list of its entries in ascending key order, which
  is what an iterator over the tree yields; \<open>bt_sorted\<close> is the invariant every operation keeps.
  The locale \<open>ordered_map\<close> is the contract the components rely on, and it is interpreted on
  the list operations at the end of the theory.
\<close>

type_synonym ('k, 'v) btree_map = "('k \<times> 'v) list"

definition bt_sorted :: "('k::linorder, 'v) btree_map \<Rightarrow> bool" where
  "bt_sorted m = sorted_wrt (<) (map fst m)"

definition bt_get :: "('k, 'v) btree_map \<Rightarrow> 'k \<Rightarrow> 'v option" where
  "bt_get m k = map_of m k"

fun bt_insert :: "'k::linorder \<Rightarrow> 'v \<Rightarrow> ('k, 'v) btree_map \<Rightarrow> ('k, 'v) btree_map" where
  "bt_insert k v [] = [(k, v)]"
| "bt_insert k v ((a, b) # m) =
     (if k < a then (k, v) # (a, b) # m
      else if k = a then (k, v) # m
      else (a, b) # bt_insert k v m)"

definition bt_remove :: "'k \<Rightarrow> ('k, 'v) btree_map \<Rightarrow> ('k, 'v) btree_map" where
  "bt_remove k m = filter (\<lambda>(a, _). a \<noteq> k) m"

definition bt_keys :: "('k, 'v) btree_map \<Rightarrow> 'k list" where
  "bt_keys m = map fst m"

definition bt_values :: "('k, 'v) btree_map \<Rightarrow> 'v list" where
  "bt_values m = map snd m"

text \<open>Sum of a measure over the entries, used for resource accounting.\<close>

definition bt_sum :: "('v \<Rightarrow> nat) \<Rightarrow> ('k, 'v) btree_map \<Rightarrow> nat" where
  "bt_sum f m = sum_list (map (f \<circ> snd) m)"

section \<open>The list operations\<close>

lemma bt_sorted_Nil [simp]: "bt_sorted []"
  by (simp add: bt_sorted_def)

lemma bt_sorted_Cons [simp]:
  "bt_sorted ((k, v) # m) \<longleftrightarrow> (\<forall>a \<in> fst ` set m. k < a) \<and> bt_sorted m"
  by (auto simp: bt_sorted_def)

lemma bt_sorted_distinct: "bt_sorted m \<Longrightarrow> distinct (map fst m)"
  by (simp add: bt_sorted_def strict_sorted_iff)

lemma bt_get_Nil [simp]: "bt_get [] k = None"
  by (simp add: bt_get_def)

lemma bt_get_Cons [simp]: "bt_get ((a, b) # m) k = (if k = a then Some b else bt_get m k)"
  by (auto simp: bt_get_def)

lemma bt_get_None_iff: "bt_get m k = None \<longleftrightarrow> k \<notin> fst ` set m"
  by (auto simp: bt_get_def map_of_eq_None_iff)

lemma bt_get_SomeD: "bt_get m k = Some v \<Longrightarrow> (k, v) \<in> set m"
  by (simp add: bt_get_def map_of_SomeD)

lemma bt_get_Some_iff: "bt_sorted m \<Longrightarrow> bt_get m k = Some v \<longleftrightarrow> (k, v) \<in> set m"
  by (simp add: bt_get_def bt_sorted_distinct)

lemma fst_set_bt_insert [simp]: "fst ` set (bt_insert k v m) = insert k (fst ` set m)"
  by (induction k v m rule: bt_insert.induct) auto

lemma bt_get_insert: "bt_get (bt_insert k v m) = (bt_get m)(k \<mapsto> v)"
  by (induction k v m rule: bt_insert.induct) (auto simp: fun_eq_iff)

lemma bt_sorted_insert: "bt_sorted m \<Longrightarrow> bt_sorted (bt_insert k v m)"
  by (induction k v m rule: bt_insert.induct) auto

lemma set_bt_insert:
  "bt_sorted m \<Longrightarrow> set (bt_insert k v m) = insert (k, v) {e \<in> set m. fst e \<noteq> k}"
  by (induction k v m rule: bt_insert.induct) (auto simp: image_iff)

lemma length_bt_insert:
  "length (bt_insert k v m) = (if k \<in> fst ` set m then length m else Suc (length m))"
  if "bt_sorted m"
  using that by (induction k v m rule: bt_insert.induct) (auto simp: image_iff)

lemma bt_get_remove: "bt_get (bt_remove k m) = (bt_get m)(k := None)"
  by (induction m) (auto simp: bt_remove_def fun_eq_iff)

lemma set_bt_remove: "set (bt_remove k m) = {e \<in> set m. fst e \<noteq> k}"
  by (auto simp: bt_remove_def)

lemma bt_sorted_remove: "bt_sorted m \<Longrightarrow> bt_sorted (bt_remove k m)"
  by (induction m) (auto simp: bt_remove_def)

lemma bt_remove_absent: "k \<notin> fst ` set m \<Longrightarrow> bt_remove k m = m"
  unfolding bt_remove_def by (rule filter_True) (auto simp: image_iff)

lemma length_bt_remove:
  "bt_sorted m \<Longrightarrow> bt_get m k = Some v \<Longrightarrow> Suc (length (bt_remove k m)) = length m"
proof (induction m)
  case (Cons e m)
  obtain a b where e: "e = (a, b)" by (cases e)
  show ?case
  proof (cases "k = a")
    case True
    then have "bt_remove k (e # m) = bt_remove k m" and "k \<notin> fst ` set m"
      using Cons.prems(1) e by (auto simp: bt_remove_def)
    then show ?thesis by (simp add: bt_remove_absent)
  next
    case False
    then show ?thesis
      using Cons e by (auto simp: bt_remove_def)
  qed
qed simp

lemma length_bt_remove_le: "length (bt_remove k m) \<le> length m"
  by (simp add: bt_remove_def)

text \<open>Entries selected by their value.\<close>

lemma bt_filter_key:
  assumes "bt_sorted m" "(k, v) \<in> set m"
  shows "k \<in> set (map fst (filter (\<lambda>(_, v). P v) m)) \<longleftrightarrow> P v"
proof
  assume "k \<in> set (map fst (filter (\<lambda>(_, v). P v) m))"
  then obtain u where "(k, u) \<in> set m" "P u"
    by auto
  with eq_key_imp_eq_value [OF bt_sorted_distinct [OF assms(1)] assms(2)] show "P v"
    by simp
qed (use assms in force)

lemma bt_sorted_filter: "bt_sorted m \<Longrightarrow> bt_sorted (filter P m)"
  by (auto simp: bt_sorted_def sorted_wrt_map intro: sorted_wrt_filter)

lemma bt_get_filter:
  assumes "bt_sorted m" "(k, v) \<in> set m"
  shows "bt_get (filter (\<lambda>(_, v). P v) m) k = (if P v then Some v else None)"
proof (cases "P v")
  case True
  then show ?thesis
    using assms by (simp add: bt_get_Some_iff bt_sorted_filter)
next
  case False
  then have "bt_get (filter (\<lambda>(_, v). P v) m) k = None"
    unfolding bt_get_None_iff using bt_filter_key [OF assms, of P] by simp
  then show ?thesis
    using False by simp
qed

section \<open>Sums over the entries\<close>

lemma bt_sum_Nil [simp]: "bt_sum f [] = 0"
  by (simp add: bt_sum_def)

lemma bt_sum_Cons [simp]: "bt_sum f ((k, v) # m) = f v + bt_sum f m"
  by (simp add: bt_sum_def)

lemma bt_sum_insert_new:
  "bt_get m k = None \<Longrightarrow> bt_sum f (bt_insert k v m) = f v + bt_sum f m"
  by (induction k v m rule: bt_insert.induct) (auto split: if_splits)

lemma bt_sum_insert_old:
  "bt_sorted m \<Longrightarrow> bt_get m k = Some u \<Longrightarrow> bt_sum f (bt_insert k v m) + f u = f v + bt_sum f m"
proof (induction k v m rule: bt_insert.induct)
  case (2 k v a b m)
  have "bt_get m k = None" if "k < a"
    using 2(2) that by (auto simp: bt_get_None_iff)
  with 2 show ?case by (auto split: if_splits)
qed simp

lemma bt_sum_remove:
  "bt_sorted m \<Longrightarrow> bt_get m k = Some u \<Longrightarrow> bt_sum f (bt_remove k m) + f u = bt_sum f m"
proof (induction m)
  case (Cons e m)
  obtain a b where e: "e = (a, b)" by (cases e)
  show ?case
  proof (cases "k = a")
    case True
    then have "bt_remove k (e # m) = bt_remove k m" and "k \<notin> fst ` set m"
      using Cons.prems(1) e by (auto simp: bt_remove_def)
    then show ?thesis
      using True Cons.prems(2) e by (simp add: bt_remove_absent)
  next
    case False
    then have "bt_remove k (e # m) = e # bt_remove k m"
      using e by (simp add: bt_remove_def)
    with False show ?thesis
      using Cons e by simp
  qed
qed simp

lemma bt_sum_ge: "bt_get m k = Some u \<Longrightarrow> f u \<le> bt_sum f m"
  by (induction m) (auto split: if_splits)

section \<open>The contract\<close>

text \<open>What a component may rely on: the laws of a finite map, an invariant, and resource sums.\<close>

locale ordered_map =
  fixes invar :: "'m \<Rightarrow> bool"
    and get :: "'m \<Rightarrow> 'k \<Rightarrow> 'v option"
    and put :: "'k \<Rightarrow> 'v \<Rightarrow> 'm \<Rightarrow> 'm"
    and del :: "'k \<Rightarrow> 'm \<Rightarrow> 'm"
    and total :: "('v \<Rightarrow> nat) \<Rightarrow> 'm \<Rightarrow> nat"
  assumes get_put: "get (put k v m) = (get m)(k \<mapsto> v)"
    and get_del: "get (del k m) = (get m)(k := None)"
    and invar_put: "invar m \<Longrightarrow> invar (put k v m)"
    and invar_del: "invar m \<Longrightarrow> invar (del k m)"
    and total_put_new: "get m k = None \<Longrightarrow> total f (put k v m) = f v + total f m"
    and total_put_old:
      "invar m \<Longrightarrow> get m k = Some u \<Longrightarrow> total f (put k v m) + f u = f v + total f m"
    and total_del: "invar m \<Longrightarrow> get m k = Some u \<Longrightarrow> total f (del k m) + f u = total f m"
    and total_ge: "get m k = Some u \<Longrightarrow> f u \<le> total f m"
begin

lemma get_put_same: "get (put k v m) k = Some v"
  by (simp add: get_put)

lemma get_put_other: "a \<noteq> k \<Longrightarrow> get (put k v m) a = get m a"
  by (simp add: get_put)

lemma get_del_same: "get (del k m) k = None"
  by (simp add: get_del)

lemma get_del_other: "a \<noteq> k \<Longrightarrow> get (del k m) a = get m a"
  by (simp add: get_del)

text \<open>Replacing a value leaves a sum unchanged exactly when its own contribution is unchanged.\<close>

lemma total_put_same:
  "invar m \<Longrightarrow> get m k = Some u \<Longrightarrow> f v = f u \<Longrightarrow> total f (put k v m) = total f m"
  using total_put_old [of m k u f v] by simp

lemma total_put_minus:
  assumes "invar m" "get m k = Some u" "f u = f v + d"
  shows "total f (put k v m) = total f m - d"
  using total_put_old [OF assms(1,2), of f v] assms(3) by simp

lemma total_put_plus:
  assumes "invar m" "get m k = Some u" "f v = f u + d"
  shows "total f (put k v m) = total f m + d"
  using total_put_old [OF assms(1,2), of f v] assms(3) by simp

lemma total_del_minus:
  assumes "invar m" "get m k = Some u"
  shows "total f (del k m) = total f m - f u"
  using total_del [OF assms, of f] by simp

text \<open>A property of all values is kept by removal, and by insertion of a value that has it.\<close>

lemma all_values_put:
  assumes "\<And>a w. get m a = Some w \<Longrightarrow> P a w" and "P k v" and "get (put k v m) a = Some w"
  shows "P a w"
  using assms by (cases "a = k") (auto simp: get_put)

lemma all_values_del:
  assumes "\<And>a w. get m a = Some w \<Longrightarrow> P a w" and "get (del k m) a = Some w"
  shows "P a w"
  using assms by (cases "a = k") (auto simp: get_del)

end

interpretation btm: ordered_map bt_sorted bt_get bt_insert bt_remove bt_sum
  by unfold_locales
    (simp_all add: bt_get_insert bt_get_remove bt_sorted_insert bt_sorted_remove
      bt_sum_insert_new bt_sum_insert_old bt_sum_remove bt_sum_ge)

end
