(* ===== verification/Wire_Types.thy ===== *)
theory Wire_Types
  imports Velum_Prelude
begin

text \<open>
  The carrier-independent protocol types of \<^verbatim>\<open>crates/velum-protocol/src/types.rs\<close> and the error
  codes of \<^verbatim>\<open>crates/velum-protocol/src/lib.rs\<close>: identifiers, version ranges, capability sets,
  nonces, the negotiation offer and its outcome, and the canonical 42-byte transcript of the
  negotiated parameters that every attachment proof covers.

  Fixed-size arrays are byte lists; the \<open>wf_\<close> predicates state the array lengths and the
  non-zero guarantees that the Rust types carry by construction.
\<close>

unbundle bit_operations_syntax

section \<open>Error codes\<close>

datatype ProtocolErrorCode =
    NoSharedVersionCode
  | IncompatibleCapabilities
  | AuthenticationFailed
  | ReplayDetected
  | ProtocolViolation
  | ResourceLimit
  | FlowNotFound
  | FlowState
  | ResumeUnsupported
  | InternalCode
  | UnknownCode u16

fun ProtocolErrorCode_as_u16 :: "ProtocolErrorCode \<Rightarrow> u16" where
  "ProtocolErrorCode_as_u16 NoSharedVersionCode = 0x0001"
| "ProtocolErrorCode_as_u16 IncompatibleCapabilities = 0x0002"
| "ProtocolErrorCode_as_u16 AuthenticationFailed = 0x0003"
| "ProtocolErrorCode_as_u16 ReplayDetected = 0x0004"
| "ProtocolErrorCode_as_u16 ProtocolViolation = 0x0005"
| "ProtocolErrorCode_as_u16 ResourceLimit = 0x0006"
| "ProtocolErrorCode_as_u16 FlowNotFound = 0x0007"
| "ProtocolErrorCode_as_u16 FlowState = 0x0008"
| "ProtocolErrorCode_as_u16 ResumeUnsupported = 0x0009"
| "ProtocolErrorCode_as_u16 InternalCode = 0x00ff"
| "ProtocolErrorCode_as_u16 (UnknownCode value) = value"

definition ProtocolErrorCode_from_u16 :: "u16 \<Rightarrow> ProtocolErrorCode" where
  "ProtocolErrorCode_from_u16 value =
     (if value = 0x0001 then NoSharedVersionCode
      else if value = 0x0002 then IncompatibleCapabilities
      else if value = 0x0003 then AuthenticationFailed
      else if value = 0x0004 then ReplayDetected
      else if value = 0x0005 then ProtocolViolation
      else if value = 0x0006 then ResourceLimit
      else if value = 0x0007 then FlowNotFound
      else if value = 0x0008 then FlowState
      else if value = 0x0009 then ResumeUnsupported
      else if value = 0x00ff then InternalCode
      else UnknownCode value)"

text \<open>A code as \<^verbatim>\<open>from_u16\<close> builds it: \<^verbatim>\<open>Unknown\<close> does not alias an assigned value.\<close>

definition wf_code :: "ProtocolErrorCode \<Rightarrow> bool" where
  "wf_code c = (ProtocolErrorCode_from_u16 (ProtocolErrorCode_as_u16 c) = c)"

section \<open>Identifiers\<close>

datatype FlowId = FlowId (flow_id_value: u64)
datatype SessionId = SessionId (session_id_bytes: bytes)
datatype Epoch = Epoch (epoch_value: u64)
datatype Sequence = Sequence (sequence_value: u64)

definition wf_session_id :: "SessionId \<Rightarrow> bool" where
  "wf_session_id s = (length (session_id_bytes s) = 16)"

instantiation FlowId :: linorder
begin
definition less_eq_FlowId :: "FlowId \<Rightarrow> FlowId \<Rightarrow> bool" where
  "less_eq_FlowId a b = (flow_id_value a \<le> flow_id_value b)"
definition less_FlowId :: "FlowId \<Rightarrow> FlowId \<Rightarrow> bool" where
  "less_FlowId a b = (flow_id_value a < flow_id_value b)"
instance
  by standard (auto simp: less_eq_FlowId_def less_FlowId_def FlowId.expand)
end

instantiation Epoch :: linorder
begin
definition less_eq_Epoch :: "Epoch \<Rightarrow> Epoch \<Rightarrow> bool" where
  "less_eq_Epoch a b = (epoch_value a \<le> epoch_value b)"
definition less_Epoch :: "Epoch \<Rightarrow> Epoch \<Rightarrow> bool" where
  "less_Epoch a b = (epoch_value a < epoch_value b)"
instance
  by standard (auto simp: less_eq_Epoch_def less_Epoch_def Epoch.expand)
end

instantiation Sequence :: linorder
begin
definition less_eq_Sequence :: "Sequence \<Rightarrow> Sequence \<Rightarrow> bool" where
  "less_eq_Sequence a b = (sequence_value a \<le> sequence_value b)"
definition less_Sequence :: "Sequence \<Rightarrow> Sequence \<Rightarrow> bool" where
  "less_Sequence a b = (sequence_value a < sequence_value b)"
instance
  by standard (auto simp: less_eq_Sequence_def less_Sequence_def Sequence.expand)
end

section \<open>Version ranges\<close>

record VersionRange =
  minimum :: u16
  maximum :: u16

datatype VersionRangeError = InvalidRange

definition VersionRange_new :: "u16 \<Rightarrow> u16 \<Rightarrow> (VersionRangeError, VersionRange) result" where
  "VersionRange_new mn mx =
     (if mn > mx then Err InvalidRange else Ok \<lparr>minimum = mn, maximum = mx\<rparr>)"

definition VersionRange_is_valid :: "VersionRange \<Rightarrow> bool" where
  "VersionRange_is_valid r = (minimum r \<le> maximum r)"

definition VersionRange_negotiate :: "VersionRange \<Rightarrow> VersionRange \<Rightarrow> u16 option" where
  "VersionRange_negotiate self peer =
     (if \<not> VersionRange_is_valid self \<or> \<not> VersionRange_is_valid peer then None
      else
        let mn = (if minimum self > minimum peer then minimum self else minimum peer);
            mx = (if maximum self < maximum peer then maximum self else maximum peer)
        in if mn \<le> mx then Some mx else None)"

text \<open>Specification: the versions both ranges contain.\<close>

definition common_versions :: "VersionRange \<Rightarrow> VersionRange \<Rightarrow> u16 set" where
  "common_versions a b = {minimum a..maximum a} \<inter> {minimum b..maximum b}"

section \<open>Capabilities\<close>

datatype Capabilities = Capabilities (capability_bits: u64)

definition RELIABLE_STREAM :: Capabilities where
  "RELIABLE_STREAM = Capabilities (push_bit 0 1)"

definition UNRELIABLE_DATAGRAM :: Capabilities where
  "UNRELIABLE_DATAGRAM = Capabilities (push_bit 1 1)"

definition KNOWN_CAPABILITIES :: Capabilities where
  "KNOWN_CAPABILITIES =
     Capabilities (capability_bits RELIABLE_STREAM OR capability_bits UNRELIABLE_DATAGRAM)"

definition Capabilities_contains :: "Capabilities \<Rightarrow> Capabilities \<Rightarrow> bool" where
  "Capabilities_contains self other =
     (capability_bits self AND capability_bits other = capability_bits other)"

definition Capabilities_intersects :: "Capabilities \<Rightarrow> Capabilities \<Rightarrow> bool" where
  "Capabilities_intersects self other = (capability_bits self AND capability_bits other \<noteq> 0)"

definition Capabilities_intersection :: "Capabilities \<Rightarrow> Capabilities \<Rightarrow> Capabilities" where
  "Capabilities_intersection self other =
     Capabilities (capability_bits self AND capability_bits other)"

definition Capabilities_unknown :: "Capabilities \<Rightarrow> Capabilities" where
  "Capabilities_unknown self =
     Capabilities (capability_bits self AND NOT (capability_bits KNOWN_CAPABILITIES))"

record CapabilityAdvertisement =
  required :: Capabilities
  optional :: Capabilities

datatype CapabilityAdvertisementError = OverlappingBits

definition CapabilityAdvertisement_new ::
  "Capabilities \<Rightarrow> Capabilities \<Rightarrow> (CapabilityAdvertisementError, CapabilityAdvertisement) result"
where
  "CapabilityAdvertisement_new req opt =
     (if Capabilities_intersects req opt then Err OverlappingBits
      else Ok \<lparr>required = req, optional = opt\<rparr>)"

definition CapabilityAdvertisement_offered :: "CapabilityAdvertisement \<Rightarrow> Capabilities" where
  "CapabilityAdvertisement_offered adv =
     Capabilities (capability_bits (required adv) OR capability_bits (optional adv))"

section \<open>Nonces and attachment identifiers\<close>

text \<open>The scanning loop of both constructors: stop at the first non-zero byte.\<close>

fun scan_nonzero :: "bytes \<Rightarrow> bool" where
  "scan_nonzero [] = False"
| "scan_nonzero (b # bs) = (if b \<noteq> 0 then True else scan_nonzero bs)"

datatype HandshakeNonce = HandshakeNonce (HandshakeNonce_bytes: bytes)
datatype HandshakeNonceError = NonceAllZero

definition HandshakeNonce_new :: "bytes \<Rightarrow> (HandshakeNonceError, HandshakeNonce) result" where
  "HandshakeNonce_new bs =
     (if scan_nonzero bs then Ok (HandshakeNonce bs) else Err NonceAllZero)"

datatype AttachmentId = AttachmentId (AttachmentId_bytes: bytes)
datatype AttachmentIdError = AttachmentIdAllZero

definition AttachmentId_new :: "bytes \<Rightarrow> (AttachmentIdError, AttachmentId) result" where
  "AttachmentId_new bs =
     (if scan_nonzero bs then Ok (AttachmentId bs) else Err AttachmentIdAllZero)"

definition wf_nonce :: "HandshakeNonce \<Rightarrow> bool" where
  "wf_nonce n = (length (HandshakeNonce_bytes n) = 16 \<and> scan_nonzero (HandshakeNonce_bytes n))"

definition wf_attachment_id :: "AttachmentId \<Rightarrow> bool" where
  "wf_attachment_id a =
     (length (AttachmentId_bytes a) = 16 \<and> scan_nonzero (AttachmentId_bytes a))"

section \<open>Negotiation\<close>

record NegotiationOffer =
  versions :: VersionRange
  offer_capabilities :: CapabilityAdvertisement
  offer_client_nonce :: HandshakeNonce

record NegotiatedParameters =
  version :: u16
  capabilities :: Capabilities
  client_nonce :: HandshakeNonce
  server_nonce :: HandshakeNonce

datatype NegotiationError =
    InvalidVersionRange
  | InvalidCapabilityAdvertisement
  | NoSharedVersion
  | UnsupportedRequiredCapability
  | MissingReliableStream
  | InvalidSelection

definition NegotiationOffer_new ::
  "VersionRange \<Rightarrow> CapabilityAdvertisement \<Rightarrow> HandshakeNonce
   \<Rightarrow> (NegotiationError, NegotiationOffer) result"
where
  "NegotiationOffer_new vs caps nonce =
     (if \<not> VersionRange_is_valid vs then Err InvalidVersionRange
      else if Capabilities_intersects (required caps) (optional caps)
        then Err InvalidCapabilityAdvertisement
      else if \<not> Capabilities_contains (required caps) RELIABLE_STREAM
        then Err MissingReliableStream
      else Ok \<lparr>versions = vs, offer_capabilities = caps, offer_client_nonce = nonce\<rparr>)"

definition NegotiationOffer_negotiate ::
  "NegotiationOffer \<Rightarrow> VersionRange \<Rightarrow> Capabilities \<Rightarrow> HandshakeNonce
   \<Rightarrow> (NegotiationError, NegotiatedParameters) result"
where
  "NegotiationOffer_negotiate self server_versions server_capabilities nonce =
     (case VersionRange_negotiate (versions self) server_versions of
        None \<Rightarrow> Err NoSharedVersion
      | Some v \<Rightarrow>
          if \<not> Capabilities_contains server_capabilities (required (offer_capabilities self))
          then Err UnsupportedRequiredCapability
          else
            let enabled = Capabilities_intersection
                  (CapabilityAdvertisement_offered (offer_capabilities self)) server_capabilities
            in if \<not> Capabilities_contains enabled RELIABLE_STREAM then Err MissingReliableStream
               else Ok \<lparr>version = v, capabilities = enabled,
                        client_nonce = offer_client_nonce self, server_nonce = nonce\<rparr>)"

definition NegotiatedParameters_validate_for ::
  "NegotiatedParameters \<Rightarrow> NegotiationOffer \<Rightarrow> (NegotiationError, unit) result"
where
  "NegotiatedParameters_validate_for self offer =
     (if \<not> VersionRange_is_valid (versions offer)
         \<or> version self < minimum (versions offer)
         \<or> version self > maximum (versions offer)
         \<or> \<not> Capabilities_contains
               (CapabilityAdvertisement_offered (offer_capabilities offer)) (capabilities self)
         \<or> \<not> Capabilities_contains (capabilities self) (required (offer_capabilities offer))
         \<or> \<not> Capabilities_contains (capabilities self) RELIABLE_STREAM
         \<or> HandshakeNonce_bytes (client_nonce self) \<noteq> HandshakeNonce_bytes (offer_client_nonce offer)
      then Err InvalidSelection else Ok ())"

abbreviation NEGOTIATED_PARAMETERS_BYTES :: nat where
  "NEGOTIATED_PARAMETERS_BYTES \<equiv> 42"

text \<open>
  The in-place copy of the two nonces: index \<open>i\<close> runs to the length of the client nonce. An
  index past the end of an array would panic in Rust; the arrays have their fixed sizes in every
  well-formed value.
\<close>

function copy_nonces :: "nat \<Rightarrow> bytes \<Rightarrow> bytes \<Rightarrow> bytes \<Rightarrow> bytes" where
  "copy_nonces i cn sn bs =
     (if i < length cn
      then copy_nonces (Suc i) cn sn (bs[10 + i := cn ! i, 26 + i := sn ! i])
      else bs)"
  by pat_completeness auto
termination
  by (relation "measure (\<lambda>(i, cn, sn, bs). length cn - i)") auto

definition NegotiatedParameters_canonical_bytes :: "NegotiatedParameters \<Rightarrow> bytes" where
  "NegotiatedParameters_canonical_bytes self =
     (let bs = replicate NEGOTIATED_PARAMETERS_BYTES 0;
          ver = u16_to_be_bytes (version self);
          cap = u64_to_be_bytes (capability_bits (capabilities self));
          bs = bs[0 := ver ! 0, 1 := ver ! 1, 2 := cap ! 0, 3 := cap ! 1, 4 := cap ! 2,
                  5 := cap ! 3, 6 := cap ! 4, 7 := cap ! 5, 8 := cap ! 6, 9 := cap ! 7]
      in copy_nonces 0 (HandshakeNonce_bytes (client_nonce self))
           (HandshakeNonce_bytes (server_nonce self)) bs)"

definition wf_parameters :: "NegotiatedParameters \<Rightarrow> bool" where
  "wf_parameters p = (wf_nonce (client_nonce p) \<and> wf_nonce (server_nonce p))"

text \<open>An offer as the constructors build it.\<close>

definition wf_offer :: "NegotiationOffer \<Rightarrow> bool" where
  "wf_offer off =
     (NegotiationOffer_new (versions off) (offer_capabilities off) (offer_client_nonce off) = Ok off
      \<and> wf_nonce (offer_client_nonce off))"

section \<open>Error codes: lemmas\<close>

lemma ProtocolErrorCode_as_from_u16 [simp]:
  "ProtocolErrorCode_as_u16 (ProtocolErrorCode_from_u16 v) = v"
  by (simp add: ProtocolErrorCode_from_u16_def)

lemma wf_code_from_u16 [simp]: "wf_code (ProtocolErrorCode_from_u16 v)"
  by (simp add: wf_code_def)

lemma wf_code_roundtrip: "wf_code c \<Longrightarrow> ProtocolErrorCode_from_u16 (ProtocolErrorCode_as_u16 c) = c"
  by (simp add: wf_code_def)

section \<open>Identifiers: lemmas\<close>

lemma FlowId_order [simp]: "FlowId a \<le> FlowId b \<longleftrightarrow> a \<le> b" "FlowId a < FlowId b \<longleftrightarrow> a < b"
  by (simp_all add: less_eq_FlowId_def less_FlowId_def)

lemma Epoch_order [simp]: "Epoch a \<le> Epoch b \<longleftrightarrow> a \<le> b" "Epoch a < Epoch b \<longleftrightarrow> a < b"
  by (simp_all add: less_eq_Epoch_def less_Epoch_def)

lemma Sequence_order [simp]:
  "Sequence a \<le> Sequence b \<longleftrightarrow> a \<le> b" "Sequence a < Sequence b \<longleftrightarrow> a < b"
  by (simp_all add: less_eq_Sequence_def less_Sequence_def)

lemma scan_nonzero_iff: "scan_nonzero bs \<longleftrightarrow> (\<exists>b \<in> set bs. b \<noteq> 0)"
  by (induction bs) auto

lemma HandshakeNonce_new_Ok [simp]:
  "HandshakeNonce_new bs = Ok n \<longleftrightarrow> n = HandshakeNonce bs \<and> scan_nonzero bs"
  by (auto simp: HandshakeNonce_new_def)

lemma AttachmentId_new_Ok [simp]:
  "AttachmentId_new bs = Ok a \<longleftrightarrow> a = AttachmentId bs \<and> scan_nonzero bs"
  by (auto simp: AttachmentId_new_def)

section \<open>Capabilities: lemmas\<close>

lemma Capabilities_contains_iff:
  "Capabilities_contains a b
     \<longleftrightarrow> (\<forall>n. bit (capability_bits b) n \<longrightarrow> bit (capability_bits a) n)"
proof -
  have "n < 64" if "bit (w :: u64) n" for w n
    using that bit_imp_le_length [of w n] by simp
  then show ?thesis
    by (auto simp: Capabilities_contains_def bit_eq_iff bit_simps)
qed

lemma Capabilities_contains_trans:
  "Capabilities_contains a b \<Longrightarrow> Capabilities_contains b c \<Longrightarrow> Capabilities_contains a c"
  by (simp add: Capabilities_contains_iff)

lemma Capabilities_intersection_contained:
  "Capabilities_contains a (Capabilities_intersection a b)"
  "Capabilities_contains b (Capabilities_intersection a b)"
  by (auto simp: Capabilities_contains_iff Capabilities_intersection_def bit_simps)

lemma Capabilities_intersection_greatest:
  "Capabilities_contains a c \<Longrightarrow> Capabilities_contains b c
     \<Longrightarrow> Capabilities_contains (Capabilities_intersection a b) c"
  by (auto simp: Capabilities_contains_iff Capabilities_intersection_def bit_simps)

lemma offered_contains_required:
  "Capabilities_contains (CapabilityAdvertisement_offered adv) (required adv)"
  by (auto simp: Capabilities_contains_iff CapabilityAdvertisement_offered_def bit_simps)

section \<open>Version negotiation: lemmas\<close>

lemma VersionRange_negotiate_Some_iff:
  "VersionRange_negotiate a b = Some v
     \<longleftrightarrow> v \<in> common_versions a b \<and> (\<forall>w \<in> common_versions a b. w \<le> v)"
proof -
  have "\<not> VersionRange_is_valid a \<or> \<not> VersionRange_is_valid b \<Longrightarrow> common_versions a b = {}"
    by (auto simp: VersionRange_is_valid_def common_versions_def)
  then show ?thesis
    by (cases "VersionRange_is_valid a \<and> VersionRange_is_valid b")
      (auto simp: VersionRange_negotiate_def common_versions_def Let_def VersionRange_is_valid_def
        intro!: antisym split: if_splits)
qed

lemma VersionRange_negotiate_None_iff:
  "VersionRange_negotiate a b = None \<longleftrightarrow> common_versions a b = {}"
  by (auto simp: VersionRange_negotiate_def common_versions_def Let_def VersionRange_is_valid_def
      split: if_splits)

section \<open>The canonical transcript\<close>

declare copy_nonces.simps [simp del]

lemma length_copy_nonces [simp]: "length (copy_nonces i cn sn bs) = length bs"
proof (induction i cn sn bs rule: copy_nonces.induct)
  case (1 i cn sn bs)
  then show ?case by (subst copy_nonces.simps) simp
qed

lemma nth_copy_nonces:
  assumes "length cn = 16" "length sn = 16" "length bs = 42" "i \<le> 16" "j < 42"
  shows "copy_nonces i cn sn bs ! j =
    (if 10 + i \<le> j \<and> j < 26 then cn ! (j - 10)
     else if 26 + i \<le> j then sn ! (j - 26) else bs ! j)"
  using assms
proof (induction i cn sn bs rule: copy_nonces.induct)
  case (1 i cn sn bs)
  show ?case
  proof (cases "i < 16")
    case True
    let ?bs = "bs[10 + i := cn ! i, 26 + i := sn ! i]"
    have "copy_nonces i cn sn bs ! j = copy_nonces (Suc i) cn sn ?bs ! j"
      using True 1 by (subst copy_nonces.simps) simp
    also have "\<dots> = (if 10 + Suc i \<le> j \<and> j < 26 then cn ! (j - 10)
        else if 26 + Suc i \<le> j then sn ! (j - 26) else ?bs ! j)"
      using True 1 by simp
    finally have step: "copy_nonces i cn sn bs ! j = (if 10 + Suc i \<le> j \<and> j < 26 then cn ! (j - 10)
        else if 26 + Suc i \<le> j then sn ! (j - 26) else ?bs ! j)" .
    consider "j = 10 + i" | "j = 26 + i" | "j \<noteq> 10 + i" "j \<noteq> 26 + i"
      by blast
    then show ?thesis
      using True 1 step by cases auto
  next
    case False
    then show ?thesis
      using 1 by (subst copy_nonces.simps) auto
  qed
qed

lemma list2_expand: "length xs = 2 \<Longrightarrow> xs = [xs ! 0, xs ! 1]"
  by (auto simp: list_eq_iff_nth_eq less_Suc_eq numeral_eq_Suc)

lemma list8_expand:
  "length xs = 8 \<Longrightarrow> xs = [xs ! 0, xs ! 1, xs ! 2, xs ! 3, xs ! 4, xs ! 5, xs ! 6, xs ! 7]"
  by (auto simp: list_eq_iff_nth_eq less_Suc_eq numeral_eq_Suc)

lemma canonical_header:
  fixes v c :: bytes
  assumes "length v = 2" "length c = 8"
  shows "(replicate 42 0)[0 := v ! 0, 1 := v ! 1, 2 := c ! 0, 3 := c ! 1, 4 := c ! 2,
      5 := c ! 3, 6 := c ! 4, 7 := c ! 5, 8 := c ! 6, 9 := c ! 7] = v @ c @ replicate 32 0"
proof -
  have r: "replicate 42 (0::u8) = [0, 0, 0, 0, 0, 0, 0, 0, 0, 0] @ replicate 32 0"
    by (simp add: numeral_eq_Suc)
  show ?thesis
    unfolding r
    by (subst (2) list2_expand [OF assms(1)], subst (9) list8_expand [OF assms(2)]) simp
qed

text \<open>The index-by-index construction is plain concatenation of the four fields.\<close>

lemma canonical_bytes_concat:
  assumes "wf_parameters p"
  shows "NegotiatedParameters_canonical_bytes p =
    u16_to_be_bytes (version p) @ u64_to_be_bytes (capability_bits (capabilities p))
    @ HandshakeNonce_bytes (client_nonce p) @ HandshakeNonce_bytes (server_nonce p)"
proof -
  let ?h = "u16_to_be_bytes (version p) @ u64_to_be_bytes (capability_bits (capabilities p))"
  let ?c = "HandshakeNonce_bytes (client_nonce p)"
  let ?s = "HandshakeNonce_bytes (server_nonce p)"
  have len: "length ?c = 16" "length ?s = 16" "length ?h = 10"
    using assms by (simp_all add: wf_parameters_def wf_nonce_def)
  have "NegotiatedParameters_canonical_bytes p = copy_nonces 0 ?c ?s (?h @ replicate 32 0)"
    unfolding NegotiatedParameters_canonical_bytes_def Let_def
    by (subst canonical_header) simp_all
  also have "\<dots> = ?h @ ?c @ ?s"
  proof (rule nth_equalityI)
    show "length (copy_nonces 0 ?c ?s (?h @ replicate 32 0)) = length (?h @ ?c @ ?s)"
      using len by simp
  next
    fix j assume "j < length (copy_nonces 0 ?c ?s (?h @ replicate 32 0))"
    then have "j < 42" using len by simp
    then show "copy_nonces 0 ?c ?s (?h @ replicate 32 0) ! j = (?h @ ?c @ ?s) ! j"
      using len by (subst nth_copy_nonces) (auto simp: nth_append simp del: append_assoc)
  qed
  finally show ?thesis by simp
qed

lemma length_canonical_bytes [simp]: "length (NegotiatedParameters_canonical_bytes p) = 42"
  by (simp add: NegotiatedParameters_canonical_bytes_def Let_def)

lemma canonical_bytes_inj:
  assumes "wf_parameters p" "wf_parameters q"
    and "NegotiatedParameters_canonical_bytes p = NegotiatedParameters_canonical_bytes q"
  shows "p = q"
proof -
  have "version p = version q" "capabilities p = capabilities q"
    "client_nonce p = client_nonce q" "server_nonce p = server_nonce q"
    using assms
    by (auto simp: canonical_bytes_concat wf_parameters_def wf_nonce_def append_eq_append_conv
        Capabilities.expand HandshakeNonce.expand)
  then show ?thesis by simp
qed

section \<open>Negotiation: lemmas\<close>

lemma NegotiationOffer_new_Ok_iff:
  "NegotiationOffer_new vs caps nonce = Ok off \<longleftrightarrow>
     VersionRange_is_valid vs \<and> \<not> Capabilities_intersects (required caps) (optional caps)
     \<and> Capabilities_contains (required caps) RELIABLE_STREAM
     \<and> off = \<lparr>versions = vs, offer_capabilities = caps, offer_client_nonce = nonce\<rparr>"
  by (auto simp: NegotiationOffer_new_def)

lemma wf_offer_iff:
  "wf_offer off \<longleftrightarrow> VersionRange_is_valid (versions off)
     \<and> \<not> Capabilities_intersects (required (offer_capabilities off)) (optional (offer_capabilities off))
     \<and> Capabilities_contains (required (offer_capabilities off)) RELIABLE_STREAM
     \<and> wf_nonce (offer_client_nonce off)"
  by (auto simp: wf_offer_def NegotiationOffer_new_Ok_iff)

lemma NegotiationOffer_negotiate_Ok_iff:
  "NegotiationOffer_negotiate off sv sc nonce = Ok p \<longleftrightarrow>
     (\<exists>v. VersionRange_negotiate (versions off) sv = Some v
        \<and> Capabilities_contains sc (required (offer_capabilities off))
        \<and> Capabilities_contains (Capabilities_intersection
             (CapabilityAdvertisement_offered (offer_capabilities off)) sc) RELIABLE_STREAM
        \<and> p = \<lparr>version = v, capabilities = Capabilities_intersection
             (CapabilityAdvertisement_offered (offer_capabilities off)) sc,
             client_nonce = offer_client_nonce off, server_nonce = nonce\<rparr>)"
  by (auto simp: NegotiationOffer_negotiate_def Let_def split: option.splits)

section \<open>Properties\<close>

text \<open>
  Version negotiation is exact: \<^verbatim>\<open>VersionRange::negotiate\<close> returns a version precisely when
  it is the newest version both ranges contain, and nothing precisely when they share none
  (malformed ranges contain no version).
\<close>

theorem version_negotiation_newest:
  "(VersionRange_negotiate a b = Some v
      \<longleftrightarrow> is_arg_max unat (\<lambda>w. w \<in> common_versions a b) v)
   \<and> (VersionRange_negotiate a b = None \<longleftrightarrow> common_versions a b = {})"
  by (auto simp: VersionRange_negotiate_Some_iff VersionRange_negotiate_None_iff is_arg_max_linorder
      word_le_nat_alt)

text \<open>
  A successful negotiation is sound for both sides: the client's own check
  \<^verbatim>\<open>validate_for\<close> accepts the result, the version lies in the server's range, and the enabled
  capabilities are exactly those offered by the client and supported by the server, with every
  required one and the reliable stream among them.
\<close>

theorem negotiation_sound:
  assumes "wf_offer offer"
    and "NegotiationOffer_negotiate offer server_versions server_capabilities nonce = Ok p"
  shows "NegotiatedParameters_validate_for p offer = Ok ()
    \<and> version p \<in> {minimum server_versions..maximum server_versions}
    \<and> capabilities p = Capabilities_intersection
         (CapabilityAdvertisement_offered (offer_capabilities offer)) server_capabilities
    \<and> Capabilities_contains server_capabilities (capabilities p)
    \<and> server_nonce p = nonce"
proof -
  let ?off = "CapabilityAdvertisement_offered (offer_capabilities offer)"
  let ?en = "Capabilities_intersection ?off server_capabilities"
  have neg: "VersionRange_negotiate (versions offer) server_versions = Some (version p)"
    "Capabilities_contains server_capabilities (required (offer_capabilities offer))"
    "capabilities p = ?en" "Capabilities_contains ?en RELIABLE_STREAM"
    "client_nonce p = offer_client_nonce offer" "server_nonce p = nonce"
    using assms(2)
    by (auto simp: NegotiationOffer_negotiate_def Let_def split: option.splits if_splits)
  have ver: "version p \<in> common_versions (versions offer) server_versions"
    using neg(1) by (simp add: VersionRange_negotiate_Some_iff)
  have valid: "VersionRange_is_valid (versions offer)"
    using assms(1) by (simp add: wf_offer_iff)
  have "Capabilities_contains ?en (required (offer_capabilities offer))"
    by (rule Capabilities_intersection_greatest [OF offered_contains_required neg(2)])
  then show ?thesis
    using neg ver valid Capabilities_intersection_contained(1) [of ?off server_capabilities]
      Capabilities_intersection_contained(2) [of server_capabilities ?off]
    by (auto simp: NegotiatedParameters_validate_for_def common_versions_def)
qed

theorem negotiation_sound_witness:
  "let nonce = HandshakeNonce (1 # replicate 15 0);
       offer = \<lparr>versions = \<lparr>minimum = 1, maximum = 3\<rparr>,
          offer_capabilities = \<lparr>required = Capabilities 1, optional = Capabilities 6\<rparr>,
          offer_client_nonce = nonce\<rparr>;
       p = \<lparr>version = 2, capabilities = Capabilities 3, client_nonce = nonce, server_nonce = nonce\<rparr>
   in NegotiationOffer_negotiate offer \<lparr>minimum = 0, maximum = 2\<rparr> (Capabilities 3) nonce = Ok p
      \<and> NegotiatedParameters_validate_for p offer = Ok ()"
proof -
  let ?nonce = "HandshakeNonce (1 # replicate 15 0)"
  let ?offer = "\<lparr>versions = \<lparr>minimum = 1, maximum = 3\<rparr>,
      offer_capabilities = \<lparr>required = Capabilities 1, optional = Capabilities 6\<rparr>,
      offer_client_nonce = ?nonce\<rparr>"
  have wf: "wf_offer ?offer"
    by (simp add: wf_offer_def NegotiationOffer_new_def VersionRange_is_valid_def wf_nonce_def
        Capabilities_intersects_def Capabilities_contains_def RELIABLE_STREAM_def)
  have neg: "NegotiationOffer_negotiate ?offer \<lparr>minimum = 0, maximum = 2\<rparr> (Capabilities 3) ?nonce
      = Ok \<lparr>version = 2, capabilities = Capabilities 3, client_nonce = ?nonce, server_nonce = ?nonce\<rparr>"
    by (simp add: NegotiationOffer_negotiate_def VersionRange_negotiate_def VersionRange_is_valid_def
        Capabilities_contains_def Capabilities_intersection_def CapabilityAdvertisement_offered_def
        RELIABLE_STREAM_def)
  show ?thesis
    using negotiation_sound [OF wf neg] neg by (simp add: Let_def)
qed

text \<open>
  The transcript that attachment proofs cover identifies the negotiated parameters: two
  well-formed parameter sets with the same 42 canonical bytes are equal.
\<close>

theorem transcript_injective:
  assumes "wf_parameters p" and "wf_parameters q"
    and "NegotiatedParameters_canonical_bytes p = NegotiatedParameters_canonical_bytes q"
  shows "p = q \<and> length (NegotiatedParameters_canonical_bytes p) = NEGOTIATED_PARAMETERS_BYTES"
  using assms canonical_bytes_inj [of p q]
  by (simp add: canonical_bytes_concat wf_parameters_def wf_nonce_def)

theorem transcript_injective_witness:
  "length (NegotiatedParameters_canonical_bytes
     \<lparr>version = 1, capabilities = Capabilities 1,
       client_nonce = HandshakeNonce (1 # replicate 15 0),
       server_nonce = HandshakeNonce (2 # replicate 15 0)\<rparr>) = 42"
proof -
  let ?p = "\<lparr>version = 1, capabilities = Capabilities 1,
      client_nonce = HandshakeNonce (1 # replicate 15 0),
      server_nonce = HandshakeNonce (2 # replicate 15 0)\<rparr>"
  have "wf_parameters ?p"
    by (simp add: wf_parameters_def wf_nonce_def)
  from transcript_injective [OF this this refl] show ?thesis by simp
qed

end
