(* ===== verification/Carrier_Policy.thy ===== *)
theory Carrier_Policy
  imports Wire_Types
begin

text \<open>
  The carrier contract's data (\<^verbatim>\<open>crates/velum-carrier-api/src/lib.rs\<close>), the redacted event
  vocabulary (\<^verbatim>\<open>crates/velum-telemetry/src/lib.rs\<close>) and the placement policy with its hysteresis
  (\<^verbatim>\<open>crates/velum-policy/src/lib.rs\<close> and \<^verbatim>\<open>transition.rs\<close>). The policy is a pure function of two
  observations, two counters and the time of the last transition; \<open>policy_run\<close> is a caller that
  feeds it observation after observation and remembers when it last moved.
\<close>

section \<open>Carriers\<close>

datatype CarrierId = CarrierId u64

datatype CarrierKind = Quic | Tls

datatype Reliability = StreamReliability | DatagramReliability

record CarrierCapabilities =
  streams :: bool
  datagrams :: bool
  max_datagram_payload :: "nat option"

fun CarrierCapabilities_supports :: "CarrierCapabilities \<Rightarrow> Reliability \<Rightarrow> bool" where
  "CarrierCapabilities_supports c StreamReliability = streams c"
| "CarrierCapabilities_supports c DatagramReliability = datagrams c"

record CarrierHealth =
  round_trip_time_millis :: "u64 option"
  loss_parts_per_million :: "u32 option"
  is_healthy :: bool

datatype CarrierError =
    CarrierClosed
  | UnsupportedReliability Reliability
  | DatagramTooLarge nat nat
  | TransportError

section \<open>Events\<close>

datatype CarrierClass = QuicClass | TlsClass

datatype EventReason =
    EventPrimaryUnhealthy
  | EventPrimaryRecovered
  | EventLossThresholdExceeded
  | EventLatencyThresholdExceeded

datatype TransitionRejection =
    IncompatibleVersion
  | DatagramFlow
  | FlowControlExhausted
  | AttachmentRejected

datatype SessionEvent =
    EventFlowOpened
  | EventFlowTimedOut
  | PendingLimitReached
  | DuplicateIgnored
  | OutOfOrderRejected
  | TransitionStarted CarrierClass CarrierClass EventReason
  | TransitionCompleted
  | TransitionRejected TransitionRejection

fun carrier_class :: "CarrierKind \<Rightarrow> CarrierClass" where
  "carrier_class Quic = QuicClass"
| "carrier_class Tls = TlsClass"

section \<open>Placement policy\<close>

record FlowRequirement =
  requirement_reliability :: Reliability

definition fallback_supports :: "FlowRequirement \<Rightarrow> bool" where
  "fallback_supports requirement = (requirement_reliability requirement = StreamReliability)"

datatype FallbackMode = Cold | Warm

datatype TransitionReason =
    PrimaryUnhealthy
  | PrimaryRecovered
  | LossThresholdExceeded
  | LatencyThresholdExceeded

datatype TransitionDecision = Stay | Transition FallbackMode TransitionReason CarrierKind

record CarrierObservation =
  obs_kind :: CarrierKind
  obs_health :: CarrierHealth
  at_millis :: u64

record TransitionPolicy =
  fallback_mode :: FallbackMode
  unhealthy_observations :: u32
  recovery_observations :: u32
  minimum_transition_interval_millis :: u64
  maximum_loss_parts_per_million :: u32
  maximum_round_trip_time_millis :: u64

definition is_some_and :: "'a option \<Rightarrow> ('a \<Rightarrow> bool) \<Rightarrow> bool" where
  "is_some_and x p = (case x of None \<Rightarrow> False | Some a \<Rightarrow> p a)"

definition TransitionPolicy_reason ::
  "TransitionPolicy \<Rightarrow> CarrierKind \<Rightarrow> CarrierObservation \<Rightarrow> u32 \<Rightarrow> u32
   \<Rightarrow> (TransitionReason \<times> CarrierKind) option"
where
  "TransitionPolicy_reason self active primary consecutive_unhealthy consecutive_recovered =
     (if active = Quic \<and> \<not> is_healthy (obs_health primary)
         \<and> consecutive_unhealthy \<ge> unhealthy_observations self
      then Some (PrimaryUnhealthy, Tls)
      else if active = Quic
         \<and> is_some_and (loss_parts_per_million (obs_health primary))
             (\<lambda>loss. loss > maximum_loss_parts_per_million self)
         \<and> consecutive_unhealthy \<ge> unhealthy_observations self
      then Some (LossThresholdExceeded, Tls)
      else if active = Quic
         \<and> is_some_and (round_trip_time_millis (obs_health primary))
             (\<lambda>rtt. rtt > maximum_round_trip_time_millis self)
         \<and> consecutive_unhealthy \<ge> unhealthy_observations self
      then Some (LatencyThresholdExceeded, Tls)
      else if active = Tls \<and> is_healthy (obs_health primary)
         \<and> consecutive_recovered \<ge> recovery_observations self
      then Some (PrimaryRecovered, Quic)
      else None)"

definition TransitionPolicy_decide ::
  "TransitionPolicy \<Rightarrow> CarrierKind \<Rightarrow> CarrierObservation \<Rightarrow> CarrierObservation \<Rightarrow> u32 \<Rightarrow> u32
   \<Rightarrow> u64 option \<Rightarrow> TransitionDecision"
where
  "TransitionPolicy_decide self active primary fallback consecutive_unhealthy
       consecutive_recovered last_transition_at_millis =
     (if active = Quic \<and> (obs_kind fallback \<noteq> Tls \<or> \<not> is_healthy (obs_health fallback)) then Stay
      else if is_some_and last_transition_at_millis
          (\<lambda>prev. saturating_sub (at_millis primary) prev < minimum_transition_interval_millis self)
      then Stay
      else
        (case TransitionPolicy_reason self active primary consecutive_unhealthy consecutive_recovered of
           None \<Rightarrow> Stay
         | Some (reason, to) \<Rightarrow> Transition (fallback_mode self) reason to))"

text \<open>
  A caller of the policy: one observation of both carriers with the two counters at a time, the
  active carrier and the time of the last transition remembered; it returns the times at which
  it moved.
\<close>

fun policy_run ::
  "TransitionPolicy \<Rightarrow> CarrierKind \<Rightarrow> u64 option
   \<Rightarrow> (CarrierObservation \<times> CarrierObservation \<times> u32 \<times> u32) list \<Rightarrow> u64 list"
where
  "policy_run p active prev [] = []"
| "policy_run p active prev ((primary, fallback, unhealthy, recovered) # obs) =
     (case TransitionPolicy_decide p active primary fallback unhealthy recovered prev of
        Stay \<Rightarrow> policy_run p active prev obs
      | Transition _ _ to \<Rightarrow>
          at_millis primary # policy_run p to (Some (at_millis primary)) obs)"

section \<open>Lemmas\<close>

lemma is_some_and_simps [simp]:
  "is_some_and None p \<longleftrightarrow> False" "is_some_and (Some a) p \<longleftrightarrow> p a"
  by (simp_all add: is_some_and_def)

lemma unat_saturating_sub: "unat (saturating_sub a b) = unat a - unat (b :: 'a::len word)"
  by (auto simp: saturating_sub_def unat_sub word_le_nat_alt)

lemma decide_Transition_iff:
  "TransitionPolicy_decide p active primary fallback u r prev = Transition mode reason to
     \<longleftrightarrow> mode = fallback_mode p
       \<and> (active = Quic \<longrightarrow> obs_kind fallback = Tls \<and> is_healthy (obs_health fallback))
       \<and> (\<forall>t. prev = Some t
            \<longrightarrow> unat (minimum_transition_interval_millis p) \<le> unat (at_millis primary) - unat t)
       \<and> TransitionPolicy_reason p active primary u r = Some (reason, to)"
  by (cases prev)
    (auto simp: TransitionPolicy_decide_def word_less_nat_alt unat_saturating_sub not_less
      split: option.splits if_splits)

lemma policy_run_spaced:
  "sorted_wrt (\<lambda>s t. unat s + unat (minimum_transition_interval_millis p) \<le> unat t)
     (case prev of None \<Rightarrow> policy_run p active prev obs
      | Some t \<Rightarrow> t # policy_run p active prev obs)"
  if "0 < minimum_transition_interval_millis p"
  using that
proof (induction p active prev obs rule: policy_run.induct)
  case (1 p active prev)
  then show ?case by (cases prev) simp_all
next
  case (2 p active prev primary fallback unhealthy recovered obs)
  let ?d = "TransitionPolicy_decide p active primary fallback unhealthy recovered prev"
  show ?case
  proof (cases ?d)
    case Stay
    then show ?thesis using 2 by (cases prev) simp_all
  next
    case (Transition mode reason to)
    have IH: "sorted_wrt (\<lambda>s t. unat s + unat (minimum_transition_interval_millis p) \<le> unat t)
        (at_millis primary # policy_run p to (Some (at_millis primary)) obs)"
      using 2(2) [OF Transition 2(3)] by simp
    have "unat t + unat (minimum_transition_interval_millis p) \<le> unat (at_millis primary)"
      if "prev = Some t" for t
    proof -
      have "unat (minimum_transition_interval_millis p) \<le> unat (at_millis primary) - unat t"
        using Transition that by (simp add: decide_Transition_iff)
      moreover have "0 < unat (minimum_transition_interval_millis p)"
        using 2(3) by (simp add: word_less_nat_alt)
      ultimately show ?thesis by linarith
    qed
    then show ?thesis
      using IH Transition by (cases prev) fastforce+
  qed
qed

section \<open>Properties\<close>

text \<open>
  The policy recommends a change exactly under its documented conditions: only to a healthy
  TLS fallback when QUIC is active, never within the minimum interval after the last change,
  only after the configured number of consecutive observations, and always to the other carrier
  with the configured mode.
\<close>

theorem policy_decision_exact:
  "TransitionPolicy_decide p active primary fallback u r prev = Transition mode reason to
     \<longleftrightarrow> mode = fallback_mode p \<and> to \<noteq> active
       \<and> (prev = None \<or> unat (minimum_transition_interval_millis p)
            \<le> unat (at_millis primary) - unat (the prev))
       \<and> (case active of
            Quic \<Rightarrow> obs_kind fallback = Tls \<and> is_healthy (obs_health fallback)
              \<and> unhealthy_observations p \<le> u
              \<and> (if \<not> is_healthy (obs_health primary) then reason = PrimaryUnhealthy
                 else if is_some_and (loss_parts_per_million (obs_health primary))
                   (\<lambda>loss. maximum_loss_parts_per_million p < loss)
                 then reason = LossThresholdExceeded
                 else is_some_and (round_trip_time_millis (obs_health primary))
                     (\<lambda>rtt. maximum_round_trip_time_millis p < rtt)
                   \<and> reason = LatencyThresholdExceeded)
          | Tls \<Rightarrow> is_healthy (obs_health primary) \<and> recovery_observations p \<le> r
              \<and> reason = PrimaryRecovered)"
  by (cases active; cases prev; cases to)
    (auto simp: decide_Transition_iff TransitionPolicy_reason_def split: if_splits)

text \<open>
  Rate limit: whatever is observed, in whatever order (the clock may even run backwards), two
  changes recommended to a caller that remembers the time of the last one are at least the
  configured positive interval apart.
\<close>

theorem policy_rate_limited:
  assumes "0 < minimum_transition_interval_millis p"
  shows "sorted_wrt (\<lambda>s t. unat s + unat (minimum_transition_interval_millis p) \<le> unat t)
    (policy_run p active None obs)"
  using policy_run_spaced [OF assms, where prev = None] by simp

theorem policy_rate_limited_witness:
  "let policy = \<lparr>fallback_mode = Warm, unhealthy_observations = 1, recovery_observations = 1,
         minimum_transition_interval_millis = 10, maximum_loss_parts_per_million = 5,
         maximum_round_trip_time_millis = 100\<rparr>;
       health = (\<lambda>b. \<lparr>round_trip_time_millis = None, loss_parts_per_million = None, is_healthy = b\<rparr>);
       obs = (\<lambda>b t. (\<lparr>obs_kind = Quic, obs_health = health b, at_millis = t\<rparr>,
                     \<lparr>obs_kind = Tls, obs_health = health True, at_millis = t\<rparr>, 1, 1))
   in policy_run policy Quic None [obs False 3, obs True 9, obs True 14] = [3, 14]
      \<and> sorted_wrt (\<lambda>s t. unat s + unat (minimum_transition_interval_millis policy) \<le> unat t)
           (policy_run policy Quic None [obs False 3, obs True 9, obs True 14])"
  unfolding Let_def
proof (intro conjI)
  show "sorted_wrt (\<lambda>s t. unat s + unat (minimum_transition_interval_millis
      \<lparr>fallback_mode = Warm, unhealthy_observations = 1, recovery_observations = 1,
         minimum_transition_interval_millis = 10, maximum_loss_parts_per_million = 5,
         maximum_round_trip_time_millis = 100\<rparr>) \<le> unat t)
    (policy_run \<lparr>fallback_mode = Warm, unhealthy_observations = 1, recovery_observations = 1,
         minimum_transition_interval_millis = 10, maximum_loss_parts_per_million = 5,
         maximum_round_trip_time_millis = 100\<rparr> Quic None obs)" for obs
    by (rule policy_rate_limited) simp
qed (simp add: TransitionPolicy_decide_def TransitionPolicy_reason_def saturating_sub_def)

end
