(* ===== verification/Attachment_Crypto.thy ===== *)
theory Attachment_Crypto
  imports Wire_Types
begin

text \<open>
  \<^verbatim>\<open>crates/velum-crypto/src/lib.rs\<close>: the proof that binds a carrier to a session, an epoch, an
  attachment identifier and the negotiated transcript, and the window that remembers the latest
  accepted epoch.

  HMAC-SHA256 is the \<^verbatim>\<open>ring\<close> crate's and not part of these sources. It is the parameter \<open>sign\<close>
  of the definitions below, from the key bytes given to \<^verbatim>\<open>hmac::Key::new\<close> and the message to the
  tag. \<^verbatim>\<open>hmac::verify\<close> is documented as recomputing the tag and comparing it. No property assumes
  that \<open>sign\<close> is injective, which no function into 32-byte tags is: where unforgeability is
  wanted the conclusion names the collision an attacker must have.
\<close>

type_synonym hmac = "bytes \<Rightarrow> bytes \<Rightarrow> bytes"

definition ascii :: "string \<Rightarrow> bytes" where
  "ascii s = map (\<lambda>c. of_char c) s"

definition ATTACHMENT_KEY_LABEL :: bytes where
  "ATTACHMENT_KEY_LABEL = ascii ''velum v0 attachment key''"

definition ATTACHMENT_CONTEXT_LABEL :: bytes where
  "ATTACHMENT_CONTEXT_LABEL = ascii ''velum v0 carrier attachment''"

abbreviation ATTACHMENT_PROOF_BYTES :: nat where
  "ATTACHMENT_PROOF_BYTES \<equiv> 32"

datatype AttachmentProof = AttachmentProof (proof_bytes: bytes)

datatype AttachmentAuthenticationError = EmptySecret | InvalidProof

record AttachmentAuthenticator =
  auth_key :: bytes

definition AttachmentAuthenticator_new ::
  "hmac \<Rightarrow> bytes \<Rightarrow> (AttachmentAuthenticationError, AttachmentAuthenticator) result" where
  "AttachmentAuthenticator_new sign secret =
     (if secret = [] then Err EmptySecret
      else Ok \<lparr>auth_key = sign secret ATTACHMENT_KEY_LABEL\<rparr>)"

definition attachment_context ::
  "SessionId \<Rightarrow> Epoch \<Rightarrow> AttachmentId \<Rightarrow> NegotiatedParameters \<Rightarrow> bytes" where
  "attachment_context session epoch attachment_id parameters =
     (let context = [];
          context = context @ ATTACHMENT_CONTEXT_LABEL;
          context = context @ session_id_bytes session;
          context = context @ u64_to_be_bytes (epoch_value epoch);
          context = context @ AttachmentId_bytes attachment_id;
          context = context @ NegotiatedParameters_canonical_bytes parameters
      in context)"

text \<open>\<^verbatim>\<open>copy_from_slice\<close> panics when the tag does not have the length of the proof array.\<close>

definition AttachmentAuthenticator_prove ::
  "hmac \<Rightarrow> AttachmentAuthenticator \<Rightarrow> SessionId \<Rightarrow> Epoch \<Rightarrow> AttachmentId \<Rightarrow> NegotiatedParameters
   \<Rightarrow> AttachmentProof option"
where
  "AttachmentAuthenticator_prove sign self session epoch attachment_id parameters =
     (let tag = sign (auth_key self) (attachment_context session epoch attachment_id parameters)
      in if length tag = ATTACHMENT_PROOF_BYTES then Some (AttachmentProof tag) else None)"

definition AttachmentAuthenticator_verify ::
  "hmac \<Rightarrow> AttachmentAuthenticator \<Rightarrow> SessionId \<Rightarrow> Epoch \<Rightarrow> AttachmentId \<Rightarrow> NegotiatedParameters
   \<Rightarrow> AttachmentProof \<Rightarrow> (AttachmentAuthenticationError, unit) result"
where
  "AttachmentAuthenticator_verify sign self session epoch attachment_id parameters prf =
     (if sign (auth_key self) (attachment_context session epoch attachment_id parameters)
         = proof_bytes prf
      then Ok () else Err InvalidProof)"

section \<open>Replay window\<close>

datatype ReplayWindow = ReplayWindow (latest_epoch: "Epoch option")

definition ReplayWindow_default :: ReplayWindow where
  "ReplayWindow_default = ReplayWindow None"

definition ReplayWindow_is_empty :: "ReplayWindow \<Rightarrow> bool" where
  "ReplayWindow_is_empty w = (latest_epoch w = None)"

definition ReplayWindow_accepts :: "ReplayWindow \<Rightarrow> Epoch \<Rightarrow> bool" where
  "ReplayWindow_accepts w e = (case latest_epoch w of None \<Rightarrow> True | Some latest \<Rightarrow> e > latest)"

definition ReplayWindow_accept :: "ReplayWindow \<Rightarrow> Epoch \<Rightarrow> bool \<times> ReplayWindow" where
  "ReplayWindow_accept w e =
     (if \<not> ReplayWindow_accepts w e then (False, w) else (True, ReplayWindow (Some e)))"

text \<open>A caller that offers epoch after epoch; the accepted ones in order.\<close>

fun accepted_epochs :: "ReplayWindow \<Rightarrow> Epoch list \<Rightarrow> Epoch list" where
  "accepted_epochs w [] = []"
| "accepted_epochs w (e # es) =
     (case ReplayWindow_accept w e of
        (True, w') \<Rightarrow> e # accepted_epochs w' es
      | (False, w') \<Rightarrow> accepted_epochs w' es)"

text \<open>A concrete tag function for evaluation: it keeps the last 32 bytes of a message.\<close>

definition tail_tag :: hmac where
  "tail_tag k m = drop (length m - 32) m"

section \<open>Lemmas\<close>

lemma attachment_context_concat:
  "attachment_context session epoch attachment_id parameters =
     ATTACHMENT_CONTEXT_LABEL @ session_id_bytes session @ u64_to_be_bytes (epoch_value epoch)
     @ AttachmentId_bytes attachment_id @ NegotiatedParameters_canonical_bytes parameters"
  by (simp add: attachment_context_def)

lemma attachment_context_inj:
  assumes "attachment_context s e a p = attachment_context s' e' a' p'"
    and "wf_session_id s" "wf_session_id s'" "wf_attachment_id a" "wf_attachment_id a'"
    and "wf_parameters p" "wf_parameters p'"
  shows "s = s' \<and> e = e' \<and> a = a' \<and> p = p'"
proof -
  have "session_id_bytes s = session_id_bytes s'
      \<and> u64_to_be_bytes (epoch_value e) = u64_to_be_bytes (epoch_value e')
      \<and> AttachmentId_bytes a = AttachmentId_bytes a'
      \<and> NegotiatedParameters_canonical_bytes p = NegotiatedParameters_canonical_bytes p'"
    using assms by (simp add: attachment_context_concat wf_session_id_def wf_attachment_id_def)
  then show ?thesis
    using canonical_bytes_inj [OF assms(6,7)]
    by (auto intro: SessionId.expand Epoch.expand AttachmentId.expand)
qed

lemma ReplayWindow_accept_True:
  "ReplayWindow_accept w e = (True, w') \<longleftrightarrow> ReplayWindow_accepts w e \<and> w' = ReplayWindow (Some e)"
  by (auto simp: ReplayWindow_accept_def)

lemma ReplayWindow_accept_False:
  "ReplayWindow_accept w e = (False, w') \<longleftrightarrow> \<not> ReplayWindow_accepts w e \<and> w' = w"
  by (auto simp: ReplayWindow_accept_def)

lemma accepted_epochs_sorted:
  "sorted_wrt (<) (case latest_epoch w of None \<Rightarrow> accepted_epochs w es
     | Some e \<Rightarrow> e # accepted_epochs w es)"
proof (induction w es rule: accepted_epochs.induct)
  case (1 w)
  then show ?case by (cases "latest_epoch w") simp_all
next
  case (2 w e es)
  show ?case
  proof (cases "ReplayWindow_accepts w e")
    case True
    then have acc: "ReplayWindow_accept w e = (True, ReplayWindow (Some e))"
      by (simp add: ReplayWindow_accept_def)
    have sorted: "sorted_wrt (<) (e # accepted_epochs (ReplayWindow (Some e)) es)"
      using 2(1) [of True "ReplayWindow (Some e)"] acc by simp
    have "latest < e" if "latest_epoch w = Some latest" for latest
      using True that by (simp add: ReplayWindow_accepts_def)
    then show ?thesis
      using sorted acc by (cases "latest_epoch w") (auto intro: less_trans)
  next
    case False
    then have "ReplayWindow_accept w e = (False, w)"
      by (simp add: ReplayWindow_accept_def)
    then show ?thesis
      using 2(2) [of False w] by (cases "latest_epoch w") simp_all
  qed
qed

section \<open>Properties\<close>

text \<open>
  C12. A proof made by \<^verbatim>\<open>prove\<close> is accepted by \<^verbatim>\<open>verify\<close> for the same binding, and whenever it is
  accepted for another session, epoch, attachment identifier or parameter set, the two bindings
  are an explicit collision of the message authentication code under the authenticator's key.
\<close>

theorem attachment_proof_binding:
  assumes "AttachmentAuthenticator_prove sign auth s e a p = Some prf"
    and "wf_session_id s" "wf_session_id s'" "wf_attachment_id a" "wf_attachment_id a'"
    and "wf_parameters p" "wf_parameters p'"
  shows "AttachmentAuthenticator_verify sign auth s e a p prf = Ok ()
    \<and> (AttachmentAuthenticator_verify sign auth s' e' a' p' prf = Ok ()
        \<longleftrightarrow> (s, e, a, p) = (s', e', a', p')
          \<or> attachment_context s e a p \<noteq> attachment_context s' e' a' p'
            \<and> sign (auth_key auth) (attachment_context s e a p)
              = sign (auth_key auth) (attachment_context s' e' a' p'))"
proof -
  let ?m = "attachment_context s e a p" and ?m' = "attachment_context s' e' a' p'"
  have tag: "proof_bytes prf = sign (auth_key auth) ?m"
    using assms(1) by (auto simp: AttachmentAuthenticator_prove_def Let_def split: if_splits)
  have "(s, e, a, p) = (s', e', a', p') \<longleftrightarrow> ?m = ?m'"
    using attachment_context_inj [OF _ assms(2-7)] by auto
  then show ?thesis
    unfolding AttachmentAuthenticator_verify_def tag by auto
qed

theorem attachment_proof_binding_witness:
  "let sid = SessionId (replicate 16 7); aid = AttachmentId (9 # replicate 15 0);
       p = \<lparr>version = 1, capabilities = Capabilities 1,
          client_nonce = HandshakeNonce (1 # replicate 15 0),
          server_nonce = HandshakeNonce (2 # replicate 15 0)\<rparr>;
       prf = AttachmentProof (1 # replicate 15 0 @ 2 # replicate 15 0)
   in AttachmentAuthenticator_verify tail_tag \<lparr>auth_key = [1]\<rparr> sid (Epoch 4) aid p prf = Ok ()"
proof -
  let ?sid = "SessionId (replicate 16 7)" and ?aid = "AttachmentId (9 # replicate 15 0)"
  let ?p = "\<lparr>version = 1, capabilities = Capabilities 1,
      client_nonce = HandshakeNonce (1 # replicate 15 0),
      server_nonce = HandshakeNonce (2 # replicate 15 0)\<rparr>"
  let ?pf = "AttachmentProof (1 # replicate 15 0 @ 2 # replicate 15 0)"
  have wf: "wf_session_id ?sid" "wf_attachment_id ?aid" "wf_parameters ?p"
    by (simp_all add: wf_session_id_def wf_attachment_id_def wf_parameters_def wf_nonce_def)
  have ctx: "attachment_context ?sid (Epoch 4) ?aid ?p =
      (ATTACHMENT_CONTEXT_LABEL @ replicate 16 7 @ u64_to_be_bytes 4 @ (9 # replicate 15 0)
       @ u16_to_be_bytes 1 @ u64_to_be_bytes 1) @ (1 # replicate 15 0 @ 2 # replicate 15 0)"
    using wf by (simp add: attachment_context_concat canonical_bytes_concat)
  have "AttachmentAuthenticator_prove tail_tag \<lparr>auth_key = [1]\<rparr> ?sid (Epoch 4) ?aid ?p = Some ?pf"
    unfolding AttachmentAuthenticator_prove_def ctx tail_tag_def by simp
  from attachment_proof_binding [OF this wf(1) wf(1) wf(2) wf(2) wf(3) wf(3)] show ?thesis
    by (simp add: Let_def)
qed

text \<open>
  The replay window admits epochs in strictly increasing order: from whatever sequence of
  epochs is offered, those accepted are strictly increasing, so none is accepted twice.
\<close>

theorem replay_window_increasing:
  "sorted_wrt (<) (accepted_epochs ReplayWindow_default es)
   \<and> distinct (accepted_epochs ReplayWindow_default es)"
proof -
  have "sorted_wrt (<) (accepted_epochs ReplayWindow_default es)"
    using accepted_epochs_sorted [of ReplayWindow_default es] by (simp add: ReplayWindow_default_def)
  then show ?thesis by (simp add: strict_sorted_iff)
qed

end
