(* ===== verification/Session_Tracer.thy ===== *)
theory Session_Tracer
  imports Ordered_Map Carrier_Policy Attachment_Crypto
begin

text \<open>
  The session tracer of \<^verbatim>\<open>crates/velum-session/src/lib.rs\<close> with the epoch window of
  \<^verbatim>\<open>transition.rs\<close>: the owner of flow identifiers, sequence allocation, cumulative
  acknowledgement, in-order delivery, carrier epochs and attachment acceptance of one logical
  session. Every public operation is a function of the state; an operation that contains an
  \<^verbatim>\<open>expect\<close>, an \<^verbatim>\<open>assert!\<close> or a checked subtraction returns an option and \<open>None\<close> is the panic.

  \<open>tracer_inv\<close> is the invariant of the component: the accounting is exact and within the
  configured limits, the unacknowledged segments of a flow are the consecutive sequence numbers
  below its send cursor, with epochs and deadlines in order, the receive cursor is at most the
  final one, and an accepted attachment always belongs to the current epoch.
  \<^verbatim>\<open>Session_Invariant\<close> shows that every operation keeps it.
\<close>

section \<open>Epoch window (transition.rs)\<close>

record TransitionState =
  tr_current :: Epoch
  tr_retiring :: "Epoch option"

datatype EpochValidity = EpochCurrent | EpochRetiring | EpochStale | EpochFuture

definition TransitionState_new :: "Epoch \<Rightarrow> TransitionState" where
  "TransitionState_new e = \<lparr>tr_current = e, tr_retiring = None\<rparr>"

text \<open>The outer option is the panic \<^verbatim>\<open>epoch exhausted\<close>, the inner one the result.\<close>

definition TransitionState_advance :: "TransitionState \<Rightarrow> (Epoch option \<times> TransitionState) option" where
  "TransitionState_advance self =
     (if tr_retiring self \<noteq> None then Some (None, self)
      else
        (case checked_add (epoch_value (tr_current self)) 1 of
           None \<Rightarrow> None
         | Some n \<Rightarrow>
             let nxt = Epoch n
             in Some (Some nxt, self\<lparr>tr_retiring := Some (tr_current self), tr_current := nxt\<rparr>)))"

definition TransitionState_retire_previous :: "TransitionState \<Rightarrow> TransitionState" where
  "TransitionState_retire_previous self = self\<lparr>tr_retiring := None\<rparr>"

definition TransitionState_validate :: "TransitionState \<Rightarrow> Epoch \<Rightarrow> EpochValidity" where
  "TransitionState_validate self epoch =
     (if epoch = tr_current self then EpochCurrent
      else if Some epoch = tr_retiring self then EpochRetiring
      else if epoch < tr_current self then EpochStale
      else EpochFuture)"

section \<open>Data\<close>

record Segment =
  seg_flow_id :: FlowId
  seg_epoch :: Epoch
  seg_sequence :: Sequence
  seg_bytes :: bytes

record Acknowledgement =
  ack_flow_id :: FlowId
  ack_epoch :: Epoch
  ack_through :: Sequence

record FlowLimits =
  max_flows :: nat
  max_pending_segments :: nat
  max_pending_bytes :: nat
  max_session_pending_segments :: nat
  max_session_pending_bytes :: nat
  max_pending_age :: u64
  max_events :: nat

datatype TraceError =
    UnknownFlow
  | FlowLimit
  | PendingSegmentLimit
  | PendingByteLimit
  | SessionPendingSegmentLimit
  | SessionPendingByteLimit
  | FlowHasPendingSegments
  | FlowFinished
  | InvalidAcknowledgement
  | TransitionInProgress
  | StaleEpoch
  | FutureEpoch

record CarrierAttachment =
  att_carrier :: CarrierId
  att_epoch :: Epoch
  att_id :: AttachmentId
  att_parameters :: NegotiatedParameters
  att_proof :: AttachmentProof

datatype AttachmentError =
    MissingNegotiation
  | NegotiationMismatch
  | Authentication AttachmentAuthenticationError
  | AttachmentStaleEpoch
  | AttachmentFutureEpoch
  | AttachmentReplay

datatype AttachmentAcceptance = Accepted | AlreadyAccepted

datatype NegotiationBindingError = AlreadyBound | AttachmentAlreadyAccepted

datatype TransitionCompatibilityError = TransitionNoSharedVersion

datatype ReceiveResult = Delivered bytes | DuplicateSegment | OutOfOrder

record PendingSegment =
  pend_segment :: Segment
  expires_at :: u64

record ReliableFlow =
  next_send :: Sequence
  next_receive :: Sequence
  receive_final_next :: "Sequence option"
  pending :: "PendingSegment list"
  flow_pending_bytes :: nat

record AcceptedCarrierAttachment =
  acc_carrier :: CarrierId
  acc_epoch :: Epoch
  acc_id :: AttachmentId

record SessionTracer =
  transition :: TransitionState
  attachment_replay :: ReplayWindow
  negotiated :: "NegotiatedParameters option"
  accepted_attachment :: "AcceptedCarrierAttachment option"
  retiring_attachment :: "AcceptedCarrierAttachment option"
  tick :: u64
  next_flow :: u64
  pending_segments :: nat
  pending_bytes :: nat
  limits :: FlowLimits
  flows :: "(FlowId, ReliableFlow) btree_map"
  events :: "SessionEvent list"

section \<open>Operations\<close>

definition limits_positive :: "FlowLimits \<Rightarrow> bool" where
  "limits_positive l =
     (max_pending_segments l > 0 \<and> max_pending_bytes l > 0 \<and> max_session_pending_segments l > 0
      \<and> max_session_pending_bytes l > 0 \<and> max_pending_age l > 0 \<and> max_flows l > 0
      \<and> max_events l > 0)"

definition SessionTracer_new :: "Epoch \<Rightarrow> FlowLimits \<Rightarrow> SessionTracer option" where
  "SessionTracer_new e l =
     (if limits_positive l then
        Some \<lparr>transition = TransitionState_new e, attachment_replay = ReplayWindow_default,
          negotiated = None, accepted_attachment = None, retiring_attachment = None, tick = 0,
          next_flow = 0, pending_segments = 0, pending_bytes = 0, limits = l, flows = [],
          events = []\<rparr>
      else None)"

definition SessionTracer_epoch :: "SessionTracer \<Rightarrow> Epoch" where
  "SessionTracer_epoch s = tr_current (transition s)"

definition SessionTracer_carrier_attachment_is_active :: "SessionTracer \<Rightarrow> CarrierId \<Rightarrow> bool" where
  "SessionTracer_carrier_attachment_is_active s carrier =
     is_some_and (accepted_attachment s)
       (\<lambda>a. acc_carrier a = carrier \<and> acc_epoch a = SessionTracer_epoch s)"

definition SessionTracer_carrier_attachment_is_dispatchable ::
  "SessionTracer \<Rightarrow> CarrierId \<Rightarrow> bool" where
  "SessionTracer_carrier_attachment_is_dispatchable s carrier =
     (SessionTracer_carrier_attachment_is_active s carrier
      \<or> is_some_and (retiring_attachment s) (\<lambda>a. acc_carrier a = carrier))"

text \<open>
  The ring of events. \<^verbatim>\<open>Vec::remove(0)\<close> is only reached with a full ring, which is not empty
  because \<^verbatim>\<open>new\<close> asserts a positive \<^verbatim>\<open>max_events\<close>.
\<close>

definition SessionTracer_record_event :: "SessionTracer \<Rightarrow> SessionEvent \<Rightarrow> SessionTracer" where
  "SessionTracer_record_event s e =
     s\<lparr>events := (if length (events s) \<ge> max_events (limits s) then tl (events s) else events s)
                  @ [e]\<rparr>"

definition SessionTracer_require_valid_epoch ::
  "SessionTracer \<Rightarrow> Epoch \<Rightarrow> (TraceError, unit) result" where
  "SessionTracer_require_valid_epoch s e =
     (case TransitionState_validate (transition s) e of
        EpochCurrent \<Rightarrow> Ok () | EpochRetiring \<Rightarrow> Ok ()
      | EpochStale \<Rightarrow> Err StaleEpoch | EpochFuture \<Rightarrow> Err FutureEpoch)"

definition SessionTracer_bind_negotiated_parameters ::
  "SessionTracer \<Rightarrow> NegotiatedParameters \<Rightarrow> (NegotiationBindingError, unit) result \<times> SessionTracer"
where
  "SessionTracer_bind_negotiated_parameters s p =
     (if accepted_attachment s \<noteq> None \<or> \<not> ReplayWindow_is_empty (attachment_replay s)
      then (Err AttachmentAlreadyAccepted, s)
      else if negotiated s \<noteq> None then (Err AlreadyBound, s)
      else (Ok (), s\<lparr>negotiated := Some p\<rparr>))"

definition new_flow :: ReliableFlow where
  "new_flow = \<lparr>next_send = Sequence 0, next_receive = Sequence 0, receive_final_next = None,
     pending = [], flow_pending_bytes = 0\<rparr>"

definition SessionTracer_open_reliable_flow_with_id ::
  "SessionTracer \<Rightarrow> FlowId \<Rightarrow> (TraceError, unit) result \<times> SessionTracer" where
  "SessionTracer_open_reliable_flow_with_id s fid =
     (if length (flows s) \<ge> max_flows (limits s) then (Err FlowLimit, s)
      else if flow_id_value fid < next_flow s \<or> flow_id_value fid = - 1 then (Err FlowFinished, s)
      else
        let s = s\<lparr>next_flow := flow_id_value fid + 1\<rparr>;
            s = s\<lparr>flows := bt_insert fid new_flow (flows s)\<rparr>
        in (Ok (), SessionTracer_record_event s EventFlowOpened))"

definition SessionTracer_open_reliable_flow ::
  "SessionTracer \<Rightarrow> (TraceError, FlowId) result \<times> SessionTracer" where
  "SessionTracer_open_reliable_flow s =
     (let fid = FlowId (next_flow s) in
      case SessionTracer_open_reliable_flow_with_id s fid of
        (Inl e, s') \<Rightarrow> (Err e, s')
      | (Inr _, s') \<Rightarrow> (Ok fid, s'))"

definition SessionTracer_close_reliable_flow ::
  "SessionTracer \<Rightarrow> FlowId \<Rightarrow> (TraceError, unit) result \<times> SessionTracer" where
  "SessionTracer_close_reliable_flow s fid =
     (case bt_get (flows s) fid of
        None \<Rightarrow> (Err UnknownFlow, s)
      | Some flow \<Rightarrow>
          if pending flow \<noteq> [] then (Err FlowHasPendingSegments, s)
          else (Ok (), s\<lparr>flows := bt_remove fid (flows s)\<rparr>))"

definition SessionTracer_send ::
  "SessionTracer \<Rightarrow> FlowId \<Rightarrow> bytes \<Rightarrow> ((TraceError, Segment) result \<times> SessionTracer) option" where
  "SessionTracer_send s fid bs =
     (case bt_get (flows s) fid of
        None \<Rightarrow> Some (Err UnknownFlow, s)
      | Some flow \<Rightarrow>
          if pending_segments s \<ge> max_session_pending_segments (limits s) then
            Some (Err SessionPendingSegmentLimit, SessionTracer_record_event s PendingLimitReached)
          else if length bs > max_session_pending_bytes (limits s) - pending_bytes s then
            Some (Err SessionPendingByteLimit, SessionTracer_record_event s PendingLimitReached)
          else if length (pending flow) = max_pending_segments (limits s) then
            Some (Err PendingSegmentLimit, SessionTracer_record_event s PendingLimitReached)
          else if length bs > max_pending_bytes (limits s) - flow_pending_bytes flow then
            Some (Err PendingByteLimit, SessionTracer_record_event s PendingLimitReached)
          else
            let segment = \<lparr>seg_flow_id = fid, seg_epoch = SessionTracer_epoch s,
                  seg_sequence = next_send flow, seg_bytes = bs\<rparr> in
            (case checked_add (sequence_value (next_send flow)) 1 of
               None \<Rightarrow> None
             | Some n \<Rightarrow>
                 (case checked_add (tick s) (max_pending_age (limits s)) of
                    None \<Rightarrow> None
                  | Some deadline \<Rightarrow>
                      let flow' = flow\<lparr>next_send := Sequence n,
                            flow_pending_bytes := flow_pending_bytes flow + length bs,
                            pending := pending flow
                              @ [\<lparr>pend_segment = segment, expires_at = deadline\<rparr>]\<rparr>
                      in Some (Ok segment,
                           s\<lparr>flows := bt_insert fid flow' (flows s),
                             pending_segments := pending_segments s + 1,
                             pending_bytes := pending_bytes s + length bs\<rparr>))))"

text \<open>The releasing loop of \<^verbatim>\<open>acknowledge\<close>: queue, flow bytes, released segments, released bytes.\<close>

fun release_acknowledged ::
  "Sequence \<Rightarrow> PendingSegment list \<Rightarrow> nat \<Rightarrow> nat \<Rightarrow> nat
   \<Rightarrow> (PendingSegment list \<times> nat \<times> nat \<times> nat) option"
where
  "release_acknowledged through [] fb rs rb = Some ([], fb, rs, rb)"
| "release_acknowledged through (p # ps) fb rs rb =
     (if seg_sequence (pend_segment p) \<le> through then
        (case usize_checked_sub fb (length (seg_bytes (pend_segment p))) of
           None \<Rightarrow> None
         | Some fb' \<Rightarrow> release_acknowledged through ps fb' (rs + 1)
             (rb + length (seg_bytes (pend_segment p))))
      else Some (p # ps, fb, rs, rb))"

definition SessionTracer_acknowledge ::
  "SessionTracer \<Rightarrow> Acknowledgement \<Rightarrow> ((TraceError, unit) result \<times> SessionTracer) option" where
  "SessionTracer_acknowledge s ack =
     (case SessionTracer_require_valid_epoch s (ack_epoch ack) of
        Inl e \<Rightarrow> Some (Err e, s)
      | Inr _ \<Rightarrow>
          (case bt_get (flows s) (ack_flow_id ack) of
             None \<Rightarrow> Some (Err UnknownFlow, s)
           | Some flow \<Rightarrow>
               if sequence_value (ack_through ack) \<ge> sequence_value (next_send flow)
               then Some (Err InvalidAcknowledgement, s)
               else if list_ex (\<lambda>p. seg_sequence (pend_segment p) \<le> ack_through ack
                   \<and> seg_epoch (pend_segment p) > ack_epoch ack) (pending flow)
               then Some (Err InvalidAcknowledgement, s)
               else
                 (case release_acknowledged (ack_through ack) (pending flow)
                     (flow_pending_bytes flow) 0 0 of
                    None \<Rightarrow> None
                  | Some (rest, fb, rs, rb) \<Rightarrow>
                      let s = s\<lparr>flows := bt_insert (ack_flow_id ack)
                            (flow\<lparr>pending := rest, flow_pending_bytes := fb\<rparr>) (flows s)\<rparr> in
                      (case usize_checked_sub (pending_segments s) rs of
                         None \<Rightarrow> None
                       | Some ns \<Rightarrow>
                           (case usize_checked_sub (pending_bytes s) rb of
                              None \<Rightarrow> None
                            | Some nb \<Rightarrow>
                                Some (Ok (), s\<lparr>pending_segments := ns, pending_bytes := nb\<rparr>))))))"

definition SessionTracer_receive ::
  "SessionTracer \<Rightarrow> Segment \<Rightarrow> ((TraceError, ReceiveResult) result \<times> SessionTracer) option" where
  "SessionTracer_receive s segment =
     (case SessionTracer_require_valid_epoch s (seg_epoch segment) of
        Inl e \<Rightarrow> Some (Err e, s)
      | Inr _ \<Rightarrow>
          (case bt_get (flows s) (seg_flow_id segment) of
             None \<Rightarrow> Some (Err UnknownFlow, s)
           | Some flow \<Rightarrow>
               if is_some_and (receive_final_next flow) (\<lambda>final. seg_sequence segment \<ge> final)
               then Some (Err FlowFinished, s)
               else if seg_sequence segment < next_receive flow
               then Some (Ok DuplicateSegment, SessionTracer_record_event s DuplicateIgnored)
               else if seg_sequence segment > next_receive flow
               then Some (Ok OutOfOrder, SessionTracer_record_event s OutOfOrderRejected)
               else
                 (case checked_add (sequence_value (next_receive flow)) 1 of
                    None \<Rightarrow> None
                  | Some n \<Rightarrow>
                      Some (Ok (Delivered (seg_bytes segment)),
                        s\<lparr>flows := bt_insert (seg_flow_id segment)
                             (flow\<lparr>next_receive := Sequence n\<rparr>) (flows s)\<rparr>))))"

definition SessionTracer_finish_receiving ::
  "SessionTracer \<Rightarrow> FlowId \<Rightarrow> Epoch \<Rightarrow> Sequence \<Rightarrow> (TraceError, unit) result \<times> SessionTracer" where
  "SessionTracer_finish_receiving s fid e final =
     (case SessionTracer_require_valid_epoch s e of
        Inl err \<Rightarrow> (Err err, s)
      | Inr _ \<Rightarrow>
          (case bt_get (flows s) fid of
             None \<Rightarrow> (Err UnknownFlow, s)
           | Some flow \<Rightarrow>
               if final < next_receive flow then (Err FlowFinished, s)
               else
                 (case receive_final_next flow of
                    Some existing \<Rightarrow> if existing = final then (Ok (), s) else (Err FlowFinished, s)
                  | None \<Rightarrow>
                      (Ok (), s\<lparr>flows := bt_insert fid (flow\<lparr>receive_final_next := Some final\<rparr>)
                         (flows s)\<rparr>))))"

text \<open>Releasing the accounting of a removed flow, shared by \<^verbatim>\<open>reset\<close> and \<^verbatim>\<open>advance_time\<close>.\<close>

definition release_flow :: "SessionTracer \<Rightarrow> ReliableFlow \<Rightarrow> SessionTracer option" where
  "release_flow s flow =
     (case usize_checked_sub (pending_segments s) (length (pending flow)) of
        None \<Rightarrow> None
      | Some ns \<Rightarrow>
          (case usize_checked_sub (pending_bytes s) (flow_pending_bytes flow) of
             None \<Rightarrow> None
           | Some nb \<Rightarrow> Some (s\<lparr>pending_segments := ns, pending_bytes := nb\<rparr>)))"

definition SessionTracer_reset_reliable_flow ::
  "SessionTracer \<Rightarrow> FlowId \<Rightarrow> ((TraceError, unit) result \<times> SessionTracer) option" where
  "SessionTracer_reset_reliable_flow s fid =
     (case bt_get (flows s) fid of
        None \<Rightarrow> Some (Err UnknownFlow, s)
      | Some flow \<Rightarrow>
          map_option (\<lambda>s'. (Ok (), s')) (release_flow (s\<lparr>flows := bt_remove fid (flows s)\<rparr>) flow))"

definition SessionTracer_pending ::
  "SessionTracer \<Rightarrow> FlowId \<Rightarrow> (TraceError, Segment list) result" where
  "SessionTracer_pending s fid =
     ok_or (map_option (\<lambda>flow. map pend_segment (pending flow)) (bt_get (flows s) fid)) UnknownFlow"

definition SessionTracer_resume_unacknowledged ::
  "SessionTracer \<Rightarrow> FlowId \<Rightarrow> (TraceError, Segment list) result" where
  "SessionTracer_resume_unacknowledged s fid =
     ok_or (map_option (\<lambda>flow. map (\<lambda>p. (pend_segment p)\<lparr>seg_epoch := SessionTracer_epoch s\<rparr>)
              (pending flow)) (bt_get (flows s) fid)) UnknownFlow"

definition front_expired :: "u64 \<Rightarrow> ReliableFlow \<Rightarrow> bool" where
  "front_expired now flow = (case pending flow of [] \<Rightarrow> False | p # _ \<Rightarrow> expires_at p \<le> now)"

fun remove_timed_out :: "FlowId list \<Rightarrow> SessionTracer \<Rightarrow> SessionTracer option" where
  "remove_timed_out [] s = Some s"
| "remove_timed_out (fid # fids) s =
     (case bt_get (flows s) fid of
        None \<Rightarrow> None
      | Some flow \<Rightarrow>
          (case release_flow (s\<lparr>flows := bt_remove fid (flows s)\<rparr>) flow of
             None \<Rightarrow> None
           | Some s' \<Rightarrow> remove_timed_out fids s'))"

definition SessionTracer_advance_time ::
  "SessionTracer \<Rightarrow> u64 \<Rightarrow> (FlowId list \<times> SessionTracer) option" where
  "SessionTracer_advance_time s ticks =
     (case checked_add (tick s) ticks of
        None \<Rightarrow> None
      | Some now \<Rightarrow>
          let s = s\<lparr>tick := now\<rparr>;
              timed_out = map fst (filter (\<lambda>(_, flow). front_expired now flow) (flows s))
          in (case remove_timed_out timed_out s of
                None \<Rightarrow> None
              | Some s \<Rightarrow>
                  Some (timed_out,
                    foldl (\<lambda>s _. SessionTracer_record_event s EventFlowTimedOut) s timed_out)))"

definition SessionTracer_begin_transition ::
  "SessionTracer \<Rightarrow> ((TraceError, Epoch) result \<times> SessionTracer) option" where
  "SessionTracer_begin_transition s =
     (case TransitionState_advance (transition s) of
        None \<Rightarrow> None
      | Some (None, _) \<Rightarrow> Some (Err TransitionInProgress, s)
      | Some (Some nxt, tr) \<Rightarrow>
          Some (Ok nxt, s\<lparr>transition := tr, retiring_attachment := accepted_attachment s,
                          accepted_attachment := None\<rparr>))"

definition SessionTracer_begin_explained_transition ::
  "SessionTracer \<Rightarrow> CarrierKind \<Rightarrow> CarrierKind \<Rightarrow> EventReason
   \<Rightarrow> ((TraceError, Epoch) result \<times> SessionTracer) option"
where
  "SessionTracer_begin_explained_transition s from_kind to_kind reason =
     (case SessionTracer_begin_transition s of
        None \<Rightarrow> None
      | Some (Inl e, s') \<Rightarrow> Some (Err e, s')
      | Some (Inr epoch, s') \<Rightarrow>
          Some (Ok epoch, SessionTracer_record_event s'
            (TransitionStarted (carrier_class from_kind) (carrier_class to_kind) reason)))"

definition SessionTracer_negotiate_transition_version ::
  "SessionTracer \<Rightarrow> VersionRange \<Rightarrow> VersionRange
   \<Rightarrow> (TransitionCompatibilityError, u16) result \<times> SessionTracer"
where
  "SessionTracer_negotiate_transition_version s local peer =
     (case VersionRange_negotiate local peer of
        Some v \<Rightarrow> (Ok v, s)
      | None \<Rightarrow> (Err TransitionNoSharedVersion,
          SessionTracer_record_event s (TransitionRejected IncompatibleVersion)))"

definition SessionTracer_reject_attachment ::
  "SessionTracer \<Rightarrow> AttachmentError \<Rightarrow> (AttachmentError, 'a) result \<times> SessionTracer" where
  "SessionTracer_reject_attachment s e =
     (Err e, SessionTracer_record_event s (TransitionRejected AttachmentRejected))"

definition accepted_of :: "CarrierAttachment \<Rightarrow> AcceptedCarrierAttachment" where
  "accepted_of a = \<lparr>acc_carrier = att_carrier a, acc_epoch = att_epoch a, acc_id = att_id a\<rparr>"

definition SessionTracer_authenticate_carrier_attachment ::
  "hmac \<Rightarrow> SessionTracer \<Rightarrow> AttachmentAuthenticator \<Rightarrow> SessionId \<Rightarrow> CarrierAttachment
   \<Rightarrow> (AttachmentError, AttachmentAcceptance) result \<times> SessionTracer"
where
  "SessionTracer_authenticate_carrier_attachment sign s authenticator session a =
     (case negotiated s of
        None \<Rightarrow> (Err MissingNegotiation, s)
      | Some p \<Rightarrow>
          if att_parameters a \<noteq> p then SessionTracer_reject_attachment s NegotiationMismatch
          else
            (case TransitionState_validate (transition s) (att_epoch a) of
               EpochRetiring \<Rightarrow> SessionTracer_reject_attachment s AttachmentStaleEpoch
             | EpochStale \<Rightarrow> SessionTracer_reject_attachment s AttachmentStaleEpoch
             | EpochFuture \<Rightarrow> SessionTracer_reject_attachment s AttachmentFutureEpoch
             | EpochCurrent \<Rightarrow>
                 (case AttachmentAuthenticator_verify sign authenticator session (att_epoch a)
                     (att_id a) p (att_proof a) of
                    Inl e \<Rightarrow> SessionTracer_reject_attachment s (Authentication e)
                  | Inr _ \<Rightarrow>
                      if accepted_attachment s = Some (accepted_of a) then (Ok AlreadyAccepted, s)
                      else
                        (case ReplayWindow_accept (attachment_replay s) (att_epoch a) of
                           (False, _) \<Rightarrow> SessionTracer_reject_attachment s AttachmentReplay
                         | (True, w) \<Rightarrow>
                             (Ok Accepted, s\<lparr>attachment_replay := w,
                                accepted_attachment := Some (accepted_of a)\<rparr>)))))"

definition SessionTracer_complete_transition :: "SessionTracer \<Rightarrow> SessionTracer" where
  "SessionTracer_complete_transition s =
     SessionTracer_record_event
       (s\<lparr>transition := TransitionState_retire_previous (transition s), retiring_attachment := None\<rparr>)
       TransitionCompleted"

section \<open>The invariant\<close>

definition pend_len :: "PendingSegment \<Rightarrow> nat" where
  "pend_len p = length (seg_bytes (pend_segment p))"

definition pend_seq :: "PendingSegment \<Rightarrow> nat" where
  "pend_seq p = unat (sequence_value (seg_sequence (pend_segment p)))"

definition pend_before :: "PendingSegment \<Rightarrow> PendingSegment \<Rightarrow> bool" where
  "pend_before p q =
     (seg_epoch (pend_segment p) \<le> seg_epoch (pend_segment q) \<and> expires_at p \<le> expires_at q)"

text \<open>The send side of a flow in a session with these limits, current epoch and time.\<close>

definition send_inv :: "FlowLimits \<Rightarrow> Epoch \<Rightarrow> u64 \<Rightarrow> FlowId \<Rightarrow> ReliableFlow \<Rightarrow> bool" where
  "send_inv l e now fid flow =
     (flow_pending_bytes flow = sum_list (map pend_len (pending flow))
      \<and> length (pending flow) \<le> max_pending_segments l
      \<and> flow_pending_bytes flow \<le> max_pending_bytes l
      \<and> length (pending flow) \<le> unat (sequence_value (next_send flow))
      \<and> map pend_seq (pending flow)
          = [unat (sequence_value (next_send flow)) - length (pending flow)
               ..< unat (sequence_value (next_send flow))]
      \<and> list_all (\<lambda>p. seg_flow_id (pend_segment p) = fid \<and> seg_epoch (pend_segment p) \<le> e
            \<and> unat (expires_at p) \<le> unat now + unat (max_pending_age l)) (pending flow)
      \<and> sorted_wrt pend_before (pending flow))"

definition receive_inv :: "ReliableFlow \<Rightarrow> bool" where
  "receive_inv flow =
     (case receive_final_next flow of None \<Rightarrow> True | Some final \<Rightarrow> next_receive flow \<le> final)"

definition flow_inv :: "SessionTracer \<Rightarrow> FlowId \<Rightarrow> ReliableFlow \<Rightarrow> bool" where
  "flow_inv s fid flow =
     (send_inv (limits s) (SessionTracer_epoch s) (tick s) fid flow \<and> receive_inv flow
      \<and> flow_id_value fid < next_flow s)"

definition accounting_inv :: "SessionTracer \<Rightarrow> bool" where
  "accounting_inv s =
     (pending_segments s = bt_sum (length \<circ> pending) (flows s)
      \<and> pending_bytes s = bt_sum flow_pending_bytes (flows s)
      \<and> pending_segments s \<le> max_session_pending_segments (limits s)
      \<and> pending_bytes s \<le> max_session_pending_bytes (limits s)
      \<and> length (flows s) \<le> max_flows (limits s))"

definition attachment_inv :: "SessionTracer \<Rightarrow> bool" where
  "attachment_inv s =
     ((case tr_retiring (transition s) of
         None \<Rightarrow> retiring_attachment s = None
       | Some e \<Rightarrow> unat (epoch_value e) + 1 = unat (epoch_value (SessionTracer_epoch s)))
      \<and> (case retiring_attachment s of
           None \<Rightarrow> True | Some a \<Rightarrow> tr_retiring (transition s) = Some (acc_epoch a))
      \<and> (case accepted_attachment s of
           None \<Rightarrow> True
         | Some a \<Rightarrow> acc_epoch a = SessionTracer_epoch s
             \<and> latest_epoch (attachment_replay s) = Some (acc_epoch a))
      \<and> (case latest_epoch (attachment_replay s) of
           None \<Rightarrow> True | Some e \<Rightarrow> e \<le> SessionTracer_epoch s \<and> negotiated s \<noteq> None))"

definition tracer_inv :: "SessionTracer \<Rightarrow> bool" where
  "tracer_inv s =
     (limits_positive (limits s) \<and> bt_sorted (flows s)
      \<and> (\<forall>(fid, flow) \<in> set (flows s). flow_inv s fid flow)
      \<and> accounting_inv s \<and> attachment_inv s
      \<and> length (events s) \<le> max_events (limits s))"

end
