(* ===== verification/Session_Invariant.thy ===== *)
theory Session_Invariant
  imports Session_Tracer
begin

text \<open>
  Every operation of the session tracer keeps \<open>tracer_inv\<close>, and under it the panics that guard
  the accounting are unreachable: \<^verbatim>\<open>acknowledge\<close> and \<^verbatim>\<open>reset\<close> always return, and the remaining
  panics are the exhaustion of a 64-bit counter. The operations that touch one flow all go
  through \<open>tracer_inv_update_flow\<close> and \<open>release_flow_inv\<close>.
\<close>

text \<open>The flow an accepted acknowledgement leaves: exactly the later segments, with their size.\<close>

definition acked_flow :: "Sequence \<Rightarrow> ReliableFlow \<Rightarrow> ReliableFlow" where
  "acked_flow t flow = flow\<lparr>
     pending := filter (\<lambda>p. \<not> seg_sequence (pend_segment p) \<le> t) (pending flow),
     flow_pending_bytes :=
       sum_list (map pend_len (filter (\<lambda>p. \<not> seg_sequence (pend_segment p) \<le> t) (pending flow)))\<rparr>"

named_theorems tracer_frame \<open>fields an operation leaves unchanged\<close>

lemma attachment_inv_cong:
  assumes "transition s' = transition s" "retiring_attachment s' = retiring_attachment s"
    "accepted_attachment s' = accepted_attachment s" "attachment_replay s' = attachment_replay s"
    "negotiated s' = negotiated s"
  shows "attachment_inv s' = attachment_inv s"
  unfolding attachment_inv_def SessionTracer_epoch_def assms by (rule refl)

section \<open>Events\<close>

lemma record_event_fields [simp, tracer_frame]:
  "transition (SessionTracer_record_event s e) = transition s"
  "attachment_replay (SessionTracer_record_event s e) = attachment_replay s"
  "negotiated (SessionTracer_record_event s e) = negotiated s"
  "accepted_attachment (SessionTracer_record_event s e) = accepted_attachment s"
  "retiring_attachment (SessionTracer_record_event s e) = retiring_attachment s"
  "tick (SessionTracer_record_event s e) = tick s"
  "next_flow (SessionTracer_record_event s e) = next_flow s"
  "pending_segments (SessionTracer_record_event s e) = pending_segments s"
  "pending_bytes (SessionTracer_record_event s e) = pending_bytes s"
  "limits (SessionTracer_record_event s e) = limits s"
  "flows (SessionTracer_record_event s e) = flows s"
  "SessionTracer_epoch (SessionTracer_record_event s e) = SessionTracer_epoch s"
  by (simp_all add: SessionTracer_record_event_def SessionTracer_epoch_def)

lemma record_event_length:
  assumes "length (events s) \<le> max_events (limits s)" "0 < max_events (limits s)"
  shows "length (events (SessionTracer_record_event s e)) \<le> max_events (limits s)"
  using assms by (auto simp: SessionTracer_record_event_def)

lemma flow_inv_record_event [simp]:
  "flow_inv (SessionTracer_record_event s e) fid flow = flow_inv s fid flow"
  by (simp add: flow_inv_def)

lemma tracer_inv_record_event [intro]:
  "tracer_inv s \<Longrightarrow> tracer_inv (SessionTracer_record_event s e)"
  using record_event_length [of s e] attachment_inv_cong [of "SessionTracer_record_event s e" s]
  by (simp add: tracer_inv_def accounting_inv_def limits_positive_def)

lemma foldl_record_event_fields [simp]:
  "flows (foldl (\<lambda>s _. SessionTracer_record_event s e) s xs) = flows s"
  "tick (foldl (\<lambda>s _. SessionTracer_record_event s e) s xs) = tick s"
  "limits (foldl (\<lambda>s _. SessionTracer_record_event s e) s xs) = limits s"
  "transition (foldl (\<lambda>s _. SessionTracer_record_event s e) s xs) = transition s"
  "next_flow (foldl (\<lambda>s _. SessionTracer_record_event s e) s xs) = next_flow s"
  "negotiated (foldl (\<lambda>s _. SessionTracer_record_event s e) s xs) = negotiated s"
  "attachment_replay (foldl (\<lambda>s _. SessionTracer_record_event s e) s xs) = attachment_replay s"
  "accepted_attachment (foldl (\<lambda>s _. SessionTracer_record_event s e) s xs) = accepted_attachment s"
  by (induction xs arbitrary: s) simp_all

lemma tracer_inv_foldl_record_event:
  "tracer_inv s \<Longrightarrow> tracer_inv (foldl (\<lambda>s _. SessionTracer_record_event s e) s xs)"
  by (induction xs arbitrary: s) auto

section \<open>Updating and removing one flow\<close>

lemma tracer_inv_flow: "tracer_inv s \<Longrightarrow> bt_get (flows s) fid = Some flow \<Longrightarrow> flow_inv s fid flow"
  by (auto simp: tracer_inv_def dest: bt_get_SomeD)

lemma tracer_inv_get_iff:
  "tracer_inv s \<Longrightarrow> bt_get (flows s) fid = Some flow \<longleftrightarrow> (fid, flow) \<in> set (flows s)"
  by (simp add: tracer_inv_def bt_get_Some_iff)

lemma tracer_inv_limits:
  assumes "tracer_inv s"
  shows "pending_segments s \<le> max_session_pending_segments (limits s)"
    "pending_bytes s \<le> max_session_pending_bytes (limits s)"
  using assms by (simp_all add: tracer_inv_def accounting_inv_def)

lemma accounting_ge:
  assumes "tracer_inv s" "bt_get (flows s) fid = Some flow"
  shows "length (pending flow) \<le> pending_segments s" "flow_pending_bytes flow \<le> pending_bytes s"
  using assms btm.total_ge [OF assms(2), of "length \<circ> pending"]
    btm.total_ge [OF assms(2), of flow_pending_bytes]
  by (simp_all add: tracer_inv_def accounting_inv_def)

lemma tracer_inv_update_flow:
  assumes inv: "tracer_inv s" and get: "bt_get (flows s) fid = Some flow"
    and flow: "flow_inv s fid flow'"
    and segs: "ns + length (pending flow) = length (pending flow') + pending_segments s"
    and bytes: "nb + flow_pending_bytes flow = flow_pending_bytes flow' + pending_bytes s"
    and lim: "ns \<le> max_session_pending_segments (limits s)" "nb \<le> max_session_pending_bytes (limits s)"
  shows "tracer_inv (s\<lparr>flows := bt_insert fid flow' (flows s), pending_segments := ns,
    pending_bytes := nb\<rparr>)" (is "tracer_inv ?s")
proof -
  have sorted: "bt_sorted (flows s)"
    using inv by (simp add: tracer_inv_def)
  have same: "flow_inv ?s f g = flow_inv s f g" for f g
    by (simp add: flow_inv_def SessionTracer_epoch_def)
  have "bt_sum (length \<circ> pending) (bt_insert fid flow' (flows s)) + length (pending flow)
      = length (pending flow') + bt_sum (length \<circ> pending) (flows s)"
    using btm.total_put_old [OF sorted get, of "length \<circ> pending" flow'] by simp
  moreover have "bt_sum flow_pending_bytes (bt_insert fid flow' (flows s)) + flow_pending_bytes flow
      = flow_pending_bytes flow' + bt_sum flow_pending_bytes (flows s)"
    using btm.total_put_old [OF sorted get, of flow_pending_bytes flow'] by simp
  moreover have "fid \<in> fst ` set (flows s)"
    using bt_get_SomeD [OF get] by force
  ultimately have "accounting_inv ?s"
    using inv segs bytes lim length_bt_insert [OF sorted, of fid flow']
    by (simp add: tracer_inv_def accounting_inv_def)
  moreover have "flow_inv ?s f g" if "(f, g) \<in> set (flows ?s)" for f g
    using that flow inv unfolding same by (auto simp: set_bt_insert [OF sorted] tracer_inv_def)
  moreover have "attachment_inv ?s"
    using inv attachment_inv_cong [of ?s s] by (simp add: tracer_inv_def)
  ultimately show ?thesis
    using inv by (auto simp: tracer_inv_def bt_sorted_insert)
qed

text \<open>The common case: neither the queue nor its size changes.\<close>

lemma tracer_inv_same_pending:
  assumes "tracer_inv s" "bt_get (flows s) fid = Some flow" "flow_inv s fid flow'"
    and "pending flow' = pending flow" "flow_pending_bytes flow' = flow_pending_bytes flow"
  shows "tracer_inv (s\<lparr>flows := bt_insert fid flow' (flows s)\<rparr>)"
proof -
  have "tracer_inv (s\<lparr>flows := bt_insert fid flow' (flows s), pending_segments := pending_segments s,
      pending_bytes := pending_bytes s\<rparr>)"
    using assms by (intro tracer_inv_update_flow) (auto simp: tracer_inv_def accounting_inv_def)
  then show ?thesis by simp
qed

lemma release_flow_inv:
  assumes inv: "tracer_inv s" and get: "bt_get (flows s) fid = Some flow"
  shows "\<exists>s'. release_flow (s\<lparr>flows := bt_remove fid (flows s)\<rparr>) flow = Some s' \<and> tracer_inv s'
    \<and> s' = s\<lparr>flows := bt_remove fid (flows s),
         pending_segments := pending_segments s - length (pending flow),
         pending_bytes := pending_bytes s - flow_pending_bytes flow\<rparr>"
proof -
  let ?s = "s\<lparr>flows := bt_remove fid (flows s),
      pending_segments := pending_segments s - length (pending flow),
      pending_bytes := pending_bytes s - flow_pending_bytes flow\<rparr>"
  have sorted: "bt_sorted (flows s)"
    using inv by (simp add: tracer_inv_def)
  have same: "flow_inv ?s f g = flow_inv s f g" for f g
    by (simp add: flow_inv_def SessionTracer_epoch_def)
  have "accounting_inv ?s"
    using inv btm.total_del_minus [OF sorted get, of "length \<circ> pending"]
      btm.total_del_minus [OF sorted get, of flow_pending_bytes]
      length_bt_remove_le [of fid "flows s"]
    by (auto simp: tracer_inv_def accounting_inv_def)
  moreover have "attachment_inv ?s"
    using inv attachment_inv_cong [of ?s s] by (simp add: tracer_inv_def)
  ultimately have "tracer_inv ?s"
    using inv by (auto simp: tracer_inv_def bt_sorted_remove set_bt_remove same)
  moreover have "release_flow (s\<lparr>flows := bt_remove fid (flows s)\<rparr>) flow = Some ?s"
    using accounting_ge [OF assms] by (simp add: release_flow_def usize_checked_sub_def)
  ultimately show ?thesis by simp
qed

section \<open>Opening, closing and resetting\<close>

lemma tracer_inv_new: "SessionTracer_new e l = Some s \<Longrightarrow> tracer_inv s"
  by (auto simp: SessionTracer_new_def tracer_inv_def accounting_inv_def attachment_inv_def
      SessionTracer_epoch_def TransitionState_new_def ReplayWindow_default_def split: if_splits)

lemma flow_inv_new_flow:
  "flow_id_value fid < next_flow s \<Longrightarrow> flow_inv s fid new_flow"
  by (simp add: flow_inv_def send_inv_def receive_inv_def new_flow_def)

lemma word_plus_1: "w \<noteq> - 1 \<Longrightarrow> unat (w + 1) = unat w + 1" for w :: "'a::len word"
proof -
  assume "w \<noteq> - 1"
  then have "w + 1 \<noteq> 0"
    by (metis add.commute add_eq_0_iff)
  then show ?thesis
    by (metis Suc_eq_plus1 add.commute unatSuc)
qed

lemma open_with_id_Ok:
  assumes "SessionTracer_open_reliable_flow_with_id s fid = (Ok u, s')"
  shows "next_flow s \<le> flow_id_value fid \<and> unat (next_flow s') = unat (flow_id_value fid) + 1
    \<and> flows s' = bt_insert fid new_flow (flows s) \<and> length (flows s) < max_flows (limits s)
    \<and> s' = SessionTracer_record_event
        (s\<lparr>next_flow := flow_id_value fid + 1, flows := bt_insert fid new_flow (flows s)\<rparr>) EventFlowOpened"
  using assms word_plus_1 [of "flow_id_value fid"]
  by (auto simp: SessionTracer_open_reliable_flow_with_id_def Let_def split: if_splits)

lemma tracer_inv_open_with_id:
  assumes inv: "tracer_inv s" and "SessionTracer_open_reliable_flow_with_id s fid = (r, s')"
  shows "tracer_inv s'"
proof (cases r)
  case (Inl e)
  then show ?thesis
    using assms by (auto simp: SessionTracer_open_reliable_flow_with_id_def Let_def split: if_splits)
next
  case (Inr u)
  let ?s = "s\<lparr>next_flow := flow_id_value fid + 1, flows := bt_insert fid new_flow (flows s)\<rparr>"
  have ok: "next_flow s \<le> flow_id_value fid" "unat (flow_id_value fid + 1) = unat (flow_id_value fid) + 1"
    "length (flows s) < max_flows (limits s)" "s' = SessionTracer_record_event ?s EventFlowOpened"
    using open_with_id_Ok [of s fid u s'] assms(2) Inr by auto
  have sorted: "bt_sorted (flows s)"
    using inv by (simp add: tracer_inv_def)
  have old: "flow_id_value f < next_flow s" if "(f, g) \<in> set (flows s)" for f g
    using inv that by (auto simp: tracer_inv_def flow_inv_def)
  have new: "bt_get (flows s) fid = None"
    using old ok(1) by (fastforce simp: bt_get_None_iff)
  have "flow_id_value f < flow_id_value fid + 1" if "flow_id_value f \<le> flow_id_value fid" for f
    using ok(2) that by (simp add: word_less_nat_alt word_le_nat_alt)
  then have keep: "flow_inv ?s f g" if "(f, g) \<in> set (flows s)" for f g
    using inv that old [OF that] ok(1)
    by (force simp: tracer_inv_def flow_inv_def SessionTracer_epoch_def)
  have "accounting_inv ?s"
    using inv ok(3) new btm.total_put_new [OF new, of "length \<circ> pending" new_flow]
      btm.total_put_new [OF new, of flow_pending_bytes new_flow]
      length_bt_insert [OF sorted, of fid new_flow]
    by (simp add: tracer_inv_def accounting_inv_def new_flow_def)
  moreover have "attachment_inv ?s"
    using inv attachment_inv_cong [of ?s s] by (simp add: tracer_inv_def)
  moreover have "flow_inv ?s fid new_flow"
    using ok(2) by (intro flow_inv_new_flow) (simp add: word_less_nat_alt)
  ultimately have "tracer_inv ?s"
    using inv keep by (auto simp: tracer_inv_def bt_sorted_insert set_bt_insert [OF sorted])
  then show ?thesis
    using ok(4) by auto
qed

lemma tracer_inv_open:
  "tracer_inv s \<Longrightarrow> SessionTracer_open_reliable_flow s = (r, s') \<Longrightarrow> tracer_inv s'"
  using tracer_inv_open_with_id
  by (auto simp: SessionTracer_open_reliable_flow_def Let_def split: prod.splits sum.splits)

lemma reset_Some:
  assumes "tracer_inv s"
  shows "\<exists>r s'. SessionTracer_reset_reliable_flow s fid = Some (r, s') \<and> tracer_inv s'
    \<and> flows s' = bt_remove fid (flows s) \<and> (r = Ok () \<longleftrightarrow> bt_get (flows s) fid \<noteq> None)"
proof (cases "bt_get (flows s) fid")
  case None
  then show ?thesis
    using assms bt_remove_absent [of fid "flows s"]
    by (simp add: SessionTracer_reset_reliable_flow_def bt_get_None_iff [symmetric])
next
  case (Some flow)
  then show ?thesis
    using release_flow_inv [OF assms Some] by (auto simp: SessionTracer_reset_reliable_flow_def)
qed

lemma tracer_inv_reset:
  "tracer_inv s \<Longrightarrow> SessionTracer_reset_reliable_flow s fid = Some (r, s') \<Longrightarrow> tracer_inv s'"
  using reset_Some [of s fid] by auto

text \<open>Closing a drained flow is resetting it.\<close>

lemma close_as_reset:
  assumes "tracer_inv s" "bt_get (flows s) fid = Some flow" "pending flow = []"
  shows "Some (SessionTracer_close_reliable_flow s fid) = SessionTracer_reset_reliable_flow s fid"
proof -
  have "flow_pending_bytes flow = 0"
    using tracer_inv_flow [OF assms(1,2)] assms(3) by (simp add: flow_inv_def send_inv_def)
  then show ?thesis
    using assms
    by (simp add: SessionTracer_close_reliable_flow_def SessionTracer_reset_reliable_flow_def
        release_flow_def usize_checked_sub_def)
qed

lemma tracer_inv_close:
  assumes "tracer_inv s" "SessionTracer_close_reliable_flow s fid = (r, s')"
  shows "tracer_inv s'"
proof (cases "bt_get (flows s) fid")
  case (Some flow)
  show ?thesis
  proof (cases "pending flow = []")
    case True
    then have "SessionTracer_reset_reliable_flow s fid = Some (r, s')"
      using close_as_reset [OF assms(1) Some] assms(2) by simp
    then show ?thesis
      by (rule tracer_inv_reset [OF assms(1)])
  qed (use assms Some in \<open>simp add: SessionTracer_close_reliable_flow_def\<close>)
qed (use assms in \<open>simp add: SessionTracer_close_reliable_flow_def\<close>)

section \<open>Sending\<close>

lemma receive_inv_send_update [simp]:
  "receive_inv (flow\<lparr>next_send := n, flow_pending_bytes := b, pending := ps\<rparr>) = receive_inv flow"
  "receive_inv (flow\<lparr>pending := ps, flow_pending_bytes := b\<rparr>) = receive_inv flow"
  by (auto simp: receive_inv_def split: option.splits)

lemma send_Some_iff:
  "SessionTracer_send s fid bs = Some (Ok segment, s') \<longleftrightarrow>
    (\<exists>flow n deadline. bt_get (flows s) fid = Some flow
      \<and> pending_segments s < max_session_pending_segments (limits s)
      \<and> length bs \<le> max_session_pending_bytes (limits s) - pending_bytes s
      \<and> length (pending flow) \<noteq> max_pending_segments (limits s)
      \<and> length bs \<le> max_pending_bytes (limits s) - flow_pending_bytes flow
      \<and> checked_add (sequence_value (next_send flow)) 1 = Some n
      \<and> checked_add (tick s) (max_pending_age (limits s)) = Some deadline
      \<and> segment = \<lparr>seg_flow_id = fid, seg_epoch = SessionTracer_epoch s,
            seg_sequence = next_send flow, seg_bytes = bs\<rparr>
      \<and> s' = s\<lparr>flows := bt_insert fid (flow\<lparr>next_send := Sequence n,
              flow_pending_bytes := flow_pending_bytes flow + length bs,
              pending := pending flow @ [\<lparr>pend_segment = segment, expires_at = deadline\<rparr>]\<rparr>) (flows s),
            pending_segments := pending_segments s + 1,
            pending_bytes := pending_bytes s + length bs\<rparr>)"
  by (cases "bt_get (flows s) fid")
    (auto simp: SessionTracer_send_def Let_def split: option.splits if_splits)

lemma send_Err:
  assumes "SessionTracer_send s fid bs = Some (Err e, s')"
  shows "s' = s \<or> s' = SessionTracer_record_event s PendingLimitReached"
  using assms by (auto simp: SessionTracer_send_def Let_def split: option.splits if_splits)

lemma send_inv_snoc:
  assumes inv: "send_inv l e now fid flow"
    and n: "checked_add (sequence_value (next_send flow)) 1 = Some n"
    and deadline: "checked_add now (max_pending_age l) = Some deadline"
    and room: "length (pending flow) \<noteq> max_pending_segments l"
      "length bs \<le> max_pending_bytes l - flow_pending_bytes flow"
    and seg: "segment = \<lparr>seg_flow_id = fid, seg_epoch = e, seg_sequence = next_send flow, seg_bytes = bs\<rparr>"
  shows "send_inv l e now fid (flow\<lparr>next_send := Sequence n,
      flow_pending_bytes := flow_pending_bytes flow + length bs,
      pending := pending flow @ [\<lparr>pend_segment = segment, expires_at = deadline\<rparr>]\<rparr>)"
proof -
  have n': "unat n = unat (sequence_value (next_send flow)) + 1"
    using checked_add_SomeD [OF n] by simp
  have d: "unat deadline = unat now + unat (max_pending_age l)"
    using checked_add_SomeD [OF deadline] .
  have "sorted_wrt pend_before (pending flow @ [\<lparr>pend_segment = segment, expires_at = deadline\<rparr>])"
    using inv d seg
    by (auto simp: send_inv_def sorted_wrt_append pend_before_def list_all_iff word_le_nat_alt)
  then show ?thesis
    using inv room n' d seg
    by (auto simp: send_inv_def pend_len_def pend_seq_def)
qed

lemma tracer_inv_send:
  assumes inv: "tracer_inv s" and send: "SessionTracer_send s fid bs = Some (r, s')"
  shows "tracer_inv s'"
proof (cases r)
  case (Inl e)
  then show ?thesis
    using send_Err send inv by blast
next
  case (Inr segment)
  then obtain flow n deadline where ok: "bt_get (flows s) fid = Some flow"
    "pending_segments s < max_session_pending_segments (limits s)"
    "length bs \<le> max_session_pending_bytes (limits s) - pending_bytes s"
    "length (pending flow) \<noteq> max_pending_segments (limits s)"
    "length bs \<le> max_pending_bytes (limits s) - flow_pending_bytes flow"
    "checked_add (sequence_value (next_send flow)) 1 = Some n"
    "checked_add (tick s) (max_pending_age (limits s)) = Some deadline"
    "segment = \<lparr>seg_flow_id = fid, seg_epoch = SessionTracer_epoch s, seg_sequence = next_send flow,
      seg_bytes = bs\<rparr>"
    and s': "s' = s\<lparr>flows := bt_insert fid (flow\<lparr>next_send := Sequence n,
          flow_pending_bytes := flow_pending_bytes flow + length bs,
          pending := pending flow @ [\<lparr>pend_segment = segment, expires_at = deadline\<rparr>]\<rparr>) (flows s),
        pending_segments := pending_segments s + 1, pending_bytes := pending_bytes s + length bs\<rparr>"
    using send by (auto simp: send_Some_iff)
  have flow: "flow_inv s fid flow"
    using tracer_inv_flow [OF inv ok(1)] .
  show ?thesis
    unfolding s'
  proof (rule tracer_inv_update_flow [OF inv ok(1)])
    show "flow_inv s fid (flow\<lparr>next_send := Sequence n,
        flow_pending_bytes := flow_pending_bytes flow + length bs,
        pending := pending flow @ [\<lparr>pend_segment = segment, expires_at = deadline\<rparr>]\<rparr>)"
      using flow send_inv_snoc [OF _ ok(6,7,4,5,8)] by (simp add: flow_inv_def)
    show "pending_bytes s + length bs \<le> max_session_pending_bytes (limits s)"
      using ok(3) tracer_inv_limits [OF inv] by linarith
  qed (use ok in simp_all)
qed

section \<open>Acknowledging\<close>

lemma release_acknowledged_eq:
  assumes "sum_list (map pend_len ps) \<le> fb"
  shows "release_acknowledged t ps fb rs rb =
    (let gone = takeWhile (\<lambda>p. seg_sequence (pend_segment p) \<le> t) ps
     in Some (dropWhile (\<lambda>p. seg_sequence (pend_segment p) \<le> t) ps,
          fb - sum_list (map pend_len gone), rs + length gone, rb + sum_list (map pend_len gone)))"
  using assms
proof (induction t ps fb rs rb rule: release_acknowledged.induct)
  case (2 t p ps fb rs rb)
  then show ?case
    by (auto simp: usize_checked_sub_def pend_len_def Let_def diff_diff_eq)
qed (simp add: Let_def)

lemma pend_seq_le_iff:
  "seg_sequence (pend_segment p) \<le> t \<longleftrightarrow> pend_seq p \<le> unat (sequence_value t)"
  by (cases "seg_sequence (pend_segment p)"; cases t) (simp add: pend_seq_def word_le_nat_alt)

text \<open>The queue is consecutive, so releasing from the front is releasing everything acknowledged.\<close>

lemma send_inv_dropWhile:
  assumes "send_inv l e now fid flow" and "P = (\<lambda>p. seg_sequence (pend_segment p) \<le> t)"
  shows "dropWhile P (pending flow) = filter (\<lambda>p. \<not> P p) (pending flow)"
    and "takeWhile P (pending flow) = filter P (pending flow)"
proof -
  have "sorted (map pend_seq (pending flow))"
    using assms(1) by (simp add: send_inv_def del: upt_Suc)
  then have mono: "sorted_wrt (\<lambda>p q. pend_seq p \<le> pend_seq q) (pending flow)"
    by (simp add: sorted_map)
  have P: "P = (\<lambda>p. pend_seq p \<le> unat (sequence_value t))"
    using assms(2) pend_seq_le_iff by simp
  have "dropWhile P xs = filter (\<lambda>p. \<not> P p) xs \<and> takeWhile P xs = filter P xs"
    if "sorted_wrt (\<lambda>p q. pend_seq p \<le> pend_seq q) xs" for xs
    using that
  proof (induction xs)
    case (Cons p xs)
    show ?case
    proof (cases "P p")
      case False
      then have "\<forall>q \<in> set xs. \<not> P q"
        using Cons.prems P by auto
      with False show ?thesis by simp
    qed (use Cons in simp)
  qed simp
  then show "dropWhile P (pending flow) = filter (\<lambda>p. \<not> P p) (pending flow)"
    "takeWhile P (pending flow) = filter P (pending flow)"
    using mono by auto
qed

lemma send_inv_drop:
  assumes "send_inv l e now fid flow" "k \<le> length (pending flow)"
  shows "send_inv l e now fid (flow\<lparr>pending := drop k (pending flow),
    flow_pending_bytes := flow_pending_bytes flow - sum_list (map pend_len (take k (pending flow)))\<rparr>)"
proof -
  have "sum_list (map pend_len (pending flow))
      = sum_list (map pend_len (take k (pending flow))) + sum_list (map pend_len (drop k (pending flow)))"
    by (metis append_take_drop_id map_append sum_list_append)
  moreover have "map pend_seq (drop k (pending flow))
      = drop k [unat (sequence_value (next_send flow)) - length (pending flow)
          ..< unat (sequence_value (next_send flow))]"
    using assms(1) by (simp add: drop_map [symmetric] send_inv_def)
  moreover have "list_all Q (drop k (pending flow))" if "list_all Q (pending flow)" for Q
    using that by (auto simp: list_all_iff dest: in_set_dropD)
  ultimately show ?thesis
    using assms by (auto simp: send_inv_def sorted_wrt_drop)
qed

lemma acked_flow_drop:
  assumes "send_inv l e now fid flow"
  shows "\<exists>k \<le> length (pending flow). acked_flow t flow = flow\<lparr>pending := drop k (pending flow),
      flow_pending_bytes := flow_pending_bytes flow - sum_list (map pend_len (take k (pending flow)))\<rparr>
    \<and> takeWhile (\<lambda>p. seg_sequence (pend_segment p) \<le> t) (pending flow) = take k (pending flow)
    \<and> dropWhile (\<lambda>p. seg_sequence (pend_segment p) \<le> t) (pending flow) = drop k (pending flow)"
proof (intro exI conjI)
  let ?P = "\<lambda>p. seg_sequence (pend_segment p) \<le> t"
  let ?k = "length (takeWhile ?P (pending flow))"
  show take: "takeWhile ?P (pending flow) = take ?k (pending flow)"
    by (rule takeWhile_eq_take)
  show drop: "dropWhile ?P (pending flow) = drop ?k (pending flow)"
    by (rule dropWhile_eq_drop)
  have "filter (\<lambda>p. \<not> ?P p) (pending flow) = drop ?k (pending flow)"
    using send_inv_dropWhile [OF assms refl, of t] drop by simp
  moreover have "sum_list (map pend_len (pending flow))
      = sum_list (map pend_len (take ?k (pending flow))) + sum_list (map pend_len (drop ?k (pending flow)))"
    by (metis append_take_drop_id map_append sum_list_append)
  ultimately show "acked_flow t flow = flow\<lparr>pending := drop ?k (pending flow),
      flow_pending_bytes := flow_pending_bytes flow - sum_list (map pend_len (take ?k (pending flow)))\<rparr>"
    using assms by (simp add: acked_flow_def send_inv_def)
  show "?k \<le> length (pending flow)"
    by (rule length_takeWhile_le)
qed

text \<open>What an accepted acknowledgement does, and that it cannot panic.\<close>

lemma acknowledge_Some:
  assumes inv: "tracer_inv s" and get: "bt_get (flows s) (ack_flow_id ack) = Some flow"
    and epoch: "SessionTracer_require_valid_epoch s (ack_epoch ack) = Ok ()"
    and through: "sequence_value (ack_through ack) < sequence_value (next_send flow)"
    and old: "\<not> list_ex (\<lambda>p. seg_sequence (pend_segment p) \<le> ack_through ack
        \<and> seg_epoch (pend_segment p) > ack_epoch ack) (pending flow)"
  shows "\<exists>s'. SessionTracer_acknowledge s ack = Some (Ok (), s') \<and> tracer_inv s'
    \<and> flows s' = bt_insert (ack_flow_id ack) (acked_flow (ack_through ack) flow) (flows s)"
proof -
  have flow: "flow_inv s (ack_flow_id ack) flow"
    using tracer_inv_flow [OF inv get] .
  then have send: "send_inv (limits s) (SessionTracer_epoch s) (tick s) (ack_flow_id ack) flow"
    by (simp add: flow_inv_def)
  obtain k where k: "k \<le> length (pending flow)"
    and acked: "acked_flow (ack_through ack) flow = flow\<lparr>pending := drop k (pending flow),
      flow_pending_bytes := flow_pending_bytes flow - sum_list (map pend_len (take k (pending flow)))\<rparr>"
    and tw: "takeWhile (\<lambda>p. seg_sequence (pend_segment p) \<le> ack_through ack) (pending flow)
      = take k (pending flow)"
    and dw: "dropWhile (\<lambda>p. seg_sequence (pend_segment p) \<le> ack_through ack) (pending flow)
      = drop k (pending flow)"
    using acked_flow_drop [OF send] by blast
  have bytes: "flow_pending_bytes flow = sum_list (map pend_len (pending flow))"
    using send by (simp add: send_inv_def)
  have split: "sum_list (map pend_len (pending flow))
      = sum_list (map pend_len (take k (pending flow))) + sum_list (map pend_len (drop k (pending flow)))"
    by (metis append_take_drop_id map_append sum_list_append)
  let ?rs = "length (take k (pending flow))" and ?rb = "sum_list (map pend_len (take k (pending flow)))"
  let ?s = "s\<lparr>flows := bt_insert (ack_flow_id ack) (acked_flow (ack_through ack) flow) (flows s),
      pending_segments := pending_segments s - ?rs, pending_bytes := pending_bytes s - ?rb\<rparr>"
  have room: "?rs \<le> pending_segments s" "?rb \<le> pending_bytes s"
    using accounting_ge [OF inv get] k bytes split by simp_all
  have "release_acknowledged (ack_through ack) (pending flow) (flow_pending_bytes flow) 0 0
      = Some (drop k (pending flow), flow_pending_bytes flow - ?rb, ?rs, ?rb)"
    using bytes by (subst release_acknowledged_eq) (simp_all only: tw dw Let_def add_0)
  then have "SessionTracer_acknowledge s ack = Some (Ok (), ?s)"
    using get epoch through old room unfolding acked
    by (simp add: SessionTracer_acknowledge_def usize_checked_sub_def not_le)
  moreover have "tracer_inv ?s"
  proof (rule tracer_inv_update_flow [OF inv get])
    show "flow_inv s (ack_flow_id ack) (acked_flow (ack_through ack) flow)"
      using flow send_inv_drop [OF send k] acked by (simp add: flow_inv_def)
    show "pending_segments s - ?rs \<le> max_session_pending_segments (limits s)"
      "pending_bytes s - ?rb \<le> max_session_pending_bytes (limits s)"
      using tracer_inv_limits [OF inv] by linarith+
    show "pending_segments s - ?rs + length (pending flow)
        = length (pending (acked_flow (ack_through ack) flow)) + pending_segments s"
      using room k unfolding acked by simp
    show "pending_bytes s - ?rb + flow_pending_bytes flow
        = flow_pending_bytes (acked_flow (ack_through ack) flow) + pending_bytes s"
      using room bytes split unfolding acked by simp
  qed
  ultimately show ?thesis by simp
qed

lemma acknowledge_Err:
  assumes "\<not> (SessionTracer_require_valid_epoch s (ack_epoch ack) = Ok ()
      \<and> (\<exists>flow. bt_get (flows s) (ack_flow_id ack) = Some flow
          \<and> sequence_value (ack_through ack) < sequence_value (next_send flow)
          \<and> \<not> list_ex (\<lambda>p. seg_sequence (pend_segment p) \<le> ack_through ack
              \<and> seg_epoch (pend_segment p) > ack_epoch ack) (pending flow)))"
  shows "\<exists>e. SessionTracer_acknowledge s ack = Some (Err e, s)"
  using assms
  by (cases "SessionTracer_require_valid_epoch s (ack_epoch ack)";
      cases "bt_get (flows s) (ack_flow_id ack)")
    (auto simp: SessionTracer_acknowledge_def not_less)

lemma acknowledge_total:
  assumes "tracer_inv s"
  shows "\<exists>r s'. SessionTracer_acknowledge s ack = Some (r, s') \<and> tracer_inv s'"
  using acknowledge_Some [OF assms, of ack] acknowledge_Err [of s ack] assms by blast

lemma tracer_inv_acknowledge:
  "tracer_inv s \<Longrightarrow> SessionTracer_acknowledge s ack = Some (r, s') \<Longrightarrow> tracer_inv s'"
  using acknowledge_total [of s ack] by auto

section \<open>Receiving\<close>

lemma receive_Delivered_iff:
  "SessionTracer_receive s segment = Some (Ok (Delivered bs), s') \<longleftrightarrow>
    SessionTracer_require_valid_epoch s (seg_epoch segment) = Ok () \<and> bs = seg_bytes segment
    \<and> (\<exists>flow n. bt_get (flows s) (seg_flow_id segment) = Some flow
        \<and> \<not> is_some_and (receive_final_next flow) (\<lambda>final. final \<le> seg_sequence segment)
        \<and> seg_sequence segment = next_receive flow
        \<and> checked_add (sequence_value (next_receive flow)) 1 = Some n
        \<and> s' = s\<lparr>flows := bt_insert (seg_flow_id segment) (flow\<lparr>next_receive := Sequence n\<rparr>) (flows s)\<rparr>)"
  by (cases "SessionTracer_require_valid_epoch s (seg_epoch segment)";
      cases "bt_get (flows s) (seg_flow_id segment)")
    (auto simp: SessionTracer_receive_def split: if_splits option.splits)

lemma receive_other:
  assumes "SessionTracer_receive s segment = Some (r, s')"
  shows "(\<exists>bs. r = Ok (Delivered bs)) \<or> s' = s
    \<or> s' = SessionTracer_record_event s DuplicateIgnored
    \<or> s' = SessionTracer_record_event s OutOfOrderRejected"
proof (cases "SessionTracer_require_valid_epoch s (seg_epoch segment)")
  case Inr
  show ?thesis
  proof (cases "bt_get (flows s) (seg_flow_id segment)")
    case (Some flow)
    then show ?thesis
      using assms Inr by (auto simp: SessionTracer_receive_def split: if_splits option.splits)
  qed (use assms Inr in \<open>simp add: SessionTracer_receive_def\<close>)
qed (use assms in \<open>simp add: SessionTracer_receive_def\<close>)

lemma Sequence_succ_le:
  assumes "checked_add (sequence_value a) 1 = Some n" "a < b"
  shows "Sequence n \<le> b"
proof -
  have "unat n = unat (sequence_value a) + 1"
    using checked_add_SomeD [OF assms(1)] by simp
  then show ?thesis
    using assms(2) by (cases a; cases b) (simp add: word_less_nat_alt word_le_nat_alt)
qed

lemma send_inv_receive_update [simp]:
  "send_inv l e now fid (flow\<lparr>next_receive := n\<rparr>) = send_inv l e now fid flow"
  "send_inv l e now fid (flow\<lparr>receive_final_next := fin\<rparr>) = send_inv l e now fid flow"
  by (simp_all add: send_inv_def)

lemma tracer_inv_receive:
  assumes inv: "tracer_inv s" and rcv: "SessionTracer_receive s segment = Some (r, s')"
  shows "tracer_inv s'"
proof (cases "\<exists>bs. r = Ok (Delivered bs)")
  case False
  then show ?thesis
    using receive_other [OF rcv] inv by blast
next
  case True
  then obtain flow n where ok: "bt_get (flows s) (seg_flow_id segment) = Some flow"
    "\<not> is_some_and (receive_final_next flow) (\<lambda>final. final \<le> seg_sequence segment)"
    "seg_sequence segment = next_receive flow"
    "checked_add (sequence_value (next_receive flow)) 1 = Some n"
    and s': "s' = s\<lparr>flows := bt_insert (seg_flow_id segment) (flow\<lparr>next_receive := Sequence n\<rparr>) (flows s)\<rparr>"
    using rcv by (auto simp: receive_Delivered_iff)
  have "receive_inv (flow\<lparr>next_receive := Sequence n\<rparr>)"
    using ok(2,3) Sequence_succ_le [OF ok(4)]
    by (cases "receive_final_next flow") (auto simp: receive_inv_def not_le)
  then have "flow_inv s (seg_flow_id segment) (flow\<lparr>next_receive := Sequence n\<rparr>)"
    using tracer_inv_flow [OF inv ok(1)] by (simp add: flow_inv_def)
  then show ?thesis
    unfolding s' by (rule tracer_inv_same_pending [OF inv ok(1)]) simp_all
qed

lemma tracer_inv_finish:
  assumes inv: "tracer_inv s" and "SessionTracer_finish_receiving s fid e final = (r, s')"
  shows "tracer_inv s'"
proof -
  have "s' = s \<or> (\<exists>flow. bt_get (flows s) fid = Some flow \<and> \<not> final < next_receive flow
      \<and> s' = s\<lparr>flows := bt_insert fid (flow\<lparr>receive_final_next := Some final\<rparr>) (flows s)\<rparr>)"
    using assms(2)
    by (auto simp: SessionTracer_finish_receiving_def split: sum.splits option.splits if_splits)
  then show ?thesis
  proof (elim disjE exE conjE)
    fix flow
    assume get: "bt_get (flows s) fid = Some flow" and le: "\<not> final < next_receive flow"
      and s': "s' = s\<lparr>flows := bt_insert fid (flow\<lparr>receive_final_next := Some final\<rparr>) (flows s)\<rparr>"
    have "flow_inv s fid (flow\<lparr>receive_final_next := Some final\<rparr>)"
      using tracer_inv_flow [OF inv get] le by (simp add: flow_inv_def receive_inv_def not_less)
    then show ?thesis
      unfolding s' by (rule tracer_inv_same_pending [OF inv get]) simp_all
  qed (use inv in simp)
qed

section \<open>Time\<close>

lemma send_inv_later:
  "send_inv l e now fid flow \<Longrightarrow> unat now \<le> unat later \<Longrightarrow> send_inv l e later fid flow"
  by (auto simp: send_inv_def list_all_iff intro: order_trans)

lemma tracer_inv_tick:
  assumes "tracer_inv s" "unat (tick s) \<le> unat now"
  shows "tracer_inv (s\<lparr>tick := now\<rparr>)"
proof -
  have "flow_inv (s\<lparr>tick := now\<rparr>) fid flow" if "flow_inv s fid flow" for fid flow
    using that send_inv_later [OF _ assms(2)] by (simp add: flow_inv_def SessionTracer_epoch_def)
  then show ?thesis
    using assms attachment_inv_cong [of "s\<lparr>tick := now\<rparr>" s]
    by (auto simp: tracer_inv_def accounting_inv_def)
qed

lemma remove_timed_out_Some:
  assumes "tracer_inv s" "distinct fids" "set fids \<subseteq> fst ` set (flows s)"
  shows "\<exists>s'. remove_timed_out fids s = Some s' \<and> tracer_inv s'
    \<and> flows s' = filter (\<lambda>(fid, _). fid \<notin> set fids) (flows s)
    \<and> tick s' = tick s \<and> limits s' = limits s \<and> transition s' = transition s \<and> next_flow s' = next_flow s
    \<and> negotiated s' = negotiated s \<and> attachment_replay s' = attachment_replay s
    \<and> accepted_attachment s' = accepted_attachment s"
  using assms
proof (induction fids arbitrary: s)
  case (Cons fid fids)
  obtain flow where get: "bt_get (flows s) fid = Some flow"
    using Cons.prems(3) bt_get_None_iff [of "flows s" fid] by (cases "bt_get (flows s) fid") auto
  let ?s = "s\<lparr>flows := bt_remove fid (flows s),
      pending_segments := pending_segments s - length (pending flow),
      pending_bytes := pending_bytes s - flow_pending_bytes flow\<rparr>"
  have rel: "release_flow (s\<lparr>flows := bt_remove fid (flows s)\<rparr>) flow = Some ?s" and inv: "tracer_inv ?s"
    using release_flow_inv [OF Cons.prems(1) get] by auto
  have "set fids \<subseteq> fst ` set (flows ?s)"
  proof
    fix t
    assume t: "t \<in> set fids"
    then obtain g where "(t, g) \<in> set (flows s)"
      using Cons.prems(3) by force
    moreover have "t \<noteq> fid"
      using t Cons.prems(2) by auto
    ultimately show "t \<in> fst ` set (flows ?s)"
      by (force simp: set_bt_remove)
  qed
  from Cons.IH [OF inv _ this] Cons.prems(2) get rel show ?case
    by (auto simp: bt_remove_def intro!: filter_cong)
qed (simp add: filter_id_conv)

lemma advance_time_Some:
  assumes inv: "tracer_inv s" and now: "checked_add (tick s) ticks = Some now"
  shows "\<exists>s'. SessionTracer_advance_time s ticks =
      Some (map fst (filter (\<lambda>(_, flow). front_expired now flow) (flows s)), s')
    \<and> tracer_inv s' \<and> flows s' = filter (\<lambda>(_, flow). \<not> front_expired now flow) (flows s)
    \<and> tick s' = now \<and> limits s' = limits s \<and> transition s' = transition s \<and> next_flow s' = next_flow s
    \<and> negotiated s' = negotiated s \<and> attachment_replay s' = attachment_replay s
    \<and> accepted_attachment s' = accepted_attachment s"
proof -
  let ?s = "s\<lparr>tick := now\<rparr>"
  let ?out = "map fst (filter (\<lambda>(_, flow). front_expired now flow) (flows s))"
  have inv': "tracer_inv ?s"
    using checked_add_SomeD [OF now] by (intro tracer_inv_tick [OF inv]) simp
  have dist: "distinct (map fst (flows s))"
    using inv by (simp add: tracer_inv_def bt_sorted_distinct)
  then have "distinct ?out"
    by (simp add: distinct_map_filter)
  moreover have "set ?out \<subseteq> fst ` set (flows ?s)"
    by auto
  ultimately obtain s1 where s1: "remove_timed_out ?out ?s = Some s1" "tracer_inv s1"
    "flows s1 = filter (\<lambda>(fid, _). fid \<notin> set ?out) (flows s)"
    "tick s1 = now \<and> limits s1 = limits s \<and> transition s1 = transition s \<and> next_flow s1 = next_flow s
      \<and> negotiated s1 = negotiated s \<and> attachment_replay s1 = attachment_replay s
      \<and> accepted_attachment s1 = accepted_attachment s"
    using remove_timed_out_Some [OF inv', of ?out] by auto
  have "fid \<in> set ?out \<longleftrightarrow> front_expired now flow" if "(fid, flow) \<in> set (flows s)" for fid flow
    using inv that by (intro bt_filter_key) (simp_all add: tracer_inv_def)
  then have "flows s1 = filter (\<lambda>(_, flow). \<not> front_expired now flow) (flows s)"
    unfolding s1(3) by (intro filter_cong) auto
  moreover have "SessionTracer_advance_time s ticks =
      Some (?out, foldl (\<lambda>s _. SessionTracer_record_event s EventFlowTimedOut) s1 ?out)"
    using now s1(1) by (simp add: SessionTracer_advance_time_def Let_def)
  ultimately show ?thesis
    using s1(4) tracer_inv_foldl_record_event [OF s1(2)]
    by (intro exI [of _ "foldl (\<lambda>s _. SessionTracer_record_event s EventFlowTimedOut) s1 ?out"])
      (simp only: foldl_record_event_fields simp_thms)
qed

lemma tracer_inv_advance_time:
  assumes "tracer_inv s" "SessionTracer_advance_time s ticks = Some (out, s')"
  shows "tracer_inv s'"
proof -
  obtain now where "checked_add (tick s) ticks = Some now"
    using assms(2) by (cases "checked_add (tick s) ticks") (auto simp: SessionTracer_advance_time_def)
  from advance_time_Some [OF assms(1) this] assms(2) show ?thesis by auto
qed

section \<open>Epochs and attachments\<close>

lemma validate_cases:
  "TransitionState_validate t e = EpochCurrent \<longleftrightarrow> e = tr_current t"
  by (auto simp: TransitionState_validate_def)

lemma send_inv_newer_epoch:
  "send_inv l e now fid flow \<Longrightarrow> e \<le> e' \<Longrightarrow> send_inv l e' now fid flow"
  by (auto simp: send_inv_def list_all_iff intro: order_trans)

lemma begin_transition_Ok_iff:
  "SessionTracer_begin_transition s = Some (Ok e, s') \<longleftrightarrow>
    tr_retiring (transition s) = None
    \<and> checked_add (epoch_value (SessionTracer_epoch s)) 1 = Some (epoch_value e)
    \<and> s' = s\<lparr>transition := \<lparr>tr_current = e, tr_retiring = Some (SessionTracer_epoch s)\<rparr>,
          retiring_attachment := accepted_attachment s, accepted_attachment := None\<rparr>"
proof -
  have "t\<lparr>tr_current := a, tr_retiring := b\<rparr> = \<lparr>tr_current = a, tr_retiring = b\<rparr>" for t :: TransitionState and a b
    by (cases t) simp
  then show ?thesis
    by (cases e)
      (auto simp: SessionTracer_begin_transition_def TransitionState_advance_def SessionTracer_epoch_def
        Let_def split: option.splits if_splits)
qed

lemma begin_transition_Err:
  "SessionTracer_begin_transition s = Some (Err e, s') \<Longrightarrow>
    s' = s \<and> e = TransitionInProgress \<and> tr_retiring (transition s) \<noteq> None"
  by (auto simp: SessionTracer_begin_transition_def TransitionState_advance_def Let_def
      split: option.splits if_splits)

lemma tracer_inv_begin_transition:
  assumes inv: "tracer_inv s" and "SessionTracer_begin_transition s = Some (r, s')"
  shows "tracer_inv s'"
proof (cases r)
  case (Inl e)
  then show ?thesis
    using begin_transition_Err assms by blast
next
  case (Inr e)
  then have ok: "tr_retiring (transition s) = None"
    "checked_add (epoch_value (SessionTracer_epoch s)) 1 = Some (epoch_value e)"
    and s': "s' = s\<lparr>transition := \<lparr>tr_current = e, tr_retiring = Some (SessionTracer_epoch s)\<rparr>,
          retiring_attachment := accepted_attachment s, accepted_attachment := None\<rparr>"
    using assms(2) by (simp_all add: begin_transition_Ok_iff)
  have succ: "unat (epoch_value e) = unat (epoch_value (SessionTracer_epoch s)) + 1"
    using checked_add_SomeD [OF ok(2)] by simp
  then have le: "SessionTracer_epoch s \<le> e"
    by (simp add: less_eq_Epoch_def word_le_nat_alt)
  have "flow_inv s' fid flow" if "flow_inv s fid flow" for fid flow
    using that send_inv_newer_epoch [OF _ le] by (simp add: s' flow_inv_def SessionTracer_epoch_def)
  moreover have "attachment_inv s'"
    using inv succ le unfolding s'
    by (auto simp: tracer_inv_def attachment_inv_def SessionTracer_epoch_def intro: order_trans
        split: option.splits)
  ultimately show ?thesis
    using inv by (auto simp: tracer_inv_def accounting_inv_def s')
qed

lemma tracer_inv_begin_explained:
  assumes "tracer_inv s" "SessionTracer_begin_explained_transition s from_kind to_kind reason = Some (r, s')"
  shows "tracer_inv s'"
  using assms tracer_inv_begin_transition [OF assms(1)]
  by (auto simp: SessionTracer_begin_explained_transition_def split: option.splits sum.splits)

lemma tracer_inv_complete:
  assumes "tracer_inv s"
  shows "tracer_inv (SessionTracer_complete_transition s)"
proof -
  let ?s = "s\<lparr>transition := TransitionState_retire_previous (transition s), retiring_attachment := None\<rparr>"
  have same: "flow_inv ?s fid flow = flow_inv s fid flow" for fid flow
    by (simp add: flow_inv_def SessionTracer_epoch_def TransitionState_retire_previous_def)
  have "attachment_inv ?s"
    using assms
    by (auto simp: tracer_inv_def attachment_inv_def SessionTracer_epoch_def
        TransitionState_retire_previous_def split: option.splits)
  then have "tracer_inv ?s"
    using assms by (auto simp: tracer_inv_def accounting_inv_def same)
  then show ?thesis
    unfolding SessionTracer_complete_transition_def by auto
qed

lemma tracer_inv_bind:
  assumes inv: "tracer_inv s" and bind: "SessionTracer_bind_negotiated_parameters s p = (r, s')"
  shows "tracer_inv s'"
proof (cases "s' = s")
  case False
  then have ok: "s' = s\<lparr>negotiated := Some p\<rparr>" "accepted_attachment s = None"
    "latest_epoch (attachment_replay s) = None"
    using bind
    by (auto simp: SessionTracer_bind_negotiated_parameters_def ReplayWindow_is_empty_def
        split: if_splits)
  have same: "flow_inv s' = flow_inv s"
    by (intro ext) (simp add: ok(1) flow_inv_def SessionTracer_epoch_def)
  have "attachment_inv s'"
    using inv ok(2,3) unfolding ok(1)
    by (auto simp: tracer_inv_def attachment_inv_def SessionTracer_epoch_def split: option.splits)
  moreover have "limits s' = limits s" "flows s' = flows s" "events s' = events s"
    "accounting_inv s' = accounting_inv s"
    using ok(1) by (simp_all add: accounting_inv_def)
  ultimately show ?thesis
    using inv by (simp add: tracer_inv_def same)
qed (use inv in simp)

lemma tracer_inv_negotiate_version:
  "tracer_inv s \<Longrightarrow> SessionTracer_negotiate_transition_version s a b = (r, s') \<Longrightarrow> tracer_inv s'"
  by (auto simp: SessionTracer_negotiate_transition_version_def split: option.splits)

text \<open>An attempt that passes every check is decided by what was accepted before.\<close>

lemma authenticate_verified:
  assumes "negotiated s = Some (att_parameters a)" "att_epoch a = SessionTracer_epoch s"
    "AttachmentAuthenticator_verify sign auth sid (att_epoch a) (att_id a) (att_parameters a)
        (att_proof a) = Ok ()"
  shows "SessionTracer_authenticate_carrier_attachment sign s auth sid a =
      (if accepted_attachment s = Some (accepted_of a) then (Ok AlreadyAccepted, s)
       else if ReplayWindow_accepts (attachment_replay s) (att_epoch a)
       then (Ok Accepted, s\<lparr>attachment_replay := ReplayWindow (Some (att_epoch a)),
          accepted_attachment := Some (accepted_of a)\<rparr>)
       else SessionTracer_reject_attachment s AttachmentReplay)"
proof -
  have "TransitionState_validate (transition s) (att_epoch a) = EpochCurrent"
    using assms(2) by (simp add: validate_cases SessionTracer_epoch_def)
  then show ?thesis
    using assms(1,3)
    by (simp add: SessionTracer_authenticate_carrier_attachment_def ReplayWindow_accept_def)
qed

text \<open>All the ways an attachment attempt can end.\<close>

lemma authenticate_cases:
  assumes "SessionTracer_authenticate_carrier_attachment sign s auth sid a = (r, s')"
  obtains (rejected) e where "r = Err e"
      "s' = s \<or> s' = SessionTracer_record_event s (TransitionRejected AttachmentRejected)"
  | (already) "r = Ok AlreadyAccepted" "s' = s" "accepted_attachment s = Some (accepted_of a)"
      "negotiated s = Some (att_parameters a)" "att_epoch a = SessionTracer_epoch s"
      "AttachmentAuthenticator_verify sign auth sid (att_epoch a) (att_id a) (att_parameters a)
        (att_proof a) = Ok ()"
  | (accepted) "r = Ok Accepted" "ReplayWindow_accepts (attachment_replay s) (att_epoch a)"
      "s' = s\<lparr>attachment_replay := ReplayWindow (Some (att_epoch a)),
          accepted_attachment := Some (accepted_of a)\<rparr>"
      "negotiated s = Some (att_parameters a)" "att_epoch a = SessionTracer_epoch s"
      "AttachmentAuthenticator_verify sign auth sid (att_epoch a) (att_id a) (att_parameters a)
        (att_proof a) = Ok ()"
proof (cases "negotiated s = Some (att_parameters a) \<and> att_epoch a = SessionTracer_epoch s
    \<and> AttachmentAuthenticator_verify sign auth sid (att_epoch a) (att_id a) (att_parameters a)
        (att_proof a) = Ok ()")
  case True
  note authenticate_verified [OF conjunct1 [OF True] conjunct1 [OF conjunct2 [OF True]]
      conjunct2 [OF conjunct2 [OF True]]]
  then consider "r = Ok AlreadyAccepted" "s' = s" "accepted_attachment s = Some (accepted_of a)"
    | "r = Ok Accepted" "ReplayWindow_accepts (attachment_replay s) (att_epoch a)"
      "s' = s\<lparr>attachment_replay := ReplayWindow (Some (att_epoch a)),
          accepted_attachment := Some (accepted_of a)\<rparr>"
    | e where "r = Err e" "s' = SessionTracer_record_event s (TransitionRejected AttachmentRejected)"
    using assms by (simp add: SessionTracer_reject_attachment_def split: if_splits)
  then show thesis
  proof cases
    case 1
    then show thesis using already True by blast
  next
    case 2
    then show thesis using accepted True by blast
  next
    case 3
    then show thesis using rejected by blast
  qed
next
  case False
  have "\<exists>e. r = Err e \<and>
      (s' = s \<or> s' = SessionTracer_record_event s (TransitionRejected AttachmentRejected))"
  proof (cases "negotiated s")
    case (Some p)
    show ?thesis
    proof (cases "TransitionState_validate (transition s) (att_epoch a) = EpochCurrent \<and> p = att_parameters a")
      case True
      then have "AttachmentAuthenticator_verify sign auth sid (att_epoch a) (att_id a) p (att_proof a) \<noteq> Ok ()"
        using False Some by (simp add: validate_cases SessionTracer_epoch_def)
      then obtain e where
        "AttachmentAuthenticator_verify sign auth sid (att_epoch a) (att_id a) p (att_proof a) = Err e"
        by (metis sum.exhaust_sel old.unit.exhaust)
      then show ?thesis
        using assms Some True
        by (auto simp: SessionTracer_authenticate_carrier_attachment_def SessionTracer_reject_attachment_def)
    qed (use assms Some in \<open>auto simp: SessionTracer_authenticate_carrier_attachment_def
        SessionTracer_reject_attachment_def split: if_splits EpochValidity.splits\<close>)
  qed (use assms in \<open>auto simp: SessionTracer_authenticate_carrier_attachment_def\<close>)
  then show thesis
    using rejected by blast
qed

lemma tracer_inv_authenticate:
  assumes inv: "tracer_inv s"
    and "SessionTracer_authenticate_carrier_attachment sign s auth sid a = (r, s')"
  shows "tracer_inv s'"
  using assms(2)
proof (cases rule: authenticate_cases)
  case accepted
  have same: "flow_inv s' = flow_inv s"
    by (intro ext) (simp add: accepted(3) flow_inv_def SessionTracer_epoch_def)
  have "attachment_inv s'"
    using inv accepted
    by (auto simp: tracer_inv_def attachment_inv_def SessionTracer_epoch_def accepted_of_def
        split: option.splits)
  moreover have "limits s' = limits s" "flows s' = flows s" "events s' = events s"
    "accounting_inv s' = accounting_inv s"
    using accepted(3) by (simp_all add: accounting_inv_def)
  ultimately show ?thesis
    using inv by (simp add: tracer_inv_def same)
qed (use inv in auto)

end
