(* ===== verification/State_Runs.thy ===== *)
theory State_Runs
  imports Velum_Prelude
begin

text \<open>
  Runs of a component: the sequences of operations a caller may issue, each with what it
  returned. A component is a step function that maps an operation and a state to an outcome and
  the next state, or to \<open>None\<close> when the operation panics; a run stops there. The locales state
  the obligation under which a property of states, or of the whole history of a run, holds along
  every run.
\<close>

inductive run ::
  "('op \<Rightarrow> 's \<Rightarrow> ('o \<times> 's) option) \<Rightarrow> 's \<Rightarrow> ('op \<times> 'o) list \<Rightarrow> 's \<Rightarrow> bool"
  for step
where
  run_nil: "run step s [] s"
| run_snoc: "run step s log s1 \<Longrightarrow> step op s1 = Some (out, s2) \<Longrightarrow> run step s (log @ [(op, out)]) s2"

inductive_cases run_snocE: "run step s (log @ [e]) s2"

fun execute ::
  "('op \<Rightarrow> 's \<Rightarrow> ('o \<times> 's) option) \<Rightarrow> 's \<Rightarrow> 'op list \<Rightarrow> (('op \<times> 'o) list \<times> 's) option" where
  "execute step s [] = Some ([], s)"
| "execute step s (op # ops) =
     (case step op s of
        None \<Rightarrow> None
      | Some (out, s1) \<Rightarrow>
          (case execute step s1 ops of
             None \<Rightarrow> None
           | Some (log, s2) \<Rightarrow> Some ((op, out) # log, s2)))"

lemma run_append:
  assumes "run step s1 l2 s2" "run step s l1 s1"
  shows "run step s (l1 @ l2) s2"
  using assms
proof (induction rule: run.induct)
  case (run_snoc s1 log s2 op out s3)
  then have "run step s ((l1 @ log) @ [(op, out)]) s3"
    by (intro run.run_snoc) auto
  then show ?case by simp
qed simp

lemma run_one: "step op s = Some (out, s') \<Longrightarrow> run step s [(op, out)] s'"
  using run_snoc [OF run_nil, of step op s] by simp

text \<open>Executing a list of operations gives a run, so a run can be exhibited by evaluation.\<close>

lemma execute_run: "execute step s ops = Some (log, s') \<Longrightarrow> run step s log s'"
proof (induction ops arbitrary: s log)
  case (Cons op ops)
  then obtain out s1 log1 where step: "step op s = Some (out, s1)"
    and rest: "execute step s1 ops = Some (log1, s')" and log: "log = (op, out) # log1"
    by (auto split: option.splits)
  show ?case
    using run_append [OF Cons.IH [OF rest]] run_one [of step op s out s1] step log by fastforce
qed (auto intro: run_nil)

section \<open>Invariants of runs\<close>

locale invariant_system =
  fixes step :: "'op \<Rightarrow> 's \<Rightarrow> ('o \<times> 's) option"
    and inv :: "'s \<Rightarrow> bool"
  assumes step_inv: "inv s \<Longrightarrow> step op s = Some (out, s') \<Longrightarrow> inv s'"
begin

lemma run_inv: "run step s log s' \<Longrightarrow> inv s \<Longrightarrow> inv s'"
  by (induction rule: run.induct) (auto dest: step_inv)

text \<open>A preorder every step respects relates the ends of every run.\<close>

lemma run_related:
  assumes "run step s log s'" "inv s" "\<And>x. R x x" "\<And>x y z. R x y \<Longrightarrow> R y z \<Longrightarrow> R x z"
    and "\<And>x op out y. inv x \<Longrightarrow> step op x = Some (out, y) \<Longrightarrow> R x y"
  shows "R s s'"
  using assms(1,2)
proof (induction rule: run.induct)
  case (run_snoc s log s1 op out s2)
  then show ?case
    using assms(4,5) run_inv by blast
qed (rule assms(3))

end

text \<open>An invariant that relates the history of the run to the state it led to.\<close>

locale history_system = invariant_system step inv
  for step :: "'op \<Rightarrow> 's \<Rightarrow> ('o \<times> 's) option" and inv :: "'s \<Rightarrow> bool" +
  fixes hist :: "('op \<times> 'o) list \<Rightarrow> 's \<Rightarrow> bool"
  assumes step_hist: "inv s \<Longrightarrow> hist log s \<Longrightarrow> step op s = Some (out, s')
      \<Longrightarrow> hist (log @ [(op, out)]) s'"
begin

lemma run_hist: "run step s log s' \<Longrightarrow> inv s \<Longrightarrow> hist [] s \<Longrightarrow> hist log s'"
proof (induction rule: run.induct)
  case (run_snoc s log s1 op out s2)
  then show ?case
    using step_hist run_inv by blast
qed

end

end
