(* ===== verification/Session_Runs.thy ===== *)
theory Session_Runs
  imports Session_Invariant State_Runs
begin

text \<open>
  Whole histories of one session: any sequence of the tracer's public operations, with what each
  returned. \<open>session_apply\<close> is the step function over all operations; the theory interprets the
  run locales on it, once for the state invariant and once for each history: the identifiers
  opened, the epochs attached, and the sequence numbers sent and delivered on every flow.
\<close>

section \<open>Operations as data\<close>

datatype session_op =
    OpBind NegotiatedParameters
  | OpOpen
  | OpOpenWithId FlowId
  | OpClose FlowId
  | OpSend FlowId bytes
  | OpAcknowledge Acknowledgement
  | OpReceive Segment
  | OpFinish FlowId Epoch Sequence
  | OpReset FlowId
  | OpAdvanceTime u64
  | OpBegin
  | OpBeginExplained CarrierKind CarrierKind EventReason
  | OpNegotiateVersion VersionRange VersionRange
  | OpAuthenticate AttachmentAuthenticator SessionId CarrierAttachment
  | OpComplete

datatype session_outcome =
    Opened FlowId
  | SegmentSent Segment
  | SegmentDelivered FlowId Sequence bytes
  | AttachedIn Epoch
  | NoOutcome

fun session_apply ::
  "hmac \<Rightarrow> session_op \<Rightarrow> SessionTracer \<Rightarrow> (session_outcome \<times> SessionTracer) option" where
  "session_apply sign (OpBind p) s =
     (case SessionTracer_bind_negotiated_parameters s p of (r, s') \<Rightarrow> Some (NoOutcome, s'))"
| "session_apply sign OpOpen s =
     (case SessionTracer_open_reliable_flow s of
        (Inl _, s') \<Rightarrow> Some (NoOutcome, s') | (Inr fid, s') \<Rightarrow> Some (Opened fid, s'))"
| "session_apply sign (OpOpenWithId fid) s =
     (case SessionTracer_open_reliable_flow_with_id s fid of
        (Inl _, s') \<Rightarrow> Some (NoOutcome, s') | (Inr _, s') \<Rightarrow> Some (Opened fid, s'))"
| "session_apply sign (OpClose fid) s =
     (case SessionTracer_close_reliable_flow s fid of (r, s') \<Rightarrow> Some (NoOutcome, s'))"
| "session_apply sign (OpSend fid bs) s =
     (case SessionTracer_send s fid bs of
        None \<Rightarrow> None
      | Some (Inl _, s') \<Rightarrow> Some (NoOutcome, s')
      | Some (Inr segment, s') \<Rightarrow> Some (SegmentSent segment, s'))"
| "session_apply sign (OpAcknowledge ack) s =
     (case SessionTracer_acknowledge s ack of None \<Rightarrow> None | Some (r, s') \<Rightarrow> Some (NoOutcome, s'))"
| "session_apply sign (OpReceive segment) s =
     (case SessionTracer_receive s segment of
        None \<Rightarrow> None
      | Some (Inr (Delivered bs), s') \<Rightarrow>
          Some (SegmentDelivered (seg_flow_id segment) (seg_sequence segment) bs, s')
      | Some (_, s') \<Rightarrow> Some (NoOutcome, s'))"
| "session_apply sign (OpFinish fid e final) s =
     (case SessionTracer_finish_receiving s fid e final of (r, s') \<Rightarrow> Some (NoOutcome, s'))"
| "session_apply sign (OpReset fid) s =
     (case SessionTracer_reset_reliable_flow s fid of
        None \<Rightarrow> None | Some (r, s') \<Rightarrow> Some (NoOutcome, s'))"
| "session_apply sign (OpAdvanceTime ticks) s =
     (case SessionTracer_advance_time s ticks of
        None \<Rightarrow> None | Some (r, s') \<Rightarrow> Some (NoOutcome, s'))"
| "session_apply sign OpBegin s =
     (case SessionTracer_begin_transition s of
        None \<Rightarrow> None | Some (r, s') \<Rightarrow> Some (NoOutcome, s'))"
| "session_apply sign (OpBeginExplained from_kind to_kind reason) s =
     (case SessionTracer_begin_explained_transition s from_kind to_kind reason of
        None \<Rightarrow> None | Some (r, s') \<Rightarrow> Some (NoOutcome, s'))"
| "session_apply sign (OpNegotiateVersion local peer) s =
     (case SessionTracer_negotiate_transition_version s local peer of
        (r, s') \<Rightarrow> Some (NoOutcome, s'))"
| "session_apply sign (OpAuthenticate authenticator session a) s =
     (case SessionTracer_authenticate_carrier_attachment sign s authenticator session a of
        (Inr Accepted, s') \<Rightarrow> Some (AttachedIn (att_epoch a), s')
      | (_, s') \<Rightarrow> Some (NoOutcome, s'))"
| "session_apply sign OpComplete s = Some (NoOutcome, SessionTracer_complete_transition s)"

text \<open>The only way an operation may panic: a 64-bit counter is exhausted.\<close>

fun counter_exhausted :: "session_op \<Rightarrow> SessionTracer \<Rightarrow> bool" where
  "counter_exhausted (OpSend fid bs) s =
     (is_some_and (bt_get (flows s) fid) (\<lambda>flow. next_send flow = Sequence (- 1))
      \<or> 2 ^ 64 \<le> unat (tick s) + unat (max_pending_age (limits s)))"
| "counter_exhausted (OpReceive segment) s =
     is_some_and (bt_get (flows s) (seg_flow_id segment)) (\<lambda>flow. next_receive flow = Sequence (- 1))"
| "counter_exhausted (OpAdvanceTime ticks) s = (2 ^ 64 \<le> unat (tick s) + unat ticks)"
| "counter_exhausted OpBegin s = (SessionTracer_epoch s = Epoch (- 1))"
| "counter_exhausted (OpBeginExplained _ _ _) s = (SessionTracer_epoch s = Epoch (- 1))"
| "counter_exhausted _ s = False"

section \<open>Histories\<close>

type_synonym session_log = "(session_op \<times> session_outcome) list"

definition opened_flows :: "session_log \<Rightarrow> FlowId list" where
  "opened_flows log = List.map_filter (\<lambda>(_, out). case out of Opened fid \<Rightarrow> Some fid | _ \<Rightarrow> None) log"

definition attached_epochs :: "session_log \<Rightarrow> Epoch list" where
  "attached_epochs log = List.map_filter (\<lambda>(_, out). case out of AttachedIn e \<Rightarrow> Some e | _ \<Rightarrow> None) log"

definition sent_sequences :: "FlowId \<Rightarrow> session_log \<Rightarrow> nat list" where
  "sent_sequences fid log = List.map_filter (\<lambda>(_, out). case out of
      SegmentSent segment \<Rightarrow>
        if seg_flow_id segment = fid then Some (unat (sequence_value (seg_sequence segment))) else None
    | _ \<Rightarrow> None) log"

definition delivered_sequences :: "FlowId \<Rightarrow> session_log \<Rightarrow> nat list" where
  "delivered_sequences fid log = List.map_filter (\<lambda>(_, out). case out of
      SegmentDelivered f sq _ \<Rightarrow> if f = fid then Some (unat (sequence_value sq)) else None
    | _ \<Rightarrow> None) log"

text \<open>The send and receive cursor of an open flow.\<close>

definition cursors :: "SessionTracer \<Rightarrow> FlowId \<Rightarrow> (nat \<times> nat) option" where
  "cursors s fid = map_option (\<lambda>flow. (unat (sequence_value (next_send flow)),
     unat (sequence_value (next_receive flow)))) (bt_get (flows s) fid)"

definition sent_step :: "session_outcome \<Rightarrow> FlowId \<Rightarrow> nat \<Rightarrow> nat \<Rightarrow> bool" where
  "sent_step out fid n n' = (case out of
      SegmentSent segment \<Rightarrow>
        if seg_flow_id segment = fid
        then n = unat (sequence_value (seg_sequence segment)) \<and> n' = n + 1 else n' = n
    | _ \<Rightarrow> n' = n)"

definition delivered_step :: "session_outcome \<Rightarrow> FlowId \<Rightarrow> nat \<Rightarrow> nat \<Rightarrow> bool" where
  "delivered_step out fid n n' = (case out of
      SegmentDelivered f sq _ \<Rightarrow>
        if f = fid then n = unat (sequence_value sq) \<and> n' = n + 1 else n' = n
    | _ \<Rightarrow> n' = n)"

definition opened_history :: "session_log \<Rightarrow> SessionTracer \<Rightarrow> bool" where
  "opened_history log s =
     (sorted_wrt (<) (opened_flows log)
      \<and> (\<forall>fid \<in> set (opened_flows log). flow_id_value fid < next_flow s))"

definition attached_history :: "session_log \<Rightarrow> SessionTracer \<Rightarrow> bool" where
  "attached_history log s =
     (sorted_wrt (<) (attached_epochs log)
      \<and> (\<forall>e \<in> set (attached_epochs log). \<exists>l. latest_epoch (attachment_replay s) = Some l \<and> e \<le> l))"

definition flow_history :: "FlowId \<Rightarrow> session_log \<Rightarrow> SessionTracer \<Rightarrow> bool" where
  "flow_history fid log s =
     (sent_sequences fid log = [0..<length (sent_sequences fid log)]
      \<and> delivered_sequences fid log = [0..<length (delivered_sequences fid log)]
      \<and> (case cursors s fid of
           None \<Rightarrow> True
         | Some (ns, nr) \<Rightarrow>
             ns = length (sent_sequences fid log) \<and> nr = length (delivered_sequences fid log))
      \<and> (next_flow s \<le> flow_id_value fid
          \<longrightarrow> sent_sequences fid log = [] \<and> delivered_sequences fid log = []))"

text \<open>An operation that neither sends, delivers nor opens keeps every surviving cursor.\<close>

definition cursors_kept :: "SessionTracer \<Rightarrow> SessionTracer \<Rightarrow> bool" where
  "cursors_kept s s' =
     (next_flow s' = next_flow s \<and> (\<forall>fid c. cursors s' fid = Some c \<longrightarrow> cursors s fid = Some c))"

text \<open>
  One step seen by one flow: its cursors move by what the outcome reports, and a flow that was not
  open before has a fresh identifier and zero cursors.
\<close>

definition cursor_trans :: "SessionTracer \<Rightarrow> session_outcome \<Rightarrow> SessionTracer \<Rightarrow> bool" where
  "cursor_trans s out s' =
     (next_flow s \<le> next_flow s'
      \<and> (\<forall>fid c'. cursors s' fid = Some c' \<longrightarrow>
           (case cursors s fid of
              None \<Rightarrow> next_flow s \<le> flow_id_value fid \<and> out = Opened fid \<and> c' = (0, 0)
            | Some c \<Rightarrow> sent_step out fid (fst c) (fst c') \<and> delivered_step out fid (snd c) (snd c')))
      \<and> (case out of
            SegmentSent segment \<Rightarrow> cursors s' (seg_flow_id segment) \<noteq> None
          | SegmentDelivered f _ _ \<Rightarrow> cursors s' f \<noteq> None
          | Opened fid \<Rightarrow> next_flow s \<le> flow_id_value fid \<and> flow_id_value fid < next_flow s'
          | _ \<Rightarrow> True))"

text \<open>Flow operations leave the attachment state, the epoch and the configuration alone.\<close>

definition attach_frame :: "SessionTracer \<Rightarrow> SessionTracer \<Rightarrow> bool" where
  "attach_frame s s' =
     (attachment_replay s' = attachment_replay s \<and> negotiated s' = negotiated s
      \<and> transition s' = transition s \<and> accepted_attachment s' = accepted_attachment s
      \<and> limits s' = limits s)"

text \<open>The epoch never goes back and negotiated parameters never change.\<close>

definition session_order :: "SessionTracer \<Rightarrow> SessionTracer \<Rightarrow> bool" where
  "session_order s s' =
     (SessionTracer_epoch s \<le> SessionTracer_epoch s' \<and> limits s' = limits s
      \<and> (negotiated s \<noteq> None \<longrightarrow> negotiated s' = negotiated s))"

fun flow_op :: "session_op \<Rightarrow> bool" where
  "flow_op (OpBind _) = False"
| "flow_op OpBegin = False"
| "flow_op (OpBeginExplained _ _ _) = False"
| "flow_op (OpAuthenticate _ _ _) = False"
| "flow_op OpComplete = False"
| "flow_op _ = True"

section \<open>Invariant and panics\<close>

lemma session_apply_inv:
  "tracer_inv s \<Longrightarrow> session_apply sign op s = Some (out, s') \<Longrightarrow> tracer_inv s'"
  by (cases op)
    (auto split: prod.splits option.splits sum.splits ReceiveResult.splits AttachmentAcceptance.splits
      intro: tracer_inv_bind tracer_inv_open tracer_inv_open_with_id tracer_inv_close tracer_inv_send
        tracer_inv_acknowledge tracer_inv_receive tracer_inv_finish tracer_inv_reset
        tracer_inv_advance_time tracer_inv_begin_transition tracer_inv_begin_explained
        tracer_inv_negotiate_version tracer_inv_authenticate tracer_inv_complete)

interpretation tracer: invariant_system "session_apply sign" tracer_inv for sign
  by unfold_locales (rule session_apply_inv)

lemma checked_succ_None: "checked_add (w :: 'a::len word) 1 = None \<longleftrightarrow> w = - 1"
proof
  assume none: "checked_add w 1 = None"
  show "w = - 1"
  proof (rule ccontr)
    assume "w \<noteq> - 1"
    then have "checked_add w 1 = Some (w + 1)"
      using word_plus_1 [of w] by (simp add: checked_add_Some_iff)
    with none show False by simp
  qed
next
  assume "w = - 1"
  then show "checked_add w 1 = None"
    by (simp add: checked_add_None_iff unsigned_minus_1_eq_mask mask_eq_exp_minus_1)
qed

lemma send_panics:
  "SessionTracer_send s fid bs = None \<Longrightarrow> counter_exhausted (OpSend fid bs) s"
  using checked_add_None_iff [of "tick s" "max_pending_age (limits s)"]
  by (cases "bt_get (flows s) fid")
    (auto simp: SessionTracer_send_def Let_def checked_succ_None Sequence.expand
      split: if_splits option.splits)

lemma receive_panics:
  "SessionTracer_receive s segment = None \<Longrightarrow> counter_exhausted (OpReceive segment) s"
  by (cases "bt_get (flows s) (seg_flow_id segment)")
    (auto simp: SessionTracer_receive_def checked_succ_None Sequence.expand
      split: if_splits option.splits sum.splits)

lemma begin_panics:
  "SessionTracer_begin_transition s = None \<Longrightarrow> SessionTracer_epoch s = Epoch (- 1)"
  by (auto simp: SessionTracer_begin_transition_def TransitionState_advance_def SessionTracer_epoch_def
      Let_def checked_succ_None Epoch.expand split: if_splits option.splits)

lemma session_apply_panics:
  assumes "tracer_inv s" "session_apply sign op s = None"
  shows "counter_exhausted op s"
proof (cases op)
  case (OpAdvanceTime ticks)
  have "checked_add (tick s) ticks = None"
    using advance_time_Some [OF assms(1), of ticks] assms(2) OpAdvanceTime
    by (cases "checked_add (tick s) ticks") auto
  then show ?thesis
    using OpAdvanceTime by (simp add: checked_add_None_iff)
next
  case (OpAcknowledge ack)
  then show ?thesis
    using acknowledge_total [OF assms(1), of ack] assms(2) by auto
next
  case (OpReset fid)
  then show ?thesis
    using reset_Some [OF assms(1), of fid] assms(2) by auto
next
  case (OpSend fid bs)
  then show ?thesis
    using assms(2) send_panics [of s fid bs] by (auto split: option.splits prod.splits sum.splits)
next
  case (OpReceive segment)
  then show ?thesis
    using assms(2) receive_panics [of s segment]
    by (auto split: option.splits prod.splits sum.splits ReceiveResult.splits)
next
  case OpBegin
  then show ?thesis
    using assms(2) begin_panics [of s] by (auto split: option.splits)
next
  case OpBeginExplained
  then show ?thesis
    using assms(2) begin_panics [of s]
    by (auto simp: SessionTracer_begin_explained_transition_def split: option.splits sum.splits)
qed (use assms(2) in \<open>auto split: prod.splits sum.splits AttachmentAcceptance.splits\<close>)

section \<open>Effect of one operation on the flows\<close>

lemma cursors_kept_flows: "flows s' = flows s \<Longrightarrow> next_flow s' = next_flow s \<Longrightarrow> cursors_kept s s'"
  by (simp add: cursors_kept_def cursors_def)

lemma cursors_kept_remove:
  "flows s' = bt_remove fid (flows s) \<Longrightarrow> next_flow s' = next_flow s \<Longrightarrow> cursors_kept s s'"
  by (auto simp: cursors_kept_def cursors_def bt_get_remove split: if_splits)

lemma cursors_insert:
  "cursors (s\<lparr>flows := bt_insert fid flow (flows s)\<rparr>) g =
     (if g = fid then Some (unat (sequence_value (next_send flow)), unat (sequence_value (next_receive flow)))
      else cursors s g)"
  by (simp add: cursors_def bt_get_insert)

lemma cursors_kept_insert:
  assumes "flows s' = bt_insert fid flow' (flows s)" "next_flow s' = next_flow s"
    "bt_get (flows s) fid = Some flow" "next_send flow' = next_send flow" "next_receive flow' = next_receive flow"
  shows "cursors_kept s s'"
  using assms by (auto simp: cursors_kept_def cursors_def bt_get_insert)

lemma acknowledge_cursors:
  assumes "tracer_inv s" "SessionTracer_acknowledge s ack = Some (r, s')"
  shows "cursors_kept s s'"
proof (cases r)
  case (Inl e)
  then have "s' = s"
    using assms(2)
    by (auto simp: SessionTracer_acknowledge_def Let_def split: sum.splits option.splits if_splits prod.splits)
  then show ?thesis by (simp add: cursors_kept_flows)
next
  case (Inr u)
  then obtain flow rest fb where get: "bt_get (flows s) (ack_flow_id ack) = Some flow"
    and new: "flows s' = bt_insert (ack_flow_id ack) (flow\<lparr>pending := rest, flow_pending_bytes := fb\<rparr>) (flows s)"
    and nf: "next_flow s' = next_flow s"
    using assms(2)
    by (auto simp: SessionTracer_acknowledge_def Let_def split: sum.splits option.splits if_splits prod.splits)
  show ?thesis
    by (rule cursors_kept_insert [OF new nf get]) simp_all
qed

lemma finish_cursors:
  assumes "SessionTracer_finish_receiving s fid e final = (r, s')"
  shows "cursors_kept s s'"
proof -
  have "s' = s \<or> (\<exists>flow. bt_get (flows s) fid = Some flow
      \<and> s' = s\<lparr>flows := bt_insert fid (flow\<lparr>receive_final_next := Some final\<rparr>) (flows s)\<rparr>)"
    using assms
    by (auto simp: SessionTracer_finish_receiving_def split: sum.splits option.splits if_splits)
  then show ?thesis
    by (auto intro: cursors_kept_flows cursors_kept_insert)
qed

lemma reset_cursors:
  assumes "SessionTracer_reset_reliable_flow s fid = Some (r, s')"
  shows "cursors_kept s s'"
  using assms
  by (auto simp: SessionTracer_reset_reliable_flow_def release_flow_def
      split: option.splits intro: cursors_kept_flows cursors_kept_remove)

lemma advance_time_cursors:
  assumes "tracer_inv s" "SessionTracer_advance_time s ticks = Some (out, s')"
  shows "cursors_kept s s'"
proof -
  obtain now where now: "checked_add (tick s) ticks = Some now"
    using assms(2) by (cases "checked_add (tick s) ticks") (auto simp: SessionTracer_advance_time_def)
  have flows: "flows s' = filter (\<lambda>(_, flow). \<not> front_expired now flow) (flows s)"
    and nf: "next_flow s' = next_flow s"
    using advance_time_Some [OF assms(1) now] assms(2) by auto
  have "tracer_inv s'"
    using tracer_inv_advance_time [OF assms] .
  then have "bt_get (flows s) fid = Some flow" if "bt_get (flows s') fid = Some flow" for fid flow
    using that assms(1) flows bt_get_SomeD [of "flows s'" fid flow] by (simp add: tracer_inv_get_iff)
  then show ?thesis
    using nf by (auto simp: cursors_kept_def cursors_def)
qed

lemma cursors_kept_trans: "cursors_kept s s' \<Longrightarrow> cursor_trans s NoOutcome s'"
  and cursors_kept_attached: "cursors_kept s s' \<Longrightarrow> cursor_trans s (AttachedIn e) s'"
  by (auto simp: cursors_kept_def cursor_trans_def sent_step_def delivered_step_def)

lemma open_trans:
  assumes inv: "tracer_inv s" and ok: "SessionTracer_open_reliable_flow_with_id s fid = (Ok u, s')"
  shows "cursor_trans s (Opened fid) s'"
proof -
  have facts: "next_flow s \<le> flow_id_value fid" "unat (next_flow s') = unat (flow_id_value fid) + 1"
    "flows s' = bt_insert fid new_flow (flows s)"
    using open_with_id_Ok [OF ok] by auto
  have lt: "flow_id_value fid < next_flow s'"
    using facts(2) by (simp add: word_less_nat_alt)
  have "bt_get (flows s) fid = None"
    using tracer_inv_flow [OF inv, of fid] facts(1)
    by (cases "bt_get (flows s) fid") (auto simp: flow_inv_def)
  then show ?thesis
    using facts lt
    by (auto simp: cursor_trans_def cursors_def bt_get_insert new_flow_def sent_step_def
        delivered_step_def split: if_splits option.splits)
qed

lemma send_trans:
  assumes "SessionTracer_send s fid bs = Some (Ok segment, s')"
  shows "cursor_trans s (SegmentSent segment) s'"
proof -
  obtain flow n where get: "bt_get (flows s) fid = Some flow"
    and n: "checked_add (sequence_value (next_send flow)) 1 = Some n"
    and seg: "seg_flow_id segment = fid" "seg_sequence segment = next_send flow"
    and flows: "\<exists>ps b. flows s' = bt_insert fid (flow\<lparr>next_send := Sequence n, flow_pending_bytes := b,
          pending := ps\<rparr>) (flows s)"
    and nf: "next_flow s' = next_flow s"
    using assms unfolding send_Some_iff by fastforce
  have "unat n = unat (sequence_value (next_send flow)) + 1"
    using checked_add_SomeD [OF n] by simp
  then show ?thesis
    using get seg flows nf
    by (auto simp: cursor_trans_def cursors_def bt_get_insert sent_step_def delivered_step_def
        split: if_splits option.splits)
qed

lemma receive_trans:
  assumes "SessionTracer_receive s segment = Some (Ok (Delivered bs), s')"
  shows "cursor_trans s (SegmentDelivered (seg_flow_id segment) (seg_sequence segment) bs) s'"
proof -
  obtain flow n where get: "bt_get (flows s) (seg_flow_id segment) = Some flow"
    and n: "checked_add (sequence_value (next_receive flow)) 1 = Some n"
    and seg: "seg_sequence segment = next_receive flow"
    and s': "s' = s\<lparr>flows := bt_insert (seg_flow_id segment) (flow\<lparr>next_receive := Sequence n\<rparr>) (flows s)\<rparr>"
    using assms unfolding receive_Delivered_iff by blast
  have "unat n = unat (sequence_value (next_receive flow)) + 1"
    using checked_add_SomeD [OF n] by simp
  then show ?thesis
    using get seg s'
    by (auto simp: cursor_trans_def cursors_def bt_get_insert sent_step_def delivered_step_def
        split: if_splits option.splits)
qed

lemma receive_other_trans:
  assumes "SessionTracer_receive s segment = Some (r, s')" "\<nexists>bs. r = Ok (Delivered bs)"
  shows "cursor_trans s NoOutcome s'"
  using receive_other [OF assms(1)] assms(2) by (auto intro!: cursors_kept_trans cursors_kept_flows)

lemma session_apply_trans:
  assumes inv: "tracer_inv s" and "session_apply sign op s = Some (out, s')"
  shows "cursor_trans s out s'"
proof (cases op)
  case OpOpen
  then show ?thesis
    using assms open_trans [OF inv, of "FlowId (next_flow s)"]
    by (auto simp: SessionTracer_open_reliable_flow_def SessionTracer_open_reliable_flow_with_id_def Let_def
        split: prod.splits sum.splits if_splits intro!: cursors_kept_trans cursors_kept_flows)
next
  case (OpOpenWithId fid)
  then show ?thesis
    using assms open_trans [OF inv, of fid]
    by (auto simp: SessionTracer_open_reliable_flow_with_id_def Let_def
        split: prod.splits sum.splits if_splits intro!: cursors_kept_trans cursors_kept_flows)
next
  case (OpClose fid)
  then show ?thesis
    using assms
    by (auto simp: SessionTracer_close_reliable_flow_def split: option.splits if_splits
        intro!: cursors_kept_trans intro: cursors_kept_flows cursors_kept_remove)
next
  case (OpSend fid bs)
  then show ?thesis
    using assms send_trans [of s fid bs] send_Err [of s fid bs]
    by (fastforce split: option.splits sum.splits intro!: cursors_kept_trans cursors_kept_flows)
next
  case (OpReceive segment)
  then show ?thesis
    using assms receive_trans [of s segment] receive_other_trans [of s segment]
    by (auto split: option.splits sum.splits ReceiveResult.splits)
next
  case (OpAcknowledge ack)
  then show ?thesis
    using assms acknowledge_cursors [OF inv, of ack] cursors_kept_trans by (auto split: option.splits)
next
  case (OpFinish fid e final)
  then show ?thesis
    using assms finish_cursors [of s fid e final] cursors_kept_trans by (auto split: prod.splits)
next
  case (OpReset fid)
  then show ?thesis
    using assms reset_cursors [of s fid] cursors_kept_trans by (auto split: option.splits)
next
  case (OpAdvanceTime ticks)
  then show ?thesis
    using assms advance_time_cursors [OF inv, of ticks] cursors_kept_trans by (auto split: option.splits)
next
  case (OpAuthenticate auth sid a)
  obtain r s1 where r: "SessionTracer_authenticate_carrier_attachment sign s auth sid a = (r, s1)"
    by fastforce
  then have kept: "cursors_kept s s1"
    by (cases rule: authenticate_cases) (auto intro!: cursors_kept_flows)
  have "s' = s1" "out = NoOutcome \<or> (\<exists>e. out = AttachedIn e)"
    using assms(2) OpAuthenticate r by (auto split: sum.splits AttachmentAcceptance.splits)
  with cursors_kept_trans [OF kept] cursors_kept_attached [OF kept] show ?thesis
    by auto
qed (use assms in \<open>auto simp: SessionTracer_bind_negotiated_parameters_def
    SessionTracer_begin_transition_def SessionTracer_begin_explained_transition_def
    SessionTracer_negotiate_transition_version_def SessionTracer_complete_transition_def
    split: option.splits sum.splits if_splits prod.splits
    intro!: cursors_kept_trans cursors_kept_flows\<close>)

section \<open>Histories of runs\<close>

lemma history_snoc:
  "opened_flows (log @ [(op, out)]) = opened_flows log @ (case out of Opened fid \<Rightarrow> [fid] | _ \<Rightarrow> [])"
  "attached_epochs (log @ [(op, out)]) = attached_epochs log @ (case out of AttachedIn e \<Rightarrow> [e] | _ \<Rightarrow> [])"
  "sent_sequences fid (log @ [(op, out)]) = sent_sequences fid log @ (case out of SegmentSent g \<Rightarrow>
     if seg_flow_id g = fid then [unat (sequence_value (seg_sequence g))] else [] | _ \<Rightarrow> [])"
  "delivered_sequences fid (log @ [(op, out)]) = delivered_sequences fid log @ (case out of
     SegmentDelivered f sq _ \<Rightarrow> if f = fid then [unat (sequence_value sq)] else [] | _ \<Rightarrow> [])"
  by (auto simp: opened_flows_def attached_epochs_def sent_sequences_def delivered_sequences_def
      List.map_filter_def split: session_outcome.splits)

lemma histories_Nil [simp]:
  "opened_flows [] = []" "attached_epochs [] = []" "sent_sequences fid [] = []"
  "delivered_sequences fid [] = []"
  by (simp_all add: opened_flows_def attached_epochs_def sent_sequences_def delivered_sequences_def
      List.map_filter_def)

interpretation opened: history_system "session_apply sign" tracer_inv opened_history for sign
proof unfold_locales
  fix s s' :: SessionTracer and log :: session_log and op out
  assume "tracer_inv s" "opened_history log s" "session_apply sign op s = Some (out, s')"
  moreover from this have "cursor_trans s out s'"
    using session_apply_trans by blast
  ultimately show "opened_history (log @ [(op, out)]) s'"
    by (cases out)
      (fastforce simp: opened_history_def history_snoc cursor_trans_def sorted_wrt_append less_FlowId_def)+
qed

lemma attach_frame_simps [simp]:
  "attach_frame s s"
  "attach_frame s (SessionTracer_record_event s e)"
  "attach_frame s (s\<lparr>flows := f, pending_segments := a, pending_bytes := b\<rparr>)"
  "attach_frame s (s\<lparr>flows := f\<rparr>)"
  by (simp_all add: attach_frame_def)

lemma open_frame:
  "SessionTracer_open_reliable_flow_with_id s fid = (r, s') \<Longrightarrow> attach_frame s s'"
  by (auto simp: SessionTracer_open_reliable_flow_with_id_def Let_def attach_frame_def split: if_splits)

lemma flow_op_frame:
  assumes "tracer_inv s" "session_apply sign op s = Some (out, s')" "flow_op op"
  shows "attach_frame s s'"
proof (cases op)
  case (OpSend fid bs)
  then show ?thesis
    using assms(2) send_Err [of s fid bs]
    by (fastforce simp: send_Some_iff split: option.splits sum.splits)
next
  case (OpAdvanceTime ticks)
  then obtain now where "checked_add (tick s) ticks = Some now"
    using assms(2)
    by (cases "checked_add (tick s) ticks") (auto simp: SessionTracer_advance_time_def)
  from advance_time_Some [OF assms(1) this] OpAdvanceTime assms(2) show ?thesis
    by (auto simp: attach_frame_def)
next
  case (OpReceive segment)
  then have "\<exists>r. SessionTracer_receive s segment = Some (r, s')"
    using assms(2) by (auto split: option.splits sum.splits ReceiveResult.splits)
  then show ?thesis
    using receive_other [of s segment] by (fastforce simp: receive_Delivered_iff)
next
  case (OpAcknowledge ack)
  then show ?thesis
    using assms(2)
    by (auto simp: SessionTracer_acknowledge_def Let_def split: sum.splits option.splits if_splits prod.splits)
next
  case OpOpen
  then show ?thesis
    using assms(2) open_frame
    by (auto simp: SessionTracer_open_reliable_flow_def Let_def split: sum.splits prod.splits)
next
  case (OpOpenWithId fid)
  then show ?thesis
    using assms(2) open_frame by (auto split: sum.splits prod.splits)
qed (use assms(2,3) in \<open>auto simp: SessionTracer_close_reliable_flow_def
    SessionTracer_finish_receiving_def SessionTracer_reset_reliable_flow_def release_flow_def
    SessionTracer_negotiate_transition_version_def split: sum.splits option.splits if_splits prod.splits\<close>)

text \<open>The remaining operations.\<close>

lemma begin_apply:
  assumes "session_apply sign op s = Some (out, s')" "op = OpBegin \<or> op = OpBeginExplained f t r"
  shows "attachment_replay s' = attachment_replay s \<and> negotiated s' = negotiated s
    \<and> limits s' = limits s \<and> SessionTracer_epoch s \<le> SessionTracer_epoch s' \<and> out = NoOutcome"
proof -
  have out: "out = NoOutcome"
    using assms by (auto split: option.splits)
  obtain x s1 where bt: "SessionTracer_begin_transition s = Some (x, s1)"
    and s1: "s' = s1 \<or> (\<exists>e. s' = SessionTracer_record_event s1 e)"
    using assms by (fastforce simp: SessionTracer_begin_explained_transition_def split: option.splits sum.splits)
  have "attachment_replay s1 = attachment_replay s \<and> negotiated s1 = negotiated s \<and> limits s1 = limits s
    \<and> SessionTracer_epoch s \<le> SessionTracer_epoch s1"
  proof (cases x)
    case (Inl e)
    then show ?thesis using begin_transition_Err [of s e s1] bt by simp
  next
    case (Inr e)
    then have "checked_add (epoch_value (SessionTracer_epoch s)) 1 = Some (epoch_value e)"
      "s1 = s\<lparr>transition := \<lparr>tr_current = e, tr_retiring = Some (SessionTracer_epoch s)\<rparr>,
          retiring_attachment := accepted_attachment s, accepted_attachment := None\<rparr>"
      using bt by (auto simp: begin_transition_Ok_iff)
    moreover from this(1) have "SessionTracer_epoch s \<le> e"
      by (auto dest!: checked_add_SomeD simp: less_eq_Epoch_def word_le_nat_alt)
    ultimately show ?thesis
      by (simp add: SessionTracer_epoch_def)
  qed
  with s1 out show ?thesis by auto
qed

lemma session_apply_latest:
  assumes "tracer_inv s" "session_apply sign op s = Some (out, s')"
  shows "case out of
      AttachedIn e \<Rightarrow> latest_epoch (attachment_replay s') = Some e
        \<and> (\<forall>l. latest_epoch (attachment_replay s) = Some l \<longrightarrow> l < e)
    | _ \<Rightarrow> attachment_replay s' = attachment_replay s"
proof (cases "flow_op op")
  case True
  then have "attachment_replay s' = attachment_replay s" "\<And>e. out \<noteq> AttachedIn e"
    using flow_op_frame [OF assms True] assms(2)
    by (auto simp: attach_frame_def elim!: flow_op.elims
        split: option.splits sum.splits prod.splits ReceiveResult.splits)
  then show ?thesis by (cases out) auto
next
  case False
  show ?thesis
  proof (cases op)
    case (OpAuthenticate auth sid a)
    obtain r s1 where r: "SessionTracer_authenticate_carrier_attachment sign s auth sid a = (r, s1)"
      by fastforce
    then show ?thesis
    proof (cases rule: authenticate_cases)
      case accepted
      then show ?thesis
        using assms(2) OpAuthenticate r by (auto simp: ReplayWindow_accepts_def)
    qed (use assms(2) OpAuthenticate r in auto)
  next
    case OpBegin
    then show ?thesis using begin_apply [OF assms(2)] by simp
  next
    case OpBeginExplained
    then show ?thesis using begin_apply [OF assms(2)] by auto
  qed (use assms(2) False in \<open>auto simp: SessionTracer_bind_negotiated_parameters_def
      SessionTracer_complete_transition_def split: if_splits\<close>)
qed

lemma session_apply_order:
  assumes "tracer_inv s" "session_apply sign op s = Some (out, s')"
  shows "session_order s s'"
proof (cases "flow_op op")
  case True
  then show ?thesis
    using flow_op_frame [OF assms] by (simp add: attach_frame_def session_order_def SessionTracer_epoch_def)
next
  case False
  show ?thesis
  proof (cases op)
    case (OpAuthenticate auth sid a)
    obtain r s1 where r: "SessionTracer_authenticate_carrier_attachment sign s auth sid a = (r, s1)"
      by fastforce
    moreover have "s' = s1"
      using assms(2) OpAuthenticate r by (auto split: sum.splits AttachmentAcceptance.splits)
    ultimately show ?thesis
      by (cases rule: authenticate_cases) (auto simp: session_order_def SessionTracer_epoch_def)
  next
    case OpBegin
    then show ?thesis using begin_apply [OF assms(2)] by (simp add: session_order_def)
  next
    case OpBeginExplained
    then show ?thesis using begin_apply [OF assms(2)] by (auto simp: session_order_def)
  qed (use assms(2) False in \<open>auto simp: SessionTracer_bind_negotiated_parameters_def session_order_def
      SessionTracer_epoch_def TransitionState_retire_previous_def
      SessionTracer_complete_transition_def split: if_splits\<close>)
qed

interpretation attached: history_system "session_apply sign" tracer_inv attached_history for sign
proof unfold_locales
  fix s s' :: SessionTracer and log :: session_log and op out
  assume "tracer_inv s" and hist: "attached_history log s" and "session_apply sign op s = Some (out, s')"
  then have "case out of
      AttachedIn e \<Rightarrow> latest_epoch (attachment_replay s') = Some e
        \<and> (\<forall>l. latest_epoch (attachment_replay s) = Some l \<longrightarrow> l < e)
    | _ \<Rightarrow> attachment_replay s' = attachment_replay s"
    using session_apply_latest by blast
  then show "attached_history (log @ [(op, out)]) s'"
    using hist
    by (cases out) (fastforce simp: attached_history_def history_snoc sorted_wrt_append)+
qed

lemma sent_step_snoc:
  assumes "sent_step out fid n n'" "xs = [0..<n]" "length xs = n"
  shows "xs @ (case out of SegmentSent g \<Rightarrow>
     if seg_flow_id g = fid then [unat (sequence_value (seg_sequence g))] else [] | _ \<Rightarrow> []) = [0..<n']"
  using assms by (auto simp: sent_step_def split: session_outcome.splits if_splits)

lemma delivered_step_snoc:
  assumes "delivered_step out fid n n'" "xs = [0..<n]" "length xs = n"
  shows "xs @ (case out of SegmentDelivered f sq _ \<Rightarrow>
     if f = fid then [unat (sequence_value sq)] else [] | _ \<Rightarrow> []) = [0..<n']"
  using assms by (auto simp: delivered_step_def split: session_outcome.splits if_splits)

lemma cursor_trans_quiet:
  assumes "cursor_trans s out s'" "cursors s' fid = None"
  shows "sent_sequences fid (log @ [(op, out)]) = sent_sequences fid log"
    "delivered_sequences fid (log @ [(op, out)]) = delivered_sequences fid log"
  using assms by (auto simp: history_snoc cursor_trans_def split: session_outcome.splits)

lemma cursors_fresh: "tracer_inv s \<Longrightarrow> next_flow s \<le> flow_id_value fid \<Longrightarrow> cursors s fid = None"
  using tracer_inv_flow [of s fid]
  by (cases "bt_get (flows s) fid") (auto simp: cursors_def flow_inv_def)

lemma cursor_transD:
  assumes "cursor_trans s out s'" "cursors s' fid = Some c'"
  shows "case cursors s fid of
      None \<Rightarrow> next_flow s \<le> flow_id_value fid \<and> out = Opened fid \<and> c' = (0, 0)
    | Some c \<Rightarrow> sent_step out fid (fst c) (fst c') \<and> delivered_step out fid (snd c) (snd c')"
  using assms unfolding cursor_trans_def by blast

lemma flow_history_step:
  assumes inv: "tracer_inv s'" and hist: "flow_history fid log s" and trans: "cursor_trans s out s'"
  shows "flow_history fid (log @ [(op, out)]) s'"
proof (cases "cursors s' fid")
  case None
  have "next_flow s \<le> next_flow s'"
    using trans by (simp add: cursor_trans_def)
  then show ?thesis
    using hist None cursor_trans_quiet [OF trans None, of log op] by (auto simp: flow_history_def)
next
  case (Some c')
  then have bound: "\<not> next_flow s' \<le> flow_id_value fid"
    using cursors_fresh [OF inv] by auto
  show ?thesis
  proof (cases "cursors s fid")
    case None
    then have "out = Opened fid" "c' = (0, 0)" "next_flow s \<le> flow_id_value fid"
      using cursor_transD [OF trans Some] None by simp_all
    then show ?thesis
      using hist Some bound by (auto simp: flow_history_def history_snoc)
  next
    case c: (Some c)
    have steps: "sent_step out fid (fst c) (fst c')" "delivered_step out fid (snd c) (snd c')"
      using cursor_transD [OF trans Some] c by simp_all
    have now: "sent_sequences fid log = [0..<fst c]" "length (sent_sequences fid log) = fst c"
      "delivered_sequences fid log = [0..<snd c]" "length (delivered_sequences fid log) = snd c"
      using hist c by (cases c; simp add: flow_history_def)+
    have "sent_sequences fid (log @ [(op, out)]) = [0..<fst c']"
      using sent_step_snoc [OF steps(1) now(1,2)] by (simp add: history_snoc)
    moreover have "delivered_sequences fid (log @ [(op, out)]) = [0..<snd c']"
      using delivered_step_snoc [OF steps(2) now(3,4)] by (simp add: history_snoc)
    ultimately show ?thesis
      using Some bound by (cases c') (simp add: flow_history_def)
  qed
qed

interpretation cursor: history_system "session_apply sign" tracer_inv "flow_history fid" for sign fid
  by unfold_locales (use session_apply_inv session_apply_trans flow_history_step in blast)

text \<open>A fresh session satisfies every history.\<close>

lemma fresh_histories:
  assumes "SessionTracer_new e l = Some s"
  shows "opened_history [] s" "attached_history [] s" "flow_history fid [] s"
  using assms
  by (auto simp: SessionTracer_new_def opened_history_def attached_history_def flow_history_def
      cursors_def split: if_splits)

lemmas fresh_flow_history = fresh_histories(3)

end
