(* ===== verification/Session_Properties.thy ===== *)
theory Session_Properties
  imports Session_Runs
begin

text \<open>
  The properties of the session tracer over whole histories, each with a concrete history that
  meets its hypotheses: the invariant and the absence of accounting panics, identifier
  allocation, exactly-once delivery, the exact effect of acknowledgements and timeouts, and the
  acceptance of carrier attachments.
\<close>

section \<open>A concrete session for the witnesses\<close>

definition demo_limits :: FlowLimits where
  "demo_limits = \<lparr>max_flows = 2, max_pending_segments = 4, max_pending_bytes = 64,
     max_session_pending_segments = 8, max_session_pending_bytes = 128, max_pending_age = 10,
     max_events = 16\<rparr>"

definition demo_parameters :: NegotiatedParameters where
  "demo_parameters = \<lparr>version = 1, capabilities = Capabilities 1,
     client_nonce = HandshakeNonce (1 # replicate 15 0),
     server_nonce = HandshakeNonce (2 # replicate 15 0)\<rparr>"

definition demo_attachment :: "Epoch \<Rightarrow> CarrierAttachment" where
  "demo_attachment e = \<lparr>att_carrier = CarrierId 5, att_epoch = e,
     att_id = AttachmentId (9 # replicate 15 0), att_parameters = demo_parameters,
     att_proof = AttachmentProof (replicate 32 3)\<rparr>"

text \<open>A tag function that ignores the message, enough to run the state machine.\<close>

definition demo_tag :: hmac where
  "demo_tag k m = replicate 32 3"

definition demo_segment :: "Epoch \<Rightarrow> u64 \<Rightarrow> Segment" where
  "demo_segment e n = \<lparr>seg_flow_id = FlowId 0, seg_epoch = e, seg_sequence = Sequence n, seg_bytes = [7]\<rparr>"

definition demo_ops :: "session_op list" where
  "demo_ops = [OpBind demo_parameters,
     OpAuthenticate \<lparr>auth_key = []\<rparr> (SessionId []) (demo_attachment (Epoch 1)),
     OpOpen, OpSend (FlowId 0) [1, 2], OpSend (FlowId 0) [3],
     OpReceive (demo_segment (Epoch 1) 0), OpReceive (demo_segment (Epoch 1) 0),
     OpReceive (demo_segment (Epoch 1) 1),
     OpAcknowledge \<lparr>ack_flow_id = FlowId 0, ack_epoch = Epoch 1, ack_through = Sequence 0\<rparr>,
     OpBegin, OpAuthenticate \<lparr>auth_key = []\<rparr> (SessionId []) (demo_attachment (Epoch 2)), OpOpen]"

definition demo_outcomes :: "session_outcome list" where
  "demo_outcomes = [NoOutcome, AttachedIn (Epoch 1), Opened (FlowId 0),
     SegmentSent \<lparr>seg_flow_id = FlowId 0, seg_epoch = Epoch 1, seg_sequence = Sequence 0, seg_bytes = [1, 2]\<rparr>,
     SegmentSent \<lparr>seg_flow_id = FlowId 0, seg_epoch = Epoch 1, seg_sequence = Sequence 1, seg_bytes = [3]\<rparr>,
     SegmentDelivered (FlowId 0) (Sequence 0) [7], NoOutcome,
     SegmentDelivered (FlowId 0) (Sequence 1) [7], NoOutcome, NoOutcome, AttachedIn (Epoch 2),
     Opened (FlowId 1)]"

definition demo_new :: SessionTracer where
  "demo_new = the (SessionTracer_new (Epoch 1) demo_limits)"

lemmas demo_defs = demo_limits_def demo_parameters_def demo_attachment_def demo_tag_def
  demo_segment_def

lemmas tracer_defs = SessionTracer_new_def limits_positive_def TransitionState_new_def
  ReplayWindow_default_def SessionTracer_bind_negotiated_parameters_def ReplayWindow_is_empty_def
  SessionTracer_authenticate_carrier_attachment_def TransitionState_validate_def
  AttachmentAuthenticator_verify_def accepted_of_def ReplayWindow_accept_def ReplayWindow_accepts_def
  SessionTracer_open_reliable_flow_def SessionTracer_open_reliable_flow_with_id_def new_flow_def
  SessionTracer_record_event_def SessionTracer_send_def SessionTracer_epoch_def checked_add_def
  SessionTracer_receive_def SessionTracer_require_valid_epoch_def SessionTracer_acknowledge_def
  usize_checked_sub_def SessionTracer_begin_transition_def TransitionState_advance_def

lemma demo_new_Some: "SessionTracer_new (Epoch 1) demo_limits = Some demo_new"
  by (simp add: demo_new_def tracer_defs demo_limits_def)

lemma demo_run: "\<exists>s. run (session_apply demo_tag) demo_new (zip demo_ops demo_outcomes) s"
proof -
  have "\<exists>s. execute (session_apply demo_tag) demo_new demo_ops = Some (zip demo_ops demo_outcomes, s)"
    by (simp add: demo_new_def demo_ops_def demo_outcomes_def tracer_defs demo_defs Let_def)
  then obtain s where
    "execute (session_apply demo_tag) demo_new demo_ops = Some (zip demo_ops demo_outcomes, s)"
    by (elim exE)
  from execute_run [OF this] show ?thesis
    by (rule exI)
qed

section \<open>Properties\<close>

text \<open>
  C3. The session invariant holds after every sequence of operations: the pending counters equal
  the sums over the flows and stay within the configured limits, every flow's unacknowledged
  segments are the consecutive sequence numbers below its send cursor with deadlines and epochs in
  order, flow identifiers are below the allocation cursor, and an accepted attachment belongs to
  the current epoch.
\<close>

theorem session_invariant:
  assumes "SessionTracer_new e l = Some s0" and "run (session_apply sign) s0 log s"
  shows "tracer_inv s"
  using tracer.run_inv [OF assms(2) tracer_inv_new [OF assms(1)]] .

theorem session_invariant_witness:
  "\<exists>s. run (session_apply demo_tag) demo_new (zip demo_ops demo_outcomes) s \<and> tracer_inv s"
  using demo_run session_invariant [OF demo_new_Some] by blast

text \<open>
  C8. No accounting panic is reachable: after any history, the only operations that can panic are
  those that exhaust a 64-bit counter (a sequence number, the clock or the epoch); in particular
  acknowledging and resetting always return.
\<close>

theorem session_no_accounting_panic:
  assumes "SessionTracer_new e l = Some s0" and "run (session_apply sign) s0 log s"
    and "session_apply sign op s = None"
  shows "counter_exhausted op s"
  using session_apply_panics [OF tracer.run_inv [OF assms(2) tracer_inv_new [OF assms(1)]] assms(3)] .

theorem session_no_accounting_panic_witness:
  "counter_exhausted (OpAdvanceTime (- 1)) (demo_new\<lparr>tick := 1\<rparr>)"
proof -
  have "execute (session_apply demo_tag) demo_new [OpAdvanceTime 1]
      = Some ([(OpAdvanceTime 1, NoOutcome)], demo_new\<lparr>tick := 1\<rparr>)"
    by (simp add: demo_new_def tracer_defs demo_limits_def SessionTracer_advance_time_def)
  note run = execute_run [OF this]
  have "session_apply demo_tag (OpAdvanceTime (- 1)) (demo_new\<lparr>tick := 1\<rparr>) = None"
    by (simp add: demo_new_def tracer_defs demo_limits_def SessionTracer_advance_time_def
        unsigned_minus_1_eq_mask mask_eq_exp_minus_1)
  from session_no_accounting_panic [OF demo_new_Some run this] show ?thesis .
qed

text \<open>
  Flow identifiers are never reused: over the whole life of a session the identifiers that
  were opened, by this side or by the peer, are strictly increasing.
\<close>

theorem flow_ids_never_reused:
  assumes "SessionTracer_new e l = Some s0" and "run (session_apply sign) s0 log s"
  shows "sorted_wrt (<) (opened_flows log) \<and> distinct (opened_flows log)"
proof -
  have "sorted_wrt (<) (opened_flows log)"
    using opened.run_hist [OF assms(2) tracer_inv_new [OF assms(1)] fresh_histories(1) [OF assms(1)]]
    by (simp add: opened_history_def)
  then show ?thesis by (simp add: strict_sorted_iff)
qed

theorem flow_ids_never_reused_witness:
  "opened_flows (zip demo_ops demo_outcomes) = [FlowId 0, FlowId 1]
   \<and> sorted_wrt (<) (opened_flows (zip demo_ops demo_outcomes))"
proof -
  obtain s where "run (session_apply demo_tag) demo_new (zip demo_ops demo_outcomes) s"
    using demo_run by (elim exE)
  from flow_ids_never_reused [OF demo_new_Some this] show ?thesis
    by (simp add: opened_flows_def demo_ops_def demo_outcomes_def List.map_filter_def)
qed

text \<open>
  C4. Delivery is exactly once and in order: on every flow, over the whole life of the session and
  whatever segments arrived, the sequence numbers delivered to the application are
  \<open>0, 1, 2, \<dots>\<close> without gap or repetition, and so are those allocated to sent segments.
\<close>

theorem delivery_exactly_once_in_order:
  assumes "SessionTracer_new e l = Some s0" and "run (session_apply sign) s0 log s"
  shows "delivered_sequences fid log = [0..<length (delivered_sequences fid log)]
    \<and> sent_sequences fid log = [0..<length (sent_sequences fid log)]"
  using cursor.run_hist [OF assms(2) tracer_inv_new [OF assms(1)] fresh_histories(3) [OF assms(1)]]
  by (simp add: flow_history_def)

theorem delivery_exactly_once_in_order_witness:
  "delivered_sequences (FlowId 0) (zip demo_ops demo_outcomes) = [0, 1]"
proof -
  obtain s where "run (session_apply demo_tag) demo_new (zip demo_ops demo_outcomes) s"
    using demo_run by (elim exE)
  from conjunct1 [OF delivery_exactly_once_in_order [OF demo_new_Some this, of "FlowId 0"]]
  show ?thesis
    by (simp add: delivered_sequences_def demo_ops_def demo_outcomes_def List.map_filter_def)
qed

text \<open>
  C7. At most one carrier attachment is accepted per epoch: over the whole life of a session the
  epochs in which an attachment was accepted are strictly increasing.
\<close>

theorem one_attachment_per_epoch:
  assumes "SessionTracer_new e l = Some s0" and "run (session_apply sign) s0 log s"
  shows "sorted_wrt (<) (attached_epochs log) \<and> distinct (attached_epochs log)"
proof -
  have "sorted_wrt (<) (attached_epochs log)"
    using attached.run_hist [OF assms(2) tracer_inv_new [OF assms(1)] fresh_histories(2) [OF assms(1)]]
    by (simp add: attached_history_def)
  then show ?thesis by (simp add: strict_sorted_iff)
qed


theorem one_attachment_per_epoch_witness:
  "attached_epochs (zip demo_ops demo_outcomes) = [Epoch 1, Epoch 2]
   \<and> distinct (attached_epochs (zip demo_ops demo_outcomes))"
proof -
  obtain s where "run (session_apply demo_tag) demo_new (zip demo_ops demo_outcomes) s"
    using demo_run by (elim exE)
  from one_attachment_per_epoch [OF demo_new_Some this] show ?thesis
    by (simp add: attached_epochs_def demo_ops_def demo_outcomes_def List.map_filter_def)
qed

text \<open>
  The epoch of a session never goes back, its limits never change, and once parameters are
  negotiated they are fixed for the rest of the session.
\<close>

theorem session_epoch_monotone:
  assumes "SessionTracer_new e l = Some s0" and "run (session_apply sign) s0 log s"
    and "run (session_apply sign) s log' s'"
  shows "SessionTracer_epoch s \<le> SessionTracer_epoch s' \<and> limits s' = l
    \<and> (\<forall>p. negotiated s = Some p \<longrightarrow> negotiated s' = Some p)"
proof -
  have order: "session_order a b" if "run (session_apply sign) a lg b" "tracer_inv a" for a lg b
    using that
  proof (rule tracer.run_related)
    show "session_order x y" if "tracer_inv x" "session_apply sign op x = Some (out, y)" for x op out y
      using session_apply_order [OF that] .
  qed (auto simp: session_order_def intro: order_trans)
  have inv: "tracer_inv s0" "tracer_inv s"
    using tracer_inv_new [OF assms(1)] tracer.run_inv [OF assms(2)] by simp_all
  have "limits s0 = l"
    using assms(1) by (auto simp: SessionTracer_new_def split: if_splits)
  then show ?thesis
    using order [OF assms(2) inv(1)] order [OF assms(3) inv(2)] by (simp add: session_order_def)
qed

theorem session_epoch_monotone_witness:
  "\<exists>s. run (session_apply demo_tag) demo_new (zip demo_ops demo_outcomes) s
     \<and> Epoch 1 \<le> SessionTracer_epoch s \<and> limits s = demo_limits"
proof -
  obtain s where run: "run (session_apply demo_tag) demo_new (zip demo_ops demo_outcomes) s"
    using demo_run by (elim exE)
  have "SessionTracer_epoch demo_new = Epoch 1"
    by (simp add: demo_new_def tracer_defs demo_limits_def)
  with session_epoch_monotone [OF demo_new_Some run_nil run] run show ?thesis by auto
qed

text \<open>
  Acknowledgement is exact. In every reachable state \<^verbatim>\<open>acknowledge\<close> returns; it succeeds
  precisely when its epoch is current or retiring, the flow is open, the acknowledged sequence
  was sent, and no segment it covers was sent in a later epoch than the acknowledgement; then the
  flow retains exactly the later segments, and every other flow is untouched.
\<close>

theorem acknowledge_exact:
  assumes "SessionTracer_new e l = Some s0" and "run (session_apply sign) s0 log s"
    and "SessionTracer_pending s (ack_flow_id ack) = Ok before"
    and "bt_get (flows s) (ack_flow_id ack) = Some flow"
  shows "\<exists>r s'. SessionTracer_acknowledge s ack = Some (r, s')
    \<and> (r = Ok () \<longleftrightarrow>
         (ack_epoch ack = SessionTracer_epoch s \<or> Some (ack_epoch ack) = tr_retiring (transition s))
         \<and> ack_through ack < next_send flow
         \<and> (\<forall>g \<in> set before. seg_sequence g \<le> ack_through ack \<longrightarrow> seg_epoch g \<le> ack_epoch ack))
    \<and> SessionTracer_pending s' (ack_flow_id ack) =
        Ok (if r = Ok () then filter (\<lambda>g. ack_through ack < seg_sequence g) before else before)
    \<and> (\<forall>fid. fid \<noteq> ack_flow_id ack \<longrightarrow> SessionTracer_pending s' fid = SessionTracer_pending s fid)"
proof -
  have inv: "tracer_inv s"
    using tracer.run_inv [OF assms(2) tracer_inv_new [OF assms(1)]] .
  let ?epoch = "ack_epoch ack = SessionTracer_epoch s \<or> Some (ack_epoch ack) = tr_retiring (transition s)"
  have epoch: "SessionTracer_require_valid_epoch s (ack_epoch ack) = Ok () \<longleftrightarrow> ?epoch"
    by (auto simp: SessionTracer_require_valid_epoch_def TransitionState_validate_def
        SessionTracer_epoch_def)
  have before: "before = map pend_segment (pending flow)"
    using assms(3,4) by (simp add: SessionTracer_pending_def)
  let ?old = "list_ex (\<lambda>p. seg_sequence (pend_segment p) \<le> ack_through ack
        \<and> seg_epoch (pend_segment p) > ack_epoch ack) (pending flow)"
  have old: "\<not> ?old \<longleftrightarrow> (\<forall>g \<in> set before. seg_sequence g \<le> ack_through ack \<longrightarrow> seg_epoch g \<le> ack_epoch ack)"
    by (auto simp: before list_ex_iff)
  have through: "sequence_value (ack_through ack) < sequence_value (next_send flow)
      \<longleftrightarrow> ack_through ack < next_send flow"
    by (simp add: less_Sequence_def)
  show ?thesis
  proof (cases "?epoch \<and> ack_through ack < next_send flow \<and> \<not> ?old")
    case True
    then obtain s' where s': "SessionTracer_acknowledge s ack = Some (Ok (), s')"
      "flows s' = bt_insert (ack_flow_id ack) (acked_flow (ack_through ack) flow) (flows s)"
      using acknowledge_Some [OF inv assms(4)] epoch through by blast
    then show ?thesis
      using True old
      by (auto simp: SessionTracer_pending_def bt_get_insert acked_flow_def before filter_map o_def not_le)
  next
    case False
    then obtain err where "SessionTracer_acknowledge s ack = Some (Err err, s)"
      using acknowledge_Err [of s ack] epoch through assms(4) by auto
    then show ?thesis
      using False old assms(3) by auto
  qed
qed

lemma demo_sent:
  "\<exists>s. run (session_apply demo_tag) demo_new (zip (take 5 demo_ops) (take 5 demo_outcomes)) s
     \<and> SessionTracer_epoch s = Epoch 1
     \<and> (\<exists>flow. bt_get (flows s) (FlowId 0) = Some flow \<and> next_send flow = Sequence 2)
     \<and> SessionTracer_pending s (FlowId 0) = Ok
         [\<lparr>seg_flow_id = FlowId 0, seg_epoch = Epoch 1, seg_sequence = Sequence 0, seg_bytes = [1, 2]\<rparr>,
          \<lparr>seg_flow_id = FlowId 0, seg_epoch = Epoch 1, seg_sequence = Sequence 1, seg_bytes = [3]\<rparr>]"
proof -
  have "\<exists>s. execute (session_apply demo_tag) demo_new (take 5 demo_ops)
        = Some (zip (take 5 demo_ops) (take 5 demo_outcomes), s)
     \<and> SessionTracer_epoch s = Epoch 1
     \<and> (\<exists>flow. bt_get (flows s) (FlowId 0) = Some flow \<and> next_send flow = Sequence 2)
     \<and> SessionTracer_pending s (FlowId 0) = Ok
         [\<lparr>seg_flow_id = FlowId 0, seg_epoch = Epoch 1, seg_sequence = Sequence 0, seg_bytes = [1, 2]\<rparr>,
          \<lparr>seg_flow_id = FlowId 0, seg_epoch = Epoch 1, seg_sequence = Sequence 1, seg_bytes = [3]\<rparr>]"
    by (simp add: demo_new_def demo_ops_def demo_outcomes_def tracer_defs demo_defs Let_def
        SessionTracer_pending_def)
  then show ?thesis
    using execute_run by metis
qed

theorem acknowledge_exact_witness:
  "\<exists>s s'. SessionTracer_acknowledge s
        \<lparr>ack_flow_id = FlowId 0, ack_epoch = Epoch 1, ack_through = Sequence 0\<rparr> = Some (Ok (), s')
     \<and> SessionTracer_pending s' (FlowId 0) = Ok
         [\<lparr>seg_flow_id = FlowId 0, seg_epoch = Epoch 1, seg_sequence = Sequence 1, seg_bytes = [3]\<rparr>]"
proof -
  let ?ack = "\<lparr>ack_flow_id = FlowId 0, ack_epoch = Epoch 1, ack_through = Sequence 0\<rparr>"
  obtain s flow where s: "run (session_apply demo_tag) demo_new (zip (take 5 demo_ops) (take 5 demo_outcomes)) s"
    "SessionTracer_epoch s = Epoch 1" "bt_get (flows s) (FlowId 0) = Some flow" "next_send flow = Sequence 2"
    "SessionTracer_pending s (FlowId 0) = Ok
         [\<lparr>seg_flow_id = FlowId 0, seg_epoch = Epoch 1, seg_sequence = Sequence 0, seg_bytes = [1, 2]\<rparr>,
          \<lparr>seg_flow_id = FlowId 0, seg_epoch = Epoch 1, seg_sequence = Sequence 1, seg_bytes = [3]\<rparr>]"
    using demo_sent by blast
  have "SessionTracer_pending s (ack_flow_id ?ack) = Ok
         [\<lparr>seg_flow_id = FlowId 0, seg_epoch = Epoch 1, seg_sequence = Sequence 0, seg_bytes = [1, 2]\<rparr>,
          \<lparr>seg_flow_id = FlowId 0, seg_epoch = Epoch 1, seg_sequence = Sequence 1, seg_bytes = [3]\<rparr>]"
    "bt_get (flows s) (ack_flow_id ?ack) = Some flow"
    using s by simp_all
  from acknowledge_exact [OF demo_new_Some s(1) this] s(2,4) show ?thesis
    by auto
qed

text \<open>
  Timeouts are exact. In every reachable state, advancing the clock without overflow removes
  precisely the flows that hold any segment whose deadline has passed (checking the oldest one is
  enough), reports them in ascending order without repetition, and keeps every other flow as it
  was; no segment that survives is overdue.
\<close>

theorem timeouts_exact:
  assumes "SessionTracer_new e l = Some s0" and "run (session_apply sign) s0 log s"
    and "unat (tick s) + unat ticks < 2 ^ 64"
  shows "\<exists>gone s'. SessionTracer_advance_time s ticks = Some (gone, s') \<and> tick s' = tick s + ticks
    \<and> sorted_wrt (<) gone
    \<and> (\<forall>fid flow. bt_get (flows s) fid = Some flow \<longrightarrow>
         (if \<exists>p \<in> set (pending flow). expires_at p \<le> tick s + ticks
          then fid \<in> set gone \<and> bt_get (flows s') fid = None
          else fid \<notin> set gone \<and> bt_get (flows s') fid = Some flow))"
proof -
  have inv: "tracer_inv s"
    using tracer.run_inv [OF assms(2) tracer_inv_new [OF assms(1)]] .
  have now: "checked_add (tick s) ticks = Some (tick s + ticks)"
    using assms(3) by (simp add: checked_add_def)
  let ?now = "tick s + ticks"
  let ?gone = "map fst (filter (\<lambda>(_, flow). front_expired ?now flow) (flows s))"
  obtain s' where adv: "SessionTracer_advance_time s ticks = Some (?gone, s')" "tracer_inv s'" "tick s' = ?now"
    "flows s' = filter (\<lambda>(_, flow). \<not> front_expired ?now flow) (flows s)"
    using advance_time_Some [OF inv now] by blast
  have front: "front_expired ?now flow \<longleftrightarrow> (\<exists>p \<in> set (pending flow). expires_at p \<le> ?now)"
    if "bt_get (flows s) fid = Some flow" for fid flow
  proof -
    have "sorted_wrt pend_before (pending flow)"
      using tracer_inv_flow [OF inv that] by (simp add: flow_inv_def send_inv_def)
    then show ?thesis
      by (cases "pending flow") (auto simp: front_expired_def pend_before_def)
  qed
  have sorted: "bt_sorted (flows s)"
    using inv by (simp add: tracer_inv_def)
  have mem: "fid \<in> set ?gone \<longleftrightarrow> front_expired ?now flow"
    and kept: "bt_get (flows s') fid = (if \<not> front_expired ?now flow then Some flow else None)"
    if "bt_get (flows s) fid = Some flow" for fid flow
    unfolding adv(4)
    by (rule bt_filter_key [OF sorted bt_get_SomeD [OF that]]
        bt_get_filter [OF sorted bt_get_SomeD [OF that]])+
  have "sorted_wrt (<) ?gone"
    using bt_sorted_filter [OF sorted] by (simp add: bt_sorted_def)
  moreover have "if \<exists>p \<in> set (pending flow). expires_at p \<le> ?now
      then fid \<in> set ?gone \<and> bt_get (flows s') fid = None
      else fid \<notin> set ?gone \<and> bt_get (flows s') fid = Some flow"
    if "bt_get (flows s) fid = Some flow" for fid flow
    using front [OF that] mem [OF that] kept [OF that] by auto
  ultimately show ?thesis
    using adv(1,3) by blast
qed

theorem timeouts_exact_witness:
  "\<exists>s gone s'. SessionTracer_advance_time s 10 = Some (gone, s') \<and> FlowId 0 \<in> set gone
     \<and> bt_get (flows s') (FlowId 0) = None"
proof -
  have "\<exists>s. execute (session_apply demo_tag) demo_new (take 5 demo_ops)
        = Some (zip (take 5 demo_ops) (take 5 demo_outcomes), s)
     \<and> tick s = 0 \<and> (\<exists>flow. bt_get (flows s) (FlowId 0) = Some flow
         \<and> (\<exists>p \<in> set (pending flow). expires_at p \<le> 10))"
    by (simp add: demo_new_def demo_ops_def demo_outcomes_def tracer_defs demo_defs Let_def)
  then obtain s flow where run:
      "run (session_apply demo_tag) demo_new (zip (take 5 demo_ops) (take 5 demo_outcomes)) s"
    and s: "tick s = 0" "bt_get (flows s) (FlowId 0) = Some flow"
      "\<exists>p \<in> set (pending flow). expires_at p \<le> 10"
    using execute_run by metis
  have "unat (tick s) + unat (10 :: u64) < 2 ^ 64"
    using s(1) by simp
  from timeouts_exact [OF demo_new_Some run this] obtain gone s' where
    "SessionTracer_advance_time s 10 = Some (gone, s')"
    "if \<exists>p \<in> set (pending flow). expires_at p \<le> tick s + 10
     then FlowId 0 \<in> set gone \<and> bt_get (flows s') (FlowId 0) = None
     else FlowId 0 \<notin> set gone \<and> bt_get (flows s') (FlowId 0) = Some flow"
    using s(2) by blast
  then show ?thesis
    using s(1,3) by auto
qed

text \<open>
  Attachment acceptance is exact. In every reachable state an attachment is newly accepted
  precisely when it names the negotiated parameters and the current epoch, its proof verifies for
  them, and nothing was accepted in this epoch yet; a repetition of the accepted attachment is
  answered without changing the state; and every rejection changes at most the event ring.
\<close>

theorem attachment_exact:
  assumes "SessionTracer_new e l = Some s0" and "run (session_apply sign) s0 log s"
    and "SessionTracer_authenticate_carrier_attachment sign s auth sid a = (r, s')"
  shows "(r = Ok Accepted \<longleftrightarrow>
        negotiated s = Some (att_parameters a) \<and> att_epoch a = SessionTracer_epoch s
        \<and> AttachmentAuthenticator_verify sign auth sid (att_epoch a) (att_id a) (att_parameters a)
            (att_proof a) = Ok ()
        \<and> latest_epoch (attachment_replay s) \<noteq> Some (SessionTracer_epoch s))
    \<and> (r = Ok Accepted \<longrightarrow> accepted_attachment s' = Some (accepted_of a)
        \<and> SessionTracer_authenticate_carrier_attachment sign s' auth sid a = (Ok AlreadyAccepted, s'))
    \<and> (r \<noteq> Ok Accepted \<longrightarrow> s'\<lparr>events := events s\<rparr> = s)"
proof -
  have inv: "tracer_inv s"
    using tracer.run_inv [OF assms(2) tracer_inv_new [OF assms(1)]] .
  have replay: "ReplayWindow_accepts (attachment_replay s) (SessionTracer_epoch s)
      \<longleftrightarrow> latest_epoch (attachment_replay s) \<noteq> Some (SessionTracer_epoch s)"
    using inv by (auto simp: tracer_inv_def attachment_inv_def ReplayWindow_accepts_def split: option.splits)
  from assms(3) show ?thesis
  proof (cases rule: authenticate_cases)
    case accepted
    have "SessionTracer_authenticate_carrier_attachment sign s' auth sid a = (Ok AlreadyAccepted, s')"
      using accepted authenticate_verified [of s' a sign auth sid] by (simp add: SessionTracer_epoch_def)
    then show ?thesis
      using accepted replay by simp
  next
    case already
    then have "latest_epoch (attachment_replay s) = Some (SessionTracer_epoch s)"
      using inv by (auto simp: tracer_inv_def attachment_inv_def)
    then show ?thesis
      using already by simp
  next
    case (rejected err)
    have "s'\<lparr>events := events s\<rparr> = s"
      using rejected(2) by (auto simp: SessionTracer_record_event_def)
    moreover have "\<not> (negotiated s = Some (att_parameters a) \<and> att_epoch a = SessionTracer_epoch s
        \<and> AttachmentAuthenticator_verify sign auth sid (att_epoch a) (att_id a) (att_parameters a)
            (att_proof a) = Ok ()
        \<and> latest_epoch (attachment_replay s) \<noteq> Some (SessionTracer_epoch s))"
      using authenticate_verified [of s a sign auth sid] assms(3) rejected(1) replay
      by (auto split: if_splits)
    ultimately show ?thesis
      using rejected(1) by simp
  qed
qed

theorem attachment_exact_witness:
  "let a = demo_attachment (Epoch 1); s = demo_new\<lparr>negotiated := Some demo_parameters\<rparr>;
       s' = s\<lparr>attachment_replay := ReplayWindow (Some (Epoch 1)),
              accepted_attachment := Some (accepted_of a)\<rparr>
   in SessionTracer_authenticate_carrier_attachment demo_tag s \<lparr>auth_key = []\<rparr> (SessionId []) a
        = (Ok Accepted, s')
      \<and> SessionTracer_authenticate_carrier_attachment demo_tag s' \<lparr>auth_key = []\<rparr> (SessionId []) a
        = (Ok AlreadyAccepted, s')"
proof -
  let ?a = "demo_attachment (Epoch 1)" and ?s = "demo_new\<lparr>negotiated := Some demo_parameters\<rparr>"
  have "execute (session_apply demo_tag) demo_new [OpBind demo_parameters]
      = Some ([(OpBind demo_parameters, NoOutcome)], ?s)"
    by (simp add: demo_new_def tracer_defs demo_limits_def)
  note run = execute_run [OF this]
  have auth: "SessionTracer_authenticate_carrier_attachment demo_tag ?s \<lparr>auth_key = []\<rparr> (SessionId []) ?a
      = (Ok Accepted, ?s\<lparr>attachment_replay := ReplayWindow (Some (Epoch 1)),
              accepted_attachment := Some (accepted_of ?a)\<rparr>)"
    by (simp add: demo_new_def tracer_defs demo_defs)
  show ?thesis
    using attachment_exact [OF demo_new_Some run auth] auth by (simp add: Let_def)
qed

text \<open>
  Which carriers may dispatch: in every reachable state a carrier is active exactly when it is
  the accepted one (the epoch comparison of \<^verbatim>\<open>carrier_attachment_is_active\<close> never fails), and it is
  dispatchable exactly when it is the accepted one or, only while a transition is in progress,
  the one that was accepted in the retiring epoch.
\<close>

theorem dispatchable_carriers:
  assumes "SessionTracer_new e l = Some s0" and "run (session_apply sign) s0 log s"
  shows "(SessionTracer_carrier_attachment_is_active s c
       \<longleftrightarrow> map_option acc_carrier (accepted_attachment s) = Some c)
    \<and> (SessionTracer_carrier_attachment_is_dispatchable s c
       \<longleftrightarrow> map_option acc_carrier (accepted_attachment s) = Some c
         \<or> (\<exists>a. retiring_attachment s = Some a \<and> acc_carrier a = c
              \<and> tr_retiring (transition s) = Some (acc_epoch a)
              \<and> unat (epoch_value (acc_epoch a)) + 1 = unat (epoch_value (SessionTracer_epoch s))))"
proof -
  have "attachment_inv s"
    using tracer.run_inv [OF assms(2) tracer_inv_new [OF assms(1)]] by (simp add: tracer_inv_def)
  then show ?thesis
    by (auto simp: attachment_inv_def SessionTracer_carrier_attachment_is_active_def
        SessionTracer_carrier_attachment_is_dispatchable_def is_some_and_def split: option.splits)
qed

theorem dispatchable_carriers_witness:
  "\<exists>s. run (session_apply demo_tag) demo_new (zip demo_ops demo_outcomes) s
     \<and> (SessionTracer_carrier_attachment_is_active s (CarrierId 5)
       \<longleftrightarrow> map_option acc_carrier (accepted_attachment s) = Some (CarrierId 5))"
  using demo_run dispatchable_carriers [OF demo_new_Some] by blast

end
