(* ===== verification/Carrier_Simulator.thy ===== *)
theory Carrier_Simulator
  imports Session_Properties "HOL-Library.Multiset"
begin

text \<open>
  \<^verbatim>\<open>crates/velum-session/src/simulator.rs\<close>: the in-memory carrier with loss, duplication, delay,
  reordering and black holes. It schedules attempts and releases them when their delay ended;
  the lemmas show that it neither invents nor loses a scheduled segment.
\<close>

datatype CarrierDisposition = Deliver | DropSegment | DuplicateTwice | Delay u64

record ScheduledSegment =
  ready_at :: u64
  sched_segment :: Segment

record InMemoryCarrier =
  car_tick :: u64
  available :: bool
  scheduled :: "ScheduledSegment list"

definition InMemoryCarrier_new :: InMemoryCarrier where
  "InMemoryCarrier_new = \<lparr>car_tick = 0, available = True, scheduled = []\<rparr>"

definition InMemoryCarrier_set_available :: "InMemoryCarrier \<Rightarrow> bool \<Rightarrow> InMemoryCarrier" where
  "InMemoryCarrier_set_available c b = c\<lparr>available := b\<rparr>"

definition InMemoryCarrier_schedule :: "InMemoryCarrier \<Rightarrow> Segment \<Rightarrow> u64 \<Rightarrow> InMemoryCarrier option" where
  "InMemoryCarrier_schedule c segment delay =
     (case checked_add (car_tick c) delay of
        None \<Rightarrow> None
      | Some t \<Rightarrow> Some (c\<lparr>scheduled := scheduled c @ [\<lparr>ready_at = t, sched_segment = segment\<rparr>]\<rparr>))"

fun disposition_delay :: "CarrierDisposition \<Rightarrow> u64" where
  "disposition_delay (Delay d) = d"
| "disposition_delay _ = 0"

definition InMemoryCarrier_transmit ::
  "InMemoryCarrier \<Rightarrow> Segment \<Rightarrow> CarrierDisposition \<Rightarrow> InMemoryCarrier option" where
  "InMemoryCarrier_transmit c segment disposition =
     (if \<not> available c \<or> disposition = DropSegment then Some c
      else
        (case InMemoryCarrier_schedule c segment (disposition_delay disposition) of
           None \<Rightarrow> None
         | Some c' \<Rightarrow>
             if disposition = DuplicateTwice
             then InMemoryCarrier_schedule c' segment (disposition_delay disposition)
             else Some c'))"

text \<open>The draining loop of \<^verbatim>\<open>advance\<close>, with its two accumulators.\<close>

fun split_ready ::
  "u64 \<Rightarrow> ScheduledSegment list \<Rightarrow> Segment list \<Rightarrow> ScheduledSegment list
   \<Rightarrow> Segment list \<times> ScheduledSegment list" where
  "split_ready now [] ready waiting = (ready, waiting)"
| "split_ready now (x # xs) ready waiting =
     (if ready_at x \<le> now then split_ready now xs (ready @ [sched_segment x]) waiting
      else split_ready now xs ready (waiting @ [x]))"

definition InMemoryCarrier_advance ::
  "InMemoryCarrier \<Rightarrow> u64 \<Rightarrow> (Segment list \<times> InMemoryCarrier) option" where
  "InMemoryCarrier_advance c ticks =
     (case checked_add (car_tick c) ticks of
        None \<Rightarrow> None
      | Some now \<Rightarrow>
          (case split_ready now (scheduled c) [] [] of
             (ready, waiting) \<Rightarrow> Some (ready, c\<lparr>car_tick := now, scheduled := waiting\<rparr>)))"

definition InMemoryCarrier_pending :: "InMemoryCarrier \<Rightarrow> nat" where
  "InMemoryCarrier_pending c = length (scheduled c)"

section \<open>Lemmas\<close>

lemma split_ready_eq:
  "split_ready now xs ready waiting =
     (ready @ map sched_segment (filter (\<lambda>x. ready_at x \<le> now) xs),
      waiting @ filter (\<lambda>x. \<not> ready_at x \<le> now) xs)"
  by (induction now xs ready waiting rule: split_ready.induct) auto

lemma advance_Some_iff:
  "InMemoryCarrier_advance c ticks = Some (ready, c') \<longleftrightarrow>
    (\<exists>now. checked_add (car_tick c) ticks = Some now
      \<and> ready = map sched_segment (filter (\<lambda>x. ready_at x \<le> now) (scheduled c))
      \<and> c' = c\<lparr>car_tick := now, scheduled := filter (\<lambda>x. \<not> ready_at x \<le> now) (scheduled c)\<rparr>)"
  by (auto simp: InMemoryCarrier_advance_def split_ready_eq split: option.splits)

lemma schedule_segments:
  "InMemoryCarrier_schedule c segment d = Some c' \<Longrightarrow>
     map sched_segment (scheduled c') = map sched_segment (scheduled c) @ [segment]
     \<and> available c' = available c \<and> car_tick c' = car_tick c"
  by (auto simp: InMemoryCarrier_schedule_def split: option.splits)

lemma transmit_segments:
  "InMemoryCarrier_transmit c segment d = Some c' \<Longrightarrow>
     map sched_segment (scheduled c') = map sched_segment (scheduled c)
       @ (if \<not> available c then [] else case d of DropSegment \<Rightarrow> [] | DuplicateTwice \<Rightarrow> [segment, segment]
          | _ \<Rightarrow> [segment])
     \<and> available c' = available c \<and> car_tick c' = car_tick c"
  by (cases d)
    (auto simp: InMemoryCarrier_transmit_def dest!: schedule_segments split: if_splits option.splits)

lemma advance_mset:
  assumes "InMemoryCarrier_advance c ticks = Some (ready, c')"
  shows "mset ready + mset (map sched_segment (scheduled c')) = mset (map sched_segment (scheduled c))"
proof -
  have "mset (filter P xs) + mset (filter (\<lambda>x. \<not> P x) xs) = mset xs" for P and xs :: "ScheduledSegment list"
    by simp
  then show ?thesis
    using assms unfolding advance_Some_iff
    by (auto simp flip: image_mset_union)
qed

section \<open>Properties\<close>

text \<open>
  The carrier simulator conserves segments: an attempt adds its segment once, twice or not at
  all exactly as its disposition and the availability say, and advancing the clock hands over
  exactly the segments whose delay ended, in the order of their attempts, and keeps the others.
\<close>

theorem simulator_conserves_segments:
  assumes "InMemoryCarrier_transmit c segment d = Some c1"
    and "InMemoryCarrier_advance c1 ticks = Some (ready, c2)"
  shows "mset ready + mset (map sched_segment (scheduled c2))
      = mset (map sched_segment (scheduled c))
        + (if \<not> available c \<or> d = DropSegment then {#} else
           if d = DuplicateTwice then {#segment, segment#} else {#segment#})
    \<and> (\<forall>x \<in> set (scheduled c2). car_tick c2 < ready_at x)
    \<and> (\<exists>due. ready = map sched_segment (filter due (scheduled c1)))"
proof -
  have "mset (map sched_segment (scheduled c1)) = mset (map sched_segment (scheduled c))
      + (if \<not> available c \<or> d = DropSegment then {#} else
         if d = DuplicateTwice then {#segment, segment#} else {#segment#})"
    using transmit_segments [OF assms(1)] by (cases d) (auto simp flip: mset_map)
  moreover have "\<forall>x \<in> set (scheduled c2). car_tick c2 < ready_at x"
    "\<exists>due. ready = map sched_segment (filter due (scheduled c1))"
    using assms(2) by (auto simp: advance_Some_iff)
  ultimately show ?thesis
    using advance_mset [OF assms(2)] by simp
qed

theorem simulator_conserves_segments_witness:
  "\<exists>c1 ready c2. InMemoryCarrier_transmit InMemoryCarrier_new (demo_segment (Epoch 1) 0) DuplicateTwice = Some c1
     \<and> InMemoryCarrier_advance c1 0 = Some (ready, c2)
     \<and> mset ready + mset (map sched_segment (scheduled c2))
         = {#demo_segment (Epoch 1) 0, demo_segment (Epoch 1) 0#}"
proof -
  have "\<exists>c1 ready c2. InMemoryCarrier_transmit InMemoryCarrier_new (demo_segment (Epoch 1) 0) DuplicateTwice = Some c1
     \<and> InMemoryCarrier_advance c1 0 = Some (ready, c2)"
    by (simp add: InMemoryCarrier_transmit_def InMemoryCarrier_schedule_def InMemoryCarrier_advance_def
        InMemoryCarrier_new_def checked_add_def)
  then obtain c1 ready c2 where
    c: "InMemoryCarrier_transmit InMemoryCarrier_new (demo_segment (Epoch 1) 0) DuplicateTwice = Some c1"
      "InMemoryCarrier_advance c1 0 = Some (ready, c2)"
    by blast
  with simulator_conserves_segments [OF c] show ?thesis
    by (auto simp: InMemoryCarrier_new_def)
qed

end
