(* ===== verification/Session_Delivery.thy ===== *)
theory Session_Delivery
  imports Carrier_Simulator
begin

text \<open>
  Two session tracers and the faulty in-memory carrier between them: one flow, a sender that
  submits payloads and retransmits what is not acknowledged, a carrier that loses, duplicates,
  delays and reorders, a receiver that delivers and acknowledges what it delivered, and carrier
  transitions on both sides at any time. \<open>link_step\<close> composes the operations of the two tracers
  and of the carrier the way the session tests and the campaign model do.

  Safety: what the receiver's application has seen is always a prefix of what the sender's
  application submitted. Progress: whatever happened before, one retransmission over an
  available carrier completes the delivery, provided the receiver admits the sender's epoch.
\<close>

section \<open>The linked system\<close>

record link =
  sender :: SessionTracer
  receiver :: SessionTracer
  carrier :: InMemoryCarrier
  submitted :: "bytes list"
  delivered :: "bytes list"

datatype link_op =
    LinkSend bytes CarrierDisposition
  | LinkResume "CarrierDisposition list"
  | LinkAdvance u64
  | LinkAvailable bool
  | LinkAcknowledge Sequence
  | LinkSenderBegin
  | LinkSenderComplete
  | LinkReceiverBegin
  | LinkReceiverComplete

fun transmit_all ::
  "InMemoryCarrier \<Rightarrow> (Segment \<times> CarrierDisposition) list \<Rightarrow> InMemoryCarrier option" where
  "transmit_all c [] = Some c"
| "transmit_all c ((segment, d) # xs) =
     (case InMemoryCarrier_transmit c segment d of None \<Rightarrow> None | Some c' \<Rightarrow> transmit_all c' xs)"

fun receive_all ::
  "SessionTracer \<Rightarrow> Segment list \<Rightarrow> bytes list \<Rightarrow> (bytes list \<times> SessionTracer) option" where
  "receive_all r [] out = Some (out, r)"
| "receive_all r (segment # xs) out =
     (case SessionTracer_receive r segment of
        None \<Rightarrow> None
      | Some (res, r') \<Rightarrow>
          receive_all r' xs (case res of Inr (Delivered bs) \<Rightarrow> out @ [bs] | _ \<Rightarrow> out))"

definition receiver_delivered :: "SessionTracer \<Rightarrow> FlowId \<Rightarrow> Sequence \<Rightarrow> bool" where
  "receiver_delivered r fid t =
     is_some_and (bt_get (flows r) fid) (\<lambda>flow. t < next_receive flow)"

text \<open>
  The receiver only acknowledges what it has delivered; the acknowledgement carries its epoch
  and may arrive at any later time, in any order.
\<close>

fun link_step :: "FlowId \<Rightarrow> link_op \<Rightarrow> link \<Rightarrow> (unit \<times> link) option" where
  "link_step fid (LinkSend bs d) k =
     (case SessionTracer_send (sender k) fid bs of
        None \<Rightarrow> None
      | Some (Inl _, s) \<Rightarrow> Some ((), k\<lparr>sender := s\<rparr>)
      | Some (Inr segment, s) \<Rightarrow>
          (case InMemoryCarrier_transmit (carrier k) segment d of
             None \<Rightarrow> None
           | Some c \<Rightarrow> Some ((), k\<lparr>sender := s, carrier := c, submitted := submitted k @ [bs]\<rparr>)))"
| "link_step fid (LinkResume ds) k =
     (case SessionTracer_resume_unacknowledged (sender k) fid of
        Inl _ \<Rightarrow> Some ((), k)
      | Inr segments \<Rightarrow>
          (case transmit_all (carrier k) (zip segments ds) of
             None \<Rightarrow> None
           | Some c \<Rightarrow> Some ((), k\<lparr>carrier := c\<rparr>)))"
| "link_step fid (LinkAdvance ticks) k =
     (case InMemoryCarrier_advance (carrier k) ticks of
        None \<Rightarrow> None
      | Some (ready, c) \<Rightarrow>
          (case receive_all (receiver k) ready (delivered k) of
             None \<Rightarrow> None
           | Some (out, r) \<Rightarrow> Some ((), k\<lparr>carrier := c, receiver := r, delivered := out\<rparr>)))"
| "link_step fid (LinkAvailable b) k =
     Some ((), k\<lparr>carrier := InMemoryCarrier_set_available (carrier k) b\<rparr>)"
| "link_step fid (LinkAcknowledge t) k =
     (if receiver_delivered (receiver k) fid t then
        (case SessionTracer_acknowledge (sender k) \<lparr>ack_flow_id = fid,
            ack_epoch = SessionTracer_epoch (receiver k), ack_through = t\<rparr> of
           None \<Rightarrow> None
         | Some (_, s) \<Rightarrow> Some ((), k\<lparr>sender := s\<rparr>))
      else Some ((), k))"
| "link_step fid LinkSenderBegin k =
     (case SessionTracer_begin_transition (sender k) of
        None \<Rightarrow> None | Some (_, s) \<Rightarrow> Some ((), k\<lparr>sender := s\<rparr>))"
| "link_step fid LinkSenderComplete k =
     Some ((), k\<lparr>sender := SessionTracer_complete_transition (sender k)\<rparr>)"
| "link_step fid LinkReceiverBegin k =
     (case SessionTracer_begin_transition (receiver k) of
        None \<Rightarrow> None | Some (_, r) \<Rightarrow> Some ((), k\<lparr>receiver := r\<rparr>))"
| "link_step fid LinkReceiverComplete k =
     Some ((), k\<lparr>receiver := SessionTracer_complete_transition (receiver k)\<rparr>)"

text \<open>Two fresh sessions of the same epoch, the flow opened on both sides.\<close>

definition link_start :: "Epoch \<Rightarrow> FlowLimits \<Rightarrow> FlowLimits \<Rightarrow> link option" where
  "link_start e ls lr =
     (case (SessionTracer_new e ls, SessionTracer_new e lr) of
        (Some s, Some r) \<Rightarrow>
          Some \<lparr>sender = snd (SessionTracer_open_reliable_flow s),
            receiver = snd (SessionTracer_open_reliable_flow_with_id r (FlowId 0)),
            carrier = InMemoryCarrier_new, submitted = [], delivered = []\<rparr>
      | _ \<Rightarrow> None)"

text \<open>A concrete history: the first payload is lost, the second arrives out of order.\<close>

definition demo_link :: link where
  "demo_link = the (link_start (Epoch 1) demo_limits demo_limits)"

definition demo_link_ops :: "link_op list" where
  "demo_link_ops = [LinkSend [1] DropSegment, LinkSend [2] DuplicateTwice, LinkAdvance 3]"

section \<open>The link invariant\<close>

definition genuine :: "FlowId \<Rightarrow> bytes list \<Rightarrow> Segment \<Rightarrow> bool" where
  "genuine fid sub segment =
     (seg_flow_id segment = fid
      \<and> unat (sequence_value (seg_sequence segment)) < length sub
      \<and> seg_bytes segment = sub ! unat (sequence_value (seg_sequence segment)))"

definition sender_ok :: "FlowId \<Rightarrow> bytes list \<Rightarrow> nat \<Rightarrow> SessionTracer \<Rightarrow> bool" where
  "sender_ok fid sub n s =
     (tracer_inv s
      \<and> (case bt_get (flows s) fid of
           None \<Rightarrow> False
         | Some flow \<Rightarrow> unat (sequence_value (next_send flow)) = length sub
             \<and> list_all (\<lambda>p. genuine fid sub (pend_segment p)) (pending flow)
             \<and> set [n..<length sub] \<subseteq> pend_seq ` set (pending flow)))"

definition receiver_ok :: "FlowId \<Rightarrow> nat \<Rightarrow> SessionTracer \<Rightarrow> bool" where
  "receiver_ok fid n r =
     (tracer_inv r
      \<and> (case bt_get (flows r) fid of
           None \<Rightarrow> False
         | Some flow \<Rightarrow> receive_final_next flow = None
             \<and> unat (sequence_value (next_receive flow)) = n))"

definition link_inv :: "FlowId \<Rightarrow> link \<Rightarrow> bool" where
  "link_inv fid k =
     (sender_ok fid (submitted k) (length (delivered k)) (sender k)
      \<and> receiver_ok fid (length (delivered k)) (receiver k)
      \<and> length (delivered k) \<le> length (submitted k)
      \<and> delivered k = take (length (delivered k)) (submitted k)
      \<and> list_all (\<lambda>x. genuine fid (submitted k) (sched_segment x)) (scheduled (carrier k)))"

section \<open>The receiving side\<close>

lemma genuine_append: "genuine fid sub g \<Longrightarrow> genuine fid (sub @ more_sub) g"
  by (auto simp: genuine_def nth_append)

text \<open>A genuine segment advances the receiver exactly when it is the next one in a valid epoch.\<close>

lemma receive_genuine:
  assumes r: "receiver_ok fid n r" and g: "genuine fid sub g" and n: "length sub < 2 ^ 64"
  defines "next_one \<equiv> SessionTracer_require_valid_epoch r (seg_epoch g) = Ok ()
      \<and> unat (sequence_value (seg_sequence g)) = n"
  shows "\<exists>res r'. SessionTracer_receive r g = Some (res, r') \<and> transition r' = transition r
    \<and> (if next_one then res = Ok (Delivered (sub ! n)) \<and> receiver_ok fid (Suc n) r'
       else (\<forall>bs. res \<noteq> Ok (Delivered bs)) \<and> receiver_ok fid n r')"
proof -
  obtain flow where flow: "bt_get (flows r) fid = Some flow" "receive_final_next flow = None"
    "unat (sequence_value (next_receive flow)) = n"
    using r by (auto simp: receiver_ok_def split: option.splits)
  have seq: "seg_sequence g < next_receive flow \<longleftrightarrow> unat (sequence_value (seg_sequence g)) < n"
    "seg_sequence g > next_receive flow \<longleftrightarrow> unat (sequence_value (seg_sequence g)) > n"
    using flow(3) by (auto simp: less_Sequence_def word_less_nat_alt)
  have g': "seg_flow_id g = fid" "unat (sequence_value (seg_sequence g)) < length sub"
    "seg_bytes g = sub ! unat (sequence_value (seg_sequence g))"
    using g by (auto simp: genuine_def)
  show ?thesis
  proof (cases next_one)
    case True
    have "n + 1 < 2 ^ 64"
      using True g'(2) n by (simp add: next_one_def)
    then obtain m where m1: "checked_add (sequence_value (next_receive flow)) 1 = Some m"
      using flow(3) by (simp add: checked_add_def)
    with flow(3) have m: "checked_add (sequence_value (next_receive flow)) 1 = Some m" "unat m = Suc n"
      using checked_add_SomeD [OF m1] by simp_all
    let ?r = "r\<lparr>flows := bt_insert fid (flow\<lparr>next_receive := Sequence m\<rparr>) (flows r)\<rparr>"
    have "seg_sequence g = next_receive flow"
      using True flow(3) by (simp add: next_one_def Sequence.expand word_unat_eq_iff)
    then have rcv: "SessionTracer_receive r g = Some (Ok (Delivered (sub ! n)), ?r)"
      using True flow g' m(1) by (auto simp: receive_Delivered_iff next_one_def)
    moreover have "tracer_inv ?r"
      using tracer_inv_receive [OF _ rcv] r by (simp add: receiver_ok_def)
    ultimately show ?thesis
      using True m(2) flow(2) by (auto simp: receiver_ok_def bt_get_insert)
  next
    case False
    have kept: "receiver_ok fid n (SessionTracer_record_event r ev)" for ev
      using r by (auto simp: receiver_ok_def)
    show ?thesis
    proof (cases "SessionTracer_require_valid_epoch r (seg_epoch g)")
      case (Inl e)
      then show ?thesis
        using False r by (simp add: SessionTracer_receive_def)
    next
      case (Inr u)
      then consider "unat (sequence_value (seg_sequence g)) < n" | "n < unat (sequence_value (seg_sequence g))"
        using False by (fastforce simp: next_one_def)
      then show ?thesis
        using False Inr flow g'(1) seq kept
        by cases (simp_all add: SessionTracer_receive_def)
    qed
  qed
qed

lemma receive_all_genuine:
  assumes "receiver_ok fid n r" "\<forall>g \<in> set gs. genuine fid sub g" "length sub < 2 ^ 64"
    and "n \<le> length sub" "out = take n sub"
  shows "\<exists>m r'. receive_all r gs out = Some (take m sub, r') \<and> receiver_ok fid m r' \<and> n \<le> m
    \<and> m \<le> length sub \<and> transition r' = transition r"
  using assms
proof (induction gs arbitrary: n r out)
  case (Cons g gs)
  have g: "genuine fid sub g"
    using Cons.prems(2) by simp
  let ?next = "SessionTracer_require_valid_epoch r (seg_epoch g) = Ok ()
      \<and> unat (sequence_value (seg_sequence g)) = n"
  obtain res r1 where rcv: "SessionTracer_receive r g = Some (res, r1)" "transition r1 = transition r"
    and eff: "if ?next then res = Ok (Delivered (sub ! n)) \<and> receiver_ok fid (Suc n) r1
       else (\<forall>bs. res \<noteq> Ok (Delivered bs)) \<and> receiver_ok fid n r1"
    using receive_genuine [OF Cons.prems(1) g Cons.prems(3)] by blast
  show ?case
  proof (cases ?next)
    case True
    then have lt: "n < length sub"
      using g by (simp add: genuine_def)
    then have "take (Suc n) sub = out @ [sub ! n]"
      using Cons.prems(5) by (simp add: take_Suc_conv_app_nth)
    then show ?thesis
      using Cons.IH [of "Suc n" r1 "out @ [sub ! n]"] Cons.prems rcv eff True lt
      by (auto dest: Suc_leD)
  next
    case False
    then have "(case res of Inr (Delivered bs) \<Rightarrow> out @ [bs] | _ \<Rightarrow> out) = out"
      using eff by (auto split: sum.splits ReceiveResult.splits)
    then show ?thesis
      using Cons.IH [of n r1 out] Cons.prems rcv eff False by auto
  qed
qed auto

text \<open>Consecutive segments of an admitted epoch, starting no later than the cursor, complete it.\<close>

lemma receive_all_complete:
  assumes "receiver_ok fid n r" "\<forall>g \<in> set gs. genuine fid sub g" "length sub < 2 ^ 64"
    and "n \<le> length sub" "out = take n sub" "lo \<le> n"
    and "map (\<lambda>g. unat (sequence_value (seg_sequence g))) gs = [lo..<length sub]"
    and "\<forall>g \<in> set gs. SessionTracer_require_valid_epoch r (seg_epoch g) = Ok ()"
  shows "\<exists>r'. receive_all r gs out = Some (sub, r')"
  using assms
proof (induction gs arbitrary: n r out lo)
  case Nil
  then have "length sub \<le> lo"
    by (metis list.simps(8) upt_eq_Nil_conv le_zero_eq)
  then show ?case
    using Nil by simp
next
  case (Cons g gs)
  note upt = Cons.prems(7) [symmetric, unfolded list.map upt_eq_Cons_conv]
  have lo: "lo < length sub" "unat (sequence_value (seg_sequence g)) = lo"
    using upt by simp_all
  have rest: "map (\<lambda>g. unat (sequence_value (seg_sequence g))) gs = [Suc lo..<length sub]"
    using conjunct2 [OF conjunct2 [OF upt]] by simp
  have g: "genuine fid sub g" and valid: "SessionTracer_require_valid_epoch r (seg_epoch g) = Ok ()"
    using Cons.prems(2,8) by simp_all
  let ?n = "if lo = n then Suc n else n"
  obtain res r1 where rcv: "SessionTracer_receive r g = Some (res, r1)" "transition r1 = transition r"
    and eff: "if lo = n then res = Ok (Delivered (sub ! n)) \<and> receiver_ok fid (Suc n) r1
       else (\<forall>bs. res \<noteq> Ok (Delivered bs)) \<and> receiver_ok fid n r1"
    using receive_genuine [OF Cons.prems(1) g Cons.prems(3)] lo(2) valid by auto
  have out: "(case res of Inr (Delivered bs) \<Rightarrow> out @ [bs] | _ \<Rightarrow> out) = take ?n sub"
    using eff Cons.prems(5) lo(1)
    by (auto simp: take_Suc_conv_app_nth split: sum.splits ReceiveResult.splits if_splits)
  have same: "SessionTracer_require_valid_epoch r1 e = SessionTracer_require_valid_epoch r e" for e
    using rcv(2) by (simp add: SessionTracer_require_valid_epoch_def)
  have "\<exists>r'. receive_all r1 gs (take ?n sub) = Some (sub, r')"
    by (rule Cons.IH [of ?n r1 _ "Suc lo"])
      (use eff Cons.prems lo rest same in \<open>auto split: if_splits\<close>)
  then show ?case
    using rcv(1) out by simp
qed

section \<open>The sending side\<close>

lemma sender_ok_flow:
  "sender_ok fid sub n s \<longleftrightarrow> tracer_inv s \<and> (\<exists>flow. bt_get (flows s) fid = Some flow
     \<and> unat (sequence_value (next_send flow)) = length sub
     \<and> (\<forall>p \<in> set (pending flow). genuine fid sub (pend_segment p))
     \<and> {n..<length sub} \<subseteq> pend_seq ` set (pending flow))"
  by (auto simp: sender_ok_def list_all_iff split: option.splits)

lemma sender_okE:
  assumes "sender_ok fid sub n s"
  obtains flow where "bt_get (flows s) fid = Some flow" "tracer_inv s"
    "unat (sequence_value (next_send flow)) = length sub"
    "\<forall>p \<in> set (pending flow). genuine fid sub (pend_segment p)"
    "{n..<length sub} \<subseteq> pend_seq ` set (pending flow)"
  using assms unfolding sender_ok_flow by blast

lemma sender_ok_bound: "sender_ok fid sub n s \<Longrightarrow> length sub < 2 ^ 64"
proof -
  assume "sender_ok fid sub n s"
  then obtain flow where "bt_get (flows s) fid = Some flow"
    "unat (sequence_value (next_send flow)) = length sub"
    by (rule sender_okE)
  then show ?thesis
    using unat_less_power [of "sequence_value (next_send flow)"] by simp
qed

lemma sender_ok_mono: "sender_ok fid sub n s \<Longrightarrow> n \<le> m \<Longrightarrow> sender_ok fid sub m s"
  unfolding sender_ok_flow by (auto simp: subset_iff)

lemma sender_ok_inv: "sender_ok fid sub n s \<Longrightarrow> tracer_inv s"
  by (simp add: sender_ok_def)

lemma sender_ok_frame:
  "sender_ok fid sub n s \<Longrightarrow> tracer_inv s' \<Longrightarrow> flows s' = flows s \<Longrightarrow> sender_ok fid sub n s'"
  by (simp add: sender_ok_def)

lemma send_link:
  assumes ok: "sender_ok fid sub n s" and send: "SessionTracer_send s fid bs = Some (Ok segment, s')"
  shows "sender_ok fid (sub @ [bs]) n s' \<and> genuine fid (sub @ [bs]) segment"
proof -
  obtain flow where flow: "bt_get (flows s) fid = Some flow" "tracer_inv s"
    "unat (sequence_value (next_send flow)) = length sub"
    "\<forall>p \<in> set (pending flow). genuine fid sub (pend_segment p)"
    "{n..<length sub} \<subseteq> pend_seq ` set (pending flow)"
    using sender_okE [OF ok] .
  obtain m dl where m: "checked_add (sequence_value (next_send flow)) 1 = Some m"
    and seg: "segment = \<lparr>seg_flow_id = fid, seg_epoch = SessionTracer_epoch s,
        seg_sequence = next_send flow, seg_bytes = bs\<rparr>"
    and s': "flows s' = bt_insert fid (flow\<lparr>next_send := Sequence m,
        flow_pending_bytes := flow_pending_bytes flow + length bs,
        pending := pending flow @ [\<lparr>pend_segment = segment, expires_at = dl\<rparr>]\<rparr>) (flows s)"
    using send flow(1) unfolding send_Some_iff by fastforce
  have "tracer_inv s'"
    using tracer_inv_send [OF flow(2) send] .
  moreover have "genuine fid (sub @ [bs]) segment"
    using seg flow(3) by (simp add: genuine_def)
  moreover have "unat m = Suc (length sub)"
    using checked_add_SomeD [OF m] flow(3) by simp
  moreover have "{n..<Suc (length sub)} \<subseteq> insert (length sub) (pend_seq ` set (pending flow))"
    using flow(5) by (auto simp: less_Suc_eq subset_iff)
  ultimately show ?thesis
    using flow(3,4) s' seg
    by (auto simp: sender_ok_flow bt_get_insert pend_seq_def genuine_append)
qed

lemma acknowledge_link:
  assumes ok: "sender_ok fid sub n s" and "unat (sequence_value (ack_through ack)) < n"
    and "ack_flow_id ack = fid" and ack: "SessionTracer_acknowledge s ack = Some (r, s')"
  shows "sender_ok fid sub n s'"
proof -
  obtain flow where flow: "bt_get (flows s) fid = Some flow" "tracer_inv s"
    "unat (sequence_value (next_send flow)) = length sub"
    "\<forall>p \<in> set (pending flow). genuine fid sub (pend_segment p)"
    "{n..<length sub} \<subseteq> pend_seq ` set (pending flow)"
    using sender_okE [OF ok] .
  have inv: "tracer_inv s'"
    using tracer_inv_acknowledge [OF flow(2) ack] .
  consider "s' = s" | "flows s' = bt_insert fid (acked_flow (ack_through ack) flow) (flows s)"
    using acknowledge_Some [OF flow(2), of ack flow] acknowledge_Err [of s ack] flow(1) assms(3) ack
    by fastforce
  then show ?thesis
  proof cases
    case 2
    have "{n..<length sub} \<subseteq> pend_seq ` set (pending (acked_flow (ack_through ack) flow))"
    proof
      fix k
      assume k: "k \<in> {n..<length sub}"
      then obtain p where p: "p \<in> set (pending flow)" "pend_seq p = k"
        using flow(5) by (auto simp: subset_iff image_iff)
      then have "\<not> seg_sequence (pend_segment p) \<le> ack_through ack"
        using k assms(2) by (simp add: pend_seq_le_iff)
      with p show "k \<in> pend_seq ` set (pending (acked_flow (ack_through ack) flow))"
        by (auto simp: acked_flow_def)
    qed
    then show ?thesis
      using inv 2 flow(3,4) by (auto simp: sender_ok_flow bt_get_insert acked_flow_def)
  qed (use ok in simp)
qed

section \<open>The link invariant is kept\<close>

lemma transmit_link:
  assumes "InMemoryCarrier_transmit c g d = Some c'" "P g" "\<forall>x \<in> set (scheduled c). P (sched_segment x)"
  shows "\<forall>x \<in> set (scheduled c'). P (sched_segment x)"
proof -
  have "set (map sched_segment (scheduled c')) \<subseteq> insert g (set (map sched_segment (scheduled c)))"
    using transmit_segments [OF assms(1)] by (auto split: if_splits CarrierDisposition.splits)
  then show ?thesis
    using assms(2,3) by auto
qed

lemma transmit_all_link:
  "transmit_all c xs = Some c' \<Longrightarrow> \<forall>(g, d) \<in> set xs. P g \<Longrightarrow> \<forall>x \<in> set (scheduled c). P (sched_segment x)
     \<Longrightarrow> \<forall>x \<in> set (scheduled c'). P (sched_segment x)"
proof (induction c xs rule: transmit_all.induct)
  case (2 c g d xs)
  then obtain c1 where c1: "InMemoryCarrier_transmit c g d = Some c1" "transmit_all c1 xs = Some c'"
    by (auto split: option.splits)
  have "P g" "\<forall>(g, d) \<in> set xs. P g"
    using "2.prems"(2) by auto
  from "2.IH" [OF c1(1) c1(2) this(2)] transmit_link [OF c1(1) this(1) "2.prems"(3)] show ?case
    by blast
qed simp

lemma resume_segments:
  assumes "sender_ok fid sub n s" "SessionTracer_resume_unacknowledged s fid = Ok gs"
  shows "\<forall>g \<in> set gs. genuine fid sub g \<and> seg_epoch g = SessionTracer_epoch s"
    and "\<exists>lo. map (\<lambda>g. unat (sequence_value (seg_sequence g))) gs = [lo..<length sub]
           \<and> (n < length sub \<longrightarrow> lo \<le> n)"
proof -
  obtain flow where flow: "bt_get (flows s) fid = Some flow" "tracer_inv s"
    "unat (sequence_value (next_send flow)) = length sub"
    "\<forall>p \<in> set (pending flow). genuine fid sub (pend_segment p)"
    "{n..<length sub} \<subseteq> pend_seq ` set (pending flow)"
    using sender_okE [OF assms(1)] .
  have gs: "gs = map (\<lambda>p. (pend_segment p)\<lparr>seg_epoch := SessionTracer_epoch s\<rparr>) (pending flow)"
    using assms(2) flow(1) by (simp add: SessionTracer_resume_unacknowledged_def)
  show "\<forall>g \<in> set gs. genuine fid sub g \<and> seg_epoch g = SessionTracer_epoch s"
    using flow(4) by (auto simp: gs genuine_def)
  let ?lo = "length sub - length (pending flow)"
  have seqs: "map pend_seq (pending flow) = [?lo..<length sub]"
    using tracer_inv_flow [OF flow(2,1)] flow(3) by (simp add: flow_inv_def send_inv_def)
  have "?lo \<le> n" if "n < length sub"
  proof -
    have "n \<in> set (map pend_seq (pending flow))"
      using flow(5) that by auto
    then show ?thesis
      by (simp only: seqs set_upt atLeastLessThan_iff)
  qed
  then show "\<exists>lo. map (\<lambda>g. unat (sequence_value (seg_sequence g))) gs = [lo..<length sub]
           \<and> (n < length sub \<longrightarrow> lo \<le> n)"
    using seqs by (intro exI [of _ ?lo]) (simp add: gs o_def pend_seq_def [abs_def])
qed

lemma begin_transition_flows:
  "SessionTracer_begin_transition s = Some (x, s') \<Longrightarrow> flows s' = flows s"
  using begin_transition_Err [of s _ s'] by (cases x) (auto simp: begin_transition_Ok_iff)

lemma complete_transition_flows [simp]: "flows (SessionTracer_complete_transition s) = flows s"
  by (simp add: SessionTracer_complete_transition_def)

lemma receiver_ok_frame:
  "receiver_ok fid n r \<Longrightarrow> tracer_inv r' \<Longrightarrow> flows r' = flows r \<Longrightarrow> receiver_ok fid n r'"
  by (simp add: receiver_ok_def)

lemma receiver_ok_inv: "receiver_ok fid n r \<Longrightarrow> tracer_inv r"
  by (simp add: receiver_ok_def)

lemma receiver_ok_delivered:
  assumes "receiver_ok fid n r" "receiver_delivered r fid t"
  shows "unat (sequence_value t) < n"
  using assms
  by (auto simp: receiver_ok_def receiver_delivered_def is_some_and_def less_Sequence_def word_less_nat_alt
      split: option.splits)

lemma link_send_inv:
  assumes "link_inv fid k" "link_step fid (LinkSend bs d) k = Some (u, k')"
  shows "link_inv fid k'"
proof (cases "SessionTracer_send (sender k) fid bs")
  case (Some x)
  then obtain r s where x: "SessionTracer_send (sender k) fid bs = Some (r, s)"
    by (cases x) auto
  show ?thesis
  proof (cases r)
    case (Inl e)
    then have "flows s = flows (sender k)"
      using send_Err x by fastforce
    moreover have "tracer_inv s"
      using tracer_inv_send [OF _ x] assms(1) by (simp add: link_inv_def sender_ok_def)
    ultimately show ?thesis
      using assms x Inl sender_ok_frame [of fid "submitted k"] by (auto simp: link_inv_def)
  next
    case (Inr segment)
    then obtain c where c: "InMemoryCarrier_transmit (carrier k) segment d = Some c"
      and k': "k' = k\<lparr>sender := s, carrier := c, submitted := submitted k @ [bs]\<rparr>"
      using assms(2) x by (auto split: option.splits)
    have snd: "sender_ok fid (submitted k @ [bs]) (length (delivered k)) s"
      "genuine fid (submitted k @ [bs]) segment"
      using send_link [of fid "submitted k"] assms(1) x Inr by (auto simp: link_inv_def)
    moreover have "\<forall>x \<in> set (scheduled c). genuine fid (submitted k @ [bs]) (sched_segment x)"
      using assms(1) snd(2)
      by (intro transmit_link [OF c]) (auto simp: link_inv_def list_all_iff genuine_append)
    ultimately show ?thesis
      using assms(1) by (auto simp: link_inv_def k' list_all_iff)
  qed
qed (use assms(2) in simp)

lemma link_advance_inv:
  assumes "link_inv fid k" "link_step fid (LinkAdvance ticks) k = Some (u, k')"
  shows "link_inv fid k'"
proof -
  obtain ready c where adv: "InMemoryCarrier_advance (carrier k) ticks = Some (ready, c)"
    using assms(2) by (auto split: option.splits)
  then have ready: "set ready \<subseteq> sched_segment ` set (scheduled (carrier k))"
    "set (scheduled c) \<subseteq> set (scheduled (carrier k))"
    by (auto simp: advance_Some_iff)
  have gen: "\<forall>g \<in> set ready. genuine fid (submitted k) g"
    using ready(1) assms(1) by (auto simp: link_inv_def list_all_iff)
  have ok: "receiver_ok fid (length (delivered k)) (receiver k)"
    "sender_ok fid (submitted k) (length (delivered k)) (sender k)"
    "length (delivered k) \<le> length (submitted k)"
    "delivered k = take (length (delivered k)) (submitted k)"
    using assms(1) by (auto simp: link_inv_def)
  obtain m r where rcv: "receive_all (receiver k) ready (delivered k) = Some (take m (submitted k), r)"
    "receiver_ok fid m r" "length (delivered k) \<le> m" "m \<le> length (submitted k)"
    using receive_all_genuine [OF ok(1) gen sender_ok_bound [OF ok(2)] ok(3,4)] by blast
  then have "k' = k\<lparr>carrier := c, receiver := r, delivered := take m (submitted k)\<rparr>"
    using assms(2) adv by simp
  then show ?thesis
    using rcv ready(2) assms(1) sender_ok_mono [OF ok(2) rcv(3)]
    by (auto simp: link_inv_def list_all_iff)
qed

lemma link_step_inv:
  assumes "link_inv fid k" "link_step fid op k = Some (u, k')"
  shows "link_inv fid k'"
proof (cases op)
  case (LinkSend bs d)
  then show ?thesis using assms link_send_inv by blast
next
  case (LinkAdvance ticks)
  then show ?thesis using assms link_advance_inv by blast
next
  case (LinkResume ds)
  have ok: "sender_ok fid (submitted k) (length (delivered k)) (sender k)"
    using assms(1) by (simp add: link_inv_def)
  show ?thesis
  proof (cases "SessionTracer_resume_unacknowledged (sender k) fid")
    case (Inr gs)
    then obtain c where c: "transmit_all (carrier k) (zip gs ds) = Some c" "k' = k\<lparr>carrier := c\<rparr>"
      using assms(2) LinkResume by (auto split: option.splits)
    have "\<forall>(g, d) \<in> set (zip gs ds). genuine fid (submitted k) g"
      using resume_segments(1) [OF ok Inr] by (auto dest: set_zip_leftD)
    from transmit_all_link [OF c(1) this] assms(1) show ?thesis
      by (simp add: link_inv_def c(2) list_all_iff)
  qed (use assms LinkResume in simp)
next
  case (LinkAcknowledge t)
  let ?ack = "\<lparr>ack_flow_id = fid, ack_epoch = SessionTracer_epoch (receiver k), ack_through = t\<rparr>"
  show ?thesis
  proof (cases "receiver_delivered (receiver k) fid t")
    case True
    then obtain r s where ack: "SessionTracer_acknowledge (sender k) ?ack = Some (r, s)"
      and k': "k' = k\<lparr>sender := s\<rparr>"
      using assms(2) LinkAcknowledge by (auto split: option.splits)
    have "unat (sequence_value t) < length (delivered k)"
      using True assms(1) receiver_ok_delivered by (auto simp: link_inv_def)
    then have "sender_ok fid (submitted k) (length (delivered k)) s"
      using acknowledge_link [OF _ _ _ ack] assms(1) by (simp add: link_inv_def)
    then show ?thesis
      using assms(1) by (simp add: link_inv_def k')
  qed (use assms LinkAcknowledge in simp)
next
  case LinkSenderBegin
  then show ?thesis
    using assms begin_transition_flows [of "sender k"] tracer_inv_begin_transition [of "sender k"]
    by (fastforce simp: link_inv_def sender_ok_def split: option.splits)
next
  case LinkReceiverBegin
  then show ?thesis
    using assms begin_transition_flows [of "receiver k"] tracer_inv_begin_transition [of "receiver k"]
    by (fastforce simp: link_inv_def receiver_ok_def split: option.splits)
next
  case LinkAvailable
  then show ?thesis
    using assms by (auto simp: link_inv_def InMemoryCarrier_set_available_def)
next
  case LinkSenderComplete
  then show ?thesis
    using assms sender_ok_frame [OF _ tracer_inv_complete [OF sender_ok_inv] complete_transition_flows]
    by (auto simp: link_inv_def)
next
  case LinkReceiverComplete
  then show ?thesis
    using assms receiver_ok_frame [OF _ tracer_inv_complete [OF receiver_ok_inv] complete_transition_flows]
    by (auto simp: link_inv_def)
qed

interpretation linked: invariant_system "link_step fid" "link_inv fid" for fid
  by unfold_locales (rule link_step_inv)

section \<open>Progress\<close>

lemma link_start_inv:
  assumes "link_start e ls lr = Some k"
  shows "link_inv (FlowId 0) k"
proof -
  obtain s r where new: "SessionTracer_new e ls = Some s" "SessionTracer_new e lr = Some r"
    and k: "k = \<lparr>sender = snd (SessionTracer_open_reliable_flow s),
        receiver = snd (SessionTracer_open_reliable_flow_with_id r (FlowId 0)),
        carrier = InMemoryCarrier_new, submitted = [], delivered = []\<rparr>"
    using assms by (auto simp: link_start_def split: option.splits)
  have fresh: "flows (snd (SessionTracer_open_reliable_flow_with_id x (FlowId 0))) = [(FlowId 0, new_flow)]"
    "snd (SessionTracer_open_reliable_flow x) = snd (SessionTracer_open_reliable_flow_with_id x (FlowId 0))"
    if "SessionTracer_new e l = Some x" for x l
    using that
    by (auto simp: SessionTracer_new_def SessionTracer_open_reliable_flow_with_id_def
        SessionTracer_open_reliable_flow_def limits_positive_def Let_def split: if_splits)
  have inv: "tracer_inv (snd (SessionTracer_open_reliable_flow_with_id x (FlowId 0)))"
    if "SessionTracer_new e l = Some x" for x l
    using tracer_inv_open_with_id [OF tracer_inv_new [OF that] prod.collapse [symmetric]] .
  show ?thesis
    using fresh(1) [OF new(1)] fresh(1) [OF new(2)] fresh(2) [OF new(1)] inv [OF new(1)] inv [OF new(2)]
    by (simp add: link_inv_def k sender_ok_def receiver_ok_def new_flow_def InMemoryCarrier_new_def)
qed

lemma transmit_all_deliver:
  "available c \<Longrightarrow> transmit_all c (map (\<lambda>g. (g, Deliver)) gs) =
     Some (c\<lparr>scheduled := scheduled c @ map (\<lambda>g. \<lparr>ready_at = car_tick c, sched_segment = g\<rparr>) gs\<rparr>)"
proof (induction gs arbitrary: c)
  case (Cons g gs)
  have "checked_add (car_tick c) 0 = Some (car_tick c)"
    by (simp add: checked_add_Some_iff)
  then have "InMemoryCarrier_transmit c g Deliver
      = Some (c\<lparr>scheduled := scheduled c @ [\<lparr>ready_at = car_tick c, sched_segment = g\<rparr>]\<rparr>)"
    using Cons.prems by (simp add: InMemoryCarrier_transmit_def InMemoryCarrier_schedule_def)
  then show ?case
    using Cons by simp
qed simp

lemma receive_all_append:
  "receive_all r (xs @ ys) out =
     (case receive_all r xs out of None \<Rightarrow> None | Some (out', r') \<Rightarrow> receive_all r' ys out')"
  by (induction r xs out rule: receive_all.induct) (auto split: option.splits)

text \<open>Stale genuine traffic first, then the retransmission: the delivery is complete.\<close>

lemma receive_retransmission:
  assumes r: "receiver_ok fid n r" "n \<le> length sub" "length sub < 2 ^ 64" "out = take n sub"
    and old: "\<forall>g \<in> set old. genuine fid sub g"
    and gs: "\<forall>g \<in> set gs. genuine fid sub g \<and> SessionTracer_require_valid_epoch r (seg_epoch g) = Ok ()"
      "map (\<lambda>g. unat (sequence_value (seg_sequence g))) gs = [lo..<length sub]"
      "n < length sub \<longrightarrow> lo \<le> n"
  shows "\<exists>r'. receive_all r (old @ gs) out = Some (sub, r')"
proof -
  obtain m r1 where one: "receive_all r old out = Some (take m sub, r1)" "receiver_ok fid m r1" "n \<le> m"
    "m \<le> length sub" "transition r1 = transition r"
    using receive_all_genuine [OF r(1) old r(3,2,4)] by blast
  have valid: "\<forall>g \<in> set gs. SessionTracer_require_valid_epoch r1 (seg_epoch g) = Ok ()"
    using gs(1) one(5) by (simp add: SessionTracer_require_valid_epoch_def)
  have gen: "\<forall>g \<in> set gs. genuine fid sub g"
    using gs(1) by blast
  have "\<exists>r'. receive_all r1 gs (take m sub) = Some (sub, r')"
  proof (cases "m = length sub")
    case True
    then show ?thesis
      using receive_all_genuine [OF one(2) gen r(3) one(4) refl] by auto
  next
    case False
    then have "lo \<le> m"
      using one(3,4) gs(3) by linarith
    from receive_all_complete [OF one(2) gen r(3) one(4) refl this gs(2) valid] show ?thesis .
  qed
  then show ?thesis
    using one(1) by (simp add: receive_all_append)
qed

lemma link_progress:
  assumes inv: "link_inv fid k" and av: "available (carrier k)"
    and epoch: "SessionTracer_require_valid_epoch (receiver k) (SessionTracer_epoch (sender k)) = Ok ()"
  shows "\<exists>k'. run (link_step fid) k
      [(LinkResume (replicate (length (submitted k)) Deliver), ()), (LinkAdvance 0, ())] k'
    \<and> delivered k' = submitted k \<and> submitted k' = submitted k"
proof -
  let ?c = "carrier k"
  have ok: "sender_ok fid (submitted k) (length (delivered k)) (sender k)"
    "receiver_ok fid (length (delivered k)) (receiver k)"
    "length (delivered k) \<le> length (submitted k)"
    "delivered k = take (length (delivered k)) (submitted k)"
    using inv by (simp_all add: link_inv_def)
  from ok(1) obtain flow where "bt_get (flows (sender k)) fid = Some flow"
    by (rule sender_okE)
  then obtain gs where gs: "SessionTracer_resume_unacknowledged (sender k) fid = Ok gs"
    by (simp add: SessionTracer_resume_unacknowledged_def)
  note res = resume_segments [OF ok(1) gs]
  obtain lo where lo: "map (\<lambda>g. unat (sequence_value (seg_sequence g))) gs = [lo..<length (submitted k)]"
    "length (delivered k) < length (submitted k) \<longrightarrow> lo \<le> length (delivered k)"
    using res(2) by blast
  have "length gs \<le> length (submitted k)"
    using arg_cong [OF lo(1), of length] by simp
  then have zip: "zip gs (replicate (length (submitted k)) Deliver) = map (\<lambda>g. (g, Deliver)) gs"
    by (simp add: zip_replicate2)
  let ?c1 = "?c\<lparr>scheduled := scheduled ?c @ map (\<lambda>g. \<lparr>ready_at = car_tick ?c, sched_segment = g\<rparr>) gs\<rparr>"
  have step1: "link_step fid (LinkResume (replicate (length (submitted k)) Deliver)) k = Some ((), k\<lparr>carrier := ?c1\<rparr>)"
    using gs zip transmit_all_deliver [OF av, of gs] by simp
  let ?old = "map sched_segment (filter (\<lambda>x. ready_at x \<le> car_tick ?c) (scheduled ?c))"
  obtain c2 where adv: "InMemoryCarrier_advance ?c1 0 = Some (?old @ gs, c2)"
  proof -
    have "checked_add (car_tick ?c) 0 = Some (car_tick ?c)"
      by (simp add: checked_add_Some_iff)
    then show ?thesis
      using that by (simp add: InMemoryCarrier_advance_def split_ready_eq filter_map o_def)
  qed
  have "\<forall>g \<in> set ?old. genuine fid (submitted k) g"
    using inv by (auto simp: link_inv_def list_all_iff)
  moreover have "\<forall>g \<in> set gs. genuine fid (submitted k) g
      \<and> SessionTracer_require_valid_epoch (receiver k) (seg_epoch g) = Ok ()"
    using res(1) epoch by simp
  ultimately obtain r' where "receive_all (receiver k) (?old @ gs) (delivered k) = Some (submitted k, r')"
    using receive_retransmission [OF ok(2,3) sender_ok_bound [OF ok(1)] ok(4)] lo by blast
  then have step2: "link_step fid (LinkAdvance 0) (k\<lparr>carrier := ?c1\<rparr>)
      = Some ((), k\<lparr>carrier := c2, receiver := r', delivered := submitted k\<rparr>)"
    using adv by simp
  have "run (link_step fid) k
      ([(LinkResume (replicate (length (submitted k)) Deliver), ())] @ [(LinkAdvance 0, ())])
      (k\<lparr>carrier := c2, receiver := r', delivered := submitted k\<rparr>)"
    by (rule run_snoc [OF run_one [of "link_step fid", OF step1] step2])
  then show ?thesis
    by (intro exI [of _ "k\<lparr>carrier := c2, receiver := r', delivered := submitted k\<rparr>"]) simp
qed

section \<open>Properties\<close>

text \<open>
  C1. End-to-end safety over a faulty carrier: whatever the carrier loses, duplicates, delays or
  reorders, whenever the two sides start and complete transitions, and whichever acknowledgements
  of delivered data arrive when, the receiver's application has seen a prefix of the payloads the
  sender's application submitted, and everything beyond that prefix is still retained by the
  sender.
\<close>

theorem end_to_end_prefix:
  assumes "link_start e ls lr = Some k0" and "run (link_step (FlowId 0)) k0 log k"
  shows "delivered k = take (length (delivered k)) (submitted k)
    \<and> length (delivered k) \<le> length (submitted k)
    \<and> (\<exists>retained. SessionTracer_pending (sender k) (FlowId 0) = Ok retained
        \<and> (\<forall>i \<in> {length (delivered k)..<length (submitted k)}.
             \<exists>g \<in> set retained. unat (sequence_value (seg_sequence g)) = i \<and> seg_bytes g = submitted k ! i))"
proof -
  have inv: "link_inv (FlowId 0) k"
    using linked.run_inv [OF assms(2) link_start_inv [OF assms(1)]] .
  then obtain flow where flow: "bt_get (flows (sender k)) (FlowId 0) = Some flow"
    "\<forall>p \<in> set (pending flow). genuine (FlowId 0) (submitted k) (pend_segment p)"
    "{length (delivered k)..<length (submitted k)} \<subseteq> pend_seq ` set (pending flow)"
    by (auto simp: link_inv_def elim: sender_okE)
  have "\<exists>g \<in> set (map pend_segment (pending flow)).
      unat (sequence_value (seg_sequence g)) = i \<and> seg_bytes g = submitted k ! i"
    if i: "i \<in> {length (delivered k)..<length (submitted k)}" for i
  proof -
    obtain p where "p \<in> set (pending flow)" "pend_seq p = i"
      using subsetD [OF flow(3) i] by auto
    then show ?thesis
      using flow(2) by (auto simp: genuine_def pend_seq_def)
  qed
  then show ?thesis
    using inv flow(1) by (auto simp: link_inv_def SessionTracer_pending_def)
qed

lemma demo_link_Some: "link_start (Epoch 1) demo_limits demo_limits = Some demo_link"
  by (simp add: demo_link_def link_start_def tracer_defs demo_limits_def)

lemma demo_link_run:
  "\<exists>k. run (link_step (FlowId 0)) demo_link (map (\<lambda>op. (op, ())) demo_link_ops) k
     \<and> submitted k = [[1], [2]] \<and> delivered k = [] \<and> available (carrier k)
     \<and> SessionTracer_require_valid_epoch (receiver k) (SessionTracer_epoch (sender k)) = Ok ()"
proof -
  have "\<exists>k. execute (link_step (FlowId 0)) demo_link demo_link_ops = Some (map (\<lambda>op. (op, ())) demo_link_ops, k)
     \<and> submitted k = [[1], [2]] \<and> delivered k = [] \<and> available (carrier k)
     \<and> SessionTracer_require_valid_epoch (receiver k) (SessionTracer_epoch (sender k)) = Ok ()"
    by (simp add: demo_link_def demo_link_ops_def link_start_def tracer_defs demo_limits_def Let_def
        InMemoryCarrier_new_def InMemoryCarrier_transmit_def InMemoryCarrier_schedule_def
        InMemoryCarrier_advance_def)
  then show ?thesis
    using execute_run by metis
qed

theorem end_to_end_prefix_witness:
  "\<exists>k. submitted k = [[1], [2]] \<and> delivered k = take (length (delivered k)) (submitted k)
     \<and> run (link_step (FlowId 0)) demo_link (map (\<lambda>op. (op, ())) demo_link_ops) k"
  using demo_link_run end_to_end_prefix [OF demo_link_Some] by metis

text \<open>
  C2. End-to-end progress: after any such history, if the carrier is available and the receiver
  admits the sender's current epoch, then retransmitting what is unacknowledged and letting the
  carrier hand it over never panics and leaves the receiver's application with exactly the
  payloads submitted.
\<close>

theorem end_to_end_recovery:
  assumes "link_start e ls lr = Some k0" and "run (link_step (FlowId 0)) k0 log k"
    and "available (carrier k)"
    and "SessionTracer_require_valid_epoch (receiver k) (SessionTracer_epoch (sender k)) = Ok ()"
  shows "\<exists>k'. run (link_step (FlowId 0)) k
      [(LinkResume (replicate (length (submitted k)) Deliver), ()), (LinkAdvance 0, ())] k'
    \<and> delivered k' = submitted k \<and> submitted k' = submitted k"
  using link_progress [OF linked.run_inv [OF assms(2) link_start_inv [OF assms(1)]] assms(3,4)] .

theorem end_to_end_recovery_witness:
  "\<exists>k k'. run (link_step (FlowId 0)) demo_link (map (\<lambda>op. (op, ())) demo_link_ops) k
     \<and> delivered k = []
     \<and> run (link_step (FlowId 0)) k
         [(LinkResume (replicate (length (submitted k)) Deliver), ()), (LinkAdvance 0, ())] k'
     \<and> delivered k' = [[1], [2]]"
proof -
  obtain k where k: "run (link_step (FlowId 0)) demo_link (map (\<lambda>op. (op, ())) demo_link_ops) k"
    "submitted k = [[1], [2]]" "delivered k = []" "available (carrier k)"
    "SessionTracer_require_valid_epoch (receiver k) (SessionTracer_epoch (sender k)) = Ok ()"
    using demo_link_run by (elim exE conjE)
  from end_to_end_recovery [OF demo_link_Some k(1,4,5)] k show ?thesis
    by metis
qed

end
