(* ===== verification/Wire_Reader.thy ===== *)
theory Wire_Reader
  imports Velum_Prelude
begin

text \<open>
  The cursor both wire decoders read their input with (\<^verbatim>\<open>struct Reader\<close> of \<^verbatim>\<open>frame.rs\<close> and of
  \<^verbatim>\<open>datagram.rs\<close> in \<^verbatim>\<open>crates/velum-protocol/src\<close>): a byte slice and an offset. A reading
  function returns an error or a value with the advanced cursor; \<open>rd_bind\<close> is the \<^verbatim>\<open>?\<close> operator
  between two readings.

  The locale \<open>wire_codec\<close> is the contract between the writer of a field and its reader: the
  reader accepts exactly the bytes the writer emits, followed by anything, and moves the cursor
  behind them. Its two laws are the two directions of the round trip; \<open>bind_enc\<close> lets the
  simplifier run a decoder over the bytes of an encoder, \<open>bind_iff\<close> inverts a decoder that
  succeeded, field by field.
\<close>

record reader =
  rd_bytes :: bytes
  rd_offset :: nat

type_synonym ('e, 'a) reading = "reader \<Rightarrow> 'e + ('a \<times> reader)"

definition Reader_new :: "bytes \<Rightarrow> reader" where
  "Reader_new bs = \<lparr>rd_bytes = bs, rd_offset = 0\<rparr>"

text \<open>Rust's \<^verbatim>\<open>slice.get(i..j)\<close>.\<close>

definition slice_get :: "'a list \<Rightarrow> nat \<Rightarrow> nat \<Rightarrow> 'a list option" where
  "slice_get xs i j = (if i \<le> j \<and> j \<le> length xs then Some (take (j - i) (drop i xs)) else None)"

definition rd_bind ::
  "('e, 'a) reading \<Rightarrow> ('a \<Rightarrow> ('e, 'b) reading) \<Rightarrow> ('e, 'b) reading" where
  "rd_bind m f r = and_then (m r) (\<lambda>(a, r'). f a r')"

definition rd_return :: "'a \<Rightarrow> ('e, 'a) reading" where
  "rd_return a r = Ok (a, r)"

definition rd_lift :: "('e, 'a) result \<Rightarrow> ('e, 'a) reading" where
  "rd_lift x r = and_then x (\<lambda>a. Ok (a, r))"

text \<open>
  \<open>rd_fixed err n\<close> reads the next \<open>n\<close> bytes: \<^verbatim>\<open>Reader::array\<close> (and \<^verbatim>\<open>take\<close>, \<^verbatim>\<open>take_slice\<close>), whose
  only difference is the error they report.
\<close>

definition rd_fixed :: "'e \<Rightarrow> nat \<Rightarrow> ('e, bytes) reading" where
  "rd_fixed err n r =
     and_then (ok_or (usize_checked_add (rd_offset r) n) err) (\<lambda>stop.
       and_then (ok_or (slice_get (rd_bytes r) (rd_offset r) stop) err) (\<lambda>slice.
         Ok (slice, r\<lparr>rd_offset := stop\<rparr>)))"

definition rd_remaining :: "reader \<Rightarrow> bytes" where
  "rd_remaining r = drop (rd_offset r) (rd_bytes r)"

definition rd_take_remaining :: "('e, bytes) reading" where
  "rd_take_remaining r = Ok (rd_remaining r, r\<lparr>rd_offset := length (rd_bytes r)\<rparr>)"

text \<open>The cursor standing between the bytes already read and the bytes to come.\<close>

definition rd_at :: "bytes \<Rightarrow> bytes \<Rightarrow> reader" where
  "rd_at pre rest = \<lparr>rd_bytes = pre @ rest, rd_offset = length pre\<rparr>"

definition rd_small :: "bytes \<Rightarrow> bool" where
  "rd_small bs = (length bs < 2 ^ 64)"

named_theorems rd_simps \<open>running readings\<close>

lemma Reader_new_at: "Reader_new bs = rd_at [] bs"
  by (simp add: Reader_new_def rd_at_def)

lemma rd_remaining_at [simp, rd_simps]: "rd_remaining (rd_at pre rest) = rest"
  by (simp add: rd_remaining_def rd_at_def)

lemma rd_take_remaining_at [simp, rd_simps]:
  "rd_take_remaining (rd_at pre rest) = Ok (rest, rd_at (pre @ rest) [])"
  by (simp add: rd_take_remaining_def rd_remaining_def rd_at_def)

lemma rd_return_app [simp, rd_simps]: "rd_return a r = Ok (a, r)"
  by (simp add: rd_return_def)

lemma rd_lift_Ok_iff [rd_simps]: "rd_lift x r = Ok (a, r') \<longleftrightarrow> x = Ok a \<and> r' = r"
  by (auto simp: rd_lift_def result_simps)

lemma rd_bind_Ok_iff: "rd_bind m f r = Ok z \<longleftrightarrow> (\<exists>a r'. m r = Ok (a, r') \<and> f a r' = Ok z)"
  by (auto simp: rd_bind_def result_simps split: prod.splits)

lemma rd_bind_take_remaining [rd_simps]:
  "rd_bind rd_take_remaining f (rd_at pre rest) = f rest (rd_at (pre @ rest) [])"
  by (simp add: rd_bind_def)

lemma rd_bind_lift_Ok_iff [rd_simps]:
  "rd_bind (rd_lift x) f r = Ok z \<longleftrightarrow> (\<exists>a. x = Ok a \<and> f a r = Ok z)"
  by (auto simp: rd_bind_Ok_iff rd_lift_Ok_iff)

lemma rd_bind_lift_Ok [simp]: "rd_bind (rd_lift (Ok a)) f r = f a r"
  by (simp add: rd_bind_def rd_lift_def)

lemma rd_fixed_at_iff:
  assumes "rd_small (pre @ rest)"
  shows "rd_fixed err n (rd_at pre rest) = Ok (x, r')
    \<longleftrightarrow> length x = n \<and> (\<exists>rest'. rest = x @ rest' \<and> r' = rd_at (pre @ x) rest')"
proof (cases "n \<le> length rest")
  case True
  have "length pre + n < 2 ^ 64"
    using True assms by (simp add: rd_small_def)
  then have "rd_fixed err n (rd_at pre rest) = Ok (take n rest, rd_at (pre @ take n rest) (drop n rest))"
    using True by (simp add: rd_fixed_def rd_at_def slice_get_def usize_checked_add_def)
  then show ?thesis
    using True by (auto intro: exI [of _ "drop n rest"])
next
  case False
  then have "rd_fixed err n (rd_at pre rest) \<noteq> Ok (x, r')"
    by (auto simp: rd_fixed_def rd_at_def slice_get_def result_simps split: if_splits)
  with False show ?thesis by auto
qed

section \<open>The codec contract\<close>

locale wire_codec =
  fixes enc :: "'a \<Rightarrow> bytes"
    and dec :: "('e, 'a) reading"
    and wf :: "'a \<Rightarrow> bool"
  assumes dec_enc: "wf x \<Longrightarrow> rd_small (pre @ enc x @ rest)
      \<Longrightarrow> dec (rd_at pre (enc x @ rest)) = Ok (x, rd_at (pre @ enc x) rest)"
    and dec_sound: "rd_small (pre @ rest) \<Longrightarrow> dec (rd_at pre rest) = Ok (x, r')
      \<Longrightarrow> wf x \<and> (\<exists>rest'. rest = enc x @ rest' \<and> r' = rd_at (pre @ enc x) rest')"
begin

lemma dec_iff: "rd_small (pre @ rest) \<Longrightarrow> dec (rd_at pre rest) = Ok (x, r')
    \<longleftrightarrow> wf x \<and> (\<exists>rest'. rest = enc x @ rest' \<and> r' = rd_at (pre @ enc x) rest')"
  using dec_enc [of x pre] dec_sound [of pre rest x r'] by auto

lemma dec_wf: "rd_small (pre @ rest) \<Longrightarrow> dec (rd_at pre rest) = Ok (x, r') \<Longrightarrow> wf x"
  by (simp add: dec_iff)

text \<open>Two encodings at the same place are the same value: the format is prefix-free.\<close>

lemma enc_prefix_free:
  assumes "wf x" "wf y" "enc x @ a = enc y @ b" "length (enc x @ a) < 2 ^ 64"
  shows "x = y \<and> a = b"
proof -
  have "dec (rd_at [] (enc x @ a)) = Ok (x, rd_at (enc x) a)"
    using assms dec_enc [of x "[]" a] by (simp add: rd_small_def)
  moreover have "dec (rd_at [] (enc y @ b)) = Ok (y, rd_at (enc y) b)"
    using assms dec_enc [of y "[]" b] by (simp add: rd_small_def)
  ultimately have "x = y"
    using assms(3) by simp
  with assms(3) show ?thesis by simp
qed

lemma bind_iff:
  assumes "rd_small (pre @ rest)"
  shows "rd_bind dec f (rd_at pre rest) = Ok z
    \<longleftrightarrow> (\<exists>x rest'. wf x \<and> rest = enc x @ rest' \<and> f x (rd_at (pre @ enc x) rest') = Ok z)"
  using assms by (auto simp: rd_bind_Ok_iff dec_iff)

lemma bind_enc:
  assumes "wf x" "rd_small (pre @ enc x @ rest)"
  shows "rd_bind dec f (rd_at pre (enc x @ rest)) = f x (rd_at (pre @ enc x) rest)"
  using assms by (simp add: rd_bind_def dec_enc)

lemma bind_enc_last:
  assumes "wf x" "rd_small (pre @ enc x)"
  shows "rd_bind dec f (rd_at pre (enc x)) = f x (rd_at (pre @ enc x) [])"
  using bind_enc [of x pre "[]" f] assms by simp

end

interpretation fixed: wire_codec "\<lambda>x. x" "rd_fixed err n" "\<lambda>x. length x = n" for err n
  by unfold_locales (simp_all add: rd_fixed_at_iff)

end
