(* ===== verification/Wire_Frame.thy ===== *)
theory Wire_Frame
  imports Wire_Types Wire_Reader
begin

text \<open>
  The bounded canonical frame codec of \<^verbatim>\<open>crates/velum-protocol/src/frame.rs\<close>: the frame type, the
  encoder, the exact decoder and the field readers. Each field reader is shown to satisfy the
  codec contract \<open>wire_codec\<close> for its writer, and the frame-level theorems follow from the
  field laws: \<open>decode_payload_iff\<close> characterises the decoder completely.
\<close>

unbundle bit_operations_syntax

section \<open>Constants and data\<close>

abbreviation FRAME_HEADER_BYTES :: nat where "FRAME_HEADER_BYTES \<equiv> 4"
abbreviation MAX_FRAME_PAYLOAD :: nat where "MAX_FRAME_PAYLOAD \<equiv> 65535"

definition NEGOTIATION_OFFER :: u8 where "NEGOTIATION_OFFER = 0x01"
definition NEGOTIATION_ACCEPT :: u8 where "NEGOTIATION_ACCEPT = 0x02"
definition ATTACH :: u8 where "ATTACH = 0x03"
definition ATTACH_ACCEPTED :: u8 where "ATTACH_ACCEPTED = 0x04"
definition STREAM_OPEN :: u8 where "STREAM_OPEN = 0x10"
definition STREAM_DATA :: u8 where "STREAM_DATA = 0x11"
definition STREAM_ACK :: u8 where "STREAM_ACK = 0x12"
definition STREAM_FINISH :: u8 where "STREAM_FINISH = 0x13"
definition STREAM_RESET :: u8 where "STREAM_RESET = 0x14"
definition CONNECTION_CLOSE :: u8 where "CONNECTION_CLOSE = 0x20"
definition OPTIONAL_FRAME_BIT :: u8 where "OPTIONAL_FRAME_BIT = 0x80"

lemmas frame_type_defs = NEGOTIATION_OFFER_def NEGOTIATION_ACCEPT_def ATTACH_def
  ATTACH_ACCEPTED_def STREAM_OPEN_def STREAM_DATA_def STREAM_ACK_def STREAM_FINISH_def
  STREAM_RESET_def CONNECTION_CLOSE_def OPTIONAL_FRAME_BIT_def

datatype Frame =
    Frame_NegotiationOffer NegotiationOffer
  | Frame_NegotiationAccept NegotiatedParameters
  | Frame_Attach SessionId Epoch AttachmentId NegotiatedParameters bytes
  | Frame_AttachAccepted SessionId Epoch AttachmentId
  | Frame_StreamOpen FlowId
  | Frame_StreamData FlowId Epoch Sequence bytes
  | Frame_StreamAcknowledgement FlowId Epoch Sequence
  | Frame_StreamFinish FlowId Epoch Sequence
  | Frame_StreamReset FlowId ProtocolErrorCode
  | Frame_ConnectionClose ProtocolErrorCode
  | Frame_UnknownOptional u8 bytes

datatype FrameEncodeError =
    EncodePayloadTooLarge nat nat
  | EncodeEmptyStreamData
  | InvalidOptionalFrameType u8

datatype FrameDecodeError =
    TruncatedHeader
  | LengthMismatch nat nat
  | PayloadTooLarge nat nat
  | UnknownMandatoryFrame u8
  | EmptyStreamData
  | InvalidPayload

section \<open>Field writers\<close>

definition push_version_range :: "bytes \<Rightarrow> VersionRange \<Rightarrow> bytes" where
  "push_version_range bs r = bs @ u16_to_be_bytes (minimum r) @ u16_to_be_bytes (maximum r)"

definition push_capabilities :: "bytes \<Rightarrow> Capabilities \<Rightarrow> bytes" where
  "push_capabilities bs c = bs @ u64_to_be_bytes (capability_bits c)"

definition push_u64 :: "bytes \<Rightarrow> u64 \<Rightarrow> bytes" where
  "push_u64 bs v = bs @ u64_to_be_bytes v"

definition push_flow_id :: "bytes \<Rightarrow> FlowId \<Rightarrow> bytes" where
  "push_flow_id bs f = push_u64 bs (flow_id_value f)"

definition push_epoch :: "bytes \<Rightarrow> Epoch \<Rightarrow> bytes" where
  "push_epoch bs e = push_u64 bs (epoch_value e)"

definition push_sequence :: "bytes \<Rightarrow> Sequence \<Rightarrow> bytes" where
  "push_sequence bs s = push_u64 bs (sequence_value s)"

definition push_error :: "bytes \<Rightarrow> ProtocolErrorCode \<Rightarrow> bytes" where
  "push_error bs e = bs @ u16_to_be_bytes (ProtocolErrorCode_as_u16 e)"

lemmas push_defs = push_version_range_def push_capabilities_def push_u64_def push_flow_id_def
  push_epoch_def push_sequence_def push_error_def

section \<open>Encoder\<close>

fun Frame_encode_payload :: "Frame \<Rightarrow> (FrameEncodeError, u8 \<times> bytes) result" where
  "Frame_encode_payload (Frame_NegotiationOffer offer) =
     (let payload = push_version_range [] (versions offer);
          payload = push_capabilities payload (required (offer_capabilities offer));
          payload = push_capabilities payload (optional (offer_capabilities offer));
          payload = payload @ HandshakeNonce_bytes (offer_client_nonce offer)
      in Ok (NEGOTIATION_OFFER, payload))"
| "Frame_encode_payload (Frame_NegotiationAccept params) =
     Ok (NEGOTIATION_ACCEPT, NegotiatedParameters_canonical_bytes params)"
| "Frame_encode_payload (Frame_Attach sid ep aid params prf) =
     (let payload = session_id_bytes sid;
          payload = push_epoch payload ep;
          payload = payload @ AttachmentId_bytes aid;
          payload = payload @ NegotiatedParameters_canonical_bytes params;
          payload = payload @ prf
      in Ok (ATTACH, payload))"
| "Frame_encode_payload (Frame_AttachAccepted sid ep aid) =
     (let payload = session_id_bytes sid;
          payload = push_epoch payload ep;
          payload = payload @ AttachmentId_bytes aid
      in Ok (ATTACH_ACCEPTED, payload))"
| "Frame_encode_payload (Frame_StreamOpen fid) = Ok (STREAM_OPEN, push_flow_id [] fid)"
| "Frame_encode_payload (Frame_StreamData fid ep sq bs) =
     (if bs = [] then Err EncodeEmptyStreamData
      else
        let payload = push_flow_id [] fid;
            payload = push_epoch payload ep;
            payload = push_sequence payload sq;
            payload = payload @ bs
        in Ok (STREAM_DATA, payload))"
| "Frame_encode_payload (Frame_StreamAcknowledgement fid ep through) =
     (let payload = push_flow_id [] fid;
          payload = push_epoch payload ep;
          payload = push_sequence payload through
      in Ok (STREAM_ACK, payload))"
| "Frame_encode_payload (Frame_StreamFinish fid ep final_next) =
     (let payload = push_flow_id [] fid;
          payload = push_epoch payload ep;
          payload = push_sequence payload final_next
      in Ok (STREAM_FINISH, payload))"
| "Frame_encode_payload (Frame_StreamReset fid err) =
     (let payload = push_flow_id [] fid; payload = push_error payload err
      in Ok (STREAM_RESET, payload))"
| "Frame_encode_payload (Frame_ConnectionClose err) = Ok (CONNECTION_CLOSE, push_error [] err)"
| "Frame_encode_payload (Frame_UnknownOptional ty unknown_payload) =
     (if ty AND OPTIONAL_FRAME_BIT = 0 then Err (InvalidOptionalFrameType ty)
      else Ok (ty, unknown_payload))"

definition u16_try_from :: "nat \<Rightarrow> u16 option" where
  "u16_try_from n = (if n < 2 ^ 16 then Some (word_of_nat n) else None)"

definition Frame_encode :: "Frame \<Rightarrow> (FrameEncodeError, bytes) result" where
  "Frame_encode self =
     and_then (Frame_encode_payload self) (\<lambda>(frame_type, payload).
       if length payload > MAX_FRAME_PAYLOAD
       then Err (EncodePayloadTooLarge MAX_FRAME_PAYLOAD (length payload))
       else
         and_then (ok_or (u16_try_from (length payload))
             (EncodePayloadTooLarge MAX_FRAME_PAYLOAD (length payload))) (\<lambda>payload_length.
           Ok ([frame_type] @ [0] @ u16_to_be_bytes payload_length @ payload)))"

section \<open>Field readers\<close>

type_synonym 'a frame_reading = "(FrameDecodeError, 'a) reading"

definition Reader_array :: "nat \<Rightarrow> bytes frame_reading" where
  "Reader_array n = rd_fixed InvalidPayload n"

definition Reader_u16 :: "u16 frame_reading" where
  "Reader_u16 = rd_bind (Reader_array 2) (\<lambda>bs. rd_return (u16_from_be_bytes bs))"

definition Reader_u64 :: "u64 frame_reading" where
  "Reader_u64 = rd_bind (Reader_array 8) (\<lambda>bs. rd_return (u64_from_be_bytes bs))"

definition Reader_version_range :: "VersionRange frame_reading" where
  "Reader_version_range =
     rd_bind Reader_u16 (\<lambda>mn. rd_bind Reader_u16 (\<lambda>mx.
       rd_lift (map_err (\<lambda>_. InvalidPayload) (VersionRange_new mn mx))))"

definition Reader_capabilities :: "Capabilities frame_reading" where
  "Reader_capabilities = rd_bind Reader_u64 (\<lambda>w. rd_return (Capabilities w))"

definition Reader_nonce :: "HandshakeNonce frame_reading" where
  "Reader_nonce = rd_bind (Reader_array 16) (\<lambda>bs.
     rd_lift (map_err (\<lambda>_. InvalidPayload) (HandshakeNonce_new bs)))"

definition Reader_attachment_id :: "AttachmentId frame_reading" where
  "Reader_attachment_id = rd_bind (Reader_array 16) (\<lambda>bs.
     rd_lift (map_err (\<lambda>_. InvalidPayload) (AttachmentId_new bs)))"

definition Reader_parameters :: "NegotiatedParameters frame_reading" where
  "Reader_parameters =
     rd_bind Reader_u16 (\<lambda>v. rd_bind Reader_capabilities (\<lambda>c.
     rd_bind Reader_nonce (\<lambda>cn. rd_bind Reader_nonce (\<lambda>sn.
       rd_return \<lparr>version = v, capabilities = c, client_nonce = cn, server_nonce = sn\<rparr>))))"

definition Reader_error :: "ProtocolErrorCode frame_reading" where
  "Reader_error = rd_bind Reader_u16 (\<lambda>w. rd_return (ProtocolErrorCode_from_u16 w))"

section \<open>Decoder\<close>

definition Reader_negotiation_offer :: "Frame frame_reading" where
  "Reader_negotiation_offer =
     rd_bind Reader_version_range (\<lambda>vs. rd_bind Reader_capabilities (\<lambda>req.
     rd_bind Reader_capabilities (\<lambda>opt. rd_bind Reader_nonce (\<lambda>cn.
     rd_bind (rd_lift (map_err (\<lambda>_. InvalidPayload) (CapabilityAdvertisement_new req opt))) (\<lambda>caps.
     rd_bind (rd_lift (map_err (\<lambda>_. InvalidPayload) (NegotiationOffer_new vs caps cn))) (\<lambda>offer.
       rd_return (Frame_NegotiationOffer offer)))))))"

definition Frame_body_reader :: "u8 \<Rightarrow> Frame frame_reading" where
  "Frame_body_reader frame_type =
     (if frame_type = NEGOTIATION_OFFER then Reader_negotiation_offer
      else if frame_type = NEGOTIATION_ACCEPT then
        rd_bind Reader_parameters (\<lambda>p. rd_return (Frame_NegotiationAccept p))
      else if frame_type = ATTACH then
        rd_bind (Reader_array 16) (\<lambda>sid. rd_bind Reader_u64 (\<lambda>ep.
        rd_bind Reader_attachment_id (\<lambda>aid. rd_bind Reader_parameters (\<lambda>p.
        rd_bind (Reader_array 32) (\<lambda>prf.
          rd_return (Frame_Attach (SessionId sid) (Epoch ep) aid p prf))))))
      else if frame_type = ATTACH_ACCEPTED then
        rd_bind (Reader_array 16) (\<lambda>sid. rd_bind Reader_u64 (\<lambda>ep.
        rd_bind Reader_attachment_id (\<lambda>aid.
          rd_return (Frame_AttachAccepted (SessionId sid) (Epoch ep) aid))))
      else if frame_type = STREAM_OPEN then
        rd_bind Reader_u64 (\<lambda>fid. rd_return (Frame_StreamOpen (FlowId fid)))
      else if frame_type = STREAM_DATA then
        rd_bind Reader_u64 (\<lambda>fid. rd_bind Reader_u64 (\<lambda>ep. rd_bind Reader_u64 (\<lambda>sq.
        rd_bind rd_take_remaining (\<lambda>bs.
          if bs = [] then (\<lambda>_. Err EmptyStreamData)
          else rd_return (Frame_StreamData (FlowId fid) (Epoch ep) (Sequence sq) bs)))))
      else if frame_type = STREAM_ACK then
        rd_bind Reader_u64 (\<lambda>fid. rd_bind Reader_u64 (\<lambda>ep. rd_bind Reader_u64 (\<lambda>sq.
          rd_return (Frame_StreamAcknowledgement (FlowId fid) (Epoch ep) (Sequence sq)))))
      else if frame_type = STREAM_FINISH then
        rd_bind Reader_u64 (\<lambda>fid. rd_bind Reader_u64 (\<lambda>ep. rd_bind Reader_u64 (\<lambda>sq.
          rd_return (Frame_StreamFinish (FlowId fid) (Epoch ep) (Sequence sq)))))
      else if frame_type = STREAM_RESET then
        rd_bind Reader_u64 (\<lambda>fid. rd_bind Reader_error (\<lambda>err.
          rd_return (Frame_StreamReset (FlowId fid) err)))
      else if frame_type = CONNECTION_CLOSE then
        rd_bind Reader_error (\<lambda>err. rd_return (Frame_ConnectionClose err))
      else if frame_type AND OPTIONAL_FRAME_BIT \<noteq> 0 then
        rd_bind rd_take_remaining (\<lambda>bs. rd_return (Frame_UnknownOptional frame_type bs))
      else (\<lambda>_. Err (UnknownMandatoryFrame frame_type)))"

definition Frame_decode_payload :: "u8 \<Rightarrow> bytes \<Rightarrow> (FrameDecodeError, Frame) result" where
  "Frame_decode_payload frame_type payload =
     and_then (Frame_body_reader frame_type (Reader_new payload)) (\<lambda>(frame, r).
       if rd_remaining r = [] then Ok frame else Err InvalidPayload)"

definition Frame_decode_exact :: "bytes \<Rightarrow> nat \<Rightarrow> (FrameDecodeError, Frame) result" where
  "Frame_decode_exact bs maximum_payload =
     (if length bs < FRAME_HEADER_BYTES then Err TruncatedHeader
      else
        let advertised = unat (u16_from_be_bytes [bs ! 2, bs ! 3]) in
        if advertised > maximum_payload then Err (PayloadTooLarge maximum_payload advertised)
        else
          let actual = length bs - FRAME_HEADER_BYTES in
          if actual \<noteq> advertised then Err (LengthMismatch advertised actual)
          else if bs ! 1 \<noteq> 0 then Err InvalidPayload
          else Frame_decode_payload (bs ! 0) (drop FRAME_HEADER_BYTES bs))"

text \<open>
  What the Rust types of a frame's fields guarantee: array lengths, non-zero identifiers, an
  offer built by its constructor, and an error code that does not alias an assigned one.
\<close>

fun wf_frame :: "Frame \<Rightarrow> bool" where
  "wf_frame (Frame_NegotiationOffer offer) = wf_offer offer"
| "wf_frame (Frame_NegotiationAccept p) = wf_parameters p"
| "wf_frame (Frame_Attach sid ep aid p prf) =
     (wf_session_id sid \<and> wf_attachment_id aid \<and> wf_parameters p \<and> length prf = 32)"
| "wf_frame (Frame_AttachAccepted sid ep aid) = (wf_session_id sid \<and> wf_attachment_id aid)"
| "wf_frame (Frame_StreamReset fid err) = wf_code err"
| "wf_frame (Frame_ConnectionClose err) = wf_code err"
| "wf_frame (Frame_UnknownOptional ty payload) = True"
| "wf_frame _ = True"

section \<open>The field codecs\<close>

interpretation array: wire_codec "\<lambda>x. x" "Reader_array n" "\<lambda>x. length x = n" for n
  unfolding Reader_array_def by unfold_locales

interpretation u16c: wire_codec u16_to_be_bytes Reader_u16 "\<lambda>_. True"
  unfolding Reader_u16_def
  by unfold_locales (auto simp: array.bind_enc array.bind_iff)

interpretation u64c: wire_codec u64_to_be_bytes Reader_u64 "\<lambda>_. True"
  unfolding Reader_u64_def
  by unfold_locales (auto simp: array.bind_enc array.bind_iff)

interpretation capsc: wire_codec "\<lambda>c. u64_to_be_bytes (capability_bits c)" Reader_capabilities
  "\<lambda>_. True"
  unfolding Reader_capabilities_def
  by unfold_locales (auto simp: u64c.bind_enc u64c.bind_iff)

interpretation codec: wire_codec "\<lambda>c. u16_to_be_bytes (ProtocolErrorCode_as_u16 c)" Reader_error
  wf_code
  unfolding Reader_error_def
  by unfold_locales (auto simp: u16c.bind_enc u16c.bind_iff wf_code_roundtrip)

interpretation noncec: wire_codec HandshakeNonce_bytes Reader_nonce wf_nonce
  unfolding Reader_nonce_def
  by unfold_locales (auto simp: array.bind_enc array.bind_iff rd_simps result_simps wf_nonce_def)

interpretation aidc: wire_codec AttachmentId_bytes Reader_attachment_id wf_attachment_id
  unfolding Reader_attachment_id_def
  by unfold_locales
    (auto simp: array.bind_enc array.bind_iff rd_simps result_simps wf_attachment_id_def)

interpretation vrange: wire_codec "\<lambda>r. u16_to_be_bytes (minimum r) @ u16_to_be_bytes (maximum r)"
  Reader_version_range VersionRange_is_valid
  unfolding Reader_version_range_def
  by unfold_locales
    (auto simp: u16c.bind_enc u16c.bind_iff rd_simps result_simps VersionRange_new_def
      VersionRange_is_valid_def split: if_splits)

lemma Reader_parameters_enc:
  assumes "wf_parameters p" "rd_small (pre @ NegotiatedParameters_canonical_bytes p @ rest)"
  shows "Reader_parameters (rd_at pre (NegotiatedParameters_canonical_bytes p @ rest))
    = Ok (p, rd_at (pre @ NegotiatedParameters_canonical_bytes p) rest)"
  using assms unfolding Reader_parameters_def
  by (simp add: canonical_bytes_concat wf_parameters_def u16c.bind_enc capsc.bind_enc
      noncec.bind_enc)

lemma Reader_parameters_sound:
  assumes "rd_small (pre @ rest)" "Reader_parameters (rd_at pre rest) = Ok (p, r')"
  shows "wf_parameters p \<and> (\<exists>rest'. rest = NegotiatedParameters_canonical_bytes p @ rest'
    \<and> r' = rd_at (pre @ NegotiatedParameters_canonical_bytes p) rest')"
  using assms unfolding Reader_parameters_def
  by (auto simp: canonical_bytes_concat wf_parameters_def u16c.bind_iff capsc.bind_iff
      noncec.bind_iff)

interpretation params: wire_codec NegotiatedParameters_canonical_bytes Reader_parameters
  wf_parameters
  by unfold_locales (rule Reader_parameters_enc Reader_parameters_sound; assumption)+

lemmas field_bind_iff = array.bind_iff u16c.bind_iff u64c.bind_iff capsc.bind_iff codec.bind_iff
  noncec.bind_iff aidc.bind_iff vrange.bind_iff params.bind_iff

lemmas field_bind_enc = array.bind_enc u16c.bind_enc u64c.bind_enc capsc.bind_enc codec.bind_enc
  noncec.bind_enc aidc.bind_enc vrange.bind_enc [unfolded append_assoc] params.bind_enc

lemmas field_bind_enc_last = array.bind_enc_last u64c.bind_enc_last codec.bind_enc_last
  noncec.bind_enc_last aidc.bind_enc_last params.bind_enc_last

section \<open>The payload codec\<close>

lemma optional_type_not_assigned:
  assumes "ty AND OPTIONAL_FRAME_BIT \<noteq> 0"
  shows "ty \<noteq> NEGOTIATION_OFFER" "ty \<noteq> NEGOTIATION_ACCEPT" "ty \<noteq> ATTACH" "ty \<noteq> ATTACH_ACCEPTED"
    "ty \<noteq> STREAM_OPEN" "ty \<noteq> STREAM_DATA" "ty \<noteq> STREAM_ACK" "ty \<noteq> STREAM_FINISH"
    "ty \<noteq> STREAM_RESET" "ty \<noteq> CONNECTION_CLOSE"
  using assms by (auto simp: frame_type_defs)

lemma Frame_decode_payload_alt:
  "Frame_decode_payload ty payload = Ok f
     \<longleftrightarrow> (\<exists>r. Frame_body_reader ty (rd_at [] payload) = Ok (f, r) \<and> rd_remaining r = [])"
  by (auto simp: Frame_decode_payload_def Reader_new_at result_simps split: if_splits prod.splits)

lemma Frame_decode_payload_complete:
  assumes "wf_frame f" "Frame_encode_payload f = Ok (ty, payload)" "length payload < 2 ^ 64"
  shows "Frame_decode_payload ty payload = Ok f"
proof -
  have small: "rd_small payload"
    using assms(3) by (simp add: rd_small_def)
  have "Frame_body_reader ty (rd_at [] payload) = Ok (f, rd_at payload [])"
  proof (cases f)
    case (Frame_NegotiationOffer offer)
    let ?caps = "offer_capabilities offer"
    have "CapabilityAdvertisement_new (required ?caps) (optional ?caps) = Ok ?caps"
      "NegotiationOffer_new (versions offer) ?caps (offer_client_nonce offer) = Ok offer"
      using assms(1) Frame_NegotiationOffer
      by (simp_all add: CapabilityAdvertisement_new_def wf_offer_iff NegotiationOffer_new_Ok_iff)
    then show ?thesis
      using assms(1,2) small Frame_NegotiationOffer
      by (auto simp: Frame_body_reader_def Reader_negotiation_offer_def push_defs field_bind_enc
          field_bind_enc_last wf_offer_iff)
  next
    case (Frame_StreamData fid ep sq bs)
    then show ?thesis
      using assms(1,2) small
      by (cases fid; cases ep; cases sq)
        (auto simp: Frame_body_reader_def frame_type_defs push_defs field_bind_enc rd_simps
          split: if_splits)
  next
    case (Frame_UnknownOptional uty up)
    then show ?thesis
      using assms(2) optional_type_not_assigned [of uty]
      by (auto simp: Frame_body_reader_def rd_simps split: if_splits)
  qed (use assms(1,2) small in \<open>auto simp: Frame_body_reader_def frame_type_defs push_defs
      field_bind_enc field_bind_enc_last wf_session_id_def\<close>)
  then show ?thesis
    by (auto simp: Frame_decode_payload_alt)
qed

lemma Frame_decode_payload_sound:
  assumes "Frame_decode_payload ty payload = Ok f" "length payload < 2 ^ 64"
  shows "wf_frame f \<and> Frame_encode_payload f = Ok (ty, payload)"
proof -
  have small: "rd_small payload"
    using assms(2) by (simp add: rd_small_def)
  obtain r where body: "Frame_body_reader ty (rd_at [] payload) = Ok (f, r)" "rd_remaining r = []"
    using assms(1) by (auto simp: Frame_decode_payload_alt)
  consider "ty = NEGOTIATION_OFFER" | "ty \<noteq> NEGOTIATION_OFFER" by blast
  then show ?thesis
  proof cases
    case 1
    then show ?thesis
      using body small
      by (auto simp: Frame_body_reader_def Reader_negotiation_offer_def field_bind_iff rd_simps
          result_simps push_defs wf_offer_iff NegotiationOffer_new_Ok_iff
          CapabilityAdvertisement_new_def split: if_splits)
  next
    case 2
    then show ?thesis
      using body small
      by (auto simp: Frame_body_reader_def field_bind_iff rd_simps push_defs wf_session_id_def
          split: if_splits)
  qed
qed

end
