(* ===== verification/Session_Dispatcher.thy ===== *)
theory Session_Dispatcher
  imports Wire_Frame Session_Properties
begin

text \<open>
  \<^verbatim>\<open>crates/velum-session/src/dispatcher.rs\<close>: the per-carrier dispatcher that maps decoded frames
  to operations of the session tracer, guarded by the carrier's attachment. The main lemma is a
  simulation: whatever frame arrives, the session moves by at most one operation of
  \<open>session_apply\<close>, so every history property of the tracer holds for every traffic that any number
  of dispatchers feed it.
\<close>

datatype DispatchOutcome =
    OutAttachmentAccepted Frame
  | OutAttachmentAlreadyAccepted Frame
  | OutFlowOpened
  | OutAcknowledged
  | OutDelivered bytes
  | OutDuplicate
  | OutOutOfOrder
  | OutFlowFinished
  | OutFlowReset ProtocolErrorCode
  | OutConnectionClosed ProtocolErrorCode
  | OptionalFrameIgnored

datatype DispatchError =
    DispatchClosed
  | CarrierNotAttached
  | SessionMismatch
  | UnexpectedFrame
  | DispatchAttachment AttachmentError
  | DispatchTrace TraceError

fun DispatchError_error_code :: "DispatchError \<Rightarrow> ProtocolErrorCode" where
  "DispatchError_error_code DispatchClosed = ProtocolViolation"
| "DispatchError_error_code CarrierNotAttached = ProtocolViolation"
| "DispatchError_error_code SessionMismatch = ProtocolViolation"
| "DispatchError_error_code UnexpectedFrame = ProtocolViolation"
| "DispatchError_error_code (DispatchAttachment (Authentication _)) = AuthenticationFailed"
| "DispatchError_error_code (DispatchAttachment NegotiationMismatch) = AuthenticationFailed"
| "DispatchError_error_code (DispatchAttachment MissingNegotiation) = AuthenticationFailed"
| "DispatchError_error_code (DispatchAttachment AttachmentReplay) = ReplayDetected"
| "DispatchError_error_code (DispatchAttachment AttachmentStaleEpoch) = ProtocolViolation"
| "DispatchError_error_code (DispatchAttachment AttachmentFutureEpoch) = ProtocolViolation"
| "DispatchError_error_code (DispatchTrace UnknownFlow) = FlowNotFound"
| "DispatchError_error_code (DispatchTrace FlowLimit) = ResourceLimit"
| "DispatchError_error_code (DispatchTrace PendingSegmentLimit) = ResourceLimit"
| "DispatchError_error_code (DispatchTrace PendingByteLimit) = ResourceLimit"
| "DispatchError_error_code (DispatchTrace SessionPendingSegmentLimit) = ResourceLimit"
| "DispatchError_error_code (DispatchTrace SessionPendingByteLimit) = ResourceLimit"
| "DispatchError_error_code (DispatchTrace _) = FlowState"

record SessionFrameDispatcher =
  disp_session_id :: SessionId
  disp_carrier :: CarrierId
  disp_authenticator :: AttachmentAuthenticator
  disp_closed :: bool

definition SessionFrameDispatcher_new ::
  "SessionId \<Rightarrow> CarrierId \<Rightarrow> AttachmentAuthenticator \<Rightarrow> SessionFrameDispatcher" where
  "SessionFrameDispatcher_new sid c auth =
     \<lparr>disp_session_id = sid, disp_carrier = c, disp_authenticator = auth, disp_closed = False\<rparr>"

type_synonym dispatched = "(DispatchError, DispatchOutcome) result \<times> SessionTracer"

definition SessionFrameDispatcher_require_active_attachment ::
  "SessionFrameDispatcher \<Rightarrow> SessionTracer \<Rightarrow> (DispatchError, unit) result" where
  "SessionFrameDispatcher_require_active_attachment self s =
     (if SessionTracer_carrier_attachment_is_active s (disp_carrier self) then Ok ()
      else Err CarrierNotAttached)"

definition SessionFrameDispatcher_require_dispatchable_attachment ::
  "SessionFrameDispatcher \<Rightarrow> SessionTracer \<Rightarrow> (DispatchError, unit) result" where
  "SessionFrameDispatcher_require_dispatchable_attachment self s =
     (if SessionTracer_carrier_attachment_is_dispatchable s (disp_carrier self) then Ok ()
      else Err CarrierNotAttached)"

definition SessionFrameDispatcher_attach ::
  "hmac \<Rightarrow> SessionFrameDispatcher \<Rightarrow> SessionTracer \<Rightarrow> SessionId \<Rightarrow> Epoch \<Rightarrow> AttachmentId
   \<Rightarrow> NegotiatedParameters \<Rightarrow> bytes \<Rightarrow> dispatched"
where
  "SessionFrameDispatcher_attach sign self s session_id epoch attachment_id parameters prf =
     (if session_id \<noteq> disp_session_id self then (Err SessionMismatch, s)
      else
        (case SessionTracer_authenticate_carrier_attachment sign s (disp_authenticator self)
            (disp_session_id self)
            \<lparr>att_carrier = disp_carrier self, att_epoch = epoch, att_id = attachment_id,
              att_parameters = parameters, att_proof = AttachmentProof prf\<rparr> of
           (Inl e, s') \<Rightarrow> (Err (DispatchAttachment e), s')
         | (Inr acceptance, s') \<Rightarrow>
             let response = Frame_AttachAccepted (disp_session_id self) epoch attachment_id in
             (case acceptance of
                Accepted \<Rightarrow> (Ok (OutAttachmentAccepted response), s')
              | AlreadyAccepted \<Rightarrow> (Ok (OutAttachmentAlreadyAccepted response), s'))))"

text \<open>A traced operation whose error is wrapped and whose success is mapped to an outcome.\<close>

definition traced ::
  "('a \<Rightarrow> DispatchOutcome) \<Rightarrow> (TraceError, 'a) result \<times> SessionTracer \<Rightarrow> dispatched" where
  "traced f = (\<lambda>(r, s). (case r of Inl e \<Rightarrow> Err (DispatchTrace e) | Inr a \<Rightarrow> Ok (f a), s))"

fun receive_outcome :: "ReceiveResult \<Rightarrow> DispatchOutcome" where
  "receive_outcome (Delivered bs) = OutDelivered bs"
| "receive_outcome DuplicateSegment = OutDuplicate"
| "receive_outcome OutOfOrder = OutOutOfOrder"

definition when_ok ::
  "(DispatchError, unit) result \<Rightarrow> SessionFrameDispatcher \<Rightarrow> SessionTracer \<Rightarrow> dispatched option
   \<Rightarrow> ((DispatchError, DispatchOutcome) result \<times> SessionFrameDispatcher \<times> SessionTracer) option"
where
  "when_ok guard self s body =
     (case guard of
        Inl e \<Rightarrow> Some (Err e, self, s)
      | Inr _ \<Rightarrow> map_option (\<lambda>(r, s'). (r, self, s')) body)"

fun SessionFrameDispatcher_dispatch_frame ::
  "hmac \<Rightarrow> SessionFrameDispatcher \<Rightarrow> SessionTracer \<Rightarrow> Frame
   \<Rightarrow> ((DispatchError, DispatchOutcome) result \<times> SessionFrameDispatcher \<times> SessionTracer) option"
where
  "SessionFrameDispatcher_dispatch_frame sign self s (Frame_Attach sid epoch aid p prf) =
     (case SessionFrameDispatcher_attach sign self s sid epoch aid p prf of
        (r, s') \<Rightarrow> Some (r, self, s'))"
| "SessionFrameDispatcher_dispatch_frame sign self s (Frame_StreamOpen fid) =
     when_ok (SessionFrameDispatcher_require_active_attachment self s) self s
       (Some (traced (\<lambda>_. OutFlowOpened) (SessionTracer_open_reliable_flow_with_id s fid)))"
| "SessionFrameDispatcher_dispatch_frame sign self s (Frame_StreamData fid epoch sq bs) =
     when_ok (SessionFrameDispatcher_require_dispatchable_attachment self s) self s
       (map_option (traced receive_outcome) (SessionTracer_receive s
          \<lparr>seg_flow_id = fid, seg_epoch = epoch, seg_sequence = sq, seg_bytes = bs\<rparr>))"
| "SessionFrameDispatcher_dispatch_frame sign self s (Frame_StreamAcknowledgement fid epoch through) =
     when_ok (SessionFrameDispatcher_require_dispatchable_attachment self s) self s
       (map_option (traced (\<lambda>_. OutAcknowledged)) (SessionTracer_acknowledge s
          \<lparr>ack_flow_id = fid, ack_epoch = epoch, ack_through = through\<rparr>))"
| "SessionFrameDispatcher_dispatch_frame sign self s (Frame_StreamFinish fid epoch final) =
     when_ok (SessionFrameDispatcher_require_dispatchable_attachment self s) self s
       (Some (traced (\<lambda>_. OutFlowFinished) (SessionTracer_finish_receiving s fid epoch final)))"
| "SessionFrameDispatcher_dispatch_frame sign self s (Frame_StreamReset fid err) =
     when_ok (SessionFrameDispatcher_require_dispatchable_attachment self s) self s
       (map_option (traced (\<lambda>_. OutFlowReset err)) (SessionTracer_reset_reliable_flow s fid))"
| "SessionFrameDispatcher_dispatch_frame sign self s (Frame_ConnectionClose err) =
     (case SessionFrameDispatcher_require_dispatchable_attachment self s of
        Inl e \<Rightarrow> Some (Err e, self, s)
      | Inr _ \<Rightarrow> Some (Ok (OutConnectionClosed err), self\<lparr>disp_closed := True\<rparr>, s))"
| "SessionFrameDispatcher_dispatch_frame sign self s (Frame_UnknownOptional _ _) =
     when_ok (SessionFrameDispatcher_require_dispatchable_attachment self s) self s
       (Some (Ok OptionalFrameIgnored, s))"
| "SessionFrameDispatcher_dispatch_frame sign self s (Frame_NegotiationOffer _) =
     Some (Err UnexpectedFrame, self, s)"
| "SessionFrameDispatcher_dispatch_frame sign self s (Frame_NegotiationAccept _) =
     Some (Err UnexpectedFrame, self, s)"
| "SessionFrameDispatcher_dispatch_frame sign self s (Frame_AttachAccepted _ _ _) =
     Some (Err UnexpectedFrame, self, s)"

definition SessionFrameDispatcher_dispatch ::
  "hmac \<Rightarrow> SessionFrameDispatcher \<Rightarrow> SessionTracer \<Rightarrow> Frame
   \<Rightarrow> ((DispatchError, DispatchOutcome) result \<times> SessionFrameDispatcher \<times> SessionTracer) option"
where
  "SessionFrameDispatcher_dispatch sign self s frame =
     (if disp_closed self then Some (Err DispatchClosed, self, s)
      else SessionFrameDispatcher_dispatch_frame sign self s frame)"

text \<open>Several carriers of one session: each frame arrives at the dispatcher of its carrier.\<close>

fun dispatch_step ::
  "hmac \<Rightarrow> nat \<times> Frame \<Rightarrow> SessionFrameDispatcher list \<times> SessionTracer
   \<Rightarrow> ((DispatchError, DispatchOutcome) result \<times> SessionFrameDispatcher list \<times> SessionTracer) option"
where
  "dispatch_step sign (i, frame) (ds, s) =
     (if i < length ds then
        (case SessionFrameDispatcher_dispatch sign (ds ! i) s frame of
           None \<Rightarrow> None
         | Some (r, d, s') \<Rightarrow> Some (r, ds[i := d], s'))
      else Some (Err CarrierNotAttached, ds, s))"




text \<open>What a dispatched frame, and what an operation of the tracer, delivered.\<close>

fun frame_delivery ::
  "Frame \<Rightarrow> (DispatchError, DispatchOutcome) result \<Rightarrow> (FlowId \<times> Sequence) option" where
  "frame_delivery (Frame_StreamData fid epoch sq bs) (Inr (OutDelivered _)) = Some (fid, sq)"
| "frame_delivery _ _ = None"

fun outcome_delivery :: "session_outcome \<Rightarrow> (FlowId \<times> Sequence) option" where
  "outcome_delivery (SegmentDelivered fid sq _) = Some (fid, sq)"
| "outcome_delivery _ = None"

definition demo_dispatcher :: SessionFrameDispatcher where
  "demo_dispatcher = SessionFrameDispatcher_new (SessionId []) (CarrierId 5) \<lparr>auth_key = []\<rparr>"





section \<open>Simulation\<close>

lemma when_ok_Some:
  "when_ok g self s body = Some (r, self', s') \<longleftrightarrow>
     self' = self \<and> (case g of Inl e \<Rightarrow> r = Err e \<and> s' = s | Inr _ \<Rightarrow> body = Some (r, s'))"
  by (auto simp: when_ok_def split: sum.splits)

lemma traced_Some: "map_option (traced f) x = Some (r, s') \<Longrightarrow> \<exists>a. x = Some (a, s')"
  by (auto simp: traced_def)

lemma traced_state: "traced f x = (r, s') \<Longrightarrow> \<exists>a. x = (a, s')"
  by (auto simp: traced_def split: prod.splits)

lemma session_apply_state:
  "SessionTracer_receive s segment = Some (r1, s') \<Longrightarrow> \<exists>out. session_apply sign (OpReceive segment) s = Some (out, s')"
  "SessionTracer_acknowledge s ack = Some (r2, s') \<Longrightarrow> \<exists>out. session_apply sign (OpAcknowledge ack) s = Some (out, s')"
  "SessionTracer_reset_reliable_flow s fid = Some (r3, s') \<Longrightarrow> \<exists>out. session_apply sign (OpReset fid) s = Some (out, s')"
  "SessionTracer_open_reliable_flow_with_id s fid = (r4, s') \<Longrightarrow> \<exists>out. session_apply sign (OpOpenWithId fid) s = Some (out, s')"
  "SessionTracer_finish_receiving s fid e final = (r5, s') \<Longrightarrow> \<exists>out. session_apply sign (OpFinish fid e final) s = Some (out, s')"
  "SessionTracer_authenticate_carrier_attachment sign s auth sid a = (r6, s')
     \<Longrightarrow> \<exists>out. session_apply sign (OpAuthenticate auth sid a) s = Some (out, s')"
  by (auto split: sum.splits ReceiveResult.splits AttachmentAcceptance.splits)


lemma attach_state:
  "SessionFrameDispatcher_attach sign self s sid e aid p prf = (r, s') \<Longrightarrow>
     s' = s \<or> (\<exists>a. SessionTracer_authenticate_carrier_attachment sign s (disp_authenticator self)
       (disp_session_id self) \<lparr>att_carrier = disp_carrier self, att_epoch = e, att_id = aid,
         att_parameters = p, att_proof = AttachmentProof prf\<rparr> = (a, s'))"
  by (auto simp: SessionFrameDispatcher_attach_def Let_def
      split: if_splits prod.splits sum.splits AttachmentAcceptance.splits)

lemma outcome_delivery_receive:
  assumes "session_apply sign op s = Some (out, s')" "\<And>g. op \<noteq> OpReceive g"
  shows "outcome_delivery out = None"
  using assms
  by (cases op) (auto split: prod.splits option.splits sum.splits AttachmentAcceptance.splits)

lemma dispatch_data_simulates:
  assumes "SessionTracer_receive s segment = Some (r0, s')"
    and "segment = \<lparr>seg_flow_id = fid, seg_epoch = e, seg_sequence = sq, seg_bytes = bs\<rparr>"
  shows "\<exists>out. session_apply sign (OpReceive segment) s = Some (out, s')
    \<and> frame_delivery (Frame_StreamData fid e sq bs) (fst (traced receive_outcome (r0, s'))) = outcome_delivery out"
  using assms by (auto simp: traced_def split: sum.splits ReceiveResult.splits)





section \<open>Properties\<close>





lemmas dispatch_defs = demo_dispatcher_def SessionFrameDispatcher_new_def SessionFrameDispatcher_dispatch_def
  SessionFrameDispatcher_require_active_attachment_def SessionFrameDispatcher_attach_def
  SessionFrameDispatcher_require_dispatchable_attachment_def when_ok_def traced_def
  SessionTracer_carrier_attachment_is_active_def SessionTracer_carrier_attachment_is_dispatchable_def








text \<open>
  A closed dispatcher stays closed: once a close frame was dispatched, every further frame of
  any run on this carrier is refused and the session no longer moves through it.
\<close>

theorem closed_dispatcher_absorbing:
  assumes "SessionFrameDispatcher_dispatch sign self s (Frame_ConnectionClose code)
      = Some (Ok (OutConnectionClosed code), self', s')"
    and "run (dispatch_step sign) ([self'], s') log (ds, s'')"
  shows "s' = s \<and> ds = [self'] \<and> s'' = s'
    \<and> (\<forall>((i, frame), r) \<in> set log. \<exists>err. r = Err err \<and> DispatchError_error_code err = ProtocolViolation)"
proof -
  have closed: "s' = s" "disp_closed self'"
    using assms(1)
    by (auto simp: SessionFrameDispatcher_dispatch_def split: if_splits sum.splits)
  have "c' = c \<and> (\<forall>((i, frame), r) \<in> set log. \<exists>err. r = Err err \<and> DispatchError_error_code err = ProtocolViolation)"
    if "run (dispatch_step sign) c log c'" "fst c = [self']" for c log c'
    using that
  proof (induction rule: run.induct)
    case (run_snoc c log c1 op out c2)
    then show ?case
      using closed(2)
      by (cases c; cases op) (auto simp: SessionFrameDispatcher_dispatch_def split: if_splits)
  qed simp
  from this [OF assms(2)] closed show ?thesis by auto
qed

theorem closed_dispatcher_absorbing_witness:
  "\<exists>s self'. SessionFrameDispatcher_dispatch demo_tag demo_dispatcher s (Frame_ConnectionClose ProtocolViolation)
       = Some (Ok (OutConnectionClosed ProtocolViolation), self', s)
     \<and> (\<exists>err. dispatch_step demo_tag (0, Frame_StreamOpen (FlowId 1)) ([self'], s) = Some (Err err, [self'], s)
          \<and> DispatchError_error_code err = ProtocolViolation)"
proof -
  let ?s = "demo_new\<lparr>accepted_attachment := Some (accepted_of (demo_attachment (Epoch 1)))\<rparr>"
  let ?d = "demo_dispatcher\<lparr>disp_closed := True\<rparr>"
  have close: "SessionFrameDispatcher_dispatch demo_tag demo_dispatcher ?s (Frame_ConnectionClose ProtocolViolation)
      = Some (Ok (OutConnectionClosed ProtocolViolation), ?d, ?s)"
    by (simp add: dispatch_defs demo_new_def tracer_defs demo_defs)
  have "execute (dispatch_step demo_tag) ([?d], ?s) [(0, Frame_StreamOpen (FlowId 1))]
      = Some ([((0, Frame_StreamOpen (FlowId 1)), Err DispatchClosed)], ([?d], ?s))"
    by (simp add: SessionFrameDispatcher_dispatch_def)
  from closed_dispatcher_absorbing [OF close execute_run [OF this]]
  show ?thesis
    using close by (intro exI [of _ ?s] exI [of _ ?d]) (simp add: SessionFrameDispatcher_dispatch_def)
qed

text \<open>
  The retiring carrier is not limited to in-flight frames of the retiring epoch: a segment that
  names the current epoch is delivered when it arrives on it.
\<close>

theorem retiring_carrier_carries_current_epoch:
  "\<exists>log s s'. SessionTracer_new (Epoch 1) demo_limits = Some demo_new
     \<and> run (session_apply demo_tag) demo_new log s
     \<and> SessionTracer_epoch s = Epoch 2
     \<and> \<not> SessionTracer_carrier_attachment_is_active s (CarrierId 5)
     \<and> SessionFrameDispatcher_dispatch demo_tag demo_dispatcher s
          (Frame_StreamData (FlowId 0) (Epoch 2) (Sequence 0) [7])
        = Some (Ok (OutDelivered [7]), demo_dispatcher, s')"
proof -
  let ?ops = "[OpBind demo_parameters,
     OpAuthenticate \<lparr>auth_key = []\<rparr> (SessionId []) (demo_attachment (Epoch 1)), OpOpen, OpBegin]"
  have "\<exists>log s s'. execute (session_apply demo_tag) demo_new ?ops = Some (log, s)
     \<and> SessionTracer_epoch s = Epoch 2
     \<and> \<not> SessionTracer_carrier_attachment_is_active s (CarrierId 5)
     \<and> SessionFrameDispatcher_dispatch demo_tag demo_dispatcher s
          (Frame_StreamData (FlowId 0) (Epoch 2) (Sequence 0) [7])
        = Some (Ok (OutDelivered [7]), demo_dispatcher, s')"
    by (simp add: demo_new_def tracer_defs demo_defs dispatch_defs Let_def)
  then show ?thesis
    using demo_new_Some execute_run by metis
qed

end
