(* ===== verification/Wire_Decoder.thy ===== *)
theory Wire_Decoder
  imports Wire_Frame
begin

text \<open>
  Whole frames and the incremental decoder of \<^verbatim>\<open>crates/velum-protocol/src/frame.rs\<close>. The first
  part lifts the payload codec to \<^verbatim>\<open>encode\<close> and \<^verbatim>\<open>decode_exact\<close>; the second models
  \<^verbatim>\<open>FrameDecoder\<close>, whose \<^verbatim>\<open>push\<close> appends one byte at a time and drains complete frames in an inner
  loop. A decoder is idle when its buffer holds an incomplete frame: that is the invariant of
  every successful push.
\<close>

section \<open>The incremental decoder\<close>

record FrameDecoder =
  maximum_payload :: nat
  buffered :: bytes

definition FrameDecoder_new :: "nat \<Rightarrow> (FrameDecodeError, FrameDecoder) result" where
  "FrameDecoder_new mp =
     (if mp > MAX_FRAME_PAYLOAD then Err (PayloadTooLarge MAX_FRAME_PAYLOAD mp)
      else Ok \<lparr>maximum_payload = mp, buffered = []\<rparr>)"

definition advertised_length :: "bytes \<Rightarrow> nat" where
  "advertised_length bs = unat (u16_from_be_bytes [bs ! 2, bs ! 3])"

text \<open>The inner \<^verbatim>\<open>loop\<close> of \<^verbatim>\<open>push\<close>: every iteration removes a whole frame, at least its header.\<close>

function FrameDecoder_loop ::
  "FrameDecoder \<Rightarrow> Frame list \<Rightarrow> (FrameDecodeError, Frame list) result \<times> FrameDecoder"
where
  "FrameDecoder_loop d frames =
     (if length (buffered d) < FRAME_HEADER_BYTES then (Ok frames, d)
      else
        let advertised = advertised_length (buffered d) in
        if advertised > maximum_payload d then
          (Err (PayloadTooLarge (maximum_payload d) advertised), d\<lparr>buffered := []\<rparr>)
        else
          let total = FRAME_HEADER_BYTES + advertised in
          if length (buffered d) < total then (Ok frames, d)
          else
            (case Frame_decode_exact (take total (buffered d)) (maximum_payload d) of
               Inl e \<Rightarrow> (Err e, d)
             | Inr frame \<Rightarrow>
                 FrameDecoder_loop (d\<lparr>buffered := drop total (buffered d)\<rparr>) (frames @ [frame])))"
  by pat_completeness auto
termination
  by (relation "measure (\<lambda>(d, frames). length (buffered d))") auto

primrec FrameDecoder_push_loop ::
  "bytes \<Rightarrow> FrameDecoder \<Rightarrow> Frame list
   \<Rightarrow> (FrameDecodeError, Frame list) result \<times> FrameDecoder"
where
  "FrameDecoder_push_loop [] d frames = (Ok frames, d)"
| "FrameDecoder_push_loop (b # bs) d frames =
     (case FrameDecoder_loop (d\<lparr>buffered := buffered d @ [b]\<rparr>) frames of
        (Inl e, d') \<Rightarrow> (Err e, d')
      | (Inr frames', d') \<Rightarrow> FrameDecoder_push_loop bs d' frames')"

definition FrameDecoder_push ::
  "FrameDecoder \<Rightarrow> bytes \<Rightarrow> (FrameDecodeError, Frame list) result \<times> FrameDecoder" where
  "FrameDecoder_push d bs = FrameDecoder_push_loop bs d []"

definition FrameDecoder_buffered_len :: "FrameDecoder \<Rightarrow> nat" where
  "FrameDecoder_buffered_len d = length (buffered d)"

text \<open>A caller that pushes chunk after chunk and collects the frames, stopping at an error.\<close>

fun push_chunks ::
  "FrameDecoder \<Rightarrow> bytes list \<Rightarrow> (FrameDecodeError, Frame list) result \<times> FrameDecoder" where
  "push_chunks d [] = (Ok [], d)"
| "push_chunks d (c # cs) =
     (case FrameDecoder_push d c of
        (Inl e, d') \<Rightarrow> (Err e, d')
      | (Inr fs, d') \<Rightarrow>
          (case push_chunks d' cs of
             (Inl e, d'') \<Rightarrow> (Err e, d'')
           | (Inr fs', d'') \<Rightarrow> (Ok (fs @ fs'), d'')))"

definition decoder_idle :: "FrameDecoder \<Rightarrow> bool" where
  "decoder_idle d =
     (length (buffered d) < FRAME_HEADER_BYTES
      \<or> advertised_length (buffered d) \<le> maximum_payload d
        \<and> length (buffered d) < FRAME_HEADER_BYTES + advertised_length (buffered d))"

definition decoder_poisoned :: "FrameDecodeError \<Rightarrow> FrameDecoder \<Rightarrow> bool" where
  "decoder_poisoned e d =
     (4 \<le> length (buffered d) \<and> advertised_length (buffered d) \<le> maximum_payload d
      \<and> 4 + advertised_length (buffered d) \<le> length (buffered d)
      \<and> Frame_decode_exact (take (4 + advertised_length (buffered d)) (buffered d)) (maximum_payload d) = Err e)"

section \<open>Whole frames\<close>

lemma Frame_encode_Ok_iff:
  "Frame_encode f = Ok bs \<longleftrightarrow>
     (\<exists>ty payload. Frame_encode_payload f = Ok (ty, payload) \<and> length payload \<le> MAX_FRAME_PAYLOAD
        \<and> bs = ty # 0 # u16_to_be_bytes (word_of_nat (length payload)) @ payload)"
  by (cases "Frame_encode_payload f")
    (auto simp: Frame_encode_def u16_try_from_def split: if_splits)

lemma u16_pair: "\<exists>a b. u16_to_be_bytes w = [a, b]"
  using list2_expand [of "u16_to_be_bytes w"] by auto

lemma advertised_length_frame:
  assumes "length payload \<le> MAX_FRAME_PAYLOAD"
  shows "advertised_length (ty # rsv # u16_to_be_bytes (word_of_nat (length payload)) @ rest)
    = length payload"
proof -
  obtain a b where ab: "u16_to_be_bytes (word_of_nat (length payload)) = [a, b]"
    using u16_pair by blast
  have "advertised_length (ty # rsv # u16_to_be_bytes (word_of_nat (length payload)) @ rest)
      = unat (word_of_nat (length payload) :: u16)"
    using ab u16_be_roundtrip [of "word_of_nat (length payload)"] by (simp add: advertised_length_def)
  then show ?thesis
    using assms by (simp add: unat_of_nat)
qed

lemma frame_split:
  assumes "4 \<le> length bs"
  shows "\<exists>ty rsv payload. bs = ty # rsv # u16_to_be_bytes (u16_from_be_bytes [bs ! 2, bs ! 3]) @ payload
    \<and> payload = drop 4 bs"
proof -
  obtain a b c d rest where "bs = a # b # c # d # rest"
    using assms by (auto simp: numeral_eq_Suc Suc_le_length_iff)
  then show ?thesis by simp
qed

lemma Frame_decode_exact_Ok_iff:
  "Frame_decode_exact bs m = Ok f \<longleftrightarrow>
     (\<exists>ty payload. Frame_decode_payload ty payload = Ok f \<and> length payload \<le> m
        \<and> length payload \<le> MAX_FRAME_PAYLOAD
        \<and> bs = ty # 0 # u16_to_be_bytes (word_of_nat (length payload)) @ payload)"
  (is "?L \<longleftrightarrow> ?R")
proof
  assume L: ?L
  then have len: "4 \<le> length bs"
    by (auto simp: Frame_decode_exact_def split: if_splits)
  let ?w = "u16_from_be_bytes [bs ! 2, bs ! 3]"
  obtain ty rsv payload where bs: "bs = ty # rsv # u16_to_be_bytes ?w @ payload"
    and payload: "payload = drop 4 bs"
    using frame_split [OF len] by blast
  have facts: "length payload = unat ?w" "unat ?w \<le> m" "rsv = 0"
    "Frame_decode_payload ty payload = Ok f"
    using L len payload bs
    by (auto simp: Frame_decode_exact_def Let_def split: if_splits) (metis nth_Cons_0 nth_Cons_Suc One_nat_def)+
  have "word_of_nat (length payload) = ?w"
    using facts(1) by simp
  moreover have "unat ?w \<le> MAX_FRAME_PAYLOAD"
    using unat_less_power [of ?w] by simp
  ultimately show ?R
    using facts bs by metis
next
  assume ?R
  then obtain ty payload where h: "Frame_decode_payload ty payload = Ok f" "length payload \<le> m"
    "length payload \<le> MAX_FRAME_PAYLOAD"
    "bs = ty # 0 # u16_to_be_bytes (word_of_nat (length payload)) @ payload"
    by blast
  have "unat (u16_from_be_bytes [bs ! 2, bs ! 3]) = length payload"
    using advertised_length_frame [OF h(3), of ty 0 payload] h(4) by (simp add: advertised_length_def)
  then show ?L
    using h by (simp add: Frame_decode_exact_def)
qed

lemma frame_encode_decode:
  assumes "wf_frame f" "Frame_encode f = Ok bs" "length bs \<le> FRAME_HEADER_BYTES + m"
  shows "Frame_decode_exact bs m = Ok f"
  using assms Frame_decode_payload_complete [of f]
  by (fastforce simp: Frame_encode_Ok_iff Frame_decode_exact_Ok_iff)

lemma frame_decode_encode:
  assumes "Frame_decode_exact bs m = Ok f"
  shows "wf_frame f \<and> Frame_encode f = Ok bs \<and> length bs \<le> FRAME_HEADER_BYTES + m"
  using assms Frame_decode_payload_sound [where f = f]
  by (fastforce simp: Frame_encode_Ok_iff Frame_decode_exact_Ok_iff)

section \<open>One byte into an idle decoder\<close>

declare FrameDecoder_loop.simps [simp del]

lemma advertised_length_append:
  "4 \<le> length bs \<Longrightarrow> advertised_length (bs @ cs) = advertised_length bs"
  by (simp add: advertised_length_def nth_append)

lemma FrameDecoder_loop_empty: "buffered d = [] \<Longrightarrow> FrameDecoder_loop d frames = (Ok frames, d)"
  by (subst FrameDecoder_loop.simps) simp

lemma idle_complete_length:
  assumes "decoder_idle d" "buf = buffered d @ [b]" "4 \<le> length buf"
    and "4 + advertised_length buf \<le> length buf"
  shows "length buf = 4 + advertised_length buf"
proof (cases "length (buffered d) < 4")
  case True
  then show ?thesis using assms by simp
next
  case False
  then show ?thesis
    using assms by (auto simp: decoder_idle_def advertised_length_append)
qed

lemma FrameDecoder_loop_idle:
  assumes "decoder_idle d" "buf = buffered d @ [b]"
  shows "FrameDecoder_loop (d\<lparr>buffered := buf\<rparr>) frames =
    (if length buf < 4 then (Ok frames, d\<lparr>buffered := buf\<rparr>)
     else if advertised_length buf > maximum_payload d then
       (Err (PayloadTooLarge (maximum_payload d) (advertised_length buf)), d\<lparr>buffered := []\<rparr>)
     else if length buf < 4 + advertised_length buf then (Ok frames, d\<lparr>buffered := buf\<rparr>)
     else (case Frame_decode_exact buf (maximum_payload d) of
             Inl e \<Rightarrow> (Err e, d\<lparr>buffered := buf\<rparr>)
           | Inr frame \<Rightarrow> (Ok (frames @ [frame]), d\<lparr>buffered := []\<rparr>)))"
proof (cases "4 \<le> length buf \<and> advertised_length buf \<le> maximum_payload d
    \<and> 4 + advertised_length buf \<le> length buf")
  case True
  then have "length buf = 4 + advertised_length buf"
    using idle_complete_length [OF assms] by simp
  then show ?thesis
    using True
    by (subst FrameDecoder_loop.simps)
      (auto simp: FrameDecoder_loop_empty Let_def split: sum.splits)
next
  case False
  then show ?thesis
    by (subst FrameDecoder_loop.simps) (auto simp: Let_def)
qed

lemma FrameDecoder_loop_Ok:
  assumes "decoder_idle d"
    and "FrameDecoder_loop (d\<lparr>buffered := buffered d @ [b]\<rparr>) frames = (Ok frames', d')"
  shows "decoder_idle d' \<and> maximum_payload d' = maximum_payload d \<and>
    (\<exists>new encs. frames' = frames @ new \<and> map Frame_encode new = map Ok encs
       \<and> buffered d @ [b] = concat encs @ buffered d')"
proof -
  let ?buf = "buffered d @ [b]"
  note step = FrameDecoder_loop_idle [OF assms(1) refl, of b frames, unfolded assms(2)]
  consider (part) "frames' = frames" "d' = d\<lparr>buffered := ?buf\<rparr>" "decoder_idle d'"
    | (full) frame where "frames' = frames @ [frame]" "d' = d\<lparr>buffered := []\<rparr>"
      "Frame_decode_exact ?buf (maximum_payload d) = Ok frame"
    using step by (auto simp: decoder_idle_def split: if_splits sum.splits)
  then show ?thesis
  proof cases
    case part
    then show ?thesis by (auto intro!: exI [of _ "[]"])
  next
    case full
    then have "Frame_encode frame = Ok ?buf"
      using frame_decode_encode by blast
    with full show ?thesis
      by (auto simp: decoder_idle_def intro!: exI [of _ "[frame]"] exI [of _ "[?buf]"])
  qed
qed

section \<open>Runs of bytes and chunks\<close>

lemma push_loop_append:
  "FrameDecoder_push_loop (xs @ ys) d frames =
     (case FrameDecoder_push_loop xs d frames of
        (Inl e, d') \<Rightarrow> (Err e, d')
      | (Inr frames', d') \<Rightarrow> FrameDecoder_push_loop ys d' frames')"
  by (induction xs arbitrary: d frames) (auto split: prod.splits sum.splits)

lemma FrameDecoder_loop_frames:
  "FrameDecoder_loop d (frames @ extra) =
     (case FrameDecoder_loop d extra of
        (Inl e, d') \<Rightarrow> (Err e, d') | (Inr fs, d') \<Rightarrow> (Ok (frames @ fs), d'))"
proof (induction d extra rule: FrameDecoder_loop.induct)
  case (1 d extra)
  show ?case
    by (subst FrameDecoder_loop.simps, subst (2) FrameDecoder_loop.simps)
      (auto simp: Let_def 1 split: sum.splits)
qed

lemma push_loop_frames:
  "FrameDecoder_push_loop bs d (frames @ extra) =
     (case FrameDecoder_push_loop bs d extra of
        (Inl e, d') \<Rightarrow> (Err e, d') | (Inr fs, d') \<Rightarrow> (Ok (frames @ fs), d'))"
proof (induction bs arbitrary: d extra)
  case (Cons b bs)
  show ?case
    by (auto simp: FrameDecoder_loop_frames [of _ frames extra] Cons.IH split: prod.splits sum.splits)
qed simp

text \<open>How the input is cut into pushes does not matter.\<close>

lemma push_chunks_concat: "push_chunks d cs = FrameDecoder_push_loop (concat cs) d []"
proof (induction cs arbitrary: d)
  case (Cons c cs)
  obtain r d1 where push: "FrameDecoder_push_loop c d [] = (r, d1)"
    by (cases "FrameDecoder_push_loop c d []")
  show ?case
  proof (cases r)
    case (Inl e)
    with push show ?thesis by (simp add: FrameDecoder_push_def push_loop_append)
  next
    case (Inr fs)
    with push show ?thesis
      using push_loop_frames [of "concat cs" d1 fs "[]"] Cons.IH [of d1]
      by (simp add: FrameDecoder_push_def push_loop_append split: prod.split sum.split)
  qed
qed simp

lemma push_loop_Ok:
  assumes "decoder_idle d" "FrameDecoder_push_loop bs d frames = (Ok frames', d')"
  shows "decoder_idle d' \<and> maximum_payload d' = maximum_payload d \<and>
    (\<exists>new encs. frames' = frames @ new \<and> map Frame_encode new = map Ok encs
       \<and> buffered d @ bs = concat encs @ buffered d')"
  using assms
proof (induction bs arbitrary: d frames)
  case Nil
  then show ?case by (auto intro!: exI [of _ "[]"])
next
  case (Cons b bs)
  obtain mid frames1 where step:
    "FrameDecoder_loop (d\<lparr>buffered := buffered d @ [b]\<rparr>) frames = (Ok frames1, mid)"
    and rest: "FrameDecoder_push_loop bs mid frames1 = (Ok frames', d')"
    using Cons.prems(2) by (auto split: prod.splits sum.splits)
  obtain new1 encs1 where one: "decoder_idle mid" "maximum_payload mid = maximum_payload d"
    "frames1 = frames @ new1" "map Frame_encode new1 = map Ok encs1"
    "buffered d @ [b] = concat encs1 @ buffered mid"
    using FrameDecoder_loop_Ok [OF Cons.prems(1) step] by blast
  obtain new2 encs2 where two: "decoder_idle d'" "maximum_payload d' = maximum_payload mid"
    "frames' = frames1 @ new2" "map Frame_encode new2 = map Ok encs2"
    "buffered mid @ bs = concat encs2 @ buffered d'"
    using Cons.IH [OF one(1) rest] by blast
  have "buffered d @ b # bs = concat (encs1 @ encs2) @ buffered d'"
    using one(5) two(5) by (metis append.assoc append_Cons append_Nil concat_append)
  with one two show ?case
    by (auto intro!: exI [of _ "new1 @ new2"] exI [of _ "encs1 @ encs2"])
qed

lemma push_loop_prefix:
  assumes "wf_frame f" "Frame_encode f = Ok bs" "length bs \<le> 4 + maximum_payload d"
    and "buffered d = []" "xs @ ys = bs" "ys \<noteq> []"
  shows "FrameDecoder_push_loop xs d frames = (Ok frames, d\<lparr>buffered := xs\<rparr>)"
  using assms(5,6)
proof (induction xs arbitrary: ys rule: rev_induct)
  case Nil
  then show ?case using assms(4) by (cases d) simp
next
  case (snoc x xs)
  let ?d = "d\<lparr>buffered := xs\<rparr>" and ?buf = "xs @ [x]"
  have IH: "FrameDecoder_push_loop xs d frames = (Ok frames, ?d)"
    using snoc.IH [of "x # ys"] snoc.prems by simp
  obtain ty payload where bs: "bs = ty # 0 # u16_to_be_bytes (word_of_nat (length payload)) @ payload"
    "length payload \<le> MAX_FRAME_PAYLOAD"
    using assms(2) by (auto simp: Frame_encode_Ok_iff)
  have adv: "advertised_length zs = length payload" if "zs @ us = bs" "4 \<le> length zs" for zs us
    using advertised_length_frame [OF bs(2), of ty 0 payload] advertised_length_append [OF that(2), of us]
      that(1) bs(1) by simp
  have len: "length ?buf < 4 + length payload" "length payload \<le> maximum_payload d"
  proof -
    have "length bs = 4 + length payload" "0 < length ys"
      using bs(1) snoc.prems by auto
    moreover have "length ?buf + length ys = length bs"
      using arg_cong [OF snoc.prems(1), of length] by simp
    ultimately show "length ?buf < 4 + length payload" "length payload \<le> maximum_payload d"
      using assms(3) by linarith+
  qed
  have idle: "decoder_idle ?d"
    using adv [of xs "x # ys"] snoc.prems len by (auto simp: decoder_idle_def)
  have "FrameDecoder_loop (?d\<lparr>buffered := ?buf\<rparr>) frames = (Ok frames, d\<lparr>buffered := ?buf\<rparr>)"
    using FrameDecoder_loop_idle [OF idle, of ?buf x frames] adv [of ?buf ys] snoc.prems len
    by auto
  then show ?case
    by (simp add: push_loop_append IH)
qed

lemma push_loop_frame:
  assumes "wf_frame f" "Frame_encode f = Ok bs" "length bs \<le> 4 + maximum_payload d" "buffered d = []"
  shows "FrameDecoder_push_loop bs d frames = (Ok (frames @ [f]), d)"
proof -
  obtain ty payload where bs: "bs = ty # 0 # u16_to_be_bytes (word_of_nat (length payload)) @ payload"
    "length payload \<le> MAX_FRAME_PAYLOAD"
    using assms(2) by (auto simp: Frame_encode_Ok_iff)
  then have "bs \<noteq> []" by simp
  then obtain xs x where x: "bs = xs @ [x]"
    by (meson rev_exhaust)
  let ?d = "d\<lparr>buffered := xs\<rparr>"
  have pre: "FrameDecoder_push_loop xs d frames = (Ok frames, ?d)"
    using push_loop_prefix [OF assms, of xs "[x]"] x by simp
  have adv: "advertised_length bs = length payload"
    using advertised_length_frame [OF bs(2), of ty 0 payload] bs(1) by simp
  have len: "length bs = 4 + length payload"
    using bs(1) by simp
  have idle: "decoder_idle ?d"
  proof (cases "length xs < 4")
    case False
    then have "advertised_length xs = length payload"
      using advertised_length_append [of xs "[x]"] x adv by simp
    then show ?thesis
      using x len assms(3) by (simp add: decoder_idle_def)
  qed (simp add: decoder_idle_def)
  have "Frame_decode_exact bs (maximum_payload d) = Ok f"
    using frame_encode_decode [OF assms(1,2)] assms(3) by simp
  then have "FrameDecoder_loop (?d\<lparr>buffered := bs\<rparr>) frames = (Ok (frames @ [f]), d\<lparr>buffered := []\<rparr>)"
    using FrameDecoder_loop_idle [OF idle, of bs x frames] x adv len assms(3) by simp
  then show ?thesis
    using x pre assms(4) by (simp add: push_loop_append)
qed

lemma push_loop_frames_list:
  assumes "list_all2 (\<lambda>f bs. wf_frame f \<and> Frame_encode f = Ok bs \<and> length bs \<le> 4 + maximum_payload d) fs encs"
    and "buffered d = []"
  shows "FrameDecoder_push_loop (concat encs) d frames = (Ok (frames @ fs), d)"
  using assms(1)
proof (induction fs encs arbitrary: frames rule: list_all2_induct)
  case (Cons f fs bs encs)
  then show ?case
    using push_loop_frame [of f bs d frames] assms(2) by (simp add: push_loop_append)
qed simp

section \<open>A decoder after a malformed frame\<close>

lemma poisoned_loop:
  assumes "decoder_poisoned e d"
  shows "FrameDecoder_loop (d\<lparr>buffered := buffered d @ bs\<rparr>) frames = (Err e, d\<lparr>buffered := buffered d @ bs\<rparr>)
    \<and> decoder_poisoned e (d\<lparr>buffered := buffered d @ bs\<rparr>)"
  using assms
  by (subst FrameDecoder_loop.simps)
    (auto simp: decoder_poisoned_def advertised_length_append Let_def)

lemma push_loop_Err:
  assumes "decoder_idle d" "FrameDecoder_push_loop bs d frames = (Err e, d')"
  shows "buffered d' = [] \<and> (\<exists>n. e = PayloadTooLarge (maximum_payload d) n \<and> maximum_payload d < n)
    \<or> decoder_poisoned e d'"
  using assms
proof (induction bs arbitrary: d frames)
  case (Cons b bs)
  let ?buf = "buffered d @ [b]"
  show ?case
  proof (cases "FrameDecoder_loop (d\<lparr>buffered := ?buf\<rparr>) frames")
    case (Pair r mid)
    show ?thesis
    proof (cases r)
      case (Inl e1)
      then have res: "e1 = e" "mid = d'"
        using Cons.prems(2) Pair by auto
      have len: "length ?buf = 4 + advertised_length ?buf"
        if "4 \<le> length ?buf" "4 + advertised_length ?buf \<le> length ?buf"
        using idle_complete_length [OF Cons.prems(1) refl that] .
      show ?thesis
        using FrameDecoder_loop_idle [OF Cons.prems(1) refl, of b frames] Pair Inl res len
        by (auto simp: decoder_poisoned_def split: if_splits sum.splits)
    next
      case (Inr frames1)
      then have idle: "decoder_idle mid" "maximum_payload mid = maximum_payload d"
        using FrameDecoder_loop_Ok [OF Cons.prems(1)] Pair by blast+
      have "FrameDecoder_push_loop bs mid frames1 = (Err e, d')"
        using Cons.prems(2) Pair Inr by simp
      from Cons.IH [OF idle(1) this] idle(2) show ?thesis by simp
    qed
  qed
qed simp

section \<open>Properties\<close>

text \<open>
  Encoding a frame and decoding the result gives the frame back: every well-formed frame
  that \<^verbatim>\<open>encode\<close> accepts is recovered by \<^verbatim>\<open>decode_exact\<close> under any payload limit that admits it.
\<close>

theorem frame_roundtrip:
  assumes "wf_frame f" and "Frame_encode f = Ok bs" and "length bs \<le> FRAME_HEADER_BYTES + m"
  shows "Frame_decode_exact bs m = Ok f"
  using assms by (rule frame_encode_decode)

theorem frame_roundtrip_witness:
  "wf_frame (Frame_StreamData (FlowId 1) (Epoch 2) (Sequence 3) [0xaa])
   \<and> Frame_decode_exact [0x11, 0, 0, 0x19, 0, 0, 0, 0, 0, 0, 0, 1, 0, 0, 0, 0, 0, 0, 0, 2,
        0, 0, 0, 0, 0, 0, 0, 3, 0xaa] 64
      = Ok (Frame_StreamData (FlowId 1) (Epoch 2) (Sequence 3) [0xaa])"
proof -
  have enc: "Frame_encode (Frame_StreamData (FlowId 1) (Epoch 2) (Sequence 3) [0xaa])
      = Ok [0x11, 0, 0, 0x19, 0, 0, 0, 0, 0, 0, 0, 1, 0, 0, 0, 0, 0, 0, 0, 2,
        0, 0, 0, 0, 0, 0, 0, 3, 0xaa]"
    by (simp add: Frame_encode_def push_defs be_eval u16_try_from_def STREAM_DATA_def)
  show ?thesis
    using frame_roundtrip [OF _ enc, of 64] by simp
qed

text \<open>
  C10. The format is canonical: whatever \<^verbatim>\<open>decode_exact\<close> accepts is a well-formed frame, fits the
  caller's payload limit, and is exactly the byte string \<^verbatim>\<open>encode\<close> produces for that frame.
\<close>

theorem frame_canonical:
  assumes "Frame_decode_exact bs m = Ok f"
  shows "wf_frame f \<and> Frame_encode f = Ok bs \<and> length bs \<le> FRAME_HEADER_BYTES + m"
  using assms by (rule frame_decode_encode)

lemma stream_open_decode:
  "Frame_decode_exact [0x10, 0, 0, 8, 0, 0, 0, 0, 0, 0, 0, 7] 64 = Ok (Frame_StreamOpen (FlowId 7))"
proof (rule frame_encode_decode)
  show "Frame_encode (Frame_StreamOpen (FlowId 7)) = Ok [0x10, 0, 0, 8, 0, 0, 0, 0, 0, 0, 0, 7]"
    by (simp add: Frame_encode_def push_defs be_eval u16_try_from_def STREAM_OPEN_def)
qed simp_all

theorem frame_canonical_witness:
  "Frame_encode (Frame_StreamOpen (FlowId 7)) = Ok [0x10, 0, 0, 8, 0, 0, 0, 0, 0, 0, 0, 7]"
  using frame_canonical [OF stream_open_decode] by simp

text \<open>
  C9. Chunking does not matter: when a sequence of well-formed frames that fit the decoder's
  limit is encoded, concatenated and cut into chunks in any way, pushing the chunks into a fresh
  decoder yields exactly these frames in order and leaves the decoder empty again.
\<close>

theorem decoder_chunking:
  assumes "FrameDecoder_new m = Ok d"
    and "list_all2 (\<lambda>f bs. wf_frame f \<and> Frame_encode f = Ok bs \<and> length bs \<le> FRAME_HEADER_BYTES + m)
      fs encs"
    and "concat chunks = concat encs"
  shows "push_chunks d chunks = (Ok fs, d)"
proof -
  have d: "maximum_payload d = m" "buffered d = []"
    using assms(1) by (auto simp: FrameDecoder_new_def split: if_splits)
  show ?thesis
    using push_loop_frames_list [of d fs encs "[]"] assms(2,3) d by (simp add: push_chunks_concat)
qed

theorem decoder_chunking_witness:
  "push_chunks \<lparr>maximum_payload = 64, buffered = []\<rparr>
     [[0x10, 0], [0, 8, 0, 0, 0, 0, 0, 0, 0], [7, 0x10, 0, 0, 8, 0, 0, 0, 0, 0, 0, 0, 7]]
   = (Ok [Frame_StreamOpen (FlowId 7), Frame_StreamOpen (FlowId 7)],
      \<lparr>maximum_payload = 64, buffered = []\<rparr>)"
proof (rule decoder_chunking)
  let ?enc = "[0x10, 0, 0, 8, 0, 0, 0, 0, 0, 0, 0, 7] :: bytes"
  show "FrameDecoder_new 64 = Ok \<lparr>maximum_payload = 64, buffered = []\<rparr>"
    by (simp add: FrameDecoder_new_def)
  show "list_all2 (\<lambda>f bs. wf_frame f \<and> Frame_encode f = Ok bs \<and> length bs \<le> FRAME_HEADER_BYTES + 64)
      [Frame_StreamOpen (FlowId 7), Frame_StreamOpen (FlowId 7)] [?enc, ?enc]"
    using frame_decode_encode [OF stream_open_decode] by simp
qed simp

text \<open>
  No byte is lost or invented: after any pushes that succeed, the input is the concatenation
  of the encodings of the frames returned followed by what is still buffered, and what is
  buffered is less than one frame of the configured maximum size.
\<close>

theorem decoder_no_loss:
  assumes "FrameDecoder_new m = Ok d" and "push_chunks d chunks = (Ok fs, d')"
  shows "\<exists>encs. map Frame_encode fs = map Ok encs
      \<and> concat chunks = concat encs @ buffered d'
      \<and> FrameDecoder_buffered_len d' < FRAME_HEADER_BYTES + m"
proof -
  have d: "maximum_payload d = m" "buffered d = []" "decoder_idle d"
    using assms(1) by (auto simp: FrameDecoder_new_def decoder_idle_def split: if_splits)
  have "FrameDecoder_push_loop (concat chunks) d [] = (Ok fs, d')"
    using assms(2) by (simp add: push_chunks_concat)
  from push_loop_Ok [OF d(3) this] d show ?thesis
    by (auto simp: decoder_idle_def FrameDecoder_buffered_len_def)
qed

lemma stream_open_then_header:
  "push_chunks \<lparr>maximum_payload = 64, buffered = []\<rparr> [[0x10, 0, 0, 8, 0, 0, 0, 0, 0, 0, 0, 7], [0x10]]
   = (Ok [Frame_StreamOpen (FlowId 7)], \<lparr>maximum_payload = 64, buffered = [0x10]\<rparr>)"
proof -
  let ?d = "\<lparr>maximum_payload = 64, buffered = []\<rparr>"
  have "FrameDecoder_push_loop ([0x10, 0, 0, 8, 0, 0, 0, 0, 0, 0, 0, 7]) ?d []
      = (Ok [Frame_StreamOpen (FlowId 7)], ?d)"
    using push_loop_frame [of "Frame_StreamOpen (FlowId 7)" _ ?d "[]"]
      frame_decode_encode [OF stream_open_decode]
    by (simp del: FrameDecoder_push_loop.simps)
  moreover have "FrameDecoder_push_loop [0x10] ?d frames = (Ok frames, ?d\<lparr>buffered := [0x10]\<rparr>)" for frames
    by (simp add: FrameDecoder_loop.simps)
  ultimately show ?thesis
    using push_loop_append [of "[0x10, 0, 0, 8, 0, 0, 0, 0, 0, 0, 0, 7]" "[0x10]" ?d "[]"]
    by (simp add: push_chunks_concat del: FrameDecoder_push_loop.simps)
qed

theorem decoder_no_loss_witness:
  "\<exists>encs. map Frame_encode [Frame_StreamOpen (FlowId 7)] = map Ok encs
     \<and> concat [[0x10, 0, 0, 8, 0, 0, 0, 0, 0, 0, 0, 7], [0x10]] = concat encs @ [0x10]"
proof -
  have "FrameDecoder_new 64 = Ok \<lparr>maximum_payload = 64, buffered = []\<rparr>"
    by (simp add: FrameDecoder_new_def)
  from decoder_no_loss [OF this stream_open_then_header] show ?thesis
    unfolding FrameDecoder.simps by blast
qed

text \<open>
  A malformed frame poisons the decoder. When a push of a fresh decoder fails, either the
  advertised length was over the limit and the buffer is empty, or the malformed frame stays in
  the buffer: every later push of at least one byte then reports the same error again, whatever
  the byte is, and retains one byte more.
\<close>

theorem decoder_poisoned_forever:
  assumes "FrameDecoder_new m = Ok d" and "push_chunks d chunks = (Err e, d')"
    and "\<And>n. e \<noteq> PayloadTooLarge m n"
  shows "\<exists>d''. FrameDecoder_push d' (b # bs) = (Err e, d'')
      \<and> FrameDecoder_buffered_len d'' = FrameDecoder_buffered_len d' + 1
      \<and> (\<forall>c cs. \<exists>d3. FrameDecoder_push d'' (c # cs) = (Err e, d3)
            \<and> FrameDecoder_buffered_len d3 = FrameDecoder_buffered_len d'' + 1)"
proof -
  have d: "maximum_payload d = m" "decoder_idle d"
    using assms(1) by (auto simp: FrameDecoder_new_def decoder_idle_def split: if_splits)
  have "FrameDecoder_push_loop (concat chunks) d [] = (Err e, d')"
    using assms(2) by (simp add: push_chunks_concat)
  from push_loop_Err [OF d(2) this] d assms(3) have "decoder_poisoned e d'"
    by auto
  note first = poisoned_loop [OF this, of "[b]"]
  note second = poisoned_loop [OF conjunct2 [OF first]]
  show ?thesis
    using first second [of "[c]" for c] by (simp add: FrameDecoder_push_def FrameDecoder_buffered_len_def)
qed

lemma reserved_byte_error:
  "push_chunks \<lparr>maximum_payload = 64, buffered = []\<rparr> [[0x10, 1, 0, 0]]
   = (Err InvalidPayload, \<lparr>maximum_payload = 64, buffered = [0x10, 1, 0, 0]\<rparr>)"
  by (simp add: FrameDecoder_push_def FrameDecoder_loop.simps advertised_length_def be_eval be_nat_def
      Frame_decode_exact_def)

theorem decoder_poisoned_forever_witness:
  "\<exists>d''. FrameDecoder_push \<lparr>maximum_payload = 64, buffered = [0x10, 1, 0, 0]\<rparr> [0x10]
      = (Err InvalidPayload, d'') \<and> FrameDecoder_buffered_len d'' = 5"
proof -
  have "FrameDecoder_new 64 = Ok \<lparr>maximum_payload = 64, buffered = []\<rparr>"
    by (simp add: FrameDecoder_new_def)
  from decoder_poisoned_forever [OF this reserved_byte_error, of "0x10" "[]"] show ?thesis
    by (auto simp: FrameDecoder_buffered_len_def)
qed

end
