(* ===== verification/Wire_Datagram.thy ===== *)
theory Wire_Datagram
  imports Wire_Reader
begin

text \<open>
  The application envelopes carried by native unreliable datagrams,
  \<^verbatim>\<open>crates/velum-protocol/src/datagram.rs\<close>: the session identifier, the two directions, the
  encoder with its bounds and the decoder over its own byte cursor. The field codecs are
  instances of the contract \<open>wire_codec\<close> of the byte cursor.

  A socket address is the standard library's: an IPv4 or IPv6 address with a port, and for IPv6
  the flow information and scope identifier, which the wire format does not carry.
\<close>

section \<open>Addresses\<close>

datatype IpAddr = IpV4 bytes | IpV6 bytes

datatype SocketAddr =
    SocketV4 bytes u16
  | SocketV6 bytes u16 u32 u32

fun SocketAddr_ip :: "SocketAddr \<Rightarrow> IpAddr" where
  "SocketAddr_ip (SocketV4 octets _) = IpV4 octets"
| "SocketAddr_ip (SocketV6 octets _ _ _) = IpV6 octets"

fun SocketAddr_port :: "SocketAddr \<Rightarrow> u16" where
  "SocketAddr_port (SocketV4 _ port) = port"
| "SocketAddr_port (SocketV6 _ port _ _) = port"

text \<open>\<^verbatim>\<open>SocketAddr::new\<close>: flow information and scope identifier are zero.\<close>

fun SocketAddr_new :: "IpAddr \<Rightarrow> u16 \<Rightarrow> SocketAddr" where
  "SocketAddr_new (IpV4 octets) port = SocketV4 octets port"
| "SocketAddr_new (IpV6 octets) port = SocketV6 octets port 0 0"

fun wf_ip :: "IpAddr \<Rightarrow> bool" where
  "wf_ip (IpV4 octets) = (length octets = 4)"
| "wf_ip (IpV6 octets) = (length octets = 16)"

definition wf_socket :: "SocketAddr \<Rightarrow> bool" where
  "wf_socket a = wf_ip (SocketAddr_ip a)"

text \<open>An address the wire can represent: no flow information and no scope.\<close>

definition plain_socket :: "SocketAddr \<Rightarrow> bool" where
  "plain_socket a = (SocketAddr_new (SocketAddr_ip a) (SocketAddr_port a) = a)"

section \<open>Envelopes\<close>

abbreviation MAX_DATAGRAM_PAYLOAD_BYTES :: nat where
  "MAX_DATAGRAM_PAYLOAD_BYTES \<equiv> 60 * 1024"

abbreviation MAX_DATAGRAM_CREDENTIAL_BYTES :: nat where
  "MAX_DATAGRAM_CREDENTIAL_BYTES \<equiv> 128"

definition MAX_DATAGRAM_ENVELOPE_BYTES :: nat where
  "MAX_DATAGRAM_ENVELOPE_BYTES = MAX_DATAGRAM_PAYLOAD_BYTES + 29 + MAX_DATAGRAM_CREDENTIAL_BYTES"

definition CLIENT_TO_SERVER :: u8 where "CLIENT_TO_SERVER = 0x01"
definition SERVER_TO_CLIENT :: u8 where "SERVER_TO_CLIENT = 0x02"
definition IPV4 :: u8 where "IPV4 = 0x04"
definition IPV6 :: u8 where "IPV6 = 0x06"

datatype DatagramSessionId = DatagramSessionId (DatagramSessionId_get: u64)
datatype DatagramSessionIdError = SessionIdZero

definition DatagramSessionId_new :: "u64 \<Rightarrow> (DatagramSessionIdError, DatagramSessionId) result" where
  "DatagramSessionId_new v = (if v = 0 then Err SessionIdZero else Ok (DatagramSessionId v))"

datatype Datagram =
    ClientToServer (dg_credential: bytes) (dg_session: DatagramSessionId) (dg_address: SocketAddr)
      (dg_payload: bytes)
  | ServerToClient (dg_session: DatagramSessionId) (dg_address: SocketAddr) (dg_payload: bytes)

datatype DatagramEncodeError =
    EncodeInvalidCredentialLength nat nat nat
  | EncodePayloadTooLarge nat nat

datatype DatagramDecodeError =
    TooShort
  | TooLarge nat nat
  | UnknownDirection u8
  | DecodeInvalidCredentialLength nat nat nat
  | InvalidAddressFamily u8
  | ZeroSessionId

section \<open>Encoder\<close>

definition push_address :: "bytes \<Rightarrow> SocketAddr \<Rightarrow> bytes" where
  "push_address bs address =
     (case SocketAddr_ip address of
        IpV4 octets \<Rightarrow> (bs @ [IPV4]) @ octets
      | IpV6 octets \<Rightarrow> (bs @ [IPV6]) @ octets)
     @ u16_to_be_bytes (SocketAddr_port address)"

fun Datagram_fields ::
  "Datagram \<Rightarrow> u8 \<times> bytes option \<times> DatagramSessionId \<times> SocketAddr \<times> bytes" where
  "Datagram_fields (ClientToServer cred sid dest payload) =
     (CLIENT_TO_SERVER, Some cred, sid, dest, payload)"
| "Datagram_fields (ServerToClient sid src payload) = (SERVER_TO_CLIENT, None, sid, src, payload)"

definition credential_length_ok :: "nat \<Rightarrow> bool" where
  "credential_length_ok n = (1 \<le> n \<and> n \<le> MAX_DATAGRAM_CREDENTIAL_BYTES)"

definition Datagram_encode :: "Datagram \<Rightarrow> (DatagramEncodeError, bytes) result" where
  "Datagram_encode self =
     (case Datagram_fields self of (direction, cred, sid, address, payload) \<Rightarrow>
        if (case cred of Some c \<Rightarrow> \<not> credential_length_ok (length c) | None \<Rightarrow> False)
        then Err (EncodeInvalidCredentialLength 1 MAX_DATAGRAM_CREDENTIAL_BYTES (length (the cred)))
        else if length payload > MAX_DATAGRAM_PAYLOAD_BYTES
        then Err (EncodePayloadTooLarge MAX_DATAGRAM_PAYLOAD_BYTES (length payload))
        else
          let encoded = [direction];
              encoded = (case cred of
                  Some c \<Rightarrow> (encoded @ [word_of_nat (length c)]) @ c
                | None \<Rightarrow> encoded);
              encoded = encoded @ u64_to_be_bytes (DatagramSessionId_get sid);
              encoded = push_address encoded address
          in Ok (encoded @ payload))"

section \<open>Decoder\<close>

type_synonym 'a datagram_reading = "(DatagramDecodeError, 'a) reading"

text \<open>\<^verbatim>\<open>take\<close> and \<^verbatim>\<open>take_slice\<close> have the same body.\<close>

definition DReader_take :: "nat \<Rightarrow> bytes datagram_reading" where
  "DReader_take n = rd_fixed TooShort n"

definition DReader_u8 :: "u8 datagram_reading" where
  "DReader_u8 r =
     (if rd_offset r < length (rd_bytes r)
      then Ok (rd_bytes r ! rd_offset r, r\<lparr>rd_offset := rd_offset r + 1\<rparr>)
      else Err TooShort)"

definition DReader_u64 :: "u64 datagram_reading" where
  "DReader_u64 = rd_bind (DReader_take 8) (\<lambda>bs. rd_return (u64_from_be_bytes bs))"

definition DReader_ip :: "u8 \<Rightarrow> IpAddr datagram_reading" where
  "DReader_ip family =
     (if family = IPV4 then rd_bind (DReader_take 4) (\<lambda>o4. rd_return (IpV4 o4))
      else if family = IPV6 then rd_bind (DReader_take 16) (\<lambda>o6. rd_return (IpV6 o6))
      else (\<lambda>_. Err (InvalidAddressFamily family)))"

definition DReader_address :: "SocketAddr datagram_reading" where
  "DReader_address =
     rd_bind DReader_u8 (\<lambda>family. rd_bind (DReader_ip family) (\<lambda>ip.
     rd_bind (DReader_take 2) (\<lambda>port. rd_return (SocketAddr_new ip (u16_from_be_bytes port)))))"

definition DReader_credential :: "u8 \<Rightarrow> bytes datagram_reading" where
  "DReader_credential direction =
     (if direction = CLIENT_TO_SERVER then
        rd_bind DReader_u8 (\<lambda>b.
          if \<not> credential_length_ok (unat b)
          then (\<lambda>_. Err (DecodeInvalidCredentialLength 1 MAX_DATAGRAM_CREDENTIAL_BYTES (unat b)))
          else DReader_take (unat b))
      else rd_return [])"

definition DReader_session :: "DatagramSessionId datagram_reading" where
  "DReader_session = rd_bind DReader_u64 (\<lambda>v.
     rd_lift (map_err (\<lambda>_. ZeroSessionId) (DatagramSessionId_new v)))"

definition Datagram_body_reader :: "Datagram datagram_reading" where
  "Datagram_body_reader =
     rd_bind DReader_u8 (\<lambda>direction.
     rd_bind (DReader_credential direction) (\<lambda>cred.
     rd_bind DReader_session (\<lambda>sid.
     rd_bind DReader_address (\<lambda>address.
     rd_bind rd_take_remaining (\<lambda>payload.
       if length payload > MAX_DATAGRAM_PAYLOAD_BYTES
       then (\<lambda>_. Err (TooLarge MAX_DATAGRAM_PAYLOAD_BYTES (length payload)))
       else if direction = CLIENT_TO_SERVER
       then rd_return (ClientToServer cred sid address payload)
       else if direction = SERVER_TO_CLIENT
       then rd_return (ServerToClient sid address payload)
       else (\<lambda>_. Err (UnknownDirection direction)))))))"

definition Datagram_decode :: "bytes \<Rightarrow> (DatagramDecodeError, Datagram) result" where
  "Datagram_decode bs =
     (if length bs > MAX_DATAGRAM_ENVELOPE_BYTES
      then Err (TooLarge MAX_DATAGRAM_ENVELOPE_BYTES (length bs))
      else and_then (Datagram_body_reader (Reader_new bs)) (\<lambda>(datagram, _). Ok datagram))"

text \<open>What the Rust types of an envelope guarantee, and what the wire can represent.\<close>

definition wf_datagram :: "Datagram \<Rightarrow> bool" where
  "wf_datagram d =
     (wf_socket (dg_address d) \<and> plain_socket (dg_address d)
      \<and> DatagramSessionId_get (dg_session d) \<noteq> 0)"

text \<open>The bytes of an address, as the specification of \<^verbatim>\<open>push_address\<close>.\<close>

fun ip_bytes :: "IpAddr \<Rightarrow> bytes" where
  "ip_bytes (IpV4 octets) = IPV4 # octets"
| "ip_bytes (IpV6 octets) = IPV6 # octets"

definition address_bytes :: "SocketAddr \<Rightarrow> bytes" where
  "address_bytes a = ip_bytes (SocketAddr_ip a) @ u16_to_be_bytes (SocketAddr_port a)"

definition credential_bytes :: "Datagram \<Rightarrow> bytes" where
  "credential_bytes d = (case d of
      ClientToServer cred _ _ _ \<Rightarrow> CLIENT_TO_SERVER # word_of_nat (length cred) # cred
    | ServerToClient _ _ _ \<Rightarrow> [SERVER_TO_CLIENT])"

definition credential_ok :: "Datagram \<Rightarrow> bool" where
  "credential_ok d = (case d of
      ClientToServer cred _ _ _ \<Rightarrow> credential_length_ok (length cred)
    | ServerToClient _ _ _ \<Rightarrow> True)"

section \<open>The field codecs\<close>

lemma DReader_u8_at:
  "DReader_u8 (rd_at pre rest) =
     (case rest of [] \<Rightarrow> Err TooShort | b # bs \<Rightarrow> Ok (b, rd_at (pre @ [b]) bs))"
  by (cases rest) (simp_all add: DReader_u8_def rd_at_def)

interpretation dg_u8: wire_codec "\<lambda>b. [b]" DReader_u8 "\<lambda>_. True"
  by unfold_locales (auto simp: DReader_u8_at split: list.splits)

interpretation dg_take: wire_codec "\<lambda>x. x" "DReader_take n" "\<lambda>x. length x = n" for n
  unfolding DReader_take_def by unfold_locales

interpretation dg_session: wire_codec "\<lambda>s. u64_to_be_bytes (DatagramSessionId_get s)"
  DReader_session "\<lambda>s. DatagramSessionId_get s \<noteq> 0"
  unfolding DReader_session_def DReader_u64_def
proof unfold_locales
  fix s :: DatagramSessionId and pre rest :: bytes
  assume "DatagramSessionId_get s \<noteq> 0"
    "rd_small (pre @ u64_to_be_bytes (DatagramSessionId_get s) @ rest)"
  then show "rd_bind (rd_bind (DReader_take 8) (\<lambda>bs. rd_return (u64_from_be_bytes bs)))
      (\<lambda>v. rd_lift (map_err (\<lambda>_. ZeroSessionId) (DatagramSessionId_new v)))
      (rd_at pre (u64_to_be_bytes (DatagramSessionId_get s) @ rest))
    = Ok (s, rd_at (pre @ u64_to_be_bytes (DatagramSessionId_get s)) rest)"
    by (cases s) (simp add: rd_bind_def [of "rd_bind _ _"] dg_take.bind_enc DatagramSessionId_new_def rd_lift_def)
qed (auto simp: rd_bind_Ok_iff dg_take.dec_iff rd_simps result_simps DatagramSessionId_new_def split: if_splits)

lemma push_address_bytes: "push_address bs a = bs @ address_bytes a"
  by (cases "SocketAddr_ip a") (simp_all add: push_address_def address_bytes_def)

lemma IPV4_neq_IPV6 [simp]: "IPV4 \<noteq> IPV6" "IPV6 \<noteq> IPV4"
  by (simp_all add: IPV4_def IPV6_def)

lemma directions_neq [simp]: "CLIENT_TO_SERVER \<noteq> SERVER_TO_CLIENT" "SERVER_TO_CLIENT \<noteq> CLIENT_TO_SERVER"
  by (simp_all add: CLIENT_TO_SERVER_def SERVER_TO_CLIENT_def)

lemma plain_socket_new [simp]: "plain_socket (SocketAddr_new ip port)"
  by (cases ip) (simp_all add: plain_socket_def)

lemma SocketAddr_new_parts [simp]:
  "SocketAddr_ip (SocketAddr_new ip port) = ip" "SocketAddr_port (SocketAddr_new ip port) = port"
  by (cases ip; simp)+

lemma DReader_ip_iff:
  assumes "rd_small (pre @ rest)"
  shows "DReader_ip family (rd_at pre rest) = Ok (ip, r')
    \<longleftrightarrow> wf_ip ip \<and> (\<exists>octets rest'. ip_bytes ip = family # octets \<and> rest = octets @ rest'
          \<and> r' = rd_at (pre @ octets) rest')"
  using assms
  by (cases ip) (auto simp: DReader_ip_def dg_take.bind_iff)

interpretation dg_address: wire_codec address_bytes DReader_address
  "\<lambda>a. wf_socket a \<and> plain_socket a"
proof unfold_locales
  fix a :: SocketAddr and pre rest :: bytes
  assume wf: "wf_socket a \<and> plain_socket a" and small: "rd_small (pre @ address_bytes a @ rest)"
  obtain family octets where ip: "ip_bytes (SocketAddr_ip a) = family # octets"
    by (cases "SocketAddr_ip a") auto
  let ?port = "u16_to_be_bytes (SocketAddr_port a)"
  have "DReader_ip family (rd_at (pre @ [family]) (octets @ ?port @ rest))
      = Ok (SocketAddr_ip a, rd_at (pre @ family # octets) (?port @ rest))"
    using wf small ip by (subst DReader_ip_iff) (auto simp: wf_socket_def address_bytes_def)
  then show "DReader_address (rd_at pre (address_bytes a @ rest))
      = Ok (a, rd_at (pre @ address_bytes a) rest)"
    using wf small ip
    by (simp add: DReader_address_def address_bytes_def dg_u8.bind_enc [simplified]
        rd_bind_def [of "DReader_ip _"] dg_take.bind_enc plain_socket_def)
next
  fix a :: SocketAddr and pre rest :: bytes and r'
  assume small: "rd_small (pre @ rest)" and "DReader_address (rd_at pre rest) = Ok (a, r')"
  then show "(wf_socket a \<and> plain_socket a)
      \<and> (\<exists>rest'. rest = address_bytes a @ rest' \<and> r' = rd_at (pre @ address_bytes a) rest')"
    by (auto simp: DReader_address_def dg_u8.bind_iff rd_bind_Ok_iff [of "DReader_ip _"]
        DReader_ip_iff dg_take.bind_iff wf_socket_def address_bytes_def)
qed

section \<open>Whole envelopes\<close>

lemma Datagram_encode_Ok_iff:
  "Datagram_encode d = Ok bs \<longleftrightarrow>
     credential_ok d \<and> length (dg_payload d) \<le> MAX_DATAGRAM_PAYLOAD_BYTES
     \<and> bs = credential_bytes d @ u64_to_be_bytes (DatagramSessionId_get (dg_session d))
            @ address_bytes (dg_address d) @ dg_payload d"
  by (cases d) (auto simp: Datagram_encode_def credential_ok_def credential_bytes_def
      push_address_bytes Let_def split: if_splits)

lemma length_address_bytes: "wf_socket a \<Longrightarrow> length (address_bytes a) \<le> 19"
  by (cases a) (simp_all add: wf_socket_def address_bytes_def)

lemma Datagram_encode_length:
  assumes "wf_datagram d" "Datagram_encode d = Ok bs"
  shows "length bs \<le> MAX_DATAGRAM_ENVELOPE_BYTES"
proof -
  have "length (credential_bytes d) \<le> 2 + MAX_DATAGRAM_CREDENTIAL_BYTES"
    using assms(2)
    by (cases d) (auto simp: Datagram_encode_Ok_iff credential_bytes_def credential_ok_def credential_length_ok_def)
  then show ?thesis
    using assms length_address_bytes [of "dg_address d"]
    by (auto simp: Datagram_encode_Ok_iff MAX_DATAGRAM_ENVELOPE_BYTES_def wf_datagram_def)
qed

lemma unat_length_byte: "credential_length_ok (length c) \<Longrightarrow> unat (word_of_nat (length c) :: u8) = length c"
  by (simp add: credential_length_ok_def unat_of_nat)

lemmas dg_bind_iff = dg_u8.bind_iff dg_take.bind_iff dg_session.bind_iff dg_address.bind_iff

lemma DReader_credential_iff:
  assumes "rd_small (pre @ rest)"
  shows "DReader_credential direction (rd_at pre rest) = Ok (cred, r') \<longleftrightarrow>
    (if direction = CLIENT_TO_SERVER
     then credential_length_ok (length cred)
       \<and> (\<exists>rest'. rest = word_of_nat (length cred) # cred @ rest'
            \<and> r' = rd_at (pre @ word_of_nat (length cred) # cred) rest')
     else cred = [] \<and> r' = rd_at pre rest)"
proof (cases "direction = CLIENT_TO_SERVER")
  case True
  have "rd_bind DReader_u8 (\<lambda>b. if \<not> credential_length_ok (unat b)
      then (\<lambda>_. Err (DecodeInvalidCredentialLength 1 MAX_DATAGRAM_CREDENTIAL_BYTES (unat b)))
      else DReader_take (unat b)) (rd_at pre rest) = Ok (cred, r')
    \<longleftrightarrow> (\<exists>b rest'. credential_length_ok (unat b) \<and> length cred = unat b \<and> rest = b # cred @ rest'
          \<and> r' = rd_at (pre @ b # cred) rest')"
    using assms by (auto simp: dg_u8.bind_iff dg_take.dec_iff split: if_splits)
  also have "\<dots> \<longleftrightarrow> credential_length_ok (length cred)
       \<and> (\<exists>rest'. rest = word_of_nat (length cred) # cred @ rest'
            \<and> r' = rd_at (pre @ word_of_nat (length cred) # cred) rest')"
    by (auto simp: unat_length_byte)
  finally show ?thesis
    using True by (simp add: DReader_credential_def)
qed (auto simp: DReader_credential_def)

interpretation dg_credential: wire_codec "\<lambda>c. word_of_nat (length c) # c"
  "DReader_credential CLIENT_TO_SERVER" "\<lambda>c. credential_length_ok (length c)"
  by unfold_locales (auto simp: DReader_credential_iff)

lemma DReader_credential_other:
  "direction \<noteq> CLIENT_TO_SERVER \<Longrightarrow> DReader_credential direction = rd_return []"
  by (simp add: DReader_credential_def)

lemma rd_bind_return [simp]: "rd_bind (rd_return a) f = f a"
  by (simp add: fun_eq_iff rd_bind_def)

lemma Datagram_body_complete:
  assumes "wf_datagram d" "Datagram_encode d = Ok bs" "rd_small bs"
  shows "\<exists>r. Datagram_body_reader (rd_at [] bs) = Ok (d, r)"
  using assms
  by (cases d)
    (auto simp: Datagram_body_reader_def dg_u8.bind_enc [simplified] dg_credential.bind_enc [simplified]
      DReader_credential_other dg_session.bind_enc dg_address.bind_enc rd_bind_take_remaining
      Datagram_encode_Ok_iff credential_ok_def credential_bytes_def wf_datagram_def)

lemma Datagram_body_sound:
  assumes "Datagram_body_reader (rd_at [] bs) = Ok (d, r)" "rd_small bs"
  shows "wf_datagram d \<and> Datagram_encode d = Ok bs"
proof -
  obtain direction rest cred r1 where dir: "bs = direction # rest"
    and cred: "DReader_credential direction (rd_at [direction] rest) = Ok (cred, r1)"
    and body: "rd_bind DReader_session (\<lambda>sid. rd_bind DReader_address (\<lambda>address.
       rd_bind rd_take_remaining (\<lambda>payload.
       if length payload > MAX_DATAGRAM_PAYLOAD_BYTES
       then (\<lambda>_. Err (TooLarge MAX_DATAGRAM_PAYLOAD_BYTES (length payload)))
       else if direction = CLIENT_TO_SERVER
       then rd_return (ClientToServer cred sid address payload)
       else if direction = SERVER_TO_CLIENT
       then rd_return (ServerToClient sid address payload)
       else (\<lambda>_. Err (UnknownDirection direction))))) r1 = Ok (d, r)"
    using assms
    by (auto simp: Datagram_body_reader_def dg_u8.bind_iff rd_bind_Ok_iff [of "DReader_credential _"])
  show ?thesis
  proof (cases "direction = CLIENT_TO_SERVER")
    case True
    then show ?thesis
      using cred body assms(2) dir
      by (auto simp: DReader_credential_iff dg_bind_iff rd_bind_take_remaining Datagram_encode_Ok_iff
          credential_ok_def credential_bytes_def wf_datagram_def split: if_splits)
  next
    case False
    then show ?thesis
      using cred body assms(2) dir
      by (auto simp: DReader_credential_iff dg_bind_iff rd_bind_take_remaining Datagram_encode_Ok_iff
          credential_ok_def credential_bytes_def wf_datagram_def split: if_splits)
  qed
qed

text \<open>The decoder accepts exactly the encodings of well-formed envelopes.\<close>

lemma Datagram_decode_Ok_iff:
  "Datagram_decode bs = Ok d \<longleftrightarrow> wf_datagram d \<and> Datagram_encode d = Ok bs"
  (is "?L \<longleftrightarrow> ?R")
proof -
  have "?L \<longleftrightarrow> length bs \<le> MAX_DATAGRAM_ENVELOPE_BYTES
      \<and> (\<exists>r. Datagram_body_reader (rd_at [] bs) = Ok (d, r))"
    by (auto simp: Datagram_decode_def Reader_new_at result_simps split: if_splits prod.splits)
  moreover have "rd_small bs" if "length bs \<le> MAX_DATAGRAM_ENVELOPE_BYTES"
    using that by (simp add: rd_small_def MAX_DATAGRAM_ENVELOPE_BYTES_def)
  ultimately show ?thesis
    using Datagram_encode_length Datagram_body_complete Datagram_body_sound by blast
qed

section \<open>Properties\<close>

text \<open>
  C11. The envelope codec is exact in both directions: \<^verbatim>\<open>decode\<close> accepts a byte string precisely
  when it is the encoding of a well-formed envelope, and returns that envelope. The addresses it
  can carry are those without IPv6 flow information and scope.
\<close>

theorem datagram_codec_exact:
  "Datagram_decode bs = Ok d \<longleftrightarrow> wf_datagram d \<and> Datagram_encode d = Ok bs"
  by (rule Datagram_decode_Ok_iff)

text \<open>
  The declared envelope bound is right and tight: no encoding of a well-formed envelope is
  longer than \<^verbatim>\<open>MAX_DATAGRAM_ENVELOPE_BYTES\<close>, and a full credential with an IPv6 destination and a
  full payload reaches it.
\<close>

theorem datagram_envelope_bound:
  "(wf_datagram d \<and> Datagram_encode d = Ok bs \<longrightarrow> length bs \<le> MAX_DATAGRAM_ENVELOPE_BYTES)
   \<and> (\<exists>bs'. Datagram_encode
         (ClientToServer (replicate MAX_DATAGRAM_CREDENTIAL_BYTES 1) (DatagramSessionId 1)
           (SocketV6 (replicate 16 0) 53 0 0) (replicate MAX_DATAGRAM_PAYLOAD_BYTES 0)) = Ok bs'
        \<and> length bs' = MAX_DATAGRAM_ENVELOPE_BYTES)"
  using Datagram_encode_length
  by (auto simp: Datagram_encode_Ok_iff credential_ok_def credential_bytes_def credential_length_ok_def
      address_bytes_def MAX_DATAGRAM_ENVELOPE_BYTES_def)

theorem datagram_envelope_bound_witness:
  "length [2, 0, 0, 0, 0, 0, 0, 0, 9, 4, 10, 0, 0, 1, 0, 53 :: u8] \<le> MAX_DATAGRAM_ENVELOPE_BYTES"
proof -
  let ?d = "ServerToClient (DatagramSessionId 9) (SocketV4 [10, 0, 0, 1] 53) []"
  have "wf_datagram ?d"
    by (simp add: wf_datagram_def wf_socket_def plain_socket_def)
  moreover have "Datagram_encode ?d = Ok [2, 0, 0, 0, 0, 0, 0, 0, 9, 4, 10, 0, 0, 1, 0, 53]"
    by (simp add: Datagram_encode_def push_address_bytes address_bytes_def be_eval SERVER_TO_CLIENT_def
        IPV4_def)
  ultimately show ?thesis
    using datagram_envelope_bound by blast
qed

end
