(* ===== verification/Server_Admission.thy ===== *)
theory Server_Admission
  imports Wire_Datagram Ordered_Map State_Runs "HOL-Library.Product_Lexorder"
begin

text \<open>
  \<^verbatim>\<open>crates/velum-server/src/lib.rs\<close>: who may use the relay, what they may reach and how much.
  The authenticator maps a shared secret to its principal, the destination policy is an exact
  allowlist, and the admission control counts sessions per principal and flows per session.
  \<^verbatim>\<open>subtle\<close>'s constant-time comparison returns whether the two slices are equal.
\<close>

section \<open>Authentication\<close>

datatype PrincipalId = PrincipalId (principal_value: u64)

instantiation PrincipalId :: linorder
begin
definition less_eq_PrincipalId :: "PrincipalId \<Rightarrow> PrincipalId \<Rightarrow> bool" where
  "less_eq_PrincipalId a b = (principal_value a \<le> principal_value b)"
definition less_PrincipalId :: "PrincipalId \<Rightarrow> PrincipalId \<Rightarrow> bool" where
  "less_PrincipalId a b = (principal_value a < principal_value b)"
instance
  by standard (auto simp: less_eq_PrincipalId_def less_PrincipalId_def PrincipalId.expand)
end

datatype AuthenticationError =
    InvalidCredential
  | DuplicateCredential
  | DuplicatePrincipal
  | InconsistentCredentialLength

record PrincipalCredential =
  cred_principal :: PrincipalId
  cred_secret :: bytes

definition PrincipalCredential_new ::
  "PrincipalId \<Rightarrow> bytes \<Rightarrow> (AuthenticationError, PrincipalCredential) result" where
  "PrincipalCredential_new pid secret =
     (if secret = [] then Err InvalidCredential
      else Ok \<lparr>cred_principal = pid, cred_secret = secret\<rparr>)"

record Authenticator =
  credentials :: "(PrincipalId, bytes) btree_map"
  secret_length :: "nat option"

fun Authenticator_configure ::
  "(PrincipalId, bytes) btree_map \<Rightarrow> nat option \<Rightarrow> PrincipalCredential list
   \<Rightarrow> (AuthenticationError, Authenticator) result" where
  "Authenticator_configure configured len [] =
     Ok \<lparr>credentials = configured, secret_length = len\<rparr>"
| "Authenticator_configure configured len (credential # rest) =
     (if (case len of None \<Rightarrow> False | Some expected \<Rightarrow> length (cred_secret credential) \<noteq> expected)
      then Err InconsistentCredentialLength
      else if cred_secret credential \<in> set (bt_values configured) then Err DuplicateCredential
      else if bt_get configured (cred_principal credential) \<noteq> None then Err DuplicatePrincipal
      else Authenticator_configure
             (bt_insert (cred_principal credential) (cred_secret credential) configured)
             (Some (length (cred_secret credential))) rest)"

definition Authenticator_new ::
  "PrincipalCredential list \<Rightarrow> (AuthenticationError, Authenticator) result" where
  "Authenticator_new cs = Authenticator_configure [] None cs"

definition Authenticator_authenticate ::
  "Authenticator \<Rightarrow> bytes \<Rightarrow> (AuthenticationError, PrincipalId) result" where
  "Authenticator_authenticate self secret =
     (if secret_length self \<noteq> Some (length secret) then Err InvalidCredential
      else
        ok_or (foldl (\<lambda>authenticated (pid, configured).
                 if configured = secret then Some pid else authenticated)
               None (credentials self)) InvalidCredential)"

section \<open>Destinations\<close>

text \<open>The keys of the allowlist; only membership is ever asked for.\<close>

record DestinationPolicy =
  allowed :: "SocketAddr list"

definition DestinationPolicy_new :: "SocketAddr list \<Rightarrow> DestinationPolicy" where
  "DestinationPolicy_new targets = \<lparr>allowed = remdups targets\<rparr>"

definition DestinationPolicy_allows :: "DestinationPolicy \<Rightarrow> SocketAddr \<Rightarrow> bool" where
  "DestinationPolicy_allows self target = (target \<in> set (allowed self))"

section \<open>Admission\<close>

record PrincipalQuota =
  max_sessions :: nat
  max_flows_per_session :: nat

datatype AdmissionError = SessionQuotaExceeded | FlowQuotaExceeded | UnknownSession

datatype SessionLease = SessionLease (lease_value: u64)

instantiation SessionLease :: linorder
begin
definition less_eq_SessionLease :: "SessionLease \<Rightarrow> SessionLease \<Rightarrow> bool" where
  "less_eq_SessionLease a b = (lease_value a \<le> lease_value b)"
definition less_SessionLease :: "SessionLease \<Rightarrow> SessionLease \<Rightarrow> bool" where
  "less_SessionLease a b = (lease_value a < lease_value b)"
instance
  by standard (auto simp: less_eq_SessionLease_def less_SessionLease_def SessionLease.expand)
end

record SessionUsage =
  usage_flows :: nat

record AdmissionControl =
  quota :: PrincipalQuota
  next_lease :: u64
  sessions :: "(PrincipalId \<times> SessionLease, SessionUsage) btree_map"

definition AdmissionControl_new :: "PrincipalQuota \<Rightarrow> AdmissionControl" where
  "AdmissionControl_new q = \<lparr>quota = q, next_lease = 0, sessions = []\<rparr>"

definition sessions_of :: "AdmissionControl \<Rightarrow> PrincipalId \<Rightarrow> nat" where
  "sessions_of self pid =
     length (filter (\<lambda>(candidate, _). candidate = pid) (bt_keys (sessions self)))"

definition AdmissionControl_open_session ::
  "AdmissionControl \<Rightarrow> PrincipalId
   \<Rightarrow> ((AdmissionError, SessionLease) result \<times> AdmissionControl) option" where
  "AdmissionControl_open_session self pid =
     (if sessions_of self pid \<ge> max_sessions (quota self)
      then Some (Err SessionQuotaExceeded, self)
      else
        let lease = SessionLease (next_lease self) in
        (case checked_add (next_lease self) 1 of
           None \<Rightarrow> None
         | Some n \<Rightarrow>
             Some (Ok lease, self\<lparr>next_lease := n,
               sessions := bt_insert (pid, lease) \<lparr>usage_flows = 0\<rparr> (sessions self)\<rparr>)))"

definition AdmissionControl_open_flow ::
  "AdmissionControl \<Rightarrow> PrincipalId \<Rightarrow> SessionLease \<Rightarrow> (AdmissionError, unit) result \<times> AdmissionControl"
where
  "AdmissionControl_open_flow self pid lease =
     (case bt_get (sessions self) (pid, lease) of
        None \<Rightarrow> (Err UnknownSession, self)
      | Some usage \<Rightarrow>
          if usage_flows usage \<ge> max_flows_per_session (quota self) then (Err FlowQuotaExceeded, self)
          else (Ok (), self\<lparr>sessions := bt_insert (pid, lease)
                  (usage\<lparr>usage_flows := usage_flows usage + 1\<rparr>) (sessions self)\<rparr>))"

definition AdmissionControl_close_flow ::
  "AdmissionControl \<Rightarrow> PrincipalId \<Rightarrow> SessionLease \<Rightarrow> (AdmissionError, unit) result \<times> AdmissionControl"
where
  "AdmissionControl_close_flow self pid lease =
     (case bt_get (sessions self) (pid, lease) of
        None \<Rightarrow> (Err UnknownSession, self)
      | Some usage \<Rightarrow>
          if usage_flows usage = 0 then (Err UnknownSession, self)
          else (Ok (), self\<lparr>sessions := bt_insert (pid, lease)
                  (usage\<lparr>usage_flows := usage_flows usage - 1\<rparr>) (sessions self)\<rparr>))"

definition AdmissionControl_close_session ::
  "AdmissionControl \<Rightarrow> PrincipalId \<Rightarrow> SessionLease \<Rightarrow> (AdmissionError, unit) result \<times> AdmissionControl"
where
  "AdmissionControl_close_session self pid lease =
     (case bt_get (sessions self) (pid, lease) of
        None \<Rightarrow> (Err UnknownSession, self)
      | Some _ \<Rightarrow> (Ok (), self\<lparr>sessions := bt_remove (pid, lease) (sessions self)\<rparr>))"

section \<open>Histories of the admission control\<close>

datatype admission_op =
    OpenSession PrincipalId
  | OpenFlow PrincipalId SessionLease
  | CloseFlow PrincipalId SessionLease
  | CloseSession PrincipalId SessionLease

datatype admission_outcome = LeaseGranted SessionLease | OtherOutcome

fun admission_step ::
  "admission_op \<Rightarrow> AdmissionControl \<Rightarrow> (admission_outcome \<times> AdmissionControl) option" where
  "admission_step (OpenSession p) a =
     (case AdmissionControl_open_session a p of
        None \<Rightarrow> None
      | Some (Inl _, a') \<Rightarrow> Some (OtherOutcome, a')
      | Some (Inr lease, a') \<Rightarrow> Some (LeaseGranted lease, a'))"
| "admission_step (OpenFlow p l) a = Some (OtherOutcome, snd (AdmissionControl_open_flow a p l))"
| "admission_step (CloseFlow p l) a = Some (OtherOutcome, snd (AdmissionControl_close_flow a p l))"
| "admission_step (CloseSession p l) a = Some (OtherOutcome, snd (AdmissionControl_close_session a p l))"

definition granted_leases :: "(admission_op \<times> admission_outcome) list \<Rightarrow> SessionLease list" where
  "granted_leases log =
     List.map_filter (\<lambda>(_, out). case out of LeaseGranted l \<Rightarrow> Some l | OtherOutcome \<Rightarrow> None) log"

definition admission_inv :: "PrincipalQuota \<Rightarrow> AdmissionControl \<Rightarrow> bool" where
  "admission_inv q a =
     (quota a = q \<and> bt_sorted (sessions a)
      \<and> (\<forall>p. sessions_of a p \<le> max_sessions q)
      \<and> (\<forall>((p, l), u) \<in> set (sessions a). usage_flows u \<le> max_flows_per_session q
            \<and> lease_value l < next_lease a))"

definition lease_history ::
  "(admission_op \<times> admission_outcome) list \<Rightarrow> AdmissionControl \<Rightarrow> bool" where
  "lease_history log a =
     (sorted_wrt (<) (granted_leases log) \<and> (\<forall>l \<in> set (granted_leases log). lease_value l < next_lease a))"

text \<open>A history that opens two sessions for one principal and closes the first.\<close>

definition demo_quota :: PrincipalQuota where
  "demo_quota = \<lparr>max_sessions = 1, max_flows_per_session = 2\<rparr>"

definition demo_admissions :: "admission_op list" where
  "demo_admissions =
     [OpenSession (PrincipalId 7), OpenSession (PrincipalId 7), OpenFlow (PrincipalId 7) (SessionLease 0),
      CloseSession (PrincipalId 7) (SessionLease 0), OpenSession (PrincipalId 7)]"

definition demo_credentials :: "PrincipalCredential list" where
  "demo_credentials =
     [\<lparr>cred_principal = PrincipalId 2, cred_secret = [1, 2]\<rparr>,
      \<lparr>cred_principal = PrincipalId 1, cred_secret = [3, 4]\<rparr>]"

section \<open>Lemmas\<close>

lemmas demo_admission_defs =
  demo_quota_def demo_admissions_def AdmissionControl_new_def AdmissionControl_open_session_def
  AdmissionControl_open_flow_def AdmissionControl_close_session_def sessions_of_def bt_keys_def
  bt_remove_def Let_def checked_add_def granted_leases_def List.map_filter_def

lemma Authenticator_configure_Ok:
  assumes "Authenticator_configure m len cs = Ok a" "bt_sorted m" "inj_on snd (set m)"
    "\<forall>(p, s) \<in> set m. len = Some (length s)"
  shows "bt_sorted (credentials a) \<and> inj_on snd (set (credentials a))
    \<and> (\<forall>(p, s) \<in> set (credentials a). secret_length a = Some (length s))
    \<and> set (credentials a) = set m \<union> (\<lambda>c. (cred_principal c, cred_secret c)) ` set cs"
  using assms
proof (induction cs arbitrary: m len)
  case (Cons c cs)
  let ?m = "bt_insert (cred_principal c) (cred_secret c) m"
  have ok: "case len of None \<Rightarrow> True | Some n \<Rightarrow> length (cred_secret c) = n"
    "cred_secret c \<notin> set (bt_values m)" "bt_get m (cred_principal c) = None"
    "Authenticator_configure ?m (Some (length (cred_secret c))) cs = Ok a"
    using Cons.prems(1) by (auto split: if_splits option.splits)
  have new: "cred_principal c \<notin> fst ` set m"
    using ok(3) by (simp add: bt_get_None_iff)
  then have "{e \<in> set m. fst e \<noteq> cred_principal c} = set m"
    by force
  then have set: "set ?m = insert (cred_principal c, cred_secret c) (set m)"
    using set_bt_insert [OF Cons.prems(2)] by simp
  have "inj_on snd (set ?m)"
    using Cons.prems(3) ok(2) by (auto simp: set bt_values_def inj_on_insert)
  moreover have "\<forall>(p, s) \<in> set ?m. Some (length (cred_secret c)) = Some (length s)"
    using Cons.prems(4) ok(1) by (auto simp: set)
  ultimately have IH: "bt_sorted (credentials a) \<and> inj_on snd (set (credentials a))
      \<and> (\<forall>(p, s) \<in> set (credentials a). secret_length a = Some (length s))
      \<and> set (credentials a) = set ?m \<union> (\<lambda>c. (cred_principal c, cred_secret c)) ` set cs"
    by (rule Cons.IH [OF ok(4) bt_sorted_insert [OF Cons.prems(2)]])
  moreover have "set ?m \<union> (\<lambda>c. (cred_principal c, cred_secret c)) ` set cs =
      set m \<union> (\<lambda>c. (cred_principal c, cred_secret c)) ` set (c # cs)"
    by (simp add: set)
  ultimately show ?case
    by metis
qed auto

lemma authenticate_fold:
  "foldl (\<lambda>acc (p, s). if s = secret then Some p else acc) acc m =
     (case filter (\<lambda>(p, s). s = secret) m of [] \<Rightarrow> acc | xs \<Rightarrow> Some (fst (last xs)))"
  by (induction m arbitrary: acc) (auto split: list.splits)

lemma sessions_of_insert:
  assumes "bt_sorted (sessions a)"
  shows "sessions_of (a\<lparr>sessions := bt_insert (p, l) u (sessions a)\<rparr>) q =
    (if q = p \<and> bt_get (sessions a) (p, l) = None then Suc (sessions_of a q) else sessions_of a q)"
proof -
  have "length (filter (\<lambda>(c, _). c = q) (map fst (bt_insert (p, l) u m))) =
      (if q = p \<and> bt_get m (p, l) = None then Suc (length (filter (\<lambda>(c, _). c = q) (map fst m)))
       else length (filter (\<lambda>(c, _). c = q) (map fst m)))" if "bt_sorted m" for m
    using that
  proof (induction "(p, l)" u m rule: bt_insert.induct)
    case (2 u k v m)
    have "bt_get m (p, l) = None" if "(p, l) < k"
      using 2(2) that by (force simp: bt_get_None_iff)
    then show ?case
      using 2 by (auto split: if_splits)
  qed auto
  from this [OF assms] show ?thesis
    by (simp add: sessions_of_def bt_keys_def)
qed

lemma sessions_of_remove_le: "sessions_of (a\<lparr>sessions := bt_remove k (sessions a)\<rparr>) q \<le> sessions_of a q"
proof -
  have "length (filter P (map fst (filter Q m))) \<le> length (filter P (map fst m))" for P Q and m :: "('x \<times> 'y) list"
    by (induction m) auto
  then show ?thesis
    by (simp add: sessions_of_def bt_keys_def bt_remove_def)
qed

lemma granted_leases_snoc:
  "granted_leases (log @ [(op, out)]) =
     granted_leases log @ (case out of LeaseGranted l \<Rightarrow> [l] | OtherOutcome \<Rightarrow> [])"
  by (simp add: granted_leases_def List.map_filter_def split: admission_outcome.splits)

lemma lease_history_nil: "lease_history [] a"
  by (simp add: lease_history_def granted_leases_def List.map_filter_def)

lemma admission_inv_new: "admission_inv q (AdmissionControl_new q)"
  by (simp add: admission_inv_def AdmissionControl_new_def sessions_of_def bt_keys_def)

text \<open>Replacing the usage of an open session keeps the session counts.\<close>

lemma admission_inv_usage:
  assumes "admission_inv q a" "bt_get (sessions a) (p, l) = Some v"
    "usage_flows u \<le> max_flows_per_session q"
  shows "admission_inv q (a\<lparr>sessions := bt_insert (p, l) u (sessions a)\<rparr>)"
proof -
  have "((p, l), v) \<in> set (sessions a)"
    using assms(2) by (rule bt_get_SomeD)
  then have "lease_value l < next_lease a"
    using assms(1) by (auto simp: admission_inv_def)
  then show ?thesis
    using assms by (auto simp: admission_inv_def sessions_of_insert bt_sorted_insert set_bt_insert)
qed

lemma admission_inv_open:
  assumes "admission_inv q a" "AdmissionControl_open_session a p = Some (r, a')"
  shows "admission_inv q a'"
proof (cases "sessions_of a p \<ge> max_sessions q")
  case True
  then show ?thesis
    using assms by (auto simp: AdmissionControl_open_session_def admission_inv_def)
next
  case False
  then obtain n where n: "checked_add (next_lease a) 1 = Some n"
    and a': "a' = a\<lparr>next_lease := n,
      sessions := bt_insert (p, SessionLease (next_lease a)) \<lparr>usage_flows = 0\<rparr> (sessions a)\<rparr>"
    using assms by (auto simp: AdmissionControl_open_session_def admission_inv_def Let_def
        split: option.splits)
  have lt: "next_lease a < n"
    using checked_add_SomeD [OF n] by (simp add: word_less_nat_alt)
  have count: "sessions_of (a\<lparr>next_lease := n, sessions := m\<rparr>) r' = sessions_of (a\<lparr>sessions := m\<rparr>) r'" for m r'
    by (simp add: sessions_of_def)
  show ?thesis
    using assms(1) False lt
    by (auto simp: admission_inv_def count sessions_of_insert a' bt_sorted_insert set_bt_insert
        intro: less_trans)
qed

lemma admission_step_inv:
  assumes "admission_inv q a" "admission_step op a = Some (out, a')"
  shows "admission_inv q a'"
proof -
  have quota: "quota a = q"
    using assms(1) by (simp add: admission_inv_def)
  have flows: "usage_flows u \<le> max_flows_per_session q" if "bt_get (sessions a) k = Some u" for k u
    using assms(1) bt_get_SomeD [OF that] by (cases k) (auto simp: admission_inv_def)
  show ?thesis
proof (cases op)
  case (OpenSession p)
  then show ?thesis
    using assms admission_inv_open [OF assms(1)] by (auto split: option.splits sum.splits)
next
  case (OpenFlow p l)
  then show ?thesis
    using assms(2) assms(1) flows admission_inv_usage [OF assms(1)]
    by (cases "bt_get (sessions a) (p, l)")
      (auto simp: AdmissionControl_open_flow_def quota split: if_splits intro: le_trans [OF diff_le_self])
next
  case (CloseFlow p l)
  show ?thesis
  proof (cases "bt_get (sessions a) (p, l)")
    case (Some u)
    have "usage_flows u - 1 \<le> max_flows_per_session q"
      using flows [OF Some] by simp
    then show ?thesis
      using assms CloseFlow Some admission_inv_usage [OF assms(1) Some]
      by (auto simp: AdmissionControl_close_flow_def split: if_splits)
  qed (use assms CloseFlow in \<open>auto simp: AdmissionControl_close_flow_def\<close>)
next
  case (CloseSession p l)
  then show ?thesis
    using assms le_trans [OF sessions_of_remove_le]
    by (auto simp: AdmissionControl_close_session_def admission_inv_def bt_sorted_remove
        set_bt_remove split: option.splits)
qed
qed

lemma admission_step_leases:
  assumes "admission_step op a = Some (out, a')"
  shows "next_lease a \<le> next_lease a'
    \<and> (\<forall>l. out = LeaseGranted l \<longrightarrow> lease_value l = next_lease a \<and> next_lease a < next_lease a')"
proof (cases op)
  case (OpenSession p)
  have "next_lease a < n" if "checked_add (next_lease a) 1 = Some n" for n
    using checked_add_SomeD [OF that] by (simp add: word_less_nat_alt)
  then show ?thesis
    using OpenSession assms
    by (auto simp: AdmissionControl_open_session_def Let_def split: option.splits if_splits
        sum.splits intro: less_imp_le)
qed (use assms in \<open>auto simp: AdmissionControl_open_flow_def AdmissionControl_close_flow_def
  AdmissionControl_close_session_def split: option.splits\<close>)

lemma Authenticator_configure_distinct:
  assumes "Authenticator_configure m len cs = Ok a" "bt_sorted m"
  shows "distinct (map cred_principal cs) \<and> distinct (map cred_secret cs)
    \<and> set (map cred_principal cs) \<inter> fst ` set m = {} \<and> set (map cred_secret cs) \<inter> snd ` set m = {}"
  using assms
proof (induction cs arbitrary: m len)
  case (Cons c cs)
  let ?m = "bt_insert (cred_principal c) (cred_secret c) m"
  have ok: "cred_secret c \<notin> snd ` set m" "cred_principal c \<notin> fst ` set m"
    "Authenticator_configure ?m (Some (length (cred_secret c))) cs = Ok a"
    using Cons.prems(1) by (auto simp: bt_values_def bt_get_None_iff split: if_splits option.splits)
  have "{e \<in> set m. fst e \<noteq> cred_principal c} = set m"
    using ok(2) by force
  then have "set ?m = insert (cred_principal c, cred_secret c) (set m)"
    using set_bt_insert [OF Cons.prems(2)] by simp
  then show ?case
    using Cons.IH [OF ok(3) bt_sorted_insert [OF Cons.prems(2)]] ok by auto
qed simp

lemma authenticate_iff:
  assumes "inj_on snd (set (credentials a))"
    "\<forall>(p, s) \<in> set (credentials a). secret_length a = Some (length s)"
  shows "Authenticator_authenticate a secret = Ok pid \<longleftrightarrow> (pid, secret) \<in> set (credentials a)"
proof -
  let ?hits = "filter (\<lambda>(p, s). s = secret) (credentials a)"
  have fold: "foldl (\<lambda>acc (p, s). if s = secret then Some p else acc) None (credentials a)
      = (if ?hits = [] then None else Some (fst (last ?hits)))"
    by (simp add: authenticate_fold split: list.splits)
  show ?thesis
  proof (cases "?hits = []")
    case True
    then have "(pid, secret) \<notin> set (credentials a)"
      by (auto simp: filter_empty_conv)
    then show ?thesis
      using True by (simp add: Authenticator_authenticate_def fold ok_or_def)
  next
    case False
    then obtain p s where "last ?hits = (p, s)" and "(p, s) \<in> set ?hits"
      using last_in_set [OF False] by (metis prod.exhaust)
    then have hit: "last ?hits = (p, secret)" "(p, secret) \<in> set (credentials a)"
      by auto
    then have "secret_length a = Some (length secret)"
      using assms(2) by auto
    moreover have "pid = p" if "(pid, secret) \<in> set (credentials a)"
      using inj_onD [OF assms(1), of "(pid, secret)" "(p, secret)"] that hit(2) by simp
    ultimately show ?thesis
      using False hit by (auto simp: Authenticator_authenticate_def fold ok_or_def)
  qed
qed

interpretation admission: invariant_system admission_step "admission_inv q"
  by unfold_locales (rule admission_step_inv)

interpretation lease_log: history_system admission_step "admission_inv q" lease_history
proof unfold_locales
  fix a :: AdmissionControl and log op out a'
  assume hist: "lease_history log a" and step: "admission_step op a = Some (out, a')"
  have mono: "next_lease a \<le> next_lease a'
      \<and> (\<forall>l. out = LeaseGranted l \<longrightarrow> lease_value l = next_lease a \<and> next_lease a < next_lease a')"
    using step by (rule admission_step_leases)
  show "lease_history (log @ [(op, out)]) a'"
  proof (cases out)
    case (LeaseGranted l)
    then show ?thesis
      using hist mono
      by (auto simp: lease_history_def granted_leases_snoc sorted_wrt_append less_SessionLease_def
          intro: less_trans)
  next
    case OtherOutcome
    then show ?thesis
      using hist mono
      by (auto simp: lease_history_def granted_leases_snoc intro: less_le_trans)
  qed
qed

section \<open>Properties\<close>

text \<open>
  C13. Authentication is exact. When the configured credentials are accepted, no principal and no
  secret occurs twice and every secret has one length, and a presented secret is answered with a
  principal exactly when that principal was configured with that secret.
\<close>

theorem authenticator_exact:
  assumes "Authenticator_new cs = Ok a"
  shows "distinct (map cred_principal cs) \<and> distinct (map cred_secret cs)
    \<and> (\<forall>c \<in> set cs. secret_length a = Some (length (cred_secret c)))
    \<and> (\<forall>secret pid. Authenticator_authenticate a secret = Ok pid
          \<longleftrightarrow> (\<exists>c \<in> set cs. cred_principal c = pid \<and> cred_secret c = secret))"
  using Authenticator_configure_distinct [of "[]" None cs a]
    Authenticator_configure_Ok [of "[]" None cs a] authenticate_iff assms
  by (fastforce simp: Authenticator_new_def)

theorem authenticator_exact_witness:
  "\<exists>a. Authenticator_new demo_credentials = Ok a
    \<and> Authenticator_authenticate a [3, 4] = Ok (PrincipalId 1)
    \<and> Authenticator_authenticate a [3, 5] \<noteq> Ok (PrincipalId 1)"
proof -
  obtain a where a: "Authenticator_new demo_credentials = Ok a"
    by (simp add: Authenticator_new_def demo_credentials_def bt_values_def less_PrincipalId_def)
  show ?thesis
    using authenticator_exact [OF a] a by (simp add: demo_credentials_def)
qed

text \<open>
  Admission quotas hold along every history of opened and closed sessions and flows: no
  principal ever has more open sessions, and no session more open flows, than the quota allows.
\<close>

theorem admission_quota_respected:
  assumes "run admission_step (AdmissionControl_new q) log a"
  shows "sessions_of a pid \<le> max_sessions q
    \<and> (\<forall>lease usage. bt_get (sessions a) (pid, lease) = Some usage
          \<longrightarrow> usage_flows usage \<le> max_flows_per_session q)"
  using admission.run_inv [OF assms admission_inv_new]
  by (auto simp: admission_inv_def dest: bt_get_SomeD)

theorem admission_quota_respected_witness:
  "\<exists>log a. run admission_step (AdmissionControl_new demo_quota) log a
    \<and> sessions_of a (PrincipalId 7) = 1 \<and> sessions_of a (PrincipalId 7) \<le> max_sessions demo_quota"
proof -
  obtain log a where ex: "execute admission_step (AdmissionControl_new demo_quota) demo_admissions
      = Some (log, a)" and one: "sessions_of a (PrincipalId 7) = 1"
    by (simp add: demo_admission_defs)
  show ?thesis
    using admission_quota_respected [OF execute_run [OF ex], of "PrincipalId 7"] execute_run [OF ex] one
    by blast
qed

text \<open>
  A lease is never handed out twice: the leases granted along any history are strictly
  increasing, also when sessions are closed in between.
\<close>

theorem leases_never_reused:
  assumes "run admission_step (AdmissionControl_new q) log a"
  shows "sorted_wrt (<) (granted_leases log) \<and> distinct (granted_leases log)"
proof -
  have "lease_history log a"
    using assms admission_inv_new lease_history_nil by (rule lease_log.run_hist)
  then show ?thesis
    by (simp add: lease_history_def strict_sorted_iff)
qed

theorem leases_never_reused_witness:
  "\<exists>log a. run admission_step (AdmissionControl_new demo_quota) log a
    \<and> granted_leases log = [SessionLease 0, SessionLease 1] \<and> distinct (granted_leases log)"
proof -
  obtain log a where ex: "execute admission_step (AdmissionControl_new demo_quota) demo_admissions
      = Some (log, a)" and two: "granted_leases log = [SessionLease 0, SessionLease 1]"
    by (simp add: demo_admission_defs)
  show ?thesis
    using leases_never_reused [OF execute_run [OF ex]] execute_run [OF ex] two by blast
qed

end
