(* ===== verification/Rust_Strings.thy ===== *)
theory Rust_Strings
  imports Velum_Prelude "HOL-Library.Sublist"
begin

text \<open>
  The part of \<^verbatim>\<open>str\<close> and of the integer parsers of the standard library that the client sources
  use. A \<^verbatim>\<open>&str\<close> is the list of the bytes of its UTF-8 encoding, so \<^verbatim>\<open>len\<close> is \<open>length\<close>, and an ASCII
  character is one element. \<^verbatim>\<open>trim\<close> removes Unicode white space, which the table \<open>white_space\<close>
  lists in its encoded form; UTF-8 is self-synchronising, so matching encoded characters at either
  end of the bytes is matching characters.
\<close>

section \<open>Trimming\<close>

definition white_space :: "string list" where
  "white_space =
     [[CHR 0x09], [CHR 0x0A], [CHR 0x0B], [CHR 0x0C], [CHR 0x0D], [CHR 0x20],
      [CHR 0xC2, CHR 0x85], [CHR 0xC2, CHR 0xA0], [CHR 0xE1, CHR 0x9A, CHR 0x80],
      [CHR 0xE2, CHR 0x80, CHR 0x80], [CHR 0xE2, CHR 0x80, CHR 0x81], [CHR 0xE2, CHR 0x80, CHR 0x82],
      [CHR 0xE2, CHR 0x80, CHR 0x83], [CHR 0xE2, CHR 0x80, CHR 0x84], [CHR 0xE2, CHR 0x80, CHR 0x85],
      [CHR 0xE2, CHR 0x80, CHR 0x86], [CHR 0xE2, CHR 0x80, CHR 0x87], [CHR 0xE2, CHR 0x80, CHR 0x88],
      [CHR 0xE2, CHR 0x80, CHR 0x89], [CHR 0xE2, CHR 0x80, CHR 0x8A], [CHR 0xE2, CHR 0x80, CHR 0xA8],
      [CHR 0xE2, CHR 0x80, CHR 0xA9], [CHR 0xE2, CHR 0x80, CHR 0xAF], [CHR 0xE2, CHR 0x81, CHR 0x9F],
      [CHR 0xE3, CHR 0x80, CHR 0x80]]"

text \<open>Remove the given (non-empty) words from the front for as long as one is there.\<close>

function strip_words :: "string list \<Rightarrow> string \<Rightarrow> string" where
  "strip_words ws s =
     (case find (\<lambda>w. w \<noteq> [] \<and> prefix w s) ws of
        None \<Rightarrow> s
      | Some w \<Rightarrow> strip_words ws (drop (length w) s))"
  by pat_completeness auto
termination
proof (relation "measure (\<lambda>(_, s). length s)")
  fix ws s w
  assume "find (\<lambda>w. w \<noteq> [] \<and> prefix w s) ws = Some w"
  then have "w \<noteq> []" "prefix w s"
    by (auto simp: find_Some_iff)
  then show "((ws, drop (length w) s), ws, s) \<in> measure (\<lambda>(_, s). length s)"
    by (auto simp: prefix_def)
qed simp

definition trim_start :: "string \<Rightarrow> string" where
  "trim_start s = strip_words white_space s"

definition trim_end :: "string \<Rightarrow> string" where
  "trim_end s = rev (strip_words (map rev white_space) (rev s))"

definition trim :: "string \<Rightarrow> string" where
  "trim s = trim_end (trim_start s)"

definition trim_end_matches :: "char \<Rightarrow> string \<Rightarrow> string" where
  "trim_end_matches c s = rev (dropWhile (\<lambda>x. x = c) (rev s))"

section \<open>Splitting\<close>

fun split_char :: "char \<Rightarrow> string \<Rightarrow> string list" where
  "split_char d [] = [[]]"
| "split_char d (c # s) =
     (if c = d then [] # split_char d s
      else (case split_char d s of [] \<Rightarrow> [[c]] | f # fs \<Rightarrow> (c # f) # fs))"

fun split_once :: "char \<Rightarrow> string \<Rightarrow> (string \<times> string) option" where
  "split_once d [] = None"
| "split_once d (c # s) =
     (if c = d then Some ([], s) else map_option (\<lambda>(a, b). (c # a, b)) (split_once d s))"

definition strip_prefix :: "string \<Rightarrow> string \<Rightarrow> string option" where
  "strip_prefix p s = (if prefix p s then Some (drop (length p) s) else None)"

definition strip_suffix :: "string \<Rightarrow> string \<Rightarrow> string option" where
  "strip_suffix p s = (if suffix p s then Some (take (length s - length p) s) else None)"

text \<open>\<^verbatim>\<open>lines\<close> ends a line at a line feed, drops a carriage return before it, and yields no line after
  a final line feed.\<close>

definition strip_cr :: "string \<Rightarrow> string" where
  "strip_cr l = (case strip_suffix [CHR 0x0D] l of None \<Rightarrow> l | Some l' \<Rightarrow> l')"

fun lines :: "string \<Rightarrow> string list" where
  "lines s =
     (case split_char (CHR 0x0A) s of
        [] \<Rightarrow> []
      | fs \<Rightarrow> map strip_cr (butlast fs) @ (if List.last fs = [] then [] else [List.last fs]))"

section \<open>Characters\<close>

definition is_ascii_digit :: "char \<Rightarrow> bool" where
  "is_ascii_digit c = (48 \<le> (of_char c :: nat) \<and> (of_char c :: nat) \<le> 57)"

definition is_ascii_upper :: "char \<Rightarrow> bool" where
  "is_ascii_upper c = (65 \<le> (of_char c :: nat) \<and> (of_char c :: nat) \<le> 90)"

definition is_ascii_lower :: "char \<Rightarrow> bool" where
  "is_ascii_lower c = (97 \<le> (of_char c :: nat) \<and> (of_char c :: nat) \<le> 122)"

definition is_ascii_alphanumeric :: "char \<Rightarrow> bool" where
  "is_ascii_alphanumeric c = (is_ascii_digit c \<or> is_ascii_upper c \<or> is_ascii_lower c)"

definition ascii_lower :: "char \<Rightarrow> char" where
  "ascii_lower c = (if is_ascii_upper c then char_of (of_char c + 32 :: nat) else c)"

definition to_ascii_lowercase :: "string \<Rightarrow> string" where
  "to_ascii_lowercase s = map ascii_lower s"

section \<open>Decimal integers\<close>

definition digit_value :: "char \<Rightarrow> nat" where
  "digit_value c = of_char c - 48"

definition decimal_value :: "string \<Rightarrow> nat" where
  "decimal_value s = foldl (\<lambda>acc c. acc * 10 + digit_value c) 0 s"

text \<open>
  \<^verbatim>\<open>str::parse\<close> for an unsigned integer type with the given bound: an optional plus sign, then at
  least one digit and only digits, with a value below the bound.
\<close>

definition parse_unsigned :: "nat \<Rightarrow> string \<Rightarrow> nat option" where
  "parse_unsigned bound s =
     (let digits = (case s of c # rest \<Rightarrow> if c = CHR ''+'' then rest else s | [] \<Rightarrow> s) in
      if digits = [] \<or> \<not> list_all is_ascii_digit digits \<or> decimal_value digits \<ge> bound then None
      else Some (decimal_value digits))"

definition parse_u8 :: "string \<Rightarrow> u8 option" where
  "parse_u8 s = map_option word_of_nat (parse_unsigned (2 ^ 8) s)"

definition parse_u16 :: "string \<Rightarrow> u16 option" where
  "parse_u16 s = map_option word_of_nat (parse_unsigned (2 ^ 16) s)"

text \<open>\<^verbatim>\<open>Display\<close> of an unsigned integer.\<close>

fun decimal_string :: "nat \<Rightarrow> string" where
  "decimal_string n =
     (if n < 10 then [char_of (48 + n)] else decimal_string (n div 10) @ [char_of (48 + n mod 10)])"

text \<open>A printable ASCII character that is not white space.\<close>

definition plain_char :: "char \<Rightarrow> bool" where
  "plain_char c = (32 < (of_char c :: nat) \<and> (of_char c :: nat) < 127)"

declare decimal_string.simps [simp del]
declare strip_words.simps [simp del]
declare lines.simps [simp del]

section \<open>Splitting laws\<close>

lemma split_char_nonempty [simp]: "split_char d s \<noteq> []"
  by (induction s) (auto split: list.splits)

lemma split_char_append: "split_char d (a @ d # b) = split_char d a @ split_char d b"
  by (induction a) (auto split: list.splits)

lemma split_char_inj: "split_char d s = split_char d t \<Longrightarrow> s = t"
proof (induction s arbitrary: t)
  case Nil
  then show ?case
    by (cases t) (auto simp: split_char_nonempty [symmetric] split: if_splits list.splits)
next
  case (Cons c s)
  then show ?case
    by (cases t) (auto simp: split_char_nonempty [symmetric] split: if_splits list.splits)
qed

lemma split_char_single: "d \<notin> set s \<Longrightarrow> split_char d s = [s]"
  by (induction s) auto

text \<open>Whatever the fields end with, the text ends with, cut at a separator.\<close>

lemma split_char_suffix:
  assumes "split_char d s = xs @ split_char d t" "xs \<noteq> []"
  obtains a where "s = a @ d # t" "split_char d a = xs"
  using assms
proof (induction xs arbitrary: s thesis)
  case (Cons x xs)
  have "\<exists>s'. s = x @ d # s' \<and> split_char d s' = xs @ split_char d t \<and> d \<notin> set x"
    using Cons.prems(2)
  proof (induction s arbitrary: x)
    case (Cons c s)
    show ?case
    proof (cases "c = d")
      case True
      then show ?thesis
        using Cons.prems by auto
    next
      case False
      then obtain y where x: "x = c # y" and "split_char d s = (y # xs) @ split_char d t"
        using Cons.prems by (auto split: list.splits)
      with Cons.IH [of y] show ?thesis
        using False by auto
    qed
  qed simp
  then obtain s' where s': "s = x @ d # s'" "split_char d s' = xs @ split_char d t" "d \<notin> set x"
    by blast
  show ?case
  proof (cases "xs = []")
    case True
    then have "s' = t"
      using s'(2) split_char_inj by simp
    then show ?thesis
      using Cons.prems(1) [of x] s' True by (simp add: split_char_single)
  next
    case False
    with Cons.IH [of s'] s'(2) obtain a where "s' = a @ d # t" "split_char d a = xs"
      by blast
    then show ?thesis
      using Cons.prems(1) [of "x @ d # a"] s' by (simp add: split_char_append split_char_single)
  qed
qed simp

lemma split_char_hd: "hd (split_char d s) \<noteq> [] \<Longrightarrow> s \<noteq> [] \<and> hd s = hd (hd (split_char d s))"
  by (cases s) (auto split: if_splits list.splits)

lemma split_char_last:
  "List.last (split_char d s) \<noteq> [] \<Longrightarrow> s \<noteq> [] \<and> List.last s = List.last (List.last (split_char d s))"
proof (induction s)
  case (Cons c s)
  show ?case
  proof (cases "split_char d s = [[]]")
    case True
    then have "s = []"
      using split_char_inj [of d s "[]"] by simp
    then show ?thesis
      using Cons.prems by auto
  next
    case False
    then have "List.last (split_char d s) \<noteq> []"
      using Cons.prems by (cases "split_char d s") (auto split: if_splits)
    then show ?thesis
      using Cons.IH Cons.prems False by (cases "split_char d s") (auto split: if_splits)
  qed
qed simp

lemma set_split_char: "\<Union> (set ` set (split_char d s)) = set s - {d}"
proof (induction s)
  case (Cons c s)
  then show ?case
    by (cases "split_char d s") auto
qed simp

lemma split_once_None_iff: "split_once d s = None \<longleftrightarrow> d \<notin> set s"
  by (induction s) auto

lemma split_once_append: "d \<notin> set a \<Longrightarrow> split_once d (a @ d # b) = Some (a, b)"
  by (induction a) auto

lemma strip_suffix_Some_iff: "strip_suffix p s = Some r \<longleftrightarrow> s = r @ p"
  by (auto simp: strip_suffix_def suffix_def)

section \<open>Decimal round trip\<close>

lemma digit_char [simp]:
  assumes "d < 10"
  shows "is_ascii_digit (char_of (48 + d :: nat))" "digit_value (char_of (48 + d :: nat)) = d"
  using assms by (simp_all add: is_ascii_digit_def digit_value_def)

lemma decimal_value_snoc [simp]: "decimal_value (s @ [c]) = decimal_value s * 10 + digit_value c"
  by (simp add: decimal_value_def)

lemma decimal_string_digits: "decimal_string n \<noteq> [] \<and> list_all is_ascii_digit (decimal_string n)"
proof (induction n rule: decimal_string.induct)
  case (1 n)
  then show ?case
    by (subst (1 2) decimal_string.simps) simp
qed

lemma decimal_value_string [simp]: "decimal_value (decimal_string n) = n"
proof (induction n rule: decimal_string.induct)
  case (1 n)
  show ?case
  proof (cases "n < 10")
    case True
    then have "decimal_string n = [] @ [char_of (48 + n)]"
      by (simp add: decimal_string.simps)
    then show ?thesis
      using True by (simp only: decimal_value_snoc) (simp add: decimal_value_def)
  next
    case False
    then have "decimal_string n = decimal_string (n div 10) @ [char_of (48 + n mod 10)]"
      by (simp add: decimal_string.simps)
    then show ?thesis
      using 1 False by simp
  qed
qed

lemma parse_decimal_string:
  "parse_unsigned bound (decimal_string n) = (if n < bound then Some n else None)"
proof -
  have plus: "\<not> is_ascii_digit CHR ''+''"
    by (simp add: is_ascii_digit_def)
  have "(case decimal_string n of c # rest \<Rightarrow> if c = CHR ''+'' then rest else decimal_string n
      | [] \<Rightarrow> decimal_string n) = decimal_string n"
    using decimal_string_digits [of n] plus by (cases "decimal_string n") auto
  then show ?thesis
    using decimal_string_digits [of n] by (simp add: parse_unsigned_def)
qed

section \<open>Trimming is the identity on plain text\<close>

text \<open>
  Every white-space character starts and ends with a byte that is neither a letter, a digit nor
  punctuation, so a text that starts and ends with one of those is not trimmed.
\<close>

lemma white_space_edges:
  "w \<in> set white_space \<Longrightarrow> w \<noteq> [] \<and> \<not> plain_char (hd w) \<and> \<not> plain_char (List.last w)"
  by (auto simp: white_space_def plain_char_def)

lemma strip_words_plain:
  assumes "\<And>w. w \<in> set ws \<Longrightarrow> w \<noteq> [] \<Longrightarrow> \<not> plain_char (hd w)" "s = [] \<or> plain_char (hd s)"
  shows "strip_words ws s = s"
proof -
  have "find (\<lambda>w. w \<noteq> [] \<and> prefix w s) ws = None"
  proof (rule ccontr)
    assume "find (\<lambda>w. w \<noteq> [] \<and> prefix w s) ws \<noteq> None"
    then obtain w where "w \<in> set ws" "w \<noteq> []" "prefix w s"
      by (auto simp: find_None_iff)
    then have "hd w = hd s" "s \<noteq> []"
      by (auto simp: prefix_def)
    with assms(2) assms(1) [OF \<open>w \<in> set ws\<close> \<open>w \<noteq> []\<close>] show False
      by simp
  qed
  then show ?thesis
    by (simp add: strip_words.simps)
qed

lemma trim_plain:
  assumes "s = [] \<or> plain_char (hd s) \<and> plain_char (List.last s)"
  shows "trim s = s"
proof -
  have "trim_start s = s"
    unfolding trim_start_def using assms white_space_edges by (intro strip_words_plain) auto
  moreover have "strip_words (map rev white_space) (rev s) = rev s"
    using assms white_space_edges by (intro strip_words_plain) (auto simp: hd_rev)
  ultimately show ?thesis
    by (simp add: trim_def trim_end_def)
qed

end
