(* ===== verification/Ip_Text.thy ===== *)
theory Ip_Text
  imports Rust_Strings
begin

text \<open>
  \<^verbatim>\<open>std::net::IpAddr\<close> as the client sources use it: an address is the integer \<^verbatim>\<open>u32::from\<close> or
  \<^verbatim>\<open>u128::from\<close> gives for it, and its text form is read by the recursive-descent parser of the
  standard library (a reader takes the remaining text and returns a value with the rest).
\<close>

datatype Ip = V4 u32 | V6 u128

definition digit_of :: "nat \<Rightarrow> char \<Rightarrow> nat option" where
  "digit_of radix c =
     (let n = (of_char c :: nat);
          d = (if is_ascii_digit c then Some (n - 48)
               else if is_ascii_lower c then Some (n - 87)
               else if is_ascii_upper c then Some (n - 55)
               else None)
      in case d of None \<Rightarrow> None | Some v \<Rightarrow> if v < radix then Some v else None)"

definition read_number :: "nat \<Rightarrow> nat \<Rightarrow> bool \<Rightarrow> nat \<Rightarrow> string \<Rightarrow> (nat \<times> string) option" where
  "read_number radix max_digits allow_zero_prefix bound s =
     (let digits = takeWhile (\<lambda>c. digit_of radix c \<noteq> None) s;
          v = foldl (\<lambda>acc c. acc * radix + the (digit_of radix c)) 0 digits
      in if digits = [] \<or> length digits > max_digits
            \<or> (\<not> allow_zero_prefix \<and> hd digits = CHR ''0'' \<and> length digits > 1) \<or> v \<ge> bound
         then None
         else Some (v, drop (length digits) s))"

fun read_given_char :: "char \<Rightarrow> string \<Rightarrow> string option" where
  "read_given_char c [] = None"
| "read_given_char c (x # s) = (if x = c then Some s else None)"

text \<open>The separator is read in front of every item but the first.\<close>

definition read_separated ::
  "char \<Rightarrow> bool \<Rightarrow> (string \<Rightarrow> ('a \<times> string) option) \<Rightarrow> string \<Rightarrow> ('a \<times> string) option" where
  "read_separated sep is_first inner s =
     (if is_first then inner s
      else case read_given_char sep s of None \<Rightarrow> None | Some rest \<Rightarrow> inner rest)"

definition read_octet :: "bool \<Rightarrow> string \<Rightarrow> (nat \<times> string) option" where
  "read_octet is_first = read_separated CHR ''.'' is_first (read_number 10 3 False 256)"

definition read_ipv4_addr :: "string \<Rightarrow> (nat \<times> string) option" where
  "read_ipv4_addr s =
     (case read_octet True s of None \<Rightarrow> None | Some (a, s1) \<Rightarrow>
     (case read_octet False s1 of None \<Rightarrow> None | Some (b, s2) \<Rightarrow>
     (case read_octet False s2 of None \<Rightarrow> None | Some (c, s3) \<Rightarrow>
     (case read_octet False s3 of None \<Rightarrow> None | Some (d, s4) \<Rightarrow>
        Some (((a * 256 + b) * 256 + c) * 256 + d, s4)))))"

text \<open>
  Up to the given number of 16-bit groups; the last two may be written as an IPv4 address, which
  the flag reports.
\<close>

fun read_groups :: "nat \<Rightarrow> bool \<Rightarrow> string \<Rightarrow> nat list \<times> bool \<times> string" where
  "read_groups 0 is_first s = ([], False, s)"
| "read_groups (Suc n) is_first s =
     (case (if n = 0 then None else read_separated CHR '':'' is_first read_ipv4_addr s) of
        Some (v4, rest) \<Rightarrow> ([v4 div 65536, v4 mod 65536], True, rest)
      | None \<Rightarrow>
          (case read_separated CHR '':'' is_first (read_number 16 4 True 65536) s of
             None \<Rightarrow> ([], False, s)
           | Some (g, rest) \<Rightarrow>
               (let (gs, v4, rest') = read_groups n False rest in (g # gs, v4, rest'))))"

definition groups_value :: "nat list \<Rightarrow> nat" where
  "groups_value gs = foldl (\<lambda>acc g. acc * 65536 + g) 0 gs"

definition read_ipv6_addr :: "string \<Rightarrow> (nat \<times> string) option" where
  "read_ipv6_addr s =
     (let (front, v4, rest) = read_groups 8 True s in
      if length front = 8 then Some (groups_value front, rest)
      else if v4 then None
      else
        (case Option.bind (read_given_char CHR '':'' rest) (read_given_char CHR '':'') of
           None \<Rightarrow> None
         | Some rest \<Rightarrow>
             (let (back, _, rest) = read_groups (8 - (length front + 1)) True rest
              in Some (groups_value (front @ replicate (8 - length front - length back) 0 @ back), rest))))"

definition Ip_parse :: "string \<Rightarrow> Ip option" where
  "Ip_parse s =
     (case read_ipv4_addr s of
        Some (a, rest) \<Rightarrow> if rest = [] then Some (V4 (word_of_nat a)) else None
      | None \<Rightarrow>
          (case read_ipv6_addr s of
             Some (a, rest) \<Rightarrow> if rest = [] then Some (V6 (word_of_nat a)) else None
           | None \<Rightarrow> None))"

end
