(* ===== verification/Fake_Dns.thy ===== *)
theory Fake_Dns
  imports Ip_Text State_Runs
begin

text \<open>
  \<^verbatim>\<open>crates/velum-adapter-tun/src/fake_dns.rs\<close>: the bounded table of fake addresses a TUN profile
  hands out for the names it resolves. The hash map is an association list with distinct keys;
  the one place where the sources iterate it looks for the mapping of a name and a real
  address, and the invariant shows that there is at most one. Instants and durations are natural
  numbers; the panic of \<^verbatim>\<open>Instant + Duration\<close> on a clock overflow is not modelled.
\<close>

record FakeDnsMapping =
  map_domain :: string
  real_address :: Ip
  fake_address :: Ip
  map_generation :: u64
  expires_at :: nat

datatype FakeDnsError = ZeroCapacity | EmptyDomain | GenerationMismatch | AddressSpaceExhausted

record FakeDnsTable =
  table_generation :: u64
  capacity :: nat
  mappings :: "(Ip \<times> FakeDnsMapping) list"
  insertion_order :: "Ip list"
  next_ipv4 :: u32
  next_ipv6 :: u128

text \<open>\<^verbatim>\<open>Ipv4Addr::new(198, 18, 0, 1)\<close>, \<^verbatim>\<open>Ipv4Addr::new(198, 19, 255, 254)\<close> and the first IPv6 address.\<close>

definition FIRST_IPV4 :: u32 where "FIRST_IPV4 = 0xC6120001"
definition LAST_IPV4 :: u32 where "LAST_IPV4 = 0xC613FFFE"
definition FIRST_IPV6 :: u128 where "FIRST_IPV6 = 0xFD000019000000000000000000000001"

definition FakeDnsTable_new :: "u64 \<Rightarrow> nat \<Rightarrow> (FakeDnsError, FakeDnsTable) result" where
  "FakeDnsTable_new g cap =
     (if cap = 0 then Err ZeroCapacity
      else Ok \<lparr>table_generation = g, capacity = cap, mappings = [], insertion_order = [],
               next_ipv4 = FIRST_IPV4, next_ipv6 = FIRST_IPV6\<rparr>)"

definition fake_normalize_domain :: "string \<Rightarrow> (FakeDnsError, string) result" where
  "fake_normalize_domain domain =
     (let domain = to_ascii_lowercase (trim_end_matches CHR ''.'' (trim domain)) in
      if domain = [] \<or> length domain > 253 then Err EmptyDomain else Ok domain)"

definition remove_expired :: "FakeDnsTable \<Rightarrow> nat \<Rightarrow> FakeDnsTable" where
  "remove_expired self now =
     (let m = filter (\<lambda>(_, mapping). expires_at mapping > now) (mappings self)
      in self\<lparr>mappings := m,
              insertion_order := filter (\<lambda>a. map_of m a \<noteq> None) (insertion_order self)\<rparr>)"

text \<open>One candidate address; \<open>None\<close> when the counter is exhausted.\<close>

fun next_candidate :: "FakeDnsTable \<Rightarrow> Ip \<Rightarrow> (Ip \<times> FakeDnsTable) option" where
  "next_candidate self (V4 _) =
     (case checked_add (next_ipv4 self) 1 of
        None \<Rightarrow> None
      | Some n \<Rightarrow>
          Some (V4 (next_ipv4 self), self\<lparr>next_ipv4 := if n > LAST_IPV4 then FIRST_IPV4 else n\<rparr>))"
| "next_candidate self (V6 _) =
     (case checked_add (next_ipv6 self) 1 of
        None \<Rightarrow> None
      | Some n \<Rightarrow> Some (V6 (next_ipv6 self), self\<lparr>next_ipv6 := n\<rparr>))"

text \<open>The loop body, run the given number of times at most.\<close>

fun next_address_loop ::
  "nat \<Rightarrow> FakeDnsTable \<Rightarrow> Ip \<Rightarrow> (FakeDnsError, Ip) result \<times> FakeDnsTable" where
  "next_address_loop 0 self real = (Err AddressSpaceExhausted, self)"
| "next_address_loop (Suc n) self real =
     (case next_candidate self real of
        None \<Rightarrow> (Err AddressSpaceExhausted, self)
      | Some (candidate, self) \<Rightarrow>
          if map_of (mappings self) candidate = None then (Ok candidate, self)
          else next_address_loop n self real)"

definition next_address ::
  "FakeDnsTable \<Rightarrow> Ip \<Rightarrow> (FakeDnsError, Ip) result \<times> FakeDnsTable" where
  "next_address self real = next_address_loop (capacity self + 1) self real"

fun evict ::
  "nat \<Rightarrow> (Ip \<times> FakeDnsMapping) list \<Rightarrow> Ip list \<Rightarrow> (Ip \<times> FakeDnsMapping) list \<times> Ip list" where
  "evict cap m [] = (m, [])"
| "evict cap m (oldest # order) =
     (if length m \<ge> cap then evict cap (filter (\<lambda>(a, _). a \<noteq> oldest) m) order
      else (m, oldest # order))"

definition same_identity :: "string \<Rightarrow> Ip \<Rightarrow> FakeDnsMapping \<Rightarrow> bool" where
  "same_identity domain real mapping = (map_domain mapping = domain \<and> real_address mapping = real)"

definition FakeDnsTable_insert ::
  "FakeDnsTable \<Rightarrow> string \<Rightarrow> Ip \<Rightarrow> u64 \<Rightarrow> nat \<Rightarrow> (FakeDnsError, Ip) result \<times> FakeDnsTable" where
  "FakeDnsTable_insert self domain real g expiry =
     (let (m, order) = evict (capacity self) (mappings self) (insertion_order self) in
      case next_address (self\<lparr>mappings := m, insertion_order := order\<rparr>) real of
        (Inl e, self) \<Rightarrow> (Err e, self)
      | (Inr fake, self) \<Rightarrow>
          (Ok fake, self\<lparr>insertion_order := insertion_order self @ [fake],
             mappings := mappings self @ [(fake,
               \<lparr>map_domain = domain, real_address = real, fake_address = fake,
                map_generation = g, expires_at = expiry\<rparr>)]\<rparr>))"

definition FakeDnsTable_allocate ::
  "FakeDnsTable \<Rightarrow> u64 \<Rightarrow> string \<Rightarrow> Ip \<Rightarrow> nat \<Rightarrow> nat \<Rightarrow> (FakeDnsError, Ip) result \<times> FakeDnsTable" where
  "FakeDnsTable_allocate self g domain real ttl now =
     (if g \<noteq> table_generation self then (Err GenerationMismatch, self)
      else
        (case fake_normalize_domain domain of
           Inl e \<Rightarrow> (Err e, self)
         | Inr domain \<Rightarrow>
             (let self = remove_expired self now in
              case find (\<lambda>(_, mapping). same_identity domain real mapping) (mappings self) of
                Some (a, existing) \<Rightarrow>
                  (Ok (fake_address existing),
                   self\<lparr>mappings := map (\<lambda>(b, mapping).
                      (b, if b = a then mapping\<lparr>expires_at := now + ttl\<rparr> else mapping)) (mappings self)\<rparr>)
              | None \<Rightarrow> FakeDnsTable_insert self domain real g (now + ttl))))"

definition FakeDnsTable_resolve ::
  "FakeDnsTable \<Rightarrow> u64 \<Rightarrow> Ip \<Rightarrow> nat \<Rightarrow> (FakeDnsError, FakeDnsMapping option) result \<times> FakeDnsTable" where
  "FakeDnsTable_resolve self g fake now =
     (if g \<noteq> table_generation self then (Err GenerationMismatch, self)
      else let self = remove_expired self now in (Ok (map_of (mappings self) fake), self))"

definition FakeDnsTable_replace_generation :: "FakeDnsTable \<Rightarrow> u64 \<Rightarrow> FakeDnsTable" where
  "FakeDnsTable_replace_generation self g =
     self\<lparr>table_generation := g, mappings := [], insertion_order := []\<rparr>"

section \<open>Histories of a table\<close>

datatype fake_dns_op =
    Allocate u64 string Ip nat nat
  | Resolve u64 Ip nat
  | ReplaceGeneration u64

datatype fake_dns_outcome =
    Allocated "(FakeDnsError, Ip) result"
  | Resolved "(FakeDnsError, FakeDnsMapping option) result"
  | Replaced

fun fake_dns_step :: "fake_dns_op \<Rightarrow> FakeDnsTable \<Rightarrow> (fake_dns_outcome \<times> FakeDnsTable) option" where
  "fake_dns_step (Allocate g d real ttl now) t =
     (let (r, t') = FakeDnsTable_allocate t g d real ttl now in Some (Allocated r, t'))"
| "fake_dns_step (Resolve g a now) t =
     (let (r, t') = FakeDnsTable_resolve t g a now in Some (Resolved r, t'))"
| "fake_dns_step (ReplaceGeneration g) t = Some (Replaced, FakeDnsTable_replace_generation t g)"

fun same_family :: "Ip \<Rightarrow> Ip \<Rightarrow> bool" where
  "same_family (V4 _) (V4 _) = True"
| "same_family (V6 _) (V6 _) = True"
| "same_family _ _ = False"

text \<open>The pool of IPv4 addresses.\<close>

definition pool_ok :: "u32 \<Rightarrow> bool" where
  "pool_ok w = (FIRST_IPV4 \<le> w \<and> w \<le> LAST_IPV4)"

text \<open>Looking for an address only moves the two counters.\<close>

definition counters_moved :: "FakeDnsTable \<Rightarrow> FakeDnsTable \<Rightarrow> bool" where
  "counters_moved t t' =
     (table_generation t' = table_generation t \<and> capacity t' = capacity t
      \<and> mappings t' = mappings t \<and> insertion_order t' = insertion_order t
      \<and> pool_ok (next_ipv4 t'))"

text \<open>What holds of one entry: its key, its generation, its family and its address pool.\<close>

definition entry_ok :: "u64 \<Rightarrow> Ip \<times> FakeDnsMapping \<Rightarrow> bool" where
  "entry_ok g e =
     (let (a, mapping) = e in
      fake_address mapping = a \<and> map_generation mapping = g
      \<and> same_family a (real_address mapping)
      \<and> (case a of V4 w \<Rightarrow> pool_ok w | V6 _ \<Rightarrow> True))"

definition fake_dns_inv :: "nat \<Rightarrow> FakeDnsTable \<Rightarrow> bool" where
  "fake_dns_inv cap t =
     (capacity t = cap \<and> 0 < cap
      \<and> distinct (map fst (mappings t))
      \<and> insertion_order t = map fst (mappings t)
      \<and> length (mappings t) \<le> cap
      \<and> list_all (entry_ok (table_generation t)) (mappings t)
      \<and> inj_on (\<lambda>(_, m). (map_domain m, real_address m)) (set (mappings t))
      \<and> pool_ok (next_ipv4 t))"

text \<open>How many entries were made after the one of an address, and how many allocations a history has.\<close>

definition newer :: "Ip \<Rightarrow> FakeDnsTable \<Rightarrow> nat" where
  "newer a t = length (takeWhile (\<lambda>b. b \<noteq> a) (rev (insertion_order t)))"

fun is_allocation :: "fake_dns_op \<Rightarrow> bool" where
  "is_allocation (Allocate _ _ _ _ _) = True"
| "is_allocation _ = False"

definition allocations :: "(fake_dns_op \<times> fake_dns_outcome) list \<Rightarrow> nat" where
  "allocations log = length (filter (\<lambda>(op, _). is_allocation op) log)"

text \<open>
  A step before the instant \<open>x\<close> that neither replaces the generation nor shortens the life of the
  entry of \<open>a\<close> below \<open>x\<close>.
\<close>

fun keeps :: "nat \<Rightarrow> Ip \<Rightarrow> fake_dns_op \<times> fake_dns_outcome \<Rightarrow> bool" where
  "keeps x a (Allocate _ _ _ ttl now, out) = (now < x \<and> (out = Allocated (Ok a) \<longrightarrow> x \<le> now + ttl))"
| "keeps x a (Resolve _ _ now, out) = (now < x)"
| "keeps x a (ReplaceGeneration _, out) = False"

text \<open>The entry of an address, alive until \<open>x\<close>, with at most \<open>n\<close> newer entries.\<close>

definition holds_entry :: "u64 \<Rightarrow> Ip \<Rightarrow> string \<Rightarrow> Ip \<Rightarrow> nat \<Rightarrow> nat \<Rightarrow> FakeDnsTable \<Rightarrow> bool" where
  "holds_entry g a v real x n t =
     (table_generation t = g \<and> (\<exists>pre m post. mappings t = pre @ (a, m) # post \<and> map_domain m = v
        \<and> real_address m = real \<and> x \<le> expires_at m \<and> length post \<le> n))"

text \<open>Every entry of an address stands for one name and real address.\<close>

definition only_entry :: "u64 \<Rightarrow> Ip \<Rightarrow> string \<Rightarrow> Ip \<Rightarrow> nat \<Rightarrow> FakeDnsTable \<Rightarrow> bool" where
  "only_entry g a v real x t =
     (\<forall>m. (a, m) \<in> set (mappings t) \<longrightarrow> table_generation t = g \<and> map_domain m = v \<and> real_address m = real \<and> expires_at m = x)"

definition demo_table :: FakeDnsTable where
  "demo_table = \<lparr>table_generation = 4, capacity = 2, mappings = [], insertion_order = [],
     next_ipv4 = FIRST_IPV4, next_ipv6 = FIRST_IPV6\<rparr>"

definition demo_dns_ops :: "fake_dns_op list" where
  "demo_dns_ops =
     [Allocate 4 ''A.'' (V4 1) 10 0, Allocate 4 '' b'' (V4 2) 10 1, Allocate 4 ''c'' (V6 3) 10 2]"

section \<open>Lemmas\<close>

lemma pool_bounds: "unat FIRST_IPV4 = 3323068417" "unat LAST_IPV4 = 3323199486"
  by (simp_all add: FIRST_IPV4_def LAST_IPV4_def)

lemma pool_ok_iff: "pool_ok w \<longleftrightarrow> 3323068417 \<le> unat w \<and> unat w \<le> 3323199486"
  by (simp add: pool_ok_def word_le_nat_alt pool_bounds)

lemma pool_succ:
  assumes "pool_ok w"
  shows "checked_add w 1 = Some (w + 1)" "unat (w + 1) = unat w + 1"
proof -
  have "unat w + 1 < 2 ^ 32"
    using assms by (simp add: pool_ok_iff)
  then show "checked_add w 1 = Some (w + 1)" "unat (w + 1) = unat w + 1"
    by (simp_all add: checked_add_def unat_word_ariths)
qed

lemma pool_next:
  assumes "pool_ok w"
  shows "pool_ok (if w + 1 > LAST_IPV4 then FIRST_IPV4 else w + 1)"
    "unat (if w + 1 > LAST_IPV4 then FIRST_IPV4 else w + 1)
      = 3323068417 + (unat w - 3323068417 + 1) mod 131070"
proof -
  have w: "3323068417 \<le> unat w" "unat w \<le> 3323199486"
    using assms by (simp_all add: pool_ok_iff)
  have gt: "w + 1 > LAST_IPV4 \<longleftrightarrow> unat w = 3323199486"
    using w pool_succ(2) [OF assms] by (auto simp: word_less_nat_alt pool_bounds)
  show "pool_ok (if w + 1 > LAST_IPV4 then FIRST_IPV4 else w + 1)"
    using w gt pool_succ(2) [OF assms] by (auto simp: pool_ok_iff pool_bounds)
  show "unat (if w + 1 > LAST_IPV4 then FIRST_IPV4 else w + 1)
      = 3323068417 + (unat w - 3323068417 + 1) mod 131070"
    using w gt pool_succ(2) [OF assms] by (auto simp: pool_bounds)
qed

lemma next_candidate_Some:
  assumes "next_candidate t real = Some (c, t')" "pool_ok (next_ipv4 t)"
  shows "counters_moved t t' \<and> same_family c real \<and> (case c of V4 w \<Rightarrow> pool_ok w | V6 _ \<Rightarrow> True)"
proof (cases real)
  case (V4 r)
  then show ?thesis
    using assms pool_succ(1) [OF assms(2)] pool_next(1) [OF assms(2)]
    by (auto simp: counters_moved_def)
qed (use assms in \<open>auto simp: counters_moved_def split: option.splits\<close>)

lemma counters_moved_trans: "counters_moved a b \<Longrightarrow> counters_moved b c \<Longrightarrow> counters_moved a c"
  by (simp add: counters_moved_def)

lemma next_address_loop_result:
  assumes "next_address_loop n t real = (r, t')" "pool_ok (next_ipv4 t)"
  shows "counters_moved t t'
    \<and> (\<forall>a. r = Ok a \<longrightarrow> map_of (mappings t) a = None \<and> same_family a real
          \<and> (case a of V4 w \<Rightarrow> pool_ok w | V6 _ \<Rightarrow> True))"
  using assms
proof (induction n arbitrary: t)
  case (Suc n)
  show ?case
  proof (cases "next_candidate t real")
    case None
    then show ?thesis
      using Suc.prems by (auto simp: counters_moved_def)
  next
    case (Some cand)
    obtain c t1 where cand: "cand = (c, t1)"
      by (cases cand)
    note t1 = next_candidate_Some [OF Some [unfolded cand] Suc.prems(2)]
    then have maps: "mappings t1 = mappings t" and pool: "pool_ok (next_ipv4 t1)"
      by (simp_all add: counters_moved_def)
    show ?thesis
    proof (cases "map_of (mappings t1) c = None")
      case True
      then have "r = Ok c" "t' = t1"
        using Suc.prems(1) Some cand by simp_all
      then show ?thesis
        using t1 True maps by simp
    next
      case False
      then have "next_address_loop n t1 real = (r, t')"
        using Suc.prems(1) Some cand by (cases "map_of (mappings t1) c") simp_all
      from Suc.IH [OF this pool] show ?thesis
        using t1 counters_moved_trans maps by simp blast
    qed
  qed
qed (auto simp: counters_moved_def)

text \<open>With a full table the oldest entry makes room; otherwise nothing is evicted.\<close>

lemma evict_drop:
  assumes "distinct (map fst m)"
  shows "evict cap m (map fst m) = (let k = length m + 1 - cap in (drop k m, map fst (drop k m)))"
  using assms
proof (induction m)
  case (Cons e m)
  have "filter (\<lambda>(a, _). a \<noteq> fst e) (e # m) = m"
    using Cons.prems by (cases e) (auto simp: filter_id_conv image_iff)
  then show ?case
    using Cons by (cases "length (e # m) \<ge> cap") (auto simp: Let_def Suc_diff_le)
qed (simp add: Let_def)

lemma filter_live_keys:
  assumes "distinct (map fst m)"
  shows "filter (\<lambda>a. map_of (filter P m) a \<noteq> None) (map fst m) = map fst (filter P m)"
proof -
  have "map_of (filter P m) (fst e) \<noteq> None \<longleftrightarrow> P e" if "e \<in> set m" for e
  proof
    assume "map_of (filter P m) (fst e) \<noteq> None"
    then obtain v where "map_of (filter P m) (fst e) = Some v"
      by blast
    then have v: "(fst e, v) \<in> set m" "P (fst e, v)"
      using map_of_SomeD by fastforce+
    have "v = snd e"
      using eq_key_imp_eq_value [OF assms v(1)] that by simp
    then show "P e"
      using v(2) by simp
  qed (use that weak_map_of_SomeI [of "fst e" "snd e" "filter P m"] in auto)
  then have "filter (\<lambda>e. map_of (filter P m) (fst e) \<noteq> None) m = filter P m"
    by (intro filter_cong) auto
  then show ?thesis
    by (simp add: filter_map comp_def)
qed

lemma fake_dns_inv_sub:
  assumes "fake_dns_inv cap t" "set m \<subseteq> set (mappings t)" "distinct (map fst m)"
    "length m \<le> length (mappings t)"
  shows "fake_dns_inv cap (t\<lparr>mappings := m, insertion_order := map fst m\<rparr>)"
  using assms by (auto simp: fake_dns_inv_def list_all_iff intro: inj_on_subset)

lemma remove_expired_inv:
  assumes "fake_dns_inv cap t"
  shows "fake_dns_inv cap (remove_expired t now)"
proof -
  let ?m = "filter (\<lambda>(_, m). expires_at m > now) (mappings t)"
  have keys: "distinct (map fst (mappings t))" "insertion_order t = map fst (mappings t)"
    using assms by (simp_all add: fake_dns_inv_def)
  have "remove_expired t now = t\<lparr>mappings := ?m, insertion_order := map fst ?m\<rparr>"
    unfolding remove_expired_def Let_def keys(2) filter_live_keys [OF keys(1)] ..
  then show ?thesis
    using fake_dns_inv_sub [OF assms, of ?m] keys(1) by (simp add: distinct_map_filter)
qed

lemma replace_generation_inv:
  "fake_dns_inv cap t \<Longrightarrow> fake_dns_inv cap (FakeDnsTable_replace_generation t g)"
  by (simp add: fake_dns_inv_def FakeDnsTable_replace_generation_def)

text \<open>Extending the life of an entry changes nothing the invariant speaks of.\<close>

lemma map_entries_inv:
  assumes "fake_dns_inv cap t" "\<And>e. fst (f e) = fst e" "\<And>g e. entry_ok g (f e) = entry_ok g e"
    "\<And>e. map_domain (snd (f e)) = map_domain (snd e)" "\<And>e. real_address (snd (f e)) = real_address (snd e)"
  shows "fake_dns_inv cap (t\<lparr>mappings := map f (mappings t)\<rparr>)"
proof -
  have fst: "fst \<circ> f = fst"
    using assms(2) by (simp add: fun_eq_iff)
  have "inj_on (\<lambda>(_, m). (map_domain m, real_address m)) (f ` set (mappings t))"
    using assms(1,4,5) unfolding fake_dns_inv_def inj_on_def case_prod_beta
    by (metis (no_types, lifting) imageE)
  then show ?thesis
    using assms(1,3) by (simp add: fake_dns_inv_def fst list_all_iff)
qed

lemma refresh_inv:
  assumes "fake_dns_inv cap t"
  shows "fake_dns_inv cap (t\<lparr>mappings :=
    map (\<lambda>(b, m). (b, if b = a then m\<lparr>expires_at := x\<rparr> else m)) (mappings t)\<rparr>)"
  by (rule map_entries_inv [OF assms]) (auto simp: entry_ok_def split: prod.splits)

lemma insert_inv:
  assumes "fake_dns_inv cap t" "FakeDnsTable_insert t d real (table_generation t) x = (r, t')"
    and new: "find (\<lambda>(_, m). same_identity d real m) (mappings t) = None"
  shows "fake_dns_inv cap t' \<and> table_generation t' = table_generation t
    \<and> (\<forall>a. r = Ok a \<longrightarrow> map_of (mappings t') a = Some \<lparr>map_domain = d, real_address = real,
          fake_address = a, map_generation = table_generation t, expires_at = x\<rparr>)"
proof -
  define k where "k = length (mappings t) + 1 - cap"
  define t1 where "t1 = t\<lparr>mappings := drop k (mappings t), insertion_order := map fst (drop k (mappings t))\<rparr>"
  have keys: "distinct (map fst (mappings t))" "insertion_order t = map fst (mappings t)" "capacity t = cap"
    "0 < cap" "length (mappings t) \<le> cap"
    using assms(1) by (simp_all add: fake_dns_inv_def)
  have sub: "set (mappings t1) \<subseteq> set (mappings t)"
    by (simp add: t1_def set_drop_subset)
  have inv1: "fake_dns_inv cap t1"
    unfolding t1_def using keys(1) by (intro fake_dns_inv_sub [OF assms(1)]) (auto simp: set_drop_subset
        drop_map [symmetric] dest: in_set_dropD)
  have room: "length (mappings t1) < cap"
    using keys by (simp add: t1_def k_def)
  obtain r' t2 where loop: "next_address_loop (cap + 1) t1 real = (r', t2)"
    by fastforce
  have evicted: "evict (capacity t) (mappings t) (insertion_order t) = (mappings t1, insertion_order t1)"
    by (simp add: keys(2,3) evict_drop [OF keys(1)] t1_def k_def Let_def)
  have t1: "t\<lparr>mappings := mappings t1, insertion_order := insertion_order t1\<rparr> = t1"
    and cap1: "capacity t1 = cap"
    using keys(3) by (simp_all add: t1_def)
  have insert: "FakeDnsTable_insert t d real (table_generation t) x =
    (case (r', t2) of (Inl e, s) \<Rightarrow> (Err e, s)
      | (Inr fake, s) \<Rightarrow> (Ok fake, s\<lparr>insertion_order := insertion_order s @ [fake],
          mappings := mappings s @ [(fake, \<lparr>map_domain = d, real_address = real, fake_address = fake,
            map_generation = table_generation t, expires_at = x\<rparr>)]\<rparr>))"
    unfolding FakeDnsTable_insert_def evicted
    using loop by (simp add: next_address_def keys(3) t1 cap1 del: next_address_loop.simps)
  have moved: "counters_moved t1 t2" and fresh: "\<And>a. r' = Ok a \<Longrightarrow> map_of (mappings t1) a = None
      \<and> same_family a real \<and> (case a of V4 w \<Rightarrow> pool_ok w | V6 _ \<Rightarrow> True)"
    using next_address_loop_result [OF loop] inv1 by (auto simp: fake_dns_inv_def)
  show ?thesis
  proof (cases r')
    case (Inl e)
    then show ?thesis
      using insert assms(2) moved inv1 by (simp add: counters_moved_def fake_dns_inv_def) (simp add: t1_def)
  next
    case (Inr a)
    have "(d, real) \<notin> (\<lambda>(_, m). (map_domain m, real_address m)) ` set (mappings t1)"
      using new sub by (auto simp: find_None_iff same_identity_def)
    then have "fake_dns_inv cap t'"
      using Inr insert assms(2) moved inv1 room fresh [OF Inr]
      by (auto simp: counters_moved_def fake_dns_inv_def entry_ok_def map_of_eq_None_iff t1_def)
    moreover have "table_generation t' = table_generation t" "r = Ok a"
      using Inr insert assms(2) moved by (simp_all add: counters_moved_def t1_def)
    moreover have "map_of (mappings t') a = Some \<lparr>map_domain = d, real_address = real,
          fake_address = a, map_generation = table_generation t, expires_at = x\<rparr>"
      using Inr insert assms(2) moved fresh [OF Inr] by (simp add: counters_moved_def map_add_def)
    ultimately show ?thesis
      by simp
  qed
qed

lemma allocate_inv:
  assumes "fake_dns_inv cap t" "FakeDnsTable_allocate t g d real ttl now = (r, t')"
  shows "fake_dns_inv cap t' \<and> table_generation t' = table_generation t
    \<and> (\<forall>a. r = Ok a \<longrightarrow> (\<exists>v m. fake_normalize_domain d = Ok v \<and> g = table_generation t
          \<and> map_of (mappings t') a = Some m \<and> map_domain m = v \<and> real_address m = real
          \<and> expires_at m = now + ttl))"
proof (cases "g = table_generation t \<and> (\<exists>v. fake_normalize_domain d = Ok v)")
  case False
  then show ?thesis
    using assms by (auto simp: FakeDnsTable_allocate_def split: if_splits sum.splits)
next
  case True
  then obtain v where v: "fake_normalize_domain d = Ok v" and g: "g = table_generation t"
    by blast
  let ?t = "remove_expired t now"
  have inv: "fake_dns_inv cap ?t" and gen: "table_generation ?t = table_generation t"
    using remove_expired_inv [OF assms(1)] by (simp_all add: remove_expired_def Let_def)
  show ?thesis
  proof (cases "find (\<lambda>(_, m). same_identity v real m) (mappings ?t)")
    case None
    then have "FakeDnsTable_insert ?t v real (table_generation ?t) (now + ttl) = (r, t')"
      using assms(2) v g gen by (simp add: FakeDnsTable_allocate_def)
    from insert_inv [OF inv this None] show ?thesis
      using v g gen by auto
  next
    case (Some e)
    obtain a m where e: "e = (a, m)"
      by (cases e)
    then have m: "(a, m) \<in> set (mappings ?t)" "same_identity v real m"
      using Some by (auto simp: find_Some_iff in_set_conv_nth)
    have "fake_address m = a"
      using inv m(1) by (auto simp: fake_dns_inv_def list_all_iff entry_ok_def)
    then have t': "t' = ?t\<lparr>mappings :=
        map (\<lambda>(b, m). (b, if b = a then m\<lparr>expires_at := now + ttl\<rparr> else m)) (mappings ?t)\<rparr>" "r = Ok a"
      using assms(2) v g Some e by (simp_all add: FakeDnsTable_allocate_def Let_def)
    have "map_of (mappings ?t) a = Some m"
      using inv m(1) by (simp add: fake_dns_inv_def)
    moreover have "map_of (map (\<lambda>(b, m). (b, h b m)) ms) a = map_option (h a) (map_of ms a)"
      for h :: "Ip \<Rightarrow> FakeDnsMapping \<Rightarrow> FakeDnsMapping" and ms
      by (induction ms) auto
    ultimately have "map_of (mappings t') a = Some (m\<lparr>expires_at := now + ttl\<rparr>)"
      by (simp add: t'(1))
    then show ?thesis
      using refresh_inv [OF inv] t' v g gen m(2) by (simp add: same_identity_def)
  qed
qed

lemma resolve_inv:
  assumes "fake_dns_inv cap t" "FakeDnsTable_resolve t g a now = (r, t')"
  shows "fake_dns_inv cap t'"
  using assms remove_expired_inv [OF assms(1), of now]
  by (auto simp: FakeDnsTable_resolve_def Let_def split: if_splits)

lemma fake_dns_step_inv:
  assumes "fake_dns_inv cap t" "fake_dns_step op t = Some (out, t')"
  shows "fake_dns_inv cap t'"
  using assms allocate_inv [OF assms(1)] resolve_inv [OF assms(1)] replace_generation_inv [OF assms(1)]
  by (cases op) (auto split: prod.splits)

interpretation fake_dns: invariant_system fake_dns_step "fake_dns_inv cap"
  by unfold_locales (rule fake_dns_step_inv)

lemma fake_dns_inv_new: "FakeDnsTable_new g cap = Ok t \<Longrightarrow> fake_dns_inv cap t"
  by (auto simp: FakeDnsTable_new_def fake_dns_inv_def pool_ok_def FIRST_IPV4_def LAST_IPV4_def
      split: if_splits)

section \<open>The life of an entry\<close>

lemma remove_expired_fields [simp]:
  "mappings (remove_expired t now) = filter (\<lambda>(_, m). now < expires_at m) (mappings t)"
  "table_generation (remove_expired t now) = table_generation t"
  by (simp_all add: remove_expired_def Let_def)

lemma insert_mappings:
  assumes "fake_dns_inv cap t" "FakeDnsTable_insert t d real g x = (r, t')"
  shows "table_generation t' = table_generation t
    \<and> (\<exists>entries. mappings t' = drop (length (mappings t) + 1 - cap) (mappings t) @ entries
        \<and> ((\<forall>a. r \<noteq> Ok a) \<and> entries = [] \<or> (\<exists>a m. r = Ok a \<and> entries = [(a, m)])))"
proof -
  let ?m = "drop (length (mappings t) + 1 - cap) (mappings t)"
  let ?t = "t\<lparr>mappings := ?m, insertion_order := map fst ?m\<rparr>"
  have keys: "distinct (map fst (mappings t))" "insertion_order t = map fst (mappings t)" "capacity t = cap" "pool_ok (next_ipv4 t)"
    using assms(1) by (simp_all add: fake_dns_inv_def)
  obtain r' t2 where loop: "next_address_loop (cap + 1) ?t real = (r', t2)"
    by fastforce
  have "counters_moved ?t t2"
    using next_address_loop_result [OF loop] keys(4) by simp
  moreover have "evict (capacity t) (mappings t) (insertion_order t) = (?m, map fst ?m)"
    by (simp add: keys(2,3) evict_drop [OF keys(1)] Let_def)
  ultimately show ?thesis
    using assms(2) loop keys(3)
    by (cases r') (auto simp: FakeDnsTable_insert_def next_address_def counters_moved_def simp del: next_address_loop.simps)
qed

lemma allocate_mappings:
  assumes "fake_dns_inv cap t" "FakeDnsTable_allocate t g d real ttl now = (r, t')"
  defines "live \<equiv> filter (\<lambda>(_, m). now < expires_at m) (mappings t)"
  shows "table_generation t' = table_generation t
    \<and> (t' = t \<and> (\<forall>a. r \<noteq> Ok a)
       \<or> (\<exists>a. r = Ok a \<and> mappings t' = map (\<lambda>(b, m). (b, if b = a then m\<lparr>expires_at := now + ttl\<rparr> else m)) live)
       \<or> (\<exists>entries. mappings t' = drop (length live + 1 - cap) live @ entries
            \<and> ((\<forall>a. r \<noteq> Ok a) \<and> entries = [] \<or> (\<exists>a m. r = Ok a \<and> entries = [(a, m)]))))"
proof (cases "g = table_generation t \<and> (\<exists>v. fake_normalize_domain d = Ok v)")
  case False
  then show ?thesis
    using assms(2) by (auto simp: FakeDnsTable_allocate_def split: if_splits sum.splits)
next
  case True
  then obtain v where v: "fake_normalize_domain d = Ok v" and g: "g = table_generation t"
    by blast
  let ?t = "remove_expired t now"
  have inv: "fake_dns_inv cap ?t"
    by (rule remove_expired_inv [OF assms(1)])
  have live: "mappings ?t = live"
    by (simp add: live_def)
  show ?thesis
  proof (cases "find (\<lambda>(_, m). same_identity v real m) live")
    case None
    then have "FakeDnsTable_insert ?t v real g (now + ttl) = (r, t')"
      using assms(2) v g by (simp add: FakeDnsTable_allocate_def Let_def live_def)
    from insert_mappings [OF inv this, unfolded live] show ?thesis
      by auto
  next
    case (Some e)
    obtain a m where e: "e = (a, m)"
      by (cases e)
    then have "(a, m) \<in> set (mappings ?t)"
      using Some unfolding live by (auto simp: find_Some_iff in_set_conv_nth)
    then have "fake_address m = a"
      using inv by (auto simp: fake_dns_inv_def list_all_iff entry_ok_def)
    then show ?thesis
      using assms(2) v g Some e by (auto simp: FakeDnsTable_allocate_def Let_def live_def)
  qed
qed

lemma newer_split:
  assumes "fake_dns_inv cap t" "mappings t = pre @ (a, m) # post"
  shows "newer a t = length post"
proof -
  have "a \<notin> fst ` set post" "insertion_order t = map fst pre @ a # map fst post"
    using assms by (auto simp: fake_dns_inv_def)
  then have "takeWhile (\<lambda>b. b \<noteq> a) (rev (insertion_order t)) = rev (map fst post)"
    by (simp, subst takeWhile_append2) auto
  then show ?thesis
    by (simp add: newer_def)
qed

lemma filter_split_entry:
  "P (a, m) \<Longrightarrow> filter P (pre @ (a, m) # post) = filter P pre @ (a, m) # filter P post"
  by simp

lemma holds_entry_mono:
  assumes "holds_entry g a v real x n t" "x' \<le> x" "n \<le> n'"
  shows "holds_entry g a v real x' n' t"
proof -
  obtain pre m post where "table_generation t = g" "mappings t = pre @ (a, m) # post" "map_domain m = v"
      "real_address m = real" "x \<le> expires_at m" "length post \<le> n"
    using assms(1) by (auto simp: holds_entry_def)
  then show ?thesis
    using assms(2,3) unfolding holds_entry_def
    by (intro conjI exI [of _ pre] exI [of _ m] exI [of _ post]) auto
qed

lemma allocate_holds_entry:
  assumes "fake_dns_inv cap t" "holds_entry g a v real x n t" "n + 1 < cap"
    and "FakeDnsTable_allocate t h d real' ttl now = (r, t')" "now < x" "r = Ok a \<longrightarrow> x \<le> now + ttl"
  shows "holds_entry g a v real x (n + 1) t'"
proof -
  let ?P = "\<lambda>(_, m). now < expires_at m"
  obtain pre m post where t: "table_generation t = g" "mappings t = pre @ (a, m) # post" "map_domain m = v"
      "real_address m = real" "x \<le> expires_at m" "length post \<le> n"
    using assms(2) by (auto simp: holds_entry_def)
  define pre' post' where "pre' = filter ?P pre" and "post' = filter ?P post"
  have live: "filter ?P (mappings t) = pre' @ (a, m) # post'"
    unfolding t(2) pre'_def post'_def using t(5) assms(5) by (intro filter_split_entry) simp
  have short: "length post' \<le> n"
    using t(6) length_filter_le [of ?P post] unfolding post'_def by linarith
  note cases = allocate_mappings [OF assms(1,4), unfolded live]
  then have gen: "table_generation t' = g"
    using t(1) by simp
  from cases consider "t' = t"
    | b where "r = Ok b" "mappings t' = map (\<lambda>(c, m). (c, if c = b then m\<lparr>expires_at := now + ttl\<rparr> else m)) (pre' @ (a, m) # post')"
    | entries where "mappings t' = drop (length (pre' @ (a, m) # post') + 1 - cap) (pre' @ (a, m) # post') @ entries" "length entries \<le> 1"
    by auto
  then show ?thesis
  proof cases
    case 1
    then show ?thesis
      using holds_entry_mono [OF assms(2)] by simp
  next
    case (2 b)
    let ?f = "\<lambda>(c, m). (c, if c = b then m\<lparr>expires_at := now + ttl\<rparr> else m)"
    let ?m = "if a = b then m\<lparr>expires_at := now + ttl\<rparr> else m"
    have "mappings t' = map ?f pre' @ (a, ?m) # map ?f post'"
      using 2(2) by simp
    moreover have "map_domain ?m = v" "real_address ?m = real" "x \<le> expires_at ?m"
      using t(3-5) 2(1) assms(6) by auto
    ultimately show ?thesis
      using gen short unfolding holds_entry_def
      by (intro conjI exI [of _ "map ?f pre'"] exI [of _ ?m] exI [of _ "map ?f post'"]) auto
  next
    case (3 entries)
    have "length (pre' @ (a, m) # post') + 1 - cap \<le> length pre'"
      using short assms(3) by simp
    then have "mappings t' = drop (length (pre' @ (a, m) # post') + 1 - cap) pre' @ (a, m) # (post' @ entries)"
      using 3(1) by simp
    then show ?thesis
      using gen t(3-5) short 3(2) unfolding holds_entry_def
      by (intro conjI exI [of _ "drop (length (pre' @ (a, m) # post') + 1 - cap) pre'"] exI [of _ m] exI [of _ "post' @ entries"]) auto
  qed
qed

lemma resolve_holds_entry:
  assumes "holds_entry g a v real x n t" "FakeDnsTable_resolve t h b now = (r, t')" "now < x"
  shows "holds_entry g a v real x n t'"
proof -
  let ?P = "\<lambda>(_, m). now < expires_at m"
  obtain pre m post where t: "table_generation t = g" "mappings t = pre @ (a, m) # post" "map_domain m = v"
      "real_address m = real" "x \<le> expires_at m" "length post \<le> n"
    using assms(1) by (auto simp: holds_entry_def)
  have "filter ?P (mappings t) = filter ?P pre @ (a, m) # filter ?P post"
    unfolding t(2) using t(5) assms(3) by (intro filter_split_entry) simp
  moreover have "length (filter ?P post) \<le> n"
    using t(6) length_filter_le [of ?P post] by linarith
  ultimately have "holds_entry g a v real x n (remove_expired t now)"
    using t(1,3-5) unfolding holds_entry_def remove_expired_fields by blast
  then show ?thesis
    using assms(1,2) by (auto simp: FakeDnsTable_resolve_def Let_def split: if_splits)
qed

lemma holds_entry_run:
  assumes "run fake_dns_step t log t'" "fake_dns_inv cap t" "holds_entry g a v real x n t"
    and "list_all (keeps x a) log" "n + allocations log < cap"
  shows "holds_entry g a v real x (n + allocations log) t'"
  using assms
proof (induction rule: run.induct)
  case (run_snoc t log t1 op out t2)
  have inv: "fake_dns_inv cap t1"
    by (rule fake_dns.run_inv [OF run_snoc.hyps(1) run_snoc.prems(1)])
  have before: "holds_entry g a v real x (n + allocations log) t1"
    using run_snoc.IH run_snoc.prems by (simp add: allocations_def)
  show ?case
  proof (cases op)
    case (Allocate h d real' ttl now)
    then obtain r where r: "FakeDnsTable_allocate t1 h d real' ttl now = (r, t2)" "out = Allocated r"
      using run_snoc.hyps(2) by (auto split: prod.splits)
    show ?thesis
      using allocate_holds_entry [OF inv before _ r(1)] run_snoc.prems(3,4) Allocate r(2)
      by (simp add: allocations_def)
  next
    case (Resolve h b now)
    then show ?thesis
      using resolve_holds_entry [OF before] run_snoc.hyps(2) run_snoc.prems(3)
      by (auto simp: allocations_def split: prod.splits)
  next
    case (ReplaceGeneration h)
    then show ?thesis
      using run_snoc.prems(3) by simp
  qed
qed (simp add: allocations_def)

lemma holds_entry_resolves:
  assumes "fake_dns_inv cap t" "holds_entry g a v real x n t" "later < x"
  shows "\<exists>m. fst (FakeDnsTable_resolve t g a later) = Ok (Some m) \<and> map_domain m = v \<and> real_address m = real"
proof -
  obtain pre m post where "mappings t = pre @ (a, m) # post"
    and m: "table_generation t = g" "map_domain m = v" "real_address m = real" "x \<le> expires_at m"
    using assms(2) by (auto simp: holds_entry_def)
  then have mem: "(a, m) \<in> set (mappings t)"
    by simp
  have "distinct (map fst (mappings t))"
    using assms(1) by (simp add: fake_dns_inv_def)
  then have "map_of (filter (\<lambda>(_, m). later < expires_at m) (mappings t)) a = Some m"
    using m mem assms(3) by (simp add: map_of_eq_Some_iff distinct_map_filter)
  then show ?thesis
    using m by (simp add: FakeDnsTable_resolve_def Let_def)
qed

text \<open>As long as an address is not handed out again, it stands for what it was handed out for.\<close>

lemma only_entry_sub: "only_entry g a v real x t \<Longrightarrow> table_generation t' = table_generation t
   \<Longrightarrow> set (mappings t') \<subseteq> set (mappings t) \<union> (- {a}) \<times> UNIV \<Longrightarrow> only_entry g a v real x t'"
  unfolding only_entry_def by auto

lemma only_entry_step:
  assumes "fake_dns_inv cap t" "only_entry g a v real x t" "fake_dns_step op t = Some (out, t')" "out \<noteq> Allocated (Ok a)"
  shows "only_entry g a v real x t'"
proof (cases op)
  case (Allocate h d real' ttl now)
  then obtain r where r: "FakeDnsTable_allocate t h d real' ttl now = (r, t')" "r \<noteq> Ok a"
    using assms(3,4) by (auto split: prod.splits)
  show ?thesis
  proof (rule only_entry_sub [OF assms(2)])
    show "table_generation t' = table_generation t"
      using allocate_mappings [OF assms(1) r(1)] by simp
    show "set (mappings t') \<subseteq> set (mappings t) \<union> (- {a}) \<times> UNIV"
      using allocate_mappings [OF assms(1) r(1)] r(2)
      by (auto dest!: in_set_dropD split: if_splits)
  qed
next
  case (Resolve h b now)
  then show ?thesis
    using assms(3) by (intro only_entry_sub [OF assms(2)])
      (auto simp: FakeDnsTable_resolve_def Let_def split: if_splits prod.splits)
next
  case (ReplaceGeneration h)
  then show ?thesis
    using assms(3) by (auto simp: only_entry_def FakeDnsTable_replace_generation_def)
qed

lemma only_entry_run:
  assumes "run fake_dns_step t log t'" "fake_dns_inv cap t" "only_entry g a v real x t"
    and "list_all (\<lambda>(_, out). out \<noteq> Allocated (Ok a)) log"
  shows "only_entry g a v real x t'"
  using assms
proof (induction rule: run.induct)
  case (run_snoc t log t1 op out t2)
  then show ?case
    using only_entry_step [OF fake_dns.run_inv [OF run_snoc.hyps(1) run_snoc.prems(1)] _ run_snoc.hyps(2)] by simp
qed simp

lemma only_entry_resolves:
  assumes "only_entry g a v real x t" "fst (FakeDnsTable_resolve t h a later) = Ok (Some m)"
  shows "h = g \<and> map_domain m = v \<and> real_address m = real \<and> later < x"
proof -
  have "h = table_generation t" "map_of (filter (\<lambda>(_, m). later < expires_at m) (mappings t)) a = Some m"
    using assms(2) by (auto simp: FakeDnsTable_resolve_def Let_def split: if_splits)
  then show ?thesis
    using assms(1) map_of_SomeD [of _ a m] unfolding only_entry_def by fastforce
qed

text \<open>The entry an allocation leaves; the entry of a new address is the newest.\<close>

lemma allocate_fresh_last:
  assumes "fake_dns_inv cap t" "FakeDnsTable_allocate t g d real ttl now = (Ok a, t1)" "map_of (mappings t) a = None"
  shows "\<exists>pre m. mappings t1 = pre @ [(a, m)]"
proof -
  have fresh: "a \<notin> fst ` set (mappings t)"
    using assms(3) by (simp add: map_of_eq_None_iff)
  let ?live = "filter (\<lambda>(_, m). now < expires_at m) (mappings t)"
  obtain m where "map_of (mappings t1) a = Some m"
    using allocate_inv [OF assms(1,2)] by auto
  from imageI [OF map_of_SomeD [OF this], of fst] have mem: "a \<in> fst ` set (mappings t1)"
    by simp
  have old: "a \<notin> fst ` set (drop k ?live)" for k
    using fresh set_drop_subset [of k ?live] by force
  from allocate_mappings [OF assms(1,2)] consider
      "mappings t1 = map (\<lambda>(b, m). (b, if b = a then m\<lparr>expires_at := now + ttl\<rparr> else m)) ?live"
    | entries where "mappings t1 = drop (length ?live + 1 - cap) ?live @ entries" "entries = [] \<or> (\<exists>m. entries = [(a, m)])"
    by auto
  then show ?thesis
  proof cases
    case 1
    then have "fst ` set (mappings t1) = fst ` set ?live"
      by (simp add: image_image case_prod_beta)
    then show ?thesis
      using mem old [of 0] by simp
  next
    case (2 entries)
    then show ?thesis
      using mem old by auto
  qed
qed

lemma allocated_entry:
  assumes "fake_dns_inv cap t" "FakeDnsTable_allocate t g d real ttl now = (Ok a, t1)"
  obtains v where "fake_normalize_domain d = Ok v" "fake_dns_inv cap t1"
    "holds_entry g a v real (now + ttl) (newer a t1) t1" "only_entry g a v real (now + ttl) t1"
    "newer a t1 < cap" "map_of (mappings t) a = None \<longrightarrow> newer a t1 = 0"
proof -
  from allocate_inv [OF assms] obtain v m where
    v: "fake_normalize_domain d = Ok v" "table_generation t1 = g" and inv: "fake_dns_inv cap t1"
    and m: "map_of (mappings t1) a = Some m" "map_domain m = v" "real_address m = real" "expires_at m = now + ttl"
    by auto
  have distinct: "distinct (map fst (mappings t1))" "length (mappings t1) \<le> cap"
    using inv by (simp_all add: fake_dns_inv_def)
  obtain pre post where split: "mappings t1 = pre @ (a, m) # post"
    using split_list [OF map_of_SomeD [OF m(1)]] by blast
  note count = newer_split [OF inv split]
  have "holds_entry g a v real (now + ttl) (newer a t1) t1"
    using v(2) m split count unfolding holds_entry_def
    by (intro conjI exI [of _ pre] exI [of _ m] exI [of _ post]) auto
  moreover have "only_entry g a v real (now + ttl) t1"
    using v(2) m(2-4) eq_key_imp_eq_value [OF distinct(1) _ map_of_SomeD [OF m(1)]]
    unfolding only_entry_def by blast
  moreover have "newer a t1 < cap"
    using count distinct(2) split by simp
  moreover have "map_of (mappings t) a = None \<longrightarrow> newer a t1 = 0"
    using allocate_fresh_last [OF assms] newer_split [OF inv, of _ a _ "[]"] by auto
  ultimately show thesis
    by (rule that [OF v(1) inv])
qed

text \<open>What the address stands for after any later history.\<close>

lemma allocated_address_life:
  assumes "fake_dns_inv cap t" "FakeDnsTable_allocate t g d real ttl now = (Ok a, t1)" "run fake_dns_step t1 later_log t2"
  shows "\<exists>v. fake_normalize_domain d = Ok v
    \<and> newer a t1 < cap \<and> (map_of (mappings t) a = None \<longrightarrow> newer a t1 = 0)
    \<and> (\<forall>x later. later < x \<and> x \<le> now + ttl \<and> list_all (keeps x a) later_log \<and> newer a t1 + allocations later_log < cap
        \<longrightarrow> (\<exists>m. fst (FakeDnsTable_resolve t2 g a later) = Ok (Some m) \<and> map_domain m = v \<and> real_address m = real))
    \<and> (list_all (\<lambda>(_, out). out \<noteq> Allocated (Ok a)) later_log \<longrightarrow>
        (\<forall>h later m. fst (FakeDnsTable_resolve t2 h a later) = Ok (Some m)
          \<longrightarrow> h = g \<and> map_domain m = v \<and> real_address m = real \<and> later < now + ttl))
    \<and> (\<forall>h later. h \<noteq> table_generation t2 \<longrightarrow> FakeDnsTable_resolve t2 h a later = (Err GenerationMismatch, t2))"
proof -
  from allocated_entry [OF assms(1,2)] obtain v where v: "fake_normalize_domain d = Ok v" and inv1: "fake_dns_inv cap t1"
    and entry: "holds_entry g a v real (now + ttl) (newer a t1) t1" "only_entry g a v real (now + ttl) t1"
    and room: "newer a t1 < cap" "map_of (mappings t) a = None \<longrightarrow> newer a t1 = 0"
    by blast
  have inv2: "fake_dns_inv cap t2"
    by (rule fake_dns.run_inv [OF assms(3) inv1])
  have "\<exists>m. fst (FakeDnsTable_resolve t2 g a later) = Ok (Some m) \<and> map_domain m = v \<and> real_address m = real"
    if "later < x" "x \<le> now + ttl" "list_all (keeps x a) later_log" "newer a t1 + allocations later_log < cap" for x later
  proof -
    have "holds_entry g a v real x (newer a t1) t1"
      by (rule holds_entry_mono [OF entry(1) that(2) order_refl])
    from holds_entry_run [OF assms(3) inv1 this that(3,4)] show ?thesis
      using holds_entry_resolves [OF inv2 _ that(1)] by blast
  qed
  then have life: "\<forall>x later. later < x \<and> x \<le> now + ttl \<and> list_all (keeps x a) later_log \<and> newer a t1 + allocations later_log < cap
      \<longrightarrow> (\<exists>m. fst (FakeDnsTable_resolve t2 g a later) = Ok (Some m) \<and> map_domain m = v \<and> real_address m = real)"
    by (intro allI impI) (elim conjE)
  have other: "FakeDnsTable_resolve t2 h a later = (Err GenerationMismatch, t2)" if "h \<noteq> table_generation t2" for h later
    using that by (simp add: FakeDnsTable_resolve_def)
  have once: "h = g \<and> map_domain m = v \<and> real_address m = real \<and> later < now + ttl"
    if "list_all (\<lambda>(_, out). out \<noteq> Allocated (Ok a)) later_log" "fst (FakeDnsTable_resolve t2 h a later) = Ok (Some m)" for h later m
    by (rule only_entry_resolves [OF only_entry_run [OF assms(3) inv1 entry(2) that(1)] that(2)])
  show ?thesis
    by (intro exI [of _ v] conjI v room life) (use once in blast, use other in blast)
qed

section \<open>The IPv4 pool is large enough\<close>

text \<open>When the search fails, every address it tried is in use.\<close>

lemma next_address_loop_all_used:
  assumes "next_address_loop n t (V4 real) = (Err e, t')" "pool_ok (next_ipv4 t)" "i < n"
  shows "V4 (word_of_nat (3323068417 + (unat (next_ipv4 t) - 3323068417 + i) mod 131070))
    \<in> fst ` set (mappings t)"
  using assms
proof (induction n arbitrary: t i)
  case (Suc n)
  let ?w = "if next_ipv4 t + 1 > LAST_IPV4 then FIRST_IPV4 else next_ipv4 t + 1"
  let ?t = "t\<lparr>next_ipv4 := ?w\<rparr>"
  note moved = pool_next [OF Suc.prems(2)]
  have cand: "next_candidate t (V4 real) = Some (V4 (next_ipv4 t), ?t)"
    by (simp add: pool_succ(1) [OF Suc.prems(2)])
  then have used: "map_of (mappings t) (V4 (next_ipv4 t)) \<noteq> None"
    and rest: "next_address_loop n ?t (V4 real) = (Err e, t')"
    using Suc.prems(1) by (auto split: if_splits simp del: next_candidate.simps)
  show ?case
  proof (cases "i = 0")
    case True
    have "unat (next_ipv4 t) - 3323068417 < 131070" "3323068417 \<le> unat (next_ipv4 t)"
      using Suc.prems(2) by (auto simp: pool_ok_iff)
    then show ?thesis
      using used True by (auto simp: map_of_eq_None_iff)
  next
    case False
    then obtain j where j: "i = j + 1" "j < n"
      using Suc.prems(3) by (cases i) auto
    have "pool_ok (next_ipv4 ?t)"
      using moved(1) by simp
    from Suc.IH [OF rest this j(2)] show ?thesis
      using moved(2) j(1) by (simp add: mod_simps)
  qed
qed simp

lemma next_address_found:
  assumes "pool_ok (next_ipv4 t)" "length (mappings t) < n" "n \<le> 131070"
  shows "\<exists>a t'. next_address_loop n t (V4 real) = (Ok a, t')"
proof (rule ccontr)
  assume no: "\<not> ?thesis"
  obtain r t' where loop: "next_address_loop n t (V4 real) = (r, t')"
    by fastforce
  with no obtain e where e: "next_address_loop n t (V4 real) = (Err e, t')"
    by (cases r) auto
  let ?p = "unat (next_ipv4 t) - 3323068417"
  let ?addr = "\<lambda>i. V4 (word_of_nat (3323068417 + (?p + i) mod 131070) :: u32)"
  have addr_inj: "k = l" if "word_of_nat (3323068417 + k) = (word_of_nat (3323068417 + l) :: u32)"
    "k < 131070" "l < 131070" for k l :: nat
  proof -
    have "(3323068417 + k) mod 2 ^ LENGTH(32) = (3323068417 + l) mod 2 ^ LENGTH(32)"
      using arg_cong [OF that(1), of unat] unfolding unat_of_nat .
    then show ?thesis
      using that(2,3) by simp
  qed
  have "inj_on ?addr {..<n}"
  proof (rule inj_onI)
    fix i j assume ij: "i \<in> {..<n}" "j \<in> {..<n}" "?addr i = ?addr j"
    then have "(?p + i) mod 131070 = (?p + j) mod 131070"
      by (intro addr_inj) simp_all
    then obtain q1 q2 where "?p + i + 131070 * q1 = ?p + j + 131070 * q2"
      unfolding nat_mod_eq_iff by blast
    then have "i + 131070 * q1 = j + 131070 * q2"
      by simp
    then have "(i + 131070 * q1) mod 131070 = (j + 131070 * q2) mod 131070"
      by (rule arg_cong)
    then show "i = j"
      using ij assms(3) by simp
  qed
  then have "card (?addr ` {..<n}) = n"
    using card_image by fastforce
  moreover have "?addr ` {..<n} \<subseteq> fst ` set (mappings t)"
    using next_address_loop_all_used [OF e assms(1)] by blast
  then have "card (?addr ` {..<n}) \<le> card (fst ` set (mappings t))"
    by (intro card_mono) simp_all
  ultimately have "n \<le> card (fst ` set (mappings t))"
    by linarith
  also have "\<dots> \<le> length (mappings t)"
    by (metis card_image_le card_length finite_set le_trans)
  finally show False
    using assms(2) by simp
qed

lemma insert_succeeds:
  assumes "fake_dns_inv cap t" "cap < 131070"
  shows "\<exists>a t'. FakeDnsTable_insert t d (V4 real) g x = (Ok a, t')"
proof -
  obtain m order where ev: "evict (capacity t) (mappings t) (insertion_order t) = (m, order)"
    by fastforce
  have keys: "distinct (map fst (mappings t))" "insertion_order t = map fst (mappings t)" "capacity t = cap"
    "0 < cap" "length (mappings t) \<le> cap"
    using assms(1) by (simp_all add: fake_dns_inv_def)
  then have "m = drop (length (mappings t) + 1 - cap) (mappings t)"
    using ev by (simp add: evict_drop Let_def)
  then have "length m < cap + 1"
    using keys by simp
  then obtain a t' where "next_address_loop (cap + 1) (t\<lparr>mappings := m, insertion_order := order\<rparr>)
      (V4 real) = (Ok a, t')"
    using next_address_found [of "t\<lparr>mappings := m, insertion_order := order\<rparr>" "cap + 1" real]
      assms by (auto simp: fake_dns_inv_def)
  then show ?thesis
    by (simp add: FakeDnsTable_insert_def ev [unfolded keys(3)] next_address_def keys(3)
        del: next_address_loop.simps)
qed

lemma demo_table_new: "FakeDnsTable_new 4 2 = Ok demo_table"
  by (simp add: FakeDnsTable_new_def demo_table_def)

lemma demo_names:
  "fake_normalize_domain ''A.'' = Ok ''a''" "fake_normalize_domain '' b'' = Ok ''b''"
  "fake_normalize_domain ''c'' = Ok ''c''"
  by code_simp+

lemma next_address_loop_numeral:
  "next_address_loop (numeral k) t real =
     (case next_candidate t real of
        None \<Rightarrow> (Err AddressSpaceExhausted, t)
      | Some (candidate, t) \<Rightarrow>
          if map_of (mappings t) candidate = None then (Ok candidate, t)
          else next_address_loop (pred_numeral k) t real)"
  by (simp add: numeral_eq_Suc)

lemmas fake_dns_eval = next_address_loop_numeral
  demo_table_def demo_names FakeDnsTable_allocate_def FakeDnsTable_insert_def next_address_def
  remove_expired_def same_identity_def Let_def checked_add_def
  FIRST_IPV4_def LAST_IPV4_def FIRST_IPV6_def

section \<open>Properties\<close>

text \<open>
  C17. The table invariant. After any allocations, resolutions and profile changes the table holds
  at most its capacity, no fake address is owned twice and no name and real address have two fake
  addresses, every fake address is of the family of the address it stands for and, for IPv4,
  inside 198.18.0.1 to 198.19.255.254, and every entry belongs to the current generation.
\<close>

theorem fake_dns_invariant:
  assumes "FakeDnsTable_new g cap = Ok t0" "run fake_dns_step t0 log t"
  shows "length (mappings t) \<le> cap \<and> distinct (map fst (mappings t))
    \<and> inj_on (\<lambda>(_, m). (map_domain m, real_address m)) (set (mappings t))
    \<and> (\<forall>(a, m) \<in> set (mappings t). fake_address m = a \<and> map_generation m = table_generation t
          \<and> same_family a (real_address m)
          \<and> (\<forall>w. a = V4 w \<longrightarrow> FIRST_IPV4 \<le> w \<and> w \<le> LAST_IPV4))"
proof -
  have "fake_dns_inv cap t"
    using fake_dns.run_inv [OF assms(2) fake_dns_inv_new [OF assms(1)]] .
  then show ?thesis
    by (auto simp: fake_dns_inv_def list_all_iff entry_ok_def pool_ok_def split: Ip.splits)
qed

theorem fake_dns_invariant_witness:
  "\<exists>log t. run fake_dns_step demo_table log t
     \<and> map fst (mappings t) = [V4 (FIRST_IPV4 + 1), V6 FIRST_IPV6] \<and> distinct (map fst (mappings t))"
proof -
  obtain log t where ex: "execute fake_dns_step demo_table demo_dns_ops = Some (log, t)"
    and keys: "map fst (mappings t) = [V4 (FIRST_IPV4 + 1), V6 FIRST_IPV6]"
    by (simp add: demo_dns_ops_def fake_dns_eval)
  show ?thesis
    using fake_dns_invariant [OF demo_table_new execute_run [OF ex]] execute_run [OF ex] keys
    by (intro exI [of _ log] exI [of _ t] conjI) (elim conjE; assumption)+
qed

text \<open>
  C18. What an allocated address stands for. Let any history follow the allocation of a fake address in
  a reachable table. As long as no step replaces the generation or shortens the entry's life and
  fewer allocations than the capacity leaves room for follow (the newer entries count as well; a
  new address has none), a lookup before the end of the entry's life gives the normalised name
  and the real address. Whatever follows, until the address is handed out again a lookup gives
  nothing else: an answer is the name and the real address, in the same generation and before the
  time to live has passed. A lookup with another generation is always refused.
\<close>

theorem allocated_address_resolves:
  assumes "FakeDnsTable_new g0 cap = Ok t0" "run fake_dns_step t0 log t"
    "FakeDnsTable_allocate t g d real ttl now = (Ok a, t1)" "run fake_dns_step t1 later_log t2"
  shows "\<exists>v. fake_normalize_domain d = Ok v
    \<and> newer a t1 < cap \<and> (map_of (mappings t) a = None \<longrightarrow> newer a t1 = 0)
    \<and> (\<forall>x later. later < x \<and> x \<le> now + ttl \<and> list_all (keeps x a) later_log \<and> newer a t1 + allocations later_log < cap
        \<longrightarrow> (\<exists>m. fst (FakeDnsTable_resolve t2 g a later) = Ok (Some m) \<and> map_domain m = v \<and> real_address m = real))
    \<and> (list_all (\<lambda>(_, out). out \<noteq> Allocated (Ok a)) later_log \<longrightarrow>
        (\<forall>h later m. fst (FakeDnsTable_resolve t2 h a later) = Ok (Some m)
          \<longrightarrow> h = g \<and> map_domain m = v \<and> real_address m = real \<and> later < now + ttl))
    \<and> (\<forall>h later. h \<noteq> table_generation t2 \<longrightarrow> FakeDnsTable_resolve t2 h a later = (Err GenerationMismatch, t2))"
  by (rule allocated_address_life [OF fake_dns.run_inv [OF assms(2) fake_dns_inv_new [OF assms(1)]] assms(3,4)])

theorem allocated_address_resolves_witness:
  "\<exists>t1 t2 m. fake_dns_step (Allocate 4 '' b'' (V4 2) 10 1) t1 = Some (Allocated (Ok (V4 (FIRST_IPV4 + 1))), t2)
     \<and> fst (FakeDnsTable_resolve t2 4 (V4 FIRST_IPV4) 5) = Ok (Some m) \<and> map_domain m = ''a''"
proof -
  obtain t1 where t1: "FakeDnsTable_allocate demo_table 4 ''A.'' (V4 1) 10 0 = (Ok (V4 FIRST_IPV4), t1)"
    and "\<exists>t2. fake_dns_step (Allocate 4 '' b'' (V4 2) 10 1) t1 = Some (Allocated (Ok (V4 (FIRST_IPV4 + 1))), t2)"
    by (simp add: fake_dns_eval)
  then obtain t2 where step: "fake_dns_step (Allocate 4 '' b'' (V4 2) 10 1) t1 = Some (Allocated (Ok (V4 (FIRST_IPV4 + 1))), t2)"
    by blast
  have keep: "list_all (keeps 10 (V4 FIRST_IPV4)) [(Allocate 4 '' b'' (V4 2) 10 1, Allocated (Ok (V4 (FIRST_IPV4 + 1))))]"
    "allocations [(Allocate 4 '' b'' (V4 2) 10 1, Allocated (Ok (V4 (FIRST_IPV4 + 1))))] = 1"
    by (simp_all add: FIRST_IPV4_def allocations_def)
  from allocated_address_resolves [OF demo_table_new run_nil t1 run_one [of fake_dns_step, OF step]]
  obtain v where v: "fake_normalize_domain ''A.'' = Ok v" and "map_of (mappings demo_table) (V4 FIRST_IPV4) = None \<longrightarrow> newer (V4 FIRST_IPV4) t1 = 0"
    and life: "\<forall>x later. later < x \<and> x \<le> 0 + 10 \<and> list_all (keeps x (V4 FIRST_IPV4)) [(Allocate 4 '' b'' (V4 2) 10 1, Allocated (Ok (V4 (FIRST_IPV4 + 1))))]
        \<and> newer (V4 FIRST_IPV4) t1 + allocations [(Allocate 4 '' b'' (V4 2) 10 1, Allocated (Ok (V4 (FIRST_IPV4 + 1))))] < 2
        \<longrightarrow> (\<exists>m. fst (FakeDnsTable_resolve t2 4 (V4 FIRST_IPV4) later) = Ok (Some m) \<and> map_domain m = v \<and> real_address m = V4 1)"
    by - (elim exE conjE, rule that)
  then have "newer (V4 FIRST_IPV4) t1 = 0"
    by (simp add: demo_table_def)
  then have "\<exists>m. fst (FakeDnsTable_resolve t2 4 (V4 FIRST_IPV4) 5) = Ok (Some m) \<and> map_domain m = ''a''"
    using life [THEN spec [of _ 10], THEN spec [of _ 5]] keep v demo_names(1) by auto
  then show ?thesis
    using step by blast
qed

text \<open>
  C19. IPv4 allocation never runs out: as long as the capacity is below the 131070 addresses of the
  pool, allocating for an IPv4 address with the current generation and a usable name always
  succeeds, however full the table is and wherever the counter stands.
\<close>

theorem ipv4_allocation_succeeds:
  assumes "FakeDnsTable_new g cap = Ok t0" "run fake_dns_step t0 log t" "cap < 131070"
    "fake_normalize_domain d = Ok v"
  shows "\<exists>a t'. FakeDnsTable_allocate t (table_generation t) d (V4 real) ttl now = (Ok a, t')"
proof -
  let ?t = "remove_expired t now"
  have inv: "fake_dns_inv cap ?t"
    using fake_dns.run_inv [OF assms(2) fake_dns_inv_new [OF assms(1)]] by (rule remove_expired_inv)
  show ?thesis
  proof (cases "find (\<lambda>(_, m). same_identity v (V4 real) m) (mappings ?t)")
    case None
    then have "FakeDnsTable_allocate t (table_generation t) d (V4 real) ttl now
        = FakeDnsTable_insert ?t v (V4 real) (table_generation t) (now + ttl)"
      using assms(4) by (simp add: FakeDnsTable_allocate_def)
    then show ?thesis
      using insert_succeeds [OF inv assms(3)] by metis
  qed (use assms(4) in \<open>auto simp: FakeDnsTable_allocate_def Let_def\<close>)
qed

theorem ipv4_allocation_succeeds_witness:
  "\<exists>a t'. FakeDnsTable_allocate demo_table (table_generation demo_table) ''A.'' (V4 1) 10 0 = (Ok a, t')"
  using ipv4_allocation_succeeds [OF demo_table_new run_nil _ demo_names(1)] by simp

end
