(* ===== verification/Client_Routing.thy ===== *)
theory Client_Routing
  imports Ip_Text
begin

text \<open>
  \<^verbatim>\<open>crates/velum-client-routing/src/lib.rs\<close>: the routing policy of a client. A policy is a list of
  rules, the first one that matches a flow decides, and a flow that none matches is proxied. The
  rules are read from text, one per line.
\<close>

unbundle bit_operations_syntax

section \<open>Rules\<close>

datatype RoutingAction = Direct | Reject | Proxy | Node string

record RouteContext =
  ctx_domain :: "string option"
  ctx_destination :: Ip
  ctx_destination_port :: u16

record RoutingError =
  message :: string

definition RoutingError_new :: "string \<Rightarrow> RoutingError" where
  "RoutingError_new m = \<lparr>message = m\<rparr>"

record PortRange =
  port_start :: u16
  port_end :: u16

record IpCidr =
  network :: Ip
  prefix_length :: u8

datatype RuleMatcher =
    Domain string
  | DomainSuffix string
  | IpCidrMatcher IpCidr
  | DestinationPort PortRange
  | Match

record RoutingRule =
  matcher :: RuleMatcher
  action :: RoutingAction

record RoutingPolicy =
  rules :: "RoutingRule list"

section \<open>Domains\<close>

definition valid_label :: "string \<Rightarrow> bool" where
  "valid_label label =
     (label \<noteq> [] \<and> length label \<le> 63 \<and> hd label \<noteq> CHR ''-'' \<and> List.last label \<noteq> CHR ''-''
      \<and> list_all (\<lambda>b. is_ascii_alphanumeric b \<or> b = CHR ''-'') label)"

definition normalize_domain :: "string \<Rightarrow> (RoutingError, string) result" where
  "normalize_domain s =
     (let v = to_ascii_lowercase (trim_end_matches CHR ''.'' (trim s)) in
      if v = [] \<or> length v > 253 \<or> \<not> list_all valid_label (split_char CHR ''.'' v)
      then Err (RoutingError_new ''routing rule domain is invalid'')
      else Ok v)"

definition RuleMatcher_domain :: "string \<Rightarrow> (RoutingError, RuleMatcher) result" where
  "RuleMatcher_domain s = and_then (normalize_domain s) (\<lambda>v. Ok (Domain v))"

definition RuleMatcher_domain_suffix :: "string \<Rightarrow> (RoutingError, RuleMatcher) result" where
  "RuleMatcher_domain_suffix s = and_then (normalize_domain s) (\<lambda>v. Ok (DomainSuffix v))"

section \<open>Port ranges\<close>

definition PortRange_new :: "u16 \<Rightarrow> u16 \<Rightarrow> (RoutingError, PortRange) result" where
  "PortRange_new s e =
     (if s = 0 \<or> s > e then Err (RoutingError_new ''destination port range is invalid'')
      else Ok \<lparr>port_start = s, port_end = e\<rparr>)"

definition PortRange_contains :: "PortRange \<Rightarrow> u16 \<Rightarrow> bool" where
  "PortRange_contains self port = (port \<ge> port_start self \<and> port \<le> port_end self)"

definition PortRange_display :: "PortRange \<Rightarrow> string" where
  "PortRange_display self =
     (if port_start self = port_end self then decimal_string (unat (port_start self))
      else decimal_string (unat (port_start self)) @ ''-'' @ decimal_string (unat (port_end self)))"

definition PortRange_from_str :: "string \<Rightarrow> (RoutingError, PortRange) result" where
  "PortRange_from_str source =
     (let source = trim source;
          (s, e) = (case split_once CHR ''-'' source of None \<Rightarrow> (source, source) | Some p \<Rightarrow> p)
      in and_then (ok_or (parse_u16 s) (RoutingError_new ''destination port is invalid'')) (\<lambda>s.
         and_then (ok_or (parse_u16 e) (RoutingError_new ''destination port is invalid'')) (\<lambda>e.
           PortRange_new s e)))"

section \<open>Networks\<close>

definition checked_shl :: "'a::len word \<Rightarrow> nat \<Rightarrow> 'a word option" where
  "checked_shl w n = (if n < LENGTH('a) then Some (push_bit n w) else None)"

definition prefix_mask :: "nat \<Rightarrow> 'a::len word" where
  "prefix_mask p =
     (case checked_shl (- 1) (LENGTH('a) - min p LENGTH('a)) of None \<Rightarrow> 0 | Some m \<Rightarrow> m)"

fun IpCidr_mask :: "IpCidr \<Rightarrow> Ip \<Rightarrow> Ip" where
  "IpCidr_mask self (V4 a) = V4 (a AND prefix_mask (unat (prefix_length self)))"
| "IpCidr_mask self (V6 a) = V6 (a AND prefix_mask (unat (prefix_length self)))"

definition IpCidr_new :: "Ip \<Rightarrow> u8 \<Rightarrow> (RoutingError, IpCidr) result" where
  "IpCidr_new net p =
     (let valid = (case net of V4 _ \<Rightarrow> p \<le> 32 | V6 _ \<Rightarrow> p \<le> 128) in
      if \<not> valid then Err (RoutingError_new ''CIDR prefix length is out of range'')
      else
        let cidr = \<lparr>network = net, prefix_length = p\<rparr> in
        if IpCidr_mask cidr net \<noteq> net then Err (RoutingError_new ''CIDR network has host bits set'')
        else Ok cidr)"

definition IpCidr_contains :: "IpCidr \<Rightarrow> Ip \<Rightarrow> bool" where
  "IpCidr_contains self address =
     ((case (network self, address) of (V4 _, V4 _) \<Rightarrow> True | (V6 _, V6 _) \<Rightarrow> True | _ \<Rightarrow> False)
      \<and> IpCidr_mask self address = network self)"

definition IpCidr_from_str :: "string \<Rightarrow> (RoutingError, IpCidr) result" where
  "IpCidr_from_str source =
     and_then (ok_or (split_once CHR ''/'' (trim source))
        (RoutingError_new ''CIDR requires an address and prefix length'')) (\<lambda>(net, p).
     and_then (ok_or (Ip_parse net) (RoutingError_new ''CIDR address is invalid'')) (\<lambda>net.
     and_then (ok_or (parse_u8 p) (RoutingError_new ''CIDR prefix length is invalid'')) (\<lambda>p.
       IpCidr_new net p)))"

section \<open>Decisions\<close>

fun RuleMatcher_matches :: "RuleMatcher \<Rightarrow> RouteContext \<Rightarrow> string option \<Rightarrow> bool" where
  "RuleMatcher_matches (Domain expected) context domain =
     (case domain of None \<Rightarrow> False | Some actual \<Rightarrow> actual = expected)"
| "RuleMatcher_matches (DomainSuffix sfx) context domain =
     (case domain of
        None \<Rightarrow> False
      | Some actual \<Rightarrow>
          actual = sfx
          \<or> (case strip_suffix sfx actual of None \<Rightarrow> False | Some front \<Rightarrow> suffix ''.'' front))"
| "RuleMatcher_matches (IpCidrMatcher cidr) context domain =
     IpCidr_contains cidr (ctx_destination context)"
| "RuleMatcher_matches (DestinationPort ports) context domain =
     PortRange_contains ports (ctx_destination_port context)"
| "RuleMatcher_matches Match context domain = True"

definition RoutingPolicy_new :: "RoutingRule list \<Rightarrow> (RoutingError, RoutingPolicy) result" where
  "RoutingPolicy_new rs =
     (case find (\<lambda>i. matcher (rs ! i) = Match) [0..<length rs] of
        Some i \<Rightarrow>
          if i + 1 \<noteq> length rs then Err (RoutingError_new ''MATCH must be the final routing rule'')
          else Ok \<lparr>rules = rs\<rparr>
      | None \<Rightarrow> Ok \<lparr>rules = rs\<rparr>)"

definition RoutingPolicy_proxy_all :: RoutingPolicy where
  "RoutingPolicy_proxy_all = \<lparr>rules = [\<lparr>matcher = Match, action = Proxy\<rparr>]\<rparr>"

definition RoutingPolicy_decide :: "RoutingPolicy \<Rightarrow> RouteContext \<Rightarrow> RoutingAction" where
  "RoutingPolicy_decide self context =
     (let domain = Option.bind (ctx_domain context)
            (\<lambda>v. case normalize_domain v of Inl _ \<Rightarrow> None | Inr d \<Rightarrow> Some d)
      in case find (\<lambda>rule. RuleMatcher_matches (matcher rule) context domain) (rules self) of
           None \<Rightarrow> Proxy
         | Some rule \<Rightarrow> action rule)"

section \<open>The rule parser\<close>

definition parse_action :: "string \<Rightarrow> (RoutingError, RoutingAction) result" where
  "parse_action s =
     (if s = ''DIRECT'' then Ok Direct
      else if s = ''PROXY'' then Ok Proxy
      else if s = ''REJECT'' then Ok Reject
      else
        (case strip_prefix ''NODE:'' s of
           Some n \<Rightarrow> if n \<noteq> [] then Ok (Node n) else Err (RoutingError_new ''unknown routing action'')
         | None \<Rightarrow> Err (RoutingError_new ''unknown routing action'')))"

definition RoutingRule_fields ::
  "string list \<Rightarrow> (RoutingError, RuleMatcher \<times> RoutingAction) result" where
  "RoutingRule_fields parts =
     (case parts of
        [k, v, a] \<Rightarrow>
          if k = ''DOMAIN'' then
            and_then (RuleMatcher_domain v) (\<lambda>m. and_then (parse_action a) (\<lambda>a. Ok (m, a)))
          else if k = ''DOMAIN-SUFFIX'' then
            and_then (RuleMatcher_domain_suffix v) (\<lambda>m. and_then (parse_action a) (\<lambda>a. Ok (m, a)))
          else if k = ''IP-CIDR'' then
            and_then (IpCidr_from_str v) (\<lambda>c. and_then (parse_action a) (\<lambda>a. Ok (IpCidrMatcher c, a)))
          else if k = ''DST-PORT'' then
            and_then (PortRange_from_str v) (\<lambda>r. and_then (parse_action a) (\<lambda>a. Ok (DestinationPort r, a)))
          else Err (RoutingError_new ''invalid routing rule'')
      | [k, a] \<Rightarrow>
          if k = ''MATCH'' then and_then (parse_action a) (\<lambda>a. Ok (Match, a))
          else Err (RoutingError_new ''invalid routing rule'')
      | _ \<Rightarrow> Err (RoutingError_new ''invalid routing rule''))"

definition RoutingRule_from_str :: "string \<Rightarrow> (RoutingError, RoutingRule) result" where
  "RoutingRule_from_str source =
     (let parts = map trim (split_char CHR '','' source) in
      if list_ex (\<lambda>f. f = []) parts
      then Err (RoutingError_new ''routing rule fields must not be empty'')
      else and_then (RoutingRule_fields parts) (\<lambda>(m, a). Ok \<lparr>matcher = m, action = a\<rparr>))"

fun parse_rules :: "(nat \<times> string) list \<Rightarrow> (RoutingError, RoutingRule list) result" where
  "parse_rules [] = Ok []"
| "parse_rules ((line_number, line) # rest) =
     and_then
       (map_err (\<lambda>e. RoutingError_new
            (''invalid rule on line '' @ decimal_string line_number @ '': '' @ message e))
          (RoutingRule_from_str line))
       (\<lambda>r. and_then (parse_rules rest) (\<lambda>rs. Ok (r # rs)))"

definition RoutingPolicy_from_str :: "string \<Rightarrow> (RoutingError, RoutingPolicy) result" where
  "RoutingPolicy_from_str source =
     and_then
       (parse_rules
          (filter (\<lambda>(_, line). line \<noteq> [])
             (map (\<lambda>(i, line). (i + 1, trim line)) (enumerate 0 (lines source)))))
       RoutingPolicy_new"

section \<open>Well-formed policies\<close>

text \<open>What the constructors guarantee of the parts of a rule.\<close>

fun wf_matcher :: "RuleMatcher \<Rightarrow> bool" where
  "wf_matcher (Domain d) = (normalize_domain d = Ok d)"
| "wf_matcher (DomainSuffix d) = (normalize_domain d = Ok d)"
| "wf_matcher (IpCidrMatcher c) = (IpCidr_new (network c) (prefix_length c) = Ok c)"
| "wf_matcher (DestinationPort r) = (PortRange_new (port_start r) (port_end r) = Ok r)"
| "wf_matcher Match = True"

fun wf_action :: "RoutingAction \<Rightarrow> bool" where
  "wf_action (Node n) = (n \<noteq> [])"
| "wf_action _ = True"

definition demo_rules :: string where
  "demo_rules = ''DOMAIN-SUFFIX, Example.COM., DIRECT'' @ [CHR 0x0D, CHR 0x0A, CHR 0x0A] @ ''MATCH,NODE:a''"

section \<open>Lemmas\<close>

lemma ascii_lower_idem [simp]: "ascii_lower (ascii_lower c) = ascii_lower c"
  by (auto simp: ascii_lower_def is_ascii_upper_def)

lemma label_char:
  "is_ascii_alphanumeric c \<or> c = CHR ''-'' \<Longrightarrow> plain_char c \<and> c \<noteq> CHR ''.''"
  by (auto simp: is_ascii_alphanumeric_def is_ascii_digit_def is_ascii_upper_def is_ascii_lower_def
      plain_char_def)

lemma normalize_domain_Ok:
  assumes "normalize_domain s = Ok v"
  shows "v \<noteq> [] \<and> length v \<le> 253 \<and> list_all valid_label (split_char CHR ''.'' v)
    \<and> map ascii_lower v = v"
  using assms by (auto simp: normalize_domain_def to_ascii_lowercase_def Let_def split: if_splits)

text \<open>A normalised domain is left as it is when it is normalised again.\<close>

lemma normalize_domain_idem:
  assumes "normalize_domain s = Ok v"
  shows "normalize_domain v = Ok v"
proof -
  let ?labels = "split_char CHR ''.'' v"
  note v = normalize_domain_Ok [OF assms]
  have labels: "valid_label (hd ?labels)" "valid_label (List.last ?labels)"
    using v by (auto simp: list_all_iff)
  have plain: "plain_char (hd l) \<and> plain_char (List.last l) \<and> List.last l \<noteq> CHR ''.''" if "valid_label l" for l
  proof -
    have "is_ascii_alphanumeric c \<or> c = CHR ''-''" if "c = hd l \<or> c = List.last l" for c
      using \<open>valid_label l\<close> that by (auto simp: valid_label_def list_all_iff)
    from label_char [OF this, of "hd l"] label_char [OF this, of "List.last l"] show ?thesis
      by simp
  qed
  have "hd ?labels \<noteq> []" "List.last ?labels \<noteq> []"
    using labels by (simp_all add: valid_label_def)
  then have edges: "hd v = hd (hd ?labels)" "List.last v = List.last (List.last ?labels)"
    using split_char_hd [of "CHR ''.''" v] split_char_last [of "CHR ''.''" v] by blast+
  then have "trim v = v"
    using plain labels by (intro trim_plain) auto
  moreover have "trim_end_matches CHR ''.'' v = v"
    using plain [OF labels(2)] edges(2) v
    by (cases v rule: rev_cases) (auto simp: trim_end_matches_def)
  ultimately show ?thesis
    using v by (simp add: normalize_domain_def to_ascii_lowercase_def)
qed

lemma PortRange_new_Ok: "PortRange_new s e = Ok r \<longleftrightarrow> 0 < s \<and> s \<le> e \<and> r = \<lparr>port_start = s, port_end = e\<rparr>"
  by (auto simp: PortRange_new_def word_gt_0)

lemma PortRange_from_str_wf: "PortRange_from_str s = Ok r \<Longrightarrow> wf_matcher (DestinationPort r)"
  by (auto simp: PortRange_from_str_def Let_def PortRange_new_Ok result_simps split: prod.splits)

lemma IpCidr_new_Ok:
  "IpCidr_new n p = Ok c \<Longrightarrow> c = \<lparr>network = n, prefix_length = p\<rparr>"
  by (auto simp: IpCidr_new_def Let_def split: if_splits)

lemma IpCidr_from_str_wf: "IpCidr_from_str s = Ok c \<Longrightarrow> wf_matcher (IpCidrMatcher c)"
  by (auto simp: IpCidr_from_str_def result_simps) (frule IpCidr_new_Ok, simp)

lemma parse_action_wf: "parse_action s = Ok a \<Longrightarrow> wf_action a"
  by (auto simp: parse_action_def split: if_splits option.splits)

lemma RoutingRule_fields_wf:
  "RoutingRule_fields parts = Ok (m, a) \<Longrightarrow> wf_matcher m \<and> wf_action a"
  by (auto simp: RoutingRule_fields_def RuleMatcher_domain_def RuleMatcher_domain_suffix_def
      result_simps dest: normalize_domain_idem parse_action_wf IpCidr_from_str_wf PortRange_from_str_wf
      split: list.splits if_splits)

lemma RoutingRule_from_str_wf:
  "RoutingRule_from_str s = Ok r \<Longrightarrow> wf_matcher (matcher r) \<and> wf_action (action r)"
  by (auto simp: RoutingRule_from_str_def Let_def result_simps dest: RoutingRule_fields_wf split: if_splits)

lemma parse_rules_wf:
  "parse_rules ls = Ok rs \<Longrightarrow> length rs = length ls
    \<and> (\<forall>r \<in> set rs. wf_matcher (matcher r) \<and> wf_action (action r))"
  by (induction ls arbitrary: rs rule: parse_rules.induct) (auto simp: result_simps dest: RoutingRule_from_str_wf)

lemma RoutingPolicy_new_Ok:
  "RoutingPolicy_new rs = Ok p \<longleftrightarrow>
     rules p = rs \<and> (\<forall>i < length rs. matcher (rs ! i) = Match \<longrightarrow> i + 1 = length rs)"
proof (cases "find (\<lambda>i. matcher (rs ! i) = Match) [0..<length rs]")
  case None
  then have "\<forall>i < length rs. matcher (rs ! i) \<noteq> Match"
    by (auto simp: find_None_iff)
  then show ?thesis
    using None by (cases p) (auto simp: RoutingPolicy_new_def)
next
  case (Some i)
  then have i: "i < length rs" "matcher (rs ! i) = Match" "\<forall>j < i. matcher (rs ! j) \<noteq> Match"
    by (auto simp: find_Some_iff)
  have "(\<forall>j < length rs. matcher (rs ! j) = Match \<longrightarrow> j + 1 = length rs) \<longleftrightarrow> i + 1 = length rs"
    using i by (metis Suc_eq_plus1 less_SucE)
  then show ?thesis
    using Some by (cases p) (auto simp: RoutingPolicy_new_def)
qed

lemma decimal_string_edges:
  "plain_char (hd (decimal_string n)) \<and> plain_char (List.last (decimal_string n))"
proof -
  have "plain_char c" if "c \<in> set (decimal_string n)" for c
    using decimal_string_digits [of n] that by (auto simp: list_all_iff is_ascii_digit_def plain_char_def)
  then show ?thesis
    using decimal_string_digits [of n] by simp
qed

lemma trim_decimal:
  "trim (decimal_string n) = decimal_string n"
  "trim (decimal_string m @ c # decimal_string n) = decimal_string m @ c # decimal_string n"
  using decimal_string_digits decimal_string_edges by (auto intro!: trim_plain simp: hd_append)

section \<open>Networks as address intervals\<close>

lemma prefix_mask_and:
  "unat (a AND prefix_mask p :: 'a::len word) = unat a div 2 ^ (LENGTH('a) - p) * 2 ^ (LENGTH('a) - p)"
proof (cases "p = 0")
  case True
  then show ?thesis
    using unat_less_power [of a] by (simp add: prefix_mask_def checked_shl_def)
next
  case False
  let ?k = "LENGTH('a) - p"
  have "a AND prefix_mask p = push_bit ?k (drop_bit ?k a)"
    using False by (auto simp: prefix_mask_def checked_shl_def min_def bit_eq_iff bit_simps)
  moreover have "unat (push_bit ?k (drop_bit ?k a)) = unat a div 2 ^ ?k * 2 ^ ?k"
  proof -
    have "unat a div 2 ^ ?k * 2 ^ ?k < 2 ^ LENGTH('a)"
      using unat_less_power [of a] by (meson div_times_less_eq_dividend le_less_trans)
    then show ?thesis
      by (simp only: unsigned_push_bit_eq unsigned_drop_bit_eq)
        (simp add: push_bit_eq_mult drop_bit_eq_div take_bit_eq_mod)
  qed
  ultimately show ?thesis
    by simp
qed

lemma aligned_block:
  assumes "n div 2 ^ k * 2 ^ k = (n :: nat)"
  shows "x div 2 ^ k * 2 ^ k = n \<longleftrightarrow> n \<le> x \<and> x < n + 2 ^ k"
proof -
  define q :: nat where "q = 2 ^ k"
  have q: "0 < q"
    by (simp add: q_def)
  obtain m where n: "n = m * q"
    using assms q_def by metis
  have "x div q * q = m * q \<longleftrightarrow> x div q = m"
    using q by simp
  also have "\<dots> \<longleftrightarrow> m * q \<le> x \<and> x < m * q + q"
    using q by (metis add.commute div_nat_eqI div_times_less_eq_dividend dividend_less_div_times
        mult.commute mult_Suc_right)
  finally show ?thesis
    by (simp add: n q_def)
qed

lemma prefix_mask_interval:
  fixes n x :: "'a::len word"
  assumes "n AND prefix_mask p = n"
  shows "x AND prefix_mask p = n \<longleftrightarrow> unat n \<le> unat x \<and> unat x < unat n + 2 ^ (LENGTH('a) - p)"
proof -
  have "unat n div 2 ^ (LENGTH('a) - p) * 2 ^ (LENGTH('a) - p) = unat n"
    using assms prefix_mask_and [of n p] by simp
  from aligned_block [OF this, of "unat x"] show ?thesis
    using prefix_mask_and [of x p] by (simp add: word_unat_eq_iff)
qed

section \<open>Properties\<close>

text \<open>
  Domain suffixes match whole labels: a suffix rule matches a domain precisely when the labels
  of the rule are the last labels of the domain, so that \<^verbatim>\<open>example.com\<close> matches
  \<^verbatim>\<open>www.example.com\<close> but never \<^verbatim>\<open>badexample.com\<close>.
\<close>

theorem domain_suffix_matches_labels:
  "RuleMatcher_matches (DomainSuffix sfx) context (Some d)
     = suffix (split_char CHR ''.'' sfx) (split_char CHR ''.'' d)"
proof
  assume "RuleMatcher_matches (DomainSuffix sfx) context (Some d)"
  then consider "d = sfx" | f where "d = (f @ ''.'') @ sfx"
    by (auto simp: strip_suffix_Some_iff suffix_def split: option.splits)
  then show "suffix (split_char CHR ''.'' sfx) (split_char CHR ''.'' d)"
    by cases (auto simp: split_char_append suffix_def)
next
  assume "suffix (split_char CHR ''.'' sfx) (split_char CHR ''.'' d)"
  then obtain xs where xs: "split_char CHR ''.'' d = xs @ split_char CHR ''.'' sfx"
    by (auto simp: suffix_def)
  show "RuleMatcher_matches (DomainSuffix sfx) context (Some d)"
  proof (cases "xs = []")
    case True
    then show ?thesis
      using xs split_char_inj by auto
  next
    case False
    with xs obtain a where "d = a @ CHR ''.'' # sfx"
      by (rule split_char_suffix)
    then have "strip_suffix sfx d = Some (a @ ''.'')"
      by (simp add: strip_suffix_Some_iff)
    then show ?thesis
      by simp
  qed
qed

text \<open>
  A network contains exactly its block of addresses: for every network the constructor
  accepts, \<^verbatim>\<open>contains\<close> holds of an address precisely when it is of the same family and lies in the
  block of the size the prefix length says, starting at the network address.
\<close>

theorem cidr_contains_block:
  assumes "IpCidr_new net p = Ok cidr"
  shows "IpCidr_contains cidr a =
    (case (net, a) of
       (V4 n, V4 x) \<Rightarrow> unat n \<le> unat x \<and> unat x < unat n + 2 ^ (32 - unat p)
     | (V6 n, V6 x) \<Rightarrow> unat n \<le> unat x \<and> unat x < unat n + 2 ^ (128 - unat p)
     | _ \<Rightarrow> False)"
proof -
  have cidr: "cidr = \<lparr>network = net, prefix_length = p\<rparr>" and mask: "IpCidr_mask cidr net = net"
    using assms IpCidr_new_Ok [OF assms] by (auto simp: IpCidr_new_def Let_def split: if_splits)
  show ?thesis
  proof (cases net)
    case (V4 n)
    then show ?thesis
      using mask prefix_mask_interval [of n "unat p"]
      by (cases a) (auto simp: IpCidr_contains_def cidr)
  next
    case (V6 n)
    then show ?thesis
      using mask prefix_mask_interval [of n "unat p"]
      by (cases a) (auto simp: IpCidr_contains_def cidr)
  qed
qed

theorem cidr_contains_block_witness:
  "\<exists>cidr. IpCidr_new (V4 0x0A000000) 8 = Ok cidr \<and> IpCidr_contains cidr (V4 0x0AFFFFFF)
     \<and> \<not> IpCidr_contains cidr (V4 0x0B000000) \<and> \<not> IpCidr_contains cidr (V6 0x0A000000)"
proof -
  have ok: "IpCidr_new (V4 0x0A000000) 8 = Ok \<lparr>network = V4 0x0A000000, prefix_length = 8\<rparr>"
    by (simp add: IpCidr_new_def prefix_mask_def checked_shl_def push_bit_eq_mult)
  show ?thesis
    using ok cidr_contains_block [OF ok] by simp
qed

text \<open>
  Port ranges survive printing and parsing: the text \<^verbatim>\<open>Display\<close> gives for a range the
  constructor accepts is parsed back to the same range.
\<close>

theorem port_range_roundtrip:
  assumes "PortRange_new s e = Ok r"
  shows "PortRange_from_str (PortRange_display r) = Ok r"
proof -
  have r: "r = \<lparr>port_start = s, port_end = e\<rparr>"
    using assms by (simp add: PortRange_new_Ok)
  have parse: "parse_u16 (decimal_string (unat w)) = Some w" for w :: u16
    using unat_less_power [of w] by (simp add: parse_u16_def parse_decimal_string)
  have dash: "CHR ''-'' \<notin> set (decimal_string n)" for n
    using decimal_string_digits [of n] by (auto simp: list_all_iff is_ascii_digit_def)
  show ?thesis
  proof (cases "s = e")
    case True
    then show ?thesis
      using dash assms
      by (simp add: PortRange_from_str_def PortRange_display_def r trim_decimal
          iffD2 [OF split_once_None_iff] parse)
  next
    case False
    then show ?thesis
      using dash assms
      by (simp add: PortRange_from_str_def PortRange_display_def r trim_decimal
          split_once_append parse)
  qed
qed

theorem port_range_roundtrip_witness:
  "PortRange_from_str (PortRange_display \<lparr>port_start = 80, port_end = 8080\<rparr>)
     = Ok \<lparr>port_start = 80, port_end = 8080\<rparr>"
  by (rule port_range_roundtrip [of 80 8080]) (simp add: PortRange_new_def)

text \<open>
  Whatever policy text is accepted, the policy is well-formed: it has one rule for every line
  that is not blank, every domain in it is normalised, every network and port range would be
  accepted by its constructor, no node name is empty, and a catch-all rule can only be the last.
\<close>

theorem parsed_policy_well_formed:
  assumes "RoutingPolicy_from_str source = Ok p"
  shows "length (rules p) = length (filter (\<lambda>l. trim l \<noteq> []) (lines source))
    \<and> (\<forall>r \<in> set (rules p). wf_matcher (matcher r) \<and> wf_action (action r))
    \<and> (\<forall>i < length (rules p). matcher (rules p ! i) = Match \<longrightarrow> i + 1 = length (rules p))"
proof -
  let ?numbered = "map (\<lambda>(i, line). (i + 1, trim line)) (enumerate 0 (lines source))"
  have count: "length (filter (\<lambda>(_, line). line \<noteq> []) (map (\<lambda>(i, line). (i + 1, trim line)) (enumerate n ls)))
      = length (filter (\<lambda>l. trim l \<noteq> []) ls)" for n ls
    by (induction ls arbitrary: n) auto
  obtain rs where parsed: "parse_rules (filter (\<lambda>(_, line). line \<noteq> []) ?numbered) = Ok rs"
    and policy: "RoutingPolicy_new rs = Ok p"
    using assms by (auto simp: RoutingPolicy_from_str_def result_simps)
  have "rules p = rs"
    and last_rule: "\<forall>i < length rs. matcher (rs ! i) = Match \<longrightarrow> i + 1 = length rs"
    using policy unfolding RoutingPolicy_new_Ok by blast+
  moreover have "length rs = length (filter (\<lambda>l. trim l \<noteq> []) (lines source))"
    using parse_rules_wf [OF parsed] count [of 0 "lines source"] by simp
  ultimately show ?thesis
    using parse_rules_wf [OF parsed] by blast
qed

theorem parsed_policy_well_formed_witness:
  "\<exists>p. RoutingPolicy_from_str demo_rules = Ok p \<and> length (rules p) = 2
    \<and> matcher (rules p ! 0) = DomainSuffix ''example.com''
    \<and> (\<forall>i < length (rules p). matcher (rules p ! i) = Match \<longrightarrow> i + 1 = length (rules p))"
proof -
  have ok: "RoutingPolicy_from_str demo_rules = Ok
      \<lparr>rules = [\<lparr>matcher = DomainSuffix ''example.com'', action = Direct\<rparr>,
         \<lparr>matcher = Match, action = Node ''a''\<rparr>]\<rparr>"
    by code_simp
  show ?thesis
    using parsed_policy_well_formed [OF ok] unfolding ok by auto
qed

end
