(* ===== verification/Client_Lifecycle.thy ===== *)
theory Client_Lifecycle
  imports State_Runs "HOL-Library.Multiset"
begin

text \<open>
  \<^verbatim>\<open>crates/velum-client-runtime\<close>: the lifecycle of the one connection a client owns
  (\<^verbatim>\<open>state.rs\<close>) and the runtime around it (\<^verbatim>\<open>lib.rs\<close>). Every operation of the runtime takes the
  mutex once and is one step here; the asynchronous work between two steps (connecting, waiting
  for the connection to close, using a stream) belongs to the transport, so a completion may
  arrive at any later state and with any generation. The type \<open>'c\<close> stands for \<^verbatim>\<open>Arc<Client>\<close>;
  closing a client is recorded in \<open>closed_clients\<close>. A task is known by the generation it was
  spawned for. Panics, and a failed \<^verbatim>\<open>debug_assert!\<close>, are \<open>None\<close>.
\<close>

section \<open>The lifecycle\<close>

datatype ClientError =
    CE_Certificate
  | CE_ConnectTimeout
  | CE_Connection
  | CE_ControlTooLarge
  | CE_DatagramTooLarge
  | CE_DatagramUnavailable
  | CE_Protocol
  | CE_Transport

datatype RuntimePhase = Stopped | Connecting | Online | Stopping | Failed

datatype RuntimeFailure =
    Certificate
  | ConnectTimeout
  | Connection
  | ControlTooLarge
  | DatagramTooLarge
  | DatagramUnavailable
  | Protocol
  | Transport

fun RuntimeFailure_from :: "ClientError \<Rightarrow> RuntimeFailure" where
  "RuntimeFailure_from CE_Certificate = Certificate"
| "RuntimeFailure_from CE_ConnectTimeout = ConnectTimeout"
| "RuntimeFailure_from CE_Connection = Connection"
| "RuntimeFailure_from CE_ControlTooLarge = ControlTooLarge"
| "RuntimeFailure_from CE_DatagramTooLarge = DatagramTooLarge"
| "RuntimeFailure_from CE_DatagramUnavailable = DatagramUnavailable"
| "RuntimeFailure_from CE_Protocol = Protocol"
| "RuntimeFailure_from CE_Transport = Transport"

record RuntimeSnapshot =
  snap_revision :: u64
  snap_generation :: u64
  snap_phase :: RuntimePhase
  snap_failure :: "RuntimeFailure option"

definition RuntimeSnapshot_default :: RuntimeSnapshot where
  "RuntimeSnapshot_default =
     \<lparr>snap_revision = 0, snap_generation = 0, snap_phase = Stopped, snap_failure = None\<rparr>"

datatype RuntimeError = Busy | ExecutorUnavailable | NotOnline | Superseded | RuntimeClient ClientError

record Lifecycle =
  snapshot :: RuntimeSnapshot

definition Lifecycle_transition ::
  "Lifecycle \<Rightarrow> RuntimePhase \<Rightarrow> RuntimeFailure option \<Rightarrow> Lifecycle option" where
  "Lifecycle_transition self phase failure =
     (case checked_add (snap_revision (snapshot self)) 1 of
        None \<Rightarrow> None
      | Some n \<Rightarrow> Some (self\<lparr>snapshot :=
          (snapshot self)\<lparr>snap_revision := n, snap_phase := phase, snap_failure := failure\<rparr>\<rparr>))"

definition Lifecycle_begin_connect ::
  "Lifecycle \<Rightarrow> ((RuntimeError, u64) result \<times> Lifecycle) option" where
  "Lifecycle_begin_connect self =
     (if snap_phase (snapshot self) \<notin> {Stopped, Failed} then Some (Err Busy, self)
      else
        (case checked_add (snap_generation (snapshot self)) 1 of
           None \<Rightarrow> None
         | Some g \<Rightarrow>
             map_option (\<lambda>l. (Ok (snap_generation (snapshot l)), l))
               (Lifecycle_transition (self\<lparr>snapshot := (snapshot self)\<lparr>snap_generation := g\<rparr>\<rparr>)
                  Connecting None)))"

definition Lifecycle_complete_connect ::
  "Lifecycle \<Rightarrow> u64 \<Rightarrow> (RuntimeFailure, unit) result \<Rightarrow> (bool \<times> Lifecycle) option" where
  "Lifecycle_complete_connect self g r =
     (if g \<noteq> snap_generation (snapshot self) \<or> snap_phase (snapshot self) \<noteq> Connecting
      then Some (False, self)
      else map_option (Pair True)
        (case r of
           Inr _ \<Rightarrow> Lifecycle_transition self Online None
         | Inl failure \<Rightarrow> Lifecycle_transition self Failed (Some failure)))"

definition Lifecycle_begin_stop :: "Lifecycle \<Rightarrow> (u64 option \<times> Lifecycle) option" where
  "Lifecycle_begin_stop self =
     (if snap_phase (snapshot self) = Stopped then Some (None, self)
      else
        (case checked_add (snap_generation (snapshot self)) 1 of
           None \<Rightarrow> None
         | Some g \<Rightarrow>
             map_option (\<lambda>l. (Some (snap_generation (snapshot l)), l))
               (Lifecycle_transition (self\<lparr>snapshot := (snapshot self)\<lparr>snap_generation := g\<rparr>\<rparr>)
                  Stopping None)))"

definition Lifecycle_complete_stop :: "Lifecycle \<Rightarrow> u64 \<Rightarrow> (bool \<times> Lifecycle) option" where
  "Lifecycle_complete_stop self g =
     (if g \<noteq> snap_generation (snapshot self) \<or> snap_phase (snapshot self) \<noteq> Stopping
      then Some (False, self)
      else map_option (Pair True) (Lifecycle_transition self Stopped None))"

definition Lifecycle_fail_online ::
  "Lifecycle \<Rightarrow> u64 \<Rightarrow> RuntimeFailure \<Rightarrow> (bool \<times> Lifecycle) option" where
  "Lifecycle_fail_online self g failure =
     (if g \<noteq> snap_generation (snapshot self) \<or> snap_phase (snapshot self) \<noteq> Online
      then Some (False, self)
      else map_option (Pair True) (Lifecycle_transition self Failed (Some failure)))"

section \<open>The runtime\<close>

record LifecycleTask =
  task_generation :: u64

record 'c ClientRuntime =
  lifecycle :: Lifecycle
  client :: "'c option"
  lifecycle_task :: "LifecycleTask option"
  snapshots :: RuntimeSnapshot
  aborted_tasks :: "LifecycleTask list"
  closed_clients :: "'c list"

definition ClientRuntime_new :: "'c ClientRuntime" where
  "ClientRuntime_new =
     \<lparr>lifecycle = \<lparr>snapshot = RuntimeSnapshot_default\<rparr>, client = None, lifecycle_task = None,
      snapshots = RuntimeSnapshot_default, aborted_tasks = [], closed_clients = []\<rparr>"

definition publish :: "'c ClientRuntime \<Rightarrow> RuntimeSnapshot \<Rightarrow> 'c ClientRuntime" where
  "publish self s = self\<lparr>snapshots := s\<rparr>"

definition clear_lifecycle_task :: "'c ClientRuntime \<Rightarrow> u64 \<Rightarrow> 'c ClientRuntime" where
  "clear_lifecycle_task self g =
     (if map_option task_generation (lifecycle_task self) = Some g
      then self\<lparr>lifecycle_task := None\<rparr> else self)"

definition close_client :: "'c ClientRuntime \<Rightarrow> 'c \<Rightarrow> 'c ClientRuntime" where
  "close_client self c = self\<lparr>closed_clients := closed_clients self @ [c]\<rparr>"

text \<open>The flag says whether \<^verbatim>\<open>Handle::try_current\<close> finds a Tokio runtime.\<close>

definition ClientRuntime_start ::
  "bool \<Rightarrow> 'c ClientRuntime \<Rightarrow> ((RuntimeError, u64) result \<times> 'c ClientRuntime) option" where
  "ClientRuntime_start executor self =
     (if \<not> executor then Some (Err ExecutorUnavailable, self)
      else
        (case Lifecycle_begin_connect (lifecycle self) of
           None \<Rightarrow> None
         | Some (Inl e, l) \<Rightarrow> Some (Err e, self\<lparr>lifecycle := l\<rparr>)
         | Some (Inr g, l) \<Rightarrow>
             let self = publish (self\<lparr>lifecycle := l\<rparr>) (snapshot l)
             in Some (Ok g, self\<lparr>lifecycle_task := Some \<lparr>task_generation = g\<rparr>\<rparr>)))"

definition ClientRuntime_complete_connect ::
  "'c ClientRuntime \<Rightarrow> u64 \<Rightarrow> (ClientError, 'c) result
   \<Rightarrow> ('c option \<times> 'c ClientRuntime) option" where
  "ClientRuntime_complete_connect self g r =
     (let s = snapshot (lifecycle self) in
      if g \<noteq> snap_generation s \<or> snap_phase s \<noteq> Connecting
      then Some (None, case r of Inr c \<Rightarrow> close_client self c | Inl _ \<Rightarrow> self)
      else
        (case r of
           Inr c \<Rightarrow>
             (case Lifecycle_complete_connect (lifecycle self) g (Ok ()) of
                Some (True, l) \<Rightarrow>
                  Some (Some c, publish (self\<lparr>lifecycle := l, client := Some c\<rparr>) (snapshot l))
              | _ \<Rightarrow> None)
         | Inl e \<Rightarrow>
             (case Lifecycle_complete_connect (lifecycle self) g (Err (RuntimeFailure_from e)) of
                Some (True, l) \<Rightarrow>
                  Some (None, publish (clear_lifecycle_task (self\<lparr>lifecycle := l\<rparr>) g) (snapshot l))
              | _ \<Rightarrow> None)))"

definition ClientRuntime_complete_connection_closed ::
  "'c ClientRuntime \<Rightarrow> u64 \<Rightarrow> RuntimeFailure \<Rightarrow> 'c ClientRuntime option" where
  "ClientRuntime_complete_connection_closed self g failure =
     (case Lifecycle_fail_online (lifecycle self) g failure of
        None \<Rightarrow> None
      | Some (False, l) \<Rightarrow> Some (self\<lparr>lifecycle := l\<rparr>)
      | Some (True, l) \<Rightarrow>
          Some (publish (clear_lifecycle_task (self\<lparr>lifecycle := l, client := None\<rparr>) g) (snapshot l)))"

definition ClientRuntime_stop :: "'c ClientRuntime \<Rightarrow> (u64 \<times> 'c ClientRuntime) option" where
  "ClientRuntime_stop self =
     (case Lifecycle_begin_stop (lifecycle self) of
        None \<Rightarrow> None
      | Some (None, l) \<Rightarrow> Some (snap_generation (snapshot l), self\<lparr>lifecycle := l\<rparr>)
      | Some (Some g, l) \<Rightarrow>
          let self = publish (self\<lparr>lifecycle := l\<rparr>) (snapshot l);
              self = (case lifecycle_task self of
                        None \<Rightarrow> self
                      | Some t \<Rightarrow> self\<lparr>lifecycle_task := None, aborted_tasks := aborted_tasks self @ [t]\<rparr>);
              self = (case client self of
                        None \<Rightarrow> self
                      | Some c \<Rightarrow> close_client (self\<lparr>client := None\<rparr>) c)
          in (case Lifecycle_complete_stop (lifecycle self) g of
                Some (True, l) \<Rightarrow> Some (g, publish (self\<lparr>lifecycle := l\<rparr>) (snapshot l))
              | _ \<Rightarrow> None))"

definition ClientRuntime_is_generation_online :: "'c ClientRuntime \<Rightarrow> u64 \<Rightarrow> bool" where
  "ClientRuntime_is_generation_online self g =
     (snap_generation (snapshots self) = g \<and> snap_phase (snapshots self) = Online)"

definition ClientRuntime_active_client ::
  "'c ClientRuntime \<Rightarrow> (RuntimeError, u64 \<times> 'c) result" where
  "ClientRuntime_active_client self =
     (if snap_phase (snapshot (lifecycle self)) \<noteq> Online then Err NotOnline
      else ok_or (map_option (Pair (snap_generation (snapshot (lifecycle self)))) (client self)) NotOnline)"

text \<open>
  Opening a stream (and receiving a datagram) first takes the active client in one state and
  checks the generation in the state it finds when the transport has answered.
\<close>

definition ClientRuntime_open_stream ::
  "'c ClientRuntime \<Rightarrow> (u64 \<times> 'c \<Rightarrow> (ClientError, 'stream) result) \<Rightarrow> 'c ClientRuntime
   \<Rightarrow> (RuntimeError, u64 \<times> 'stream) result" where
  "ClientRuntime_open_stream self transport later =
     and_then (ClientRuntime_active_client self) (\<lambda>(g, c).
       and_then (map_err RuntimeClient (transport (g, c))) (\<lambda>stream.
         if \<not> ClientRuntime_is_generation_online later g then Err Superseded
         else Ok (g, stream)))"

definition ClientRuntime_send_datagram ::
  "'c ClientRuntime \<Rightarrow> ('c \<Rightarrow> (ClientError, unit) result) \<Rightarrow> (RuntimeError, unit) result" where
  "ClientRuntime_send_datagram self transport =
     and_then (ClientRuntime_active_client self) (\<lambda>(_, c). map_err RuntimeClient (transport c))"

definition ClientRuntime_receive_datagram ::
  "'c ClientRuntime \<Rightarrow> ('c \<Rightarrow> (ClientError, 'datagram) result) \<Rightarrow> 'c ClientRuntime
   \<Rightarrow> (RuntimeError, 'datagram) result" where
  "ClientRuntime_receive_datagram self transport later =
     and_then (ClientRuntime_active_client self) (\<lambda>(g, c).
       and_then (map_err RuntimeClient (transport c)) (\<lambda>datagram.
         if \<not> ClientRuntime_is_generation_online later g then Err Superseded
         else Ok datagram))"

definition ClientRuntime_drop :: "'c ClientRuntime \<Rightarrow> 'c ClientRuntime" where
  "ClientRuntime_drop self =
     (let self = (case lifecycle_task self of
                    None \<Rightarrow> self
                  | Some t \<Rightarrow> self\<lparr>lifecycle_task := None, aborted_tasks := aborted_tasks self @ [t]\<rparr>)
      in (case client self of
            None \<Rightarrow> self
          | Some c \<Rightarrow> close_client (self\<lparr>client := None\<rparr>) c))"

section \<open>Histories of a runtime\<close>

datatype 'c runtime_op =
    Start bool
  | ConnectDone u64 "(ClientError, 'c) result"
  | ConnectionClosed u64 RuntimeFailure
  | Stop

datatype 'c runtime_outcome =
    Started "(RuntimeError, u64) result"
  | Connected "'c option"
  | ConnectionEnded "'c option"
  | StoppedAt u64

fun runtime_step ::
  "'c runtime_op \<Rightarrow> 'c ClientRuntime \<Rightarrow> ('c runtime_outcome \<times> 'c ClientRuntime) option" where
  "runtime_step (Start ex) r = map_option (\<lambda>(x, r'). (Started x, r')) (ClientRuntime_start ex r)"
| "runtime_step (ConnectDone g x) r =
     map_option (\<lambda>(c, r'). (Connected c, r')) (ClientRuntime_complete_connect r g x)"
| "runtime_step (ConnectionClosed g f) r =
     map_option (\<lambda>r'. (ConnectionEnded (if client r' = None then client r else None), r'))
       (ClientRuntime_complete_connection_closed r g f)"
| "runtime_step Stop r = map_option (\<lambda>(g, r'). (StoppedAt g, r')) (ClientRuntime_stop r)"

text \<open>The clients the transport handed over, and those whose connection ended by itself.\<close>

definition delivered_clients :: "('c runtime_op \<times> 'c runtime_outcome) list \<Rightarrow> 'c multiset" where
  "delivered_clients log =
     mset (List.map_filter (\<lambda>(op, _). case op of ConnectDone _ (Inr c) \<Rightarrow> Some c | _ \<Rightarrow> None) log)"

definition ended_clients :: "('c runtime_op \<times> 'c runtime_outcome) list \<Rightarrow> 'c multiset" where
  "ended_clients log =
     mset (List.map_filter (\<lambda>(_, out). case out of ConnectionEnded c \<Rightarrow> c | _ \<Rightarrow> None) log)"

text \<open>Every client that was handed over is the active one, was closed, or ended by itself.\<close>

definition clients_accounted ::
  "('c runtime_op \<times> 'c runtime_outcome) list \<Rightarrow> 'c ClientRuntime \<Rightarrow> bool" where
  "clients_accounted log r =
     (delivered_clients log =
        mset (closed_clients r) + ended_clients log + (case client r of None \<Rightarrow> {#} | Some c \<Rightarrow> {#c#}))"

text \<open>What the runtime promises of its state between two operations.\<close>

definition runtime_inv :: "'c ClientRuntime \<Rightarrow> bool" where
  "runtime_inv r =
     (let s = snapshot (lifecycle r) in
      snapshots r = s
      \<and> snap_phase s \<noteq> Stopping
      \<and> (client r \<noteq> None \<longleftrightarrow> snap_phase s = Online)
      \<and> (snap_failure s \<noteq> None \<longleftrightarrow> snap_phase s = Failed)
      \<and> map_option task_generation (lifecycle_task r) =
          (if snap_phase s \<in> {Connecting, Online} then Some (snap_generation s) else None))"

text \<open>
  How a connection ages: within one generation it goes from connecting to online to its end, and
  the active client only changes when it does.
\<close>

fun phase_rank :: "RuntimePhase \<Rightarrow> nat" where
  "phase_rank Connecting = 0"
| "phase_rank Online = 1"
| "phase_rank Failed = 2"
| "phase_rank Stopping = 2"
| "phase_rank Stopped = 2"

definition runtime_ages :: "'c ClientRuntime \<Rightarrow> 'c ClientRuntime \<Rightarrow> bool" where
  "runtime_ages r r' =
     (let s = snapshot (lifecycle r); s' = snapshot (lifecycle r') in
      snap_generation s < snap_generation s'
      \<or> (snap_generation s = snap_generation s'
         \<and> phase_rank (snap_phase s) \<le> phase_rank (snap_phase s')
         \<and> (phase_rank (snap_phase s) = phase_rank (snap_phase s') \<longrightarrow> client r = client r')))"

definition demo_runtime_ops :: "nat runtime_op list" where
  "demo_runtime_ops =
     [Start True, ConnectDone 1 (Ok 10), Stop, ConnectDone 1 (Ok 11), Start True,
      ConnectDone 3 (Ok 12), ConnectionClosed 3 Transport, Start True, ConnectDone 4 (Ok 13)]"

section \<open>Lemmas\<close>

lemmas lifecycle_defs =
  Lifecycle_transition_def Lifecycle_begin_connect_def Lifecycle_complete_connect_def
  Lifecycle_begin_stop_def Lifecycle_complete_stop_def Lifecycle_fail_online_def

lemmas runtime_defs =
  ClientRuntime_start_def ClientRuntime_complete_connect_def
  ClientRuntime_complete_connection_closed_def ClientRuntime_stop_def
  publish_def clear_lifecycle_task_def close_client_def Let_def

lemma checked_succ_less: "checked_add (a :: 'a::len word) 1 = Some b \<Longrightarrow> a < b"
proof -
  assume "checked_add a 1 = Some b"
  from checked_add_SomeD [OF this] show "a < b"
    by (cases "LENGTH('a) = 1") (auto simp: word_less_nat_alt)
qed

lemma checked_succ_neq: "checked_add (a :: u64) 1 = Some b \<Longrightarrow> a \<noteq> b"
  by (auto dest: checked_succ_less)

text \<open>The four outcomes of \<^verbatim>\<open>start\<close>, \<^verbatim>\<open>complete_connect\<close>, \<^verbatim>\<open>complete_connection_closed\<close> and \<^verbatim>\<open>stop\<close>.\<close>

lemma runtime_inv_new: "runtime_inv ClientRuntime_new"
  by (simp add: runtime_inv_def ClientRuntime_new_def RuntimeSnapshot_default_def)

lemma transition_Some:
  "Lifecycle_transition l ph f = Some l' \<Longrightarrow>
   \<exists>n. l' = l\<lparr>snapshot := (snapshot l)\<lparr>snap_revision := n, snap_phase := ph, snap_failure := f\<rparr>\<rparr>"
  by (auto simp: Lifecycle_transition_def split: option.splits)

lemma begin_connect_Some:
  assumes "Lifecycle_begin_connect l = Some (x, l')"
  shows "(l' = l \<and> x = Err Busy) \<or> (\<exists>g n. snap_phase (snapshot l) \<in> {Stopped, Failed}
    \<and> snap_generation (snapshot l) < g \<and> x = Ok g
    \<and> snapshot l' = \<lparr>snap_revision = n, snap_generation = g, snap_phase = Connecting, snap_failure = None\<rparr>)"
proof (cases "snap_phase (snapshot l) \<in> {Stopped, Failed}")
  case True
  then obtain g where g: "checked_add (snap_generation (snapshot l)) 1 = Some g"
    using assms by (auto simp: Lifecycle_begin_connect_def split: option.splits)
  have lt: "snap_generation (snapshot l) < g"
    using g by (rule checked_succ_less)
  have "Lifecycle_transition (l\<lparr>snapshot := (snapshot l)\<lparr>snap_generation := g\<rparr>\<rparr>) Connecting None = Some l'"
    and x: "x = Ok (snap_generation (snapshot l'))"
    using True assms g by (auto simp: Lifecycle_begin_connect_def)
  from transition_Some [OF this(1)] show ?thesis
    using True lt x by (cases "snapshot l") auto
qed (use assms in \<open>auto simp: Lifecycle_begin_connect_def\<close>)

lemma begin_stop_Some:
  assumes "Lifecycle_begin_stop l = Some (x, l')"
  shows "(snap_phase (snapshot l) = Stopped \<and> l' = l \<and> x = None)
    \<or> (\<exists>g n. snap_phase (snapshot l) \<noteq> Stopped \<and> snap_generation (snapshot l) < g \<and> x = Some g
      \<and> snapshot l' = \<lparr>snap_revision = n, snap_generation = g, snap_phase = Stopping, snap_failure = None\<rparr>)"
proof (cases "snap_phase (snapshot l) = Stopped")
  case False
  then obtain g where g: "checked_add (snap_generation (snapshot l)) 1 = Some g"
    using assms by (auto simp: Lifecycle_begin_stop_def split: option.splits)
  have lt: "snap_generation (snapshot l) < g"
    using g by (rule checked_succ_less)
  have "Lifecycle_transition (l\<lparr>snapshot := (snapshot l)\<lparr>snap_generation := g\<rparr>\<rparr>) Stopping None = Some l'"
    and x: "x = Some (snap_generation (snapshot l'))"
    using False assms g by (auto simp: Lifecycle_begin_stop_def)
  from transition_Some [OF this(1)] show ?thesis
    using False lt x by (cases "snapshot l") auto
qed (use assms in \<open>auto simp: Lifecycle_begin_stop_def\<close>)

lemma complete_stop_Some:
  assumes "Lifecycle_complete_stop l g = Some (b, l')"
  shows "(\<not> b \<and> l' = l) \<or> (b \<and> (\<exists>n. snapshot l' =
    (snapshot l)\<lparr>snap_revision := n, snap_phase := Stopped, snap_failure := None\<rparr>))"
  using assms by (auto simp: Lifecycle_complete_stop_def dest!: transition_Some split: if_splits)

lemma start_inv:
  assumes "runtime_inv r" "ClientRuntime_start ex r = Some (x, r')"
  shows "runtime_inv r' \<and> runtime_ages r r' \<and> closed_clients r' = closed_clients r
    \<and> client r' = client r"
proof (cases "ex \<and> (\<exists>g l. Lifecycle_begin_connect (lifecycle r) = Some (Ok g, l))")
  case True
  then obtain g l where ex: ex and l: "Lifecycle_begin_connect (lifecycle r) = Some (Ok g, l)"
    by blast
  then have r': "r' = r\<lparr>lifecycle := l, snapshots := snapshot l,
      lifecycle_task := Some \<lparr>task_generation = g\<rparr>\<rparr>"
    using assms(2) by (auto simp: ClientRuntime_start_def publish_def Let_def)
  from begin_connect_Some [OF l] obtain n where "snap_phase (snapshot (lifecycle r)) \<in> {Stopped, Failed}"
    "snap_generation (snapshot (lifecycle r)) < g"
    "snapshot l = \<lparr>snap_revision = n, snap_generation = g, snap_phase = Connecting, snap_failure = None\<rparr>"
    by auto
  then show ?thesis
    using assms(1) by (auto simp: r' runtime_inv_def runtime_ages_def Let_def)
next
  case False
  then have "r' = r\<lparr>lifecycle := lifecycle r\<rparr>"
    using assms(2) by (auto simp: ClientRuntime_start_def dest: begin_connect_Some
        split: if_splits option.splits sum.splits)
  then show ?thesis
    using assms(1) by (simp add: runtime_ages_def Let_def)
qed

lemma complete_connect_inv:
  assumes "runtime_inv r" "ClientRuntime_complete_connect r g x = Some (c, r')"
  shows "runtime_inv r' \<and> runtime_ages r r'"
  using assms
  by (auto simp: ClientRuntime_complete_connect_def lifecycle_defs publish_def Let_def
      clear_lifecycle_task_def close_client_def runtime_inv_def runtime_ages_def
      split: if_splits option.splits sum.splits bool.splits)

lemma connection_closed_inv:
  assumes "runtime_inv r" "ClientRuntime_complete_connection_closed r g f = Some r'"
  shows "runtime_inv r' \<and> runtime_ages r r' \<and> closed_clients r' = closed_clients r"
  using assms
  by (auto simp: ClientRuntime_complete_connection_closed_def lifecycle_defs publish_def
      clear_lifecycle_task_def runtime_inv_def runtime_ages_def Let_def
      split: if_splits option.splits bool.splits)

lemma stop_inv:
  assumes "runtime_inv r" "ClientRuntime_stop r = Some (g, r')"
  shows "runtime_inv r' \<and> runtime_ages r r' \<and> client r' = None
    \<and> snap_phase (snapshot (lifecycle r')) = Stopped
    \<and> closed_clients r' = closed_clients r @ (case client r of None \<Rightarrow> [] | Some c \<Rightarrow> [c])"
proof -
  obtain x l where l: "Lifecycle_begin_stop (lifecycle r) = Some (x, l)"
    using assms(2) by (auto simp: ClientRuntime_stop_def split: option.splits)
  from begin_stop_Some [OF l] show ?thesis
  proof (elim disjE conjE exE)
    assume "snap_phase (snapshot (lifecycle r)) = Stopped" "l = lifecycle r" "x = None"
    then show ?thesis
      using assms l by (auto simp: ClientRuntime_stop_def runtime_inv_def runtime_ages_def Let_def)
  next
    fix h n
    assume ph: "snap_phase (snapshot (lifecycle r)) \<noteq> Stopped"
      and lt: "snap_generation (snapshot (lifecycle r)) < h" and x: "x = Some h"
      and snap: "snapshot l = \<lparr>snap_revision = n, snap_generation = h, snap_phase = Stopping,
        snap_failure = None\<rparr>"
    then obtain l' where l': "Lifecycle_complete_stop l h = Some (True, l')"
      using assms(2) l by (auto simp: ClientRuntime_stop_def publish_def close_client_def Let_def
          split: option.splits bool.splits)
    then obtain m where m: "snapshot l' = \<lparr>snap_revision = m, snap_generation = h, snap_phase = Stopped,
        snap_failure = None\<rparr>"
      using complete_stop_Some [OF l'] snap by auto
    show ?thesis
      using assms l l' x m lt
      by (auto simp: ClientRuntime_stop_def publish_def close_client_def Let_def runtime_inv_def
          runtime_ages_def split: option.splits)
  qed
qed

lemma runtime_step_inv:
  assumes "runtime_inv r" "runtime_step op r = Some (out, r')"
  shows "runtime_inv r' \<and> runtime_ages r r'"
  using assms start_inv [OF assms(1)] complete_connect_inv [OF assms(1)]
    connection_closed_inv [OF assms(1)] stop_inv [OF assms(1)]
  by (cases op) fastforce+

lemma runtime_ages_refl: "runtime_ages r r"
  by (simp add: runtime_ages_def Let_def)

lemma runtime_ages_trans: "runtime_ages a b \<Longrightarrow> runtime_ages b c \<Longrightarrow> runtime_ages a c"
  unfolding runtime_ages_def Let_def by (elim disjE) (auto intro: less_trans)

lemma transition_total: "unat (snap_revision (snapshot l)) + 1 < 2 ^ 64 \<Longrightarrow>
    \<exists>l'. Lifecycle_transition l ph f = Some l' \<and> unat (snap_revision (snapshot l'))
      = unat (snap_revision (snapshot l)) + 1"
  by (auto simp: Lifecycle_transition_def checked_add_def unat_word_ariths)

lemma runtime_step_total:
  assumes "unat (snap_revision (snapshot (lifecycle r))) + 2 < 2 ^ 64"
    "unat (snap_generation (snapshot (lifecycle r))) + 1 < 2 ^ 64"
  shows "runtime_step op r \<noteq> None"
proof (cases op)
  case Stop
  then show ?thesis
    using assms by (auto simp: ClientRuntime_stop_def lifecycle_defs publish_def close_client_def
        Let_def checked_add_def unat_word_ariths split: option.splits)
qed (use assms in \<open>auto simp: ClientRuntime_start_def ClientRuntime_complete_connect_def
  ClientRuntime_complete_connection_closed_def lifecycle_defs checked_add_def Let_def
  split: sum.splits\<close>)

lemma client_log_snoc:
  "delivered_clients (log @ [(op, out)]) =
     delivered_clients log + (case op of ConnectDone _ (Inr c) \<Rightarrow> {#c#} | _ \<Rightarrow> {#})"
  "ended_clients (log @ [(op, out)]) =
     ended_clients log + (case out of ConnectionEnded (Some c) \<Rightarrow> {#c#} | _ \<Rightarrow> {#})"
  by (auto simp: delivered_clients_def ended_clients_def List.map_filter_def
      split: runtime_op.splits runtime_outcome.splits sum.splits option.splits)

lemma clear_lifecycle_task_fields [simp]:
  "client (clear_lifecycle_task r g) = client r"
  "closed_clients (clear_lifecycle_task r g) = closed_clients r"
  by (simp_all add: clear_lifecycle_task_def)

lemma accounted_step:
  assumes "runtime_inv r" "clients_accounted log r" "runtime_step op r = Some (out, r')"
  shows "clients_accounted (log @ [(op, out)]) r'"
proof (cases op)
  case (Start ex)
  then obtain x where "ClientRuntime_start ex r = Some (x, r')" "out = Started x"
    using assms(3) by auto
  then show ?thesis
    using start_inv [OF assms(1)] assms(2) Start
    by (auto simp: clients_accounted_def client_log_snoc)
next
  case (ConnectDone g x)
  then show ?thesis
    using assms
    by (auto simp: clients_accounted_def client_log_snoc
        ClientRuntime_complete_connect_def publish_def close_client_def
        runtime_inv_def Let_def split: sum.splits if_splits option.splits bool.splits)
next
  case (ConnectionClosed g f)
  then show ?thesis
    using assms
    by (auto simp: clients_accounted_def client_log_snoc
        ClientRuntime_complete_connection_closed_def publish_def
        split: option.splits bool.splits)
next
  case Stop
  then obtain g where "ClientRuntime_stop r = Some (g, r')" "out = StoppedAt g"
    using assms(3) by auto
  then show ?thesis
    using stop_inv [OF assms(1)] assms(2) Stop
    by (auto simp: clients_accounted_def client_log_snoc
        split: option.splits)
qed

interpretation runtime: history_system runtime_step runtime_inv clients_accounted
  by unfold_locales (blast dest: runtime_step_inv, rule accounted_step)

lemma run_ages: "run runtime_step r log r' \<Longrightarrow> runtime_inv r \<Longrightarrow> runtime_ages r r'"
  by (erule runtime.run_related) (auto intro: runtime_ages_refl runtime_ages_trans dest: runtime_step_inv)

section \<open>Properties\<close>

text \<open>
  C14. The runtime invariant. After any sequence of starts, stops and completions (late, repeated
  or with any generation) the published snapshot is the current one, a client is held exactly
  while online, a failure is kept exactly in the failed phase, the stopping phase is never left
  behind, and a task is owned exactly while connecting or online, for the current generation.
  Unless a 64-bit counter is about to run out no operation panics or fails an assertion.
\<close>

theorem lifecycle_invariant:
  assumes "run runtime_step ClientRuntime_new log r"
  shows "runtime_inv r
    \<and> (unat (snap_revision (snapshots r)) + 2 < 2 ^ 64 \<and> unat (snap_generation (snapshots r)) + 1 < 2 ^ 64
       \<longrightarrow> runtime_step op r \<noteq> None)"
proof -
  have "runtime_inv r"
    using assms runtime_inv_new by (rule runtime.run_inv)
  then show ?thesis
    using runtime_step_total [of r op] by (simp add: runtime_inv_def Let_def)
qed

theorem lifecycle_invariant_witness:
  "\<exists>log r. run runtime_step ClientRuntime_new log r \<and> runtime_inv r
    \<and> client r = Some (13 :: nat) \<and> runtime_step Stop r \<noteq> None"
proof -
  obtain log r where ex: "execute runtime_step ClientRuntime_new demo_runtime_ops = Some (log, r)"
    and r: "client r = Some 13" "unat (snap_revision (snapshots r)) + 2 < 2 ^ 64"
      "unat (snap_generation (snapshots r)) + 1 < 2 ^ 64"
    by (simp add: demo_runtime_ops_def ClientRuntime_new_def RuntimeSnapshot_default_def runtime_defs
        lifecycle_defs checked_add_def)
  show ?thesis
    using lifecycle_invariant [OF execute_run [OF ex], of Stop] execute_run [OF ex] r by blast
qed

text \<open>
  C15. Results that arrive after a stop are discarded: for every generation that was current
  before the stop, and whatever happened since (also a new start), a late successful connection
  is closed and changes nothing else, and a late failure or end of connection changes nothing.
\<close>

theorem stale_completion_discarded:
  assumes "run runtime_step ClientRuntime_new log r1" "ClientRuntime_stop r1 = Some (g0, r2)"
    "run runtime_step r2 log' r3" "g \<le> snap_generation (snapshot (lifecycle r1))"
  shows "ClientRuntime_complete_connect r3 g (Ok c) = Some (None, close_client r3 c)
    \<and> ClientRuntime_complete_connect r3 g (Err e) = Some (None, r3)
    \<and> ClientRuntime_complete_connection_closed r3 g f = Some r3"
proof -
  have inv: "runtime_inv r1"
    using assms(1) runtime_inv_new by (rule runtime.run_inv)
  note stop = stop_inv [OF inv assms(2)]
  have "runtime_ages r1 r2" "runtime_ages r2 r3"
    using stop run_ages [OF assms(3)] by simp_all
  then have "g < snap_generation (snapshot (lifecycle r3))
      \<or> phase_rank (snap_phase (snapshot (lifecycle r3))) \<ge> 2"
    using stop assms(4) unfolding runtime_ages_def Let_def by (elim disjE) auto
  then show ?thesis
    by (auto simp: ClientRuntime_complete_connect_def ClientRuntime_complete_connection_closed_def
        Lifecycle_fail_online_def Let_def)
qed

theorem stale_completion_discarded_witness:
  "\<exists>r3 :: nat ClientRuntime. snap_phase (snapshots r3) = Connecting
    \<and> ClientRuntime_complete_connect r3 1 (Ok 11) = Some (None, close_client r3 11)"
proof -
  obtain log and r1 :: "nat ClientRuntime" where
    ex: "execute runtime_step ClientRuntime_new [Start True] = Some (log, r1)"
    and one: "snap_generation (snapshot (lifecycle r1)) = 1" and r1: "r1 = \<lparr>lifecycle = \<lparr>snapshot =
      \<lparr>snap_revision = 1, snap_generation = 1, snap_phase = Connecting, snap_failure = None\<rparr>\<rparr>,
      client = None, lifecycle_task = Some \<lparr>task_generation = 1\<rparr>,
      snapshots = \<lparr>snap_revision = 1, snap_generation = 1, snap_phase = Connecting, snap_failure = None\<rparr>,
      aborted_tasks = [], closed_clients = []\<rparr>"
    by (simp add: ClientRuntime_new_def RuntimeSnapshot_default_def runtime_defs lifecycle_defs
        checked_add_def)
  obtain g0 r2 where stop: "ClientRuntime_stop r1 = Some (g0, r2)"
    and start: "\<exists>log' r3. execute runtime_step r2 [Start True] = Some (log', r3)
      \<and> snap_phase (snapshots r3) = Connecting"
    by (simp add: r1 runtime_defs lifecycle_defs checked_add_def)
  then obtain log' r3 where ex': "execute runtime_step r2 [Start True] = Some (log', r3)"
    and ph: "snap_phase (snapshots r3) = Connecting"
    by blast
  show ?thesis
    using stale_completion_discarded [OF execute_run [OF ex] stop execute_run [OF ex'], of 1 11] one ph
    by auto
qed

text \<open>
  No connection leaks and none is closed twice: along every history, the clients the transport
  handed over are exactly the active one, those that were closed and those whose connection
  ended by itself, counted with multiplicity.
\<close>

theorem clients_never_leak:
  assumes "run runtime_step ClientRuntime_new log r"
  shows "delivered_clients log =
    mset (closed_clients r) + ended_clients log + (case client r of None \<Rightarrow> {#} | Some c \<Rightarrow> {#c#})"
proof -
  have "clients_accounted [] ClientRuntime_new"
    by (simp add: clients_accounted_def delivered_clients_def ended_clients_def ClientRuntime_new_def
        List.map_filter_def)
  then have "clients_accounted log r"
    using runtime.run_hist [OF assms runtime_inv_new] by blast
  then show ?thesis
    by (simp add: clients_accounted_def)
qed

theorem clients_never_leak_witness:
  "\<exists>log r. run runtime_step ClientRuntime_new log r
    \<and> delivered_clients log = {#10, 11, 12, 13#} \<and> closed_clients r = [10, 11 :: nat]
    \<and> delivered_clients log = mset (closed_clients r) + ended_clients log + {#13#}"
proof -
  obtain log r where ex: "execute runtime_step ClientRuntime_new demo_runtime_ops = Some (log, r)"
    and r: "client r = Some 13" "closed_clients r = [10, 11]" "delivered_clients log = {#10, 11, 12, 13#}"
    by (simp add: demo_runtime_ops_def ClientRuntime_new_def RuntimeSnapshot_default_def runtime_defs
        lifecycle_defs checked_add_def delivered_clients_def List.map_filter_def)
  show ?thesis
    using clients_never_leak [OF execute_run [OF ex]] execute_run [OF ex] r
    by (intro exI [of _ log] exI [of _ r]) simp
qed

text \<open>
  A stream is only handed out on the live connection: when opening a stream that began in one
  reachable state succeeds in a later one, the client that opened it is still the active client
  and its generation is still current, whatever was started and stopped in between.
\<close>

theorem stream_on_live_connection:
  assumes "run runtime_step ClientRuntime_new log r" "run runtime_step r log' r'"
    "ClientRuntime_open_stream r transport r' = Ok (g, stream)"
  shows "\<exists>c. client r = Some c \<and> client r' = Some c \<and> transport (g, c) = Ok stream
    \<and> snap_generation (snapshot (lifecycle r')) = g"
proof -
  have inv: "runtime_inv r"
    using assms(1) runtime_inv_new by (rule runtime.run_inv)
  then have inv': "runtime_inv r'"
    by (rule runtime.run_inv [OF assms(2)])
  obtain c where c: "client r = Some c" "snap_phase (snapshot (lifecycle r)) = Online"
    "g = snap_generation (snapshot (lifecycle r))" "transport (g, c) = Ok stream"
    and live: "ClientRuntime_is_generation_online r' g"
    using assms(3) by (auto simp: ClientRuntime_open_stream_def ClientRuntime_active_client_def
        ok_or_def and_then_def map_err_def split: if_splits option.splits sum.splits)
  have "snap_generation (snapshot (lifecycle r')) = g" "snap_phase (snapshot (lifecycle r')) = Online"
    using inv' live by (auto simp: runtime_inv_def ClientRuntime_is_generation_online_def Let_def)
  moreover have "runtime_ages r r'"
    using assms(2) inv by (rule run_ages)
  ultimately have "client r' = client r"
    using c by (simp add: runtime_ages_def)
  then show ?thesis
    using c \<open>snap_generation (snapshot (lifecycle r')) = g\<close> by simp
qed

theorem stream_on_live_connection_witness:
  "\<exists>r :: nat ClientRuntime. client r = Some 10
    \<and> ClientRuntime_open_stream r (\<lambda>_. Ok True) r = Ok (1, True)"
proof -
  obtain log and r :: "nat ClientRuntime" where
    ex: "execute runtime_step ClientRuntime_new [Start True, ConnectDone 1 (Ok 10)] = Some (log, r)"
    and st: "ClientRuntime_open_stream r (\<lambda>_. Ok True) r = Ok (1, True)" and c: "client r = Some 10"
    by (simp add: ClientRuntime_new_def RuntimeSnapshot_default_def runtime_defs lifecycle_defs
        checked_add_def ClientRuntime_open_stream_def ClientRuntime_active_client_def and_then_def
        map_err_def ok_or_def ClientRuntime_is_generation_online_def)
  show ?thesis
    using stream_on_live_connection [OF execute_run [OF ex] run_nil st] st c by auto
qed

end
