(* ===== verification/Tun_Adapter.thy ===== *)
theory Tun_Adapter
  imports Fake_Dns Client_Routing Client_Lifecycle Wire_Datagram "HOL-Library.AList"
begin

text \<open>
  \<^verbatim>\<open>crates/velum-adapter-tun/src/lib.rs\<close>: what a platform TUN host shares. The policy engine joins
  fake DNS and routing; the flow registry admits captured flows for the generation of the client
  runtime that is online; the association table maps a captured UDP flow to a datagram session;
  bounded frame queues sit between the descriptor and the engine.

  The packet views of the \<^verbatim>\<open>smoltcp\<close> crate are the fields of the parameter record \<open>smoltcp\<close>. A
  \<^verbatim>\<open>SocketAddr\<close> of this crate is always made by \<^verbatim>\<open>SocketAddr::new\<close>, so it is an address and a port.
  The B-tree maps of this crate are only looked up, updated and counted, so they are association
  lists with distinct keys. An operation that waits for the transport takes the runtime as it
  finds it before and after waiting.
\<close>

section \<open>Flows\<close>

datatype FlowProtocol = Tcp | Udp

record Endpoint =
  ep_ip :: Ip
  ep_port :: u16

record FlowKey =
  protocol :: FlowProtocol
  source :: Endpoint
  destination :: Endpoint

section \<open>Routing with restored names\<close>

record TunRouteDecision =
  route_action :: RoutingAction
  route_destination :: Endpoint
  route_domain :: "string option"

record TunPolicyEngine =
  policy :: RoutingPolicy
  dns :: FakeDnsTable

definition TunPolicyEngine_new ::
  "u64 \<Rightarrow> RoutingPolicy \<Rightarrow> nat \<Rightarrow> (FakeDnsError, TunPolicyEngine) result" where
  "TunPolicyEngine_new g p dns_capacity =
     and_then (FakeDnsTable_new g dns_capacity) (\<lambda>t. Ok \<lparr>policy = p, dns = t\<rparr>)"

definition TunPolicyEngine_allocate_dns ::
  "TunPolicyEngine \<Rightarrow> u64 \<Rightarrow> string \<Rightarrow> Ip \<Rightarrow> nat \<Rightarrow> nat \<Rightarrow> (FakeDnsError, Ip) result \<times> TunPolicyEngine"
where
  "TunPolicyEngine_allocate_dns self g domain real ttl now =
     (let (r, t) = FakeDnsTable_allocate (dns self) g domain real ttl now in (r, self\<lparr>dns := t\<rparr>))"

definition TunPolicyEngine_decide ::
  "TunPolicyEngine \<Rightarrow> u64 \<Rightarrow> FlowKey \<Rightarrow> nat \<Rightarrow> (FakeDnsError, TunRouteDecision) result \<times> TunPolicyEngine"
where
  "TunPolicyEngine_decide self g flow now =
     (case FakeDnsTable_resolve (dns self) g (ep_ip (destination flow)) now of
        (Inl e, t) \<Rightarrow> (Err e, self\<lparr>dns := t\<rparr>)
      | (Inr mapping, t) \<Rightarrow>
          let (dest, domain) = (case mapping of
                 None \<Rightarrow> (destination flow, None)
               | Some m \<Rightarrow> (\<lparr>ep_ip = real_address m, ep_port = ep_port (destination flow)\<rparr>,
                              Some (map_domain m)));
              act = RoutingPolicy_decide (policy self)
                \<lparr>ctx_domain = domain, ctx_destination = ep_ip dest, ctx_destination_port = ep_port dest\<rparr>
          in (Ok \<lparr>route_action = act, route_destination = dest, route_domain = domain\<rparr>, self\<lparr>dns := t\<rparr>))"

definition TunPolicyEngine_replace_generation ::
  "TunPolicyEngine \<Rightarrow> u64 \<Rightarrow> RoutingPolicy \<Rightarrow> TunPolicyEngine" where
  "TunPolicyEngine_replace_generation self g p =
     self\<lparr>policy := p, dns := FakeDnsTable_replace_generation (dns self) g\<rparr>"

section \<open>Packets\<close>

datatype PacketError =
    MalformedIpv4
  | MalformedIpv6
  | FragmentedIpv4
  | UnsupportedProtocol
  | MalformedTransport

datatype PacketEncodeError = AddressFamilyMismatch | MtuExceeded

datatype IpProtocol = IpTcp | IpUdp | IpOther u8

text \<open>
  The packet library: the checked views (\<open>None\<close> when \<^verbatim>\<open>new_checked\<close> or \<^verbatim>\<open>parse\<close> fails) of addresses,
  next header and payload of a packet, the ports and payload of a segment, the header lengths and
  the emitted frames.
\<close>

record smoltcp =
  ipv4_checked :: "bytes \<Rightarrow> bytes option"
  ipv4_repr :: "bytes \<Rightarrow> (u32 \<times> u32 \<times> IpProtocol) option"
  ipv6_checked :: "bytes \<Rightarrow> bytes option"
  ipv6_repr :: "bytes \<Rightarrow> (u128 \<times> u128 \<times> IpProtocol) option"
  tcp_ports :: "bytes \<Rightarrow> (u16 \<times> u16) option"
  udp_ports :: "bytes \<Rightarrow> (u16 \<times> u16) option"
  udp_body :: "bytes \<Rightarrow> bytes"
  ipv4_header_len :: nat
  ipv6_header_len :: nat
  udp_header_len :: nat
  emit_ipv4_udp :: "u32 \<Rightarrow> u32 \<Rightarrow> u16 \<Rightarrow> u16 \<Rightarrow> bytes \<Rightarrow> bytes"
  emit_ipv6_udp :: "u128 \<Rightarrow> u128 \<Rightarrow> u16 \<Rightarrow> u16 \<Rightarrow> bytes \<Rightarrow> bytes"

definition transport_ports ::
  "smoltcp \<Rightarrow> IpProtocol \<Rightarrow> bytes \<Rightarrow> (PacketError, FlowProtocol \<times> u16 \<times> u16) result" where
  "transport_ports lib next_header payload =
     (case next_header of
        IpTcp \<Rightarrow> and_then (ok_or (tcp_ports lib payload) MalformedTransport) (\<lambda>(s, d). Ok (Tcp, s, d))
      | IpUdp \<Rightarrow> and_then (ok_or (udp_ports lib payload) MalformedTransport) (\<lambda>(s, d). Ok (Udp, s, d))
      | IpOther _ \<Rightarrow> Err UnsupportedProtocol)"

definition flow_key ::
  "Ip \<Rightarrow> Ip \<Rightarrow> FlowProtocol \<times> u16 \<times> u16 \<Rightarrow> (PacketError, FlowKey) result" where
  "flow_key source_ip destination_ip ports =
     (let (proto, source_port, destination_port) = ports in
      if destination_port = 0 then Err MalformedTransport
      else Ok \<lparr>protocol = proto, source = \<lparr>ep_ip = source_ip, ep_port = source_port\<rparr>,
               destination = \<lparr>ep_ip = destination_ip, ep_port = destination_port\<rparr>\<rparr>)"

definition classify_ipv4_packet :: "smoltcp \<Rightarrow> bytes \<Rightarrow> (PacketError, FlowKey) result" where
  "classify_ipv4_packet lib frame =
     and_then (ok_or (ipv4_checked lib frame) MalformedIpv4) (\<lambda>payload.
     and_then (ok_or (ipv4_repr lib frame) FragmentedIpv4) (\<lambda>(src, dst, next_header).
     and_then (transport_ports lib next_header payload) (flow_key (V4 src) (V4 dst))))"

definition classify_ipv6_packet :: "smoltcp \<Rightarrow> bytes \<Rightarrow> (PacketError, FlowKey) result" where
  "classify_ipv6_packet lib frame =
     and_then (ok_or (ipv6_checked lib frame) MalformedIpv6) (\<lambda>payload.
     and_then (ok_or (ipv6_repr lib frame) MalformedIpv6) (\<lambda>(src, dst, next_header).
     and_then (transport_ports lib next_header payload) (flow_key (V6 src) (V6 dst))))"

definition classify_ip_packet :: "smoltcp \<Rightarrow> bytes \<Rightarrow> (PacketError, FlowKey) result" where
  "classify_ip_packet lib frame =
     (case frame of
        [] \<Rightarrow> Err UnsupportedProtocol
      | byte # _ \<Rightarrow>
          if drop_bit 4 byte = 4 then classify_ipv4_packet lib frame
          else if drop_bit 4 byte = 6 then classify_ipv6_packet lib frame
          else Err UnsupportedProtocol)"

definition udp_payload :: "smoltcp \<Rightarrow> bytes \<Rightarrow> (PacketError, bytes) result" where
  "udp_payload lib frame =
     and_then (classify_ipv4_packet lib frame) (\<lambda>key.
       if protocol key \<noteq> Udp then Err UnsupportedProtocol
       else
         and_then (ok_or (ipv4_checked lib frame) MalformedIpv4) (\<lambda>payload.
         and_then (ok_or (udp_ports lib payload) MalformedTransport) (\<lambda>_. Ok (udp_body lib payload))))"

definition encode_udp_response ::
  "smoltcp \<Rightarrow> FlowKey \<Rightarrow> bytes \<Rightarrow> nat \<Rightarrow> (PacketEncodeError, bytes) result" where
  "encode_udp_response lib flow payload mtu =
     (let src_port = ep_port (destination flow); dst_port = ep_port (source flow) in
      case (ep_ip (destination flow), ep_ip (source flow)) of
        (V4 src, V4 dst) \<Rightarrow>
          if ipv4_header_len lib + udp_header_len lib + length payload > mtu then Err MtuExceeded
          else Ok (emit_ipv4_udp lib src dst src_port dst_port payload)
      | (V6 src, V6 dst) \<Rightarrow>
          if ipv6_header_len lib + udp_header_len lib + length payload > mtu then Err MtuExceeded
          else Ok (emit_ipv6_udp lib src dst src_port dst_port payload)
      | _ \<Rightarrow> Err AddressFamilyMismatch)"

section \<open>Frame queues\<close>

datatype TunAdapterConfigError = TcpFlowLimitZero | UdpAssociationLimitZero | FrameQueue | Ipv4Prefix

datatype FrameQueueError = Oversized | Full

record TunFrameQueue =
  mtu :: nat
  queue_capacity :: nat
  inbound :: "bytes list"
  outbound :: "bytes list"

definition TunFrameQueue_new :: "nat \<Rightarrow> nat \<Rightarrow> (TunAdapterConfigError, TunFrameQueue) result" where
  "TunFrameQueue_new m cap =
     (if m < 576 \<or> cap = 0 then Err FrameQueue
      else Ok \<lparr>mtu = m, queue_capacity = cap, inbound = [], outbound = []\<rparr>)"

definition TunFrameQueue_push_inbound ::
  "TunFrameQueue \<Rightarrow> bytes \<Rightarrow> (FrameQueueError, unit) result \<times> TunFrameQueue" where
  "TunFrameQueue_push_inbound self frame =
     (if length frame > mtu self then (Err Oversized, self)
      else if length (inbound self) = queue_capacity self then (Err Full, self)
      else (Ok (), self\<lparr>inbound := inbound self @ [frame]\<rparr>))"

definition TunFrameQueue_pop_outbound :: "TunFrameQueue \<Rightarrow> bytes option \<times> TunFrameQueue" where
  "TunFrameQueue_pop_outbound self =
     (case outbound self of [] \<Rightarrow> (None, self) | f # fs \<Rightarrow> (Some f, self\<lparr>outbound := fs\<rparr>))"

definition TunFrameQueue_pop_inbound :: "TunFrameQueue \<Rightarrow> bytes option \<times> TunFrameQueue" where
  "TunFrameQueue_pop_inbound self =
     (case inbound self of [] \<Rightarrow> (None, self) | f # fs \<Rightarrow> (Some f, self\<lparr>inbound := fs\<rparr>))"

definition TunFrameQueue_push_outbound ::
  "TunFrameQueue \<Rightarrow> bytes \<Rightarrow> (FrameQueueError, unit) result \<times> TunFrameQueue" where
  "TunFrameQueue_push_outbound self frame =
     (if length frame > mtu self then (Err Oversized, self)
      else if length (outbound self) = queue_capacity self then (Err Full, self)
      else (Ok (), self\<lparr>outbound := outbound self @ [frame]\<rparr>))"

text \<open>\<^verbatim>\<open>TunTxToken::consume\<close>: the stack fills a frame of the length it asked for.\<close>

definition TunTxToken_consume :: "TunFrameQueue \<Rightarrow> nat \<Rightarrow> (bytes \<Rightarrow> bytes) \<Rightarrow> TunFrameQueue" where
  "TunTxToken_consume self len f =
     (let frame = f (replicate len 0) in
      if length frame \<le> mtu self \<and> length (outbound self) < queue_capacity self
      then self\<lparr>outbound := outbound self @ [frame]\<rparr> else self)"

section \<open>Limits and configuration\<close>

record TunStackConfig =
  cfg_address :: bytes
  cfg_prefix_len :: u8
  cfg_mtu :: nat
  cfg_frame_queue_capacity :: nat

definition TunStackConfig_validate ::
  "TunStackConfig \<Rightarrow> (TunAdapterConfigError, TunStackConfig) result" where
  "TunStackConfig_validate self =
     (if cfg_prefix_len self > 32 then Err Ipv4Prefix
      else if cfg_mtu self < 576 \<or> cfg_frame_queue_capacity self = 0 then Err FrameQueue
      else Ok self)"

record TunAdapterLimits =
  max_tcp_flows :: nat
  max_udp_associations :: nat

definition TunAdapterLimits_validate ::
  "TunAdapterLimits \<Rightarrow> (TunAdapterConfigError, TunAdapterLimits) result" where
  "TunAdapterLimits_validate self =
     (if max_tcp_flows self = 0 then Err TcpFlowLimitZero
      else if max_udp_associations self = 0 then Err UdpAssociationLimitZero
      else Ok self)"

definition TunAdapterLimits_default :: TunAdapterLimits where
  "TunAdapterLimits_default = \<lparr>max_tcp_flows = 256, max_udp_associations = 256\<rparr>"

section \<open>UDP associations\<close>

datatype UdpAssociationError = NotUdp | AssociationLimit | UnknownAssociation | SourceMismatch

record UdpAssociationTable =
  next_session :: u64
  by_flow :: "(FlowKey \<times> DatagramSessionId) list"
  by_session :: "(DatagramSessionId \<times> FlowKey) list"
  assoc_limit :: nat

definition UdpAssociationTable_new ::
  "nat \<Rightarrow> (TunAdapterConfigError, UdpAssociationTable) result" where
  "UdpAssociationTable_new limit =
     (if limit = 0 then Err UdpAssociationLimitZero
      else Ok \<lparr>next_session = 1, by_flow = [], by_session = [], assoc_limit = limit\<rparr>)"

text \<open>
  The search of \<^verbatim>\<open>allocate_session\<close> for a free session number; it has no bound of its own, and
  \<open>None\<close> is a search that does not end (or the panic on a zero number).
\<close>

partial_function (option) allocate_session_from ::
  "u64 \<Rightarrow> (DatagramSessionId \<times> FlowKey) list \<Rightarrow> (DatagramSessionId \<times> u64) option" where
  "allocate_session_from candidate sessions =
     (let n = candidate + 1;
          n = (if n = 0 then 1 else n)
      in case DatagramSessionId_new candidate of
           Inl _ \<Rightarrow> None
         | Inr session \<Rightarrow>
             if map_of sessions session = None then Some (session, n)
             else allocate_session_from n sessions)"

definition UdpAssociationTable_allocate_session ::
  "UdpAssociationTable \<Rightarrow> (DatagramSessionId \<times> UdpAssociationTable) option" where
  "UdpAssociationTable_allocate_session self =
     map_option (\<lambda>(session, n). (session, self\<lparr>next_session := n\<rparr>))
       (allocate_session_from (next_session self) (by_session self))"

definition UdpAssociationTable_session_for ::
  "UdpAssociationTable \<Rightarrow> FlowKey
   \<Rightarrow> ((UdpAssociationError, DatagramSessionId) result \<times> UdpAssociationTable) option" where
  "UdpAssociationTable_session_for self flow =
     (if protocol flow \<noteq> Udp then Some (Err NotUdp, self)
      else
        (case map_of (by_flow self) flow of
           Some session \<Rightarrow> Some (Ok session, self)
         | None \<Rightarrow>
             if length (by_flow self) = assoc_limit self then Some (Err AssociationLimit, self)
             else
               map_option (\<lambda>(session, self).
                   (Ok session, self\<lparr>by_flow := AList.update flow session (by_flow self),
                                     by_session := AList.update session flow (by_session self)\<rparr>))
                 (UdpAssociationTable_allocate_session self)))"

definition UdpAssociationTable_flow_for_response ::
  "UdpAssociationTable \<Rightarrow> DatagramSessionId \<Rightarrow> Endpoint \<Rightarrow> (UdpAssociationError, FlowKey) result"
where
  "UdpAssociationTable_flow_for_response self session src =
     and_then (ok_or (map_of (by_session self) session) UnknownAssociation) (\<lambda>flow.
       if destination flow \<noteq> src then Err SourceMismatch else Ok flow)"

definition UdpAssociationTable_clear :: "UdpAssociationTable \<Rightarrow> UdpAssociationTable" where
  "UdpAssociationTable_clear self = self\<lparr>by_flow := [], by_session := []\<rparr>"

section \<open>The flow registry\<close>

datatype FlowAdmissionError = AdmissionNotOnline | TcpFlowLimit | UdpAssociationLimit

record FlowLease =
  lease_generation :: u64

text \<open>The runtime is shared with its other users, so it is an argument of the operations.\<close>

record TunFlowRegistry =
  limits :: TunAdapterLimits
  flows :: "(FlowKey \<times> FlowLease) list"

definition TunFlowRegistry_new ::
  "TunAdapterLimits \<Rightarrow> (TunAdapterConfigError, TunFlowRegistry) result" where
  "TunFlowRegistry_new l = and_then (TunAdapterLimits_validate l) (\<lambda>l. Ok \<lparr>limits = l, flows = []\<rparr>)"

definition TunFlowRegistry_current_generation ::
  "'c ClientRuntime \<Rightarrow> (FlowAdmissionError, u64) result" where
  "TunFlowRegistry_current_generation rt =
     (if ClientRuntime_is_generation_online rt (snap_generation (snapshots rt))
      then Ok (snap_generation (snapshots rt)) else Err AdmissionNotOnline)"

definition flows_of :: "TunFlowRegistry \<Rightarrow> FlowProtocol \<Rightarrow> nat" where
  "flows_of self p = length (filter (\<lambda>key. protocol key = p) (map fst (flows self)))"

fun flow_limit :: "TunAdapterLimits \<Rightarrow> FlowProtocol \<Rightarrow> nat" where
  "flow_limit l Tcp = max_tcp_flows l"
| "flow_limit l Udp = max_udp_associations l"

fun flow_limit_error :: "FlowProtocol \<Rightarrow> FlowAdmissionError" where
  "flow_limit_error Tcp = TcpFlowLimit"
| "flow_limit_error Udp = UdpAssociationLimit"

definition TunFlowRegistry_admit_new ::
  "TunFlowRegistry \<Rightarrow> FlowKey \<Rightarrow> u64 \<Rightarrow> (FlowAdmissionError, u64) result \<times> TunFlowRegistry" where
  "TunFlowRegistry_admit_new self key g =
     (if flows_of self (protocol key) \<ge> flow_limit (limits self) (protocol key)
      then (Err (flow_limit_error (protocol key)), self)
      else (Ok g, self\<lparr>flows := AList.update key \<lparr>lease_generation = g\<rparr> (flows self)\<rparr>))"

definition TunFlowRegistry_admit ::
  "'c ClientRuntime \<Rightarrow> TunFlowRegistry \<Rightarrow> FlowKey \<Rightarrow> (FlowAdmissionError, u64) result \<times> TunFlowRegistry"
where
  "TunFlowRegistry_admit rt self key =
     (case TunFlowRegistry_current_generation rt of
        Inl e \<Rightarrow> (Err e, self)
      | Inr g \<Rightarrow>
          (case map_of (flows self) key of
             Some lease \<Rightarrow>
               if lease_generation lease = g then (Ok g, self)
               else TunFlowRegistry_admit_new (self\<lparr>flows := AList.delete key (flows self)\<rparr>) key g
           | None \<Rightarrow> TunFlowRegistry_admit_new self key g))"

definition TunFlowRegistry_is_active :: "'c ClientRuntime \<Rightarrow> TunFlowRegistry \<Rightarrow> FlowKey \<Rightarrow> u64 \<Rightarrow> bool" where
  "TunFlowRegistry_is_active rt self key g =
     (ClientRuntime_is_generation_online rt g
      \<and> (case map_of (flows self) key of None \<Rightarrow> False | Some lease \<Rightarrow> lease_generation lease = g))"

definition TunFlowRegistry_release :: "TunFlowRegistry \<Rightarrow> FlowKey \<Rightarrow> bool \<times> TunFlowRegistry" where
  "TunFlowRegistry_release self key =
     (map_of (flows self) key \<noteq> None, self\<lparr>flows := AList.delete key (flows self)\<rparr>)"

definition TunFlowRegistry_clear :: "TunFlowRegistry \<Rightarrow> TunFlowRegistry" where
  "TunFlowRegistry_clear self = self\<lparr>flows := []\<rparr>"

datatype TcpRelayError =
    NotTcp
  | RelayAdmission FlowAdmissionError
  | RelayRuntime RuntimeError
  | RelayClient ClientError
  | RelayStaleFlow

record 's TunTcpRelay =
  relay_flow :: FlowKey
  relay_generation :: u64
  relay_stream :: 's

definition TunFlowRegistry_open_tcp ::
  "'c ClientRuntime \<Rightarrow> (u64 \<times> 'c \<Rightarrow> (ClientError, 's) result) \<Rightarrow> 'c ClientRuntime \<Rightarrow> TunFlowRegistry
   \<Rightarrow> FlowKey \<Rightarrow> (TcpRelayError, 's TunTcpRelay) result \<times> TunFlowRegistry" where
  "TunFlowRegistry_open_tcp rt transport later self flow =
     (if protocol flow \<noteq> Tcp then (Err NotTcp, self)
      else
        (case TunFlowRegistry_admit rt self flow of
           (Inl e, self) \<Rightarrow> (Err (RelayAdmission e), self)
         | (Inr g, self) \<Rightarrow>
             (case ClientRuntime_open_stream rt transport later of
                Inl e \<Rightarrow> (Err (RelayRuntime e), self)
              | Inr (_, stream) \<Rightarrow>
                  if \<not> TunFlowRegistry_is_active later self flow g then (Err RelayStaleFlow, self)
                  else (Ok \<lparr>relay_flow = flow, relay_generation = g, relay_stream = stream\<rparr>, self))))"

definition TunTcpRelay_ensure_active :: "'c ClientRuntime \<Rightarrow> 's TunTcpRelay \<Rightarrow> (TcpRelayError, unit) result"
where
  "TunTcpRelay_ensure_active rt self =
     (if ClientRuntime_is_generation_online rt (relay_generation self) then Ok () else Err RelayStaleFlow)"

definition TunTcpRelay_write_all ::
  "'c ClientRuntime \<Rightarrow> ('s \<Rightarrow> (ClientError, unit) result) \<Rightarrow> 'c ClientRuntime \<Rightarrow> 's TunTcpRelay
   \<Rightarrow> (TcpRelayError, unit) result" where
  "TunTcpRelay_write_all rt write_stream later self =
     and_then (TunTcpRelay_ensure_active rt self) (\<lambda>_.
     and_then (map_err RelayClient (write_stream (relay_stream self))) (\<lambda>_.
       TunTcpRelay_ensure_active later self))"

definition TunTcpRelay_read ::
  "'c ClientRuntime \<Rightarrow> ('s \<Rightarrow> (ClientError, 'r) result) \<Rightarrow> 'c ClientRuntime \<Rightarrow> 's TunTcpRelay
   \<Rightarrow> (TcpRelayError, 'r) result" where
  "TunTcpRelay_read rt read_stream later self =
     and_then (TunTcpRelay_ensure_active rt self) (\<lambda>_.
     and_then (map_err RelayClient (read_stream (relay_stream self))) (\<lambda>r.
     and_then (TunTcpRelay_ensure_active later self) (\<lambda>_. Ok r)))"

section \<open>The UDP engine\<close>

datatype UdpForwardError =
    ForwardPacket PacketError
  | ForwardAdmission FlowAdmissionError
  | ForwardAssociation UdpAssociationError
  | ForwardRuntime RuntimeError

datatype UdpReceiveError =
    ReceiveRuntime RuntimeError
  | ReceiveAssociation UdpAssociationError
  | ReceiveStaleFlow
  | ReceiveEncode PacketEncodeError

text \<open>The transport answers a datagram sent on a session to a destination.\<close>

type_synonym 'c datagram_sender =
  "DatagramSessionId \<Rightarrow> Endpoint \<Rightarrow> bytes \<Rightarrow> 'c \<Rightarrow> (ClientError, unit) result"

definition TunFlowRegistry_forward_udp ::
  "smoltcp \<Rightarrow> 'c ClientRuntime \<Rightarrow> 'c datagram_sender \<Rightarrow> 'c ClientRuntime \<Rightarrow> TunFlowRegistry \<Rightarrow> bytes
   \<Rightarrow> UdpAssociationTable
   \<Rightarrow> ((UdpForwardError, u64) result \<times> TunFlowRegistry \<times> UdpAssociationTable) option" where
  "TunFlowRegistry_forward_udp lib rt send later self frame associations =
     (case and_then (classify_ipv4_packet lib frame) (\<lambda>flow.
             and_then (udp_payload lib frame) (\<lambda>payload. Ok (flow, payload))) of
        Inl e \<Rightarrow> Some (Err (ForwardPacket e), self, associations)
      | Inr (flow, payload) \<Rightarrow>
          (case TunFlowRegistry_admit rt self flow of
             (Inl e, self) \<Rightarrow> Some (Err (ForwardAdmission e), self, associations)
           | (Inr g, self) \<Rightarrow>
               (case UdpAssociationTable_session_for associations flow of
                  None \<Rightarrow> None
                | Some (Inl e, associations) \<Rightarrow> Some (Err (ForwardAssociation e), self, associations)
                | Some (Inr session, associations) \<Rightarrow>
                    (case ClientRuntime_send_datagram rt (send session (destination flow) payload) of
                       Inl e \<Rightarrow> Some (Err (ForwardRuntime e), self, associations)
                     | Inr _ \<Rightarrow>
                         if \<not> TunFlowRegistry_is_active later self flow g
                         then Some (Err (ForwardAdmission AdmissionNotOnline), self, associations)
                         else Some (Ok g, self, associations)))))"

record ClientDatagram =
  session_id :: DatagramSessionId
  datagram_source :: Endpoint
  datagram_payload :: bytes

definition TunFlowRegistry_receive_udp ::
  "smoltcp \<Rightarrow> 'c ClientRuntime \<Rightarrow> ('c \<Rightarrow> (ClientError, ClientDatagram) result) \<Rightarrow> 'c ClientRuntime
   \<Rightarrow> TunFlowRegistry \<Rightarrow> UdpAssociationTable \<Rightarrow> nat \<Rightarrow> (UdpReceiveError, bytes) result" where
  "TunFlowRegistry_receive_udp lib rt transport later self associations m =
     and_then (map_err ReceiveRuntime (ClientRuntime_receive_datagram rt transport later)) (\<lambda>response.
     and_then (map_err ReceiveAssociation
        (UdpAssociationTable_flow_for_response associations (session_id response)
           (datagram_source response))) (\<lambda>flow.
       if \<not> TunFlowRegistry_is_active later self flow (snap_generation (snapshots later))
       then Err ReceiveStaleFlow
       else map_err ReceiveEncode (encode_udp_response lib flow (datagram_payload response) m)))"

record TunUdpEngine =
  queue :: TunFrameQueue
  registry :: TunFlowRegistry
  associations :: UdpAssociationTable

datatype TunUdpEngineError =
    EngineQueue FrameQueueError
  | EngineForward UdpForwardError
  | EngineReceive UdpReceiveError

definition TunUdpEngine_new ::
  "TunAdapterLimits \<Rightarrow> nat \<Rightarrow> nat \<Rightarrow> (TunAdapterConfigError, TunUdpEngine) result" where
  "TunUdpEngine_new l m cap =
     and_then (TunFrameQueue_new m cap) (\<lambda>q.
     and_then (UdpAssociationTable_new (max_udp_associations l)) (\<lambda>a.
     and_then (TunFlowRegistry_new l) (\<lambda>r.
       Ok \<lparr>queue = q, registry = r, associations = a\<rparr>)))"

definition TunUdpEngine_push_inbound ::
  "TunUdpEngine \<Rightarrow> bytes \<Rightarrow> (FrameQueueError, unit) result \<times> TunUdpEngine" where
  "TunUdpEngine_push_inbound self frame =
     (let (r, q) = TunFrameQueue_push_inbound (queue self) frame in (r, self\<lparr>queue := q\<rparr>))"

definition TunUdpEngine_forward_next ::
  "smoltcp \<Rightarrow> 'c ClientRuntime \<Rightarrow> 'c datagram_sender \<Rightarrow> 'c ClientRuntime \<Rightarrow> TunUdpEngine
   \<Rightarrow> ((TunUdpEngineError, u64 option) result \<times> TunUdpEngine) option" where
  "TunUdpEngine_forward_next lib rt send later self =
     (case TunFrameQueue_pop_inbound (queue self) of
        (None, q) \<Rightarrow> Some (Ok None, self\<lparr>queue := q\<rparr>)
      | (Some frame, q) \<Rightarrow>
          map_option (\<lambda>(r, reg, assoc).
              ((case r of Inl e \<Rightarrow> Err (EngineForward e) | Inr g \<Rightarrow> Ok (Some g)),
               self\<lparr>queue := q, registry := reg, associations := assoc\<rparr>))
            (TunFlowRegistry_forward_udp lib rt send later (registry self) frame (associations self)))"

definition TunUdpEngine_receive_next ::
  "smoltcp \<Rightarrow> 'c ClientRuntime \<Rightarrow> ('c \<Rightarrow> (ClientError, ClientDatagram) result) \<Rightarrow> 'c ClientRuntime
   \<Rightarrow> TunUdpEngine \<Rightarrow> (TunUdpEngineError, unit) result \<times> TunUdpEngine" where
  "TunUdpEngine_receive_next lib rt transport later self =
     (case TunFlowRegistry_receive_udp lib rt transport later (registry self) (associations self)
             (mtu (queue self)) of
        Inl e \<Rightarrow> (Err (EngineReceive e), self)
      | Inr frame \<Rightarrow>
          let (r, q) = TunFrameQueue_push_outbound (queue self) frame
          in (map_err EngineQueue r, self\<lparr>queue := q\<rparr>))"

definition TunUdpEngine_pop_outbound :: "TunUdpEngine \<Rightarrow> bytes option \<times> TunUdpEngine" where
  "TunUdpEngine_pop_outbound self =
     (let (f, q) = TunFrameQueue_pop_outbound (queue self) in (f, self\<lparr>queue := q\<rparr>))"

definition TunUdpEngine_clear :: "TunUdpEngine \<Rightarrow> TunUdpEngine" where
  "TunUdpEngine_clear self =
     self\<lparr>registry := TunFlowRegistry_clear (registry self),
          associations := UdpAssociationTable_clear (associations self)\<rparr>"

end
