(* ===== verification/Tun_Properties.thy ===== *)
theory Tun_Properties
  imports Tun_Adapter
begin

text \<open>
  What the TUN adapter promises along every history: the limits of the queues, of the flow registry
  and of the association table, the two directions of the association table as inverse maps, the
  termination of the search for a session number, and routing by the name behind a fake address.
\<close>

section \<open>Invariants\<close>

definition queue_inv :: "nat \<Rightarrow> nat \<Rightarrow> TunFrameQueue \<Rightarrow> bool" where
  "queue_inv m cap q =
     (mtu q = m \<and> queue_capacity q = cap \<and> length (inbound q) \<le> cap \<and> length (outbound q) \<le> cap
      \<and> (\<forall>f \<in> set (inbound q) \<union> set (outbound q). length f \<le> m))"

definition registry_inv :: "TunAdapterLimits \<Rightarrow> TunFlowRegistry \<Rightarrow> bool" where
  "registry_inv l r =
     (limits r = l \<and> distinct (map fst (flows r)) \<and> (\<forall>p. flows_of r p \<le> flow_limit l p))"

definition association_inv :: "nat \<Rightarrow> UdpAssociationTable \<Rightarrow> bool" where
  "association_inv limit a =
     (assoc_limit a = limit \<and> next_session a \<noteq> 0
      \<and> distinct (map fst (by_flow a)) \<and> distinct (map fst (by_session a))
      \<and> length (by_flow a) \<le> limit \<and> length (by_session a) = length (by_flow a)
      \<and> (\<forall>f s. map_of (by_flow a) f = Some s \<longleftrightarrow> map_of (by_session a) s = Some f)
      \<and> (\<forall>f s. map_of (by_flow a) f = Some s \<longrightarrow> protocol f = Udp \<and> DatagramSessionId_get s \<noteq> 0))"

definition engine_inv :: "TunAdapterLimits \<Rightarrow> nat \<Rightarrow> nat \<Rightarrow> TunUdpEngine \<Rightarrow> bool" where
  "engine_inv l m cap e =
     (queue_inv m cap (queue e) \<and> registry_inv l (registry e)
      \<and> association_inv (max_udp_associations l) (associations e))"

section \<open>Histories\<close>

datatype 'c tun_op =
    PushInbound bytes
  | ForwardNext "'c ClientRuntime" "'c datagram_sender" "'c ClientRuntime"
  | ReceiveNext "'c ClientRuntime" "'c \<Rightarrow> (ClientError, ClientDatagram) result" "'c ClientRuntime"
  | PopOutbound
  | ClearEngine

datatype tun_outcome =
    Pushed "(FrameQueueError, unit) result"
  | Forwarded "(TunUdpEngineError, u64 option) result"
  | Received "(TunUdpEngineError, unit) result"
  | Popped "bytes option"
  | Cleared

fun tun_step :: "smoltcp \<Rightarrow> 'c tun_op \<Rightarrow> TunUdpEngine \<Rightarrow> (tun_outcome \<times> TunUdpEngine) option" where
  "tun_step lib (PushInbound f) e =
     (let (r, e') = TunUdpEngine_push_inbound e f in Some (Pushed r, e'))"
| "tun_step lib (ForwardNext rt send later) e =
     map_option (\<lambda>(r, e'). (Forwarded r, e')) (TunUdpEngine_forward_next lib rt send later e)"
| "tun_step lib (ReceiveNext rt transport later) e =
     (let (r, e') = TunUdpEngine_receive_next lib rt transport later e in Some (Received r, e'))"
| "tun_step lib PopOutbound e = (let (f, e') = TunUdpEngine_pop_outbound e in Some (Popped f, e'))"
| "tun_step lib ClearEngine e = Some (Cleared, TunUdpEngine_clear e)"

datatype policy_op =
    AllocateDns u64 string Ip nat nat
  | Decide u64 FlowKey nat
  | ReplacePolicy u64 RoutingPolicy

datatype policy_outcome =
    AllocatedDns "(FakeDnsError, Ip) result"
  | Decided "(FakeDnsError, TunRouteDecision) result"
  | PolicyReplaced

fun policy_step :: "policy_op \<Rightarrow> TunPolicyEngine \<Rightarrow> (policy_outcome \<times> TunPolicyEngine) option" where
  "policy_step (AllocateDns g d real ttl now) e =
     (let (r, e') = TunPolicyEngine_allocate_dns e g d real ttl now in Some (AllocatedDns r, e'))"
| "policy_step (Decide g flow now) e =
     (let (r, e') = TunPolicyEngine_decide e g flow now in Some (Decided r, e'))"
| "policy_step (ReplacePolicy g p) e = Some (PolicyReplaced, TunPolicyEngine_replace_generation e g p)"

text \<open>
  What an operation of the policy engine asks of its table, the decision the policy takes for a
  destination that may have a name, and the counterparts on policy histories of the conditions
  under which an entry of the table lives.
\<close>

fun dns_op :: "policy_op \<Rightarrow> fake_dns_op" where
  "dns_op (AllocateDns g d real ttl now) = Allocate g d real ttl now"
| "dns_op (Decide g flow now) = Resolve g (ep_ip (destination flow)) now"
| "dns_op (ReplacePolicy g p) = ReplaceGeneration g"

definition decision :: "RoutingPolicy \<Rightarrow> string option \<Rightarrow> Endpoint \<Rightarrow> TunRouteDecision" where
  "decision p name dest =
     \<lparr>route_action = RoutingPolicy_decide p
        \<lparr>ctx_domain = name, ctx_destination = ep_ip dest, ctx_destination_port = ep_port dest\<rparr>,
      route_destination = dest, route_domain = name\<rparr>"

definition dns_allocations :: "(policy_op \<times> policy_outcome) list \<Rightarrow> nat" where
  "dns_allocations log = length (filter (\<lambda>(op, _). is_allocation (dns_op op)) log)"

fun policy_keeps :: "nat \<Rightarrow> Ip \<Rightarrow> policy_op \<times> policy_outcome \<Rightarrow> bool" where
  "policy_keeps x a (AllocateDns _ _ _ ttl now, out) = (now < x \<and> (out = AllocatedDns (Ok a) \<longrightarrow> x \<le> now + ttl))"
| "policy_keeps x a (Decide _ _ now, out) = (now < x)"
| "policy_keeps x a (ReplacePolicy _ _, out) = False"

definition same_dns :: "policy_op \<times> policy_outcome \<Rightarrow> fake_dns_op \<times> fake_dns_outcome \<Rightarrow> bool" where
  "same_dns e e' = (fst e' = dns_op (fst e) \<and> (\<forall>r. snd e' = Allocated r \<longrightarrow> snd e = AllocatedDns r))"

text \<open>A concrete host: every frame is a UDP packet, and the runtime is online.\<close>

definition demo_smoltcp :: smoltcp where
  "demo_smoltcp = \<lparr>ipv4_checked = Some, ipv4_repr = (\<lambda>_. Some (1, 2, IpUdp)), ipv6_checked = (\<lambda>_. None),
     ipv6_repr = (\<lambda>_. None), tcp_ports = (\<lambda>_. None), udp_ports = (\<lambda>_. Some (5, 6)), udp_body = (\<lambda>b. b),
     ipv4_header_len = 20, ipv6_header_len = 40, udp_header_len = 8,
     emit_ipv4_udp = (\<lambda>_ _ _ _ b. replicate 28 0 @ b), emit_ipv6_udp = (\<lambda>_ _ _ _ b. replicate 48 0 @ b)\<rparr>"

definition demo_online :: "nat ClientRuntime" where
  "demo_online =
     (let s = \<lparr>snap_revision = 2, snap_generation = 1, snap_phase = Online, snap_failure = None\<rparr>
      in \<lparr>lifecycle = \<lparr>snapshot = s\<rparr>, client = Some 10, lifecycle_task = Some \<lparr>task_generation = 1\<rparr>,
          snapshots = s, aborted_tasks = [], closed_clients = []\<rparr>)"

definition demo_limits :: TunAdapterLimits where
  "demo_limits = \<lparr>max_tcp_flows = 1, max_udp_associations = 1\<rparr>"

definition demo_engine :: TunUdpEngine where
  "demo_engine =
     \<lparr>queue = \<lparr>mtu = 576, queue_capacity = 1, inbound = [], outbound = []\<rparr>,
      registry = \<lparr>limits = demo_limits, flows = []\<rparr>,
      associations = \<lparr>next_session = 1, by_flow = [], by_session = [], assoc_limit = 1\<rparr>\<rparr>"

definition demo_flow :: FlowKey where
  "demo_flow = \<lparr>protocol = Udp, source = \<lparr>ep_ip = V4 1, ep_port = 5\<rparr>,
     destination = \<lparr>ep_ip = V4 2, ep_port = 6\<rparr>\<rparr>"

section \<open>Searching a session number\<close>

lemma session_successor:
  fixes c :: u64
  assumes "c \<noteq> 0"
  shows "unat (if c + 1 = 0 then 1 else c + 1) - 1 = (unat c - 1 + 1) mod (2 ^ 64 - 1)"
proof -
  have c: "0 < unat c" "unat c < 2 ^ 64"
    using assms unat_less_power [of c] by (simp_all add: unat_gt_0)
  show ?thesis
  proof (cases "unat c = 2 ^ 64 - 1")
    case True
    then have "unat (c + 1) = 0"
      by (simp add: unat_word_ariths)
    then have "c + 1 = 0"
      by (simp add: unat_eq_zero)
    then show ?thesis
      using True by simp
  next
    case False
    then have "unat (c + 1) = unat c + 1"
      using c by (simp add: unat_word_ariths)
    moreover have "c + 1 \<noteq> 0"
      using calculation by (metis Suc_eq_plus1 nat.distinct(1) unat_0)
    ultimately show ?thesis
      using c False by simp
  qed
qed

lemma allocate_session_reaches:
  assumes "c \<noteq> 0" "x \<noteq> 0" "(unat c - 1 + d) mod (2 ^ 64 - 1) = unat x - 1"
    "map_of sessions (DatagramSessionId x) = None"
  shows "\<exists>s n. allocate_session_from c sessions = Some (s, n) \<and> map_of sessions s = None
    \<and> DatagramSessionId_get s \<noteq> 0 \<and> n \<noteq> 0"
  using assms
proof (induction d arbitrary: c)
  case (0 c)
  have pos: "0 < unat c" "0 < unat x" "unat c < 2 ^ 64"
    using 0 unat_less_power [of c] by (simp_all add: unat_gt_0)
  then have "unat c = unat x"
    using 0(3) by simp
  then have "c = x"
    by (simp add: word_unat_eq_iff)
  then show ?case
    using 0 by (subst allocate_session_from.simps) (simp add: DatagramSessionId_new_def Let_def)
next
  case (Suc d c)
  show ?case
  proof (cases "map_of sessions (DatagramSessionId c) = None")
    case True
    then show ?thesis
      using Suc.prems(1)
      by (subst allocate_session_from.simps) (simp add: DatagramSessionId_new_def Let_def)
  next
    case False
    define n where "n = (if c + 1 = 0 then 1 else c + 1)"
    have step: "allocate_session_from c sessions = allocate_session_from n sessions"
      using False Suc.prems(1)
      by (subst allocate_session_from.simps) (auto simp: DatagramSessionId_new_def Let_def n_def)
    have "n \<noteq> 0"
      by (simp add: n_def)
    moreover have "unat n - 1 = (unat c - 1 + 1) mod (2 ^ 64 - 1)"
      unfolding n_def using Suc.prems(1) by (rule session_successor)
    then have "(unat n - 1 + d) mod (2 ^ 64 - 1) = unat x - 1"
      using Suc.prems(3) by (simp add: mod_simps)
    ultimately show ?thesis
      using Suc.IH Suc.prems(2,4) step by simp
  qed
qed

lemma allocate_session_total:
  assumes "c \<noteq> 0" "length sessions < 2 ^ 64 - 1"
  shows "\<exists>s n. allocate_session_from c sessions = Some (s, n) \<and> map_of sessions s = None
    \<and> DatagramSessionId_get s \<noteq> 0 \<and> n \<noteq> 0"
proof -
  let ?numbers = "(\<lambda>i. DatagramSessionId (word_of_nat i)) ` {1..length sessions + 1}"
  have "inj_on (\<lambda>i. DatagramSessionId (word_of_nat i)) {1..length sessions + 1}"
    using assms(2) by (intro inj_onI) (auto simp: word_of_nat_eq_iff take_bit_nat_eq_self)
  then have "card ?numbers = length sessions + 1"
    by (simp add: card_image)
  moreover have "card (fst ` set sessions) \<le> length sessions"
    by (metis card_image_le card_length finite_set le_trans)
  ultimately have "\<not> ?numbers \<subseteq> fst ` set sessions"
    using card_mono [of "fst ` set sessions" ?numbers] by auto
  then obtain y where "y \<in> ?numbers" "y \<notin> fst ` set sessions"
    by blast
  then obtain i where i: "1 \<le> i" "i \<le> length sessions + 1"
    "DatagramSessionId (word_of_nat i) \<notin> fst ` set sessions"
    by auto
  define x :: u64 where "x = word_of_nat i"
  have "unat x = i"
    using i assms(2) by (simp add: x_def unat_of_nat)
  then have x: "x \<noteq> 0" "map_of sessions (DatagramSessionId x) = None"
    using i by (auto simp: x_def map_of_eq_None_iff)
  define d where "d = (unat x - 1) + (2 ^ 64 - 1) - (unat c - 1)"
  have "unat c < 2 ^ 64" "unat x < 2 ^ 64" "0 < unat c" "0 < unat x"
    using assms(1) x(1) unat_less_power [of c] unat_less_power [of x] by (simp_all add: unat_gt_0)
  then have "unat c - 1 + d = unat x - 1 + (2 ^ 64 - 1)" "unat x - 1 < 2 ^ 64 - 1"
    by (simp_all add: d_def)
  then have "(unat c - 1 + d) mod (2 ^ 64 - 1) = unat x - 1"
    by simp
  from allocate_session_reaches [OF assms(1) x(1) this x(2)] show ?thesis .
qed

lemma length_update_new:
  "map_of xs k = None \<Longrightarrow> length (AList.update k v xs) = Suc (length xs)"
  by (induction xs) (auto split: if_splits)

lemma session_for_total:
  assumes "association_inv limit a" "limit < 2 ^ 64"
  shows "UdpAssociationTable_session_for a f \<noteq> None"
proof -
  have "next_session a \<noteq> 0" "assoc_limit a = limit" "length (by_session a) = length (by_flow a)"
    "length (by_flow a) \<le> limit"
    using assms(1) by (simp_all add: association_inv_def)
  moreover have "\<exists>y. allocate_session_from (next_session a) (by_session a) = Some y"
    if "length (by_flow a) \<noteq> limit"
  proof -
    have "length (by_session a) < 2 ^ 64 - 1"
      using that calculation assms(2) by simp
    from allocate_session_total [OF calculation(1) this] show ?thesis
      by blast
  qed
  ultimately show ?thesis
    by (auto simp: UdpAssociationTable_session_for_def UdpAssociationTable_allocate_session_def
        split: option.splits)
qed

text \<open>A session that is handed out for a flow is answered to that flow, and to no other.\<close>

lemma session_for_inv:
  assumes "association_inv limit a" "limit < 2 ^ 64"
    "UdpAssociationTable_session_for a f = Some (r, a')"
  shows "association_inv limit a'
    \<and> (\<forall>s. r = Ok s \<longrightarrow> protocol f = Udp \<and> map_of (by_flow a') f = Some s)
    \<and> (\<forall>g t. map_of (by_flow a) g = Some t \<longrightarrow> map_of (by_flow a') g = Some t)"
proof (cases "protocol f = Udp \<and> map_of (by_flow a) f = None \<and> length (by_flow a) \<noteq> assoc_limit a")
  case False
  then have "a' = a" "\<forall>s. r = Ok s \<longrightarrow> protocol f = Udp \<and> map_of (by_flow a) f = Some s"
    using assms(3) by (auto simp: UdpAssociationTable_session_for_def split: if_splits option.splits)
  then show ?thesis
    using assms(1) by simp
next
  case True
  have inv: "next_session a \<noteq> 0" "assoc_limit a = limit" "length (by_session a) = length (by_flow a)"
    "length (by_flow a) \<le> limit" "distinct (map fst (by_flow a))" "distinct (map fst (by_session a))"
    and inverse: "\<And>f s. map_of (by_flow a) f = Some s \<longleftrightarrow> map_of (by_session a) s = Some f"
    and udp: "\<And>f s. map_of (by_flow a) f = Some s \<Longrightarrow> protocol f = Udp \<and> DatagramSessionId_get s \<noteq> 0"
    using assms(1) by (simp_all add: association_inv_def)
  have "length (by_session a) < 2 ^ 64 - 1"
    using inv True assms(2) by simp
  then obtain s n where s: "allocate_session_from (next_session a) (by_session a) = Some (s, n)"
    "map_of (by_session a) s = None" "DatagramSessionId_get s \<noteq> 0" "n \<noteq> 0"
    using allocate_session_total [OF inv(1)] by blast
  then have a': "r = Ok s" "a' = a\<lparr>next_session := n, by_flow := AList.update f s (by_flow a),
      by_session := AList.update s f (by_session a)\<rparr>"
    using assms(3) True
    by (auto simp: UdpAssociationTable_session_for_def UdpAssociationTable_allocate_session_def)
  have "length (AList.update f s (by_flow a)) = Suc (length (by_flow a))"
    "length (AList.update s f (by_session a)) = Suc (length (by_session a))"
    using True s(2) by (simp_all add: length_update_new)
  moreover have no: "map_of (by_session a) t \<noteq> Some f" "map_of (by_flow a) g \<noteq> Some s" for t g
    using inverse [of f t] inverse [of g s] True s(2) by auto
  then have "map_of (AList.update f s (by_flow a)) g = Some t
      \<longleftrightarrow> map_of (AList.update s f (by_session a)) t = Some g" for g t
    unfolding update_conv' using inverse [of g t] by auto
  moreover have "protocol g = Udp \<and> DatagramSessionId_get t \<noteq> 0"
    if "map_of (AList.update f s (by_flow a)) g = Some t" for g t
    using that udp [of g t] True s(3) unfolding update_conv' by (auto split: if_splits)
  ultimately have "association_inv limit a'"
    using inv True s(4) unfolding association_inv_def a' by (simp add: distinct_update)
  then show ?thesis
    using True a' by (auto simp: update_conv')
qed

section \<open>The invariants are kept\<close>

lemma update_new: "map_of xs k = None \<Longrightarrow> AList.update k v xs = xs @ [(k, v)]"
  by (induction xs) (auto split: if_splits)

lemma flows_of_delete: "flows_of (r\<lparr>flows := AList.delete k (flows r)\<rparr>) p \<le> flows_of r p"
proof -
  have "length (filter P (map fst (AList.delete k xs))) \<le> length (filter P (map fst xs))" for P xs
    by (induction xs) (auto simp: AList.delete_eq)
  then show ?thesis
    by (simp add: flows_of_def)
qed

lemma registry_inv_delete:
  assumes "registry_inv l r"
  shows "registry_inv l (r\<lparr>flows := AList.delete k (flows r)\<rparr>)"
  using assms le_trans [OF flows_of_delete]
  by (auto simp: registry_inv_def AList.distinct_delete)

lemma admit_new_inv:
  assumes "registry_inv l r" "map_of (flows r) k = None" "TunFlowRegistry_admit_new r k g = (x, r')"
  shows "registry_inv l r' \<and> (\<forall>h. x = Ok h \<longrightarrow> h = g \<and> map_of (flows r') k = Some \<lparr>lease_generation = g\<rparr>)"
proof (cases "flows_of r (protocol k) \<ge> flow_limit (limits r) (protocol k)")
  case True
  then show ?thesis
    using assms by (auto simp: TunFlowRegistry_admit_new_def)
next
  case False
  then have r': "r' = r\<lparr>flows := flows r @ [(k, \<lparr>lease_generation = g\<rparr>)]\<rparr>" "x = Ok g"
    using assms(2,3) by (simp_all add: TunFlowRegistry_admit_new_def update_new)
  have "flows_of r' p = flows_of r p + (if p = protocol k then 1 else 0)" for p
    by (simp add: r' flows_of_def)
  then have "registry_inv l r'"
    using assms(1,2) False by (auto simp: registry_inv_def r' map_of_eq_None_iff)
  then show ?thesis
    using assms(2) by (simp add: r' map_add_def)
qed

lemma admit_inv:
  assumes "registry_inv l r" "TunFlowRegistry_admit rt r k = (x, r')"
  shows "registry_inv l r'
    \<and> (\<forall>g. x = Ok g \<longrightarrow> ClientRuntime_is_generation_online rt g
          \<and> map_of (flows r') k = Some \<lparr>lease_generation = g\<rparr>)"
proof (cases "TunFlowRegistry_current_generation rt")
  case (Inl e)
  then show ?thesis
    using assms by (auto simp: TunFlowRegistry_admit_def)
next
  case (Inr g)
  then have online: "ClientRuntime_is_generation_online rt g"
    by (auto simp: TunFlowRegistry_current_generation_def split: if_splits)
  show ?thesis
  proof (cases "map_of (flows r) k")
    case None
    then show ?thesis
      using admit_new_inv [OF assms(1) None] assms(2) Inr online
      by (auto simp: TunFlowRegistry_admit_def)
  next
    case (Some lease)
    have gone: "map_of (flows (r\<lparr>flows := AList.delete k (flows r)\<rparr>)) k = None"
      by (simp add: AList.delete_conv')
    show ?thesis
      using admit_new_inv [OF registry_inv_delete [OF assms(1)] gone] assms Inr online Some
      by (cases lease) (auto simp: TunFlowRegistry_admit_def split: if_splits)
  qed
qed

lemma forward_udp_inv:
  assumes "registry_inv l r" "association_inv n a" "n < 2 ^ 64"
  shows "\<exists>x r' a'. TunFlowRegistry_forward_udp lib rt send later r frame a = Some (x, r', a')
    \<and> registry_inv l r' \<and> association_inv n a'"
proof (cases "and_then (classify_ipv4_packet lib frame) (\<lambda>flow.
             and_then (udp_payload lib frame) (\<lambda>payload. Ok (flow, payload)))")
  case (Inl e)
  then show ?thesis
    using assms by (simp add: TunFlowRegistry_forward_udp_def)
next
  case (Inr fp)
  obtain flow payload where fp: "fp = (flow, payload)"
    by (cases fp)
  obtain x r1 where admit: "TunFlowRegistry_admit rt r flow = (x, r1)"
    by fastforce
  obtain y a1 where session: "UdpAssociationTable_session_for a flow = Some (y, a1)"
    using session_for_total [OF assms(2,3), of flow] by fastforce
  have "registry_inv l r1" "association_inv n a1"
    using admit_inv [OF assms(1) admit] session_for_inv [OF assms(2,3) session] by simp_all
  then show ?thesis
    using Inr fp admit session assms(1,2)
    by (auto simp: TunFlowRegistry_forward_udp_def split: sum.splits)
qed

lemma queue_push_inv:
  "queue_inv m cap q \<Longrightarrow> queue_inv m cap (snd (TunFrameQueue_push_inbound q f))"
  "queue_inv m cap q \<Longrightarrow> queue_inv m cap (snd (TunFrameQueue_push_outbound q f))"
  by (auto simp: queue_inv_def TunFrameQueue_push_inbound_def TunFrameQueue_push_outbound_def)

lemma queue_pop_inv:
  "queue_inv m cap q \<Longrightarrow> queue_inv m cap (snd (TunFrameQueue_pop_inbound q))"
  "queue_inv m cap q \<Longrightarrow> queue_inv m cap (snd (TunFrameQueue_pop_outbound q))"
  by (auto simp: queue_inv_def TunFrameQueue_pop_inbound_def TunFrameQueue_pop_outbound_def
      split: list.splits)

lemma clear_inv: "engine_inv l m cap e \<Longrightarrow> engine_inv l m cap (TunUdpEngine_clear e)"
  by (simp add: engine_inv_def TunUdpEngine_clear_def TunFlowRegistry_clear_def
      UdpAssociationTable_clear_def registry_inv_def association_inv_def flows_of_def)

lemma forward_next_inv:
  assumes "engine_inv l m cap e" "max_udp_associations l < 2 ^ 64"
  shows "\<exists>x e'. TunUdpEngine_forward_next lib rt send later e = Some (x, e') \<and> engine_inv l m cap e'"
proof -
  obtain frame q where pop: "TunFrameQueue_pop_inbound (queue e) = (frame, q)"
    by fastforce
  then have q: "queue_inv m cap q"
    using assms(1) queue_pop_inv(1) [of m cap "queue e"] by (simp add: engine_inv_def)
  show ?thesis
  proof (cases frame)
    case None
    then show ?thesis
      using pop q assms(1) by (simp add: TunUdpEngine_forward_next_def engine_inv_def)
  next
    case (Some f)
    obtain x r a where "TunFlowRegistry_forward_udp lib rt send later (registry e) f (associations e)
        = Some (x, r, a)" "registry_inv l r" "association_inv (max_udp_associations l) a"
      using forward_udp_inv assms unfolding engine_inv_def by blast
    then show ?thesis
      using pop q Some by (simp add: TunUdpEngine_forward_next_def engine_inv_def)
  qed
qed

lemma receive_next_inv:
  assumes "engine_inv l m cap e"
  shows "engine_inv l m cap (snd (TunUdpEngine_receive_next lib rt transport later e))"
proof (cases "TunFlowRegistry_receive_udp lib rt transport later (registry e) (associations e)
    (mtu (queue e))")
  case (Inr frame)
  then show ?thesis
    using assms queue_push_inv(2) [of m cap "queue e" frame]
    by (auto simp: TunUdpEngine_receive_next_def engine_inv_def split: prod.splits)
qed (use assms in \<open>simp add: TunUdpEngine_receive_next_def\<close>)

lemma tun_step_inv:
  assumes "engine_inv l m cap e" "max_udp_associations l < 2 ^ 64"
  shows "\<exists>out e'. tun_step lib op e = Some (out, e') \<and> engine_inv l m cap e'"
proof (cases op)
  case (PushInbound f)
  then show ?thesis
    using assms queue_push_inv(1) [of m cap "queue e" f]
    by (auto simp: TunUdpEngine_push_inbound_def engine_inv_def split: prod.splits)
next
  case (ForwardNext rt send later)
  then show ?thesis
    using forward_next_inv [OF assms, of lib rt send later] by fastforce
next
  case (ReceiveNext rt transport later)
  then show ?thesis
    using receive_next_inv [OF assms(1), of lib rt transport later] by (auto split: prod.splits)
next
  case PopOutbound
  then show ?thesis
    using assms queue_pop_inv(2) [of m cap "queue e"]
    by (auto simp: TunUdpEngine_pop_outbound_def engine_inv_def split: prod.splits)
next
  case ClearEngine
  then show ?thesis
    using clear_inv [OF assms(1)] by simp
qed

interpretation tun_engine:
  invariant_system "tun_step lib" "\<lambda>e. engine_inv l m cap e \<and> max_udp_associations l < 2 ^ 64"
proof unfold_locales
  fix e op out e'
  assume "engine_inv l m cap e \<and> max_udp_associations l < 2 ^ 64" "tun_step lib op e = Some (out, e')"
  then show "engine_inv l m cap e' \<and> max_udp_associations l < 2 ^ 64"
    using tun_step_inv [of l m cap e lib op] by auto
qed

lemma engine_inv_new: "TunUdpEngine_new l m cap = Ok e \<Longrightarrow> engine_inv l m cap e"
  by (auto simp: TunUdpEngine_new_def TunFrameQueue_new_def UdpAssociationTable_new_def
      TunFlowRegistry_new_def TunAdapterLimits_validate_def engine_inv_def queue_inv_def registry_inv_def
      association_inv_def flows_of_def result_simps split: if_splits)

lemma policy_step_inv:
  assumes "fake_dns_inv cap (dns e)" "policy_step op e = Some (out, e')"
  shows "fake_dns_inv cap (dns e')"
proof (cases op)
  case (AllocateDns g d real ttl now)
  then show ?thesis
    using assms allocate_inv [OF assms(1)]
    by (auto simp: TunPolicyEngine_allocate_dns_def split: prod.splits)
next
  case (Decide g flow now)
  then show ?thesis
    using assms resolve_inv [OF assms(1)]
    by (auto simp: TunPolicyEngine_decide_def Let_def split: prod.splits sum.splits)
next
  case (ReplacePolicy g p)
  then show ?thesis
    using assms replace_generation_inv by (auto simp: TunPolicyEngine_replace_generation_def)
qed

interpretation tun_policy: invariant_system policy_step "\<lambda>e. fake_dns_inv cap (dns e)"
  by unfold_locales (rule policy_step_inv)

text \<open>Every history of the engine is a history of its table.\<close>

lemma policy_step_dns:
  assumes "policy_step op e = Some (out, e')"
  shows "\<exists>out'. fake_dns_step (dns_op op) (dns e) = Some (out', dns e') \<and> same_dns (op, out) (dns_op op, out')"
  using assms
  by (cases op) (auto simp: same_dns_def TunPolicyEngine_allocate_dns_def TunPolicyEngine_decide_def
      TunPolicyEngine_replace_generation_def Let_def split: prod.splits sum.splits)

lemma policy_run_dns:
  "run policy_step e log e' \<Longrightarrow> \<exists>dlog. run fake_dns_step (dns e) dlog (dns e') \<and> list_all2 same_dns log dlog"
proof (induction rule: run.induct)
  case (run_snoc e log e1 op out e2)
  then obtain dlog out' where "run fake_dns_step (dns e) dlog (dns e1)" "list_all2 same_dns log dlog"
    "fake_dns_step (dns_op op) (dns e1) = Some (out', dns e2)" "same_dns (op, out) (dns_op op, out')"
    using policy_step_dns by blast
  then have "run fake_dns_step (dns e) (dlog @ [(dns_op op, out')]) (dns e2)
      \<and> list_all2 same_dns (log @ [(op, out)]) (dlog @ [(dns_op op, out')])"
    by (simp add: run.run_snoc list_all2_appendI)
  then show ?case
    by blast
qed (auto intro: run_nil)

lemma same_dns_keeps:
  "\<forall>r. out' = Allocated r \<longrightarrow> out = AllocatedDns r \<Longrightarrow> policy_keeps x a (op, out) \<Longrightarrow> keeps x a (dns_op op, out')"
  by (cases op) auto

lemma same_dns_log:
  assumes "list_all2 same_dns log dlog"
  shows "allocations dlog = dns_allocations log"
    and "list_all (policy_keeps x a) log \<Longrightarrow> list_all (keeps x a) dlog"
    and "list_all (\<lambda>(_, out). out \<noteq> AllocatedDns (Ok a)) log \<Longrightarrow> list_all (\<lambda>(_, out). out \<noteq> Allocated (Ok a)) dlog"
  using assms
  by (induction rule: list_all2_induct)
    (auto simp: allocations_def dns_allocations_def same_dns_def dest: same_dns_keeps)

lemma decide_resolve:
  "fst (TunPolicyEngine_decide e h flow later) =
     (case fst (FakeDnsTable_resolve (dns e) h (ep_ip (destination flow)) later) of
        Inl err \<Rightarrow> Err err
      | Inr None \<Rightarrow> Ok (decision (policy e) None (destination flow))
      | Inr (Some m) \<Rightarrow> Ok (decision (policy e) (Some (map_domain m))
          \<lparr>ep_ip = real_address m, ep_port = ep_port (destination flow)\<rparr>))"
  by (auto simp: TunPolicyEngine_decide_def decision_def Let_def split: prod.splits sum.splits option.splits)

lemma demo_engine_new: "TunUdpEngine_new demo_limits 576 1 = Ok demo_engine"
  by (simp add: TunUdpEngine_new_def TunFrameQueue_new_def UdpAssociationTable_new_def
      TunFlowRegistry_new_def TunAdapterLimits_validate_def demo_limits_def demo_engine_def)

lemma allocate_first_session: "allocate_session_from 1 [] = Some (DatagramSessionId 1, 2)"
  by (subst allocate_session_from.simps) (simp add: DatagramSessionId_new_def)

lemmas demo_engine_eval =
  allocate_first_session demo_engine_def demo_limits_def demo_flow_def demo_online_def demo_smoltcp_def
  TunUdpEngine_push_inbound_def TunFrameQueue_push_inbound_def TunUdpEngine_forward_next_def
  TunFrameQueue_pop_inbound_def TunFlowRegistry_forward_udp_def classify_ipv4_packet_def
  transport_ports_def flow_key_def udp_payload_def TunFlowRegistry_admit_def
  TunFlowRegistry_current_generation_def ClientRuntime_is_generation_online_def
  TunFlowRegistry_admit_new_def flows_of_def UdpAssociationTable_session_for_def
  UdpAssociationTable_allocate_session_def ClientRuntime_send_datagram_def
  ClientRuntime_active_client_def TunFlowRegistry_is_active_def Let_def

section \<open>Properties\<close>

text \<open>
  C20. The TUN engine stays within its limits: after any sequence of pushed, forwarded, received and
  cleared packets, with the runtime in any state and any answers of the transport, both queues
  hold at most their capacity of frames no longer than the MTU, and the flows of each protocol
  and the associations stay within the configured limits. No step panics or searches forever.
\<close>

theorem tun_engine_within_limits:
  assumes "TunUdpEngine_new l m cap = Ok e0" "max_udp_associations l < 2 ^ 64"
    "run (tun_step lib) e0 log e"
  shows "length (inbound (queue e)) \<le> cap \<and> length (outbound (queue e)) \<le> cap
    \<and> (\<forall>f \<in> set (inbound (queue e)) \<union> set (outbound (queue e)). length f \<le> m)
    \<and> flows_of (registry e) Tcp \<le> max_tcp_flows l \<and> flows_of (registry e) Udp \<le> max_udp_associations l
    \<and> length (by_flow (associations e)) \<le> max_udp_associations l
    \<and> tun_step lib op e \<noteq> None"
proof -
  have inv: "engine_inv l m cap e"
    using tun_engine.run_inv [OF assms(3)] engine_inv_new [OF assms(1)] assms(2) by blast
  then have "flows_of (registry e) p \<le> flow_limit l p" for p
    by (simp add: engine_inv_def registry_inv_def)
  from this [of Tcp] this [of Udp] show ?thesis
    using inv tun_step_inv [OF inv assms(2), of lib op]
    by (auto simp: engine_inv_def queue_inv_def association_inv_def)
qed

theorem tun_engine_within_limits_witness:
  "\<exists>(log :: (nat tun_op \<times> tun_outcome) list) e. run (tun_step demo_smoltcp) demo_engine log e
    \<and> map fst (by_flow (associations e)) = [demo_flow]
    \<and> flows_of (registry e) Udp = 1 \<and> flows_of (registry e) Udp \<le> max_udp_associations demo_limits"
proof -
  let ?ops = "[PushInbound [7], ForwardNext demo_online (\<lambda>_ _ _ _. Ok ()) demo_online]"
  obtain log e where ex: "execute (tun_step demo_smoltcp) demo_engine ?ops = Some (log, e)"
    and e: "map fst (by_flow (associations e)) = [demo_flow]" "flows_of (registry e) Udp = 1"
    by (simp add: demo_engine_eval)
  have "max_udp_associations demo_limits < 2 ^ 64"
    by (simp add: demo_limits_def)
  from tun_engine_within_limits [OF demo_engine_new this execute_run [OF ex], of "ClearEngine :: nat tun_op"]
  have "flows_of (registry e) Udp \<le> max_udp_associations demo_limits"
    by blast
  with execute_run [OF ex] e show ?thesis
    by (intro exI [of _ log] exI [of _ e] conjI)
qed

text \<open>
  C21. Sessions and flows are matched one to one: in every reachable engine a session number that
  the table hands out for a flow is not zero, every earlier association is kept, a response on
  that session from the destination of the flow is given to that flow, from any other source it is
  refused, and no other session is answered to that flow.
\<close>

theorem association_exact:
  assumes "TunUdpEngine_new l m cap = Ok e0" "max_udp_associations l < 2 ^ 64"
    "run (tun_step lib) e0 log e"
    "UdpAssociationTable_session_for (associations e) flow = Some (Ok s, a)"
  shows "DatagramSessionId_get s \<noteq> 0
    \<and> UdpAssociationTable_flow_for_response a s (destination flow) = Ok flow
    \<and> (\<forall>src. src \<noteq> destination flow \<longrightarrow>
          UdpAssociationTable_flow_for_response a s src = Err SourceMismatch)
    \<and> (\<forall>t src. UdpAssociationTable_flow_for_response a t src = Ok flow \<longrightarrow> t = s)
    \<and> (\<forall>g t. map_of (by_flow (associations e)) g = Some t \<longrightarrow> map_of (by_session a) t = Some g)"
proof -
  have "association_inv (max_udp_associations l) (associations e)"
    using tun_engine.run_inv [OF assms(3)] engine_inv_new [OF assms(1)] assms(2)
    unfolding engine_inv_def by blast
  from session_for_inv [OF this assms(2,4)] have
    inv: "association_inv (max_udp_associations l) a" and s: "map_of (by_flow a) flow = Some s"
    and kept: "\<And>g t. map_of (by_flow (associations e)) g = Some t \<Longrightarrow> map_of (by_flow a) g = Some t"
    by auto
  have inverse: "map_of (by_flow a) g = Some t \<longleftrightarrow> map_of (by_session a) t = Some g" for g t
    using inv by (simp add: association_inv_def)
  have response: "UdpAssociationTable_flow_for_response a t src =
      (case map_of (by_session a) t of
         None \<Rightarrow> Err UnknownAssociation
       | Some f \<Rightarrow> if destination f \<noteq> src then Err SourceMismatch else Ok f)" for t src
    by (simp add: UdpAssociationTable_flow_for_response_def split: option.splits)
  have nonzero: "DatagramSessionId_get s \<noteq> 0"
    using inv s unfolding association_inv_def by blast
  have session: "map_of (by_session a) s = Some flow"
    using inverse s by blast
  have only: "t = s" if "UdpAssociationTable_flow_for_response a t src = Ok flow" for t src
  proof -
    have "map_of (by_session a) t = Some flow"
      using that by (auto simp: response split: option.splits if_splits)
    then show ?thesis
      using inverse [of flow t] s by simp
  qed
  show ?thesis
    using nonzero only by (intro conjI allI impI) (auto simp: response session dest: kept inverse [THEN iffD1])
qed

theorem association_exact_witness:
  "\<exists>a. UdpAssociationTable_session_for (associations demo_engine) demo_flow = Some (Ok (DatagramSessionId 1), a)
    \<and> UdpAssociationTable_flow_for_response a (DatagramSessionId 1) (destination demo_flow) = Ok demo_flow"
proof -
  obtain a where a: "UdpAssociationTable_session_for (associations demo_engine) demo_flow
      = Some (Ok (DatagramSessionId 1), a)"
    by (simp add: demo_engine_eval)
  have "max_udp_associations demo_limits < 2 ^ 64"
    by (simp add: demo_limits_def)
  from association_exact [OF demo_engine_new this run_nil a] show ?thesis
    using a by blast
qed

text \<open>
  C22. A flow to a fake address is routed by the name and the address behind it. In every reachable
  policy engine let a name be given a fake address and any history follow. As long as no step
  replaces the generation or shortens the entry's life, and fewer allocations follow than the
  capacity leaves room for, a flow to that address is decided, before the end of the entry's life,
  exactly as the policy decides for the normalised name, the real address and the port of the
  flow, and it is sent to the real address. Whatever follows, until the address is handed out
  again a flow to it is never routed by another name: the decision is that one, in the same
  generation and before the time to live has passed, or the one for the flow's own
  destination with no name, or the refusal of a generation that is not the current one.
\<close>

theorem fake_address_routed_by_name:
  assumes "TunPolicyEngine_new g0 p cap = Ok e0" "run policy_step e0 log e"
    "TunPolicyEngine_allocate_dns e g d real ttl now = (Ok (ep_ip (destination flow)), e1)"
    "run policy_step e1 later_log e2"
  shows "\<exists>v named. fake_normalize_domain d = Ok v
    \<and> named = decision (policy e2) (Some v) \<lparr>ep_ip = real, ep_port = ep_port (destination flow)\<rparr>
    \<and> newer (ep_ip (destination flow)) (dns e1) < cap
    \<and> (map_of (mappings (dns e)) (ep_ip (destination flow)) = None \<longrightarrow> newer (ep_ip (destination flow)) (dns e1) = 0)
    \<and> (\<forall>x later. later < x \<and> x \<le> now + ttl \<and> list_all (policy_keeps x (ep_ip (destination flow))) later_log
          \<and> newer (ep_ip (destination flow)) (dns e1) + dns_allocations later_log < cap
        \<longrightarrow> fst (TunPolicyEngine_decide e2 g flow later) = Ok named)
    \<and> (list_all (\<lambda>(_, out). out \<noteq> AllocatedDns (Ok (ep_ip (destination flow)))) later_log \<longrightarrow>
        (\<forall>h later. (if h \<noteq> table_generation (dns e2)
            then fst (TunPolicyEngine_decide e2 h flow later) = Err GenerationMismatch
            else fst (TunPolicyEngine_decide e2 h flow later) = Ok (decision (policy e2) None (destination flow))
              \<or> h = g \<and> later < now + ttl \<and> fst (TunPolicyEngine_decide e2 h flow later) = Ok named)))"
proof -
  let ?a = "ep_ip (destination flow)"
  obtain t0 where t0: "FakeDnsTable_new g0 cap = Ok t0" "e0 = \<lparr>policy = p, dns = t0\<rparr>"
    using assms(1) by (auto simp: TunPolicyEngine_new_def result_simps)
  have inv: "fake_dns_inv cap (dns e)"
    using tun_policy.run_inv [OF assms(2)] fake_dns_inv_new [OF t0(1)] t0(2) by simp
  have t1: "FakeDnsTable_allocate (dns e) g d real ttl now = (Ok ?a, dns e1)"
    using assms(3) by (auto simp: TunPolicyEngine_allocate_dns_def split: prod.splits)
  obtain dlog where dlog: "run fake_dns_step (dns e1) dlog (dns e2)" and same: "list_all2 same_dns later_log dlog"
    using policy_run_dns [OF assms(4)] by blast
  from allocated_address_life [OF inv t1 dlog] obtain v where v: "fake_normalize_domain d = Ok v"
    and room: "newer ?a (dns e1) < cap" "map_of (mappings (dns e)) ?a = None \<longrightarrow> newer ?a (dns e1) = 0"
    and life: "\<forall>x later. later < x \<and> x \<le> now + ttl \<and> list_all (keeps x ?a) dlog \<and> newer ?a (dns e1) + allocations dlog < cap
        \<longrightarrow> (\<exists>m. fst (FakeDnsTable_resolve (dns e2) g ?a later) = Ok (Some m) \<and> map_domain m = v \<and> real_address m = real)"
    and once: "list_all (\<lambda>(_, out). out \<noteq> Allocated (Ok ?a)) dlog \<longrightarrow>
        (\<forall>h later m. fst (FakeDnsTable_resolve (dns e2) h ?a later) = Ok (Some m)
          \<longrightarrow> h = g \<and> map_domain m = v \<and> real_address m = real \<and> later < now + ttl)"
    by - (elim exE conjE, rule that)
  define named where "named = decision (policy e2) (Some v) \<lparr>ep_ip = real, ep_port = ep_port (destination flow)\<rparr>"
  have alive: "fst (TunPolicyEngine_decide e2 g flow later) = Ok named"
    if "later < x" "x \<le> now + ttl" "list_all (policy_keeps x ?a) later_log" "newer ?a (dns e1) + dns_allocations later_log < cap" for x later
    using life that same_dns_log(1,2) [OF same] by (fastforce simp: decide_resolve named_def)
  have whenever: "if h \<noteq> table_generation (dns e2)
      then fst (TunPolicyEngine_decide e2 h flow later) = Err GenerationMismatch
      else fst (TunPolicyEngine_decide e2 h flow later) = Ok (decision (policy e2) None (destination flow))
        \<or> h = g \<and> later < now + ttl \<and> fst (TunPolicyEngine_decide e2 h flow later) = Ok named"
    if "list_all (\<lambda>(_, out). out \<noteq> AllocatedDns (Ok ?a)) later_log" for h later
  proof -
    obtain r where r: "fst (FakeDnsTable_resolve (dns e2) h ?a later)
        = (if h \<noteq> table_generation (dns e2) then Err GenerationMismatch else Ok r)"
      by (cases "h = table_generation (dns e2)") (simp_all add: FakeDnsTable_resolve_def Let_def)
    show ?thesis
      using once [THEN mp, OF same_dns_log(3) [OF same that]] r
      by (cases r) (auto simp: decide_resolve named_def)
  qed
  show ?thesis
    by (intro exI [of _ v] exI [of _ named] conjI v room named_def) (use alive whenever in blast)+
qed

theorem fake_address_routed_by_name_witness:
  "\<exists>e1 e2. run policy_step e1 [(AllocateDns 4 '' b'' (V4 2) 10 1, AllocatedDns (Ok (V4 (FIRST_IPV4 + 1))))] e2
    \<and> fst (TunPolicyEngine_decide e2 4
       \<lparr>protocol = Tcp, source = \<lparr>ep_ip = V4 9, ep_port = 9\<rparr>,
        destination = \<lparr>ep_ip = V4 FIRST_IPV4, ep_port = 443\<rparr>\<rparr> 5)
     = Ok \<lparr>route_action = Proxy, route_destination = \<lparr>ep_ip = V4 1, ep_port = 443\<rparr>,
            route_domain = Some ''a''\<rparr>"
proof -
  let ?e = "\<lparr>policy = RoutingPolicy_proxy_all, dns = demo_table\<rparr>"
  let ?flow = "\<lparr>protocol = Tcp, source = \<lparr>ep_ip = V4 9, ep_port = 9\<rparr>,
        destination = \<lparr>ep_ip = V4 FIRST_IPV4, ep_port = 443\<rparr>\<rparr>"
  let ?log = "[(AllocateDns 4 '' b'' (V4 2) 10 1, AllocatedDns (Ok (V4 (FIRST_IPV4 + 1))))]"
  have new: "TunPolicyEngine_new 4 RoutingPolicy_proxy_all 2 = Ok ?e"
    by (simp add: TunPolicyEngine_new_def demo_table_new)
  obtain e1 where e1: "TunPolicyEngine_allocate_dns ?e 4 ''A.'' (V4 1) 10 0
      = (Ok (ep_ip (destination ?flow)), e1)"
    and "\<exists>e2. policy_step (fst (hd ?log)) e1 = Some (snd (hd ?log), e2) \<and> policy e2 = RoutingPolicy_proxy_all"
    by (simp add: TunPolicyEngine_allocate_dns_def fake_dns_eval)
  then obtain e2 where e2: "run policy_step e1 ?log e2" "policy e2 = RoutingPolicy_proxy_all"
    using run_one [of policy_step] by force
  have "list_all (policy_keeps 10 (V4 FIRST_IPV4)) ?log" "dns_allocations ?log = 1"
    by (simp_all add: FIRST_IPV4_def dns_allocations_def)
  moreover have "RoutingPolicy_decide RoutingPolicy_proxy_all c = Proxy" for c
    by (simp add: RoutingPolicy_decide_def RoutingPolicy_proxy_all_def)
  moreover note demo_names(1)
  moreover from fake_address_routed_by_name [OF new run_nil e1 e2(1)]
  obtain v named where "fake_normalize_domain ''A.'' = Ok v"
    and "named = decision (policy e2) (Some v) \<lparr>ep_ip = V4 1, ep_port = ep_port (destination ?flow)\<rparr>"
    and "map_of (mappings (dns ?e)) (ep_ip (destination ?flow)) = None \<longrightarrow> newer (ep_ip (destination ?flow)) (dns e1) = 0"
    and "\<forall>x later. later < x \<and> x \<le> 0 + 10 \<and> list_all (policy_keeps x (ep_ip (destination ?flow))) ?log
          \<and> newer (ep_ip (destination ?flow)) (dns e1) + dns_allocations ?log < 2
        \<longrightarrow> fst (TunPolicyEngine_decide e2 4 ?flow later) = Ok named"
    by - (elim exE conjE, rule that)
  ultimately have "fst (TunPolicyEngine_decide e2 4 ?flow 5) = Ok (decision RoutingPolicy_proxy_all (Some ''a'') \<lparr>ep_ip = V4 1, ep_port = 443\<rparr>)
      \<and> RoutingPolicy_decide RoutingPolicy_proxy_all c = Proxy" for c
    using e2(2) by (auto simp: demo_table_def dest: spec [of _ 10])
  then show ?thesis
    using e2(1) by (intro exI [of _ e1] exI [of _ e2] conjI) (simp_all add: decision_def)
qed

end
