(* ===== verification/Node_Pool.thy ===== *)
theory Node_Pool
  imports Client_Lifecycle Ordered_Map "HOL-Library.List_Lexorder" "HOL-Library.Char_ord"
begin

text \<open>
  \<^verbatim>\<open>crates/velum-client-engine/src/lib.rs\<close>: the pool of client runtimes that belong to one
  profile generation. Any number of calls run concurrently on a pool. A call is cut at its await
  points: a \<open>pool_task\<close> is the point a call has reached together with its local variables, and
  one step resumes one task up to its next await point. The state lock is never held across an
  await, so a section under it is part of one step; the mutex of an entry is held across awaits,
  and a task that holds it is one for which \<open>holds\<close> says so. A future that is dropped before it
  completed is not modelled.

  Entries live in a store, since an \<^verbatim>\<open>Arc<NodeEntry>\<close> is shared between the pool, the calls that
  resolved it and the call that stops it. A runtime is known by the number of its start: the
  factory returns a new runtime each time. What a factory or an opened stream answers, and when,
  is an operation of the environment.
\<close>

section \<open>Data\<close>

record 'cfg ResolvedNode =
  node_id :: string
  node_alias :: string
  node_configuration :: 'cfg

record 'cfg NodeEntry =
  entry_alias :: string
  entry_configuration :: 'cfg
  entry_runtime :: "nat option"

type_synonym entry_ref = nat

record PoolState =
  pool_generation :: u64
  pool_default_node :: string
  pool_nodes :: "(string, entry_ref) btree_map"
  pool_aliases :: "(string, string) btree_map"

definition PoolState_default :: PoolState where
  "PoolState_default =
     \<lparr>pool_generation = 0, pool_default_node = [], pool_nodes = [], pool_aliases = []\<rparr>"

datatype NodePoolError =
    Empty
  | DuplicateNode
  | MissingDefault
  | UnknownNode
  | Superseded
  | ConnectionFailed
  | Runtime RuntimeError

section \<open>Preparing a profile\<close>

fun NodePool_prepare_nodes ::
  "'cfg NodeEntry list \<Rightarrow> (string, unit) btree_map \<Rightarrow> (string, string) btree_map \<Rightarrow>
   (string, entry_ref) btree_map \<Rightarrow> 'cfg ResolvedNode list \<Rightarrow>
   NodePoolError + ('cfg NodeEntry list \<times> (string, string) btree_map \<times> (string, entry_ref) btree_map)" where
  "NodePool_prepare_nodes heap ids aliases entries [] = Ok (heap, aliases, entries)"
| "NodePool_prepare_nodes heap ids aliases entries (node # nodes) =
     (if node_id node = [] \<or> node_alias node = [] \<or> bt_get ids (node_id node) \<noteq> None
         \<or> bt_get aliases (node_alias node) \<noteq> None
      then Err DuplicateNode
      else NodePool_prepare_nodes
        (heap @ [\<lparr>entry_alias = node_alias node, entry_configuration = node_configuration node,
           entry_runtime = None\<rparr>])
        (bt_insert (node_id node) () ids)
        (bt_insert (node_alias node) (node_id node) aliases)
        (bt_insert (node_id node) (length heap) entries)
        nodes)"

definition NodePool_prepare ::
  "'cfg NodeEntry list \<Rightarrow> 'cfg ResolvedNode list \<Rightarrow> string \<Rightarrow>
   NodePoolError + ('cfg NodeEntry list \<times> PoolState)" where
  "NodePool_prepare heap nodes default_node =
     (if nodes = [] then Err Empty
      else and_then (NodePool_prepare_nodes heap [] [] [] nodes) (\<lambda>(heap', aliases, entries).
        and_then
          (if bt_get entries default_node \<noteq> None then Ok default_node
           else ok_or (bt_get aliases default_node) MissingDefault)
          (\<lambda>resolved_default.
            Ok (heap', \<lparr>pool_generation = 0, pool_default_node = resolved_default,
              pool_nodes = entries, pool_aliases = aliases\<rparr>))))"

text \<open>The entry a reference names, as \<^verbatim>\<open>runtime_for_generation\<close> looks it up under the state lock.\<close>

definition NodePool_lookup :: "PoolState \<Rightarrow> string \<Rightarrow> u64 \<Rightarrow> NodePoolError + entry_ref" where
  "NodePool_lookup st reference g =
     (if pool_generation st \<noteq> g then Err Superseded
      else and_then
        (if reference = ''PROXY'' then Ok (pool_default_node st)
         else if bt_get (pool_nodes st) reference \<noteq> None then Ok reference
         else ok_or (bt_get (pool_aliases st) reference) UnknownNode)
        (\<lambda>i. ok_or (bt_get (pool_nodes st) i) UnknownNode))"

section \<open>Calls in progress\<close>

datatype pool_call = RuntimeFor string | OpenStream string

datatype stop_caller = StoppedByActivate u64 | StoppedByStop

datatype 'st pool_outcome =
    OutActivate "NodePoolError + u64"
  | OutStop u64
  | OutRuntime "NodePoolError + nat"
  | OutStream "NodePoolError + 'st"

datatype 'st pool_task =
    ActivateStart entry_ref PoolState
  | ActivateInstall entry_ref PoolState nat
  | ActivateNumber PoolState
  | ActivateReplace u64 PoolState
  | StopEntries "entry_ref list" stop_caller
  | StopRuntime entry_ref nat "entry_ref list" stop_caller
  | StopReturn
  | ReadGeneration pool_call
  | LookupEntry pool_call u64
  | LockEntry pool_call u64 entry_ref
  | StartEntry pool_call u64 entry_ref
  | CheckEntry pool_call u64 entry_ref nat
  | StoreEntry pool_call u64 entry_ref nat u64
  | DiscardRuntime pool_call entry_ref nat
  | UseRuntime u64 nat
  | CheckStream u64 'st
  | Returned "'st pool_outcome"

record ('cfg, 'st) NodePool =
  pool_state :: PoolState
  next_generation :: u64
  heap :: "'cfg NodeEntry list"
  tasks :: "'st pool_task list"
  started :: nat
  stopped :: "nat list"

definition NodePool_new :: "('cfg, 'st) NodePool" where
  "NodePool_new = \<lparr>pool_state = PoolState_default, next_generation = 1, heap = [], tasks = [],
     started = 0, stopped = []\<rparr>"

fun holds :: "'st pool_task \<Rightarrow> entry_ref option" where
  "holds (StopRuntime e r es c) = Some e"
| "holds (StartEntry c g e) = Some e"
| "holds (CheckEntry c g e r) = Some e"
| "holds (StoreEntry c g e r g') = Some e"
| "holds (DiscardRuntime c e r) = Some e"
| "holds _ = None"

definition locked :: "('cfg, 'st) NodePool \<Rightarrow> entry_ref \<Rightarrow> bool" where
  "locked s e = (Some e \<in> holds ` set (tasks s))"

definition set_runtime :: "('cfg, 'st) NodePool \<Rightarrow> entry_ref \<Rightarrow> nat option \<Rightarrow> ('cfg, 'st) NodePool" where
  "set_runtime s e r = s\<lparr>heap := (heap s)[e := (heap s ! e)\<lparr>entry_runtime := r\<rparr>]\<rparr>"

section \<open>Steps of a call\<close>

text \<open>\<^verbatim>\<open>activate\<close> up to the start of the default node.\<close>

definition NodePool_activate ::
  "'cfg ResolvedNode list \<Rightarrow> string \<Rightarrow> ('cfg, 'st) NodePool \<Rightarrow> 'st pool_task \<times> ('cfg, 'st) NodePool" where
  "NodePool_activate nodes default_node s =
     (case NodePool_prepare (heap s) nodes default_node of
        Inl e \<Rightarrow> (Returned (OutActivate (Err e)), s)
      | Inr (heap', prepared) \<Rightarrow>
          (case bt_get (pool_nodes prepared) (pool_default_node prepared) of
             None \<Rightarrow> (Returned (OutActivate (Err MissingDefault)), s)
           | Some e \<Rightarrow> (ActivateStart e prepared, s\<lparr>heap := heap'\<rparr>)))"

text \<open>The rest of \<^verbatim>\<open>activate\<close>: install the runtime in the default entry, draw a generation, replace the state.\<close>

definition NodePool_activate_install ::
  "entry_ref \<Rightarrow> PoolState \<Rightarrow> nat \<Rightarrow> ('cfg, 'st) NodePool \<Rightarrow> 'st pool_task \<times> ('cfg, 'st) NodePool" where
  "NodePool_activate_install e prepared r s =
     (if locked s e then (ActivateInstall e prepared r, s)
      else (ActivateNumber prepared, set_runtime s e (Some r)))"

definition NodePool_activate_number ::
  "PoolState \<Rightarrow> ('cfg, 'st) NodePool \<Rightarrow> 'st pool_task \<times> ('cfg, 'st) NodePool" where
  "NodePool_activate_number prepared s =
     (ActivateReplace (next_generation s) prepared, s\<lparr>next_generation := next_generation s + 1\<rparr>)"

definition NodePool_activate_replace ::
  "u64 \<Rightarrow> PoolState \<Rightarrow> ('cfg, 'st) NodePool \<Rightarrow> 'st pool_task \<times> ('cfg, 'st) NodePool" where
  "NodePool_activate_replace g prepared s =
     (StopEntries (bt_values (pool_nodes (pool_state s))) (StoppedByActivate g),
      s\<lparr>pool_state := prepared\<lparr>pool_generation := g\<rparr>\<rparr>)"

text \<open>\<^verbatim>\<open>stop\<close> draws its generation under the state lock.\<close>

definition NodePool_stop :: "('cfg, 'st) NodePool \<Rightarrow> 'st pool_task \<times> ('cfg, 'st) NodePool" where
  "NodePool_stop s =
     (StopEntries (bt_values (pool_nodes (pool_state s))) StoppedByStop,
      s\<lparr>next_generation := next_generation s + 1,
        pool_state := PoolState_default\<lparr>pool_generation := next_generation s\<rparr>\<rparr>)"

text \<open>\<^verbatim>\<open>stop_state\<close>: the guard of an entry lives until its runtime has stopped.\<close>

fun stop_returned :: "stop_caller \<Rightarrow> 'st pool_task" where
  "stop_returned (StoppedByActivate g) = Returned (OutActivate (Ok g))"
| "stop_returned StoppedByStop = StopReturn"

fun NodePool_stop_state ::
  "entry_ref list \<Rightarrow> stop_caller \<Rightarrow> ('cfg, 'st) NodePool \<Rightarrow> 'st pool_task \<times> ('cfg, 'st) NodePool" where
  "NodePool_stop_state [] c s = (stop_returned c, s)"
| "NodePool_stop_state (e # es) c s =
     (if locked s e then (StopEntries (e # es) c, s)
      else case entry_runtime (heap s ! e) of
        None \<Rightarrow> (StopEntries es c, s)
      | Some r \<Rightarrow> (StopRuntime e r es c, set_runtime s e None))"

definition runtime_stopped :: "nat \<Rightarrow> ('cfg, 'st) NodePool \<Rightarrow> ('cfg, 'st) NodePool" where
  "runtime_stopped r s = s\<lparr>stopped := stopped s @ [r]\<rparr>"

text \<open>\<^verbatim>\<open>runtime_for_generation\<close>, and how \<^verbatim>\<open>runtime_for\<close> and \<^verbatim>\<open>open_stream\<close> go on with its result.\<close>

fun found_runtime :: "pool_call \<Rightarrow> u64 \<Rightarrow> NodePoolError + nat \<Rightarrow> 'st pool_task" where
  "found_runtime (RuntimeFor reference) g r = Returned (OutRuntime r)"
| "found_runtime (OpenStream reference) g (Inl e) = Returned (OutStream (Err e))"
| "found_runtime (OpenStream reference) g (Inr r) = UseRuntime g r"

fun call_reference :: "pool_call \<Rightarrow> string" where
  "call_reference (RuntimeFor reference) = reference"
| "call_reference (OpenStream reference) = reference"

definition NodePool_lookup_entry ::
  "pool_call \<Rightarrow> u64 \<Rightarrow> ('cfg, 'st) NodePool \<Rightarrow> 'st pool_task \<times> ('cfg, 'st) NodePool" where
  "NodePool_lookup_entry c g s =
     (case NodePool_lookup (pool_state s) (call_reference c) g of
        Inl e \<Rightarrow> (found_runtime c g (Err e), s)
      | Inr e \<Rightarrow> (LockEntry c g e, s))"

definition NodePool_lock_entry ::
  "pool_call \<Rightarrow> u64 \<Rightarrow> entry_ref \<Rightarrow> ('cfg, 'st) NodePool \<Rightarrow> 'st pool_task \<times> ('cfg, 'st) NodePool" where
  "NodePool_lock_entry c g e s =
     (if locked s e then (LockEntry c g e, s)
      else case entry_runtime (heap s ! e) of
        Some r \<Rightarrow> (found_runtime c g (Ok r), s)
      | None \<Rightarrow> (StartEntry c g e, s))"

definition NodePool_store_entry ::
  "pool_call \<Rightarrow> u64 \<Rightarrow> entry_ref \<Rightarrow> nat \<Rightarrow> u64 \<Rightarrow> ('cfg, 'st) NodePool
   \<Rightarrow> 'st pool_task \<times> ('cfg, 'st) NodePool" where
  "NodePool_store_entry c g e r current s =
     (if current \<noteq> g then (DiscardRuntime c e r, s)
      else (found_runtime c g (Ok r), set_runtime s e (Some r)))"

text \<open>Resuming a task that waits for a lock or for a runtime to stop.\<close>

fun NodePool_resume :: "'st pool_task \<Rightarrow> ('cfg, 'st) NodePool \<Rightarrow> 'st pool_task \<times> ('cfg, 'st) NodePool" where
  "NodePool_resume (ActivateInstall e prepared r) s = NodePool_activate_install e prepared r s"
| "NodePool_resume (ActivateNumber prepared) s = NodePool_activate_number prepared s"
| "NodePool_resume (ActivateReplace g prepared) s = NodePool_activate_replace g prepared s"
| "NodePool_resume (StopEntries es c) s = NodePool_stop_state es c s"
| "NodePool_resume (StopRuntime e r es c) s = (StopEntries es c, runtime_stopped r s)"
| "NodePool_resume StopReturn s = (Returned (OutStop (pool_generation (pool_state s))), s)"
| "NodePool_resume (ReadGeneration c) s = (LookupEntry c (pool_generation (pool_state s)), s)"
| "NodePool_resume (LookupEntry c g) s = NodePool_lookup_entry c g s"
| "NodePool_resume (LockEntry c g e) s = NodePool_lock_entry c g e s"
| "NodePool_resume (CheckEntry c g e r) s = (StoreEntry c g e r (pool_generation (pool_state s)), s)"
| "NodePool_resume (StoreEntry c g e r current) s = NodePool_store_entry c g e r current s"
| "NodePool_resume (DiscardRuntime c e r) s = (found_runtime c 0 (Err Superseded), runtime_stopped r s)"
| "NodePool_resume (CheckStream g stream) s =
     (Returned (OutStream (if pool_generation (pool_state s) \<noteq> g then Err Superseded else Ok stream)), s)"
| "NodePool_resume t s = (t, s)"

text \<open>The answers of the environment: the factory's \<^verbatim>\<open>start\<close> and the runtime's \<^verbatim>\<open>open_stream\<close>.\<close>

fun NodePool_factory_answers ::
  "NodePoolError option \<Rightarrow> 'st pool_task \<Rightarrow> ('cfg, 'st) NodePool \<Rightarrow> 'st pool_task \<times> ('cfg, 'st) NodePool" where
  "NodePool_factory_answers (Some err) (ActivateStart e prepared) s = (Returned (OutActivate (Err err)), s)"
| "NodePool_factory_answers None (ActivateStart e prepared) s =
     (ActivateInstall e prepared (started s), s\<lparr>started := Suc (started s)\<rparr>)"
| "NodePool_factory_answers (Some err) (StartEntry c g e) s = (found_runtime c g (Err err), s)"
| "NodePool_factory_answers None (StartEntry c g e) s =
     (CheckEntry c g e (started s), s\<lparr>started := Suc (started s)\<rparr>)"
| "NodePool_factory_answers _ t s = (t, s)"

fun NodePool_stream_answers ::
  "RuntimeError + 'st \<Rightarrow> 'st pool_task \<Rightarrow> ('cfg, 'st) NodePool \<Rightarrow> 'st pool_task \<times> ('cfg, 'st) NodePool" where
  "NodePool_stream_answers (Inl err) (UseRuntime g r) s = (Returned (OutStream (Err (Runtime err))), s)"
| "NodePool_stream_answers (Inr stream) (UseRuntime g r) s = (CheckStream g stream, s)"
| "NodePool_stream_answers _ t s = (t, s)"

datatype ('cfg, 'st) pool_op =
    Activate "'cfg ResolvedNode list" string
  | Stop
  | Call pool_call
  | Resume nat
  | FactoryAnswers nat "NodePoolError option"
  | StreamAnswers nat "RuntimeError + 'st"

definition spawn_task :: "'st pool_task \<times> ('cfg, 'st) NodePool \<Rightarrow> ('cfg, 'st) NodePool" where
  "spawn_task ts = (case ts of (t, s) \<Rightarrow> s\<lparr>tasks := tasks s @ [t]\<rparr>)"

definition on_task ::
  "nat \<Rightarrow> ('st pool_task \<Rightarrow> ('cfg, 'st) NodePool \<Rightarrow> 'st pool_task \<times> ('cfg, 'st) NodePool)
   \<Rightarrow> ('cfg, 'st) NodePool \<Rightarrow> ('cfg, 'st) NodePool" where
  "on_task i f s =
     (if i < length (tasks s)
      then case f (tasks s ! i) s of (t, s') \<Rightarrow> s'\<lparr>tasks := (tasks s')[i := t]\<rparr>
      else s)"

fun pool_next :: "('cfg, 'st) pool_op \<Rightarrow> ('cfg, 'st) NodePool \<Rightarrow> ('cfg, 'st) NodePool" where
  "pool_next (Activate nodes default_node) s = spawn_task (NodePool_activate nodes default_node s)"
| "pool_next Stop s = spawn_task (NodePool_stop s)"
| "pool_next (Call c) s = spawn_task (ReadGeneration c, s)"
| "pool_next (Resume i) s = on_task i NodePool_resume s"
| "pool_next (FactoryAnswers i x) s = on_task i (NodePool_factory_answers x) s"
| "pool_next (StreamAnswers i x) s = on_task i (NodePool_stream_answers x) s"

definition pool_step :: "('cfg, 'st) pool_op \<Rightarrow> ('cfg, 'st) NodePool \<Rightarrow> (unit \<times> ('cfg, 'st) NodePool) option" where
  "pool_step op s = Some ((), pool_next op s)"

end
