(* ===== verification/Pool_Properties.thy ===== *)
theory Pool_Properties
  imports Node_Pool
begin

text \<open>
  The ownership discipline of the node pool and what follows from it: runtimes are neither leaked
  nor stopped twice under any interleaving of calls, calls do not deadlock, and references
  resolve to the nodes of the accepted profile. An activation draws its generation before it takes
  the state lock, so two activations may install their states in either order; the theorems hold
  for both.
\<close>

section \<open>The invariant\<close>

text \<open>
  Entries have one owner: the installed state, an activation that has not installed its state yet,
  or a call that is stopping a replaced state and has not come to them.
\<close>

definition state_refs :: "PoolState \<Rightarrow> entry_ref list" where
  "state_refs st = bt_values (pool_nodes st)"

fun private_refs :: "'st pool_task \<Rightarrow> entry_ref list" where
  "private_refs (ActivateStart e p) = state_refs p"
| "private_refs (ActivateInstall e p r) = state_refs p"
| "private_refs (ActivateNumber p) = state_refs p"
| "private_refs (ActivateReplace g p) = state_refs p"
| "private_refs _ = []"

fun stopping_refs :: "'st pool_task \<Rightarrow> entry_ref list" where
  "stopping_refs (StopEntries es c) = es"
| "stopping_refs (StopRuntime e r es c) = es"
| "stopping_refs _ = []"

definition task_refs :: "'st pool_task \<Rightarrow> entry_ref list" where
  "task_refs t = private_refs t @ stopping_refs t"

definition owned :: "('cfg, 'st) NodePool \<Rightarrow> entry_ref list" where
  "owned s = state_refs (pool_state s) @ concat (map task_refs (tasks s))"

text \<open>Runtimes a call has in its hands, and those the entries have.\<close>

fun task_runtimes :: "'st pool_task \<Rightarrow> nat list" where
  "task_runtimes (ActivateInstall e p r) = [r]"
| "task_runtimes (StopRuntime e r es c) = [r]"
| "task_runtimes (CheckEntry c g e r) = [r]"
| "task_runtimes (StoreEntry c g e r g') = [r]"
| "task_runtimes (DiscardRuntime c e r) = [r]"
| "task_runtimes _ = []"

definition entry_runtimes :: "'cfg NodeEntry \<Rightarrow> nat list" where
  "entry_runtimes e = (case entry_runtime e of None \<Rightarrow> [] | Some r \<Rightarrow> [r])"

definition all_runtimes :: "('cfg, 'st) NodePool \<Rightarrow> nat multiset" where
  "all_runtimes s = mset (stopped s) + mset (concat (map task_runtimes (tasks s)))
     + mset (concat (map entry_runtimes (heap s)))"

text \<open>The generation an activation has drawn, and the generation a call works for.\<close>

fun drawn :: "'st pool_task \<Rightarrow> u64 list" where
  "drawn (ActivateReplace g p) = [g]"
| "drawn _ = []"

definition all_drawn :: "('cfg, 'st) NodePool \<Rightarrow> u64 list" where
  "all_drawn s = pool_generation (pool_state s) # concat (map drawn (tasks s))"

fun call_generation :: "'st pool_task \<Rightarrow> u64 list" where
  "call_generation (LookupEntry c g) = [g]"
| "call_generation (LockEntry c g e) = [g]"
| "call_generation (StartEntry c g e) = [g]"
| "call_generation (CheckEntry c g e r) = [g]"
| "call_generation _ = []"

fun call_entry :: "'st pool_task \<Rightarrow> entry_ref list" where
  "call_entry (LockEntry c g e) = [e]"
| "call_entry (StartEntry c g e) = [e]"
| "call_entry (CheckEntry c g e r) = [e]"
| "call_entry (StoreEntry c g e r g') = [e]"
| "call_entry (DiscardRuntime c e r) = [e]"
| "call_entry (StopRuntime e r es c) = [e]"
| "call_entry _ = []"

text \<open>What holds of one task, given the rest of the pool.\<close>

fun task_ok :: "('cfg, 'st) NodePool \<Rightarrow> 'st pool_task \<Rightarrow> bool" where
  "task_ok s (ActivateStart e p) \<longleftrightarrow>
     e \<in> set (state_refs p) \<and> (\<forall>x \<in> set (state_refs p). entry_runtime (heap s ! x) = None)"
| "task_ok s (ActivateInstall e p r) \<longleftrightarrow>
     e \<in> set (state_refs p) \<and> (\<forall>x \<in> set (state_refs p). entry_runtime (heap s ! x) = None)"
| "task_ok s (LockEntry c g e) \<longleftrightarrow>
     (g = pool_generation (pool_state s) \<longrightarrow> e \<in> set (state_refs (pool_state s)))"
| "task_ok s (StartEntry c g e) \<longleftrightarrow>
     (g = pool_generation (pool_state s) \<longrightarrow> e \<in> set (state_refs (pool_state s)))
     \<and> entry_runtime (heap s ! e) = None"
| "task_ok s (CheckEntry c g e r) \<longleftrightarrow>
     (g = pool_generation (pool_state s) \<longrightarrow> e \<in> set (state_refs (pool_state s)))
     \<and> entry_runtime (heap s ! e) = None"
| "task_ok s (StoreEntry c g e r g') \<longleftrightarrow>
     (g' = g \<longrightarrow> e \<in> set (owned s)) \<and> entry_runtime (heap s ! e) = None"
| "task_ok s (DiscardRuntime c e r) \<longleftrightarrow> entry_runtime (heap s ! e) = None"
| "task_ok s (StopRuntime e r es c) \<longleftrightarrow> entry_runtime (heap s ! e) = None"
| "task_ok s _ \<longleftrightarrow> True"

definition holders :: "('cfg, 'st) NodePool \<Rightarrow> entry_ref list" where
  "holders s = List.map_filter holds (tasks s)"

definition own_inv :: "('cfg, 'st) NodePool \<Rightarrow> bool" where
  "own_inv s \<longleftrightarrow> distinct (owned s) \<and> set (owned s) \<subseteq> {..<length (heap s)}
     \<and> (\<forall>e < length (heap s). entry_runtime (heap s ! e) \<noteq> None \<longrightarrow> e \<in> set (owned s))"

definition generation_inv :: "('cfg, 'st) NodePool \<Rightarrow> bool" where
  "generation_inv s \<longleftrightarrow> distinct (all_drawn s)
     \<and> (\<forall>g \<in> set (all_drawn s). unat g < unat (next_generation s))
     \<and> (\<forall>t \<in> set (tasks s). \<forall>g \<in> set (call_generation t).
          unat g < unat (next_generation s) \<and> (\<forall>u \<in> set (tasks s). g \<notin> set (drawn u)))"

definition entry_inv :: "('cfg, 'st) NodePool \<Rightarrow> bool" where
  "entry_inv s \<longleftrightarrow> (\<forall>t \<in> set (tasks s). \<forall>e \<in> set (call_entry t).
     e < length (heap s) \<and> (\<forall>u \<in> set (tasks s). e \<notin> set (private_refs u)))"

definition pool_inv :: "('cfg, 'st) NodePool \<Rightarrow> bool" where
  "pool_inv s \<longleftrightarrow> own_inv s \<and> generation_inv s \<and> entry_inv s \<and> distinct (holders s)
     \<and> (\<forall>t \<in> set (tasks s). task_ok s t) \<and> all_runtimes s = mset [0..<started s]"

definition put_task ::
  "'st pool_task list \<Rightarrow> 'st pool_task list \<Rightarrow> 'st pool_task \<times> ('cfg, 'st) NodePool \<Rightarrow> ('cfg, 'st) NodePool" where
  "put_task A B ts = (case ts of (t, s) \<Rightarrow> s\<lparr>tasks := A @ t # B\<rparr>)"

text \<open>
  Along every history: as long as the 64-bit generation counter has not wrapped around, which
  takes more operations than the bound, the invariant holds.
\<close>

definition pool_history :: "(('cfg, 'st) pool_op \<times> unit) list \<Rightarrow> ('cfg, 'st) NodePool \<Rightarrow> bool" where
  "pool_history log s \<longleftrightarrow>
     (length log < 2 ^ 64 - 1 \<longrightarrow> pool_inv s \<and> unat (next_generation s) \<le> Suc (length log))"

text \<open>All calls have returned, and the runtimes the installed profile holds then.\<close>

fun returned :: "'st pool_task \<Rightarrow> bool" where
  "returned (Returned out) = True"
| "returned _ = False"

definition quiescent :: "('cfg, 'st) NodePool \<Rightarrow> bool" where
  "quiescent s \<longleftrightarrow> list_all returned (tasks s)"

definition pool_runtimes :: "('cfg, 'st) NodePool \<Rightarrow> nat list" where
  "pool_runtimes s = concat (map (\<lambda>e. entry_runtimes (heap s ! e)) (bt_values (pool_nodes (pool_state s))))"

text \<open>
  The operations that only continue calls in progress, when the factory answers \<open>fa i\<close> and the
  runtime's stream \<open>sa i\<close> to call \<open>i\<close>; and a bound on how many steps the calls still take.
\<close>

fun continues :: "(nat \<Rightarrow> NodePoolError option) \<Rightarrow> (nat \<Rightarrow> RuntimeError + 'st) \<Rightarrow> ('cfg, 'st) pool_op \<Rightarrow> bool" where
  "continues fa sa (Resume i) = True"
| "continues fa sa (FactoryAnswers i x) = (x = fa i)"
| "continues fa sa (StreamAnswers i x) = (x = sa i)"
| "continues fa sa _ = False"

fun phase :: "'st pool_task \<Rightarrow> nat" where
  "phase (ActivateStart e p) = 6"
| "phase (ActivateInstall e p r) = 5"
| "phase (ActivateNumber p) = 4"
| "phase (ActivateReplace g p) = 3"
| "phase (StopEntries es c) = 2"
| "phase (StopRuntime e r es c) = 3"
| "phase StopReturn = 1"
| "phase (ReadGeneration c) = 9"
| "phase (LookupEntry c g) = 8"
| "phase (LockEntry c g e) = 7"
| "phase (StartEntry c g e) = 6"
| "phase (CheckEntry c g e r) = 5"
| "phase (StoreEntry c g e r g') = 4"
| "phase (DiscardRuntime c e r) = 3"
| "phase (UseRuntime g r) = 2"
| "phase (CheckStream g x) = 1"
| "phase (Returned out) = 0"

definition remaining :: "('cfg, 'st) NodePool \<Rightarrow> nat" where
  "remaining s = 2 * length (owned s) + sum_list (map phase (tasks s))"

fun blocked :: "('cfg, 'st) NodePool \<Rightarrow> 'st pool_task \<Rightarrow> bool" where
  "blocked s (ActivateInstall e p r) = locked s e"
| "blocked s (StopEntries (e # es) c) = locked s e"
| "blocked s (LockEntry c g e) = locked s e"
| "blocked s _ = False"

text \<open>The entry a node is prepared as.\<close>

definition entry_of :: "'cfg ResolvedNode \<Rightarrow> 'cfg NodeEntry" where
  "entry_of n = \<lparr>entry_alias = node_alias n, entry_configuration = node_configuration n, entry_runtime = None\<rparr>"

text \<open>
  A concrete history: a profile with two nodes is activated, a lookup of the second node starts its
  runtime and reads the generation, then the pool is stopped, the lookup stores its runtime in the
  replaced entry, and the stop, which waited for that entry, stops both runtimes.
\<close>

definition demo_nodes :: "nat ResolvedNode list" where
  "demo_nodes =
     [\<lparr>node_id = ''one'', node_alias = ''primary'', node_configuration = 1\<rparr>,
      \<lparr>node_id = ''two'', node_alias = ''backup'', node_configuration = 2\<rparr>]"

definition demo_activated :: "(nat, nat) NodePool" where
  "demo_activated = \<lparr>
     pool_state = \<lparr>pool_generation = 1, pool_default_node = ''one'',
       pool_nodes = [(''one'', 0), (''two'', 1)],
       pool_aliases = [(''backup'', ''two''), (''primary'', ''one'')]\<rparr>,
     next_generation = 2,
     heap = [\<lparr>entry_alias = ''primary'', entry_configuration = 1, entry_runtime = Some 0\<rparr>,
       \<lparr>entry_alias = ''backup'', entry_configuration = 2, entry_runtime = None\<rparr>],
     tasks = [Returned (OutActivate (Ok 1)), LookupEntry (RuntimeFor ''backup'') 1],
     started = 1, stopped = []\<rparr>"

definition demo_stopping :: "(nat, nat) NodePool" where
  "demo_stopping = demo_activated\<lparr>
     pool_state := PoolState_default\<lparr>pool_generation := 2\<rparr>,
     next_generation := 3,
     tasks := [Returned (OutActivate (Ok 1)), StoreEntry (RuntimeFor ''backup'') 1 1 1 1,
       StopEntries [0, 1] StoppedByStop],
     started := 2\<rparr>"

definition demo_start_ops :: "(nat, nat) pool_op list" where
  "demo_start_ops = [Activate demo_nodes ''primary'', FactoryAnswers 0 None, Resume 0, Resume 0,
     Resume 0, Resume 0, Call (RuntimeFor ''backup''), Resume 1]"

definition demo_lookup_ops :: "(nat, nat) pool_op list" where
  "demo_lookup_ops = [Resume 1, Resume 1, FactoryAnswers 1 None, Resume 1, Stop]"

definition demo_stop_ops :: "(nat, nat) pool_op list" where
  "demo_stop_ops = [Resume 2, Resume 2, Resume 2, Resume 1, Resume 2, Resume 2, Resume 2, Resume 2]"

section \<open>One task moves\<close>

lemma holders_append [simp]:
  "List.map_filter f (xs @ ys) = List.map_filter f xs @ List.map_filter f ys"
  by (induction xs) (auto simp: List.map_filter_simps split: option.splits)

lemma set_holders: "x \<in> set (holders s) \<longleftrightarrow> locked s x"
proof -
  have "x \<in> set (holders s) \<longleftrightarrow> (\<exists>u \<in> set (tasks s). holds u = Some x)"
    by (auto simp: holders_def List.map_filter_def intro!: image_eqI)
  then show ?thesis
    unfolding locked_def by (metis imageE image_eqI)
qed

lemma holds_call_entry: "holds u = Some x \<Longrightarrow> x \<in> set (call_entry u)"
  by (cases u) auto

lemma distinct_count: "distinct xs \<longleftrightarrow> (\<forall>x. count (mset xs) x \<le> 1)"
proof (induction xs)
  case (Cons a xs)
  have "a \<notin> set xs \<longleftrightarrow> count (mset xs) a = 0"
    by (simp add: count_eq_zero_iff)
  then show ?case
    using Cons by (auto simp: le_Suc_eq)
qed simp

lemma own_inv_step:
  assumes "own_inv s" "mset (owned s') \<subseteq># mset (owned s)" "length (heap s') = length (heap s)"
    and "\<And>e. e < length (heap s) \<Longrightarrow> entry_runtime (heap s' ! e) \<noteq> None \<Longrightarrow> e \<in> set (owned s')"
  shows "own_inv s'"
  unfolding own_inv_def
proof (intro conjI allI impI)
  show "distinct (owned s')"
    using assms(1,2) by (meson own_inv_def distinct_count mset_subset_eq_count order_trans)
  show "set (owned s') \<subseteq> {..<length (heap s')}"
    using assms(1,3) set_mset_mono [OF assms(2)] by (auto simp: own_inv_def)
qed (use assms in auto)

lemma generation_inv_step:
  assumes "generation_inv s" "tasks s = A @ t # B" "tasks s' = A @ t' # B"
    and "pool_state s' = pool_state s" "next_generation s' = next_generation s"
    and "drawn t' = drawn t"
    and "set (call_generation t') \<subseteq> set (call_generation t) \<union> {pool_generation (pool_state s)}"
  shows "generation_inv s'"
  using assms unfolding generation_inv_def all_drawn_def
  apply (simp only: map_append list.map concat_append concat.simps)
  apply (intro conjI)
    apply simp
   apply auto
  done

lemma entry_inv_step:
  assumes "entry_inv s" "tasks s = A @ t # B" "tasks s' = A @ t' # B"
    and "length (heap s') = length (heap s)" "set (private_refs t') \<subseteq> set (private_refs t)"
    and "\<And>e. e \<in> set (call_entry t') \<Longrightarrow> e \<in> set (call_entry t)
      \<or> e < length (heap s) \<and> (\<forall>u \<in> set (tasks s). e \<notin> set (private_refs u))"
  shows "entry_inv s'"
  using assms unfolding entry_inv_def by (auto; blast)

lemma task_ok_cong:
  assumes "task_ok s u" "pool_state s' = pool_state s"
    and "\<And>x. holds u = Some x \<Longrightarrow> x \<in> set (owned s) \<Longrightarrow> x \<in> set (owned s')"
    and "\<And>x. holds u = Some x \<or> x \<in> set (private_refs u)
      \<Longrightarrow> entry_runtime (heap s' ! x) = entry_runtime (heap s ! x)"
  shows "task_ok s' u"
  using assms by (cases u) auto

lemma owned_split:
  "tasks s = A @ t # B \<Longrightarrow> mset (owned s) = mset (state_refs (pool_state s))
     + mset (concat (map task_refs A)) + mset (concat (map task_refs B)) + mset (task_refs t)"
  by (simp add: owned_def)

lemma runtimes_split:
  "tasks s = A @ t # B \<Longrightarrow> all_runtimes s = mset (stopped s)
     + mset (concat (map task_runtimes A)) + mset (concat (map task_runtimes B))
     + mset (task_runtimes t) + mset (concat (map entry_runtimes (heap s)))"
  by (simp add: all_runtimes_def)

lemma pool_inv_move_generation:
  assumes inv: "pool_inv s" and A: "tasks s = A @ t # B" and B: "tasks s' = A @ t' # B"
    and st: "pool_state s' = pool_state s"
    and len: "length (heap s') = length (heap s)"
    and gen: "generation_inv s'"
    and priv: "set (private_refs t') \<subseteq> set (private_refs t)"
    and entry: "\<And>e. e \<in> set (call_entry t') \<Longrightarrow> e \<in> set (call_entry t)
      \<or> e < length (heap s) \<and> (\<forall>u \<in> set (tasks s). e \<notin> set (private_refs u))"
    and refs: "mset (task_refs t') \<subseteq># mset (task_refs t)"
    and lock: "\<And>e. holds t' = Some e \<Longrightarrow> holds t = Some e \<or> \<not> locked s e"
    and keep: "\<And>u x. u \<in> set A \<union> set B \<Longrightarrow> holds u = Some x \<Longrightarrow> x \<in> set (owned s) \<Longrightarrow> x \<in> set (owned s')"
    and heap: "\<And>u x. u \<in> set A \<union> set B \<Longrightarrow> holds u = Some x \<or> x \<in> set (private_refs u)
      \<Longrightarrow> entry_runtime (heap s' ! x) = entry_runtime (heap s ! x)"
    and own: "\<And>e. e < length (heap s) \<Longrightarrow> entry_runtime (heap s' ! e) \<noteq> None \<Longrightarrow> e \<in> set (owned s')"
    and ok: "task_ok s' t'"
    and rts: "all_runtimes s' = mset [0..<started s']"
  shows "pool_inv s'"
  unfolding pool_inv_def
proof (intro conjI ballI)
  show "own_inv s'"
  proof (rule own_inv_step [OF _ _ len own])
    show "mset (owned s') \<subseteq># mset (owned s)"
      using refs by (simp add: owned_split [OF A] owned_split [OF B] st)
  qed (use inv in \<open>auto simp: pool_inv_def\<close>)
  show "generation_inv s'"
    by (rule gen)
  show "entry_inv s'"
    using inv by (intro entry_inv_step [OF _ A B len priv entry]) (auto simp: pool_inv_def)
  have "distinct (holders s)"
    using inv by (simp add: pool_inv_def)
  moreover have "holders s = List.map_filter holds A @ List.map_filter holds (t # B)"
    "holders s' = List.map_filter holds A @ List.map_filter holds (t' # B)"
    by (simp_all add: holders_def A B)
  moreover have "\<And>e. holds t' = Some e \<Longrightarrow> holds t = Some e \<or> e \<notin> set (holders s)"
    using lock by (simp add: set_holders)
  ultimately show "distinct (holders s')"
    by (auto simp: List.map_filter_simps split: option.splits)
  fix u assume "u \<in> set (tasks s')"
  then consider "u = t'" | "u \<in> set A \<union> set B"
    by (auto simp: B)
  then show "task_ok s' u"
  proof cases
    case 2
    then have "task_ok s u"
      using inv by (auto simp: pool_inv_def A)
    then show ?thesis
      using keep [OF 2] heap [OF 2] by (intro task_ok_cong [OF _ st])
  qed (simp add: ok)
qed (rule rts)

lemma pool_inv_move:
  assumes inv: "pool_inv s" and A: "tasks s = A @ t # B" and B: "tasks s' = A @ t' # B"
    and st: "pool_state s' = pool_state s" "next_generation s' = next_generation s"
    and len: "length (heap s') = length (heap s)"
    and gen: "drawn t' = drawn t"
      "set (call_generation t') \<subseteq> set (call_generation t) \<union> {pool_generation (pool_state s)}"
    and priv: "set (private_refs t') \<subseteq> set (private_refs t)"
    and entry: "\<And>e. e \<in> set (call_entry t') \<Longrightarrow> e \<in> set (call_entry t)
      \<or> e < length (heap s) \<and> (\<forall>u \<in> set (tasks s). e \<notin> set (private_refs u))"
    and refs: "mset (task_refs t') \<subseteq># mset (task_refs t)"
    and lock: "\<And>e. holds t' = Some e \<Longrightarrow> holds t = Some e \<or> \<not> locked s e"
    and keep: "\<And>u x. u \<in> set A \<union> set B \<Longrightarrow> holds u = Some x \<Longrightarrow> x \<in> set (owned s) \<Longrightarrow> x \<in> set (owned s')"
    and heap: "\<And>u x. u \<in> set A \<union> set B \<Longrightarrow> holds u = Some x \<or> x \<in> set (private_refs u)
      \<Longrightarrow> entry_runtime (heap s' ! x) = entry_runtime (heap s ! x)"
    and own: "\<And>e. e < length (heap s) \<Longrightarrow> entry_runtime (heap s' ! e) \<noteq> None \<Longrightarrow> e \<in> set (owned s')"
    and ok: "task_ok s' t'"
    and rts: "all_runtimes s' = mset [0..<started s']"
  shows "pool_inv s'"
proof (rule pool_inv_move_generation [OF inv A B st(1) len _ priv entry refs lock keep heap own ok rts])
  show "generation_inv s'"
    using inv by (intro generation_inv_step [OF _ A B st gen]) (simp add: pool_inv_def)
qed auto

lemma pool_inv_pc:
  assumes inv: "pool_inv s" and A: "tasks s = A @ t # B"
    and gen: "drawn t' = drawn t"
      "set (call_generation t') \<subseteq> set (call_generation t) \<union> {pool_generation (pool_state s)}"
    and refs: "private_refs t' = private_refs t" "stopping_refs t' = stopping_refs t"
    and rts: "task_runtimes t' = task_runtimes t"
    and entry: "\<And>e. e \<in> set (call_entry t') \<Longrightarrow> e \<in> set (call_entry t)
      \<or> e < length (heap s) \<and> (\<forall>u \<in> set (tasks s). e \<notin> set (private_refs u))"
    and lock: "\<And>e. holds t' = Some e \<Longrightarrow> holds t = Some e \<or> \<not> locked s e"
    and ok: "task_ok (s\<lparr>tasks := A @ t' # B\<rparr>) t'"
  shows "pool_inv (s\<lparr>tasks := A @ t' # B\<rparr>)" (is "pool_inv ?s'")
proof -
  have own: "set (owned ?s') = set (owned s)"
    using A refs by (simp add: owned_def task_refs_def)
  have "all_runtimes ?s' = mset [0..<started ?s']"
    using inv rts by (simp add: pool_inv_def all_runtimes_def A)
  then show ?thesis
    using gen refs entry lock ok inv own
    by (intro pool_inv_move [OF inv A, of ?s' t']) (auto simp: task_refs_def pool_inv_def own_inv_def)
qed

lemma state_ref_public:
  assumes "pool_inv s" "e \<in> set (state_refs (pool_state s))"
  shows "e < length (heap s) \<and> (\<forall>u \<in> set (tasks s). e \<notin> set (private_refs u) \<and> e \<notin> set (stopping_refs u))"
  using assms by (auto simp: pool_inv_def own_inv_def owned_def task_refs_def)

lemma set_runtime_simps [simp]:
  "pool_state (set_runtime s e r) = pool_state s"
  "next_generation (set_runtime s e r) = next_generation s"
  "tasks (set_runtime s e r) = tasks s"
  "started (set_runtime s e r) = started s"
  "stopped (set_runtime s e r) = stopped s"
  "length (heap (set_runtime s e r)) = length (heap s)"
  "e < length (heap s) \<Longrightarrow> entry_runtime (heap (set_runtime s e r) ! x)
     = (if x = e then r else entry_runtime (heap s ! x))"
  by (simp_all add: set_runtime_def nth_list_update)

lemma mset_concat_update:
  "e < length xs \<Longrightarrow> mset (concat (map f (xs[e := y]))) + mset (f (xs ! e))
     = mset (concat (map f xs)) + mset (f y)"
proof (induction xs arbitrary: e)
  case (Cons x xs)
  show ?case
  proof (cases e)
    case (Suc k)
    then show ?thesis
      using Cons.IH [of k] Cons.prems by (simp add: ac_simps)
  qed simp
qed simp

lemma runtimes_set_runtime:
  "e < length (heap s) \<Longrightarrow>
   mset (concat (map entry_runtimes (heap (set_runtime s e r)))) + mset (entry_runtimes (heap s ! e))
     = mset (concat (map entry_runtimes (heap s))) + mset (case r of None \<Rightarrow> [] | Some x \<Rightarrow> [x])"
  using mset_concat_update [of e "heap s" entry_runtimes "(heap s ! e)\<lparr>entry_runtime := r\<rparr>"]
  by (simp add: set_runtime_def entry_runtimes_def)

lemma put_task_same: "tasks s = A @ t # B \<Longrightarrow> put_task A B (t, s) = s"
  by (simp add: put_task_def)

lemma pool_inv_task_ok: "pool_inv s \<Longrightarrow> tasks s = A @ t # B \<Longrightarrow> task_ok s t"
  by (simp add: pool_inv_def)

lemma free_not_held: "\<not> locked s e \<Longrightarrow> tasks s = A @ t # B \<Longrightarrow> holds u = Some x \<Longrightarrow> u \<in> set A \<union> set B \<Longrightarrow> x \<noteq> e"
  unfolding locked_def by (metis Un_iff image_eqI list.set_intros(2) set_append)

lemma held_once:
  assumes "pool_inv s" "tasks s = A @ t # B" "holds t = Some e" "holds u = Some x" "u \<in> set A \<union> set B"
  shows "x \<noteq> e"
proof
  assume "x = e"
  with assms(4) have "the (holds u) = e" "holds u \<noteq> None"
    by auto
  then have "e \<in> set (List.map_filter holds A) \<union> set (List.map_filter holds B)"
    using assms(5) by (force simp: List.map_filter_def)
  then show False
    using assms(1,2,3) by (auto simp: pool_inv_def holders_def List.map_filter_simps)
qed

lemma found_runtime_simps [simp]:
  "holds (found_runtime c g r) = None" "task_runtimes (found_runtime c g r) = []"
  "drawn (found_runtime c g r) = []" "call_generation (found_runtime c g r) = []"
  "call_entry (found_runtime c g r) = []" "private_refs (found_runtime c g r) = []"
  "stopping_refs (found_runtime c g r) = []" "task_ok s (found_runtime c g r)"
  by (cases c; cases r; simp)+

lemma activate_install_inv:
  assumes inv: "pool_inv s" and A: "tasks s = A @ ActivateInstall e p r # B"
  shows "pool_inv (put_task A B (NodePool_activate_install e p r s))"
proof (cases "locked s e")
  case False
  let ?s' = "(set_runtime s e (Some r))\<lparr>tasks := A @ ActivateNumber p # B\<rparr>"
  have ok: "e \<in> set (state_refs p)" "entry_runtime (heap s ! e) = None"
    using pool_inv_task_ok [OF inv A] by auto
  then have len: "e < length (heap s)" and mem: "e \<in> set (owned s)"
    and fresh: "\<And>u. u \<in> set A \<union> set B \<Longrightarrow> e \<notin> set (private_refs u)"
    using inv A by (auto simp: pool_inv_def own_inv_def owned_def task_refs_def)
  have own: "set (owned ?s') = set (owned s)"
    using A by (simp add: owned_def task_refs_def)
  have "all_runtimes ?s' = mset [0..<started ?s']"
    using inv runtimes_set_runtime [OF len, of "Some r"] ok
    by (simp add: pool_inv_def all_runtimes_def A entry_runtimes_def ac_simps)
  moreover note free_not_held [OF False A]
  ultimately have "pool_inv ?s'"
    using inv own mem fresh len
    by (intro pool_inv_move [OF inv A, of ?s' "ActivateNumber p"])
      (auto simp: task_refs_def pool_inv_def own_inv_def split: if_splits)
  then show ?thesis
    using False by (simp add: NodePool_activate_install_def put_task_def)
qed (use inv A in \<open>simp add: NodePool_activate_install_def put_task_same\<close>)

lemma stop_entry_inv:
  assumes inv: "pool_inv s" and A: "tasks s = A @ StopEntries (e # es) c # B" and free: "\<not> locked s e"
  shows "pool_inv (put_task A B (NodePool_stop_state (e # es) c s))"
proof -
  have len: "e < length (heap s)" and fresh: "\<And>u. u \<in> set A \<union> set B \<Longrightarrow> e \<notin> set (private_refs u)"
    using inv A by (auto simp: pool_inv_def own_inv_def owned_def task_refs_def)
  note held = free_not_held [OF free A]
  have pub: "e \<notin> set (private_refs u)" if "u \<in> set (tasks s)" for u
    using that fresh by (auto simp: A)
  show ?thesis
  proof (cases "entry_runtime (heap s ! e)")
    case None
    let ?s' = "s\<lparr>tasks := A @ StopEntries es c # B\<rparr>"
    have own: "set (owned s) = insert e (set (owned ?s'))"
      using A by (auto simp: owned_def task_refs_def)
    have "all_runtimes ?s' = mset [0..<started ?s']"
      using inv by (simp add: pool_inv_def all_runtimes_def A)
    then have "pool_inv ?s'"
      using inv own held None
      by (intro pool_inv_move [OF inv A, of ?s' "StopEntries es c"])
        (auto simp: task_refs_def pool_inv_def own_inv_def)
    then show ?thesis
      using free None by (simp add: put_task_def)
  next
    case (Some r)
    let ?s' = "(set_runtime s e None)\<lparr>tasks := A @ StopRuntime e r es c # B\<rparr>"
    have own: "set (owned s) = insert e (set (owned ?s'))"
      using A by (auto simp: owned_def task_refs_def)
    have "all_runtimes ?s' = mset [0..<started ?s']"
      using inv runtimes_set_runtime [OF len, of None, symmetric] Some
      by (simp add: pool_inv_def all_runtimes_def A entry_runtimes_def)
    then have "pool_inv ?s'"
      using inv own held pub len fresh free
      by (intro pool_inv_move [OF inv A, of ?s' "StopRuntime e r es c"])
        (auto simp: task_refs_def pool_inv_def own_inv_def split: if_splits)
    then show ?thesis
      using free Some by (simp add: put_task_def)
  qed
qed

lemma runtime_stopped_inv:
  assumes inv: "pool_inv s" and A: "tasks s = A @ t # B"
    and t: "(\<exists>e es c. t = StopRuntime e r es c \<and> t' = StopEntries es c)
      \<or> (\<exists>e c. t = DiscardRuntime c e r \<and> t' = found_runtime c 0 (Err Superseded))"
  shows "pool_inv (put_task A B (t', runtime_stopped r s))"
proof -
  have p: "holds t' = None" "task_runtimes t' = []" "task_runtimes t = [r]" "drawn t' = drawn t"
    "call_generation t' = []" "call_entry t' = []" "private_refs t' = private_refs t"
    "stopping_refs t' = stopping_refs t" "\<And>s. task_ok s t'"
    using t by auto
  let ?s' = "put_task A B (t', runtime_stopped r s)"
  have own: "set (owned ?s') = set (owned s)"
    using A p by (simp add: owned_def task_refs_def put_task_def runtime_stopped_def)
  have "all_runtimes ?s' = mset [0..<started ?s']"
    using inv p by (simp add: pool_inv_def all_runtimes_def A put_task_def runtime_stopped_def)
  then show ?thesis
    using inv own p
    by (intro pool_inv_move [OF inv A, of ?s' t'])
      (auto simp: task_refs_def pool_inv_def own_inv_def put_task_def runtime_stopped_def)
qed

lemma store_entry_inv:
  assumes inv: "pool_inv s" and A: "tasks s = A @ StoreEntry c g e r g' # B"
  shows "pool_inv (put_task A B (NodePool_store_entry c g e r g' s))"
proof (cases "g' = g")
  case False
  then show ?thesis
    using pool_inv_pc [OF inv A, of "DiscardRuntime c e r"] pool_inv_task_ok [OF inv A]
    by (simp add: NodePool_store_entry_def put_task_def)
next
  case True
  let ?t' = "found_runtime c g (Ok r)"
  let ?s' = "(set_runtime s e (Some r))\<lparr>tasks := A @ ?t' # B\<rparr>"
  have mem: "e \<in> set (owned s)" and none: "entry_runtime (heap s ! e) = None"
    using pool_inv_task_ok [OF inv A] True by auto
  have len: "e < length (heap s)" and fresh: "\<And>u. u \<in> set A \<union> set B \<Longrightarrow> e \<notin> set (private_refs u)"
    using inv A by (auto simp: pool_inv_def entry_inv_def)
  have held: "holds u = Some x \<Longrightarrow> u \<in> set A \<union> set B \<Longrightarrow> x \<noteq> e" for u x
    using held_once [OF inv A, of e] by simp
  have own: "set (owned ?s') = set (owned s)"
    using A by (simp add: owned_def task_refs_def)
  have "all_runtimes ?s' = mset [0..<started ?s']"
    using inv runtimes_set_runtime [OF len, of "Some r"] none
    by (simp add: pool_inv_def all_runtimes_def A entry_runtimes_def ac_simps)
  then have "pool_inv ?s'"
    using inv own mem held len fresh
    by (intro pool_inv_move [OF inv A, of ?s' ?t'])
      (auto simp: task_refs_def pool_inv_def own_inv_def split: if_splits)
  then show ?thesis
    using True by (simp add: NodePool_store_entry_def put_task_def)
qed

lemma lookup_state_ref:
  assumes "NodePool_lookup st reference g = Ok e"
  shows "g = pool_generation st \<and> e \<in> set (state_refs st)"
  using assms
  by (auto simp: NodePool_lookup_def and_then_def ok_or_def state_refs_def bt_values_def
      dest: bt_get_SomeD split: if_splits sum.splits option.splits intro: rev_image_eqI)

lemma lookup_entry_inv:
  assumes inv: "pool_inv s" and A: "tasks s = A @ LookupEntry c g # B"
  shows "pool_inv (put_task A B (NodePool_lookup_entry c g s))"
proof (cases "NodePool_lookup (pool_state s) (call_reference c) g")
  case (Inl e)
  then show ?thesis
    using pool_inv_pc [OF inv A, of "found_runtime c g (Err e)"]
    by (simp add: NodePool_lookup_entry_def put_task_def)
next
  case (Inr e)
  from lookup_state_ref [OF this] state_ref_public [OF inv, of e]
  have "pool_inv (s\<lparr>tasks := A @ LockEntry c g e # B\<rparr>)"
    by (intro pool_inv_pc [OF inv A]) auto
  then show ?thesis
    using Inr by (simp add: NodePool_lookup_entry_def put_task_def)
qed

lemma lock_entry_inv:
  assumes inv: "pool_inv s" and A: "tasks s = A @ LockEntry c g e # B"
  shows "pool_inv (put_task A B (NodePool_lock_entry c g e s))"
proof (cases "locked s e")
  case free: False
  show ?thesis
  proof (cases "entry_runtime (heap s ! e)")
    case None
    then have "pool_inv (s\<lparr>tasks := A @ StartEntry c g e # B\<rparr>)"
      using free pool_inv_task_ok [OF inv A] by (intro pool_inv_pc [OF inv A]) auto
    then show ?thesis
      using None free by (simp add: NodePool_lock_entry_def put_task_def)
  next
    case (Some r)
    then show ?thesis
      using free pool_inv_pc [OF inv A, of "found_runtime c g (Ok r)"]
      by (simp add: NodePool_lock_entry_def put_task_def)
  qed
qed (use inv A in \<open>simp add: NodePool_lock_entry_def put_task_same\<close>)

lemma check_entry_inv:
  assumes inv: "pool_inv s" and A: "tasks s = A @ CheckEntry c g e r # B"
  shows "pool_inv (put_task A B (StoreEntry c g e r (pool_generation (pool_state s)), s))"
  unfolding put_task_def prod.case
proof (rule pool_inv_pc [OF inv A])
  show "task_ok (s\<lparr>tasks := A @ StoreEntry c g e r (pool_generation (pool_state s)) # B\<rparr>)
      (StoreEntry c g e r (pool_generation (pool_state s)))"
    using pool_inv_task_ok [OF inv A] by (auto simp: owned_def)
qed auto

text \<open>A successful start: the new runtime has the next number.\<close>

lemma factory_success_inv:
  assumes inv: "pool_inv s" and A: "tasks s = A @ t # B"
    and t: "(\<exists>e p. t = ActivateStart e p \<and> t' = ActivateInstall e p (started s))
      \<or> (\<exists>c g e. t = StartEntry c g e \<and> t' = CheckEntry c g e (started s))"
  shows "pool_inv (put_task A B (t', s\<lparr>started := Suc (started s)\<rparr>))" (is "pool_inv ?s'")
proof -
  have p: "holds t' = holds t" "task_runtimes t' = [started s]" "task_runtimes t = []"
    "drawn t' = drawn t" "call_generation t' = call_generation t" "call_entry t' = call_entry t"
    "private_refs t' = private_refs t" "stopping_refs t' = stopping_refs t"
    using t by auto
  have own: "set (owned ?s') = set (owned s)"
    using A p by (simp add: owned_def task_refs_def put_task_def)
  have "all_runtimes ?s' = mset [0..<started ?s']"
    using inv p by (simp add: pool_inv_def all_runtimes_def A put_task_def)
  moreover have "task_ok ?s' t'"
    using t pool_inv_task_ok [OF inv A] by (auto simp: put_task_def)
  ultimately show ?thesis
    using inv own p
    by (intro pool_inv_move [OF inv A, of ?s' t'])
      (auto simp: task_refs_def pool_inv_def own_inv_def put_task_def)
qed

text \<open>A failed start of the default node drops the prepared state, whose entries have no runtime.\<close>

lemma activate_failed_inv:
  assumes inv: "pool_inv s" and A: "tasks s = A @ ActivateStart e p # B"
  shows "pool_inv (put_task A B (Returned (OutActivate (Err err)), s))" (is "pool_inv ?s'")
proof -
  have none: "\<And>x. x \<in> set (state_refs p) \<Longrightarrow> entry_runtime (heap s ! x) = None"
    using pool_inv_task_ok [OF inv A] by auto
  have own: "set (owned s) = set (state_refs p) \<union> set (owned ?s')"
    using A by (auto simp: owned_def task_refs_def put_task_def)
  have "x \<notin> set (state_refs p)" if "u \<in> set A \<union> set B" "holds u = Some x" for u x
    using inv that holds_call_entry [OF that(2)] by (auto simp: pool_inv_def entry_inv_def A)
  moreover have "all_runtimes ?s' = mset [0..<started ?s']"
    using inv by (simp add: pool_inv_def all_runtimes_def A put_task_def)
  ultimately show ?thesis
    using inv own none
    by (intro pool_inv_move [OF inv A, of ?s' "Returned (OutActivate (Err err))"])
      (force simp: task_refs_def pool_inv_def own_inv_def put_task_def)+
qed

section \<open>Generations\<close>

lemma activate_number_inv:
  assumes inv: "pool_inv s" and A: "tasks s = A @ ActivateNumber p # B"
    and bound: "Suc (unat (next_generation s)) < 2 ^ 64"
  shows "pool_inv (put_task A B (NodePool_activate_number p s))" (is "pool_inv ?s'")
proof -
  let ?t' = "ActivateReplace (next_generation s) p"
  have nx: "unat (next_generation s + 1) = Suc (unat (next_generation s))"
    using bound by (simp add: unat_word_ariths)
  have gi: "generation_inv s"
    using inv by (simp add: pool_inv_def)
  have "generation_inv ?s'"
    using gi nx unfolding generation_inv_def NodePool_activate_number_def put_task_def all_drawn_def A
    by (force simp: less_Suc_eq)
  moreover have "set (owned ?s') = set (owned s)"
    using A by (simp add: owned_def task_refs_def put_task_def NodePool_activate_number_def)
  moreover have "all_runtimes ?s' = mset [0..<started ?s']"
    using inv by (simp add: pool_inv_def all_runtimes_def A put_task_def NodePool_activate_number_def)
  ultimately show ?thesis
    using inv
    by (intro pool_inv_move_generation [OF inv A, of ?s' ?t'])
      (auto simp: task_refs_def pool_inv_def own_inv_def put_task_def NodePool_activate_number_def)
qed

text \<open>The installed state is exchanged: its entries go to the call that stops them.\<close>

lemma replace_inv:
  assumes inv: "pool_inv s" and A: "tasks s = A @ t # B" and B: "tasks s' = A @ StopEntries es c # B"
    and same: "heap s' = heap s" "started s' = started s" "stopped s' = stopped s"
    and t: "task_runtimes t = []" "holds t = None"
    and refs: "mset (state_refs (pool_state s')) + mset es = mset (state_refs (pool_state s)) + mset (task_refs t)"
    and gen: "generation_inv s'"
    and fresh: "\<And>u. u \<in> set A \<union> set B \<Longrightarrow> pool_generation (pool_state s') \<notin> set (call_generation u)"
  shows "pool_inv s'"
proof -
  have "mset (owned s') = mset (owned s)"
    using refs by (simp add: owned_split [OF A] owned_split [OF B] task_refs_def)
  then have own: "set (owned s') = set (owned s)" "distinct (owned s') = distinct (owned s)"
    by (auto dest: mset_eq_setD mset_eq_imp_distinct_iff)
  have "task_ok s' u" if "u \<in> set A \<union> set B" for u
  proof -
    have "task_ok s u"
      using inv that by (auto simp: pool_inv_def A)
    then show ?thesis
      using fresh [OF that] own by (cases u) (auto simp: same)
  qed
  moreover have "holders s' = holders s"
    using t by (simp add: holders_def A B List.map_filter_simps)
  moreover have "entry_inv s'"
    using inv by (auto simp: pool_inv_def entry_inv_def A B same)
  moreover have "all_runtimes s' = all_runtimes s"
    using t by (simp add: all_runtimes_def A B same)
  ultimately show ?thesis
    using inv own gen by (auto simp: pool_inv_def own_inv_def B same)
qed

lemma activate_replace_inv:
  assumes inv: "pool_inv s" and A: "tasks s = A @ ActivateReplace g p # B"
  shows "pool_inv (put_task A B (NodePool_activate_replace g p s))" (is "pool_inv ?s'")
proof (rule replace_inv [OF inv A])
  have gi: "generation_inv s"
    using inv by (simp add: pool_inv_def)
  then show "generation_inv ?s'"
    unfolding generation_inv_def NodePool_activate_replace_def put_task_def all_drawn_def A by auto
  show "pool_generation (pool_state ?s') \<notin> set (call_generation u)" if "u \<in> set A \<union> set B" for u
    using gi that by (auto simp: generation_inv_def NodePool_activate_replace_def put_task_def A)
qed (auto simp: put_task_def NodePool_activate_replace_def state_refs_def task_refs_def)

lemma pool_stop_inv:
  assumes inv: "pool_inv s" and A: "tasks s = A @ StopReturn # B"
    and bound: "Suc (unat (next_generation s)) < 2 ^ 64"
  shows "pool_inv (put_task A B (NodePool_stop s))" (is "pool_inv ?s'")
proof (rule replace_inv [OF inv A])
  have nx: "unat (next_generation s + 1) = Suc (unat (next_generation s))"
    using bound by (simp add: unat_word_ariths)
  have gi: "generation_inv s"
    using inv by (simp add: pool_inv_def)
  then show "generation_inv ?s'"
    using nx unfolding generation_inv_def NodePool_stop_def put_task_def all_drawn_def A
    by (force simp: less_Suc_eq)
  show "pool_generation (pool_state ?s') \<notin> set (call_generation u)" if "u \<in> set A \<union> set B" for u
    using gi that by (force simp: generation_inv_def NodePool_stop_def put_task_def A)
qed (auto simp: put_task_def NodePool_stop_def state_refs_def task_refs_def PoolState_default_def bt_values_def)

section \<open>Prepared profiles\<close>

lemma not_in_image: "f a \<notin> f ` S \<longleftrightarrow> (\<forall>x \<in> S. f x \<noteq> f a)"
  unfolding image_iff by metis

lemma unit_option: "x \<noteq> Some () \<longleftrightarrow> x = None"
  by (cases x) auto

lemma prepare_nodes_ok_iff:
  "\<not> isl (NodePool_prepare_nodes h ids al en nodes) \<longleftrightarrow>
     (\<forall>n \<in> set nodes. node_id n \<noteq> [] \<and> node_alias n \<noteq> [] \<and> bt_get ids (node_id n) = None
        \<and> bt_get al (node_alias n) = None)
     \<and> distinct (map node_id nodes) \<and> distinct (map node_alias nodes)"
proof (induction nodes arbitrary: h ids al en)
  case (Cons n nodes)
  show ?case
  proof (cases "node_id n = [] \<or> node_alias n = [] \<or> bt_get ids (node_id n) \<noteq> None
      \<or> bt_get al (node_alias n) \<noteq> None")
    case False
    then have "NodePool_prepare_nodes h ids al en (n # nodes) = NodePool_prepare_nodes (h @ [entry_of n])
        (bt_insert (node_id n) () ids) (bt_insert (node_alias n) (node_id n) al)
        (bt_insert (node_id n) (length h) en) nodes"
      by (simp add: entry_of_def)
    then show ?thesis
      using False by (simp only: Cons.IH) (auto simp: bt_get_insert unit_option not_in_image)
  qed auto
qed simp

lemma prepare_nodes_store:
  assumes "NodePool_prepare_nodes h ids al en nodes = Ok (h', al', en')" "bt_get ids = (\<lambda>k. map_option (\<lambda>_. ()) (bt_get en k))"
  shows "h' = h @ map entry_of nodes \<and> mset (bt_values en') = mset (bt_values en) + mset [length h..<length h']"
  using assms
proof (induction nodes arbitrary: h ids al en)
  case (Cons n nodes)
  let ?en = "bt_insert (node_id n) (length h) en"
  have new: "bt_get en (node_id n) = None"
    using Cons.prems by (auto split: if_splits)
  have vals: "mset (bt_values ?en) = add_mset (length h) (mset (bt_values en))"
    using new
  proof (induction en)
    case (Cons e en)
    then show ?case by (cases e) (auto simp: bt_values_def split: if_splits)
  qed (simp add: bt_values_def)
  have IH: "h' = (h @ [entry_of n]) @ map entry_of nodes
      \<and> mset (bt_values en') = mset (bt_values ?en) + mset [length (h @ [entry_of n])..<length h']"
    using Cons.prems
    by (intro Cons.IH [of _ "bt_insert (node_id n) () ids" "bt_insert (node_alias n) (node_id n) al"])
      (auto simp: entry_of_def bt_get_insert fun_eq_iff split: if_splits)
  then have "length h < length h'"
    by simp
  then have "mset [length h..<length h'] = add_mset (length h) (mset [length (h @ [entry_of n])..<length h'])"
    by (metis length_append_singleton mset.simps(2) upt_conv_Cons)
  with IH vals show ?case
    by (simp only: append_assoc append.simps list.map union_mset_add_mset_left union_mset_add_mset_right simp_thms)
qed simp

lemma prepare_nodes_get:
  assumes "NodePool_prepare_nodes h ids al en nodes = Ok (h', al', en')"
  shows "(\<forall>k. k \<notin> node_id ` set nodes \<longrightarrow> bt_get en' k = bt_get en k)
    \<and> (\<forall>k. k \<notin> node_alias ` set nodes \<longrightarrow> bt_get al' k = bt_get al k)
    \<and> (\<forall>i < length nodes. bt_get en' (node_id (nodes ! i)) = Some (length h + i)
         \<and> bt_get al' (node_alias (nodes ! i)) = Some (node_id (nodes ! i)))"
  using assms
proof (induction nodes arbitrary: h ids al en)
  case (Cons n nodes)
  have rest: "NodePool_prepare_nodes (h @ [entry_of n]) (bt_insert (node_id n) () ids)
      (bt_insert (node_alias n) (node_id n) al) (bt_insert (node_id n) (length h) en) nodes
      = Ok (h', al', en')"
    using Cons.prems by (auto simp: entry_of_def split: if_splits)
  have new: "node_id n \<notin> node_id ` set nodes" "node_alias n \<notin> node_alias ` set nodes"
    using Cons.prems prepare_nodes_ok_iff [of h ids al en "n # nodes"] by (simp_all del: NodePool_prepare_nodes.simps)
  note IH = Cons.IH [OF rest]
  have "bt_get en' (node_id ((n # nodes) ! i)) = Some (length h + i)
      \<and> bt_get al' (node_alias ((n # nodes) ! i)) = Some (node_id ((n # nodes) ! i))"
    if "i < length (n # nodes)" for i
    using that IH new by (cases i) (auto simp: bt_get_insert)
  then show ?case
    using IH by (simp add: bt_get_insert)
qed simp

lemma prepare_OkD:
  assumes "NodePool_prepare h nodes d = Ok (h', p)"
  obtains "NodePool_prepare_nodes h [] [] [] nodes = Ok (h', pool_aliases p, pool_nodes p)"
    "pool_generation p = 0"
    "pool_default_node p = (if bt_get (pool_nodes p) d \<noteq> None then d else the (bt_get (pool_aliases p) d))"
    "bt_get (pool_nodes p) d \<noteq> None \<or> bt_get (pool_aliases p) d \<noteq> None"
  using assms
  by (auto simp: NodePool_prepare_def and_then_def ok_or_def split: if_splits sum.splits option.splits)

lemma prepare_store:
  assumes "NodePool_prepare h nodes d = Ok (h', p)"
  shows "h' = h @ map entry_of nodes \<and> mset (state_refs p) = mset [length h..<length h']"
proof -
  obtain "NodePool_prepare_nodes h [] [] [] nodes = Ok (h', pool_aliases p, pool_nodes p)"
    by (rule prepare_OkD [OF assms])
  from prepare_nodes_store [OF this] show ?thesis
    by (simp add: state_refs_def bt_values_def fun_eq_iff)
qed

section \<open>New calls\<close>

lemma spawn_inv:
  assumes "pool_inv s"
  shows "pool_inv (s\<lparr>tasks := tasks s @ [StopReturn]\<rparr>)" (is "pool_inv ?s'")
proof -
  have own: "owned ?s' = owned s"
    by (simp add: owned_def task_refs_def)
  have ok: "task_ok ?s' u" if "u \<in> set (tasks s)" for u
  proof (rule task_ok_cong)
    show "task_ok s u"
      using assms that by (simp add: pool_inv_def)
  qed (simp_all add: own)
  have "holders ?s' = holders s"
    by (simp add: holders_def List.map_filter_simps)
  moreover have "all_runtimes ?s' = all_runtimes s"
    by (simp add: all_runtimes_def)
  moreover have "generation_inv ?s'" "entry_inv ?s'" "own_inv ?s'"
    using assms own by (simp_all add: pool_inv_def generation_inv_def all_drawn_def entry_inv_def own_inv_def)
  ultimately show ?thesis
    using assms ok by (auto simp: pool_inv_def)
qed

lemma activate_started_inv:
  assumes inv: "pool_inv s" and A: "tasks s = A @ StopReturn # B"
    and p: "NodePool_prepare (heap s) nodes d = Ok (heap', p)"
    and e: "bt_get (pool_nodes p) (pool_default_node p) = Some e"
  shows "pool_inv (put_task A B (ActivateStart e p, s\<lparr>heap := heap'\<rparr>))" (is "pool_inv ?s'")
proof -
  note store = prepare_store [OF p]
  have refs: "set (state_refs p) = {length (heap s)..<length heap'}" "distinct (state_refs p)"
    using mset_eq_setD [OF conjunct2 [OF store]] mset_eq_imp_distinct_iff [OF conjunct2 [OF store]]
    by simp_all
  have e_in: "e \<in> set (state_refs p)"
    using bt_get_SomeD [OF e] by (force simp: state_refs_def bt_values_def)
  have old: "x < length (heap s) \<Longrightarrow> heap' ! x = heap s ! x" for x
    using store by (simp add: nth_append)
  have new: "x \<in> set (state_refs p) \<Longrightarrow> entry_runtime (heap' ! x) = None" for x
    using refs store by (auto simp: nth_append entry_of_def)
  have len: "length (heap s) \<le> length heap'"
    using store by simp
  have own: "mset (owned ?s') = mset (owned s) + mset (state_refs p)"
    by (simp add: owned_def put_task_def A task_refs_def)
  then have own_set: "set (owned ?s') = set (owned s) \<union> set (state_refs p)"
    by (metis set_mset_mset set_mset_union)
  have oi: "own_inv s" "entry_inv s"
    using inv by (simp_all add: pool_inv_def)
  then have "set (owned s) \<inter> set (state_refs p) = {}"
    using refs by (auto simp: own_inv_def)
  then have "distinct (owned s @ state_refs p)"
    using oi refs by (simp add: own_inv_def)
  then have "distinct (owned ?s')"
    using own by (metis mset_append mset_eq_imp_distinct_iff)
  then have "own_inv ?s'"
    using oi refs own_set old store len unfolding own_inv_def
    by (auto simp: put_task_def nth_append entry_of_def split: if_splits)
  moreover have "entry_inv ?s'"
    using oi refs len by (fastforce simp: entry_inv_def put_task_def A)
  moreover have "task_ok ?s' u" if "u \<in> set A \<union> set B" for u
  proof (rule task_ok_cong)
    show "task_ok s u"
      using inv that by (auto simp: pool_inv_def A)
    show "entry_runtime (heap ?s' ! x) = entry_runtime (heap s ! x)"
      if "holds u = Some x \<or> x \<in> set (private_refs u)" for x
    proof -
      have "x < length (heap s)"
        using that \<open>u \<in> set A \<union> set B\<close> oi A holds_call_entry [of u x]
        by (auto simp: own_inv_def entry_inv_def owned_def task_refs_def)
      then show ?thesis
        using old by (simp add: put_task_def)
    qed
  qed (use own_set in \<open>auto simp: put_task_def\<close>)
  moreover have "task_ok ?s' (ActivateStart e p)"
    using e_in new by (simp add: put_task_def)
  moreover have "all_runtimes ?s' = all_runtimes s"
    using store by (simp add: all_runtimes_def put_task_def A entry_runtimes_def entry_of_def)
  moreover have "generation_inv ?s'" "holders ?s' = holders s"
    using inv by (auto simp: pool_inv_def generation_inv_def all_drawn_def put_task_def A
        holders_def List.map_filter_simps)
  ultimately show ?thesis
    using inv by (auto simp: pool_inv_def put_task_def)
qed

section \<open>Every step\<close>

lemma resume_inv:
  assumes inv: "pool_inv s" and A: "tasks s = A @ t # B"
    and bound: "Suc (unat (next_generation s)) < 2 ^ 64"
  shows "pool_inv (put_task A B (NodePool_resume t s))"
proof (cases t)
  case (StopEntries es c)
  show ?thesis
  proof (cases "es = [] \<or> locked s (hd es)")
    case True
    then show ?thesis
    proof (cases es)
      case Nil
      have "pool_inv (s\<lparr>tasks := A @ stop_returned c # B\<rparr>)"
        using inv A StopEntries Nil by (intro pool_inv_pc [of s A t]) (cases c; auto)+
      then show ?thesis
        by (simp add: StopEntries Nil put_task_def)
    qed (use inv A StopEntries in \<open>auto simp: put_task_same\<close>)
  next
    case False
    then show ?thesis
      using stop_entry_inv [OF inv, of A "hd es" "tl es" c B] A StopEntries by (cases es) auto
  qed
next
  case (CheckStream g st)
  have "pool_inv (s\<lparr>tasks := A @ Returned x # B\<rparr>)" for x
    using inv A CheckStream by (intro pool_inv_pc [of s A t]) auto
  then show ?thesis
    by (simp add: CheckStream put_task_def)
next
  case StopReturn
  have "pool_inv (s\<lparr>tasks := A @ Returned x # B\<rparr>)" for x
    using inv A StopReturn by (intro pool_inv_pc [of s A t]) auto
  then show ?thesis
    by (simp add: StopReturn put_task_def)
next
  case (ReadGeneration c)
  have "pool_inv (s\<lparr>tasks := A @ LookupEntry c (pool_generation (pool_state s)) # B\<rparr>)"
    using inv A ReadGeneration by (intro pool_inv_pc [of s A t]) auto
  then show ?thesis
    by (simp add: ReadGeneration put_task_def)
next
  case (StopRuntime e r es c)
  then show ?thesis
    using runtime_stopped_inv [OF inv A, of r "StopEntries es c"] by simp
next
  case (DiscardRuntime c e r)
  then show ?thesis
    using runtime_stopped_inv [OF inv A, of r "found_runtime c 0 (Err Superseded)"] by simp
qed (use inv A bound in \<open>simp_all add: put_task_same activate_install_inv activate_number_inv
      activate_replace_inv lookup_entry_inv lock_entry_inv check_entry_inv store_entry_inv\<close>)

lemma factory_answers_inv:
  assumes inv: "pool_inv s" and A: "tasks s = A @ t # B"
  shows "pool_inv (put_task A B (NodePool_factory_answers x t s))"
proof (cases x)
  case None
  then show ?thesis
    using inv A factory_success_inv [OF inv A]
    by (cases t) (simp_all add: put_task_same)
next
  case (Some err)
  show ?thesis
  proof (cases t)
    case (StartEntry c g e)
    have "pool_inv (s\<lparr>tasks := A @ found_runtime c g (Err err) # B\<rparr>)"
      using inv A StartEntry by (intro pool_inv_pc [of s A t]) auto
    then show ?thesis
      by (simp add: Some StartEntry put_task_def)
  qed (use inv A Some in \<open>simp_all add: put_task_same activate_failed_inv\<close>)
qed

lemma stream_answers_inv:
  assumes inv: "pool_inv s" and A: "tasks s = A @ t # B"
  shows "pool_inv (put_task A B (NodePool_stream_answers x t s))"
proof (cases t)
  case (UseRuntime g r)
  have "pool_inv (s\<lparr>tasks := A @ CheckStream g y # B\<rparr>)" "pool_inv (s\<lparr>tasks := A @ Returned z # B\<rparr>)" for y z
    using inv A UseRuntime by (intro pool_inv_pc [of s A t]; auto)+
  then show ?thesis
    by (cases x) (simp_all add: UseRuntime put_task_def)
qed (use inv A in \<open>cases x; simp add: put_task_same\<close>)+

lemmas resume_defs = NodePool_activate_install_def NodePool_activate_number_def
  NodePool_activate_replace_def NodePool_lookup_entry_def NodePool_lock_entry_def
  NodePool_store_entry_def runtime_stopped_def

lemma stop_state_frame [simp]:
  "tasks (snd (NodePool_stop_state es c s)) = tasks s"
  "next_generation (snd (NodePool_stop_state es c s)) = next_generation s"
  by (cases es; simp split: option.splits)+

lemma resume_frame [simp]: "tasks (snd (NodePool_resume t s)) = tasks s"
  by (cases t) (auto simp: resume_defs split: sum.splits option.splits)

lemma factory_frame [simp]:
  "tasks (snd (NodePool_factory_answers x t s)) = tasks s"
  "next_generation (snd (NodePool_factory_answers x t s)) = next_generation s"
  by (cases x; cases t; simp)+

lemma stream_frame [simp]:
  "tasks (snd (NodePool_stream_answers y t s)) = tasks s"
  "next_generation (snd (NodePool_stream_answers y t s)) = next_generation s"
  by (cases y; cases t; simp)+

lemma unat_succ_le: "unat (g + 1 :: u64) \<le> Suc (unat g)"
  by (simp add: unat_word_ariths)

lemma resume_next: "unat (next_generation (snd (NodePool_resume t s))) \<le> Suc (unat (next_generation s))"
  by (cases t) (auto simp: resume_defs unat_succ_le split: sum.splits option.splits)

lemma on_task_put:
  assumes "i < length (tasks s)" "\<And>t. tasks (snd (f t s)) = tasks s"
  obtains A t B where "tasks s = A @ t # B" "length A = i" "on_task i f s = put_task A B (f t s)"
proof (rule that)
  show "tasks s = take i (tasks s) @ tasks s ! i # drop (Suc i) (tasks s)"
    using assms(1) by (rule id_take_nth_drop)
  show "length (take i (tasks s)) = i"
    using assms(1) by simp
  show "on_task i f s = put_task (take i (tasks s)) (drop (Suc i) (tasks s)) (f (tasks s ! i) s)"
    using assms(1) assms(2) [of "tasks s ! i"]
    by (auto simp: on_task_def put_task_def upd_conv_take_nth_drop split: prod.splits)
qed

lemma put_task_next: "next_generation (put_task A B x) = next_generation (snd x)"
  by (cases x) (simp add: put_task_def)

lemma on_task_inv:
  assumes "pool_inv s" "\<And>t. tasks (snd (f t s)) = tasks s"
    and "\<And>A t B. tasks s = A @ t # B \<Longrightarrow> pool_inv (put_task A B (f t s))"
    and "\<And>t. unat (next_generation (snd (f t s))) \<le> Suc (unat (next_generation s))"
  shows "pool_inv (on_task i f s) \<and> unat (next_generation (on_task i f s)) \<le> Suc (unat (next_generation s))"
proof (cases "i < length (tasks s)")
  case True
  then obtain A t B where "tasks s = A @ t # B" "on_task i f s = put_task A B (f t s)"
    by (rule on_task_put [of i s f]) (simp_all add: assms(2))
  then show ?thesis
    by (simp add: assms(3,4) put_task_next)
qed (use assms(1) in \<open>simp add: on_task_def\<close>)

lemma spawn_task_put:
  assumes "tasks (snd x) = tasks s"
  shows "spawn_task x = put_task (tasks s) [] x"
  using assms by (cases x) (simp add: spawn_task_def put_task_def)

lemma pool_next_inv:
  assumes inv: "pool_inv s" and bound: "Suc (unat (next_generation s)) < 2 ^ 64"
  shows "pool_inv (pool_next op s) \<and> unat (next_generation (pool_next op s)) \<le> Suc (unat (next_generation s))"
proof (cases op)
  case (Activate nodes d)
  let ?s = "s\<lparr>tasks := tasks s @ [StopReturn]\<rparr>"
  note sp = spawn_inv [OF inv]
  have ret: "pool_inv (s\<lparr>tasks := tasks s @ [Returned out]\<rparr>)" for out
    using pool_inv_pc [OF sp, of "tasks s" StopReturn "[]" "Returned out"] by simp
  show ?thesis
    using ret activate_started_inv [OF sp, of "tasks s" "[]"]
    by (auto simp: Activate NodePool_activate_def spawn_task_def put_task_def split: sum.splits option.splits)
next
  case Stop
  have "pool_inv (put_task (tasks s) [] (NodePool_stop (s\<lparr>tasks := tasks s @ [StopReturn]\<rparr>)))"
    using bound by (intro pool_stop_inv spawn_inv [OF inv]) auto
  then show ?thesis
    by (simp add: Stop spawn_task_def put_task_def NodePool_stop_def unat_succ_le)
next
  case (Call c)
  have "pool_inv (s\<lparr>tasks := tasks s @ [ReadGeneration c]\<rparr>)"
    using pool_inv_pc [OF spawn_inv [OF inv], of "tasks s" StopReturn "[]" "ReadGeneration c"] by simp
  then show ?thesis
    by (simp add: Call spawn_task_def)
next
  case (Resume i)
  show ?thesis
    unfolding Resume pool_next.simps
    by (rule on_task_inv [OF inv]) (simp_all add: resume_inv [OF inv _ bound] resume_next)
next
  case (FactoryAnswers i x)
  show ?thesis
    unfolding FactoryAnswers pool_next.simps
    by (rule on_task_inv [OF inv]) (simp_all add: factory_answers_inv [OF inv])
next
  case (StreamAnswers i x)
  show ?thesis
    unfolding StreamAnswers pool_next.simps
    by (rule on_task_inv [OF inv]) (simp_all add: stream_answers_inv [OF inv])
qed

interpretation node_pool: history_system pool_step "\<lambda>_. True" pool_history
proof
  fix s :: "('a, 'b) NodePool" and log and op :: "('a, 'b) pool_op" and out s'
  assume h: "pool_history log s" and step: "pool_step op s = Some (out, s')"
  show "pool_history (log @ [(op, out)]) s'"
    unfolding pool_history_def
  proof
    assume "length (log @ [(op, out)]) < 2 ^ 64 - 1"
    then have len: "Suc (Suc (length log)) < 2 ^ 64" "length log < 2 ^ 64 - 1"
      by simp_all
    with h have "pool_inv s" "unat (next_generation s) \<le> Suc (length log)"
      by (simp_all add: pool_history_def)
    then show "pool_inv s' \<and> unat (next_generation s') \<le> Suc (length (log @ [(op, out)]))"
      using pool_next_inv [of s op] len(1) step by (auto simp: pool_step_def)
  qed
qed simp

lemma new_pool_history: "pool_history [] NodePool_new"
  by (simp add: pool_history_def pool_inv_def own_inv_def generation_inv_def entry_inv_def
      NodePool_new_def PoolState_default_def owned_def state_refs_def bt_values_def all_drawn_def
      holders_def all_runtimes_def List.map_filter_simps)

section \<open>Progress\<close>

lemma phase_found_runtime [simp]: "2 < k \<Longrightarrow> phase (found_runtime c g r) < k"
  by (cases c; cases r; simp)

lemma remaining_put_task:
  assumes "tasks s = A @ t # B"
    and "2 * (length (state_refs (pool_state s')) + length (task_refs t')) + phase t'
       < 2 * (length (state_refs (pool_state s)) + length (task_refs t)) + phase t"
  shows "remaining (put_task A B (t', s')) < remaining s"
  using assms by (simp add: remaining_def owned_def put_task_def)

lemma remaining_resume:
  assumes A: "tasks s = A @ t # B" and t: "\<not> blocked s t" "\<not> returned t"
    and "\<And>e p. t \<noteq> ActivateStart e p" "\<And>c g e. t \<noteq> StartEntry c g e" "\<And>g r. t \<noteq> UseRuntime g r"
  shows "remaining (put_task A B (NodePool_resume t s)) < remaining s"
proof (cases t)
  case (StopEntries es c)
  then show ?thesis
    using t(1) by (cases es; cases c)
      (auto intro!: remaining_put_task [OF A] simp: task_refs_def split: option.splits)
qed (use assms in \<open>auto intro!: remaining_put_task [OF A] simp: task_refs_def resume_defs state_refs_def
      split: sum.splits option.splits\<close>)

lemma remaining_answers:
  assumes A: "tasks s = A @ t # B"
  shows "t = ActivateStart e p \<or> t = StartEntry c g e
      \<Longrightarrow> remaining (put_task A B (NodePool_factory_answers x t s)) < remaining s"
    and "t = UseRuntime g r \<Longrightarrow> remaining (put_task A B (NodePool_stream_answers y t s)) < remaining s"
  by (cases x; auto intro!: remaining_put_task [OF A] simp: task_refs_def)
    (cases y; auto intro!: remaining_put_task [OF A] simp: task_refs_def)

lemma on_task_at:
  "tasks s = A @ t # B \<Longrightarrow> tasks (snd (f t s)) = tasks s \<Longrightarrow> on_task (length A) f s = put_task A B (f t s)"
  by (auto simp: on_task_def put_task_def split: prod.splits)

lemma task_progress:
  assumes A: "tasks s = A @ t # B" and t: "\<not> blocked s t" "\<not> returned t"
  shows "\<exists>op. continues fa sa op \<and> remaining (pool_next op s) < remaining s"
proof -
  consider (factory) "(\<exists>e p. t = ActivateStart e p) \<or> (\<exists>c g e. t = StartEntry c g e)"
    | (stream) "\<exists>g r. t = UseRuntime g r"
    | (other) "\<And>e p. t \<noteq> ActivateStart e p" "\<And>c g e. t \<noteq> StartEntry c g e" "\<And>g r. t \<noteq> UseRuntime g r"
    by blast
  then show ?thesis
  proof cases
    case factory
    then show ?thesis
      using remaining_answers(1) [OF A] on_task_at [OF A, of "NodePool_factory_answers (fa (length A))"]
      by (intro exI [of _ "FactoryAnswers (length A) (fa (length A))"]) auto
  next
    case stream
    then show ?thesis
      using remaining_answers(2) [OF A] on_task_at [OF A, of "NodePool_stream_answers (sa (length A))"]
      by (intro exI [of _ "StreamAnswers (length A) (sa (length A))"]) auto
  next
    case other
    then show ?thesis
      using remaining_resume [OF A t] on_task_at [OF A, of NodePool_resume]
      by (intro exI [of _ "Resume (length A)"]) auto
  qed
qed

text \<open>A call that waits for an entry waits for a call that can move.\<close>

lemma holder_not_blocked: "holds u = Some e \<Longrightarrow> \<not> blocked s u \<and> \<not> returned u"
  by (cases u) auto

lemma pool_progress:
  assumes "\<not> quiescent s"
  shows "\<exists>op. continues fa sa op \<and> remaining (pool_next op s) < remaining s"
proof -
  obtain t where t: "t \<in> set (tasks s)" "\<not> returned t"
    using assms by (auto simp: quiescent_def list_all_iff)
  obtain u where "u \<in> set (tasks s)" "\<not> blocked s u" "\<not> returned u"
  proof (cases "blocked s t")
    case True
    then obtain e where "locked s e"
      by (cases "(s, t)" rule: blocked.cases) auto
    then obtain u where "u \<in> set (tasks s)" "holds u = Some e"
      by (auto simp: locked_def)
    then show ?thesis
      using that holder_not_blocked by blast
  qed (use t that in blast)
  then show ?thesis
    by (metis split_list task_progress)
qed

lemma pool_completion:
  "\<exists>ops log s'. execute pool_step s ops = Some (log, s') \<and> list_all (continues fa sa) ops \<and> quiescent s'"
proof (induction "remaining s" arbitrary: s rule: less_induct)
  case less
  show ?case
  proof (cases "quiescent s")
    case True
    then show ?thesis
      by (intro exI [of _ "[]"]) simp
  next
    case False
    from pool_progress [OF this] obtain op where "continues fa sa op" "remaining (pool_next op s) < remaining s"
      by blast
    moreover from less [OF this(2)] obtain ops log s' where
      "execute pool_step (pool_next op s) ops = Some (log, s')" "list_all (continues fa sa) ops" "quiescent s'"
      by blast
    ultimately show ?thesis
      by (intro exI [of _ "op # ops"] exI [of _ "(op, ()) # log"] exI [of _ s']) (simp add: pool_step_def)
  qed
qed

section \<open>Properties\<close>

lemma mset_concat_refs:
  assumes "distinct refs" "set refs \<subseteq> {..<length h}" "\<And>e. e < length h \<Longrightarrow> f (h ! e) \<noteq> [] \<Longrightarrow> e \<in> set refs"
  shows "mset (concat (map f h)) = mset (concat (map (\<lambda>e. f (h ! e)) refs))"
proof -
  have "map f h = map (\<lambda>e. f (h ! e)) [0..<length h]"
    by (rule nth_equalityI) auto
  then have "mset (concat (map f h)) = (\<Sum>e \<leftarrow> [0..<length h]. mset (f (h ! e)))"
    by (simp add: mset_concat comp_def)
  also have "\<dots> = (\<Sum>e \<in> {..<length h}. mset (f (h ! e)))"
    by (simp add: interv_sum_list_conv_sum_set_nat atLeast0LessThan)
  also have "\<dots> = (\<Sum>e \<in> set refs. mset (f (h ! e)))"
    using assms by (intro sum.mono_neutral_right) auto
  also have "\<dots> = mset (concat (map (\<lambda>e. f (h ! e)) refs))"
    using assms(1) by (simp add: mset_concat sum_list_distinct_conv_sum_set comp_def)
  finally show ?thesis .
qed

lemma quiescent_tasks:
  assumes "quiescent s"
  shows "concat (map task_runtimes (tasks s)) = [] \<and> concat (map task_refs (tasks s)) = []"
proof -
  have "task_runtimes t = [] \<and> task_refs t = []" if "t \<in> set (tasks s)" for t
    using assms that by (cases t) (auto simp: quiescent_def list_all_iff task_refs_def)
  then show ?thesis
    by auto
qed

lemma pool_runtimes_heap:
  assumes "pool_inv s"
  shows "mset (pool_runtimes s) \<subseteq># mset (concat (map entry_runtimes (heap s)))"
proof -
  have own: "distinct (owned s)" "set (owned s) \<subseteq> {..<length (heap s)}"
    "\<And>e. e < length (heap s) \<Longrightarrow> entry_runtimes (heap s ! e) \<noteq> [] \<Longrightarrow> e \<in> set (owned s)"
    using assms by (auto simp: pool_inv_def own_inv_def entry_runtimes_def split: option.splits)
  have "mset (concat (map entry_runtimes (heap s)))
      = mset (concat (map (\<lambda>e. entry_runtimes (heap s ! e)) (owned s)))"
    by (rule mset_concat_refs [OF own])
  then show ?thesis
    unfolding owned_def pool_runtimes_def state_refs_def by simp
qed

lemma reachable_pool_inv:
  "run pool_step NodePool_new log s \<Longrightarrow> length log < 2 ^ 64 - 1 \<Longrightarrow> pool_inv s"
  using node_pool.run_hist [OF _ _ new_pool_history] by (auto simp: pool_history_def)

lemma prepare_accepts:
  "\<not> isl (NodePool_prepare h nodes d) \<longleftrightarrow>
     nodes \<noteq> [] \<and> (\<forall>n \<in> set nodes. node_id n \<noteq> [] \<and> node_alias n \<noteq> [])
     \<and> distinct (map node_id nodes) \<and> distinct (map node_alias nodes)
     \<and> d \<in> node_id ` set nodes \<union> node_alias ` set nodes"
proof (cases "NodePool_prepare_nodes h [] [] [] nodes")
  case (Inl e)
  then show ?thesis
    using prepare_nodes_ok_iff [of h "[]" "[]" "[]" nodes] by (auto simp: NodePool_prepare_def and_then_def)
next
  case (Inr x)
  obtain h' al en where x: "x = (h', al, en)"
    by (cases x)
  note get = prepare_nodes_get [OF Inr [unfolded x]]
  have "bt_get en d \<noteq> None \<longleftrightarrow> d \<in> node_id ` set nodes" "bt_get al d \<noteq> None \<longleftrightarrow> d \<in> node_alias ` set nodes"
    using get by (force simp: in_set_conv_nth)+
  then show ?thesis
    using Inr prepare_nodes_ok_iff [of h "[]" "[]" "[]" nodes]
    by (auto simp: NodePool_prepare_def and_then_def ok_or_def x split: option.splits)
qed

lemma prepare_resolves:
  assumes ok: "NodePool_prepare h nodes d = Ok (h', p)" and i: "i < length nodes"
  shows "entry_configuration (h' ! (length h + i)) = node_configuration (nodes ! i)"
    and "node_id (nodes ! i) \<noteq> ''PROXY'' \<Longrightarrow>
      NodePool_lookup (p\<lparr>pool_generation := g\<rparr>) (node_id (nodes ! i)) g = Ok (length h + i)"
    and "node_alias (nodes ! i) \<noteq> ''PROXY'' \<Longrightarrow> node_alias (nodes ! i) \<notin> node_id ` set nodes \<Longrightarrow>
      NodePool_lookup (p\<lparr>pool_generation := g\<rparr>) (node_alias (nodes ! i)) g = Ok (length h + i)"
    and "d = node_id (nodes ! i) \<or> d = node_alias (nodes ! i) \<and> d \<notin> node_id ` set nodes \<Longrightarrow>
      NodePool_lookup (p\<lparr>pool_generation := g\<rparr>) ''PROXY'' g = Ok (length h + i)"
proof -
  obtain nodes_ok: "NodePool_prepare_nodes h [] [] [] nodes = Ok (h', pool_aliases p, pool_nodes p)"
    and default: "pool_default_node p = (if bt_get (pool_nodes p) d \<noteq> None then d else the (bt_get (pool_aliases p) d))"
    by (rule prepare_OkD [OF ok])
  note get = prepare_nodes_get [OF nodes_ok]
  have at: "bt_get (pool_nodes p) (node_id (nodes ! i)) = Some (length h + i)"
    "bt_get (pool_aliases p) (node_alias (nodes ! i)) = Some (node_id (nodes ! i))"
    using get i by auto
  have other: "k \<notin> node_id ` set nodes \<Longrightarrow> bt_get (pool_nodes p) k = None" for k
    using get by simp
  show "entry_configuration (h' ! (length h + i)) = node_configuration (nodes ! i)"
    using prepare_store [OF ok] i by (simp add: nth_append entry_of_def)
  show "NodePool_lookup (p\<lparr>pool_generation := g\<rparr>) (node_id (nodes ! i)) g = Ok (length h + i)"
    if "node_id (nodes ! i) \<noteq> ''PROXY''"
    using that at by (simp add: NodePool_lookup_def and_then_def ok_or_def)
  show "NodePool_lookup (p\<lparr>pool_generation := g\<rparr>) (node_alias (nodes ! i)) g = Ok (length h + i)"
    if "node_alias (nodes ! i) \<noteq> ''PROXY''" "node_alias (nodes ! i) \<notin> node_id ` set nodes"
    using that at other by (simp add: NodePool_lookup_def and_then_def ok_or_def)
  show "NodePool_lookup (p\<lparr>pool_generation := g\<rparr>) ''PROXY'' g = Ok (length h + i)"
    if "d = node_id (nodes ! i) \<or> d = node_alias (nodes ! i) \<and> d \<notin> node_id ` set nodes"
  proof -
    have "pool_default_node p = node_id (nodes ! i)"
      using that at other default by auto
    then show ?thesis
      using at by (simp add: NodePool_lookup_def and_then_def ok_or_def)
  qed
qed

text \<open>
  C16. However the calls of a node pool interleave (activations, stops, lookups and streams, each cut
  at its await points, with the factory and the streams answering at any time), the runtimes are
  accounted for: none is stopped twice, none that the installed profile holds has been stopped,
  and when no call is in progress every runtime that was ever started has either been stopped or
  is held by an entry of the installed profile, exactly once.
\<close>

theorem pool_runtimes_never_leak:
  assumes "run pool_step NodePool_new log s" "length log < 2 ^ 64 - 1"
  shows "distinct (stopped s @ pool_runtimes s)
    \<and> (quiescent s \<longrightarrow> mset (stopped s) + mset (pool_runtimes s) = mset [0..<started s])"
proof -
  note inv = reachable_pool_inv [OF assms]
  have all: "all_runtimes s = mset [0..<started s]"
    using inv by (simp add: pool_inv_def)
  have "mset (stopped s @ pool_runtimes s) \<subseteq># all_runtimes s"
    using pool_runtimes_heap [OF inv] by (simp add: all_runtimes_def add.assoc subset_mset.add_increasing)
  then have "count (mset (stopped s @ pool_runtimes s)) x \<le> 1" for x
    using distinct_count [of "[0..<started s]"]
    by (metis all distinct_upt mset_subset_eq_count order_trans)
  moreover have "mset (stopped s) + mset (pool_runtimes s) = mset [0..<started s]" if "quiescent s"
  proof -
    have own: "owned s = bt_values (pool_nodes (pool_state s))"
      using quiescent_tasks [OF that] by (simp add: owned_def state_refs_def)
    have "mset (concat (map entry_runtimes (heap s))) = mset (pool_runtimes s)"
      using inv unfolding pool_runtimes_def own [symmetric]
      by (intro mset_concat_refs) (auto simp: pool_inv_def own_inv_def entry_runtimes_def split: option.splits)
    then show ?thesis
      using all quiescent_tasks [OF that] by (simp add: all_runtimes_def)
  qed
  ultimately show ?thesis
    unfolding distinct_count by blast
qed

lemmas demo_evaluation = pool_step_def NodePool_new_def PoolState_default_def NodePool_activate_def
  NodePool_prepare_def and_then_def ok_or_def spawn_task_def on_task_def NodePool_stop_def
  NodePool_lookup_def resume_defs locked_def set_runtime_def bt_values_def less_list_code less_char_def
  demo_nodes_def demo_activated_def demo_stopping_def demo_start_ops_def demo_lookup_ops_def demo_stop_ops_def

lemma demo_starts: "execute pool_step NodePool_new demo_start_ops
  = Some (map (\<lambda>op. (op, ())) demo_start_ops, demo_activated)"
  by (simp add: demo_evaluation)

lemma demo_looks_up: "execute pool_step demo_activated demo_lookup_ops
  = Some (map (\<lambda>op. (op, ())) demo_lookup_ops, demo_stopping)"
  by (simp add: demo_evaluation)

lemma demo_stops: "\<exists>s. execute pool_step demo_stopping demo_stop_ops = Some (map (\<lambda>op. (op, ())) demo_stop_ops, s)
  \<and> quiescent s \<and> started s = 2"
  by (simp add: demo_evaluation quiescent_def)

theorem pool_runtimes_never_leak_witness:
  "\<exists>log s. run pool_step (NodePool_new :: (nat, nat) NodePool) log s \<and> quiescent s \<and> started s = 2
     \<and> mset (stopped s) + mset (pool_runtimes s) = mset [0..<2]"
proof -
  let ?log = "map (\<lambda>op. (op, ())) (demo_start_ops @ demo_lookup_ops @ demo_stop_ops)"
  obtain s where s: "execute pool_step demo_stopping demo_stop_ops = Some (map (\<lambda>op. (op, ())) demo_stop_ops, s)"
    and q: "quiescent s" "started s = 2"
    using demo_stops by blast
  have r: "run pool_step NodePool_new ?log s"
    using run_append [OF run_append [OF execute_run [OF s] execute_run [OF demo_looks_up]]
        execute_run [OF demo_starts]] by simp
  have "length ?log < 2 ^ 64 - 1"
    by (simp add: demo_start_ops_def demo_lookup_ops_def demo_stop_ops_def)
  from pool_runtimes_never_leak [OF r this] q
  have "mset (stopped s) + mset (pool_runtimes s) = mset [0..<2]"
    by simp
  with r q show ?thesis
    by blast
qed

text \<open>
  Calls never deadlock: from every state, whatever the factory and the streams answer, there is
  a schedule that only continues the calls in progress and after which all of them have returned.
\<close>

theorem pool_calls_complete:
  "\<exists>ops log s'. execute pool_step s ops = Some (log, s') \<and> list_all (continues fa sa) ops \<and> quiescent s'"
  by (rule pool_completion)

text \<open>
  A profile is accepted exactly when it has a node, no empty and no repeated identifier or alias,
  and its default is an identifier or an alias. In an accepted profile each identifier leads to
  the entry of its node, and so does its alias unless another node has it as identifier.
\<close>

theorem prepared_profile_exact:
  "(\<not> isl (NodePool_prepare h nodes d) \<longleftrightarrow>
      nodes \<noteq> [] \<and> (\<forall>n \<in> set nodes. node_id n \<noteq> [] \<and> node_alias n \<noteq> [])
      \<and> distinct (map node_id nodes) \<and> distinct (map node_alias nodes)
      \<and> d \<in> node_id ` set nodes \<union> node_alias ` set nodes)
   \<and> (NodePool_prepare h nodes d = Ok (h', p) \<longrightarrow> (\<forall>i < length nodes.
        entry_configuration (h' ! (length h + i)) = node_configuration (nodes ! i)
        \<and> (node_id (nodes ! i) \<noteq> ''PROXY'' \<longrightarrow>
             NodePool_lookup (p\<lparr>pool_generation := g\<rparr>) (node_id (nodes ! i)) g = Ok (length h + i))
        \<and> (node_alias (nodes ! i) \<noteq> ''PROXY'' \<longrightarrow> node_alias (nodes ! i) \<notin> node_id ` set nodes \<longrightarrow>
             NodePool_lookup (p\<lparr>pool_generation := g\<rparr>) (node_alias (nodes ! i)) g = Ok (length h + i))
        \<and> (d = node_id (nodes ! i) \<or> d = node_alias (nodes ! i) \<and> d \<notin> node_id ` set nodes \<longrightarrow>
             NodePool_lookup (p\<lparr>pool_generation := g\<rparr>) ''PROXY'' g = Ok (length h + i))))"
  using prepare_accepts [of h nodes d] prepare_resolves [of h nodes d h' p] by blast

theorem prepared_profile_exact_witness:
  "\<exists>h' p. NodePool_prepare [] demo_nodes ''backup'' = Ok (h', p)
     \<and> NodePool_lookup (p\<lparr>pool_generation := 5\<rparr>) ''backup'' 5 = Ok 1
     \<and> NodePool_lookup (p\<lparr>pool_generation := 5\<rparr>) ''PROXY'' 5 = Ok 1"
proof -
  have "\<not> isl (NodePool_prepare [] demo_nodes ''backup'')"
    unfolding conjunct1 [OF prepared_profile_exact] by (simp add: demo_nodes_def)
  then obtain h' p where ok: "NodePool_prepare [] demo_nodes ''backup'' = Ok (h', p)"
    by (cases "NodePool_prepare [] demo_nodes ''backup''") auto
  with conjunct2 [OF prepared_profile_exact [of "[]" demo_nodes "''backup''" h' p 5]] show ?thesis
    by (intro exI [of _ h'] exI [of _ p]) (auto simp: demo_nodes_def numeral_2_eq_2 dest!: spec [of _ 1])
qed

end
