(* ===== verification/Rust_Text.thy ===== *)
theory Rust_Text
  imports Ip_Text
begin

text \<open>
  The part of \<^verbatim>\<open>str\<close> and \<^verbatim>\<open>std::net\<close> that the proxy adapter uses beyond \<open>Rust_Strings\<close>: UTF-8
  validation, comparison without case, splitting at white space and at line ends, and the parser of
  socket addresses.
\<close>

section \<open>UTF-8\<close>

definition byte_in :: "nat \<Rightarrow> nat \<Rightarrow> char \<Rightarrow> bool" where
  "byte_in lo hi c = (lo \<le> (of_char c :: nat) \<and> (of_char c :: nat) \<le> hi)"

text \<open>
  The well-formed sequences, as \<^verbatim>\<open>str::from_utf8\<close> checks them: the width by the first byte, the
  range of the second byte by the first, and continuation bytes after that.
\<close>

fun utf8_valid :: "string \<Rightarrow> bool" where
  "utf8_valid [] = True"
| "utf8_valid (a # s) =
     (if byte_in 0 0x7F a then utf8_valid s
      else case s of
        [] \<Rightarrow> False
      | b # s1 \<Rightarrow>
          if byte_in 0xC2 0xDF a then byte_in 0x80 0xBF b \<and> utf8_valid s1
          else case s1 of
            [] \<Rightarrow> False
          | c # s2 \<Rightarrow>
              if byte_in 0xE0 0xEF a
              then byte_in (if byte_in 0xE0 0xE0 a then 0xA0 else 0x80) (if byte_in 0xED 0xED a then 0x9F else 0xBF) b
                \<and> byte_in 0x80 0xBF c \<and> utf8_valid s2
              else case s2 of
                [] \<Rightarrow> False
              | d # s3 \<Rightarrow>
                  byte_in 0xF0 0xF4 a
                  \<and> byte_in (if byte_in 0xF0 0xF0 a then 0x90 else 0x80) (if byte_in 0xF4 0xF4 a then 0x8F else 0xBF) b
                  \<and> byte_in 0x80 0xBF c \<and> byte_in 0x80 0xBF d \<and> utf8_valid s3)"

section \<open>Characters and comparison\<close>

definition eq_ignore_ascii_case :: "string \<Rightarrow> string \<Rightarrow> bool" where
  "eq_ignore_ascii_case a b = (to_ascii_lowercase a = to_ascii_lowercase b)"

definition is_ascii_control :: "char \<Rightarrow> bool" where
  "is_ascii_control c = ((of_char c :: nat) < 32 \<or> (of_char c :: nat) = 127)"

section \<open>Splitting\<close>

abbreviation CR :: char where "CR \<equiv> CHR 0x0D"
abbreviation LF :: char where "LF \<equiv> CHR 0x0A"

definition CRLF :: string where
  "CRLF = [CR, LF]"

text \<open>\<^verbatim>\<open>split("\r\n")\<close>.\<close>

fun split_crlf :: "string \<Rightarrow> string list" where
  "split_crlf [] = [[]]"
| "split_crlf [c] = [[c]]"
| "split_crlf (c # d # s) =
     (if c = CR \<and> d = LF then [] # split_crlf s
      else case split_crlf (d # s) of [] \<Rightarrow> [[c]] | f # fs \<Rightarrow> (c # f) # fs)"

definition non_empty :: "string \<Rightarrow> string list" where
  "non_empty s = (if s = [] then [] else [s])"

text \<open>\<^verbatim>\<open>split_whitespace\<close>: the maximal runs without white space.\<close>

function split_whitespace_from :: "string \<Rightarrow> string \<Rightarrow> string list" where
  "split_whitespace_from word s =
     (case find (\<lambda>w. w \<noteq> [] \<and> prefix w s) white_space of
        Some w \<Rightarrow> non_empty word @ split_whitespace_from [] (drop (length w) s)
      | None \<Rightarrow> (case s of [] \<Rightarrow> non_empty word | c # rest \<Rightarrow> split_whitespace_from (word @ [c]) rest))"
  by pat_completeness auto
termination
proof (relation "measure (\<lambda>(_, s). length s)")
  fix word s w :: string
  assume "find (\<lambda>w. w \<noteq> [] \<and> prefix w s) white_space = Some w"
  then have "w \<noteq> []" "prefix w s"
    by (auto simp: find_Some_iff)
  then show "(([], drop (length w) s), word, s) \<in> measure (\<lambda>(_, s). length s)"
    by (auto simp: prefix_def)
qed auto

definition split_whitespace :: "string \<Rightarrow> string list" where
  "split_whitespace s = split_whitespace_from [] s"

definition rsplit_once :: "char \<Rightarrow> string \<Rightarrow> (string \<times> string) option" where
  "rsplit_once d s = map_option (\<lambda>(b, a). (rev a, rev b)) (split_once d (rev s))"

section \<open>Socket addresses\<close>

text \<open>\<^verbatim>\<open>SocketAddr\<close>; the scope is zero but for an IPv6 address that was written with one.\<close>

record SockAddr =
  sock_ip :: Ip
  sock_port :: u16
  sock_scope :: u32

definition SockAddr_new :: "Ip \<Rightarrow> u16 \<Rightarrow> SockAddr" where
  "SockAddr_new ip port = \<lparr>sock_ip = ip, sock_port = port, sock_scope = 0\<rparr>"

definition read_port :: "string \<Rightarrow> (nat \<times> string) option" where
  "read_port s = Option.bind (read_given_char CHR '':'' s) (\<lambda>r. read_number 10 (length r) True 65536 r)"

definition read_scope_id :: "string \<Rightarrow> (nat \<times> string) option" where
  "read_scope_id s =
     Option.bind (read_given_char CHR ''%'' s) (\<lambda>r. read_number 10 (length r) True (2 ^ 32) r)"

definition read_socket_addr_v4 :: "string \<Rightarrow> (SockAddr \<times> string) option" where
  "read_socket_addr_v4 s =
     Option.bind (read_ipv4_addr s) (\<lambda>(ip, s1).
     Option.bind (read_port s1) (\<lambda>(port, s2).
       Some (SockAddr_new (V4 (word_of_nat ip)) (word_of_nat port), s2)))"

definition read_socket_addr_v6 :: "string \<Rightarrow> (SockAddr \<times> string) option" where
  "read_socket_addr_v6 s =
     Option.bind (read_given_char CHR ''['' s) (\<lambda>s1.
     Option.bind (read_ipv6_addr s1) (\<lambda>(ip, s2).
     (let (scope, s3) = (case read_scope_id s2 of Some x \<Rightarrow> x | None \<Rightarrow> (0, s2)) in
     Option.bind (read_given_char CHR '']'' s3) (\<lambda>s4.
     Option.bind (read_port s4) (\<lambda>(port, s5).
       Some (\<lparr>sock_ip = V6 (word_of_nat ip), sock_port = word_of_nat port, sock_scope = word_of_nat scope\<rparr>, s5))))))"

definition SockAddr_parse :: "string \<Rightarrow> SockAddr option" where
  "SockAddr_parse s =
     (case read_socket_addr_v4 s of
        Some (a, rest) \<Rightarrow> if rest = [] then Some a else None
      | None \<Rightarrow> (case read_socket_addr_v6 s of
          Some (a, rest) \<Rightarrow> if rest = [] then Some a else None
        | None \<Rightarrow> None))"

text \<open>A text without a line end, and one without either of its bytes.\<close>

definition crlf_free :: "string \<Rightarrow> bool" where
  "crlf_free s = (\<not> sublist CRLF s)"

definition no_line_byte :: "string \<Rightarrow> bool" where
  "no_line_byte s = (CR \<notin> set s \<and> LF \<notin> set s)"

text \<open>A reader takes a front without line bytes off its input.\<close>

definition clean_reader :: "(string \<Rightarrow> ('a \<times> string) option) \<Rightarrow> bool" where
  "clean_reader f \<longleftrightarrow> (\<forall>s a rest. f s = Some (a, rest) \<longrightarrow> (\<exists>p. s = p @ rest \<and> no_line_byte p))"

declare split_whitespace_from.simps [simp del]

section \<open>Line ends\<close>

lemma crlf_free_sublist: "crlf_free s \<Longrightarrow> sublist t s \<Longrightarrow> crlf_free t"
  unfolding crlf_free_def by (meson sublist_order.order_trans)

lemma no_line_byte_crlf_free: "no_line_byte s \<Longrightarrow> crlf_free s"
  by (auto simp: no_line_byte_def crlf_free_def CRLF_def sublist_def)

lemma crlf_free_Cons2 [simp]:
  "crlf_free (c # d # s) \<longleftrightarrow> \<not> (c = CR \<and> d = LF) \<and> crlf_free (d # s)"
  by (auto simp: crlf_free_def CRLF_def sublist_Cons_right)

lemma crlf_free_short [simp]: "crlf_free []" "crlf_free [c]"
  by (auto simp: crlf_free_def CRLF_def sublist_Cons_right)

lemma crlf_free_join:
  assumes "crlf_free a" "crlf_free b" "c \<noteq> CR" "c \<noteq> LF"
  shows "crlf_free (a @ c # b)"
  using assms(1)
proof (induction a rule: induct_list012)
  case 1
  then show ?case
    using assms(2,3) by (cases b) auto
next
  case (2 x)
  then show ?case
    using assms(2-4) by (cases b) auto
qed auto

lemma split_crlf_nonempty [simp]: "split_crlf s \<noteq> []"
  by (induction s rule: split_crlf.induct) (auto split: list.splits)

lemma split_crlf_line: "crlf_free l \<Longrightarrow> split_crlf (l @ CRLF @ rest) = l # split_crlf rest"
proof (induction l rule: induct_list012)
  case (3 c d s)
  then show ?case
    by (auto split: list.splits)
qed (auto simp: CRLF_def)

lemma split_crlf_single: "crlf_free l \<Longrightarrow> split_crlf l = [l]"
  by (induction l rule: induct_list012) auto

lemma split_crlf_free: "l \<in> set (split_crlf s) \<Longrightarrow> crlf_free l"
proof (induction s arbitrary: l rule: split_crlf.induct)
  case (3 c d s)
  show ?case
  proof (cases "c = CR \<and> d = LF")
    case False
    obtain f fs where f: "split_crlf (d # s) = f # fs"
      by (cases "split_crlf (d # s)") auto
    have "f = [] \<or> hd f = d"
      using f by (cases s) (auto split: if_splits list.splits)
    then have "crlf_free (c # f)"
      using 3(2) [OF False, of f] f False by (cases f) auto
    then show ?thesis
      using 3 False f by auto
  qed (use 3 in auto)
qed auto

section \<open>Accepted addresses have no line bytes\<close>

lemma no_line_byte_append [simp]: "no_line_byte (a @ b) \<longleftrightarrow> no_line_byte a \<and> no_line_byte b"
  by (auto simp: no_line_byte_def)

lemma no_line_byte_Cons [simp]: "no_line_byte (c # s) \<longleftrightarrow> c \<noteq> CR \<and> c \<noteq> LF \<and> no_line_byte s"
  by (auto simp: no_line_byte_def)

lemma no_line_byte_Nil [simp]: "no_line_byte []"
  by (simp add: no_line_byte_def)

lemma clean_readerI:
  assumes "\<And>s a rest. f s = Some (a, rest) \<Longrightarrow> \<exists>p. s = p @ rest \<and> no_line_byte p"
  shows "clean_reader f"
  using assms unfolding clean_reader_def by blast

lemma clean_readerD: "clean_reader f \<Longrightarrow> f s = Some (a, rest) \<Longrightarrow> \<exists>p. s = p @ rest \<and> no_line_byte p"
  unfolding clean_reader_def by blast

lemma given_char_clean:
  "read_given_char c s = Some rest \<Longrightarrow> c \<noteq> CR \<Longrightarrow> c \<noteq> LF \<Longrightarrow> \<exists>p. s = p @ rest \<and> no_line_byte p"
  by (cases s) (auto split: if_splits intro: exI [of _ "[c]"])

lemma clean_extend:
  "\<exists>p. s = p @ t \<and> no_line_byte p \<Longrightarrow> \<exists>p. t = p @ r \<and> no_line_byte p \<Longrightarrow> \<exists>p. s = p @ r \<and> no_line_byte p"
  by (metis append_assoc no_line_byte_append)

lemma clean_number: "clean_reader (read_number radix m z b)"
proof (rule clean_readerI)
  fix s a rest
  let ?d = "takeWhile (\<lambda>c. digit_of radix c \<noteq> None) s"
  assume "read_number radix m z b s = Some (a, rest)"
  then have "rest = drop (length ?d) s"
    by (auto simp: read_number_def Let_def split: if_splits)
  then have "s = ?d @ rest"
    by (metis dropWhile_eq_drop takeWhile_dropWhile_id)
  moreover have "no_line_byte ?d"
    unfolding no_line_byte_def
    by (auto dest!: set_takeWhileD simp: digit_of_def is_ascii_digit_def is_ascii_lower_def is_ascii_upper_def)
  ultimately show "\<exists>p. s = p @ rest \<and> no_line_byte p"
    by blast
qed

lemma clean_separated:
  assumes "clean_reader f" "c \<noteq> CR" "c \<noteq> LF"
  shows "clean_reader (read_separated c first f)"
proof (rule clean_readerI)
  fix s a rest
  assume "read_separated c first f s = Some (a, rest)"
  then show "\<exists>p. s = p @ rest \<and> no_line_byte p"
    using assms clean_readerD [OF assms(1)]
    by (auto simp: read_separated_def split: if_splits option.splits
        intro: clean_extend [OF given_char_clean])
qed

lemma clean_bind:
  assumes "Option.bind x f = Some y" "\<And>a. x = Some a \<Longrightarrow> \<exists>p. s = p @ snd a \<and> no_line_byte p"
    and "\<And>a. x = Some a \<Longrightarrow> f a = Some y \<Longrightarrow> \<exists>p. snd a = p @ r \<and> no_line_byte p"
  shows "\<exists>p. s = p @ r \<and> no_line_byte p"
  using assms by (cases x) (auto intro: clean_extend)

lemma clean_octet: "clean_reader (read_octet first)"
  unfolding read_octet_def by (intro clean_separated clean_number) auto

lemma clean_ipv4: "clean_reader read_ipv4_addr"
proof (rule clean_readerI)
  fix s a rest
  assume "read_ipv4_addr s = Some (a, rest)"
  then obtain a1 s1 a2 s2 a3 s3 a4 where "read_octet True s = Some (a1, s1)"
    "read_octet False s1 = Some (a2, s2)" "read_octet False s2 = Some (a3, s3)"
    "read_octet False s3 = Some (a4, rest)"
    by (auto simp: read_ipv4_addr_def split: option.splits)
  from this [THEN clean_readerD [OF clean_octet]]
  show "\<exists>p. s = p @ rest \<and> no_line_byte p"
    by (metis clean_extend)
qed

lemma clean_groups: "read_groups n first s = (gs, v4, rest) \<Longrightarrow> \<exists>p. s = p @ rest \<and> no_line_byte p"
proof (induction n first s arbitrary: gs v4 rest rule: read_groups.induct)
  case (2 n first s)
  note sep = clean_separated [where c = "CHR '':''" and first = first]
  show ?case
  proof (cases "if n = 0 then None else read_separated CHR '':'' first read_ipv4_addr s")
    case (Some x)
    then obtain v where "read_separated CHR '':'' first read_ipv4_addr s = Some (v, rest)"
      using 2(2) by (cases x) (auto split: if_splits)
    then show ?thesis
      using clean_readerD [OF sep [OF clean_ipv4]] by simp
  next
    case None
    show ?thesis
    proof (cases "read_separated CHR '':'' first (read_number 16 4 True 65536) s")
      case (Some y)
      obtain g s1 where y: "y = (g, s1)"
        by (cases y)
      obtain gs' where "read_groups n False s1 = (gs', v4, rest)"
        using 2(2) None Some y by (auto split: prod.splits)
      then have "\<exists>p. s1 = p @ rest \<and> no_line_byte p"
        using 2(1) [OF None Some y [symmetric]] by blast
      moreover have "\<exists>p. s = p @ s1 \<and> no_line_byte p"
        using clean_readerD [OF sep [OF clean_number]] Some y by simp
      ultimately show ?thesis
        by (rule clean_extend [rotated])
    qed (use 2(2) None in auto)
  qed
qed auto

lemma clean_ipv6: "clean_reader read_ipv6_addr"
proof (rule clean_readerI)
  fix s a rest
  assume a: "read_ipv6_addr s = Some (a, rest)"
  obtain front v4 s1 where g: "read_groups 8 True s = (front, v4, s1)"
    by (cases "read_groups 8 True s")
  note front = clean_groups [OF g]
  show "\<exists>p. s = p @ rest \<and> no_line_byte p"
  proof (cases "length front = 8")
    case False
    then obtain s2 s3 where c: "read_given_char CHR '':'' s1 = Some s2" "read_given_char CHR '':'' s2 = Some s3"
      using a g by (auto simp: read_ipv6_addr_def bind_eq_Some_conv split: if_splits option.splits)
    obtain rear b s4 where rear: "read_groups (8 - (length front + 1)) True s3 = (rear, b, s4)"
      by (cases "read_groups (8 - (length front + 1)) True s3")
    then have "s4 = rest"
      using a g c False by (auto simp: read_ipv6_addr_def split: if_splits)
    with clean_groups [OF rear] have "\<exists>p. s3 = p @ rest \<and> no_line_byte p"
      by simp
    from clean_extend [OF front clean_extend [OF given_char_clean [OF c(1)] clean_extend [OF given_char_clean [OF c(2)] this]]]
    show ?thesis
      by simp
  qed (use a g front in \<open>auto simp: read_ipv6_addr_def\<close>)
qed

lemma Ip_parse_clean: "Ip_parse s = Some ip \<Longrightarrow> no_line_byte s"
  using clean_readerD [OF clean_ipv4, of s] clean_readerD [OF clean_ipv6, of s]
  by (fastforce simp: Ip_parse_def split: option.splits if_splits)

lemma clean_port: "clean_reader read_port"
  unfolding read_port_def
  by (rule clean_readerI) (auto simp: bind_eq_Some_conv intro: clean_extend [OF given_char_clean]
      dest: clean_readerD [OF clean_number])

lemma clean_scope: "clean_reader read_scope_id"
  unfolding read_scope_id_def
  by (rule clean_readerI) (auto simp: bind_eq_Some_conv intro: clean_extend [OF given_char_clean]
      dest: clean_readerD [OF clean_number])

lemma SockAddr_parse_clean:
  assumes "SockAddr_parse s = Some a"
  shows "no_line_byte s"
proof -
  have "read_socket_addr_v4 s = Some (a, []) \<or> read_socket_addr_v6 s = Some (a, [])"
    using assms by (auto simp: SockAddr_parse_def split: option.splits if_splits)
  then show ?thesis
  proof
    assume "read_socket_addr_v4 s = Some (a, [])"
    then obtain ip s1 port where "read_ipv4_addr s = Some (ip, s1)" "read_port s1 = Some (port, [])"
      by (auto simp: read_socket_addr_v4_def bind_eq_Some_conv)
    from clean_extend [OF clean_readerD [OF clean_ipv4 this(1)] clean_readerD [OF clean_port this(2)]]
    show ?thesis
      by simp
  next
    assume v6: "read_socket_addr_v6 s = Some (a, [])"
    then obtain s1 ip s2 where r: "read_given_char CHR ''['' s = Some s1" "read_ipv6_addr s1 = Some (ip, s2)"
      by (auto simp: read_socket_addr_v6_def bind_eq_Some_conv)
    obtain scope s3 where sc: "(case read_scope_id s2 of Some x \<Rightarrow> x | None \<Rightarrow> (0, s2)) = (scope, s3)"
      by fastforce
    then have s3: "\<exists>p. s2 = p @ s3 \<and> no_line_byte p"
      using clean_readerD [OF clean_scope, of s2] by (auto split: option.splits)
    obtain s4 port where q: "read_given_char CHR '']'' s3 = Some s4" "read_port s4 = Some (port, [])"
      using v6 r sc by (auto simp: read_socket_addr_v6_def bind_eq_Some_conv)
    have "\<exists>p. s1 = p @ [] \<and> no_line_byte p"
      using clean_extend [OF clean_readerD [OF clean_ipv6 r(2)]
          clean_extend [OF s3 clean_extend [OF given_char_clean [OF q(1)] clean_readerD [OF clean_port q(2)]]]]
      by simp
    from clean_extend [OF given_char_clean [OF r(1)] this] show ?thesis
      by simp
  qed
qed

section \<open>Trimmed text\<close>

lemma set_strip_words: "set (strip_words ws s) \<subseteq> set s"
proof (induction ws s rule: strip_words.induct)
  case (1 ws s)
  show ?case
  proof (cases "find (\<lambda>w. w \<noteq> [] \<and> prefix w s) ws")
    case (Some w)
    then show ?thesis
      using 1 set_drop_subset [of "length w" s] by (subst strip_words.simps) auto
  qed (subst strip_words.simps, simp)
qed

lemma set_trim: "set (trim s) \<subseteq> set s"
  unfolding trim_def trim_end_def trim_start_def
  using set_strip_words [of white_space s] set_strip_words [of "map rev white_space" "rev (strip_words white_space s)"]
  by auto

section \<open>White space\<close>

lemma ascii_space_word:
  assumes "w \<in> set white_space" "c \<in> set w" "[c] \<in> set white_space"
  shows "w = [c]"
proof -
  have "list_all (\<lambda>w. length w = 1 \<longrightarrow> (of_char (hd w) :: nat) < 128) white_space"
    "list_all (\<lambda>w. length w = 1 \<or> list_all (\<lambda>x. (of_char x :: nat) \<ge> 128) w) white_space"
    by (simp_all add: white_space_def)
  then have "(of_char c :: nat) < 128" "length w = 1 \<or> list_all (\<lambda>x. (of_char x :: nat) \<ge> 128) w"
    using assms(1,3) by (auto simp: list_all_iff)
  then show ?thesis
    using assms(2) by (auto simp: list_all_iff length_Suc_conv)
qed

lemma space_prefix:
  assumes "w \<in> set white_space" "[c] \<in> set white_space" "a \<noteq> []"
  shows "prefix w (a @ c # b) \<longleftrightarrow> prefix w a"
proof
  assume p: "prefix w (a @ c # b)"
  show "prefix w a"
  proof (rule ccontr)
    assume "\<not> prefix w a"
    with p obtain us where "w = a @ c # us"
      by (auto simp: prefix_append prefix_Cons)
    with ascii_space_word [OF assms(1) _ assms(2)] assms(3) show False
      by (cases a) auto
  qed
qed auto

lemma find_space: "[c] \<in> set white_space \<Longrightarrow> find (\<lambda>w. w \<noteq> [] \<and> prefix w (c # b)) white_space = Some [c]"
proof -
  assume c: "[c] \<in> set white_space"
  have "(w \<noteq> [] \<and> prefix w (c # b)) \<longleftrightarrow> w = [c]" if "w \<in> set white_space" for w
    using ascii_space_word [OF that _ c] white_space_edges [OF that] by (cases w) auto
  then have "find (\<lambda>w. w \<noteq> [] \<and> prefix w (c # b)) white_space = find (\<lambda>w. w = [c]) white_space"
    by (intro find_cong) auto
  also have "\<dots> = Some [c]"
    using c by (cases "find (\<lambda>w. w = [c]) white_space") (auto simp: find_None_iff find_Some_iff)
  finally show ?thesis .
qed

text \<open>An ASCII white-space character separates the words before it from the words after it.\<close>

lemma split_whitespace_at:
  assumes c: "[c] \<in> set white_space"
  shows "split_whitespace_from word (a @ c # b) = split_whitespace_from word a @ split_whitespace b"
proof (induction word a rule: split_whitespace_from.induct)
  case (1 word a)
  note unfold = split_whitespace_from.simps [of word "a @ c # b"] split_whitespace_from.simps [of word a]
  show ?case
  proof (cases a)
    case Nil
    have "find (\<lambda>w. w \<noteq> [] \<and> prefix w []) white_space = None"
      by (auto simp: find_None_iff)
    then show ?thesis
      using unfold find_space [OF c] Nil by (simp add: split_whitespace_def)
  next
    case (Cons x xs)
    then have eq: "find (\<lambda>w. w \<noteq> [] \<and> prefix w (a @ c # b)) white_space = find (\<lambda>w. w \<noteq> [] \<and> prefix w a) white_space"
      using space_prefix [OF _ c, of _ a b] by (intro find_cong) simp_all
    show ?thesis
    proof (cases "find (\<lambda>w. w \<noteq> [] \<and> prefix w a) white_space")
      case None
      then show ?thesis
        using 1(1) [OF None Cons] unfold eq Cons by simp
    next
      case (Some w)
      then have "prefix w a"
        by (auto simp: find_Some_iff)
      then have "drop (length w) (a @ c # b) = drop (length w) a @ c # b"
        by (auto simp: prefix_def)
      then show ?thesis
        using 1(2) [OF Some] unfold eq Some by simp
    qed
  qed
qed

end
