(* ===== verification/Proxy_Adapter.thy ===== *)
theory Proxy_Adapter
  imports Rust_Text Client_Routing
begin

text \<open>
  \<^verbatim>\<open>crates/velum-adapter-proxy\<close>: the loopback HTTP and SOCKS5 proxy. \<^verbatim>\<open>target.rs\<close> validates the target a
  client names, \<^verbatim>\<open>http.rs\<close> rewrites an absolute-form request, and \<^verbatim>\<open>lib.rs\<close> reads a request from a
  connection, asks the routing policy and relays. A connection is the bytes that are still to
  come from the client and the bytes written to it; reading past the end is the error of
  \<^verbatim>\<open>read_exact\<close>. Name resolution, connecting and opening a stream are parameters; that a write fails
  half-way and the copying of a relayed stream are not modelled.
\<close>

section \<open>Targets\<close>

datatype ErrorKind = InvalidInput | InvalidData | PermissionDenied | NotConnected | Unsupported
  | UnexpectedEof | OtherError

datatype IoError = IoError (io_kind: ErrorKind) (io_message: string)

datatype ProxyTarget = Address SockAddr | Domain string u16

fun ProxyTarget_domain :: "ProxyTarget \<Rightarrow> string option" where
  "ProxyTarget_domain (Address _) = None"
| "ProxyTarget_domain (Domain host _) = Some host"

definition invalid_target :: "string \<Rightarrow> IoError" where
  "invalid_target m = IoError InvalidInput m"

definition host_byte :: "char \<Rightarrow> bool" where
  "host_byte c = (is_ascii_alphanumeric c \<or> c \<in> {CHR ''-'', CHR ''.'', CHR ''_''})"

definition validate_hostname :: "string \<Rightarrow> (IoError, unit) result" where
  "validate_hostname host =
     (if host = [] \<or> length host > 253 \<or> hd host = CHR ''.'' \<or> List.last host = CHR ''.''
         \<or> list_ex (\<lambda>label. label = [] \<or> length label > 63) (split_char CHR ''.'' host)
         \<or> \<not> list_all host_byte host
      then Err (invalid_target ''proxy target hostname is invalid'')
      else Ok ())"

definition valid_address :: "SockAddr \<Rightarrow> (IoError, ProxyTarget) result" where
  "valid_address address =
     (if sock_port address = 0 then Err (invalid_target ''proxy target port must not be zero'')
      else Ok (Address address))"

definition ProxyTarget_from_host_port :: "string \<Rightarrow> u16 \<Rightarrow> (IoError, ProxyTarget) result" where
  "ProxyTarget_from_host_port host port =
     (if port = 0 then Err (invalid_target ''proxy target port must not be zero'')
      else if \<not> utf8_valid host then Err (invalid_target ''proxy target hostname is not UTF-8'')
      else and_then (validate_hostname host) (\<lambda>_. Ok (Domain host port)))"

definition ProxyTarget_from_authority :: "string \<Rightarrow> (IoError, ProxyTarget) result" where
  "ProxyTarget_from_authority authority =
     (case SockAddr_parse authority of
        Some address \<Rightarrow> Ok (Address address)
      | None \<Rightarrow>
          and_then (ok_or (rsplit_once CHR '':'' authority)
            (invalid_target ''proxy authority requires a host and port''))
          (\<lambda>(host, port).
            if CHR '':'' \<in> set host then Err (invalid_target ''IPv6 proxy authorities must use brackets'')
            else and_then (ok_or (parse_u16 port) (invalid_target ''proxy authority contains an invalid port''))
              (\<lambda>p. ProxyTarget_from_host_port host p)))"

text \<open>The port that follows a closing bracket.\<close>

definition bracket_port :: "string \<Rightarrow> (IoError, u16) result" where
  "bracket_port rest =
     (if rest = [] then Ok 80
      else and_then (ok_or (strip_prefix '':'' rest) (invalid_target ''IPv6 proxy authority is invalid''))
        (\<lambda>p. ok_or (parse_u16 p) (invalid_target ''proxy authority contains an invalid port'')))"

definition ProxyTarget_from_http_authority :: "string \<Rightarrow> (IoError, ProxyTarget) result" where
  "ProxyTarget_from_http_authority authority =
     (if prefix ''['' authority then
        and_then (ok_or (split_once CHR '']'' authority)
          (invalid_target ''IPv6 proxy authority is missing a bracket''))
        (\<lambda>(front, rest).
          and_then (ok_or (Ip_parse (tl front)) (invalid_target ''IPv6 proxy authority is invalid''))
          (\<lambda>ip. and_then (bracket_port rest) (\<lambda>port. valid_address (SockAddr_new ip port))))
      else if CHR '':'' \<in> set authority then ProxyTarget_from_authority authority
      else case Ip_parse authority of
        Some ip \<Rightarrow> valid_address (SockAddr_new ip 80)
      | None \<Rightarrow> ProxyTarget_from_host_port authority 80)"

definition ProxyTarget_resolve ::
  "(string \<Rightarrow> u16 \<Rightarrow> (IoError, SockAddr list) result) \<Rightarrow> ProxyTarget \<Rightarrow> (IoError, SockAddr) result" where
  "ProxyTarget_resolve lookup_host self =
     (case self of
        Address address \<Rightarrow> Ok address
      | Domain host port \<Rightarrow> and_then (lookup_host host port) (\<lambda>addresses.
          case addresses of
            [] \<Rightarrow> Err (invalid_target ''proxy target did not resolve'')
          | a # _ \<Rightarrow> Ok a))"

section \<open>Forwarded HTTP requests\<close>

record ForwardRequest =
  fwd_target :: ProxyTarget
  fwd_head :: string

definition invalid_request :: "string \<Rightarrow> IoError" where
  "invalid_request m = IoError InvalidInput m"

definition token_byte :: "char \<Rightarrow> bool" where
  "token_byte c = (is_ascii_alphanumeric c \<or> c \<in> set ''!#$%&*+-.^_`|~'' \<or> c = CHR 0x27)"

definition is_token :: "string \<Rightarrow> bool" where
  "is_token s = (s \<noteq> [] \<and> list_all token_byte s)"

text \<open>
  \<^verbatim>\<open>get(..7)\<close> is \<^verbatim>\<open>None\<close> for a shorter text and inside a character; the comparison with ASCII
  text fails in both cases as well, with the same error.
\<close>

definition split_absolute_http_uri :: "string \<Rightarrow> (IoError, string \<times> string) result" where
  "split_absolute_http_uri uri =
     (if \<not> (length uri \<ge> 7 \<and> eq_ignore_ascii_case (take 7 uri) ''http://'')
      then Err (invalid_request ''HTTP proxy target must use absolute-form http://'')
      else
        (let remainder = drop 7 uri;
             ends = (\<lambda>c. c \<in> {CHR ''/'', CHR ''?'', CHR ''#''});
             authority = takeWhile (\<lambda>c. \<not> ends c) remainder;
             rest = dropWhile (\<lambda>c. \<not> ends c) remainder
         in if authority = [] \<or> CHR ''@'' \<in> set authority
            then Err (invalid_request ''HTTP proxy authority is invalid'')
            else if CHR ''#'' \<in> set rest
            then Err (invalid_request ''HTTP request target must not contain a fragment'')
            else case rest of
              [] \<Rightarrow> Ok (authority, ''/'')
            | c # _ \<Rightarrow>
                if c = CHR ''?'' then Ok (authority, CHR ''/'' # rest)
                else if c = CHR ''/'' then Ok (authority, rest)
                else Err (invalid_request ''HTTP proxy target is invalid'')))"

definition names_connection :: "string \<Rightarrow> bool" where
  "names_connection name =
     (eq_ignore_ascii_case name ''connection'' \<or> eq_ignore_ascii_case name ''proxy-connection'')"

definition tokens_of :: "string \<Rightarrow> string list" where
  "tokens_of v = map to_ascii_lowercase (filter (\<lambda>t. t \<noteq> []) (map trim (split_char CHR '','' v)))"

definition parse_header :: "string \<Rightarrow> (IoError, string \<times> string) result" where
  "parse_header line =
     (if line \<noteq> [] \<and> hd line \<in> {CHR '' '', CHR 0x09}
      then Err (invalid_request ''folded HTTP headers are not supported'')
      else and_then (ok_or (split_once CHR '':'' line) (invalid_request ''malformed HTTP header''))
        (\<lambda>(name, v).
          if \<not> is_token name \<or> list_ex (\<lambda>c. is_ascii_control c \<and> c \<noteq> CHR 0x09) v
          then Err (invalid_request ''malformed HTTP header'')
          else Ok (name, v)))"

fun parse_headers ::
  "string list \<Rightarrow> (string \<times> string) list \<Rightarrow> string list
   \<Rightarrow> (IoError, (string \<times> string) list \<times> string list) result" where
  "parse_headers [] headers connection_tokens = Ok (headers, connection_tokens)"
| "parse_headers (line # rest) headers connection_tokens =
     and_then (parse_header line) (\<lambda>(name, v).
       parse_headers rest (headers @ [(name, trim v)])
         (connection_tokens @ (if names_connection name then tokens_of v else [])))"

definition dropped_header :: "string list \<Rightarrow> string \<Rightarrow> bool" where
  "dropped_header connection_tokens name =
     (eq_ignore_ascii_case name ''host'' \<or> eq_ignore_ascii_case name ''connection''
      \<or> eq_ignore_ascii_case name ''proxy-connection''
      \<or> eq_ignore_ascii_case name ''proxy-authorization''
      \<or> eq_ignore_ascii_case name ''keep-alive''
      \<or> list_ex (\<lambda>token. eq_ignore_ascii_case name token) connection_tokens)"

definition header_line :: "string \<times> string \<Rightarrow> string" where
  "header_line h = fst h @ '': '' @ snd h @ CRLF"

text \<open>The three fields of a request line: exactly three, separated by single spaces.\<close>

definition parse_request_line :: "string \<Rightarrow> (IoError, string \<times> string \<times> string) result" where
  "parse_request_line request_line =
     (case split_char CHR '' '' request_line of
        meth # more_fields \<Rightarrow>
          if \<not> is_token meth then Err (invalid_request ''invalid HTTP method'')
          else (case more_fields of
            [] \<Rightarrow> Err (invalid_request ''missing HTTP request target'')
          | uri # more_fields \<Rightarrow>
              (case more_fields of
                 version # more_fields \<Rightarrow>
                   if version \<notin> {''HTTP/1.0'', ''HTTP/1.1''}
                   then Err (invalid_request ''unsupported HTTP version'')
                   else if more_fields \<noteq> [] then Err (invalid_request ''invalid HTTP request line'')
                   else Ok (meth, uri, version)
               | [] \<Rightarrow> Err (invalid_request ''unsupported HTTP version'')))
      | [] \<Rightarrow> Err (invalid_request ''invalid HTTP method''))"

definition parse_forward_request :: "string \<Rightarrow> (IoError, ForwardRequest) result" where
  "parse_forward_request head =
     (if \<not> utf8_valid head then Err (invalid_request ''HTTP request is not UTF-8'')
      else and_then (ok_or (strip_suffix (CRLF @ CRLF) head)
        (invalid_request ''HTTP request header is incomplete'')) (\<lambda>body.
      and_then (parse_request_line (hd (split_crlf body))) (\<lambda>(meth, uri, version).
      and_then (split_absolute_http_uri uri) (\<lambda>(authority, origin_form).
      and_then (ProxyTarget_from_http_authority authority) (\<lambda>target.
      and_then (parse_headers (tl (split_crlf body)) [] []) (\<lambda>(headers, connection_tokens).
        Ok \<lparr>fwd_target = target,
          fwd_head = meth @ '' '' @ origin_form @ '' '' @ version @ CRLF @ ''Host: '' @ authority
            @ CRLF @ ''Connection: close'' @ CRLF
            @ concat (map header_line (filter (\<lambda>h. \<not> dropped_header connection_tokens (fst h)) headers))
            @ CRLF\<rparr>))))))"

section \<open>Reading a request\<close>

abbreviation MAX_HANDSHAKE_BYTES :: nat where
  "MAX_HANDSHAKE_BYTES \<equiv> 16384"

datatype ConnectProtocol = HttpConnect | HttpForward string | Socks5

fun ConnectProtocol_forward_head :: "ConnectProtocol \<Rightarrow> string option" where
  "ConnectProtocol_forward_head (HttpForward head) = Some head"
| "ConnectProtocol_forward_head HttpConnect = None"
| "ConnectProtocol_forward_head Socks5 = None"

record ProxyRequest =
  req_target :: ProxyTarget
  req_protocol :: ConnectProtocol

record Connection =
  unread :: string
  written :: string

type_synonym 'a reading = "Connection \<Rightarrow> (IoError, 'a) result \<times> Connection"

definition read_exact :: "nat \<Rightarrow> string reading" where
  "read_exact n s =
     (if n \<le> length (unread s) then (Ok (take n (unread s)), s\<lparr>unread := drop n (unread s)\<rparr>)
      else (Err (IoError UnexpectedEof ''early eof''), s\<lparr>unread := []\<rparr>))"

definition write_all :: "string \<Rightarrow> Connection \<Rightarrow> Connection" where
  "write_all bs s = s\<lparr>written := written s @ bs\<rparr>"

definition then_read :: "'a reading \<Rightarrow> ('a \<Rightarrow> 'b reading) \<Rightarrow> 'b reading" where
  "then_read r f s = (case r s of (Inl e, s1) \<Rightarrow> (Err e, s1) | (Inr a, s1) \<Rightarrow> f a s1)"

definition return_read :: "(IoError, 'a) result \<Rightarrow> 'a reading" where
  "return_read r s = (r, s)"

definition be_value :: "string \<Rightarrow> nat" where
  "be_value bs = foldl (\<lambda>acc c. acc * 256 + of_char c) 0 bs"

text \<open>The address of a SOCKS request; the port follows it.\<close>

definition read_socks5_address :: "char \<Rightarrow> ProxyTarget reading" where
  "read_socks5_address kind =
     (if kind = CHR 0x01 then
        then_read (read_exact 4) (\<lambda>v. return_read (Ok (Address (SockAddr_new (V4 (word_of_nat (be_value v))) 0))))
      else if kind = CHR 0x04 then
        then_read (read_exact 16) (\<lambda>v. return_read (Ok (Address (SockAddr_new (V6 (word_of_nat (be_value v))) 0))))
      else if kind = CHR 0x03 then
        then_read (read_exact 1) (\<lambda>l. then_read (read_exact (of_char (hd l))) (\<lambda>host.
          return_read (if utf8_valid host then Ok (Domain host 0)
            else Err (IoError InvalidInput ''proxy target hostname is not UTF-8''))))
      else return_read (Err (IoError InvalidInput ''invalid SOCKS address type'')))"

definition with_port :: "ProxyTarget \<Rightarrow> u16 \<Rightarrow> (IoError, ProxyTarget) result" where
  "with_port t port =
     (case t of
        Address address \<Rightarrow> Ok (Address (SockAddr_new (sock_ip address) port))
      | Domain host _ \<Rightarrow> ProxyTarget_from_host_port host port)"

definition read_socks5_target :: "ProxyTarget reading" where
  "read_socks5_target =
     then_read (read_exact 1) (\<lambda>count.
     then_read (read_exact (of_char (hd count))) (\<lambda>methods.
       if CHR 0x00 \<notin> set methods
       then return_read (Err (IoError PermissionDenied ''SOCKS authentication is required''))
       else (\<lambda>s. (then_read (read_exact 4) (\<lambda>request.
         if take 3 request \<noteq> [CHR 0x05, CHR 0x01, CHR 0x00]
         then return_read (Err (IoError InvalidInput ''only SOCKS CONNECT is supported''))
         else then_read (read_socks5_address (request ! 3)) (\<lambda>address.
           then_read (read_exact 2) (\<lambda>port.
             return_read (with_port address (word_of_nat (be_value port)))))))
         (write_all [CHR 0x05, CHR 0x00] s))))"

text \<open>The loop that reads a head byte by byte.\<close>

fun read_http_head :: "string \<Rightarrow> string \<Rightarrow> (IoError, string) result \<times> string" where
  "read_http_head request input =
     (if suffix (CRLF @ CRLF) request then (Ok request, input)
      else if length request = MAX_HANDSHAKE_BYTES
      then (Err (IoError InvalidData ''HTTP request header is too large''), input)
      else case input of
        [] \<Rightarrow> (Err (IoError UnexpectedEof ''early eof''), [])
      | c # rest \<Rightarrow> read_http_head (request @ [c]) rest)"

definition parse_http_head :: "string \<Rightarrow> (IoError, ProxyRequest) result" where
  "parse_http_head request =
     (if \<not> utf8_valid request then Err (IoError InvalidData ''HTTP request is not UTF-8'')
      else case split_whitespace request of
        [] \<Rightarrow> Err (IoError InvalidInput ''missing HTTP method'')
      | [_] \<Rightarrow> Err (IoError InvalidInput ''missing HTTP authority'')
      | meth # authority # parts \<Rightarrow>
          if eq_ignore_ascii_case meth ''CONNECT'' then
            (case parts of
               [] \<Rightarrow> Err (IoError InvalidInput ''missing HTTP version'')
             | version # others \<Rightarrow>
                 if version \<notin> {''HTTP/1.0'', ''HTTP/1.1''} \<or> others \<noteq> []
                 then Err (IoError InvalidInput ''invalid HTTP CONNECT request line'')
                 else and_then (ProxyTarget_from_authority authority) (\<lambda>target.
                   Ok \<lparr>req_target = target, req_protocol = HttpConnect\<rparr>))
          else and_then (parse_forward_request request) (\<lambda>forward.
            Ok \<lparr>req_target = fwd_target forward, req_protocol = HttpForward (fwd_head forward)\<rparr>))"

definition read_http_request :: "char \<Rightarrow> ProxyRequest reading" where
  "read_http_request first s =
     (case read_http_head [first] (unread s) of
        (Inl e, rest) \<Rightarrow> (Err e, s\<lparr>unread := rest\<rparr>)
      | (Inr request, rest) \<Rightarrow> (parse_http_head request, s\<lparr>unread := rest\<rparr>))"

definition read_request :: "ProxyRequest reading" where
  "read_request =
     then_read (read_exact 1) (\<lambda>first.
       if hd first = CHR 0x05
       then then_read read_socks5_target (\<lambda>target.
         return_read (Ok \<lparr>req_target = target, req_protocol = Socks5\<rparr>))
       else read_http_request (hd first))"

section \<open>Serving a request\<close>

definition success_reply :: "ConnectProtocol \<Rightarrow> string" where
  "success_reply p =
     (case p of
        HttpConnect \<Rightarrow> ''HTTP/1.1 200 Connection Established'' @ CRLF @ CRLF
      | Socks5 \<Rightarrow> [CHR 0x05, CHR 0x00, CHR 0x00, CHR 0x01] @ replicate 6 (CHR 0x00)
      | HttpForward _ \<Rightarrow> [])"

definition rejected_reply :: "ConnectProtocol \<Rightarrow> string" where
  "rejected_reply p =
     (case p of
        Socks5 \<Rightarrow> [CHR 0x05, CHR 0x02, CHR 0x00, CHR 0x01] @ replicate 6 (CHR 0x00)
      | _ \<Rightarrow> ''HTTP/1.1 403 Forbidden'' @ CRLF @ ''Content-Length: 0'' @ CRLF @ CRLF)"

text \<open>What a served connection does to the outside, in order.\<close>

datatype proxy_effect =
    ConnectTo SockAddr
  | OpenRelayStream string SockAddr
  | ReplyLocal string
  | SendRemote string
  | RelayBytes

datatype ProxyRuntime = Single | Pool

record proxy_environment =
  lookup_host :: "string \<Rightarrow> u16 \<Rightarrow> (IoError, SockAddr list) result"
  tcp_connect :: "SockAddr \<Rightarrow> (IoError, unit) result"
  runtime_open :: "string \<Rightarrow> SockAddr \<Rightarrow> bool"
  generation_online :: bool

definition runtime_error :: IoError where
  "runtime_error = IoError OtherError ''Velum runtime stream failed''"

definition relay_stream :: "ConnectProtocol \<Rightarrow> proxy_effect list" where
  "relay_stream p = [ReplyLocal (success_reply p)]
     @ (case ConnectProtocol_forward_head p of None \<Rightarrow> [] | Some head \<Rightarrow> [SendRemote head]) @ [RelayBytes]"

definition relay_proxy ::
  "proxy_environment \<Rightarrow> ProxyRuntime \<Rightarrow> string \<Rightarrow> SockAddr \<Rightarrow> ConnectProtocol
   \<Rightarrow> (IoError, unit) result \<times> proxy_effect list" where
  "relay_proxy env runtime reference target p =
     (case runtime of
        Single \<Rightarrow>
          if reference = ''PROXY'' then
            (if \<not> runtime_open env reference target then (Err runtime_error, [])
             else if \<not> generation_online env
             then (Err (IoError NotConnected ''runtime generation ended''), [OpenRelayStream reference target])
             else (Ok (), OpenRelayStream reference target # relay_stream p))
          else (Err (IoError Unsupported ''explicit node routing requires a multi-node engine''), [])
      | Pool \<Rightarrow>
          if \<not> runtime_open env reference target then (Err runtime_error, [])
          else (Ok (), OpenRelayStream reference target # relay_stream p))"

definition serve_action ::
  "proxy_environment \<Rightarrow> ProxyRuntime \<Rightarrow> RoutingAction \<Rightarrow> SockAddr \<Rightarrow> ConnectProtocol
   \<Rightarrow> (IoError, unit) result \<times> proxy_effect list" where
  "serve_action env runtime act target p =
     (case act of
        Direct \<Rightarrow>
          (case tcp_connect env target of
             Inl e \<Rightarrow> (Err e, [])
           | Inr _ \<Rightarrow> (Ok (), ConnectTo target # relay_stream p))
      | Proxy \<Rightarrow> relay_proxy env runtime ''PROXY'' target p
      | Reject \<Rightarrow> (Err (IoError PermissionDenied ''proxy request rejected by routing policy''),
          [ReplyLocal (rejected_reply p)])
      | Node n \<Rightarrow> relay_proxy env runtime n target p)"

definition serve ::
  "proxy_environment \<Rightarrow> ProxyRuntime \<Rightarrow> RoutingPolicy \<Rightarrow> string
   \<Rightarrow> (IoError, unit) result \<times> proxy_effect list" where
  "serve env runtime policy input =
     (case read_request \<lparr>unread = input, written = []\<rparr> of
        (Inl e, s) \<Rightarrow> (Err e, [ReplyLocal (written s)])
      | (Inr request, s) \<Rightarrow>
          (case ProxyTarget_resolve (lookup_host env) (req_target request) of
             Inl e \<Rightarrow> (Err e, [ReplyLocal (written s)])
           | Inr target \<Rightarrow>
               (let act = RoutingPolicy_decide policy
                      \<lparr>ctx_domain = ProxyTarget_domain (req_target request),
                       ctx_destination = sock_ip target, ctx_destination_port = sock_port target\<rparr>;
                    (r, effects) = serve_action env runtime act target (req_protocol request)
                in (r, ReplyLocal (written s) # effects))))"

declare read_http_head.simps [simp del]

end
