(* ===== verification/Proxy_Properties.thy ===== *)
theory Proxy_Properties
  imports Proxy_Adapter
begin

text \<open>
  What the proxy adapter forwards and accepts: the exact lines of a rewritten request, the framing
  of a request head, the SOCKS5 requests it understands, and that it only reaches what the routing
  policy allows. A CONNECT request with any header field is refused, which no client that
  follows HTTP/1.1 can avoid.
\<close>

section \<open>Reference view of a request head\<close>

text \<open>The header fields of a head, and the names its Connection fields list.\<close>

definition raw_field :: "string \<Rightarrow> string \<times> string" where
  "raw_field line = (case split_once CHR '':'' line of None \<Rightarrow> (line, []) | Some f \<Rightarrow> f)"

definition header_fields :: "string \<Rightarrow> (string \<times> string) list" where
  "header_fields body = map raw_field (tl (split_crlf body))"

definition connection_options :: "string \<Rightarrow> string list" where
  "connection_options body =
     concat (map (\<lambda>(n, v). tokens_of v) (filter (\<lambda>(n, v). names_connection n) (header_fields body)))"

definition end_to_end :: "string \<Rightarrow> string \<times> string \<Rightarrow> bool" where
  "end_to_end body field =
     (let n = to_ascii_lowercase (fst field) in
      n \<notin> {''host'', ''connection'', ''proxy-connection'', ''proxy-authorization'', ''keep-alive''}
      \<and> n \<notin> set (connection_options body))"

definition field_line :: "string \<times> string \<Rightarrow> string" where
  "field_line field = fst field @ '': '' @ trim (snd field)"

text \<open>What a SOCKS5 client sends: its methods, and a CONNECT request for a target.\<close>

definition be_chars :: "nat \<Rightarrow> nat \<Rightarrow> string" where
  "be_chars n v = map (\<lambda>b. char_of (unat b)) (nat_be_bytes n v)"

fun socks_destination :: "ProxyTarget \<Rightarrow> string" where
  "socks_destination (Address a) =
     (case sock_ip a of V4 ip \<Rightarrow> CHR 0x01 # be_chars 4 (unat ip) | V6 ip \<Rightarrow> CHR 0x04 # be_chars 16 (unat ip))
     @ be_chars 2 (unat (sock_port a))"
| "socks_destination (Domain host port) =
     CHR 0x03 # char_of (length host) # host @ be_chars 2 (unat port)"

definition socks_request :: "string \<Rightarrow> ProxyTarget \<Rightarrow> string" where
  "socks_request methods target =
     CHR 0x05 # char_of (length methods) # methods @ [CHR 0x05, CHR 0x01, CHR 0x00] @ socks_destination target"

fun socks_target :: "ProxyTarget \<Rightarrow> bool" where
  "socks_target (Address a) = (sock_scope a = 0)"
| "socks_target (Domain host port) = (validate_hostname host = Ok () \<and> port \<noteq> 0)"

definition socks_tail :: "char \<Rightarrow> ProxyTarget reading" where
  "socks_tail kind = then_read (read_socks5_address kind) (\<lambda>address.
     then_read (read_exact 2) (\<lambda>port. return_read (with_port address (word_of_nat (be_value port)))))"

text \<open>A concrete request.\<close>

definition demo_body :: string where
  "demo_body = ''GET http://a.b/p?q HTTP/1.1'' @ CRLF @ ''Host: x'' @ CRLF @ ''Proxy-Connection: X-A'' @ CRLF
     @ ''x-a: 1'' @ CRLF @ ''X-B:  2 ''"

definition framed_head :: "string \<Rightarrow> string \<Rightarrow> string \<Rightarrow> string \<Rightarrow> bool" where
  "framed_head request input head rest \<longleftrightarrow>
     request @ input = head @ rest \<and> length request \<le> length head \<and> length head \<le> MAX_HANDSHAKE_BYTES
     \<and> suffix (CRLF @ CRLF) head
     \<and> (\<forall>n. length request \<le> n \<longrightarrow> n < length head \<longrightarrow> \<not> suffix (CRLF @ CRLF) (take n head))"

section \<open>Headers\<close>

lemma parse_headers_fields:
  assumes "parse_headers ls hs ts = Ok (hs', ts')"
  shows "hs' = hs @ map (\<lambda>l. (fst (raw_field l), trim (snd (raw_field l)))) ls
    \<and> ts' = ts @ concat (map (\<lambda>l. if names_connection (fst (raw_field l)) then tokens_of (snd (raw_field l)) else []) ls)
    \<and> (\<forall>l \<in> set ls. is_token (fst (raw_field l)) \<and> no_line_byte (snd (raw_field l)))"
  using assms
proof (induction ls arbitrary: hs ts)
  case (Cons l ls)
  obtain n v where f: "parse_header l = Ok (n, v)"
    and rest: "parse_headers ls (hs @ [(n, trim v)]) (ts @ (if names_connection n then tokens_of v else [])) = Ok (hs', ts')"
    using Cons.prems by (auto simp: and_then_def split: sum.splits prod.splits)
  from f have "raw_field l = (n, v)" "is_token n" "list_all (\<lambda>c. \<not> is_ascii_control c \<or> c = CHR 0x09) v"
    by (auto simp: parse_header_def raw_field_def and_then_def ok_or_def list_all_iff list_ex_iff
        split: if_splits option.splits)
  moreover from this(3) have "no_line_byte v"
    by (auto simp: no_line_byte_def list_all_iff is_ascii_control_def)
  ultimately show ?case
    using Cons.IH [OF rest] by simp
qed simp

lemma lowercase_idem [simp]: "to_ascii_lowercase (to_ascii_lowercase s) = to_ascii_lowercase s"
proof -
  have "ascii_lower (ascii_lower c) = ascii_lower c" for c
    by (auto simp: ascii_lower_def is_ascii_upper_def)
  then show ?thesis
    by (simp add: to_ascii_lowercase_def)
qed

lemma tokens_lowercase: "t \<in> set (tokens_of v) \<Longrightarrow> to_ascii_lowercase t = t"
  by (auto simp: tokens_of_def)

lemma dropped_header_iff:
  assumes "\<And>t. t \<in> set ts \<Longrightarrow> to_ascii_lowercase t = t"
  shows "dropped_header ts n \<longleftrightarrow> to_ascii_lowercase n
     \<in> {''host'', ''connection'', ''proxy-connection'', ''proxy-authorization'', ''keep-alive''} \<union> set ts"
proof -
  have "list_ex (\<lambda>t. eq_ignore_ascii_case n t) ts \<longleftrightarrow> to_ascii_lowercase n \<in> set ts"
    using assms by (fastforce simp: list_ex_iff eq_ignore_ascii_case_def)
  moreover have "to_ascii_lowercase ''host'' = ''host''" "to_ascii_lowercase ''connection'' = ''connection''"
    "to_ascii_lowercase ''proxy-connection'' = ''proxy-connection''"
    "to_ascii_lowercase ''proxy-authorization'' = ''proxy-authorization''"
    "to_ascii_lowercase ''keep-alive'' = ''keep-alive''"
    by (simp_all add: to_ascii_lowercase_def ascii_lower_def is_ascii_upper_def)
  ultimately show ?thesis
    by (simp add: dropped_header_def eq_ignore_ascii_case_def)
qed

lemma end_to_end_fst: "end_to_end body (fst f, v) = end_to_end body f"
  by (simp add: end_to_end_def)

text \<open>The kept fields are the end-to-end ones of the reference view.\<close>

lemma kept_headers:
  assumes "parse_headers (tl (split_crlf body)) [] [] = Ok (hs, ts)"
  shows "filter (\<lambda>h. \<not> dropped_header ts (fst h)) hs
      = map (\<lambda>f. (fst f, trim (snd f))) (filter (end_to_end body) (header_fields body))"
    and "\<And>f. f \<in> set (header_fields body) \<Longrightarrow> is_token (fst f) \<and> no_line_byte (snd f)"
proof -
  note fields = parse_headers_fields [OF assms]
  then have hs: "hs = map (\<lambda>f. (fst f, trim (snd f))) (header_fields body)"
    by (simp add: header_fields_def)
  have "concat (map (\<lambda>l. if names_connection (fst (raw_field l)) then tokens_of (snd (raw_field l)) else []) ls)
      = concat (map (\<lambda>(n, v). tokens_of v) (filter (\<lambda>(n, v). names_connection n) (map raw_field ls)))" for ls
    by (induction ls) (auto split: prod.splits)
  then have ts: "ts = connection_options body"
    using fields by (simp add: connection_options_def header_fields_def)
  have "(\<not> dropped_header ts (fst f)) = end_to_end body f" for f
    unfolding ts by (subst dropped_header_iff)
      (auto simp: end_to_end_def Let_def connection_options_def tokens_lowercase)
  then show "filter (\<lambda>h. \<not> dropped_header ts (fst h)) hs
      = map (\<lambda>f. (fst f, trim (snd f))) (filter (end_to_end body) (header_fields body))"
    by (simp add: hs filter_map comp_def end_to_end_fst)
  show "is_token (fst f) \<and> no_line_byte (snd f)" if "f \<in> set (header_fields body)" for f
    using fields that by (auto simp: header_fields_def)
qed

section \<open>Authorities\<close>

lemma token_no_line_byte: "is_token s \<Longrightarrow> no_line_byte s"
  by (auto simp: is_token_def no_line_byte_def list_all_iff token_byte_def is_ascii_alphanumeric_def
      is_ascii_digit_def is_ascii_upper_def is_ascii_lower_def)

lemma hostname_no_line_byte: "validate_hostname h = Ok () \<Longrightarrow> no_line_byte h"
  by (auto simp: validate_hostname_def no_line_byte_def list_all_iff host_byte_def is_ascii_alphanumeric_def
      is_ascii_digit_def is_ascii_upper_def is_ascii_lower_def split: if_splits)

lemma host_port_no_line_byte: "ProxyTarget_from_host_port h p = Ok t \<Longrightarrow> no_line_byte h"
  by (auto simp: ProxyTarget_from_host_port_def and_then_def hostname_no_line_byte split: if_splits sum.splits)

lemma parse_u16_no_line_byte:
  assumes "parse_u16 s = Some p"
  shows "no_line_byte s"
proof -
  obtain d where "s = d \<or> s = CHR ''+'' # d" "list_all is_ascii_digit d"
    using assms by (auto simp: parse_u16_def parse_unsigned_def Let_def split: if_splits list.splits)
  moreover from this(2) have "no_line_byte d"
    by (auto simp: no_line_byte_def list_all_iff is_ascii_digit_def)
  ultimately show ?thesis
    by auto
qed

lemma split_once_Some: "split_once d s = Some (a, b) \<Longrightarrow> s = a @ d # b"
  by (induction s arbitrary: a) (auto split: if_splits)

lemma rsplit_once_Some: "rsplit_once d s = Some (a, b) \<Longrightarrow> s = a @ d # b"
  by (auto simp: rsplit_once_def dest!: split_once_Some) (metis append.assoc append_Cons append_Nil rev.simps(2) rev_append rev_rev_ident)

lemma authority_no_line_byte:
  assumes "ProxyTarget_from_authority s = Ok t"
  shows "no_line_byte s"
proof (cases "SockAddr_parse s")
  case None
  then obtain h p port where "rsplit_once CHR '':'' s = Some (h, p)" "parse_u16 p = Some port"
    "ProxyTarget_from_host_port h port = Ok t"
    using assms by (auto simp: ProxyTarget_from_authority_def and_then_def ok_or_def
        split: if_splits option.splits sum.splits prod.splits)
  then show ?thesis
    by (auto dest!: rsplit_once_Some simp: host_port_no_line_byte parse_u16_no_line_byte)
qed (use assms in \<open>auto dest: SockAddr_parse_clean\<close>)

lemma bracket_port_no_line_byte: "bracket_port s = Ok p \<Longrightarrow> no_line_byte s"
  by (auto simp: bracket_port_def and_then_def ok_or_def strip_prefix_def prefix_def parse_u16_no_line_byte
      split: if_splits option.splits)

lemma http_authority_no_line_byte:
  assumes "ProxyTarget_from_http_authority s = Ok t"
  shows "no_line_byte s"
proof (cases "prefix ''['' s")
  case True
  then obtain a b ip port where "split_once CHR '']'' s = Some (a, b)" "Ip_parse (tl a) = Some ip" "bracket_port b = Ok port"
    using assms by (auto simp: ProxyTarget_from_http_authority_def and_then_def ok_or_def
        split: option.splits sum.splits prod.splits)
  moreover from this(1) True have "s = CHR ''['' # tl a @ CHR '']'' # b"
    by (cases a) (auto dest!: split_once_Some simp: prefix_def)
  moreover have "no_line_byte (tl a)" "no_line_byte b"
    using calculation Ip_parse_clean bracket_port_no_line_byte by blast+
  ultimately show ?thesis
    by simp
next
  case False
  then show ?thesis
    using assms
    by (auto simp: ProxyTarget_from_http_authority_def
        dest: authority_no_line_byte Ip_parse_clean host_port_no_line_byte split: if_splits option.splits)
qed

section \<open>The rewritten head\<close>

lemma split_crlf_lines:
  "list_all crlf_free ls \<Longrightarrow> split_crlf (concat (map (\<lambda>l. l @ CRLF) ls) @ rest) = ls @ split_crlf rest"
  by (induction ls) (auto simp: split_crlf_line)

lemma parse_request_line_Ok:
  assumes "parse_request_line l = Ok (m, u, v)"
  shows "l = m @ '' '' @ u @ '' '' @ v \<and> is_token m \<and> v \<in> {''HTTP/1.0'', ''HTTP/1.1''}"
proof -
  have "split_char CHR '' '' l = [m, u, v]" "is_token m" "v \<in> {''HTTP/1.0'', ''HTTP/1.1''}"
    using assms by (auto simp: parse_request_line_def split: list.splits if_splits)
  moreover have "CHR '' '' \<notin> set m \<and> CHR '' '' \<notin> set u \<and> CHR '' '' \<notin> set v"
    using set_split_char [of "CHR '' ''" l] calculation(1) by auto
  then have "split_char CHR '' '' (m @ '' '' @ u @ '' '' @ v) = [m, u, v]"
    by (simp add: split_char_append split_char_single)
  ultimately show ?thesis
    using split_char_inj by metis
qed

lemma uri_origin:
  assumes "split_absolute_http_uri u = Ok (a, orig)" "crlf_free u"
  shows "crlf_free orig"
proof -
  let ?rest = "dropWhile (\<lambda>c. c \<notin> {CHR ''/'', CHR ''?'', CHR ''#''}) (drop 7 u)"
  have "orig = ''/'' \<or> orig = CHR ''/'' # ?rest \<or> orig = ?rest"
    using assms(1) by (auto simp: split_absolute_http_uri_def Let_def split: if_splits list.splits)
  moreover have "suffix ?rest u"
    using suffix_dropWhile suffix_drop suffix_order.order_trans by blast
  then have "crlf_free ?rest"
    using assms(2) crlf_free_sublist suffix_imp_sublist by blast
  moreover from this have "crlf_free (CHR ''/'' # ?rest)"
    using crlf_free_join [of "[]" ?rest "CHR ''/''"] by simp
  ultimately show ?thesis
    by auto
qed

lemma request_line_free:
  assumes line: "parse_request_line l = Ok (m, u, v)" and free: "crlf_free l"
    and uri: "split_absolute_http_uri u = Ok (a, orig)"
  shows "crlf_free (m @ '' '' @ orig @ '' '' @ v)"
proof -
  note l = parse_request_line_Ok [OF line]
  then have "sublist u l"
    unfolding sublist_def by (intro exI [of _ "m @ '' ''"] exI [of _ "'' '' @ v"]) simp
  then have "crlf_free orig"
    using uri_origin [OF uri] crlf_free_sublist [OF free] by blast
  moreover have "no_line_byte v" "no_line_byte m"
    using l token_no_line_byte by auto
  ultimately show ?thesis
    using crlf_free_join [OF _ crlf_free_join [of orig v "CHR '' ''"], of m "CHR '' ''"] no_line_byte_crlf_free
    by simp
qed

lemma kept_lines_free:
  assumes "parse_headers (tl (split_crlf body)) [] [] = Ok (hs, ts)"
  shows "list_all crlf_free (map field_line (filter (end_to_end body) (header_fields body)))"
proof -
  have "no_line_byte (field_line f)" if "f \<in> set (header_fields body)" for f
    using kept_headers(2) [OF assms that] token_no_line_byte set_trim [of "snd f"]
    by (auto simp: field_line_def no_line_byte_def)
  then show ?thesis
    by (auto simp: list_all_iff no_line_byte_crlf_free)
qed

lemma kept_lines_head:
  assumes "parse_headers (tl (split_crlf body)) [] [] = Ok (hs, ts)"
  shows "concat (map header_line (filter (\<lambda>h. \<not> dropped_header ts (fst h)) hs))
    = concat (map (\<lambda>l. l @ CRLF) (map field_line (filter (end_to_end body) (header_fields body))))"
proof -
  have "header_line (fst f, trim (snd f)) = field_line f @ CRLF" for f
    by (simp add: header_line_def field_line_def)
  then show ?thesis
    by (simp add: kept_headers(1) [OF assms] comp_def)
qed

text \<open>
  C26. A forwarded HTTP request is rewritten to exactly these lines and no others: the request line in
  origin form, a Host field with the validated authority, \<^verbatim>\<open>Connection: close\<close>, and the client's own
  fields in order without the hop-by-hop ones, which are the fixed names and whatever the
  client's Connection fields list. Nothing a client puts in a field adds a line to the head.
\<close>

theorem forwarded_head_exact:
  assumes "parse_forward_request head = Ok r"
  shows "\<exists>body meth uri version authority origin.
    head = body @ CRLF @ CRLF
    \<and> hd (split_crlf body) = meth @ '' '' @ uri @ '' '' @ version
    \<and> split_absolute_http_uri uri = Ok (authority, origin)
    \<and> ProxyTarget_from_http_authority authority = Ok (fwd_target r)
    \<and> split_crlf (fwd_head r) =
        [meth @ '' '' @ origin @ '' '' @ version, ''Host: '' @ authority, ''Connection: close'']
        @ map field_line (filter (end_to_end body) (header_fields body)) @ [[], []]"
proof -
  obtain body meth uri version authority orig hs ts where p:
    "strip_suffix (CRLF @ CRLF) head = Some body"
    "parse_request_line (hd (split_crlf body)) = Ok (meth, uri, version)"
    "split_absolute_http_uri uri = Ok (authority, orig)"
    "ProxyTarget_from_http_authority authority = Ok (fwd_target r)"
    "parse_headers (tl (split_crlf body)) [] [] = Ok (hs, ts)"
    and head: "fwd_head r = meth @ '' '' @ orig @ '' '' @ version @ CRLF @ ''Host: '' @ authority
      @ CRLF @ ''Connection: close'' @ CRLF
      @ concat (map header_line (filter (\<lambda>h. \<not> dropped_header ts (fst h)) hs)) @ CRLF"
    using assms by (auto simp: parse_forward_request_def and_then_def ok_or_def
        split: if_splits option.splits sum.splits prod.splits)
  let ?lines = "[meth @ '' '' @ orig @ '' '' @ version, ''Host: '' @ authority, ''Connection: close'']
    @ map field_line (filter (end_to_end body) (header_fields body)) @ [[]]"
  have "crlf_free (meth @ '' '' @ orig @ '' '' @ version)"
    using split_crlf_free [of "hd (split_crlf body)" body] by (intro request_line_free [OF p(2) _ p(3)]) simp
  moreover have "crlf_free (''Host: '' @ authority)" "crlf_free ''Connection: close''"
    by (rule no_line_byte_crlf_free; use http_authority_no_line_byte [OF p(4)] in simp)+
  ultimately have "list_all crlf_free ?lines"
    using kept_lines_free [OF p(5)] by simp
  moreover have "fwd_head r = concat (map (\<lambda>l. l @ CRLF) ?lines) @ []"
    unfolding head kept_lines_head [OF p(5)] by simp
  ultimately have "split_crlf (fwd_head r) = ?lines @ split_crlf []"
    using split_crlf_lines [of ?lines "[]"] by (simp only:)
  also have "?lines @ split_crlf []
      = [meth @ '' '' @ orig @ '' '' @ version, ''Host: '' @ authority, ''Connection: close'']
        @ map field_line (filter (end_to_end body) (header_fields body)) @ [[], []]"
    by (simp only: split_crlf.simps append_assoc append.simps)
  finally show ?thesis
    using p(1,3,4) conjunct1 [OF parse_request_line_Ok [OF p(2)]]
    by (intro exI conjI) (simp_all only: strip_suffix_Some_iff append_assoc)
qed

lemma read_groups_numeral:
  "read_groups (numeral k) is_first s =
     (case (if pred_numeral k = 0 then None else read_separated CHR '':'' is_first read_ipv4_addr s) of
        Some (v4, rest) \<Rightarrow> ([v4 div 65536, v4 mod 65536], True, rest)
      | None \<Rightarrow>
          (case read_separated CHR '':'' is_first (read_number 16 4 True 65536) s of
             None \<Rightarrow> ([], False, s)
           | Some (g, rest) \<Rightarrow>
               (let (gs, v4, rest') = read_groups (pred_numeral k) False rest in (g # gs, v4, rest'))))"
  unfolding numeral_eq_Suc [of k] by (rule read_groups.simps(2))

lemma demo_address: "Ip_parse ''a.b'' = None"
  by (simp add: Ip_parse_def read_ipv4_addr_def read_ipv6_addr_def read_octet_def read_separated_def
      read_number_def digit_of_def is_ascii_digit_def is_ascii_upper_def is_ascii_lower_def read_groups_numeral)

lemma demo_authority: "ProxyTarget_from_http_authority ''a.b'' = Ok (Domain ''a.b'' 80)"
proof -
  have "ProxyTarget_from_host_port ''a.b'' 80 = Ok (Domain ''a.b'' 80)"
    by code_simp
  then show ?thesis
    by (simp add: ProxyTarget_from_http_authority_def demo_address)
qed

lemma demo_forward: "\<exists>h. parse_forward_request (demo_body @ CRLF @ CRLF) = Ok \<lparr>fwd_target = Domain ''a.b'' 80, fwd_head = h\<rparr>"
proof -
  have "utf8_valid (demo_body @ CRLF @ CRLF)"
    by code_simp
  moreover have "strip_suffix (CRLF @ CRLF) (demo_body @ CRLF @ CRLF) = Some demo_body"
    by (simp add: strip_suffix_Some_iff)
  moreover have "parse_request_line (hd (split_crlf demo_body)) = Ok (''GET'', ''http://a.b/p?q'', ''HTTP/1.1'')"
    by code_simp
  moreover have "split_absolute_http_uri ''http://a.b/p?q'' = Ok (''a.b'', ''/p?q'')"
    by code_simp
  moreover have "parse_headers (tl (split_crlf demo_body)) [] []
      = Ok ([(''Host'', ''x''), (''Proxy-Connection'', ''X-A''), (''x-a'', ''1''), (''X-B'', ''2'')], [''x-a''])"
    by code_simp
  ultimately show ?thesis
    by (simp add: parse_forward_request_def and_then_def ok_or_def demo_authority)
qed

theorem forwarded_head_exact_witness:
  "\<exists>h meth uri version authority origin body.
     parse_forward_request (demo_body @ CRLF @ CRLF) = Ok \<lparr>fwd_target = Domain ''a.b'' 80, fwd_head = h\<rparr>
     \<and> split_crlf h = [meth @ '' '' @ origin @ '' '' @ version, ''Host: '' @ authority, ''Connection: close'']
         @ map field_line (filter (end_to_end body) (header_fields body)) @ [[], []]
     \<and> split_absolute_http_uri uri = Ok (authority, origin)"
proof -
  obtain h where h: "parse_forward_request (demo_body @ CRLF @ CRLF) = Ok \<lparr>fwd_target = Domain ''a.b'' 80, fwd_head = h\<rparr>"
    using demo_forward by blast
  from forwarded_head_exact [OF h] show ?thesis
    using h by (simp only: ForwardRequest.simps) blast
qed

section \<open>Framing of a request head\<close>

text \<open>A head that starts with what was read, is complete, and was not complete before.\<close>

lemma take_of_append: "a @ x = h @ r \<Longrightarrow> length a \<le> length h \<Longrightarrow> take (length a) h = a"
proof -
  assume "a @ x = h @ r" and len: "length a \<le> length h"
  then have "take (length a) (h @ r) = a"
    by (metis append_eq_conv_conj)
  with len show ?thesis
    by simp
qed

lemma framed_done:
  assumes "suffix (CRLF @ CRLF) request" "length request \<le> MAX_HANDSHAKE_BYTES"
  shows "framed_head request input head rest \<longleftrightarrow> head = request \<and> rest = input"
proof
  assume f: "framed_head request input head rest"
  then have "take (length request) head = request"
    unfolding framed_head_def by (intro take_of_append) (elim conjE; assumption)+
  moreover have "\<not> suffix (CRLF @ CRLF) (take (length request) head)" if "length request < length head"
    using f that by (simp add: framed_head_def)
  ultimately have "\<not> length request < length head"
    using assms(1) by fastforce
  then show "head = request \<and> rest = input"
    using f by (auto simp: framed_head_def append_eq_append_conv)
qed (use assms in \<open>auto simp: framed_head_def\<close>)

lemma framed_more:
  assumes "\<not> suffix (CRLF @ CRLF) request"
  shows "framed_head request (c # input) head rest \<longleftrightarrow> framed_head (request @ [c]) input head rest"
proof
  assume f: "framed_head request (c # input) head rest"
  then have f': "request @ c # input = head @ rest" "suffix (CRLF @ CRLF) head"
    by (simp_all add: framed_head_def)
  have "length head \<noteq> length request"
  proof
    assume "length head = length request"
    with f'(1) have "head = request"
      using append_eq_append_conv [of request head "c # input" rest] by simp
    with f'(2) assms show False
      by simp
  qed
  then show "framed_head (request @ [c]) input head rest"
    using f by (simp add: framed_head_def)
next
  assume f: "framed_head (request @ [c]) input head rest"
  then have "request @ c # input = head @ rest" "length request \<le> length head"
    by (auto simp: framed_head_def)
  then have "take (length request) head = request"
    by (rule take_of_append)
  then have "\<not> suffix (CRLF @ CRLF) (take n head)" if "length request \<le> n" "n < length head" for n
    using f that assms by (cases "n = length request") (auto simp: framed_head_def)
  then show "framed_head request (c # input) head rest"
    using f by (auto simp: framed_head_def)
qed

lemma framed_end:
  assumes "\<not> suffix (CRLF @ CRLF) request" "input = [] \<or> length request = MAX_HANDSHAKE_BYTES"
  shows "\<not> framed_head request input head rest"
proof
  assume f: "framed_head request input head rest"
  then have "length head \<le> length request"
    using assms(2) by (auto simp: framed_head_def dest: arg_cong [of _ _ length])
  then have "head = request"
    using f by (auto simp: framed_head_def append_eq_append_conv)
  then show False
    using f assms(1) by (simp add: framed_head_def)
qed

lemma read_http_head_iff:
  assumes "length request \<le> MAX_HANDSHAKE_BYTES"
  shows "read_http_head request input = (Ok head, rest) \<longleftrightarrow> framed_head request input head rest"
  using assms
proof (induction input arbitrary: request)
  case Nil
  then show ?case
    using framed_done [of request "[]"] framed_end [of request "[]"]
    by (subst read_http_head.simps) auto
next
  case (Cons c input)
  consider (complete) "suffix (CRLF @ CRLF) request"
    | (full) "\<not> suffix (CRLF @ CRLF) request" "length request = MAX_HANDSHAKE_BYTES"
    | (on) "\<not> suffix (CRLF @ CRLF) request" "length request < MAX_HANDSHAKE_BYTES"
    using Cons.prems by linarith
  then show ?case
  proof cases
    case complete
    then show ?thesis
      using framed_done [OF _ Cons.prems] by (subst read_http_head.simps) auto
  next
    case full
    then show ?thesis
      using framed_end [of request "c # input"] by (subst read_http_head.simps) simp
  next
    case on
    then show ?thesis
      using Cons.IH [of "request @ [c]"] framed_more [OF on(1)]
      by (subst read_http_head.simps) simp
  qed
qed

text \<open>
  The head of an HTTP request is read up to and including the first empty line and not one
  byte further, so that a body that follows stays in the connection; a head longer than the
  handshake limit is never accepted, and every shorter one is read completely.
\<close>

theorem http_head_framing:
  "(read_http_head [c] input = (Ok head, rest) \<longleftrightarrow>
      c # input = head @ rest \<and> suffix (CRLF @ CRLF) head \<and> length head \<le> MAX_HANDSHAKE_BYTES
      \<and> (\<forall>n. n < length head \<longrightarrow> \<not> suffix (CRLF @ CRLF) (take n head)))
   \<and> (read_http_head [c] (unread s) = (Ok head, rest) \<longrightarrow>
        read_http_request c s = (parse_http_head head, s\<lparr>unread := rest\<rparr>))"
proof -
  have zero: "\<not> suffix (CRLF @ CRLF) (take 0 head)"
    by (simp add: CRLF_def)
  have len: "suffix (CRLF @ CRLF) head \<Longrightarrow> length [c] \<le> length head"
    by (drule suffix_length_le) (simp add: CRLF_def)
  have "(\<forall>n. length [c] \<le> n \<longrightarrow> n < length head \<longrightarrow> \<not> suffix (CRLF @ CRLF) (take n head))
      \<longleftrightarrow> (\<forall>n. n < length head \<longrightarrow> \<not> suffix (CRLF @ CRLF) (take n head))"
    using zero by (metis One_nat_def length_Cons less_one linorder_not_le list.size(3))
  then have "framed_head [c] input head rest \<longleftrightarrow>
      c # input = head @ rest \<and> suffix (CRLF @ CRLF) head \<and> length head \<le> MAX_HANDSHAKE_BYTES
      \<and> (\<forall>n. n < length head \<longrightarrow> \<not> suffix (CRLF @ CRLF) (take n head))"
    using len unfolding framed_head_def by (simp only: append.simps) blast
  then show ?thesis
    using read_http_head_iff [of "[c]" input head rest] by (simp add: read_http_request_def)
qed

theorem http_head_framing_witness:
  "read_http_head [CHR ''G''] (CRLF @ CRLF @ ''body'') = (Ok (''G'' @ CRLF @ CRLF), ''body'')"
proof -
  have "\<not> suffix (CRLF @ CRLF) (take n (''G'' @ CRLF @ CRLF))" if "n < 5" for n
  proof
    assume "suffix (CRLF @ CRLF) (take n (''G'' @ CRLF @ CRLF))"
    moreover have "n = 0 \<or> n = 1 \<or> n = 2 \<or> n = 3 \<or> n = 4"
      using that by linarith
    ultimately show False
      by (auto simp: CRLF_def suffix_Cons)
  qed
  then show ?thesis
    using conjunct1 [OF http_head_framing [of "CHR ''G''" "CRLF @ CRLF @ ''body''" "''G'' @ CRLF @ CRLF" "''body''"]]
    by (simp add: CRLF_def suffix_Cons)
qed

section \<open>SOCKS5\<close>

lemma be_value_be_chars: "be_value (be_chars n v) = v mod 256 ^ n"
proof -
  have "be_value (map (\<lambda>b. char_of (unat b)) bs) = be_nat bs" for bs :: bytes
  proof (induction bs rule: rev_induct)
    case (snoc b bs)
    have "unat b < 256"
      using unsigned_less [of b] by simp
    then show ?case
      using snoc by (simp add: be_value_def)
  qed (simp add: be_value_def)
  then show ?thesis
    by (simp add: be_chars_def be_nat_nat_be_bytes)
qed

lemma length_be_chars [simp]: "length (be_chars n v) = n"
proof -
  have "length (nat_be_bytes n v) = n"
    by (induction n arbitrary: v) auto
  then show ?thesis
    by (simp add: be_chars_def)
qed

lemma be_word_chars: "256 ^ n = (2 :: nat) ^ LENGTH('a) \<Longrightarrow> word_of_nat (be_value (be_chars n (unat w))) = (w :: 'a::len word)"
  using unat_less_power [of w] by (simp add: be_value_be_chars)

lemma read_exact_append:
  "n = length p \<Longrightarrow> read_exact n \<lparr>unread = p @ rest, written = w\<rparr> = (Ok p, \<lparr>unread = rest, written = w\<rparr>)"
  by (simp add: read_exact_def)

lemma then_read_append:
  "n = length p \<Longrightarrow> then_read (read_exact n) f \<lparr>unread = p @ rest, written = w\<rparr> = f p \<lparr>unread = rest, written = w\<rparr>"
  by (simp add: then_read_def read_exact_append)

lemma then_read_Cons:
  "then_read (read_exact (Suc 0)) f \<lparr>unread = c # rest, written = w\<rparr> = f [c] \<lparr>unread = rest, written = w\<rparr>"
  using then_read_append [of 1 "[c]" f rest w] by simp

lemma utf8_ascii: "list_all (byte_in 0 0x7F) s \<Longrightarrow> utf8_valid s"
  by (induction s) auto

lemma valid_hostname:
  assumes "validate_hostname h = Ok ()"
  shows "utf8_valid h \<and> length h < 256"
proof -
  have "list_all host_byte h" "length h \<le> 253"
    using assms by (auto simp: validate_hostname_def split: if_splits)
  moreover have "host_byte c \<Longrightarrow> byte_in 0 0x7F c" for c
    by (auto simp: host_byte_def byte_in_def is_ascii_alphanumeric_def is_ascii_digit_def is_ascii_upper_def is_ascii_lower_def)
  ultimately show ?thesis
    using utf8_ascii by (auto simp: list_all_iff)
qed

lemma read_destination:
  assumes "socks_target target"
  shows "\<exists>kind bytes. socks_destination target = kind # bytes
    \<and> socks_tail kind \<lparr>unread = bytes @ rest, written = w\<rparr> = (Ok target, \<lparr>unread = rest, written = w\<rparr>)"
proof (cases target)
  case (Address a)
  then show ?thesis
    using assms
    by (cases "sock_ip a"; cases a)
      (simp_all add: socks_tail_def read_socks5_address_def then_read_def read_exact_append return_read_def
        with_port_def SockAddr_new_def be_word_chars)
next
  case (Domain h p)
  with assms have h: "validate_hostname h = Ok ()" "p \<noteq> 0"
    by auto
  with valid_hostname [OF h(1)] show ?thesis
    using Domain
    by (simp add: socks_tail_def read_socks5_address_def then_read_def read_exact_append return_read_def
        with_port_def be_word_chars ProxyTarget_from_host_port_def and_then_def read_exact_def)
qed

text \<open>
  C27. A SOCKS5 client that offers the method without authentication and asks to connect to a valid
  host name with a port, or to any literal address, is understood: the reader returns precisely that
  target, answers the greeting once, and leaves what follows the request in the connection.
\<close>

theorem socks5_request_understood:
  assumes "length methods < 256" "CHR 0x00 \<in> set methods" "socks_target target"
  shows "read_request \<lparr>unread = socks_request methods target @ rest, written = w\<rparr>
    = (Ok \<lparr>req_target = target, req_protocol = Socks5\<rparr>,
       \<lparr>unread = rest, written = w @ [CHR 0x05, CHR 0x00]\<rparr>)"
proof -
  obtain kind bytes where d: "socks_destination target = kind # bytes"
    and tail: "socks_tail kind \<lparr>unread = bytes @ rest, written = w @ [CHR 0x05, CHR 0x00]\<rparr>
      = (Ok target, \<lparr>unread = rest, written = w @ [CHR 0x05, CHR 0x00]\<rparr>)"
    using read_destination [OF assms(3)] by blast
  have "read_socks5_target \<lparr>unread = char_of (length methods) # methods @ [CHR 0x05, CHR 0x01, CHR 0x00, kind] @ bytes @ rest, written = w\<rparr>
      = socks_tail kind \<lparr>unread = bytes @ rest, written = w @ [CHR 0x05, CHR 0x00]\<rparr>"
    using assms(1,2)
    by (simp add: read_socks5_target_def then_read_Cons then_read_append write_all_def socks_tail_def
        then_read_append [of 4 "[CHR 0x05, CHR 0x01, CHR 0x00, kind]", simplified])
  then show ?thesis
    by (simp add: read_request_def socks_request_def then_read_Cons d tail then_read_def return_read_def read_exact_def)
qed

theorem socks5_request_understood_witness:
  "read_request \<lparr>unread = socks_request [CHR 0x02, CHR 0x00] (Domain ''relay.example'' 443) @ ''hello'', written = []\<rparr>
    = (Ok \<lparr>req_target = Domain ''relay.example'' 443, req_protocol = Socks5\<rparr>,
       \<lparr>unread = ''hello'', written = [CHR 0x05, CHR 0x00]\<rparr>)"
proof -
  have "socks_target (Domain ''relay.example'' 443)"
    by (simp add: validate_hostname_def host_byte_def is_ascii_alphanumeric_def is_ascii_digit_def
        is_ascii_upper_def is_ascii_lower_def)
  then show ?thesis
    using socks5_request_understood [of "[CHR 0x02, CHR 0x00]" "Domain ''relay.example'' 443" "''hello''" "[]"]
    by simp
qed

section \<open>CONNECT\<close>

lemma spaces: "[CR] \<in> set white_space" "[LF] \<in> set white_space"
  by (simp_all add: white_space_def)

lemma split_whitespace_Nil [simp]: "split_whitespace_from w [] = non_empty w"
proof -
  have "find (\<lambda>w. w \<noteq> [] \<and> prefix w []) white_space = None"
    by (auto simp: find_None_iff)
  then show ?thesis
    by (subst split_whitespace_from.simps) simp
qed

lemma split_whitespace_Cons: "[c] \<in> set white_space \<Longrightarrow> split_whitespace (c # b) = split_whitespace b"
  using split_whitespace_at [of c "[]" "[]" b] by (simp add: split_whitespace_def non_empty_def)

lemma split_whitespace_line: "split_whitespace (a @ CRLF @ b) = split_whitespace a @ split_whitespace b"
  using split_whitespace_at [OF spaces(1), of "[]" a "LF # b"] split_whitespace_Cons [OF spaces(2)]
  by (simp add: CRLF_def split_whitespace_def)

text \<open>
  A CONNECT request that has a header field is refused, whatever the field is: the reader splits
  the whole head at white space and takes the first word of the field as a fourth word of the
  request line. HTTP/1.1 requires a Host field in every request.
\<close>

theorem connect_with_field_refused:
  assumes "split_whitespace line = [meth, authority, version]" "eq_ignore_ascii_case meth ''CONNECT''"
    and "split_whitespace field \<noteq> []"
  shows "\<exists>e. parse_http_head (line @ CRLF @ field @ CRLF @ CRLF) = Err e"
proof -
  have "split_whitespace (line @ CRLF @ field @ CRLF @ CRLF) = meth # authority # version # split_whitespace field @ split_whitespace CRLF"
    using split_whitespace_line [of line "field @ CRLF @ CRLF"] split_whitespace_line [of field CRLF] assms(1)
    by simp
  then show ?thesis
    using assms(2,3) by (simp add: parse_http_head_def)
qed

theorem connect_with_field_refused_witness:
  "\<exists>e. parse_http_head (''CONNECT 192.0.2.1:443 HTTP/1.1'' @ CRLF @ ''Host: 192.0.2.1:443'' @ CRLF @ CRLF) = Err e"
proof (rule connect_with_field_refused)
  show "split_whitespace ''CONNECT 192.0.2.1:443 HTTP/1.1'' = [''CONNECT'', ''192.0.2.1:443'', ''HTTP/1.1'']"
    by code_simp
  show "eq_ignore_ascii_case ''CONNECT'' ''CONNECT''"
    by code_simp
  show "split_whitespace ''Host: 192.0.2.1:443'' \<noteq> []"
    by code_simp
qed

section \<open>Serving\<close>

text \<open>
  A connection is served by connecting or opening a stream at most once, as the first thing after the
  request was read, to the address the target resolved to and only when the policy decided so for
  the name and address; a rejected request reaches nothing.
\<close>

lemma serve_respects_policy:
  assumes "serve env runtime policy input = (r, effects)" "x \<in> set effects"
    and "x = ConnectTo a \<or> x = OpenRelayStream reference a"
  obtains request s where "read_request \<lparr>unread = input, written = []\<rparr> = (Ok request, s)"
    "ProxyTarget_resolve (lookup_host env) (req_target request) = Ok a"
    "RoutingPolicy_decide policy \<lparr>ctx_domain = ProxyTarget_domain (req_target request),
       ctx_destination = sock_ip a, ctx_destination_port = sock_port a\<rparr>
     \<in> (if x = ConnectTo a then {Direct} else if reference = ''PROXY'' then {Proxy, Node reference} else {Node reference})"
    "effects = ReplyLocal (written s) # x # tl (tl effects)"
proof -
  obtain res s where rr: "read_request \<lparr>unread = input, written = []\<rparr> = (res, s)"
    by (cases "read_request \<lparr>unread = input, written = []\<rparr>")
  show thesis
  proof (cases res)
    case (Inl e)
    then show thesis
      using assms rr by (auto simp: serve_def)
  next
    case (Inr request)
    show thesis
    proof (cases "ProxyTarget_resolve (lookup_host env) (req_target request)")
      case (Inl e)
      then show thesis
        using assms rr Inr by (auto simp: serve_def)
    next
      case target: (Inr target)
      let ?act = "RoutingPolicy_decide policy \<lparr>ctx_domain = ProxyTarget_domain (req_target request),
        ctx_destination = sock_ip target, ctx_destination_port = sock_port target\<rparr>"
      have "effects = ReplyLocal (written s) # snd (serve_action env runtime ?act target (req_protocol request))"
        using assms(1) rr Inr target by (auto simp: serve_def Let_def split: prod.splits)
      then show thesis
        using that [OF rr [unfolded Inr]] target assms(2,3)
        by (auto simp: serve_action_def relay_proxy_def relay_stream_def
            split: RoutingAction.splits ProxyRuntime.splits sum.splits option.splits if_splits)
    qed
  qed
qed

end
