(* ===== verification/Helper_Protocol.thy ===== *)
theory Helper_Protocol
  imports Ip_Text
begin

text \<open>
  \<^verbatim>\<open>crates/velum-helper-protocol/src/lib.rs\<close>: the control protocol between a client and the privileged
  traffic host. A frame is a four-byte length and a JSON body. The JSON of \<^verbatim>\<open>serde_json\<close> is a
  parameter: \<open>to_vec\<close> from a value to its bytes and \<open>from_slice\<close> back.
\<close>

section \<open>Messages\<close>

abbreviation PROTOCOL_VERSION :: u16 where "PROTOCOL_VERSION \<equiv> 1"
abbreviation MAX_FRAME_LENGTH :: nat where "MAX_FRAME_LENGTH \<equiv> 65536"
abbreviation FRAME_HEADER_LENGTH :: nat where "FRAME_HEADER_LENGTH \<equiv> 4"

datatype Capability = CapTun | Ipv6 | RouteTransaction | DnsTransaction | SocketProtection | CrashRecovery

record IpNetwork =
  net_address :: Ip
  net_prefix_length :: u8

record StartParameters =
  start_mtu :: u16
  start_ipv4 :: "IpNetwork option"
  start_ipv6 :: "IpNetwork option"
  start_dns :: "Ip list"

datatype Command = CmdHello | CmdStatus | CmdStart StartParameters | CmdStop | CmdRecover

record Request =
  rq_version :: u16
  rq_request_id :: u64
  rq_profile_generation :: u64
  rq_capabilities :: "Capability set"
  rq_command :: Command

datatype HostState = HostRecovering | HostStopped | HostStarting | HostRunning | HostStopping | HostFailed

datatype ErrorCode =
    Unauthorized
  | UnsupportedVersion
  | UnsupportedCapability
  | InvalidConfiguration
  | GenerationConflict
  | HostBusy
  | Platform
  | RecoveryRequired

datatype Success = SuccessHello | SuccessStatus HostState | SuccessStarted | SuccessStopped | SuccessRecovered

type_synonym CommandResult = "(ErrorCode, Success) result"

record Response =
  rs_version :: u16
  rs_request_id :: u64
  rs_profile_generation :: u64
  rs_capabilities :: "Capability set"
  rs_response :: CommandResult

section \<open>The codec\<close>

datatype CodecError = EmptyFrame | FrameTooLarge | InvalidJson | CodecUnsupportedVersion

definition encode :: "('a \<Rightarrow> bytes option) \<Rightarrow> 'a \<Rightarrow> (CodecError, bytes) result" where
  "encode to_vec v =
     (case to_vec v of
        None \<Rightarrow> Err InvalidJson
      | Some body \<Rightarrow>
          if body = [] then Err EmptyFrame
          else if length body > MAX_FRAME_LENGTH then Err FrameTooLarge
          else Ok (u32_to_be_bytes (word_of_nat (length body)) @ body))"

definition decode :: "('a \<Rightarrow> u16) \<Rightarrow> (bytes \<Rightarrow> 'a option) \<Rightarrow> bytes \<Rightarrow> (CodecError, 'a) result" where
  "decode version_of from_slice body =
     (if body = [] then Err EmptyFrame
      else if length body > MAX_FRAME_LENGTH then Err FrameTooLarge
      else case from_slice body of
        None \<Rightarrow> Err InvalidJson
      | Some v \<Rightarrow> if version_of v \<noteq> PROTOCOL_VERSION then Err CodecUnsupportedVersion else Ok v)"

definition encode_request :: "(Request \<Rightarrow> bytes option) \<Rightarrow> Request \<Rightarrow> (CodecError, bytes) result" where
  "encode_request to_vec = encode to_vec"

definition decode_request :: "(bytes \<Rightarrow> Request option) \<Rightarrow> bytes \<Rightarrow> (CodecError, Request) result" where
  "decode_request from_slice = decode rq_version from_slice"

definition encode_response :: "(Response \<Rightarrow> bytes option) \<Rightarrow> Response \<Rightarrow> (CodecError, bytes) result" where
  "encode_response to_vec = encode to_vec"

definition decode_response :: "(bytes \<Rightarrow> Response option) \<Rightarrow> bytes \<Rightarrow> (CodecError, Response) result" where
  "decode_response from_slice = decode rs_version from_slice"

section \<open>The incremental decoder\<close>

record RequestDecoder =
  rd_buffer :: bytes
  expected_body_length :: "nat option"

definition RequestDecoder_new :: RequestDecoder where
  "RequestDecoder_new = \<lparr>rd_buffer = [], expected_body_length = None\<rparr>"

definition RequestDecoder_clear :: "RequestDecoder \<Rightarrow> RequestDecoder" where
  "RequestDecoder_clear d = d\<lparr>rd_buffer := [], expected_body_length := None\<rparr>"

text \<open>
  The header part of one turn of the loop. It breaks (\<open>Inl\<close> with \<open>Ok\<close>), fails (\<open>Inl\<close> with \<open>Err\<close>), or
  goes on with the length, the decoder and the bytes that are left. The subtraction of the
  buffered length panics when it underflows.
\<close>

definition RequestDecoder_header ::
  "RequestDecoder \<Rightarrow> bytes \<Rightarrow>
   (((CodecError, unit) result \<times> RequestDecoder) + (nat \<times> RequestDecoder \<times> bytes)) option" where
  "RequestDecoder_header d bs =
     (case expected_body_length d of
        Some l \<Rightarrow> Some (Inr (l, d, bs))
      | None \<Rightarrow>
          (case usize_checked_sub FRAME_HEADER_LENGTH (length (rd_buffer d)) of
             None \<Rightarrow> None
           | Some required \<Rightarrow>
               (let consumed = min required (length bs);
                    buf = rd_buffer d @ take consumed bs;
                    rest = drop consumed bs
                in if length buf < FRAME_HEADER_LENGTH then Some (Inl (Ok (), d\<lparr>rd_buffer := buf\<rparr>))
                   else
                     (let l = unat (u32_from_be_bytes (take FRAME_HEADER_LENGTH buf)) in
                      if l = 0 then Some (Inl (Err EmptyFrame, RequestDecoder_clear d))
                      else if l > MAX_FRAME_LENGTH then Some (Inl (Err FrameTooLarge, RequestDecoder_clear d))
                      else Some (Inr (l, d\<lparr>rd_buffer := [], expected_body_length := Some l\<rparr>, rest))))))"

function RequestDecoder_loop ::
  "(bytes \<Rightarrow> Request option) \<Rightarrow> RequestDecoder \<Rightarrow> bytes \<Rightarrow> Request list
   \<Rightarrow> ((CodecError, Request list) result \<times> RequestDecoder) option" where
  "RequestDecoder_loop from_slice d bs requests =
     (case RequestDecoder_header d bs of
        None \<Rightarrow> None
      | Some (Inl (Inl e, d1)) \<Rightarrow> Some (Err e, d1)
      | Some (Inl (Inr _, d1)) \<Rightarrow> Some (Ok requests, d1)
      | Some (Inr (body_length, d1, rest)) \<Rightarrow>
          (case usize_checked_sub body_length (length (rd_buffer d1)) of
             None \<Rightarrow> None
           | Some required \<Rightarrow>
               (let consumed = min required (length rest);
                    buf = rd_buffer d1 @ take consumed rest;
                    left = drop consumed rest
                in if length buf < body_length then Some (Ok requests, d1\<lparr>rd_buffer := buf\<rparr>)
                   else
                     (case decode_request from_slice buf of
                        Inl e \<Rightarrow> Some (Err e, RequestDecoder_clear d1)
                      | Inr request \<Rightarrow>
                          (let d2 = d1\<lparr>rd_buffer := [], expected_body_length := None\<rparr> in
                           if left = [] then Some (Ok (requests @ [request]), d2)
                           else RequestDecoder_loop from_slice d2 left (requests @ [request]))))))"
  by pat_completeness auto

lemma header_progress:
  assumes "RequestDecoder_header d bs = Some (Inr (l, d1, rest))"
  shows "length rest \<le> length bs \<and> (expected_body_length d = None \<longrightarrow> 0 < l \<and> rd_buffer d1 = [])"
  using assms by (auto simp: RequestDecoder_header_def Let_def split: option.splits if_splits)

termination RequestDecoder_loop
proof (relation "measure (\<lambda>(_, d, bs, _). 2 * length bs + (if expected_body_length d = None then 0 else 1))",
    goal_cases)
  case 1
  show ?case by simp
next
  case (2 from_slice d bs requests x2 b l y d1 rest required consumed buf left req d2)
  have h: "RequestDecoder_header d bs = Some (Inr (l, d1, rest))"
    using 2(1-4) by simp
  have left: "left = drop (min required (length rest)) rest" and "left \<noteq> []"
    and d2: "expected_body_length d2 = None"
    and required: "usize_checked_sub l (length (rd_buffer d1)) = Some required"
    using 2(5-) by simp_all
  note step = header_progress [OF h]
  have "length left \<le> length rest"
    unfolding left by simp
  moreover have "length left < length rest" if "expected_body_length d = None"
  proof -
    have "required = l" "0 < l"
      using required step that by (auto simp: usize_checked_sub_def split: if_splits)
    then show ?thesis
      using \<open>left \<noteq> []\<close> unfolding left by auto
  qed
  ultimately show ?case
    using step d2 by (cases "expected_body_length d") auto
qed

definition RequestDecoder_push ::
  "(bytes \<Rightarrow> Request option) \<Rightarrow> RequestDecoder \<Rightarrow> bytes
   \<Rightarrow> ((CodecError, Request list) result \<times> RequestDecoder) option" where
  "RequestDecoder_push from_slice d bs = RequestDecoder_loop from_slice d bs []"

declare RequestDecoder_loop.simps [simp del]

text \<open>A connection hands its reads to the decoder one after another and gives up at the first error.\<close>

fun push_all ::
  "(bytes \<Rightarrow> Request option) \<Rightarrow> RequestDecoder \<Rightarrow> bytes list
   \<Rightarrow> ((CodecError, Request list) result \<times> RequestDecoder) option" where
  "push_all from_slice d [] = Some (Ok [], d)"
| "push_all from_slice d (c # cs) =
     (case RequestDecoder_push from_slice d c of
        None \<Rightarrow> None
      | Some (Inl e, d1) \<Rightarrow> Some (Err e, d1)
      | Some (Inr rs, d1) \<Rightarrow>
          (case push_all from_slice d1 cs of
             None \<Rightarrow> None
           | Some (Inl e, d2) \<Rightarrow> Some (Err e, d2)
           | Some (Inr rs2, d2) \<Rightarrow> Some (Ok (rs @ rs2), d2)))"

section \<open>The frames of a byte string\<close>

text \<open>
  The specification of the decoder: the frames a byte string starts with, and the bytes of the
  frame that is not complete. It has no state and reads the whole string at once.
\<close>

function frames_of :: "(bytes \<Rightarrow> Request option) \<Rightarrow> bytes \<Rightarrow> (CodecError, Request list \<times> bytes) result" where
  "frames_of from_slice bs =
     (let l = unat (u32_from_be_bytes (take 4 bs)) in
      if length bs < 4 then Ok ([], bs)
      else if l = 0 then Err EmptyFrame
      else if l > MAX_FRAME_LENGTH then Err FrameTooLarge
      else if length bs < 4 + l then Ok ([], bs)
      else
        (case decode_request from_slice (take l (drop 4 bs)) of
           Inl e \<Rightarrow> Err e
         | Inr r \<Rightarrow>
             (case frames_of from_slice (drop (4 + l) bs) of
                Inl e \<Rightarrow> Err e
              | Inr (rs, rest) \<Rightarrow> Ok (r # rs, rest))))"
  by pat_completeness auto
termination
  by (relation "measure (\<lambda>(_, bs). length bs)") auto

declare frames_of.simps [simp del]

text \<open>The bytes a decoder has taken and not yet turned into a request.\<close>

definition pending_bytes_of :: "RequestDecoder \<Rightarrow> bytes" where
  "pending_bytes_of d =
     (case expected_body_length d of
        None \<Rightarrow> rd_buffer d
      | Some l \<Rightarrow> u32_to_be_bytes (word_of_nat l) @ rd_buffer d)"

definition decoder_ok :: "RequestDecoder \<Rightarrow> bool" where
  "decoder_ok d =
     (case expected_body_length d of
        None \<Rightarrow> length (rd_buffer d) < FRAME_HEADER_LENGTH
      | Some l \<Rightarrow> 0 < l \<and> l \<le> MAX_FRAME_LENGTH \<and> length (rd_buffer d) < l)"

text \<open>A decoder in the middle of a stream, seen as a string.\<close>

definition decoded_as ::
  "(bytes \<Rightarrow> Request option) \<Rightarrow> Request list \<Rightarrow> bytes
   \<Rightarrow> ((CodecError, Request list) result \<times> RequestDecoder) option \<Rightarrow> bool" where
  "decoded_as from_slice requests bs out =
     (case frames_of from_slice bs of
        Inl e \<Rightarrow> out = Some (Err e, RequestDecoder_new)
      | Inr (rs, rest) \<Rightarrow>
          (\<exists>d. out = Some (Ok (requests @ rs), d) \<and> decoder_ok d \<and> pending_bytes_of d = rest))"

text \<open>A request and a JSON library that knows its text, for the witnesses.\<close>

definition sample_request :: Request where
  "sample_request = \<lparr>rq_version = 1, rq_request_id = 17, rq_profile_generation = 8,
     rq_capabilities = {CapTun, CrashRecovery}, rq_command = CmdHello\<rparr>"

definition sample_to_vec :: "Request \<Rightarrow> bytes option" where
  "sample_to_vec r = (if r = sample_request then Some [123, 125] else None)"

definition sample_from_slice :: "bytes \<Rightarrow> Request option" where
  "sample_from_slice b = (if b = [123, 125] then Some sample_request else None)"

section \<open>The decoder computes the frames\<close>

lemma decoder_new_ok [simp]:
  "decoder_ok RequestDecoder_new" "pending_bytes_of RequestDecoder_new = []"
  by (simp_all add: decoder_ok_def RequestDecoder_new_def pending_bytes_of_def)

lemma RequestDecoder_clear_new [simp]: "RequestDecoder_clear d = RequestDecoder_new"
  by (cases d) (simp add: RequestDecoder_clear_def RequestDecoder_new_def)

lemma unat_frame_length:
  "l \<le> MAX_FRAME_LENGTH \<Longrightarrow> unat (word_of_nat l :: u32) = l"
  by (simp add: unat_of_nat)

lemma take_frame_header [simp]:
  "take 4 (u32_to_be_bytes w @ bs) = u32_to_be_bytes w" "drop 4 (u32_to_be_bytes w @ bs) = bs"
  "drop (4 + l) (u32_to_be_bytes w @ bs) = drop l bs"
  by simp_all

lemma frames_of_short: "length bs < 4 \<Longrightarrow> frames_of from_slice bs = Ok ([], bs)"
  by (subst frames_of.simps) (simp add: Let_def)

text \<open>The frames of a string whose header is known to be admissible.\<close>

lemma frames_of_header:
  assumes "0 < l" "l \<le> MAX_FRAME_LENGTH"
  shows "frames_of from_slice (u32_to_be_bytes (word_of_nat l) @ bs) =
    (if length bs < l then Ok ([], u32_to_be_bytes (word_of_nat l) @ bs)
     else case decode_request from_slice (take l bs) of
         Inl e \<Rightarrow> Err e
       | Inr r \<Rightarrow>
           (case frames_of from_slice (drop l bs) of
              Inl e \<Rightarrow> Err e
            | Inr (rs, rest) \<Rightarrow> Ok (r # rs, rest)))"
  using assms by (subst frames_of.simps) (simp add: Let_def unat_frame_length cong: sum.case_cong)

text \<open>One more string of bytes after an incomplete frame.\<close>

lemma frames_of_append:
  assumes "frames_of from_slice a = Ok (rs, rest)"
  shows "frames_of from_slice (a @ b) =
    (case frames_of from_slice (rest @ b) of
       Inl e \<Rightarrow> Err e
     | Inr (rs2, rest2) \<Rightarrow> Ok (rs @ rs2, rest2))"
  using assms
proof (induction from_slice a arbitrary: rs rest rule: frames_of.induct)
  case (1 from_slice a)
  let ?l = "unat (u32_from_be_bytes (take 4 a))"
  show ?case
  proof (cases "length a < 4 \<or> length a < 4 + ?l")
    case True
    then have "rs = []" "rest = a"
      using "1.prems" by (subst (asm) frames_of.simps; auto simp: Let_def split: if_splits)+
    then show ?thesis
      by (auto split: sum.split)
  next
    case False
    then have l: "?l \<noteq> 0" "?l \<le> MAX_FRAME_LENGTH"
      using "1.prems" by (subst (asm) frames_of.simps; auto simp: Let_def split: if_splits)+
    then obtain r rs1 where r: "decode_request from_slice (take ?l (drop 4 a)) = Ok r"
      and rs1: "frames_of from_slice (drop (4 + ?l) a) = Ok (rs1, rest)" and rs: "rs = r # rs1"
      using "1.prems" False by (subst (asm) frames_of.simps) (auto simp: Let_def split: sum.splits if_splits)
    have "frames_of from_slice (drop (4 + ?l) a @ b) =
        (case frames_of from_slice (rest @ b) of
           Inl e \<Rightarrow> Err e
         | Inr (rs2, rest2) \<Rightarrow> Ok (rs1 @ rs2, rest2))"
      by (rule "1.IH" [OF refl _ _ _ _ r rs1]) (use False l in auto)
    then show ?thesis
      using False l r rs by (subst frames_of.simps) (auto simp: Let_def split: sum.split)
  qed
qed

lemma frames_of_error:
  assumes "frames_of from_slice a = Err e"
  shows "frames_of from_slice (a @ b) = Err e"
  using assms
proof (induction from_slice a rule: frames_of.induct)
  case (1 from_slice a)
  let ?l = "unat (u32_from_be_bytes (take 4 a))"
  have four: "4 \<le> length a"
    using "1.prems" by (subst (asm) frames_of.simps) (auto simp: Let_def split: if_splits)
  show ?case
  proof (cases "?l = 0 \<or> ?l > MAX_FRAME_LENGTH")
    case True
    then show ?thesis
      using "1.prems" four by (subst frames_of.simps, subst (asm) frames_of.simps) (auto simp: Let_def)
  next
    case False
    then have len: "4 + ?l \<le> length a"
      using "1.prems" by (subst (asm) frames_of.simps) (auto simp: Let_def split: if_splits)
    show ?thesis
    proof (cases "decode_request from_slice (take ?l (drop 4 a))")
      case (Inl e')
      then show ?thesis
        using "1.prems" four False len
        by (subst frames_of.simps, subst (asm) frames_of.simps) (auto simp: Let_def)
    next
      case (Inr r)
      then have "frames_of from_slice (drop (4 + ?l) a) = Err e"
        using "1.prems" four False len
        by (subst (asm) frames_of.simps) (auto simp: Let_def split: sum.splits)
      then have "frames_of from_slice (drop (4 + ?l) a @ b) = Err e"
        by (intro "1.IH" [OF refl _ _ _ _ Inr]) (use four False len in auto)
      then show ?thesis
        using four False len Inr by (subst frames_of.simps) (simp add: Let_def)
    qed
  qed
qed

lemma loop_header_short:
  assumes "expected_body_length d = None" "length (rd_buffer d @ bs) < 4"
  shows "RequestDecoder_header d bs = Some (Inl (Ok (), d\<lparr>rd_buffer := rd_buffer d @ bs\<rparr>))"
  using assms by (simp add: RequestDecoder_header_def Let_def usize_checked_sub_def)

lemma loop_header_full:
  assumes "expected_body_length d = None" "length (rd_buffer d) < 4" "4 \<le> length (rd_buffer d @ bs)"
  shows "RequestDecoder_header d bs =
    (let l = unat (u32_from_be_bytes (take 4 (rd_buffer d @ bs))) in
     if l = 0 then Some (Inl (Err EmptyFrame, RequestDecoder_clear d))
     else if l > MAX_FRAME_LENGTH then Some (Inl (Err FrameTooLarge, RequestDecoder_clear d))
     else Some (Inr (l, \<lparr>rd_buffer = [], expected_body_length = Some l\<rparr>, drop 4 (rd_buffer d @ bs))))"
proof -
  have "rd_buffer d @ take (4 - length (rd_buffer d)) bs = take 4 (rd_buffer d @ bs)"
    "drop (4 - length (rd_buffer d)) bs = drop 4 (rd_buffer d @ bs)"
    using assms by simp_all
  moreover have "min (4 - length (rd_buffer d)) (length bs) = 4 - length (rd_buffer d)"
    using assms by simp
  ultimately show ?thesis
    using assms by (cases d) (simp add: RequestDecoder_header_def Let_def usize_checked_sub_def)
qed

lemma length_after_header: "4 \<le> length xs \<Longrightarrow> length (drop l (drop 4 xs)) < length xs"
  unfolding length_drop by linarith

text \<open>The body part of a turn: the frame is incomplete, refused, or a request.\<close>

lemma loop_body:
  assumes header: "RequestDecoder_header d bs = Some (Inr (l, d1, rest))"
    and d1: "d1 = \<lparr>rd_buffer = buf, expected_body_length = Some l\<rparr>" "length buf < l"
      "l \<le> MAX_FRAME_LENGTH"
    and later: "\<And>requests. length rest + length buf \<ge> l \<Longrightarrow>
      decoded_as from_slice requests (drop l (buf @ rest))
        (RequestDecoder_loop from_slice RequestDecoder_new (drop l (buf @ rest)) requests)"
  shows "decoded_as from_slice requests (u32_to_be_bytes (word_of_nat l) @ buf @ rest)
    (RequestDecoder_loop from_slice d bs requests)"
proof (cases "length (buf @ rest) < l")
  case True
  then have "RequestDecoder_loop from_slice d bs requests =
      Some (Ok requests, \<lparr>rd_buffer = buf @ rest, expected_body_length = Some l\<rparr>)"
    using header d1 by (subst RequestDecoder_loop.simps) (simp add: Let_def usize_checked_sub_def)
  moreover have "frames_of from_slice (u32_to_be_bytes (word_of_nat l) @ buf @ rest) =
      Ok ([], u32_to_be_bytes (word_of_nat l) @ buf @ rest)"
    using frames_of_header [of l from_slice "buf @ rest"] True d1 by simp
  ultimately show ?thesis
    using True d1 by (simp add: decoded_as_def decoder_ok_def pending_bytes_of_def)
next
  case False
  define left where "left = drop l (buf @ rest)"
  define body where "body = take l (buf @ rest)"
  have split: "buf @ take (l - length buf) rest = body" "drop (l - length buf) rest = left"
    "min (l - length buf) (length rest) = l - length buf" "length body = l"
    using False d1 by (simp_all add: left_def body_def)
  have frames: "frames_of from_slice (u32_to_be_bytes (word_of_nat l) @ buf @ rest) =
    (case decode_request from_slice body of
         Inl e \<Rightarrow> Err e
       | Inr r \<Rightarrow>
           (case frames_of from_slice left of
              Inl e \<Rightarrow> Err e
            | Inr (rs, rest) \<Rightarrow> Ok (r # rs, rest)))"
    unfolding left_def body_def using frames_of_header [of l from_slice "buf @ rest"] False d1 by auto
  have loop: "RequestDecoder_loop from_slice d bs requests =
    (case decode_request from_slice body of
       Inl e \<Rightarrow> Some (Err e, RequestDecoder_new)
     | Inr r \<Rightarrow>
         if left = [] then Some (Ok (requests @ [r]), RequestDecoder_new)
         else RequestDecoder_loop from_slice RequestDecoder_new left (requests @ [r]))"
    using header d1 split False
    by (subst RequestDecoder_loop.simps)
      (simp add: Let_def usize_checked_sub_def RequestDecoder_new_def split: sum.split)
  have later': "decoded_as from_slice rs left (RequestDecoder_loop from_slice RequestDecoder_new left rs)" for rs
    unfolding left_def by (rule later) (use False in simp)
  show ?thesis
  proof (cases "decode_request from_slice body")
    case (Inr r)
    show ?thesis
    proof (cases "left = []")
      case True
      then show ?thesis
        using loop frames Inr by (simp add: decoded_as_def frames_of_short)
    next
      case False
      then show ?thesis
        using later' [of "requests @ [r]"] loop frames Inr
        by (auto simp: decoded_as_def split: sum.splits)
    qed
  qed (simp add: decoded_as_def frames loop)
qed

lemma loop_decodes:
  "decoder_ok d \<Longrightarrow>
    decoded_as from_slice requests (pending_bytes_of d @ bs) (RequestDecoder_loop from_slice d bs requests)"
proof (induction "length (pending_bytes_of d @ bs)" arbitrary: d bs requests rule: less_induct)
  case less
  have later: "decoded_as from_slice rs cs (RequestDecoder_loop from_slice RequestDecoder_new cs rs)"
    if "length cs < length (pending_bytes_of d @ bs)" for cs rs
    using less.hyps [of RequestDecoder_new cs rs] that by simp
  show ?case
  proof (cases "expected_body_length d")
    case (Some l)
    let ?d = "\<lparr>rd_buffer = rd_buffer d, expected_body_length = Some l\<rparr>"
    have "d = ?d"
      using Some by (cases d) simp
    then have "RequestDecoder_header d bs = Some (Inr (l, ?d, bs))"
      using Some by (simp add: RequestDecoder_header_def)
    then have "decoded_as from_slice requests (u32_to_be_bytes (word_of_nat l) @ rd_buffer d @ bs)
        (RequestDecoder_loop from_slice d bs requests)"
      by (rule loop_body)
        (use less.prems Some in \<open>auto simp: decoder_ok_def pending_bytes_of_def intro!: later\<close>)
    then show ?thesis
      using Some by (simp add: pending_bytes_of_def)
  next
    case None
    let ?all = "rd_buffer d @ bs"
    let ?l = "unat (u32_from_be_bytes (take 4 ?all))"
    have short: "length (rd_buffer d) < 4"
      using less.prems None by (simp add: decoder_ok_def)
    have pending: "pending_bytes_of d @ bs = ?all"
      using None by (simp add: pending_bytes_of_def)
    consider (few) "length ?all < 4" | (bad) "4 \<le> length ?all" "?l = 0 \<or> ?l > MAX_FRAME_LENGTH"
      | (good) "4 \<le> length ?all" "0 < ?l" "?l \<le> MAX_FRAME_LENGTH"
      by linarith
    then show ?thesis
    proof cases
      case few
      then show ?thesis
        using loop_header_short [OF None few] None pending
        by (subst RequestDecoder_loop.simps)
          (simp add: decoded_as_def frames_of_short decoder_ok_def pending_bytes_of_def)
    next
      case bad
      then show ?thesis
        unfolding pending
        using loop_header_full [OF None short bad(1)]
        by (subst RequestDecoder_loop.simps, subst decoded_as_def, subst frames_of.simps) (auto simp: Let_def)
    next
      case good
      have rest: "decoded_as from_slice rs (drop ?l (drop 4 ?all))
          (RequestDecoder_loop from_slice RequestDecoder_new (drop ?l (drop 4 ?all)) rs)" for rs
        by (rule later) (unfold pending, rule length_after_header [OF good(1)])
      have "RequestDecoder_header d bs =
          Some (Inr (?l, \<lparr>rd_buffer = [], expected_body_length = Some ?l\<rparr>, drop 4 ?all))"
        using loop_header_full [OF None short good(1)] good(2,3) by (simp add: Let_def)
      then have "decoded_as from_slice requests (u32_to_be_bytes (word_of_nat ?l) @ [] @ drop 4 ?all)
          (RequestDecoder_loop from_slice d bs requests)"
        by (rule loop_body) (use good(2,3) rest in simp_all)
      moreover have "u32_to_be_bytes (word_of_nat ?l) = take 4 ?all"
        using good(1) by simp
      ultimately show ?thesis
        unfolding pending by (simp only: append_Nil append_take_drop_id)
    qed
  qed
qed

lemmas push_decodes = loop_decodes [where requests = "[]", folded RequestDecoder_push_def]

lemma push_all_decodes:
  assumes "decoder_ok d" "frames_of from_slice (pending_bytes_of d @ concat cs) = Ok (rs, rest)"
  shows "\<exists>d'. push_all from_slice d cs = Some (Ok rs, d') \<and> decoder_ok d' \<and> pending_bytes_of d' = rest"
  using assms
proof (induction cs arbitrary: d rs)
  case Nil
  have "frames_of from_slice (pending_bytes_of d) = Ok ([], pending_bytes_of d)"
    using Nil.prems(1) frames_of_header [of _ from_slice "rd_buffer d"]
    by (auto simp: decoder_ok_def pending_bytes_of_def frames_of_short split: option.splits)
  with Nil show ?case by simp
next
  case (Cons c cs)
  have head: "decoded_as from_slice [] (pending_bytes_of d @ c) (RequestDecoder_push from_slice d c)"
    by (rule push_decodes [OF Cons.prems(1)])
  obtain rs1 rest1 where first: "frames_of from_slice (pending_bytes_of d @ c) = Ok (rs1, rest1)"
  proof (cases "frames_of from_slice (pending_bytes_of d @ c)")
    case (Inl e)
    then show ?thesis
      using Cons.prems(2) frames_of_error [OF Inl, of "concat cs"] by simp
  qed (use that in force)
  then obtain d1 where d1: "RequestDecoder_push from_slice d c = Some (Ok rs1, d1)" "decoder_ok d1"
    "pending_bytes_of d1 = rest1"
    using head by (auto simp: decoded_as_def)
  obtain rs2 where "frames_of from_slice (pending_bytes_of d1 @ concat cs) = Ok (rs2, rest)" "rs = rs1 @ rs2"
    using Cons.prems(2) frames_of_append [OF first, of "concat cs"] d1(3)
    by (auto split: sum.splits)
  then show ?case
    using Cons.IH [OF d1(2)] d1(1) by fastforce
qed

text \<open>The frames of requests that were encoded.\<close>

lemma encode_request_Ok:
  assumes "encode_request to_vec r = Ok f"
  obtains body where "to_vec r = Some body" "0 < length body" "length body \<le> MAX_FRAME_LENGTH"
    "f = u32_to_be_bytes (word_of_nat (length body)) @ body"
  using assms by (auto simp: encode_request_def encode_def split: option.splits if_splits)

lemma frames_of_encoded:
  assumes "encode_request to_vec r = Ok f" "rq_version r = PROTOCOL_VERSION"
    and "\<And>body. to_vec r = Some body \<Longrightarrow> from_slice body = Some r"
  shows "frames_of from_slice (f @ bs) =
    (case frames_of from_slice bs of
       Inl e \<Rightarrow> Err e
     | Inr (rs, rest) \<Rightarrow> Ok (r # rs, rest))"
proof -
  obtain body where body: "to_vec r = Some body" "0 < length body" "length body \<le> MAX_FRAME_LENGTH"
    "f = u32_to_be_bytes (word_of_nat (length body)) @ body"
    by (rule encode_request_Ok [OF assms(1)])
  then have "decode_request from_slice body = Ok r"
    using assms(2) assms(3) [OF body(1)] by (simp add: decode_request_def decode_def)
  then show ?thesis
    using frames_of_header [OF body(2,3), of from_slice "body @ bs"] body(4) by simp
qed

lemma frames_of_all_encoded:
  assumes "list_all2 (\<lambda>r f. encode_request to_vec r = Ok f) rs fs"
    and "\<And>r. r \<in> set rs \<Longrightarrow> rq_version r = PROTOCOL_VERSION"
    and "\<And>r body. r \<in> set rs \<Longrightarrow> to_vec r = Some body \<Longrightarrow> from_slice body = Some r"
  shows "frames_of from_slice (concat fs) = Ok (rs, [])"
  using assms
proof (induction rule: list_all2_induct)
  case Nil
  show ?case by (simp add: frames_of_short)
next
  case (Cons r rs f fs)
  have "frames_of from_slice (f @ concat fs) =
    (case frames_of from_slice (concat fs) of
       Inl e \<Rightarrow> Err e
     | Inr (rs, rest) \<Rightarrow> Ok (r # rs, rest))"
    by (rule frames_of_encoded [OF Cons.hyps(1)]) (use Cons.prems in auto)
  then show ?case
    using Cons.IH Cons.prems by simp
qed

lemma decoder_ok_empty: "decoder_ok d \<Longrightarrow> pending_bytes_of d = [] \<Longrightarrow> d = RequestDecoder_new"
  by (cases d) (auto simp: pending_bytes_of_def RequestDecoder_new_def split: option.splits
      dest: arg_cong [where f = length])

text \<open>
  A request that is complete is not returned when a later frame of the same read is refused: the
  push returns the error alone.
\<close>

lemma coalesced_error_discards:
  assumes "encode_request to_vec r = Ok f" "rq_version r = PROTOCOL_VERSION"
    and "\<And>body. to_vec r = Some body \<Longrightarrow> from_slice body = Some r"
    and "frames_of from_slice bad = Err e"
  shows "RequestDecoder_push from_slice RequestDecoder_new (f @ bad) = Some (Err e, RequestDecoder_new)"
proof -
  have "frames_of from_slice (f @ bad) = Err e"
    using frames_of_encoded [OF assms(1-3), where bs = bad] assms(4) by simp
  then show ?thesis
    using push_decodes [of RequestDecoder_new from_slice "f @ bad"] by (simp add: decoded_as_def)
qed

section \<open>Properties\<close>

text \<open>
  C25. The incremental decoder delivers exactly the requests that were sent, whatever way the stream
  is cut into reads. For every list of version-1 requests that encode, if the JSON library reads back
  the value it wrote, then pushing any sequence of chunks whose concatenation is the
  concatenation of the frames returns the requests in order, does not panic, and leaves the
  decoder as new, so no byte is lost, duplicated or carried over between frames.
\<close>

theorem helper_stream_exact:
  assumes "list_all2 (\<lambda>r f. encode_request to_vec r = Ok f) requests frames"
    and "\<And>r. r \<in> set requests \<Longrightarrow> rq_version r = PROTOCOL_VERSION"
    and "\<And>r body. to_vec r = Some body \<Longrightarrow> from_slice body = Some r"
    and "concat chunks = concat frames"
  shows "push_all from_slice RequestDecoder_new chunks = Some (Ok requests, RequestDecoder_new)"
proof -
  have "frames_of from_slice (concat chunks) = Ok (requests, [])"
    unfolding assms(4) by (rule frames_of_all_encoded [OF assms(1)]) (use assms(2,3) in auto)
  then obtain d where "push_all from_slice RequestDecoder_new chunks = Some (Ok requests, d)"
    "decoder_ok d" "pending_bytes_of d = []"
    using push_all_decodes [of RequestDecoder_new from_slice chunks] by auto
  then show ?thesis
    using decoder_ok_empty by simp
qed

theorem helper_stream_exact_witness:
  "push_all sample_from_slice RequestDecoder_new [[0], [0, 0], [2, 123], [125, 0, 0], [], [0, 2, 123, 125]] =
     Some (Ok [sample_request, sample_request], RequestDecoder_new)"
proof (rule helper_stream_exact [where to_vec = sample_to_vec and
      frames = "[[0, 0, 0, 2, 123, 125], [0, 0, 0, 2, 123, 125]]"])
  have "encode_request sample_to_vec sample_request = Ok [0, 0, 0, 2, 123, 125]"
    by (simp add: encode_request_def encode_def sample_to_vec_def be_eval)
  then show "list_all2 (\<lambda>r f. encode_request sample_to_vec r = Ok f) [sample_request, sample_request]
      [[0, 0, 0, 2, 123, 125], [0, 0, 0, 2, 123, 125]]"
    by simp
qed (auto simp: sample_request_def sample_to_vec_def sample_from_slice_def split: if_splits)

text \<open>
  The decoder is total and bounded on hostile input. From every decoder state that pushes can
  produce, a push of arbitrary bytes returns what the stateless specification says of the pending
  bytes followed by the new ones: the same requests, or the same error with the decoder emptied;
  the loop ends, the length subtractions never underflow, and the decoder never holds
  a whole frame body: at most 65535 bytes between two pushes.
\<close>

theorem helper_decoder_refines:
  assumes "decoder_ok d"
  shows "\<exists>result d'. RequestDecoder_push from_slice d bytes = Some (result, d')
    \<and> decoder_ok d' \<and> length (rd_buffer d') < MAX_FRAME_LENGTH
    \<and> (case frames_of from_slice (pending_bytes_of d @ bytes) of
         Inl e \<Rightarrow> result = Err e \<and> d' = RequestDecoder_new
       | Inr (requests, rest) \<Rightarrow> result = Ok requests \<and> pending_bytes_of d' = rest)"
proof -
  have bound: "length (rd_buffer d') < MAX_FRAME_LENGTH" if "decoder_ok d'" for d'
    using that by (auto simp: decoder_ok_def split: option.splits)
  show ?thesis
    using push_decodes [OF assms, of from_slice bytes] bound
    by (auto simp: decoded_as_def split: sum.splits)
qed

theorem helper_decoder_refines_witness:
  "\<exists>result d'. RequestDecoder_push sample_from_slice
        \<lparr>rd_buffer = [123], expected_body_length = Some 2\<rparr> [125, 0, 0, 0, 0] = Some (result, d')
    \<and> decoder_ok d' \<and> length (rd_buffer d') < MAX_FRAME_LENGTH
    \<and> (case frames_of sample_from_slice
          (pending_bytes_of \<lparr>rd_buffer = [123], expected_body_length = Some 2\<rparr> @ [125, 0, 0, 0, 0]) of
         Inl e \<Rightarrow> result = Err e \<and> d' = RequestDecoder_new
       | Inr (requests, rest) \<Rightarrow> result = Ok requests \<and> pending_bytes_of d' = rest)"
  by (rule helper_decoder_refines) (simp add: decoder_ok_def)

end
