(* ===== verification/Traffic_Host.thy ===== *)
theory Traffic_Host
  imports Helper_Protocol Ordered_Map State_Runs
begin

text \<open>
  \<^verbatim>\<open>crates/velum-desktop-traffic-host/src/lib.rs\<close>: the privileged host that applies network
  configurations. It writes a recovery record before it touches the network and removes it after
  the network is restored, so that a host started after a crash knows that it has to repair.

  The host sees two collaborators through traits: the journal and the platform backend. What they
  do to the outside world is a \<open>World\<close>: the record in the journal, and a flag that says
  whether some network configuration may be in place. Each call is given its outcome, success or
  failure before or after its effect took place, so a proof covers every way the calls can fail.
  Every world that exists between two effects is kept, oldest first: these are the points at
  which the process may die.
\<close>

section \<open>The outside world\<close>

record RecoveryRecord =
  rec_profile_generation :: u64
  rec_configuration :: StartParameters

datatype HostFailure = HostInvalidConfiguration | HostPlatform | HostJournal

record World =
  w_journal :: "RecoveryRecord option"
  w_applied :: bool

record PlatformState =
  world :: World
  visited :: "World list"

definition become :: "World \<Rightarrow> PlatformState \<Rightarrow> PlatformState" where
  "become w p = \<lparr>world = w, visited = visited p @ [w]\<rparr>"

datatype JournalOutcome = JournalDone | JournalFailsBefore | JournalFailsAfter
datatype BackendOutcome = BackendDone | BackendFails bool

text \<open>The outcomes of the calls one request makes; a request makes each call at most once.\<close>

record Effects =
  e_load :: bool
  e_write :: JournalOutcome
  e_clear :: JournalOutcome
  e_start :: BackendOutcome
  e_stop :: BackendOutcome
  e_recover :: BackendOutcome

definition journal_load :: "bool \<Rightarrow> World \<Rightarrow> (HostFailure, RecoveryRecord option) result" where
  "journal_load ok w = (if ok then Ok (w_journal w) else Err HostJournal)"

definition journal_set ::
  "JournalOutcome \<Rightarrow> RecoveryRecord option \<Rightarrow> PlatformState \<Rightarrow> (HostFailure, unit) result \<times> PlatformState" where
  "journal_set oc r p =
     (case oc of
        JournalDone \<Rightarrow> (Ok (), become ((world p)\<lparr>w_journal := r\<rparr>) p)
      | JournalFailsBefore \<Rightarrow> (Err HostJournal, p)
      | JournalFailsAfter \<Rightarrow> (Err HostJournal, become ((world p)\<lparr>w_journal := r\<rparr>) p))"

definition journal_write ::
  "JournalOutcome \<Rightarrow> RecoveryRecord \<Rightarrow> PlatformState \<Rightarrow> (HostFailure, unit) result \<times> PlatformState" where
  "journal_write oc r = journal_set oc (Some r)"

definition journal_clear :: "JournalOutcome \<Rightarrow> PlatformState \<Rightarrow> (HostFailure, unit) result \<times> PlatformState" where
  "journal_clear oc = journal_set oc None"

text \<open>
  Installing a configuration passes through a world where it may be in place, and a failure may leave
  it there or not. Removing it fails with the configuration still in place or not.
\<close>

definition backend_start :: "BackendOutcome \<Rightarrow> PlatformState \<Rightarrow> (HostFailure, unit) result \<times> PlatformState" where
  "backend_start oc p =
     (let p1 = become ((world p)\<lparr>w_applied := True\<rparr>) p in
      case oc of
        BackendDone \<Rightarrow> (Ok (), p1)
      | BackendFails left \<Rightarrow> (Err HostPlatform, become ((world p1)\<lparr>w_applied := left\<rparr>) p1))"

definition backend_remove :: "BackendOutcome \<Rightarrow> PlatformState \<Rightarrow> (HostFailure, unit) result \<times> PlatformState" where
  "backend_remove oc p =
     (case oc of
        BackendDone \<Rightarrow> (Ok (), become ((world p)\<lparr>w_applied := False\<rparr>) p)
      | BackendFails left \<Rightarrow>
          (Err HostPlatform, become ((world p)\<lparr>w_applied := (w_applied (world p) \<and> left)\<rparr>) p))"

section \<open>The host\<close>

abbreviation MAX_CACHED_RESPONSES :: nat where "MAX_CACHED_RESPONSES \<equiv> 256"

record TrafficHost =
  th_capabilities :: "Capability set"
  th_state :: HostState
  th_generation :: u64
  th_recovery_required :: bool
  th_responses :: "(u64, Response) btree_map"

definition TrafficHost_new :: "bool \<Rightarrow> Capability set \<Rightarrow> World \<Rightarrow> (HostFailure, TrafficHost) result" where
  "TrafficHost_new load_ok capabilities w =
     and_then (journal_load load_ok w) (\<lambda>loaded.
       let recovery_required = (loaded \<noteq> None) in
       Ok \<lparr>th_capabilities = capabilities,
           th_state = (if recovery_required then HostRecovering else HostStopped),
           th_generation = 0,
           th_recovery_required = recovery_required,
           th_responses = []\<rparr>)"

definition network_valid :: "IpNetwork \<Rightarrow> bool" where
  "network_valid n =
     (case net_address n of
        V4 _ \<Rightarrow> net_prefix_length n \<le> 32
      | V6 _ \<Rightarrow> net_prefix_length n \<le> 128)"

definition valid_configuration :: "StartParameters \<Rightarrow> bool" where
  "valid_configuration c =
     (if \<not> (576 \<le> start_mtu c \<and> start_mtu c \<le> 9000)
          \<or> (start_ipv4 c = None \<and> start_ipv6 c = None)
          \<or> start_dns c = []
          \<or> length (start_dns c) > 16
      then False
      else list_all network_valid
        ((case start_ipv4 c of None \<Rightarrow> [] | Some n \<Rightarrow> [n]) @ (case start_ipv6 c of None \<Rightarrow> [] | Some n \<Rightarrow> [n])))"

definition TrafficHost_recover ::
  "Effects \<Rightarrow> TrafficHost \<Rightarrow> PlatformState \<Rightarrow> CommandResult \<times> TrafficHost \<times> PlatformState" where
  "TrafficHost_recover e h p =
     (let h = h\<lparr>th_state := HostRecovering\<rparr> in
      case journal_load (e_load e) (world p) of
        Inl _ \<Rightarrow> (Err Platform, h, p)
      | Inr None \<Rightarrow>
          (Ok SuccessRecovered, h\<lparr>th_recovery_required := False, th_state := HostStopped\<rparr>, p)
      | Inr (Some r) \<Rightarrow>
          (let failed = \<lambda>p. (Err Platform, h\<lparr>th_recovery_required := True\<rparr>, p) in
           case backend_remove (e_recover e) p of
             (Inl _, p1) \<Rightarrow> failed p1
           | (Inr _, p1) \<Rightarrow>
               (case journal_clear (e_clear e) p1 of
                  (Inl _, p2) \<Rightarrow> failed p2
                | (Inr _, p2) \<Rightarrow>
                    (Ok SuccessRecovered,
                     h\<lparr>th_generation := max (th_generation h) (rec_profile_generation r),
                       th_recovery_required := False,
                       th_state := HostStopped\<rparr>, p2))))"

definition TrafficHost_start ::
  "Effects \<Rightarrow> Request \<Rightarrow> StartParameters \<Rightarrow> TrafficHost \<Rightarrow> PlatformState
   \<Rightarrow> CommandResult \<times> TrafficHost \<times> PlatformState" where
  "TrafficHost_start e request configuration h p =
     (if th_recovery_required h then (Err RecoveryRequired, h, p)
      else if \<not> valid_configuration configuration then (Err InvalidConfiguration, h, p)
      else if th_state h = HostStarting \<or> th_state h = HostStopping then (Err HostBusy, h, p)
      else if th_state h = HostRunning \<and> rq_profile_generation request = th_generation h
      then (Ok SuccessStarted, h, p)
      else
        (let r = \<lparr>rec_profile_generation = rq_profile_generation request, rec_configuration = configuration\<rparr> in
         case journal_write (e_write e) r p of
           (Inl _, p1) \<Rightarrow> (Err Platform, h\<lparr>th_state := HostFailed\<rparr>, p1)
         | (Inr _, p1) \<Rightarrow>
             (let h = h\<lparr>th_state := HostStarting\<rparr> in
              case backend_start (e_start e) p1 of
                (Inl _, p2) \<Rightarrow>
                  (Err Platform, h\<lparr>th_state := HostRecovering, th_recovery_required := True\<rparr>, p2)
              | (Inr _, p2) \<Rightarrow>
                  (Ok SuccessStarted,
                   h\<lparr>th_generation := rq_profile_generation request, th_state := HostRunning\<rparr>, p2))))"

definition TrafficHost_stop ::
  "Effects \<Rightarrow> Request \<Rightarrow> TrafficHost \<Rightarrow> PlatformState \<Rightarrow> CommandResult \<times> TrafficHost \<times> PlatformState" where
  "TrafficHost_stop e request h p =
     (if th_recovery_required h then (Err RecoveryRequired, h, p)
      else if th_state h = HostStopped then (Ok SuccessStopped, h, p)
      else
        (let h = h\<lparr>th_state := HostStopping\<rparr>;
             failed = \<lambda>p. (Err Platform, h\<lparr>th_state := HostRecovering, th_recovery_required := True\<rparr>, p)
         in case backend_remove (e_stop e) p of
              (Inl _, p1) \<Rightarrow> failed p1
            | (Inr _, p1) \<Rightarrow>
                (case journal_clear (e_clear e) p1 of
                   (Inl _, p2) \<Rightarrow> failed p2
                 | (Inr _, p2) \<Rightarrow>
                     (Ok SuccessStopped,
                      h\<lparr>th_generation := max (th_generation h) (rq_profile_generation request),
                        th_state := HostStopped\<rparr>, p2))))"

definition TrafficHost_execute ::
  "Effects \<Rightarrow> Request \<Rightarrow> TrafficHost \<Rightarrow> PlatformState \<Rightarrow> CommandResult \<times> TrafficHost \<times> PlatformState" where
  "TrafficHost_execute e request h p =
     (case rq_command request of
        CmdHello \<Rightarrow> (Ok SuccessHello, h, p)
      | CmdStatus \<Rightarrow> (Ok (SuccessStatus (th_state h)), h, p)
      | CmdRecover \<Rightarrow> TrafficHost_recover e h p
      | CmdStart configuration \<Rightarrow> TrafficHost_start e request configuration h p
      | CmdStop \<Rightarrow> TrafficHost_stop e request h p)"

text \<open>The eviction loop removes the smallest key while the map is too long.\<close>

function evict_responses :: "('k, 'v) btree_map \<Rightarrow> ('k, 'v) btree_map" where
  "evict_responses m =
     (if length m > MAX_CACHED_RESPONSES then
        (case bt_keys m of
           [] \<Rightarrow> m
         | oldest # _ \<Rightarrow> evict_responses (bt_remove oldest m))
      else m)"
  by pat_completeness auto
termination
  by (relation "measure length")
    (auto simp: bt_remove_def bt_keys_def intro!: length_filter_less)

definition TrafficHost_cache :: "Response \<Rightarrow> TrafficHost \<Rightarrow> TrafficHost" where
  "TrafficHost_cache response h =
     h\<lparr>th_responses := evict_responses (bt_insert (rs_request_id response) response (th_responses h))\<rparr>"

definition TrafficHost_handle ::
  "Effects \<Rightarrow> Request \<Rightarrow> TrafficHost \<Rightarrow> PlatformState \<Rightarrow> Response \<times> TrafficHost \<times> PlatformState" where
  "TrafficHost_handle e request h p =
     (case bt_get (th_responses h) (rq_request_id request) of
        Some response \<Rightarrow> (response, h, p)
      | None \<Rightarrow>
          (let (result, h1, p1) =
             (if rq_version request \<noteq> PROTOCOL_VERSION then (Err UnsupportedVersion, h, p)
              else if \<not> rq_capabilities request \<subseteq> th_capabilities h then (Err UnsupportedCapability, h, p)
              else if rq_profile_generation request < th_generation h then (Err GenerationConflict, h, p)
              else TrafficHost_execute e request h p);
               response = \<lparr>rs_version = PROTOCOL_VERSION,
                 rs_request_id = rq_request_id request,
                 rs_profile_generation = rq_profile_generation request,
                 rs_capabilities = th_capabilities h1,
                 rs_response = result\<rparr>
           in (response, TrafficHost_cache response h1, p1)))"

section \<open>Runs\<close>

text \<open>A host serving requests, and a host that is also killed at any point and started again.\<close>

definition host_step ::
  "Request \<times> Effects \<Rightarrow> TrafficHost \<times> PlatformState \<Rightarrow> (Response \<times> TrafficHost \<times> PlatformState) option" where
  "host_step op s = (case op of (request, e) \<Rightarrow> Some (TrafficHost_handle e request (fst s) (snd s)))"

datatype host_op = HostServe Request Effects | HostCrash Request Effects nat

datatype host_out = HostReply Response | HostRestarted

text \<open>
  \<open>HostCrash request e n\<close> serves \<open>request\<close>, dies in the \<open>n\<close>-th world on the way (the last one when there
  are fewer) and starts a new host there.
\<close>

definition crash_world :: "PlatformState \<Rightarrow> nat \<Rightarrow> World" where
  "crash_world p n = (if n < length (visited p) then visited p ! n else world p)"

definition crashing_step ::
  "host_op \<Rightarrow> TrafficHost \<times> PlatformState \<Rightarrow> (host_out \<times> TrafficHost \<times> PlatformState) option" where
  "crashing_step op s =
     (case op of
        HostServe request e \<Rightarrow>
          (case TrafficHost_handle e request (fst s) (snd s) of (r, s1) \<Rightarrow> Some (HostReply r, s1))
      | HostCrash request e n \<Rightarrow>
          (case TrafficHost_handle e request (fst s) \<lparr>world = world (snd s), visited = []\<rparr> of
             (r, h, p1) \<Rightarrow>
               (case TrafficHost_new True (th_capabilities h) (crash_world p1 n) of
                  Inl _ \<Rightarrow> None
                | Inr h2 \<Rightarrow>
                    Some (HostRestarted, h2,
                      \<lparr>world = crash_world p1 n,
                       visited = visited (snd s) @ take (Suc n) (visited p1)\<rparr>))))"

definition platform_at :: "World \<Rightarrow> PlatformState" where
  "platform_at w = \<lparr>world = w, visited = [w]\<rparr>"

end
