(* ===== verification/Traffic_Properties.thy ===== *)
theory Traffic_Properties
  imports Traffic_Host
begin

text \<open>
  The traffic host: the recovery record covers every world in which a configuration may be in place,
  also when the process dies in the middle of a request; the state a host reports is true of the
  world; generations never go back; retries are answered from the cache.
\<close>

section \<open>Invariant\<close>

definition world_safe :: "World \<Rightarrow> bool" where
  "world_safe w = (w_applied w \<longrightarrow> w_journal w \<noteq> None)"

definition platform_safe :: "PlatformState \<Rightarrow> bool" where
  "platform_safe p = (world_safe (world p) \<and> list_all world_safe (visited p))"

definition state_true :: "TrafficHost \<Rightarrow> World \<Rightarrow> bool" where
  "state_true h w =
     (case th_state h of
        HostStopped \<Rightarrow> \<not> w_applied w \<and> w_journal w = None \<and> \<not> th_recovery_required h
      | HostRunning \<Rightarrow> w_applied w \<and> \<not> th_recovery_required h
          \<and> (\<exists>r. w_journal w = Some r \<and> rec_profile_generation r = th_generation h)
      | HostFailed \<Rightarrow> \<not> th_recovery_required h
      | HostRecovering \<Rightarrow> True
      | _ \<Rightarrow> False)"

definition cache_ok :: "TrafficHost \<Rightarrow> bool" where
  "cache_ok h = (bt_sorted (th_responses h) \<and> length (th_responses h) \<le> MAX_CACHED_RESPONSES)"

definition host_inv :: "TrafficHost \<times> PlatformState \<Rightarrow> bool" where
  "host_inv s = (case s of (h, p) \<Rightarrow> platform_safe p \<and> state_true h (world p) \<and> cache_ok h)"

text \<open>A response leaves the cache only when every cached identifier is larger than its own.\<close>

definition displaced :: "TrafficHost \<Rightarrow> u64 \<Rightarrow> bool" where
  "displaced h i = (length (th_responses h) = MAX_CACHED_RESPONSES \<and> (\<forall>k \<in> fst ` set (th_responses h). i < k))"

definition answered :: "((Request \<times> Effects) \<times> Response) list \<Rightarrow> TrafficHost \<times> PlatformState \<Rightarrow> bool" where
  "answered log s =
     (\<forall>((r, _), resp) \<in> set log.
        bt_get (th_responses (fst s)) (rq_request_id r) = Some resp \<or> displaced (fst s) (rq_request_id r))"

text \<open>A configuration, a world with nothing in place, requests and outcomes for the witnesses.\<close>

definition sample_configuration :: StartParameters where
  "sample_configuration = \<lparr>start_mtu = 1500,
     start_ipv4 = Some \<lparr>net_address = V4 2886926337, net_prefix_length = 30\<rparr>, start_ipv6 = None,
     start_dns = [V4 16843009]\<rparr>"

definition command_request :: "u64 \<Rightarrow> u64 \<Rightarrow> Command \<Rightarrow> Request" where
  "command_request i g c = \<lparr>rq_version = 1, rq_request_id = i, rq_profile_generation = g,
     rq_capabilities = {}, rq_command = c\<rparr>"

definition all_done :: Effects where
  "all_done = \<lparr>e_load = True, e_write = JournalDone, e_clear = JournalDone,
     e_start = BackendDone, e_stop = BackendDone, e_recover = BackendDone\<rparr>"

definition idle_world :: World where
  "idle_world = \<lparr>w_journal = None, w_applied = False\<rparr>"

definition host_at :: "HostState \<Rightarrow> bool \<Rightarrow> TrafficHost" where
  "host_at st required = \<lparr>th_capabilities = {}, th_state = st, th_generation = 0,
     th_recovery_required = required, th_responses = []\<rparr>"

text \<open>
  A host that is killed after it installed a configuration, recovers, and starts a newer one; and a
  host that serves a start.
\<close>

definition demo_crash_ops :: "host_op list" where
  "demo_crash_ops =
     [HostCrash (command_request 1 7 (CmdStart sample_configuration)) all_done 1,
      HostServe (command_request 2 7 CmdRecover) all_done,
      HostServe (command_request 3 8 (CmdStart sample_configuration)) all_done]"

definition demo_crash_run :: "(host_op \<times> host_out) list \<times> TrafficHost \<times> PlatformState" where
  "demo_crash_run =
     the (execute crashing_step (host_at HostStopped False, platform_at idle_world) demo_crash_ops)"

definition demo_serve_ops :: "(Request \<times> Effects) list" where
  "demo_serve_ops = [(command_request 5 7 (CmdStart sample_configuration), all_done)]"

definition demo_serve_run :: "((Request \<times> Effects) \<times> Response) list \<times> TrafficHost \<times> PlatformState" where
  "demo_serve_run =
     the (execute host_step (host_at HostStopped False, platform_at idle_world) demo_serve_ops)"

text \<open>A full cache of responses to the requests 1 to 256.\<close>

definition cached_response :: "u64 \<Rightarrow> Response" where
  "cached_response i = \<lparr>rs_version = 1, rs_request_id = i, rs_profile_generation = 0, rs_capabilities = {},
     rs_response = Ok SuccessHello\<rparr>"

definition full_cache :: "(u64, Response) btree_map" where
  "full_cache = map (\<lambda>n. (word_of_nat n, cached_response (word_of_nat n))) [1..<257]"

section \<open>The calls\<close>

lemmas platform_defs = journal_write_def journal_clear_def journal_set_def backend_start_def
  backend_remove_def become_def Let_def

lemma become_safe: "platform_safe p \<Longrightarrow> world_safe w \<Longrightarrow> platform_safe (become w p)"
  by (simp add: platform_safe_def become_def)

lemma host_recover_inv:
  assumes "platform_safe p" "state_true h (world p)" "TrafficHost_recover e h p = (res, h', p')"
  shows "platform_safe p' \<and> state_true h' (world p') \<and> th_responses h' = th_responses h
    \<and> th_capabilities h' = th_capabilities h \<and> th_generation h \<le> th_generation h'"
  using assms
  by (auto simp: TrafficHost_recover_def journal_load_def platform_defs platform_safe_def world_safe_def
      state_true_def max_def
      split: option.splits if_splits JournalOutcome.splits BackendOutcome.splits)

lemma host_start_inv:
  assumes "platform_safe p" "state_true h (world p)" "TrafficHost_start e r c h p = (res, h', p')"
    and "th_generation h \<le> rq_profile_generation r"
  shows "platform_safe p' \<and> state_true h' (world p') \<and> th_responses h' = th_responses h
    \<and> th_capabilities h' = th_capabilities h \<and> th_generation h \<le> th_generation h'"
  using assms
  by (auto simp: TrafficHost_start_def platform_defs platform_safe_def world_safe_def
      state_true_def split: if_splits JournalOutcome.splits BackendOutcome.splits)

lemma host_stop_inv:
  assumes "platform_safe p" "state_true h (world p)" "TrafficHost_stop e r h p = (res, h', p')"
  shows "platform_safe p' \<and> state_true h' (world p') \<and> th_responses h' = th_responses h
    \<and> th_capabilities h' = th_capabilities h \<and> th_generation h \<le> th_generation h'"
  using assms
  by (auto simp: TrafficHost_stop_def platform_defs platform_safe_def world_safe_def
      state_true_def max_def split: if_splits JournalOutcome.splits BackendOutcome.splits)

lemma host_execute_inv:
  assumes "platform_safe p" "state_true h (world p)" "TrafficHost_execute e r h p = (res, h', p')"
    and "th_generation h \<le> rq_profile_generation r"
  shows "platform_safe p' \<and> state_true h' (world p') \<and> th_responses h' = th_responses h
    \<and> th_capabilities h' = th_capabilities h \<and> th_generation h \<le> th_generation h'"
  using assms host_recover_inv [OF assms(1,2)] host_start_inv [OF assms(1,2) _ assms(4)] host_stop_inv [OF assms(1,2)]
  by (auto simp: TrafficHost_execute_def split: Command.splits)

section \<open>The cache\<close>

lemma evict_sorted:
  "bt_sorted m \<Longrightarrow> evict_responses m = drop (length m - MAX_CACHED_RESPONSES) m"
proof (induction m rule: evict_responses.induct)
  case (1 m)
  show ?case
  proof (cases "length m > MAX_CACHED_RESPONSES")
    case True
    then obtain k v m' where m: "m = (k, v) # m'"
      by (cases m) auto
    have "bt_remove k m = m'"
      using "1.prems" m bt_remove_absent [of k m'] by (auto simp: bt_remove_def)
    then have "evict_responses m' = drop (length m' - MAX_CACHED_RESPONSES) m'"
      using "1.IH" [OF True, of k "map fst m'"] "1.prems" m by (simp add: bt_keys_def)
    moreover have "length m - MAX_CACHED_RESPONSES = Suc (length m' - MAX_CACHED_RESPONSES)"
      using True m by simp
    ultimately show ?thesis
      using True m \<open>bt_remove k m = m'\<close> by (subst evict_responses.simps) (simp add: bt_keys_def)
  qed (subst evict_responses.simps, simp)
qed

declare evict_responses.simps [simp del]

lemma bt_sorted_drop: "bt_sorted m \<Longrightarrow> bt_sorted (drop n m)"
  by (simp add: bt_sorted_def drop_map [symmetric] sorted_wrt_drop)

lemma cache_keeps: "cache_ok h \<Longrightarrow> cache_ok (TrafficHost_cache r h)"
  using evict_sorted [OF bt_sorted_insert [of "th_responses h" "rs_request_id r" r]]
  by (simp add: cache_ok_def TrafficHost_cache_def bt_sorted_insert bt_sorted_drop)

lemma cache_fields [simp]:
  "th_state (TrafficHost_cache r h) = th_state h"
  "th_generation (TrafficHost_cache r h) = th_generation h"
  "th_recovery_required (TrafficHost_cache r h) = th_recovery_required h"
  "th_capabilities (TrafficHost_cache r h) = th_capabilities h"
  by (simp_all add: TrafficHost_cache_def)

lemma state_true_cache [simp]: "state_true (TrafficHost_cache r h) w = state_true h w"
  by (cases "th_state h") (simp_all add: state_true_def)

section \<open>Requests\<close>

lemma handle_cases:
  assumes "TrafficHost_handle e r h p = (resp, h', p')"
  obtains (cached) "bt_get (th_responses h) (rq_request_id r) = Some resp" "h' = h" "p' = p"
  | (fresh) h1 where "bt_get (th_responses h) (rq_request_id r) = None" "h' = TrafficHost_cache resp h1"
      "rs_request_id resp = rq_request_id r"
      "(h1 = h \<and> p' = p) \<or> (th_generation h \<le> rq_profile_generation r
        \<and> TrafficHost_execute e r h p = (rs_response resp, h1, p'))"
proof (cases "bt_get (th_responses h) (rq_request_id r)")
  case None
  define t where "t = (if rq_version r \<noteq> PROTOCOL_VERSION then (Err UnsupportedVersion, h, p)
     else if \<not> rq_capabilities r \<subseteq> th_capabilities h then (Err UnsupportedCapability, h, p)
     else if rq_profile_generation r < th_generation h then (Err GenerationConflict, h, p)
     else TrafficHost_execute e r h p)"
  obtain result h1 p1 where t: "t = (result, h1, p1)"
    by (cases t)
  define R where "R = \<lparr>rs_version = PROTOCOL_VERSION, rs_request_id = rq_request_id r,
      rs_profile_generation = rq_profile_generation r, rs_capabilities = th_capabilities h1,
      rs_response = result\<rparr>"
  have "TrafficHost_handle e r h p = (R, TrafficHost_cache R h1, p1)"
    using None t unfolding TrafficHost_handle_def t_def [symmetric] by (simp add: Let_def R_def)
  then have R: "resp = R" "h' = TrafficHost_cache resp h1" "p' = p1"
    using assms by auto
  have executed: "(h1 = h \<and> p1 = p) \<or> (th_generation h \<le> rq_profile_generation r
        \<and> TrafficHost_execute e r h p = (result, h1, p1))"
    using t unfolding t_def by (auto simp: not_less split: if_splits)
  have fields: "rs_request_id R = rq_request_id r" "rs_response R = result"
    by (simp_all add: R_def)
  show ?thesis
    by (rule that(2) [OF None R(2)]) (unfold R(1,3) fields, rule refl, rule executed)
next
  case (Some x)
  then have "resp = x" "h' = h" "p' = p"
    using assms by (simp_all add: TrafficHost_handle_def)
  then show ?thesis
    using Some by (intro that(1)) simp_all
qed

lemma handle_inv:
  assumes "host_inv (h, p)" "TrafficHost_handle e r h p = (resp, h', p')"
  shows "host_inv (h', p') \<and> th_generation h \<le> th_generation h' \<and> th_capabilities h' = th_capabilities h"
proof -
  have ok: "platform_safe p" "state_true h (world p)" "cache_ok h"
    using assms(1) by (auto simp: host_inv_def)
  show ?thesis
    using assms(2)
  proof (cases rule: handle_cases)
    case cached
    then show ?thesis
      using assms(1) by simp
  next
    case (fresh h1)
    then have "platform_safe p' \<and> state_true h1 (world p') \<and> th_responses h1 = th_responses h
        \<and> th_capabilities h1 = th_capabilities h \<and> th_generation h \<le> th_generation h1"
      using host_execute_inv [OF ok(1,2)] ok by auto
    moreover from this have "cache_ok h1"
      using ok(3) by (simp add: cache_ok_def)
    ultimately show ?thesis
      using fresh(2) cache_keeps by (simp add: host_inv_def)
  qed
qed

lemma new_inv:
  assumes "world_safe w" "TrafficHost_new load_ok caps w = Ok h" "list_all world_safe (visited p)" "world p = w"
  shows "host_inv (h, p)"
  using assms
  by (auto simp: TrafficHost_new_def journal_load_def host_inv_def platform_safe_def world_safe_def
      state_true_def cache_ok_def Let_def split: if_splits)

lemma crash_world_safe: "platform_safe p \<Longrightarrow> world_safe (crash_world p n)"
  by (simp add: crash_world_def platform_safe_def list_all_length)

interpretation host_runs: invariant_system host_step host_inv
proof
  show "host_inv s'" if "host_inv s" "host_step op s = Some (out, s')" for s op out s'
    using that handle_inv [of "fst s" "snd s" "snd op" "fst op" out "fst s'" "snd s'"]
    by (cases op) (auto simp: host_step_def)
qed

interpretation crashing_runs: invariant_system crashing_step host_inv
proof
  fix s op out s'
  assume inv: "host_inv s" and step: "crashing_step op s = Some (out, s')"
  obtain h p where s: "s = (h, p)" by (cases s)
  show "host_inv s'"
  proof (cases op)
    case (HostServe r e)
    then show ?thesis
      using inv step s handle_inv [of h p e r]
      by (cases s') (auto simp: crashing_step_def split: prod.splits)
  next
    case (HostCrash r e n)
    obtain resp h1 p1 where handled: "TrafficHost_handle e r h \<lparr>world = world p, visited = []\<rparr> = (resp, h1, p1)"
      using prod_cases3 by blast
    have "host_inv (h, \<lparr>world = world p, visited = []\<rparr>)"
      using inv s by (simp add: host_inv_def platform_safe_def)
    then have safe: "platform_safe p1"
      using handle_inv [OF _ handled] by (simp add: host_inv_def)
    then have "list_all world_safe (visited p @ take (Suc n) (visited p1))"
      using inv s in_set_takeD by (fastforce simp: host_inv_def platform_safe_def list_all_iff)
    then show ?thesis
      using step s HostCrash handled crash_world_safe [OF safe, of n]
      by (auto simp: crashing_step_def split: sum.splits intro!: new_inv)
  qed
qed

section \<open>Retries\<close>

lemma length_bt_insert_new:
  "bt_get m k = None \<Longrightarrow> length (bt_insert k v m) = Suc (length m)"
  by (induction k v m rule: bt_insert.induct) (auto split: if_splits)

lemma cache_responses:
  assumes "cache_ok h" "bt_get (th_responses h) (rs_request_id r) = None"
  shows "th_responses (TrafficHost_cache r h) =
    (if length (th_responses h) < MAX_CACHED_RESPONSES then bt_insert (rs_request_id r) r (th_responses h)
     else tl (bt_insert (rs_request_id r) r (th_responses h)))"
  using assms length_bt_insert_new [OF assms(2), of r]
  by (auto simp: TrafficHost_cache_def cache_ok_def evict_sorted bt_sorted_insert drop_Suc)

lemma bt_get_tl:
  assumes "bt_sorted m" "bt_get m k = Some v"
  shows "bt_get (tl m) k = Some v \<or> (\<forall>a \<in> fst ` set (tl m). k < a)"
proof -
  obtain a b m' where m: "m = (a, b) # m'"
    using assms(2) by (cases m) auto
  show ?thesis
    using assms m by (cases "k = a") simp_all
qed

text \<open>What was cached stays cached or is displaced, and what is displaced stays so.\<close>

lemma cache_step:
  assumes "cache_ok h" "bt_get (th_responses h) (rs_request_id r) = None"
    and "bt_get (bt_insert (rs_request_id r) r (th_responses h)) i = Some x"
  shows "bt_get (th_responses (TrafficHost_cache r h)) i = Some x \<or> displaced (TrafficHost_cache r h) i"
  using assms bt_get_tl [OF bt_sorted_insert, of "th_responses h" "rs_request_id r" r i x]
    length_bt_insert_new [OF assms(2), of r]
  by (auto simp: cache_responses displaced_def cache_ok_def)

lemma tl_insert_all:
  assumes "\<forall>a \<in> fst ` set m. i < a" "m \<noteq> []"
  shows "\<forall>a \<in> fst ` set (tl (bt_insert k v m)). i < a"
proof -
  obtain a b m' where m: "m = (a, b) # m'"
    using assms(2) by (cases m) auto
  show ?thesis
  proof (cases "k \<le> a")
    case True
    then show ?thesis using assms(1) m by auto
  next
    case False
    then have "tl (bt_insert k v m) = bt_insert k v m'"
      using m by auto
    moreover have "i < k"
      using False assms(1) m by (auto intro: less_trans [of i a k])
    ultimately show ?thesis
      using assms(1) m by simp
  qed
qed

lemma displaced_step:
  assumes "cache_ok h" "bt_get (th_responses h) (rs_request_id r) = None" "displaced h i"
  shows "displaced (TrafficHost_cache r h) i"
proof -
  have h: "length (th_responses h) = MAX_CACHED_RESPONSES" "\<forall>k \<in> fst ` set (th_responses h). i < k"
    using assms(3) by (simp_all add: displaced_def)
  then have "th_responses h \<noteq> []"
    by auto
  then have "\<forall>k \<in> fst ` set (tl (bt_insert (rs_request_id r) r (th_responses h))). i < k"
    by (rule tl_insert_all [OF h(2)])
  moreover have "th_responses (TrafficHost_cache r h) = tl (bt_insert (rs_request_id r) r (th_responses h))"
    unfolding cache_responses [OF assms(1,2)] h(1) by simp
  ultimately show ?thesis
    unfolding displaced_def using length_bt_insert_new [OF assms(2), of r] h(1) by simp
qed

lemma execute_responses:
  "TrafficHost_execute e r h p = (res, h', p') \<Longrightarrow> th_responses h' = th_responses h"
  by (auto simp: TrafficHost_execute_def TrafficHost_recover_def TrafficHost_start_def TrafficHost_stop_def
      Let_def split: Command.splits option.splits sum.splits prod.splits if_splits)

interpretation host_history: history_system host_step host_inv answered
proof
  fix s log op out s'
  assume inv: "host_inv s" and answered: "answered log s" and step: "host_step op s = Some (out, s')"
  obtain r e h p h' p' where op: "op = (r, e)" "s = (h, p)" "s' = (h', p')"
    by (cases op; cases s; cases s')
  then have handled: "TrafficHost_handle e r h p = (out, h', p')"
    using step by (simp add: host_step_def)
  show "answered (log @ [(op, out)]) s'"
    using handled
  proof (cases rule: handle_cases)
    case cached
    then show ?thesis
      using answered op by (auto simp: answered_def)
  next
    case (fresh h1)
    have same: "th_responses h1 = th_responses h"
      using fresh(4) execute_responses by auto
    have ok: "cache_ok h1" "bt_get (th_responses h1) (rs_request_id out) = None"
      using inv op fresh(1,3) same by (auto simp: host_inv_def cache_ok_def)
    have "bt_get (th_responses h') i = Some x \<or> displaced h' i"
      if "bt_get (th_responses h) i = Some x \<or> displaced h i" for i x
    proof (cases "displaced h i")
      case True
      then show ?thesis
        using displaced_step [OF ok, of i] fresh(2) same by (simp add: displaced_def)
    next
      case False
      then have "bt_get (bt_insert (rs_request_id out) out (th_responses h1)) i = Some x"
        using that same ok(2) by (auto simp: bt_get_insert)
      then show ?thesis
        using cache_step [OF ok] fresh(2) by simp
    qed
    moreover have "bt_get (th_responses h') (rq_request_id r) = Some out \<or> displaced h' (rq_request_id r)"
      using cache_step [OF ok, of "rq_request_id r" out] fresh(2,3) by (simp add: bt_get_insert)
    ultimately show ?thesis
      using answered op unfolding answered_def by fastforce
  qed
qed

section \<open>Properties\<close>

text \<open>
  C23. The recovery record covers every mutation, whatever fails and whenever the process dies. A host
  is started in a world where a configuration is in place only with its record, and serves any
  requests, with any outcome of each journal and backend call, and is killed at any point
  between two effects and started again, any number of times. In every world on the way, a
  configuration that may be in place has a record, and a host started in that world reports
  \<open>Recovering\<close> and refuses to start or stop until it has recovered. The state reported at the end
  is true: \<open>Stopped\<close> means that nothing is in place and no record is left, \<open>Running\<close> means that the
  configuration is in place and the record is of its generation, the transient states are
  never seen, and at most 256 responses are cached.
\<close>

theorem traffic_host_crash_safe:
  assumes "w_applied w \<longrightarrow> w_journal w \<noteq> None"
    and "TrafficHost_new True caps w = Ok h"
    and "run crashing_step (h, platform_at w) log (h', p')"
  shows "(\<forall>w' \<in> set (world p' # visited p'). w_applied w' \<longrightarrow>
      (\<exists>h2. TrafficHost_new True caps w' = Ok h2 \<and> th_state h2 = HostRecovering \<and> th_recovery_required h2))
    \<and> (th_state h' = HostStopped \<longrightarrow> \<not> w_applied (world p') \<and> w_journal (world p') = None)
    \<and> (th_state h' = HostRunning \<longrightarrow> w_applied (world p')
        \<and> map_option rec_profile_generation (w_journal (world p')) = Some (th_generation h'))
    \<and> th_state h' \<notin> {HostStarting, HostStopping}
    \<and> length (th_responses h') \<le> MAX_CACHED_RESPONSES"
proof -
  have "host_inv (h, platform_at w)"
    by (rule new_inv [OF _ assms(2)]) (use assms(1) in \<open>auto simp: world_safe_def platform_at_def\<close>)
  then have inv: "platform_safe p'" "state_true h' (world p')" "cache_ok h'"
    using crashing_runs.run_inv [OF assms(3)] by (auto simp: host_inv_def)
  then have "world_safe w'" if "w' \<in> set (world p' # visited p')" for w'
    using that by (auto simp: platform_safe_def list_all_iff)
  then have "\<forall>w' \<in> set (world p' # visited p'). w_applied w' \<longrightarrow>
      (\<exists>h2. TrafficHost_new True caps w' = Ok h2 \<and> th_state h2 = HostRecovering \<and> th_recovery_required h2)"
    by (auto simp: world_safe_def TrafficHost_new_def journal_load_def Let_def)
  moreover have "th_state h' = HostStopped \<longrightarrow> \<not> w_applied (world p') \<and> w_journal (world p') = None"
    "th_state h' = HostRunning \<longrightarrow> w_applied (world p')
      \<and> map_option rec_profile_generation (w_journal (world p')) = Some (th_generation h')"
    "th_state h' \<notin> {HostStarting, HostStopping}" "length (th_responses h') \<le> MAX_CACHED_RESPONSES"
    using inv by (auto simp: state_true_def cache_ok_def)
  ultimately show ?thesis
    by blast
qed

theorem traffic_host_crash_safe_witness:
  "case demo_crash_run of (log, h', p') \<Rightarrow>
     th_state h' = HostRunning \<and> length (visited p') = 7 \<and> w_applied (visited p' ! 2)
     \<and> (\<forall>w' \<in> set (world p' # visited p'). w_applied w' \<longrightarrow>
         (\<exists>h2. TrafficHost_new True {} w' = Ok h2 \<and> th_state h2 = HostRecovering \<and> th_recovery_required h2))
     \<and> w_applied (world p')"
proof -
  obtain log h' p' where r: "demo_crash_run = (log, h', p')"
    by (cases demo_crash_run)
  have "execute crashing_step (host_at HostStopped False, platform_at idle_world) demo_crash_ops \<noteq> None"
    by code_simp
  then have "run crashing_step (host_at HostStopped False, platform_at idle_world) log (h', p')"
    using r by (auto simp: demo_crash_run_def intro!: execute_run)
  moreover have "TrafficHost_new True {} idle_world = Ok (host_at HostStopped False)"
    by code_simp
  moreover have "case demo_crash_run of (log, h', p') \<Rightarrow>
      th_state h' = HostRunning \<and> length (visited p') = 7 \<and> w_applied (visited p' ! 2)"
    by code_simp
  ultimately show ?thesis
    using traffic_host_crash_safe [of idle_world "{}" "host_at HostStopped False" log h' p']
    unfolding r prod.case by (simp add: idle_world_def)
qed

text \<open>
  A host that requires recovery does nothing else. Whatever a request asks and whatever fails,
  either the host still requires recovery, reports \<open>Recovering\<close>, has not touched the world
  unless it was asked to recover, and has put no configuration in place; or the request was a
  recovery that succeeded, and then nothing is in place, no record is left and the host is stopped.
\<close>

theorem traffic_host_recovery_gate:
  assumes "host_inv (h, p)" "th_recovery_required h" "TrafficHost_handle e request h p = (response, h', p')"
  shows "(th_recovery_required h' \<and> th_state h' = HostRecovering
      \<and> (rq_command request \<noteq> CmdRecover \<longrightarrow> p' = p)
      \<and> (w_applied (world p') \<longrightarrow> w_applied (world p)))
    \<or> (rq_command request = CmdRecover \<and> rs_response response = Ok SuccessRecovered
      \<and> th_state h' = HostStopped \<and> \<not> w_applied (world p') \<and> w_journal (world p') = None)"
proof -
  have recovering: "th_state h = HostRecovering"
    using assms(1,2) by (auto simp: host_inv_def state_true_def split: HostState.splits)
  have safe: "world_safe (world p)"
    using assms(1) by (simp add: host_inv_def platform_safe_def)
  show ?thesis
    using assms(3)
  proof (cases rule: handle_cases)
    case cached
    then show ?thesis
      using assms(2) recovering by simp
  next
    case (fresh h1)
    then show ?thesis
      using assms(2) recovering safe
      by (auto simp: TrafficHost_execute_def TrafficHost_start_def TrafficHost_stop_def TrafficHost_recover_def
          journal_load_def platform_defs world_safe_def
          split: Command.splits option.splits if_splits JournalOutcome.splits BackendOutcome.splits)
  qed
qed

theorem traffic_host_recovery_gate_witness:
  "let w = \<lparr>w_journal = Some \<lparr>rec_profile_generation = 7, rec_configuration = sample_configuration\<rparr>,
         w_applied = True\<rparr>;
       (response, h', p') = TrafficHost_handle all_done (command_request 1 7 (CmdStart sample_configuration))
         (host_at HostRecovering True) (platform_at w)
   in rs_response response = Err RecoveryRequired \<and> th_recovery_required h' \<and> p' = platform_at w"
proof -
  define w where "w = \<lparr>w_journal = Some \<lparr>rec_profile_generation = 7, rec_configuration = sample_configuration\<rparr>,
         w_applied = True\<rparr>"
  obtain response h' p' where handled: "TrafficHost_handle all_done
      (command_request 1 7 (CmdStart sample_configuration)) (host_at HostRecovering True) (platform_at w)
      = (response, h', p')"
    using prod_cases3 by blast
  have "rs_response (fst (TrafficHost_handle all_done (command_request 1 7 (CmdStart sample_configuration))
      (host_at HostRecovering True) (platform_at w))) = Err RecoveryRequired"
    unfolding w_def by code_simp
  moreover have "host_inv (host_at HostRecovering True, platform_at w)"
    by (simp add: host_inv_def platform_safe_def world_safe_def platform_at_def w_def state_true_def
        host_at_def cache_ok_def)
  ultimately show ?thesis
    using traffic_host_recovery_gate [OF _ _ handled] handled
    unfolding w_def [symmetric] by (simp add: host_at_def command_request_def)
qed

text \<open>
  Retries are idempotent while the response is cached, and the cache forgets from below. After
  any run of a host, a request that was answered before, sent again with the same identifier (whatever
  the rest of it and whatever would fail), gets the same answer, and neither the host nor the
  world changes, unless 256 responses are cached and all of them have larger identifiers.
\<close>

theorem traffic_host_retry_idempotent:
  assumes "TrafficHost_new True caps w = Ok h" "world_safe w"
    and "run host_step (h, platform_at w) log (h', p')"
    and "((request, e), response) \<in> set log" "rq_request_id retry = rq_request_id request"
  shows "TrafficHost_handle e2 retry h' p' = (response, h', p')
    \<or> (length (th_responses h') = MAX_CACHED_RESPONSES
       \<and> (\<forall>k \<in> fst ` set (th_responses h'). rq_request_id request < k))"
proof -
  have "host_inv (h, platform_at w)"
    by (rule new_inv [OF assms(2,1)]) (use assms(2) in \<open>auto simp: platform_at_def\<close>)
  then have "answered log (h', p')"
    by (rule host_history.run_hist [OF assms(3)]) (simp add: answered_def)
  then have "bt_get (th_responses h') (rq_request_id request) = Some response
      \<or> displaced h' (rq_request_id request)"
    using assms(4) by (fastforce simp: answered_def)
  then show ?thesis
    using assms(5) by (auto simp: TrafficHost_handle_def displaced_def)
qed

theorem traffic_host_retry_idempotent_witness:
  "case demo_serve_run of (log, h', p') \<Rightarrow>
     th_state h' = HostRunning
     \<and> TrafficHost_handle all_done (command_request 5 0 CmdStop) h' p' = (snd (hd log), h', p')"
proof -
  obtain log h' p' where r: "demo_serve_run = (log, h', p')"
    by (cases demo_serve_run)
  have "execute host_step (host_at HostStopped False, platform_at idle_world)
      demo_serve_ops \<noteq> None"
    by code_simp
  then have run: "run host_step (host_at HostStopped False, platform_at idle_world) log (h', p')"
    using r by (auto simp: demo_serve_run_def intro!: execute_run)
  have new: "TrafficHost_new True {} idle_world = Ok (host_at HostStopped False)" "world_safe idle_world"
    by code_simp+
  have "case demo_serve_run of (log, h', p') \<Rightarrow> th_state h' = HostRunning \<and> length (th_responses h') = 1
      \<and> map fst log = [(command_request 5 7 (CmdStart sample_configuration), all_done)]"
    by code_simp
  then have facts: "th_state h' = HostRunning" "length (th_responses h') = 1"
    "map fst log = [(command_request 5 7 (CmdStart sample_configuration), all_done)]"
    unfolding r prod.case by simp_all
  then have "((command_request 5 7 (CmdStart sample_configuration), all_done), snd (hd log)) \<in> set log"
    by (cases log) auto
  from traffic_host_retry_idempotent [OF new run this, of "command_request 5 0 CmdStop" all_done]
  show ?thesis
    unfolding r prod.case using facts by (simp add: command_request_def)
qed

text \<open>
  A retry with a small identifier is executed again. When 256 responses are cached and all have
  larger identifiers, the response to a request is dropped in the call that produced it: the cache
  is as before, and the same request is executed a second time.
\<close>

lemma tl_insert_smallest:
  "\<forall>a \<in> fst ` set m. k < a \<Longrightarrow> bt_insert k v m = (k, v) # m"
  by (cases m) auto

theorem small_identifier_retry_executes:
  assumes "cache_ok h" "displaced h (rq_request_id request)"
    and "rq_version request = PROTOCOL_VERSION" "rq_capabilities request \<subseteq> th_capabilities h"
    and "th_generation h \<le> rq_profile_generation request"
    and "TrafficHost_execute e request h p = (result, h', p')"
  shows "snd (TrafficHost_handle e request h p) = (h', p')
    \<and> rs_response (fst (TrafficHost_handle e request h p)) = result
    \<and> displaced h' (rq_request_id request)"
proof -
  have d: "length (th_responses h) = MAX_CACHED_RESPONSES" "\<forall>k \<in> fst ` set (th_responses h). rq_request_id request < k"
    using assms(2) by (simp_all add: displaced_def)
  then have absent: "bt_get (th_responses h) (rq_request_id request) = None"
    by (auto simp: bt_get_None_iff)
  have same: "th_responses h' = th_responses h"
    by (rule execute_responses [OF assms(6)])
  have "cache_ok h'"
    using assms(1) same by (simp add: cache_ok_def)
  then have "th_responses (TrafficHost_cache r h') = th_responses h'" if "rs_request_id r = rq_request_id request" for r
    using that cache_responses [of h' r] absent tl_insert_smallest [OF d(2), of r] d(1) same by simp
  then have "TrafficHost_cache r h' = h'" if "rs_request_id r = rq_request_id request" for r
    using that by (simp add: TrafficHost_cache_def)
  moreover have "\<not> rq_profile_generation request < th_generation h"
    using assms(5) by simp
  ultimately show ?thesis
    using assms(2-4,6) absent same by (simp add: TrafficHost_handle_def displaced_def)
qed

text \<open>
  A start whose backend fails, sent twice with the identifier 0 to a host with a full cache: the
  answers differ.
\<close>

lemma full_cache_ok: "bt_sorted full_cache" "length full_cache = 256" "\<forall>k \<in> fst ` set full_cache. 0 < k"
proof -
  have less: "(word_of_nat i :: u64) < word_of_nat j" if "i < j" "j < 257" for i j :: nat
    using that by (simp add: word_less_nat_alt unat_of_nat)
  have "sorted_wrt (\<lambda>i j. (word_of_nat i :: u64) < word_of_nat j) [1..<257]"
    by (rule sorted_wrt_mono_rel [OF _ sorted_wrt_upt]) (use less in auto)
  then show "bt_sorted full_cache"
    by (simp add: bt_sorted_def full_cache_def sorted_wrt_map del: upt_rec_numeral)
  show "length full_cache = 256"
    by (simp add: full_cache_def del: upt_rec_numeral)
  show "\<forall>k \<in> fst ` set full_cache. 0 < k"
    using less [of 0] by (auto simp: full_cache_def simp del: upt_rec_numeral)
qed

theorem small_identifier_retry_executes_witness:
  "let h = (host_at HostStopped False)\<lparr>th_responses := full_cache\<rparr>;
       e = all_done\<lparr>e_start := BackendFails True\<rparr>;
       request = command_request 0 7 (CmdStart sample_configuration);
       (first, h1, p1) = TrafficHost_handle e request h (platform_at idle_world);
       (again, h2, p2) = TrafficHost_handle e request h1 p1
   in rs_response first = Err Platform \<and> rs_response again = Err RecoveryRequired"
proof -
  define h where "h = (host_at HostStopped False)\<lparr>th_responses := full_cache\<rparr>"
  define h1 where "h1 = h\<lparr>th_state := HostRecovering, th_recovery_required := True\<rparr>"
  define e where "e = all_done\<lparr>e_start := BackendFails True\<rparr>"
  define request where "request = command_request 0 7 (CmdStart sample_configuration)"
  have "valid_configuration sample_configuration"
    by code_simp
  then obtain p1 where one: "TrafficHost_execute e request h (platform_at idle_world) = (Err Platform, h1, p1)"
    by (simp add: TrafficHost_execute_def request_def command_request_def TrafficHost_start_def h1_def h_def
        host_at_def e_def all_done_def platform_defs)
  have two: "TrafficHost_execute e request h1 p1 = (Err RecoveryRequired, h1, p1)"
    by (simp add: TrafficHost_execute_def request_def command_request_def TrafficHost_start_def h1_def)
  have ok: "cache_ok h" "cache_ok h1" "displaced h 0" "displaced h1 0"
    using full_cache_ok by (simp_all add: cache_ok_def displaced_def h_def h1_def)
  have guards: "rq_version request = PROTOCOL_VERSION" "rq_capabilities request \<subseteq> th_capabilities x"
    "rq_request_id request = 0" "th_generation h \<le> rq_profile_generation request"
    "th_generation h1 \<le> rq_profile_generation request" for x
    by (simp_all add: request_def command_request_def h_def h1_def host_at_def)
  have first: "snd (TrafficHost_handle e request h (platform_at idle_world)) = (h1, p1)"
    "rs_response (fst (TrafficHost_handle e request h (platform_at idle_world))) = Err Platform"
    using small_identifier_retry_executes [OF ok(1) _ guards(1,2,4) one] ok(3) guards(3) by auto
  have second: "rs_response (fst (TrafficHost_handle e request h1 p1)) = Err RecoveryRequired"
    using small_identifier_retry_executes [OF ok(2) _ guards(1,2,5) two] ok(4) guards(3) by auto
  show ?thesis
    unfolding h_def [symmetric] e_def [symmetric] request_def [symmetric] Let_def
    using first second by (auto split: prod.splits)
qed

end
