(* ===== verification/Recovery_Journal.thy ===== *)
theory Recovery_Journal
  imports Traffic_Host
begin

text \<open>
  \<^verbatim>\<open>FileRecoveryJournal\<close> of \<^verbatim>\<open>crates/velum-desktop-traffic-host/src/lib.rs\<close>: the record in a file that
  is replaced by renaming a temporary one. The file system is the entry at the journal's path and the
  entry at the temporary path; every system call is given whether it fails, and the states between
  two system calls are kept. The JSON library is a parameter.
\<close>

section \<open>The file system\<close>

datatype file_entry = Symlink | Regular bytes

record journal_fs =
  fs_path :: "file_entry option"
  fs_temporary :: "file_entry option"

text \<open>
  Which system calls succeed. A write that fails has written the given number of bytes. \<open>io_parent\<close>
  says whether the path has a parent directory.
\<close>

record journal_io =
  io_parent :: bool
  io_create_dir :: bool
  io_metadata :: bool
  io_temporary_metadata :: bool
  io_open :: bool
  io_short_write :: "nat option"
  io_sync :: bool
  io_rename :: bool
  io_sync_dir :: bool
  io_read :: bool
  io_remove :: bool

section \<open>The journal\<close>

definition reject_symlink :: "bool \<Rightarrow> file_entry option \<Rightarrow> (HostFailure, unit) result" where
  "reject_symlink ok entry =
     (if \<not> ok then Err HostJournal
      else case entry of
        Some Symlink \<Rightarrow> Err HostJournal
      | Some (Regular _) \<Rightarrow> Ok ()
      | None \<Rightarrow> Ok ())"

definition FileRecoveryJournal_load ::
  "(bytes \<Rightarrow> RecoveryRecord option) \<Rightarrow> journal_io \<Rightarrow> journal_fs \<Rightarrow> (HostFailure, RecoveryRecord option) result" where
  "FileRecoveryJournal_load from_slice io fs =
     and_then (reject_symlink (io_metadata io) (fs_path fs)) (\<lambda>_.
       case fs_path fs of
         None \<Rightarrow> Ok None
       | Some (Regular source) \<Rightarrow>
           if \<not> io_read io then Err HostJournal
           else map_err (\<lambda>_. HostJournal) (map_sum id Some (ok_or (from_slice source) ()))
       | Some Symlink \<Rightarrow> Err HostJournal)"

text \<open>The part of \<open>write\<close> from the moment the temporary file is opened.\<close>

definition write_temporary :: "journal_io \<Rightarrow> bytes \<Rightarrow> journal_fs \<Rightarrow> (HostFailure, unit) result \<times> journal_fs list" where
  "write_temporary io encoded fs =
     (if \<not> io_open io then (Err HostJournal, [])
      else
        (let opened = fs\<lparr>fs_temporary := Some (Regular [])\<rparr> in
         case io_short_write io of
           Some n \<Rightarrow> (Err HostJournal, [opened, fs\<lparr>fs_temporary := Some (Regular (take n encoded))\<rparr>])
         | None \<Rightarrow>
             (let full = fs\<lparr>fs_temporary := Some (Regular encoded)\<rparr> in
              if \<not> io_sync io then (Err HostJournal, [opened, full])
              else if \<not> io_rename io then (Err HostJournal, [opened, full])
              else
                (let renamed = \<lparr>fs_path = fs_temporary full, fs_temporary = None\<rparr> in
                 if io_parent io \<and> \<not> io_sync_dir io then (Err HostJournal, [opened, full, renamed])
                 else (Ok (), [opened, full, renamed])))))"

definition FileRecoveryJournal_write ::
  "(RecoveryRecord \<Rightarrow> bytes option) \<Rightarrow> journal_io \<Rightarrow> RecoveryRecord \<Rightarrow> journal_fs
   \<Rightarrow> (HostFailure, unit) result \<times> journal_fs list" where
  "FileRecoveryJournal_write to_vec io r fs =
     (if io_parent io \<and> \<not> io_create_dir io then (Err HostJournal, [])
      else case reject_symlink (io_metadata io) (fs_path fs) of
        Inl e \<Rightarrow> (Err e, [])
      | Inr _ \<Rightarrow>
          (case reject_symlink (io_temporary_metadata io) (fs_temporary fs) of
             Inl e \<Rightarrow> (Err e, [])
           | Inr _ \<Rightarrow>
               (case to_vec r of
                  None \<Rightarrow> (Err HostJournal, [])
                | Some encoded \<Rightarrow> write_temporary io encoded fs)))"

definition FileRecoveryJournal_clear :: "journal_io \<Rightarrow> journal_fs \<Rightarrow> (HostFailure, unit) result \<times> journal_fs list" where
  "FileRecoveryJournal_clear io fs =
     (case reject_symlink (io_metadata io) (fs_path fs) of
        Inl e \<Rightarrow> (Err e, [])
      | Inr _ \<Rightarrow>
          (case fs_path fs of
             None \<Rightarrow> (Ok (), [])
           | Some _ \<Rightarrow>
               if \<not> io_remove io then (Err HostJournal, [])
               else (Ok (), [fs\<lparr>fs_path := None\<rparr>])))"

text \<open>Both replacements of the content of the file, on the bytes.\<close>

definition replace_bytes :: "journal_io \<Rightarrow> bytes option \<Rightarrow> journal_fs \<Rightarrow> (HostFailure, unit) result \<times> journal_fs list" where
  "replace_bytes io c fs =
     (case c of None \<Rightarrow> FileRecoveryJournal_clear io fs | Some b \<Rightarrow> write_temporary io b fs)"

definition file_bytes :: "journal_fs \<Rightarrow> bytes option \<Rightarrow> bool" where
  "file_bytes fs c = (fs_path fs = map_option Regular c)"

text \<open>No system call fails.\<close>

definition io_works :: journal_io where
  "io_works = \<lparr>io_parent = True, io_create_dir = True, io_metadata = True, io_temporary_metadata = True,
     io_open = True, io_short_write = None, io_sync = True, io_rename = True, io_sync_dir = True,
     io_read = True, io_remove = True\<rparr>"

text \<open>What can be read from the file when no call fails.\<close>

definition file_record :: "(bytes \<Rightarrow> RecoveryRecord option) \<Rightarrow> journal_fs \<Rightarrow> (HostFailure, RecoveryRecord option) result" where
  "file_record from_slice fs = FileRecoveryJournal_load from_slice io_works fs"

text \<open>A record, and a JSON library that knows its text, for the witness.\<close>

definition journal_sample :: RecoveryRecord where
  "journal_sample = \<lparr>rec_profile_generation = 7, rec_configuration =
     \<lparr>start_mtu = 1500, start_ipv4 = None, start_ipv6 = None, start_dns = []\<rparr>\<rparr>"

definition journal_sample_to_vec :: "RecoveryRecord \<Rightarrow> bytes option" where
  "journal_sample_to_vec r = (if r = journal_sample then Some [123, 125] else None)"

definition journal_sample_from_slice :: "bytes \<Rightarrow> RecoveryRecord option" where
  "journal_sample_from_slice b = (if b = [123, 125] then Some journal_sample else None)"

section \<open>Atomic replacement\<close>

text \<open>
  What the host relies on: the content of the journal is replaced at one point. In every state on
  the way the old content is there, or the new one and then to the end; success means the new one.
\<close>

locale atomic_replacement =
  fixes content :: "'fs \<Rightarrow> 'c \<Rightarrow> bool"
    and replace :: "'c \<Rightarrow> 'fs \<Rightarrow> ('e, unit) result \<times> 'fs list"
  assumes on_the_way: "content fs c \<Longrightarrow> replace d fs = (res, states) \<Longrightarrow> x \<in> set states
      \<Longrightarrow> content x c \<or> content x d \<and> content (last (fs # states)) d"
    and succeeds: "content fs c \<Longrightarrow> replace d fs = (Ok u, states) \<Longrightarrow> content (last (fs # states)) d"
begin

text \<open>A caller sees one of three outcomes.\<close>

lemma outcomes:
  assumes "content fs c" "replace d fs = (res, states)"
  obtains (replaced) u where "res = Ok u" "content (last (fs # states)) d"
  | (replaced_failed) e where "res = Err e" "content (last (fs # states)) d"
  | (kept) e where "res = Err e" "\<And>x. x \<in> set (fs # states) \<Longrightarrow> content x c"
proof (cases "content (last (fs # states)) d")
  case True
  then show ?thesis
    using that(1,2) by (cases res) auto
next
  case False
  then obtain e where "res = Err e"
    using succeeds [OF assms(1)] assms(2) by (cases res) auto
  moreover have "content x c" if "x \<in> set (fs # states)" for x
    using that assms(1) on_the_way [OF assms] False by auto
  ultimately show ?thesis
    using that(3) by blast
qed

end

lemma write_temporary_states:
  assumes "write_temporary io b fs = (res, states)" "x \<in> set states"
  shows "fs_path x = fs_path fs \<or> fs_path x = Some (Regular b) \<and> fs_path (last (fs # states)) = Some (Regular b)"
  using assms by (auto simp: write_temporary_def Let_def split: if_splits option.splits)

lemma write_temporary_Ok:
  "write_temporary io b fs = (Ok u, states) \<Longrightarrow> fs_path (last (fs # states)) = Some (Regular b)"
  by (auto simp: write_temporary_def Let_def split: if_splits option.splits)

lemma clear_states:
  assumes "FileRecoveryJournal_clear io fs = (res, states)"
  shows "x \<in> set states \<Longrightarrow> fs_path x = None \<and> fs_path (last (fs # states)) = None"
    and "res = Ok u \<Longrightarrow> fs_path (last (fs # states)) = None"
  using assms by (auto simp: FileRecoveryJournal_clear_def split: if_splits option.splits sum.splits)

interpretation file_journal: atomic_replacement file_bytes "replace_bytes io" for io
proof
  show "file_bytes x c \<or> file_bytes x d \<and> file_bytes (last (fs # states)) d"
    if "file_bytes fs c" "replace_bytes io d fs = (res, states)" "x \<in> set states" for fs c d res states x
    using that write_temporary_states [of io _ fs res states x] clear_states(1) [of io fs res states x]
    by (cases d) (auto simp: replace_bytes_def file_bytes_def)
  show "file_bytes (last (fs # states)) d"
    if "file_bytes fs c" "replace_bytes io d fs = (Ok u, states)" for fs c d u states
    using that write_temporary_Ok [of io _ fs u states] clear_states(2) [of io fs "Ok u" states u]
    by (cases d) (auto simp: replace_bytes_def file_bytes_def)
qed

lemma write_replaces:
  assumes "FileRecoveryJournal_write to_vec io r fs = (res, states)"
  shows "(res = Err HostJournal \<and> states = [])
    \<or> (\<exists>encoded. to_vec r = Some encoded \<and> replace_bytes io (Some encoded) fs = (res, states))"
  using assms
  by (auto simp: FileRecoveryJournal_write_def replace_bytes_def reject_symlink_def
      split: if_splits option.splits file_entry.splits)

lemma replace_error: "replace_bytes io c fs = (Err e, states) \<Longrightarrow> e = HostJournal"
  by (auto simp: replace_bytes_def FileRecoveryJournal_clear_def write_temporary_def reject_symlink_def Let_def
      split: option.splits if_splits file_entry.splits)

lemma file_record_bytes:
  "file_bytes fs c \<Longrightarrow> file_record from_slice fs =
    (case c of
       None \<Rightarrow> Ok None
     | Some b \<Rightarrow> (case from_slice b of None \<Rightarrow> Err HostJournal | Some r \<Rightarrow> Ok (Some r)))"
  by (auto simp: file_record_def FileRecoveryJournal_load_def file_bytes_def reject_symlink_def io_works_def
      split: option.split)

lemma file_record_Ok: "file_record from_slice fs = Ok old \<Longrightarrow> \<exists>c. file_bytes fs c"
  by (cases "fs_path fs")
    (auto simp: file_record_def FileRecoveryJournal_load_def file_bytes_def reject_symlink_def io_works_def
      split: file_entry.splits intro: exI [of _ "Some _"])

text \<open>A replacement on the bytes is a replacement of the record, as the host sees it.\<close>

lemma replacement_seen_by_host:
  assumes "file_record from_slice fs = Ok (w_journal (world p))"
    and "replace_bytes io c fs = (res, states)"
    and "\<And>x. file_bytes x c \<Longrightarrow> file_record from_slice x = Ok new"
  shows "(\<forall>x \<in> set (fs # states). file_record from_slice x \<in> {Ok (w_journal (world p)), Ok new})
    \<and> (\<exists>oc p'. journal_set oc new p = (res, p')
        \<and> file_record from_slice (last (fs # states)) = Ok (w_journal (world p')))"
proof -
  obtain b where b: "file_bytes fs b"
    using file_record_Ok [OF assms(1)] by blast
  have old: "file_record from_slice x = Ok (w_journal (world p))" if "file_bytes x b" for x
    using file_record_bytes [OF that] file_record_bytes [OF b] assms(1) by simp
  have "file_record from_slice x \<in> {Ok (w_journal (world p)), Ok new}" if "x \<in> set (fs # states)" for x
    using that file_journal.on_the_way [OF b assms(2)] assms(3) old b by auto
  moreover have "\<exists>oc p'. journal_set oc new p = (res, p')
        \<and> file_record from_slice (last (fs # states)) = Ok (w_journal (world p'))"
    using b assms(2)
  proof (cases rule: file_journal.outcomes)
    case (replaced u)
    then show ?thesis
      using assms(3) by (intro exI [of _ JournalDone]) (simp add: journal_set_def become_def)
  next
    case (replaced_failed e)
    moreover have "e = HostJournal"
      using replaced_failed(1) assms(2) replace_error by simp
    ultimately show ?thesis
      using assms(3) by (intro exI [of _ JournalFailsAfter]) (auto simp: journal_set_def become_def)
  next
    case (kept e)
    then have "file_record from_slice (last (fs # states)) = Ok (w_journal (world p))"
      using old last_in_set [of "fs # states"] by blast
    moreover have "e = HostJournal"
      using kept(1) assms(2) replace_error by simp
    ultimately show ?thesis
      using kept(1) by (intro exI [of _ JournalFailsBefore]) (auto simp: journal_set_def)
  qed
  ultimately show ?thesis
    by blast
qed

section \<open>Property\<close>

text \<open>
  C24. The file journal replaces its record atomically, which is what the traffic host is proved against.
  When the JSON library reads back what it wrote, then whichever system calls of a write or a removal
  fail, every state of the file system on the way can be read and holds the old or the new record,
  and the call is one of the outcomes of the journal in the host's model: the same result, and the
  record that is left is the one the model leaves.
\<close>

theorem file_journal_refines:
  assumes "\<And>r body. to_vec r = Some body \<Longrightarrow> from_slice body = Some r"
    and "file_record from_slice fs = Ok (w_journal (world p))"
  shows "(\<forall>res states. FileRecoveryJournal_write to_vec io r fs = (res, states) \<longrightarrow>
      (\<forall>x \<in> set (fs # states). file_record from_slice x \<in> {Ok (w_journal (world p)), Ok (Some r)})
      \<and> (\<exists>oc p'. journal_write oc r p = (res, p')
          \<and> file_record from_slice (last (fs # states)) = Ok (w_journal (world p'))))
    \<and> (\<forall>res states. FileRecoveryJournal_clear io fs = (res, states) \<longrightarrow>
      (\<forall>x \<in> set (fs # states). file_record from_slice x \<in> {Ok (w_journal (world p)), Ok None})
      \<and> (\<exists>oc p'. journal_clear oc p = (res, p')
          \<and> file_record from_slice (last (fs # states)) = Ok (w_journal (world p'))))"
proof (intro conjI allI impI)
  fix res states
  assume "FileRecoveryJournal_write to_vec io r fs = (res, states)"
  then consider "res = Err HostJournal" "states = []"
    | encoded where "to_vec r = Some encoded" "replace_bytes io (Some encoded) fs = (res, states)"
    using write_replaces by blast
  then have "(\<forall>x \<in> set (fs # states). file_record from_slice x \<in> {Ok (w_journal (world p)), Ok (Some r)})
      \<and> (\<exists>oc p'. journal_write oc r p = (res, p')
          \<and> file_record from_slice (last (fs # states)) = Ok (w_journal (world p')))"
  proof cases
    case 1
    then show ?thesis
      using assms(2) by (auto simp: journal_write_def journal_set_def intro!: exI [of _ JournalFailsBefore])
  next
    case (2 encoded)
    then show ?thesis
      unfolding journal_write_def
      by (intro replacement_seen_by_host [OF assms(2)]) (auto simp: file_record_bytes assms(1))
  qed
  then show "\<forall>x \<in> set (fs # states). file_record from_slice x \<in> {Ok (w_journal (world p)), Ok (Some r)}"
    and "\<exists>oc p'. journal_write oc r p = (res, p')
          \<and> file_record from_slice (last (fs # states)) = Ok (w_journal (world p'))"
    by blast+
next
  fix res states
  assume "FileRecoveryJournal_clear io fs = (res, states)"
  then have "(\<forall>x \<in> set (fs # states). file_record from_slice x \<in> {Ok (w_journal (world p)), Ok None})
      \<and> (\<exists>oc p'. journal_clear oc p = (res, p')
          \<and> file_record from_slice (last (fs # states)) = Ok (w_journal (world p')))"
    unfolding journal_clear_def
    by (intro replacement_seen_by_host [OF assms(2), where c = None and io = io])
      (auto simp: file_record_bytes replace_bytes_def)
  then show "\<forall>x \<in> set (fs # states). file_record from_slice x \<in> {Ok (w_journal (world p)), Ok None}"
    and "\<exists>oc p'. journal_clear oc p = (res, p')
          \<and> file_record from_slice (last (fs # states)) = Ok (w_journal (world p'))"
    by blast+
qed

theorem file_journal_refines_witness:
  "let fs = \<lparr>fs_path = None, fs_temporary = Some (Regular [1])\<rparr>;
       (res, states) = FileRecoveryJournal_write journal_sample_to_vec (io_works\<lparr>io_sync_dir := False\<rparr>)
         journal_sample fs
   in res = Err HostJournal \<and> length states = 3
     \<and> (\<forall>x \<in> set (fs # states). file_record journal_sample_from_slice x \<in> {Ok None, Ok (Some journal_sample)})"
proof -
  define fs where "fs = \<lparr>fs_path = None, fs_temporary = Some (Regular [1])\<rparr>"
  define p where "p = \<lparr>world = \<lparr>w_journal = None, w_applied = False\<rparr>, visited = []\<rparr>"
  obtain res states where written: "FileRecoveryJournal_write journal_sample_to_vec
      (io_works\<lparr>io_sync_dir := False\<rparr>) journal_sample fs = (res, states)"
    by fastforce
  have "case FileRecoveryJournal_write journal_sample_to_vec (io_works\<lparr>io_sync_dir := False\<rparr>) journal_sample fs of
      (res, states) \<Rightarrow> res = Err HostJournal \<and> length states = 3"
    unfolding fs_def by code_simp
  moreover have "file_record journal_sample_from_slice fs = Ok (w_journal (world p))"
    unfolding fs_def p_def by code_simp
  moreover have "journal_sample_from_slice body = Some r" if "journal_sample_to_vec r = Some body" for r body
    using that by (auto simp: journal_sample_to_vec_def journal_sample_from_slice_def split: if_splits)
  ultimately show ?thesis
    using file_journal_refines [of journal_sample_to_vec journal_sample_from_slice fs p
        "io_works\<lparr>io_sync_dir := False\<rparr>" journal_sample] written
    unfolding fs_def [symmetric] Let_def by (simp add: p_def)
qed

end
