(* ===== verification/Datagram_Relay.thy ===== *)
theory Datagram_Relay
  imports Server_Admission
begin

text \<open>
  \<^verbatim>\<open>apps/velum-node/src/datagram.rs\<close>: UDP associations of one connection of the relay. A session identifier
  of a client is bound to one destination and to one connected socket; a task per association sends
  what the socket receives back to the client. The socket, the time of its last use and the task
  are shared between the map and the task, so they are kept in a table of tasks that associations
  point into. Times are natural numbers; the calls on sockets and on the connection are given
  their outcomes. The map is keyed by the number of the session identifier.
\<close>

section \<open>Configuration\<close>

record DatagramRelayConfig =
  max_associations :: nat
  idle_timeout :: nat
  receive_buffer_bytes :: nat

definition DatagramRelayConfig_default :: DatagramRelayConfig where
  "DatagramRelayConfig_default = \<lparr>max_associations = 256, idle_timeout = 60, receive_buffer_bytes = 64 * 1024\<rparr>"

datatype DatagramRelayConfigError = ConfigAssociationLimit | ConfigIdleTimeout | ConfigReceiveBuffer

definition DatagramRelayConfig_validate :: "DatagramRelayConfig \<Rightarrow> (DatagramRelayConfigError, unit) result" where
  "DatagramRelayConfig_validate self =
     (if max_associations self = 0 then Err ConfigAssociationLimit
      else if idle_timeout self = 0 then Err ConfigIdleTimeout
      else if receive_buffer_bytes self = 0 then Err ConfigReceiveBuffer
      else Ok ())"

datatype DatagramRelayError =
    Malformed
  | UnexpectedDirection
  | RelayDestinationRejected
  | SessionTargetMismatch
  | AssociationLimit
  | Socket

section \<open>State\<close>

record response_task =
  task_session :: u64
  task_source :: SocketAddr
  task_last_active :: nat
  task_cancelled :: bool
  task_running :: bool

text \<open>\<open>dr_sent\<close> and \<open>dr_delivered\<close> are what went out of the sockets and to the client.\<close>

record DatagramRelay =
  dr_config :: DatagramRelayConfig
  dr_associations :: "(u64, nat) btree_map"
  dr_tasks :: "response_task list"
  dr_sent :: "(SocketAddr \<times> bytes) list"
  dr_delivered :: "bytes list"

definition DatagramRelay_new :: "DatagramRelayConfig \<Rightarrow> (DatagramRelayConfigError, DatagramRelay) result" where
  "DatagramRelay_new config =
     and_then (DatagramRelayConfig_validate config) (\<lambda>_.
       Ok \<lparr>dr_config = config, dr_associations = [], dr_tasks = [], dr_sent = [], dr_delivered = []\<rparr>)"

definition cancel_task :: "nat \<Rightarrow> response_task list \<Rightarrow> response_task list" where
  "cancel_task k ts = (if k < length ts then ts[k := (ts ! k)\<lparr>task_cancelled := True\<rparr>] else ts)"

definition cancel_all :: "nat list \<Rightarrow> response_task list \<Rightarrow> response_task list" where
  "cancel_all ks ts = foldl (\<lambda>ts k. cancel_task k ts) ts ks"

definition touch :: "nat \<Rightarrow> nat \<Rightarrow> response_task list \<Rightarrow> response_task list" where
  "touch now k ts = (if k < length ts then ts[k := (ts ! k)\<lparr>task_last_active := now\<rparr>] else ts)"

section \<open>Operations\<close>

definition task_active :: "DatagramRelayConfig \<Rightarrow> nat \<Rightarrow> response_task \<Rightarrow> bool" where
  "task_active config now t = (now - task_last_active t \<le> idle_timeout config)"

definition DatagramRelay_prune_idle :: "nat \<Rightarrow> DatagramRelay \<Rightarrow> DatagramRelay" where
  "DatagramRelay_prune_idle now self =
     (let keep = (\<lambda>k. k < length (dr_tasks self) \<and> task_active (dr_config self) now (dr_tasks self ! k))
      in self\<lparr>dr_associations := filter (\<lambda>(_, k). keep k) (dr_associations self),
              dr_tasks := cancel_all (filter (\<lambda>k. \<not> keep k) (map snd (dr_associations self))) (dr_tasks self)\<rparr>)"

text \<open>The outcomes of binding and connecting a new socket, and of sending on it.\<close>

record socket_outcome =
  so_bind :: bool
  so_connect :: bool
  so_send :: bool

definition DatagramRelay_association ::
  "nat \<Rightarrow> socket_outcome \<Rightarrow> u64 \<Rightarrow> SocketAddr \<Rightarrow> DatagramRelay
   \<Rightarrow> (DatagramRelayError, nat) result \<times> DatagramRelay" where
  "DatagramRelay_association now out session_id destination self =
     (case bt_get (dr_associations self) session_id of
        Some k \<Rightarrow>
          (if task_source (dr_tasks self ! k) = destination then (Ok k, self)
           else (Err SessionTargetMismatch, self))
      | None \<Rightarrow>
          if length (dr_associations self) \<ge> max_associations (dr_config self) then (Err AssociationLimit, self)
          else if \<not> so_bind out then (Err Socket, self)
          else if \<not> so_connect out then (Err Socket, self)
          else
            (let k = length (dr_tasks self);
                 t = \<lparr>task_session = session_id, task_source = destination, task_last_active = now,
                      task_cancelled = False, task_running = True\<rparr>
             in (Ok k, self\<lparr>dr_tasks := dr_tasks self @ [t],
                   dr_associations := bt_insert session_id k (dr_associations self)\<rparr>)))"

definition DatagramRelay_forward ::
  "nat \<Rightarrow> socket_outcome \<Rightarrow> DestinationPolicy \<Rightarrow> bytes \<Rightarrow> DatagramRelay
   \<Rightarrow> (DatagramRelayError, unit) result \<times> DatagramRelay" where
  "DatagramRelay_forward now out destinations encoded self =
     (let self = DatagramRelay_prune_idle now self in
      case Datagram_decode encoded of
        Inl _ \<Rightarrow> (Err Malformed, self)
      | Inr (ServerToClient _ _ _) \<Rightarrow> (Err UnexpectedDirection, self)
      | Inr (ClientToServer _ session_id destination payload) \<Rightarrow>
          if \<not> DestinationPolicy_allows destinations destination then (Err RelayDestinationRejected, self)
          else
            (case DatagramRelay_association now out (DatagramSessionId_get session_id) destination self of
               (Inl e, self) \<Rightarrow> (Err e, self)
             | (Inr k, self) \<Rightarrow>
                 (let self = self\<lparr>dr_tasks := touch now k (dr_tasks self)\<rparr> in
                  if so_send out
                  then (Ok (), self\<lparr>dr_sent := dr_sent self @ [(task_source (dr_tasks self ! k), payload)]\<rparr>)
                  else (Err Socket, self))))"

definition DatagramRelay_shutdown :: "DatagramRelay \<Rightarrow> DatagramRelay" where
  "DatagramRelay_shutdown self =
     self\<lparr>dr_tasks := cancel_all (map snd (dr_associations self)) (dr_tasks self), dr_associations := []\<rparr>"

section \<open>The response task\<close>

text \<open>One turn of the loop of \<^verbatim>\<open>receive_responses\<close>, by the branch that is ready.\<close>

datatype task_event =
    TaskCancelled
  | TaskReceived bytes bool
  | TaskReceiveFailed

definition stop_task :: "nat \<Rightarrow> DatagramRelay \<Rightarrow> DatagramRelay" where
  "stop_task k self = self\<lparr>dr_tasks := (dr_tasks self)[k := (dr_tasks self ! k)\<lparr>task_running := False\<rparr>]\<rparr>"

definition receive_responses :: "nat \<Rightarrow> nat \<Rightarrow> task_event \<Rightarrow> DatagramRelay \<Rightarrow> DatagramRelay" where
  "receive_responses now k event self =
     (if \<not> (k < length (dr_tasks self) \<and> task_running (dr_tasks self ! k)) then self
      else
        (case event of
           TaskCancelled \<Rightarrow> if task_cancelled (dr_tasks self ! k) then stop_task k self else self
         | TaskReceiveFailed \<Rightarrow> stop_task k self
         | TaskReceived datagram sink_ok \<Rightarrow>
             (let received = take (receive_buffer_bytes (dr_config self)) datagram;
                  self = self\<lparr>dr_tasks := touch now k (dr_tasks self)\<rparr>;
                  response = ServerToClient (DatagramSessionId (task_session (dr_tasks self ! k)))
                    (task_source (dr_tasks self ! k)) received
              in case Datagram_encode response of
                   Inl _ \<Rightarrow> stop_task k self
                 | Inr encoded \<Rightarrow>
                     if sink_ok then self\<lparr>dr_delivered := dr_delivered self @ [encoded]\<rparr>
                     else stop_task k self)))"

section \<open>Runs\<close>

datatype datagram_op =
    Forward nat socket_outcome bytes
  | TaskTurn nat nat task_event
  | Shutdown

definition datagram_step ::
  "DestinationPolicy \<Rightarrow> datagram_op \<Rightarrow> DatagramRelay \<Rightarrow> ((DatagramRelayError, unit) result \<times> DatagramRelay) option" where
  "datagram_step destinations op s =
     Some (case op of
        Forward now out encoded \<Rightarrow> DatagramRelay_forward now out destinations encoded s
      | TaskTurn now k event \<Rightarrow> (Ok (), receive_responses now k event s)
      | Shutdown \<Rightarrow> (Ok (), DatagramRelay_shutdown s))"

section \<open>Invariant\<close>

text \<open>
  The associations are within the limit and point to tasks of their own, which were not cancelled;
  every task that is not cancelled has its association.
\<close>

definition task_owned :: "DatagramRelay \<Rightarrow> nat \<Rightarrow> bool" where
  "task_owned s k = (bt_get (dr_associations s) (task_session (dr_tasks s ! k)) = Some k)"

definition associations_ok :: "DatagramRelay \<Rightarrow> bool" where
  "associations_ok s =
     (bt_sorted (dr_associations s) \<and> length (dr_associations s) \<le> max_associations (dr_config s)
      \<and> (\<forall>i k. bt_get (dr_associations s) i = Some k \<longrightarrow>
            k < length (dr_tasks s) \<and> task_session (dr_tasks s ! k) = i \<and> \<not> task_cancelled (dr_tasks s ! k))
      \<and> (\<forall>k < length (dr_tasks s). \<not> task_cancelled (dr_tasks s ! k) \<longrightarrow> task_owned s k))"

text \<open>What a client asked for and the policy allows, read off the history of a run.\<close>

definition requested :: "DestinationPolicy \<Rightarrow> datagram_op list \<Rightarrow> (u64 \<times> SocketAddr) set" where
  "requested destinations ops =
     {(DatagramSessionId_get sid, destination) | sid destination.
        DestinationPolicy_allows destinations destination
        \<and> (\<exists>now out encoded credential payload. Forward now out encoded \<in> set ops
            \<and> Datagram_decode encoded = Ok (ClientToServer credential sid destination payload))}"

definition asked :: "DestinationPolicy \<Rightarrow> datagram_op list \<Rightarrow> (SocketAddr \<times> bytes) set" where
  "asked destinations ops =
     {(destination, payload) | destination payload.
        DestinationPolicy_allows destinations destination
        \<and> (\<exists>now out encoded credential sid. Forward now out encoded \<in> set ops
            \<and> Datagram_decode encoded = Ok (ClientToServer credential sid destination payload))}"

definition traffic_ok ::
  "DestinationPolicy \<Rightarrow> (datagram_op \<times> (DatagramRelayError, unit) result) list \<Rightarrow> DatagramRelay \<Rightarrow> bool" where
  "traffic_ok destinations log s =
     ((\<forall>t \<in> set (dr_tasks s). (task_session t, task_source t) \<in> requested destinations (map fst log))
      \<and> set (dr_sent s) \<subseteq> asked destinations (map fst log)
      \<and> (\<forall>packet \<in> set (dr_delivered s). \<exists>sid source payload.
            Datagram_encode (ServerToClient sid source payload) = Ok packet
            \<and> (DatagramSessionId_get sid, source) \<in> requested destinations (map fst log)))"

text \<open>A small relay for the witnesses: a datagram, its response, and a second session over the limit.\<close>

definition sample_address :: SocketAddr where
  "sample_address = SocketV4 [10, 0, 0, 1] 53"

definition sample_policy :: DestinationPolicy where
  "sample_policy = \<lparr>allowed = [sample_address]\<rparr>"

definition sample_relay_config :: DatagramRelayConfig where
  "sample_relay_config = \<lparr>max_associations = 1, idle_timeout = 60, receive_buffer_bytes = 1024\<rparr>"

definition sample_packet :: "u8 \<Rightarrow> bytes" where
  "sample_packet session = [1, 1, 9, 0, 0, 0, 0, 0, 0, 0, session, 4, 10, 0, 0, 1, 0, 53, 42]"

definition sockets_work :: socket_outcome where
  "sockets_work = \<lparr>so_bind = True, so_connect = True, so_send = True\<rparr>"

definition sample_relay_ops :: "datagram_op list" where
  "sample_relay_ops = [Forward 1 sockets_work (sample_packet 5), TaskTurn 2 0 (TaskReceived [7] True),
     Forward 3 sockets_work (sample_packet 6), TaskTurn 4 0 TaskReceiveFailed]"

section \<open>Tasks\<close>

lemma length_cancel_task [simp]: "length (cancel_task k ts) = length ts"
  by (simp add: cancel_task_def)

lemma length_cancel_all [simp]: "length (cancel_all ks ts) = length ts"
  by (induction ks arbitrary: ts) (simp_all add: cancel_all_def)

lemma nth_cancel_task:
  "i < length ts \<Longrightarrow> cancel_task k ts ! i = (if i = k then (ts ! i)\<lparr>task_cancelled := True\<rparr> else ts ! i)"
  by (simp add: cancel_task_def nth_list_update)

lemma nth_cancel_all:
  "i < length ts \<Longrightarrow> cancel_all ks ts ! i = (if i \<in> set ks then (ts ! i)\<lparr>task_cancelled := True\<rparr> else ts ! i)"
proof (induction ks arbitrary: ts)
  case (Cons k ks)
  have "cancel_all (k # ks) ts = cancel_all ks (cancel_task k ts)"
    by (simp add: cancel_all_def)
  then show ?case
    using Cons.IH [of "cancel_task k ts"] Cons.prems by (auto simp: nth_cancel_task)
qed (simp add: cancel_all_def)

lemma length_touch [simp]: "length (touch now k ts) = length ts"
  by (simp add: touch_def)

lemma nth_touch:
  "i < length ts \<Longrightarrow> touch now k ts ! i = (if i = k then (ts ! i)\<lparr>task_last_active := now\<rparr> else ts ! i)"
  by (simp add: touch_def nth_list_update)

text \<open>The parts of a task that never change, for all tasks.\<close>

definition same_tasks :: "response_task list \<Rightarrow> response_task list \<Rightarrow> bool" where
  "same_tasks ts ts' =
     (length ts' = length ts
      \<and> (\<forall>i < length ts. task_session (ts' ! i) = task_session (ts ! i) \<and> task_source (ts' ! i) = task_source (ts ! i)))"

lemma same_tasks_simps [simp]:
  "same_tasks ts (cancel_all ks ts)" "same_tasks ts (touch now k ts)"
  "same_tasks ts (ts[k := (ts ! k)\<lparr>task_running := b\<rparr>])" "same_tasks ts ts"
proof -
  show "same_tasks ts (ts[k := (ts ! k)\<lparr>task_running := b\<rparr>])"
    by (cases "k < length ts") (simp_all add: same_tasks_def nth_list_update)
qed (auto simp: same_tasks_def nth_cancel_all nth_touch)

lemma same_tasks_set:
  assumes "same_tasks ts ts'" "t' \<in> set ts'"
  shows "\<exists>t \<in> set ts. task_session t' = task_session t \<and> task_source t' = task_source t"
proof -
  obtain i where "i < length ts" "t' = ts' ! i"
    using assms by (auto simp: same_tasks_def in_set_conv_nth)
  then show ?thesis
    using assms(1) by (intro bexI [of _ "ts ! i"]) (simp_all add: same_tasks_def)
qed

text \<open>Tasks that are touched or ended keep the associations in order.\<close>

lemma associations_ok_tasks:
  assumes "associations_ok s" "same_tasks (dr_tasks s) ts"
    "\<And>i. i < length ts \<Longrightarrow> task_cancelled (ts ! i) = task_cancelled (dr_tasks s ! i)"
  shows "associations_ok (s\<lparr>dr_tasks := ts\<rparr>)"
  using assms by (auto simp: associations_ok_def same_tasks_def task_owned_def)

lemma prune_ok:
  assumes "associations_ok s"
  shows "associations_ok (DatagramRelay_prune_idle now s)"
proof -
  define keep where "keep = (\<lambda>k. k < length (dr_tasks s) \<and> task_active (dr_config s) now (dr_tasks s ! k))"
  define kept where "kept = filter (\<lambda>(_, k). keep k) (dr_associations s)"
  define ts where "ts = cancel_all (filter (\<lambda>k. \<not> keep k) (map snd (dr_associations s))) (dr_tasks s)"
  have p: "DatagramRelay_prune_idle now s = s\<lparr>dr_associations := kept, dr_tasks := ts\<rparr>"
    by (simp add: DatagramRelay_prune_idle_def keep_def kept_def ts_def Let_def)
  have sorted: "bt_sorted (dr_associations s)" "length (dr_associations s) \<le> max_associations (dr_config s)"
    and points: "\<And>i k. bt_get (dr_associations s) i = Some k \<Longrightarrow> k < length (dr_tasks s)
      \<and> task_session (dr_tasks s ! k) = i \<and> \<not> task_cancelled (dr_tasks s ! k)"
    and owned: "\<And>k. k < length (dr_tasks s) \<Longrightarrow> \<not> task_cancelled (dr_tasks s ! k) \<Longrightarrow> task_owned s k"
    using assms unfolding associations_ok_def by blast+
  have get: "bt_get kept i = Some k \<longleftrightarrow> bt_get (dr_associations s) i = Some k \<and> keep k" for i k
    using sorted(1) by (auto simp: kept_def bt_get_Some_iff bt_sorted_filter)
  have cancelled: "k \<in> set (filter (\<lambda>k. \<not> keep k) (map snd (dr_associations s))) \<longleftrightarrow>
      \<not> keep k \<and> (\<exists>i. bt_get (dr_associations s) i = Some k)" for k
    using sorted(1) by (force simp: bt_get_Some_iff)
  have nth: "task_session (ts ! k) = task_session (dr_tasks s ! k)"
    "task_cancelled (ts ! k) \<longleftrightarrow> task_cancelled (dr_tasks s ! k) \<or> (\<not> keep k \<and> (\<exists>i. bt_get (dr_associations s) i = Some k))"
    if "k < length (dr_tasks s)" for k
    using that cancelled [of k] by (simp_all add: ts_def nth_cancel_all)
  have "bt_sorted kept" "length kept \<le> max_associations (dr_config s)"
    using sorted by (simp_all add: kept_def bt_sorted_filter le_trans [OF length_filter_le])
  moreover have "k < length ts \<and> task_session (ts ! k) = i \<and> \<not> task_cancelled (ts ! k)"
    if "bt_get kept i = Some k" for i k
    using that points [of i k] nth [of k] by (auto simp: get ts_def)
  moreover have "bt_get kept (task_session (ts ! k)) = Some k" if "k < length ts" "\<not> task_cancelled (ts ! k)" for k
    using that owned [of k] nth [of k] by (auto simp: get task_owned_def ts_def)
  ultimately show ?thesis
    unfolding p by (simp add: associations_ok_def task_owned_def)
qed

lemma touch_ok: "associations_ok s \<Longrightarrow> associations_ok (s\<lparr>dr_tasks := touch now k (dr_tasks s)\<rparr>)"
  by (rule associations_ok_tasks) (simp_all add: nth_touch)

lemma stop_task_ok: "associations_ok s \<Longrightarrow> associations_ok (stop_task k s)"
  unfolding stop_task_def
  by (rule associations_ok_tasks) (simp_all, cases "k < length (dr_tasks s)", simp_all add: nth_list_update)

lemma traffic_fields [simp]:
  "associations_ok (s\<lparr>dr_sent := xs\<rparr>) = associations_ok s" "associations_ok (s\<lparr>dr_delivered := ys\<rparr>) = associations_ok s"
  by (simp_all add: associations_ok_def task_owned_def)

lemma association_ok:
  assumes "associations_ok s" "DatagramRelay_association now out i destination s = (res, s')"
  shows "associations_ok s'"
proof (cases "s' = s")
  case False
  then have none: "bt_get (dr_associations s) i = None" and room: "length (dr_associations s) < max_associations (dr_config s)"
    and s': "s' = s\<lparr>dr_tasks := dr_tasks s @ [\<lparr>task_session = i, task_source = destination, task_last_active = now,
        task_cancelled = False, task_running = True\<rparr>],
      dr_associations := bt_insert i (length (dr_tasks s)) (dr_associations s)\<rparr>"
    using assms(2) by (auto simp: DatagramRelay_association_def Let_def split: option.splits if_splits)
  have "length (bt_insert i (length (dr_tasks s)) (dr_associations s)) = Suc (length (dr_associations s))"
    using assms(1) none by (subst length_bt_insert) (auto simp: associations_ok_def bt_get_None_iff)
  then have len: "length (dr_associations s') \<le> max_associations (dr_config s')"
    using room by (simp add: s')
  have points: "k < length (dr_tasks s') \<and> task_session (dr_tasks s' ! k) = j \<and> \<not> task_cancelled (dr_tasks s' ! k)"
    if "bt_get (dr_associations s') j = Some k" for j k
  proof (cases "j = i")
    case False
    then have "bt_get (dr_associations s) j = Some k"
      using that by (simp add: s' bt_get_insert)
    then have "k < length (dr_tasks s)" "task_session (dr_tasks s ! k) = j" "\<not> task_cancelled (dr_tasks s ! k)"
      using assms(1) by (simp_all add: associations_ok_def)
    then show ?thesis
      by (simp add: s' nth_append)
  qed (use that in \<open>auto simp: s' bt_get_insert nth_append\<close>)
  have owned: "task_owned s' k" if "k < length (dr_tasks s')" "\<not> task_cancelled (dr_tasks s' ! k)" for k
  proof (cases "k = length (dr_tasks s)")
    case False
    then have k: "k < length (dr_tasks s)" "\<not> task_cancelled (dr_tasks s ! k)"
      using that by (simp_all add: s' nth_append)
    then have "bt_get (dr_associations s) (task_session (dr_tasks s ! k)) = Some k"
      using assms(1) by (simp add: associations_ok_def task_owned_def)
    then show ?thesis
      using k none by (auto simp: task_owned_def s' nth_append bt_get_insert)
  qed (simp add: task_owned_def s' bt_get_insert)
  show ?thesis
    using assms(1) len points owned unfolding associations_ok_def
    by (simp add: s' bt_sorted_insert)
qed (use assms(1) in simp)

lemma forward_ok:
  assumes "associations_ok s" "DatagramRelay_forward now out destinations encoded s = (res, s')"
  shows "associations_ok s'"
proof -
  have pruned: "associations_ok (DatagramRelay_prune_idle now s)"
    by (rule prune_ok [OF assms(1)])
  show ?thesis
    using assms(2) pruned association_ok [OF pruned] touch_ok
    by (auto simp: DatagramRelay_forward_def Let_def split: sum.splits Datagram.splits if_splits prod.splits)
qed

lemma shutdown_ok: "associations_ok s \<Longrightarrow> associations_ok (DatagramRelay_shutdown s)"
proof -
  assume ok: "associations_ok s"
  have "task_cancelled (cancel_all (map snd (dr_associations s)) (dr_tasks s) ! k)" if "k < length (dr_tasks s)" for k
  proof (cases "task_cancelled (dr_tasks s ! k)")
    case False
    then have "bt_get (dr_associations s) (task_session (dr_tasks s ! k)) = Some k"
      using ok that by (simp add: associations_ok_def task_owned_def)
    from bt_get_SomeD [OF this] have "k \<in> set (map snd (dr_associations s))"
      by force
    then show ?thesis
      using that by (simp add: nth_cancel_all)
  qed (use that in \<open>simp add: nth_cancel_all\<close>)
  then show ?thesis
    by (simp add: associations_ok_def DatagramRelay_shutdown_def)
qed

lemma turn_ok: "associations_ok s \<Longrightarrow> associations_ok (receive_responses now k event s)"
  using stop_task_ok [of s k] touch_ok [of s now k] stop_task_ok [OF touch_ok [of s now k], of k]
  by (auto simp: receive_responses_def Let_def split: task_event.splits sum.splits)

interpretation datagram_runs: invariant_system "datagram_step destinations" associations_ok for destinations
proof
  show "associations_ok s'" if "associations_ok s" "datagram_step destinations op s = Some (out, s')" for s op out s'
    using that forward_ok turn_ok shutdown_ok by (cases op) (auto simp: datagram_step_def)
qed

section \<open>Traffic\<close>

lemma requested_mono: "set a \<subseteq> set b \<Longrightarrow> requested d a \<subseteq> requested d b"
  unfolding requested_def by blast

lemma asked_mono: "set a \<subseteq> set b \<Longrightarrow> asked d a \<subseteq> asked d b"
  unfolding asked_def by blast

lemma requestedI:
  "Forward now out encoded \<in> set ops \<Longrightarrow> Datagram_decode encoded = Ok (ClientToServer credential sid destination payload)
   \<Longrightarrow> DestinationPolicy_allows d destination \<Longrightarrow> (DatagramSessionId_get sid, destination) \<in> requested d ops"
  unfolding requested_def by blast

lemma askedI:
  "Forward now out encoded \<in> set ops \<Longrightarrow> Datagram_decode encoded = Ok (ClientToServer credential sid destination payload)
   \<Longrightarrow> DestinationPolicy_allows d destination \<Longrightarrow> (destination, payload) \<in> asked d ops"
  unfolding asked_def by blast

text \<open>A relay whose tasks were requested and whose traffic was asked for, relative to fixed sets.\<close>

definition traffic_in :: "(u64 \<times> SocketAddr) set \<Rightarrow> (SocketAddr \<times> bytes) set \<Rightarrow> DatagramRelay \<Rightarrow> bool" where
  "traffic_in R A s =
     ((\<forall>t \<in> set (dr_tasks s). (task_session t, task_source t) \<in> R) \<and> set (dr_sent s) \<subseteq> A
      \<and> (\<forall>packet \<in> set (dr_delivered s). \<exists>sid source payload.
            Datagram_encode (ServerToClient sid source payload) = Ok packet \<and> (DatagramSessionId_get sid, source) \<in> R))"

lemma traffic_ok_in: "traffic_ok d log s = traffic_in (requested d (map fst log)) (asked d (map fst log)) s"
  by (simp add: traffic_ok_def traffic_in_def)

lemma traffic_in_mono: "traffic_in R A s \<Longrightarrow> R \<subseteq> R' \<Longrightarrow> A \<subseteq> A' \<Longrightarrow> traffic_in R' A' s"
  unfolding traffic_in_def by blast

lemma traffic_in_tasks:
  assumes "traffic_in R A s" "same_tasks (dr_tasks s) (dr_tasks s')" "dr_sent s' = dr_sent s" "dr_delivered s' = dr_delivered s"
  shows "traffic_in R A s'"
proof -
  have "(task_session t, task_source t) \<in> R" if "t \<in> set (dr_tasks s')" for t
    using same_tasks_set [OF assms(2) that] assms(1) by (auto simp: traffic_in_def)
  then show ?thesis
    using assms(1,3,4) by (simp add: traffic_in_def)
qed

lemma prune_traffic: "traffic_in R A s \<Longrightarrow> traffic_in R A (DatagramRelay_prune_idle now s)"
  by (erule traffic_in_tasks) (simp_all add: DatagramRelay_prune_idle_def Let_def)

lemma shutdown_traffic: "traffic_in R A s \<Longrightarrow> traffic_in R A (DatagramRelay_shutdown s)"
  by (erule traffic_in_tasks) (simp_all add: DatagramRelay_shutdown_def)

lemma association_traffic:
  assumes "traffic_in R A s" "DatagramRelay_association now out i destination s = (res, s')" "(i, destination) \<in> R"
    and "\<And>k. bt_get (dr_associations s) i = Some k \<Longrightarrow> k < length (dr_tasks s)"
  shows "traffic_in R A s'"
    and "res = Ok k \<Longrightarrow> k < length (dr_tasks s') \<and> task_source (dr_tasks s' ! k) = destination"
  using assms
  by (auto simp: DatagramRelay_association_def traffic_in_def Let_def split: option.splits if_splits)

lemma turn_traffic:
  assumes "traffic_in R A s"
  shows "traffic_in R A (receive_responses now k event s)"
proof (cases "k < length (dr_tasks s) \<and> task_running (dr_tasks s ! k)")
  case True
  let ?s = "s\<lparr>dr_tasks := touch now k (dr_tasks s)\<rparr>"
  have touched: "traffic_in R A ?s"
    using assms by (rule traffic_in_tasks) simp_all
  have stopped: "traffic_in R A (stop_task k s)" "traffic_in R A (stop_task k ?s)"
    by (rule traffic_in_tasks [OF assms] traffic_in_tasks [OF touched]; simp add: stop_task_def)+
  have "(task_session (dr_tasks s ! k), task_source (dr_tasks s ! k)) \<in> R"
    using assms True by (simp add: traffic_in_def)
  then have "traffic_in R A (?s\<lparr>dr_delivered := dr_delivered s @ [packet]\<rparr>)"
    if "Datagram_encode (ServerToClient (DatagramSessionId (task_session (dr_tasks s ! k)))
      (task_source (dr_tasks s ! k)) payload) = Ok packet" for packet payload
    using touched that by (fastforce simp: traffic_in_def)
  then show ?thesis
    using True assms stopped
    by (auto simp: receive_responses_def Let_def nth_touch split: task_event.split sum.split)
qed (use assms in \<open>simp add: receive_responses_def\<close>)

lemma forward_traffic:
  assumes "associations_ok s" "traffic_in R A s" "DatagramRelay_forward now out destinations encoded s = (res, s')"
    and "\<And>credential sid destination payload. Datagram_decode encoded = Ok (ClientToServer credential sid destination payload)
      \<Longrightarrow> DestinationPolicy_allows destinations destination
      \<Longrightarrow> (DatagramSessionId_get sid, destination) \<in> R \<and> (destination, payload) \<in> A"
  shows "traffic_in R A s'"
proof -
  define p where "p = DatagramRelay_prune_idle now s"
  have pruned: "traffic_in R A p" "associations_ok p"
    unfolding p_def using prune_traffic [OF assms(2)] prune_ok [OF assms(1)] by simp_all
  show ?thesis
  proof (cases "\<exists>credential sid destination payload.
      Datagram_decode encoded = Ok (ClientToServer credential sid destination payload)
      \<and> DestinationPolicy_allows destinations destination")
    case False
    then have "s' = p"
      using assms(3) by (auto simp: DatagramRelay_forward_def Let_def p_def split: sum.splits Datagram.splits if_splits)
    then show ?thesis
      using pruned by simp
  next
    case True
    then obtain credential sid destination payload where
      decoded: "Datagram_decode encoded = Ok (ClientToServer credential sid destination payload)"
      and allowed: "DestinationPolicy_allows destinations destination"
      by blast
    note wanted = assms(4) [OF decoded allowed]
    obtain res1 s1 where assoc: "DatagramRelay_association now out (DatagramSessionId_get sid) destination p = (res1, s1)"
      by fastforce
    have known: "k < length (dr_tasks p)" if "bt_get (dr_associations p) (DatagramSessionId_get sid) = Some k" for k
      using pruned(2) that by (simp add: associations_ok_def)
    have kept: "traffic_in R A s1"
      by (rule association_traffic(1) [OF pruned(1) assoc conjunct1 [OF wanted]]) (rule known)
    show ?thesis
    proof (cases res1)
      case (Inl e)
      then show ?thesis
        using assms(3) decoded allowed assoc kept by (simp add: DatagramRelay_forward_def p_def [symmetric])
    next
      case (Inr k)
      let ?s = "s1\<lparr>dr_tasks := touch now k (dr_tasks s1)\<rparr>"
      have touched: "traffic_in R A ?s"
        using kept by (rule traffic_in_tasks) simp_all
      have "k < length (dr_tasks s1) \<and> task_source (dr_tasks s1 ! k) = destination"
        by (rule association_traffic(2) [OF pruned(1) assoc conjunct1 [OF wanted]]) (simp_all add: known Inr)
      then have "task_source (touch now k (dr_tasks s1) ! k) = destination"
        by (simp add: nth_touch)
      then show ?thesis
        using assms(3) decoded allowed assoc Inr touched wanted
        by (auto simp: DatagramRelay_forward_def p_def [symmetric] Let_def traffic_in_def split: if_splits)
    qed
  qed
qed

lemma traffic_step:
  assumes "associations_ok s" "traffic_ok destinations log s" "datagram_step destinations op s = Some (out, s')"
  shows "traffic_ok destinations (log @ [(op, out)]) s'"
proof -
  let ?R = "requested destinations (map fst log @ [op])"
  let ?A = "asked destinations (map fst log @ [op])"
  have old: "traffic_in ?R ?A s"
    by (rule traffic_in_mono [OF assms(2) [unfolded traffic_ok_in]]; rule requested_mono asked_mono; auto)
  show ?thesis
  proof (cases op)
    case (Forward now so encoded)
    then have "DatagramRelay_forward now so destinations encoded s = (out, s')"
      using assms(3) by (simp add: datagram_step_def)
    then have "traffic_in ?R ?A s'"
      by (rule forward_traffic [OF assms(1) old]) (use Forward in \<open>auto intro: requestedI askedI\<close>)
    then show ?thesis
      by (simp add: traffic_ok_in)
  next
    case (TaskTurn now k event)
    then show ?thesis
      using assms(3) turn_traffic [OF old, of now k event] by (auto simp: datagram_step_def traffic_ok_in)
  next
    case Shutdown
    then show ?thesis
      using assms(3) shutdown_traffic [OF old] by (auto simp: datagram_step_def traffic_ok_in)
  qed
qed

interpretation datagram_history: history_system "datagram_step destinations" associations_ok "traffic_ok destinations"
  for destinations
  by unfold_locales (rule traffic_step)

lemma config_step: "datagram_step d op s = Some (out, s') \<Longrightarrow> dr_config s' = dr_config s"
  by (cases op)
    (auto simp: datagram_step_def DatagramRelay_forward_def DatagramRelay_association_def DatagramRelay_prune_idle_def
      DatagramRelay_shutdown_def receive_responses_def stop_task_def Let_def
      split: sum.splits Datagram.splits if_splits prod.splits option.splits task_event.splits)

lemma new_relay_ok:
  assumes "DatagramRelay_new config = Ok s"
  shows "associations_ok s" "traffic_ok d [] s" "dr_config s = config"
  using assms
  by (auto simp: DatagramRelay_new_def and_then_def associations_ok_def traffic_ok_def split: sum.splits)

lemma live_tasks_bounded:
  assumes "associations_ok s"
  shows "length (filter (\<lambda>t. \<not> task_cancelled t) (dr_tasks s)) \<le> length (dr_associations s)"
proof -
  let ?live = "{k. k < length (dr_tasks s) \<and> \<not> task_cancelled (dr_tasks s ! k)}"
  have "?live \<subseteq> set (map snd (dr_associations s))"
  proof
    fix k assume "k \<in> ?live"
    then have "bt_get (dr_associations s) (task_session (dr_tasks s ! k)) = Some k"
      using assms by (simp add: associations_ok_def task_owned_def)
    from bt_get_SomeD [OF this] show "k \<in> set (map snd (dr_associations s))"
      by force
  qed
  then have "card ?live \<le> card (set (map snd (dr_associations s)))"
    by (intro card_mono) simp_all
  also have "\<dots> \<le> length (dr_associations s)"
    using card_length [of "map snd (dr_associations s)"] by simp
  finally show ?thesis
    by (simp add: length_filter_conv_card)
qed

section \<open>A run\<close>

lemma sample_decoded:
  "Datagram_decode (sample_packet 5) = Ok (ClientToServer [9] (DatagramSessionId 5) sample_address [42])"
  "Datagram_decode (sample_packet 6) = Ok (ClientToServer [9] (DatagramSessionId 6) sample_address [42])"
  by (simp_all add: Datagram_decode_Ok_iff wf_datagram_def wf_socket_def plain_socket_def sample_address_def
      Datagram_encode_def push_address_bytes address_bytes_def be_eval CLIENT_TO_SERVER_def IPV4_def sample_packet_def
      credential_length_ok_def)

lemma sample_encoded:
  "Datagram_encode (ServerToClient (DatagramSessionId 5) sample_address [7])
   = Ok [2, 0, 0, 0, 0, 0, 0, 0, 5, 4, 10, 0, 0, 1, 0, 53, 7]"
  by (simp add: Datagram_encode_def push_address_bytes address_bytes_def be_eval SERVER_TO_CLIENT_def IPV4_def
      sample_address_def)

lemmas sample_run_defs = sample_relay_ops_def datagram_step_def DatagramRelay_forward_def DatagramRelay_association_def
  DatagramRelay_prune_idle_def sample_decoded sample_encoded DestinationPolicy_allows_def sample_policy_def
  sample_relay_config_def sockets_work_def touch_def cancel_all_def cancel_task_def task_active_def
  receive_responses_def stop_task_def DatagramRelay_new_def DatagramRelayConfig_validate_def and_then_def Let_def

lemma sample_relay_run:
  "\<exists>s log s'. DatagramRelay_new sample_relay_config = Ok s \<and> run (datagram_step sample_policy) s log s'
     \<and> bt_get (dr_associations s') 5 = Some 0 \<and> dr_config s' = sample_relay_config
     \<and> dr_tasks s' = [\<lparr>task_session = 5, task_source = sample_address, task_last_active = 2,
          task_cancelled = False, task_running = False\<rparr>]
     \<and> length (dr_sent s') = 1 \<and> length (dr_delivered s') = 1"
proof -
  have "\<exists>s log s'. DatagramRelay_new sample_relay_config = Ok s
      \<and> execute (datagram_step sample_policy) s sample_relay_ops = Some (log, s')
      \<and> bt_get (dr_associations s') 5 = Some 0 \<and> dr_config s' = sample_relay_config
      \<and> dr_tasks s' = [\<lparr>task_session = 5, task_source = sample_address, task_last_active = 2,
          task_cancelled = False, task_running = False\<rparr>]
      \<and> length (dr_sent s') = 1 \<and> length (dr_delivered s') = 1"
    by (simp add: sample_run_defs)
  then show ?thesis
    using execute_run by fast
qed

section \<open>Properties\<close>

text \<open>
  C31. Over every history of forwarded datagrams, turns of response tasks and shutdowns, at most
  the configured number of associations is open and as many tasks run without being cancelled;
  every payload that left a socket went to the destination an earlier datagram named for it and
  the policy allows; and every packet sent to the client is the envelope of a response from a
  destination the client had asked for under the session identifier the packet carries.
\<close>

theorem datagram_relay_isolated:
  assumes "DatagramRelay_new config = Ok s" "run (datagram_step destinations) s log s'"
  shows "length (dr_associations s') \<le> max_associations config
    \<and> length (filter (\<lambda>t. \<not> task_cancelled t) (dr_tasks s')) \<le> max_associations config
    \<and> set (dr_sent s') \<subseteq> asked destinations (map fst log)
    \<and> (\<forall>packet \<in> set (dr_delivered s'). \<exists>sid source payload.
          Datagram_encode (ServerToClient sid source payload) = Ok packet
          \<and> (DatagramSessionId_get sid, source) \<in> requested destinations (map fst log))"
proof -
  note start = new_relay_ok [OF assms(1)]
  have "dr_config s' = dr_config s"
    by (rule datagram_runs.run_related [OF assms(2) start(1), where R = "\<lambda>x y. dr_config y = dr_config x"])
      (simp_all add: config_step)
  moreover have ok: "associations_ok s'"
    by (rule datagram_runs.run_inv [OF assms(2) start(1)])
  moreover have "traffic_ok destinations log s'"
    by (rule datagram_history.run_hist [OF assms(2) start(1,2)])
  ultimately show ?thesis
    using live_tasks_bounded [OF ok] start(3) unfolding traffic_ok_def associations_ok_def by simp
qed

theorem datagram_relay_isolated_witness:
  "\<exists>s log s'. DatagramRelay_new sample_relay_config = Ok s \<and> run (datagram_step sample_policy) s log s'
     \<and> length (dr_sent s') = 1 \<and> length (dr_delivered s') = 1
     \<and> length (dr_associations s') \<le> max_associations sample_relay_config
     \<and> set (dr_sent s') \<subseteq> asked sample_policy (map fst log)
     \<and> (\<exists>sid source payload. Datagram_encode (ServerToClient sid source payload) = Ok (hd (dr_delivered s'))
          \<and> (DatagramSessionId_get sid, source) \<in> requested sample_policy (map fst log))"
proof -
  obtain s log s' where new: "DatagramRelay_new sample_relay_config = Ok s" and steps: "run (datagram_step sample_policy) s log s'"
    and one: "length (dr_sent s') = 1" "length (dr_delivered s') = 1"
    using sample_relay_run by blast
  have "hd (dr_delivered s') \<in> set (dr_delivered s')"
    using one(2) by (intro hd_in_set) auto
  then show ?thesis
    using datagram_relay_isolated [OF new steps] new steps one by blast
qed

text \<open>
  A response task that has ended (a failed receive, or a response too large for an envelope)
  never runs again, but its association stays: until it has been idle for the timeout, further
  datagrams of that session are accepted and sent on the socket nobody reads any more, without
  an error and without a new task.
\<close>

theorem dead_association_accepts:
  assumes "associations_ok s" "bt_get (dr_associations s) (DatagramSessionId_get sid) = Some k"
    "\<not> task_running (dr_tasks s ! k)" "task_active (dr_config s) now (dr_tasks s ! k)"
    "Datagram_decode encoded = Ok (ClientToServer credential sid (task_source (dr_tasks s ! k)) payload)"
    "DestinationPolicy_allows destinations (task_source (dr_tasks s ! k))" "so_send out"
  shows "\<exists>s'. DatagramRelay_forward now out destinations encoded s = (Ok (), s')
    \<and> dr_sent s' = dr_sent s @ [(task_source (dr_tasks s ! k), payload)]
    \<and> bt_get (dr_associations s') (DatagramSessionId_get sid) = Some k
    \<and> length (dr_tasks s') = length (dr_tasks s) \<and> \<not> task_running (dr_tasks s' ! k)
    \<and> (\<forall>later event. receive_responses later k event s' = s')"
proof -
  define p where "p = DatagramRelay_prune_idle now s"
  have k: "k < length (dr_tasks s)" and sorted: "bt_sorted (dr_associations s)"
    using assms(1,2) by (auto simp: associations_ok_def)
  have tasks: "length (dr_tasks p) = length (dr_tasks s)" "dr_tasks p ! k = dr_tasks s ! k" "dr_sent p = dr_sent s"
    using k assms(4) by (simp_all add: p_def DatagramRelay_prune_idle_def Let_def nth_cancel_all)
  have "bt_get (dr_associations p) (DatagramSessionId_get sid) = Some k"
    using k sorted assms(2,4)
    by (auto simp: p_def DatagramRelay_prune_idle_def Let_def bt_get_Some_iff bt_sorted_filter)
  then show ?thesis
    using assms(3,5,6,7) k tasks
    by (auto simp: DatagramRelay_forward_def p_def [symmetric] DatagramRelay_association_def Let_def nth_touch
        receive_responses_def)
qed

theorem dead_association_accepts_witness:
  "\<exists>s s'. associations_ok s \<and> \<not> task_running (dr_tasks s ! 0)
     \<and> DatagramRelay_forward 30 sockets_work sample_policy (sample_packet 5) s = (Ok (), s')
     \<and> length (dr_sent s') = 2 \<and> \<not> task_running (dr_tasks s' ! 0)"
proof -
  obtain s0 log s where new: "DatagramRelay_new sample_relay_config = Ok s0" and r: "run (datagram_step sample_policy) s0 log s"
    and s: "bt_get (dr_associations s) 5 = Some 0" "dr_config s = sample_relay_config"
      "dr_tasks s = [\<lparr>task_session = 5, task_source = sample_address, task_last_active = 2,
          task_cancelled = False, task_running = False\<rparr>]" "length (dr_sent s) = 1"
    using sample_relay_run by blast
  have ok: "associations_ok s"
    by (rule datagram_runs.run_inv [OF r new_relay_ok(1) [OF new]])
  show ?thesis
    using dead_association_accepts [OF ok, of "DatagramSessionId 5" 0 30 "sample_packet 5" "[9]" "[42]" sample_policy
        sockets_work] ok s
    by (auto simp: sample_decoded task_active_def sample_relay_config_def DestinationPolicy_allows_def
        sample_policy_def sockets_work_def)
qed

end
