(* ===== verification/Relay_Node.thy ===== *)
theory Relay_Node
  imports Datagram_Relay Rust_Text
begin

text \<open>
  \<^verbatim>\<open>apps/velum-node/src/lib.rs\<close> and the admission part of \<^verbatim>\<open>listener.rs\<close>: the relay reads one control record
  per stream, authenticates it, checks its destination, and takes a flow from the session lease
  that all streams and datagrams of a connection share. The mutex of the quotas is taken several
  times while the mutex of a connection's session is held, so the steps below are the sections
  between two acquisitions: a stream that holds the session mutex of its connection blocks the
  others of that connection, and the streams of other connections interleave freely.
\<close>

section \<open>Configuration\<close>

abbreviation MAX_SECRET_BYTES :: nat where "MAX_SECRET_BYTES \<equiv> 128"
abbreviation HEADER_BYTES :: nat where "HEADER_BYTES \<equiv> 4"

text \<open>Durations are natural numbers.\<close>

record QuicRelayConfig =
  schema_version :: u16
  connect_timeout :: nat
  control_timeout :: nat
  shutdown_timeout :: nat
  max_control_bytes :: nat
  max_connections :: nat
  max_streams_per_connection :: nat

definition QuicRelayConfig_default :: QuicRelayConfig where
  "QuicRelayConfig_default = \<lparr>schema_version = 1, connect_timeout = 5, control_timeout = 5, shutdown_timeout = 5,
     max_control_bytes = MAX_SECRET_BYTES + 64, max_connections = 1024, max_streams_per_connection = 64\<rparr>"

datatype ConfigError =
    UnsupportedSchema
  | ZeroConnectTimeout
  | ZeroControlTimeout
  | ZeroShutdownTimeout
  | ControlLimitTooSmall
  | ZeroConnectionLimit
  | ZeroStreamLimit
  | StreamLimitTooLarge

definition QuicRelayConfig_validate :: "QuicRelayConfig \<Rightarrow> (ConfigError, unit) result" where
  "QuicRelayConfig_validate self =
     (if schema_version self \<noteq> 1 then Err UnsupportedSchema
      else if connect_timeout self = 0 then Err ZeroConnectTimeout
      else if control_timeout self = 0 then Err ZeroControlTimeout
      else if shutdown_timeout self = 0 then Err ZeroShutdownTimeout
      else if max_control_bytes self < HEADER_BYTES + 1 + length ''[::1]:65535'' then Err ControlLimitTooSmall
      else if max_connections self = 0 then Err ZeroConnectionLimit
      else if max_streams_per_connection self = 0 then Err ZeroStreamLimit
      else Ok ())"

definition QuicRelayConfig_transport_profile :: "QuicRelayConfig \<Rightarrow> (ConfigError, u32) result" where
  "QuicRelayConfig_transport_profile self =
     (if max_streams_per_connection self < 2 ^ 32 then Ok (word_of_nat (max_streams_per_connection self))
      else Err StreamLimitTooLarge)"

datatype QuicRelayEvent =
    ConnectionAccepted
  | ConnectionRejected
  | StreamRejected
  | ControlRejected
  | AuthenticationRejectedEvent
  | DestinationRejectedEvent
  | SessionQuotaRejectedEvent
  | FlowQuotaRejectedEvent
  | DatagramRejected
  | DatagramAssociationLimit
  | DatagramRelayed
  | ConnectFailedEvent
  | FlowRelayed
  | ShutdownStarted

datatype RelayError =
    InvalidControl
  | AuthenticationRejected
  | DestinationRejected
  | SessionQuotaRejected
  | FlowQuotaRejected
  | ConnectFailed
  | RelayTransport

section \<open>The control record\<close>

record OpenRequest =
  open_secret :: bytes
  open_target :: SocketAddr

datatype ControlError = ControlInvalid | SecretTooLarge

definition ascii_text :: "bytes \<Rightarrow> string" where
  "ascii_text bs = map (\<lambda>b. char_of (unat b)) bs"

text \<open>An address that was read from text, as the octets of the wire format.\<close>

definition socket_of :: "SockAddr \<Rightarrow> SocketAddr" where
  "socket_of a =
     (case sock_ip a of
        V4 ip \<Rightarrow> SocketV4 (u32_to_be_bytes ip) (sock_port a)
      | V6 ip \<Rightarrow> SocketV6 (u128_to_be_bytes ip) (sock_port a) 0 (sock_scope a))"

definition decode_open :: "bytes \<Rightarrow> (ControlError, OpenRequest) result" where
  "decode_open bs =
     (if length bs < HEADER_BYTES then Err ControlInvalid
      else
        let secret_length = unat (u16_from_be_bytes (take 2 bs));
            target_length = unat (u16_from_be_bytes (take 2 (drop 2 bs)))
        in if secret_length = 0 \<or> secret_length > MAX_SECRET_BYTES
              \<or> length bs \<noteq> HEADER_BYTES + secret_length + target_length
           then Err ControlInvalid
           else
             (let secret_end = HEADER_BYTES + secret_length;
                  target = (let t = ascii_text (drop secret_end bs) in if utf8_valid t then SockAddr_parse t else None)
              in case target of
                   None \<Rightarrow> Err ControlInvalid
                 | Some a \<Rightarrow> Ok \<lparr>open_secret = take secret_length (drop HEADER_BYTES bs), open_target = socket_of a\<rparr>))"

text \<open>
  Reading the record from a stream: the bytes the client sent and whatever follows. The result is
  paired with the bytes that were not read; a stream that ends too early is an error.
\<close>

definition read_open_request :: "bytes \<Rightarrow> nat \<Rightarrow> (RelayError, OpenRequest) result \<times> bytes" where
  "read_open_request input maximum =
     (if maximum < HEADER_BYTES then (Err InvalidControl, input)
      else if length input < HEADER_BYTES then (Err RelayTransport, [])
      else
        let header = take HEADER_BYTES input;
            rest = drop HEADER_BYTES input;
            secret_length = unat (u16_from_be_bytes (take 2 header));
            target_length = unat (u16_from_be_bytes (drop 2 header))
        in case Option.bind (usize_checked_add HEADER_BYTES secret_length)
                  (\<lambda>v. usize_checked_add v target_length) of
             None \<Rightarrow> (Err InvalidControl, rest)
           | Some len \<Rightarrow>
               if len > maximum then (Err InvalidControl, rest)
               else if length rest < len - HEADER_BYTES then (Err RelayTransport, [])
               else
                 (map_err (\<lambda>_. InvalidControl) (decode_open (header @ take (len - HEADER_BYTES) rest)),
                  drop (len - HEADER_BYTES) rest))"

section \<open>Admission of a connection\<close>

record RelayEnv =
  env_authenticator :: Authenticator
  env_destinations :: DestinationPolicy
  env_config :: QuicRelayConfig

record AdmittedSession =
  adm_principal :: PrincipalId
  adm_lease :: SessionLease

definition open_session ::
  "AdmissionControl \<Rightarrow> PrincipalId
   \<Rightarrow> ((RelayError, SessionLease) result \<times> AdmissionControl \<times> QuicRelayEvent list) option" where
  "open_session quotas pid =
     (case AdmissionControl_open_session quotas pid of
        None \<Rightarrow> None
      | Some (Inr lease, q) \<Rightarrow> Some (Ok lease, q, [])
      | Some (Inl SessionQuotaExceeded, q) \<Rightarrow> Some (Err SessionQuotaRejected, q, [SessionQuotaRejectedEvent])
      | Some (Inl _, q) \<Rightarrow> Some (Err RelayTransport, q, []))"

definition open_flow ::
  "AdmissionControl \<Rightarrow> PrincipalId \<Rightarrow> SessionLease
   \<Rightarrow> (RelayError, unit) result \<times> AdmissionControl \<times> QuicRelayEvent list" where
  "open_flow quotas pid lease =
     (case AdmissionControl_open_flow quotas pid lease of
        (Inr _, q) \<Rightarrow> (Ok (), q, [])
      | (Inl FlowQuotaExceeded, q) \<Rightarrow> (Err FlowQuotaRejected, q, [FlowQuotaRejectedEvent])
      | (Inl _, q) \<Rightarrow> (Err RelayTransport, q, []))"

text \<open>The session of a connection for a principal: the one it has, or a new lease.\<close>

definition ConnectionAdmission_session ::
  "AdmissionControl \<Rightarrow> AdmittedSession option \<Rightarrow> PrincipalId
   \<Rightarrow> ((RelayError, SessionLease \<times> bool) result \<times> AdmissionControl \<times> AdmittedSession option
       \<times> QuicRelayEvent list) option" where
  "ConnectionAdmission_session quotas session pid =
     (case session of
        Some existing \<Rightarrow>
          Some (if adm_principal existing \<noteq> pid
                then (Err AuthenticationRejected, quotas, session, [AuthenticationRejectedEvent])
                else (Ok (adm_lease existing, False), quotas, session, []))
      | None \<Rightarrow>
          (case open_session quotas pid of
             None \<Rightarrow> None
           | Some (Inl e, q, events) \<Rightarrow> Some (Err e, q, None, events)
           | Some (Inr lease, q, events) \<Rightarrow>
               Some (Ok (lease, True), q, Some \<lparr>adm_principal = pid, adm_lease = lease\<rparr>, events)))"

definition ConnectionAdmission_admit_datagram ::
  "RelayEnv \<Rightarrow> AdmissionControl \<Rightarrow> AdmittedSession option \<Rightarrow> bytes
   \<Rightarrow> ((RelayError, unit) result \<times> AdmissionControl \<times> AdmittedSession option \<times> QuicRelayEvent list) option" where
  "ConnectionAdmission_admit_datagram env quotas session credential =
     (case Authenticator_authenticate (env_authenticator env) credential of
        Inl _ \<Rightarrow> Some (Err AuthenticationRejected, quotas, session, [AuthenticationRejectedEvent])
      | Inr pid \<Rightarrow>
          (case ConnectionAdmission_session quotas session pid of
             None \<Rightarrow> None
           | Some (Inl e, q, s, events) \<Rightarrow> Some (Err e, q, s, events)
           | Some (Inr _, q, s, events) \<Rightarrow> Some (Ok (), q, s, events)))"

definition ConnectionAdmission_release_flow ::
  "AdmissionControl \<Rightarrow> AdmittedSession option \<Rightarrow> SessionLease \<Rightarrow> AdmissionControl" where
  "ConnectionAdmission_release_flow quotas session lease =
     (case session of
        Some s \<Rightarrow>
          if adm_lease s = lease then snd (AdmissionControl_close_flow quotas (adm_principal s) lease) else quotas
      | None \<Rightarrow> quotas)"

definition ConnectionAdmission_close :: "AdmissionControl \<Rightarrow> AdmittedSession option \<Rightarrow> AdmissionControl" where
  "ConnectionAdmission_close quotas session =
     (case session of
        Some s \<Rightarrow> snd (AdmissionControl_close_session quotas (adm_principal s) (adm_lease s))
      | None \<Rightarrow> quotas)"

section \<open>Streams\<close>

text \<open>
  Where a stream task is. \<open>OpeningFlow\<close> and \<open>RollingBack\<close> are inside \<^verbatim>\<open>reserve_flow\<close>, with the mutex of
  the session held; the flag says whether the task created the session.
\<close>

datatype stream_phase =
    ReadingControl
  | ReservingFlow PrincipalId SocketAddr
  | OpeningFlow PrincipalId SessionLease bool SocketAddr
  | RollingBack PrincipalId SessionLease RelayError
  | RelayingFlow SessionLease SocketAddr
  | ReleasingFlow SessionLease "(RelayError, unit) result"
  | StreamEnded "(RelayError, unit) result"

record relay_connection =
  conn_session :: "AdmittedSession option"
  conn_locked :: bool
  conn_draining :: bool
  conn_closed :: bool
  conn_streams :: "stream_phase list"
  conn_datagrams :: DatagramRelay

text \<open>What a stream waits for: the control record (or its timeout) and the end of the relaying.\<close>

datatype stream_input =
    ControlTimedOut
  | ControlRead "(RelayError, OpenRequest) result"
  | RelayFinished "(RelayError, unit) result"
  | Scheduled

definition relay_control :: "RelayEnv \<Rightarrow> (RelayError, OpenRequest) result \<Rightarrow> stream_phase \<times> QuicRelayEvent list" where
  "relay_control env read =
     (case read of
        Inl e \<Rightarrow> (StreamEnded (Err e), [ControlRejected])
      | Inr request \<Rightarrow>
          (case Authenticator_authenticate (env_authenticator env) (open_secret request) of
             Inl _ \<Rightarrow> (StreamEnded (Err AuthenticationRejected), [AuthenticationRejectedEvent])
           | Inr pid \<Rightarrow>
               if \<not> DestinationPolicy_allows (env_destinations env) (open_target request)
               then (StreamEnded (Err DestinationRejected), [DestinationRejectedEvent])
               else (ReservingFlow pid (open_target request), [])))"

definition set_stream :: "nat \<Rightarrow> stream_phase \<Rightarrow> relay_connection \<Rightarrow> relay_connection" where
  "set_stream i ph c = c\<lparr>conn_streams := (conn_streams c)[i := ph]\<rparr>"

text \<open>
  One section of \<^verbatim>\<open>relay_quic_stream\<close>: the quotas and the connection before and after, and what the
  observer is told. A stream that cannot go on (another stream holds the mutex, or it waits for
  something else) stays where it is.
\<close>

definition stream_step ::
  "RelayEnv \<Rightarrow> nat \<Rightarrow> stream_input \<Rightarrow> AdmissionControl \<Rightarrow> relay_connection
   \<Rightarrow> (QuicRelayEvent list \<times> AdmissionControl \<times> relay_connection) option" where
  "stream_step env i input quotas c =
     (case (conn_streams c ! i, input) of
        (ReadingControl, ControlTimedOut) \<Rightarrow>
          Some (if QuicRelayConfig_validate (env_config env) \<noteq> Ok ()
                then ([], quotas, set_stream i (StreamEnded (Err InvalidControl)) c)
                else ([ControlRejected], quotas, set_stream i (StreamEnded (Err InvalidControl)) c))
      | (ReadingControl, ControlRead read) \<Rightarrow>
          Some (if QuicRelayConfig_validate (env_config env) \<noteq> Ok ()
                then ([], quotas, set_stream i (StreamEnded (Err InvalidControl)) c)
                else (case relay_control env read of (ph, events) \<Rightarrow> (events, quotas, set_stream i ph c)))
      | (ReservingFlow pid target, Scheduled) \<Rightarrow>
          if conn_locked c then Some ([], quotas, c)
          else
            (case ConnectionAdmission_session quotas (conn_session c) pid of
               None \<Rightarrow> None
             | Some (Inl e, q, s, events) \<Rightarrow>
                 Some (events, q, set_stream i (StreamEnded (Err e)) (c\<lparr>conn_session := s\<rparr>))
             | Some (Inr (lease, created), q, s, events) \<Rightarrow>
                 Some (events, q, set_stream i (OpeningFlow pid lease created target) (c\<lparr>conn_session := s, conn_locked := True\<rparr>)))
      | (OpeningFlow pid lease created target, Scheduled) \<Rightarrow>
          (case open_flow quotas pid lease of
             (Inr _, q, events) \<Rightarrow> Some (events, q, set_stream i (RelayingFlow lease target) (c\<lparr>conn_locked := False\<rparr>))
           | (Inl e, q, events) \<Rightarrow>
               Some (if created then (events, q, set_stream i (RollingBack pid lease e) c)
                     else (events, q, set_stream i (StreamEnded (Err e)) (c\<lparr>conn_locked := False\<rparr>))))
      | (RollingBack pid lease e, Scheduled) \<Rightarrow>
          Some ([], snd (AdmissionControl_close_session quotas pid lease),
                set_stream i (StreamEnded (Err e)) (c\<lparr>conn_session := None, conn_locked := False\<rparr>))
      | (RelayingFlow lease _, RelayFinished result) \<Rightarrow>
          Some ([], quotas, set_stream i (ReleasingFlow lease result) c)
      | (ReleasingFlow lease result, Scheduled) \<Rightarrow>
          if conn_locked c then Some ([], quotas, c)
          else
            Some ([if result = Ok () then FlowRelayed else ConnectFailedEvent],
                  ConnectionAdmission_release_flow quotas (conn_session c) lease,
                  set_stream i (StreamEnded result) c)
      | _ \<Rightarrow> Some ([], quotas, c))"

section \<open>The relay\<close>

record relay_state =
  rl_quotas :: AdmissionControl
  rl_connections :: "relay_connection list"
  rl_events :: "QuicRelayEvent list"

definition stream_active :: "stream_phase \<Rightarrow> bool" where
  "stream_active ph = (case ph of StreamEnded _ \<Rightarrow> False | _ \<Rightarrow> True)"

text \<open>The relay of a connection is made from the default configuration, which is valid.\<close>

definition new_connection :: "relay_connection option" where
  "new_connection =
     (case DatagramRelay_new DatagramRelayConfig_default of
        Inl _ \<Rightarrow> None
      | Inr datagrams \<Rightarrow>
          Some \<lparr>conn_session = None, conn_locked = False, conn_draining = False, conn_closed = False,
            conn_streams = [], conn_datagrams = datagrams\<rparr>)"

datatype relay_op =
    AcceptConnection
  | AcceptStream nat
  | StreamRuns nat nat stream_input
  | DatagramArrives nat nat socket_outcome bytes
  | ResponseTaskRuns nat nat nat task_event
  | ConnectionFails nat
  | CloseConnection nat

definition with_connection ::
  "nat \<Rightarrow> relay_state
   \<Rightarrow> (AdmissionControl \<Rightarrow> relay_connection
       \<Rightarrow> (QuicRelayEvent list \<times> AdmissionControl \<times> relay_connection) option)
   \<Rightarrow> (unit \<times> relay_state) option" where
  "with_connection k s f =
     (if k < length (rl_connections s) then
        (case f (rl_quotas s) (rl_connections s ! k) of
           None \<Rightarrow> None
         | Some (events, q, c) \<Rightarrow>
             Some ((), s\<lparr>rl_quotas := q, rl_connections := (rl_connections s)[k := c],
               rl_events := rl_events s @ events\<rparr>))
      else Some ((), s))"

text \<open>The loop of \<^verbatim>\<open>serve_connection\<close> and its end, after the carrier has failed.\<close>

definition accept_stream ::
  "RelayEnv \<Rightarrow> AdmissionControl \<Rightarrow> relay_connection
   \<Rightarrow> (QuicRelayEvent list \<times> AdmissionControl \<times> relay_connection) option" where
  "accept_stream env quotas c =
     Some (if conn_draining c then ([], quotas, c)
           else if length (filter stream_active (conn_streams c)) \<ge> max_streams_per_connection (env_config env)
           then ([StreamRejected], quotas, c)
           else ([], quotas, c\<lparr>conn_streams := conn_streams c @ [ReadingControl]\<rparr>))"

definition forward_event :: "(DatagramRelayError, unit) result \<Rightarrow> QuicRelayEvent" where
  "forward_event r =
     (case r of
        Inr _ \<Rightarrow> DatagramRelayed
      | Inl AssociationLimit \<Rightarrow> DatagramAssociationLimit
      | Inl _ \<Rightarrow> DatagramRejected)"

definition datagram_arrives ::
  "RelayEnv \<Rightarrow> nat \<Rightarrow> socket_outcome \<Rightarrow> bytes \<Rightarrow> AdmissionControl \<Rightarrow> relay_connection
   \<Rightarrow> (QuicRelayEvent list \<times> AdmissionControl \<times> relay_connection) option" where
  "datagram_arrives env now out datagram quotas c =
     (if conn_draining c \<or> conn_locked c then Some ([], quotas, c)
      else
        (case Datagram_decode datagram of
           Inr (ClientToServer credential _ _ _) \<Rightarrow>
             (case ConnectionAdmission_admit_datagram env quotas (conn_session c) credential of
                None \<Rightarrow> None
              | Some (Inl _, q, s, events) \<Rightarrow>
                  Some (events @ [DatagramRejected], q, c\<lparr>conn_session := s\<rparr>)
              | Some (Inr _, q, s, events) \<Rightarrow>
                  (case DatagramRelay_forward now out (env_destinations env) datagram (conn_datagrams c) of
                     (r, datagrams) \<Rightarrow>
                       Some (events @ [forward_event r], q, c\<lparr>conn_session := s, conn_datagrams := datagrams\<rparr>)))
         | _ \<Rightarrow> Some ([DatagramRejected], quotas, c)))"

definition response_task_runs ::
  "nat \<Rightarrow> nat \<Rightarrow> task_event \<Rightarrow> AdmissionControl \<Rightarrow> relay_connection
   \<Rightarrow> (QuicRelayEvent list \<times> AdmissionControl \<times> relay_connection) option" where
  "response_task_runs now k event quotas c =
     Some ([], quotas, c\<lparr>conn_datagrams := receive_responses now k event (conn_datagrams c)\<rparr>)"

text \<open>The carrier failed: the loop ends and the associations are shut down.\<close>

definition connection_fails ::
  "AdmissionControl \<Rightarrow> relay_connection
   \<Rightarrow> (QuicRelayEvent list \<times> AdmissionControl \<times> relay_connection) option" where
  "connection_fails quotas c =
     Some ([], quotas, c\<lparr>conn_draining := True, conn_datagrams := DatagramRelay_shutdown (conn_datagrams c)\<rparr>)"

definition close_connection ::
  "AdmissionControl \<Rightarrow> relay_connection
   \<Rightarrow> (QuicRelayEvent list \<times> AdmissionControl \<times> relay_connection) option" where
  "close_connection quotas c =
     Some (if conn_draining c \<and> list_all (\<lambda>ph. \<not> stream_active ph) (conn_streams c) \<and> \<not> conn_locked c
           then ([], ConnectionAdmission_close quotas (conn_session c), c\<lparr>conn_session := None, conn_closed := True\<rparr>)
           else ([], quotas, c))"

definition relay_step :: "RelayEnv \<Rightarrow> relay_op \<Rightarrow> relay_state \<Rightarrow> (unit \<times> relay_state) option" where
  "relay_step env op s =
     (case op of
        AcceptConnection \<Rightarrow>
          if length (filter (\<lambda>c. \<not> conn_closed c) (rl_connections s)) \<ge> max_connections (env_config env)
          then Some ((), s\<lparr>rl_events := rl_events s @ [ConnectionRejected]\<rparr>)
          else map_option (\<lambda>c. ((), s\<lparr>rl_connections := rl_connections s @ [c],
                                     rl_events := rl_events s @ [ConnectionAccepted]\<rparr>)) new_connection
      | AcceptStream k \<Rightarrow> with_connection k s (accept_stream env)
      | StreamRuns k i input \<Rightarrow>
          with_connection k s (\<lambda>q c. if i < length (conn_streams c) then stream_step env i input q c else Some ([], q, c))
      | DatagramArrives k now out datagram \<Rightarrow> with_connection k s (datagram_arrives env now out datagram)
      | ResponseTaskRuns k now t event \<Rightarrow> with_connection k s (response_task_runs now t event)
      | ConnectionFails k \<Rightarrow> with_connection k s connection_fails
      | CloseConnection k \<Rightarrow> with_connection k s close_connection)"

definition relay_new :: "PrincipalQuota \<Rightarrow> relay_state" where
  "relay_new q = \<lparr>rl_quotas = AdmissionControl_new q, rl_connections = [], rl_events = []\<rparr>"

end
