(* ===== verification/Relay_Properties.thy ===== *)
theory Relay_Properties
  imports Relay_Node
begin

text \<open>
  The relay as a whole: under every interleaving of connections, streams and datagrams the quotas
  account exactly for the sessions and flows in use, the limits hold, and nothing is leaked when
  connections close.
\<close>

section \<open>Invariant\<close>

definition conn_key :: "relay_connection \<Rightarrow> (PrincipalId \<times> SessionLease) option" where
  "conn_key c = map_option (\<lambda>a. (adm_principal a, adm_lease a)) (conn_session c)"

fun flow_lease :: "stream_phase \<Rightarrow> SessionLease option" where
  "flow_lease (RelayingFlow l _) = Some l"
| "flow_lease (ReleasingFlow l _) = Some l"
| "flow_lease _ = None"

definition flows_in_use :: "relay_connection \<Rightarrow> nat" where
  "flows_in_use c = length (filter (\<lambda>ph. flow_lease ph \<noteq> None) (conn_streams c))"

text \<open>A stream inside \<^verbatim>\<open>reserve_flow\<close>, with the key of the session it works on.\<close>

fun reserving :: "stream_phase \<Rightarrow> (PrincipalId \<times> SessionLease) option" where
  "reserving (OpeningFlow p l _ _) = Some (p, l)"
| "reserving (RollingBack p l _) = Some (p, l)"
| "reserving _ = None"

text \<open>A stream that would close the session if it failed.\<close>

fun may_roll_back :: "stream_phase \<Rightarrow> bool" where
  "may_roll_back (OpeningFlow _ _ created _) = created"
| "may_roll_back (RollingBack _ _ _) = True"
| "may_roll_back _ = False"

definition accounted :: "AdmissionControl \<Rightarrow> relay_connection \<Rightarrow> bool" where
  "accounted q c =
     (case conn_key c of
        None \<Rightarrow> flows_in_use c = 0
      | Some k \<Rightarrow> map_option usage_flows (bt_get (sessions q) k) = Some (flows_in_use c))"

definition phase_ok :: "(PrincipalId \<times> SessionLease) option \<Rightarrow> nat \<Rightarrow> stream_phase \<Rightarrow> bool" where
  "phase_ok key flows ph =
     ((flow_lease ph \<noteq> None \<longrightarrow> flow_lease ph = map_option snd key)
      \<and> (reserving ph \<noteq> None \<longrightarrow> reserving ph = key)
      \<and> (may_roll_back ph \<longrightarrow> flows = 0))"

definition streams_ok :: "nat \<Rightarrow> relay_connection \<Rightarrow> bool" where
  "streams_ok limit c =
     ((\<forall>ph \<in> set (conn_streams c). phase_ok (conn_key c) (flows_in_use c) ph)
      \<and> length (filter (\<lambda>ph. reserving ph \<noteq> None) (conn_streams c)) = (if conn_locked c then 1 else 0)
      \<and> length (filter stream_active (conn_streams c)) \<le> limit
      \<and> (conn_closed c \<longrightarrow> conn_draining c \<and> conn_key c = None
           \<and> list_all (\<lambda>ph. \<not> stream_active ph) (conn_streams c)))"

definition conn_ok :: "nat \<Rightarrow> AdmissionControl \<Rightarrow> relay_connection \<Rightarrow> bool" where
  "conn_ok limit q c = (accounted q c \<and> streams_ok limit c)"

definition open_connections :: "relay_connection list \<Rightarrow> nat" where
  "open_connections cs = length (filter (\<lambda>c. \<not> conn_closed c) cs)"

definition relay_inv :: "RelayEnv \<Rightarrow> PrincipalQuota \<Rightarrow> relay_state \<Rightarrow> bool" where
  "relay_inv env lim s =
     (admission_inv lim (rl_quotas s)
      \<and> (\<forall>c \<in> set (rl_connections s). conn_ok (max_streams_per_connection (env_config env)) (rl_quotas s) c)
      \<and> (\<forall>i < length (rl_connections s). \<forall>j < length (rl_connections s). \<forall>k.
           conn_key (rl_connections s ! i) = Some k \<longrightarrow> conn_key (rl_connections s ! j) = Some k \<longrightarrow> i = j)
      \<and> (\<forall>k. bt_get (sessions (rl_quotas s)) k \<noteq> None \<longrightarrow> (\<exists>c \<in> set (rl_connections s). conn_key c = Some k))
      \<and> open_connections (rl_connections s) \<le> max_connections (env_config env))"

text \<open>What a section of one connection may do to the quotas: only its own session, or a fresh one.\<close>

definition touches_own :: "AdmissionControl \<Rightarrow> relay_connection \<Rightarrow> AdmissionControl \<Rightarrow> relay_connection \<Rightarrow> bool" where
  "touches_own q c q' c' =
     ((\<forall>k. conn_key c \<noteq> Some k \<longrightarrow> conn_key c' \<noteq> Some k \<longrightarrow> bt_get (sessions q') k = bt_get (sessions q) k)
      \<and> (\<forall>k. conn_key c = Some k \<longrightarrow> conn_key c' \<noteq> Some k \<longrightarrow> bt_get (sessions q') k = None)
      \<and> (\<forall>k. conn_key c' = Some k \<longrightarrow> conn_key c = Some k \<or> bt_get (sessions q) k = None)
      \<and> (conn_closed c \<longrightarrow> conn_closed c'))"

text \<open>A small relay, for the witnesses: one principal, one destination, one session with one flow.\<close>

definition small_env :: RelayEnv where
  "small_env = \<lparr>env_authenticator = \<lparr>credentials = [(PrincipalId 7, [1, 2])], secret_length = Some 2\<rparr>,
     env_destinations = \<lparr>allowed = [SocketV4 [192, 0, 2, 1] 443]\<rparr>, env_config = QuicRelayConfig_default\<rparr>"

definition small_quota :: PrincipalQuota where
  "small_quota = \<lparr>max_sessions = 1, max_flows_per_session = 1\<rparr>"

definition small_request :: OpenRequest where
  "small_request = \<lparr>open_secret = [1, 2], open_target = SocketV4 [192, 0, 2, 1] 443\<rparr>"

text \<open>Two streams of one connection: the second is refused while the first relays.\<close>

definition small_ops :: "relay_op list" where
  "small_ops = [AcceptConnection, AcceptStream 0, StreamRuns 0 0 (ControlRead (Ok small_request)),
     StreamRuns 0 0 Scheduled, StreamRuns 0 0 Scheduled,
     AcceptStream 0, StreamRuns 0 1 (ControlRead (Ok small_request)), StreamRuns 0 1 Scheduled]"

section \<open>Lists\<close>

lemma length_filter_update:
  assumes "i < length xs"
  shows "length (filter P (xs[i := x])) + (if P (xs ! i) then 1 else 0) =
    length (filter P xs) + (if P x then 1 else 0)"
  using assms
proof (induction xs arbitrary: i)
  case (Cons y ys)
  then show ?case
    by (cases i) auto
qed simp

lemma length_filter_update_same:
  assumes "i < length xs" "P (xs ! i) = P x"
  shows "length (filter P (xs[i := x])) = length (filter P xs)"
  using length_filter_update [OF assms(1), of P x] assms(2) by simp

lemma filter_one:
  assumes "length (filter P xs) = 1" "i < length xs" "j < length xs" "P (xs ! i)" "P (xs ! j)"
  shows "i = j"
  using assms
proof (induction xs arbitrary: i j)
  case (Cons y ys)
  have none: "\<not> P (ys ! n)" if "filter P ys = []" "n < length ys" for n
    using that by (metis filter_empty_conv nth_mem)
  show ?case
  proof (cases "P y")
    case True
    then have "filter P ys = []"
      using Cons.prems(1) by simp
    then show ?thesis
      using Cons.prems none by (cases i; cases j) auto
  next
    case False
    then show ?thesis
      using Cons by (cases i; cases j) auto
  qed
qed simp

section \<open>The quotas\<close>

lemma open_session_cases:
  assumes "open_session q p = Some (r, q', events)"
  obtains (refused) e where "r = Err e" "q' = q"
  | (granted) l where "r = Ok l" "AdmissionControl_open_session q p = Some (Ok l, q')"
proof -
  have "(\<exists>e. r = Err e \<and> q' = q) \<or> (\<exists>l. r = Ok l \<and> AdmissionControl_open_session q p = Some (Ok l, q'))"
    using assms
    by (auto simp: open_session_def AdmissionControl_open_session_def Let_def
        split: option.splits if_splits)
  then show thesis
    using refused granted by blast
qed

lemma lease_bound:
  assumes "admission_inv lim q" "bt_get (sessions q) (p, l) = Some u"
  shows "lease_value l < next_lease q"
  using assms(1) bt_get_SomeD [OF assms(2)] by (auto simp: admission_inv_def)

lemma granted_session:
  assumes "admission_inv lim q" "AdmissionControl_open_session q p = Some (Ok l, q')"
  shows "bt_get (sessions q) (p, l) = None"
    and "bt_get (sessions q') = (bt_get (sessions q))((p, l) \<mapsto> \<lparr>usage_flows = 0\<rparr>)"
    and "admission_inv lim q'"
proof -
  have free: "\<not> max_sessions (quota q) \<le> sessions_of q p"
    using assms(2) by (auto simp: AdmissionControl_open_session_def)
  obtain n where n: "checked_add (next_lease q) 1 = Some n"
    using assms(2) free by (cases "checked_add (next_lease q) 1") (simp_all add: AdmissionControl_open_session_def)
  have l: "l = SessionLease (next_lease q)"
    and q': "q' = q\<lparr>next_lease := n, sessions := bt_insert (p, l) \<lparr>usage_flows = 0\<rparr> (sessions q)\<rparr>"
    using assms(2) free n by (auto simp: AdmissionControl_open_session_def Let_def)
  show "bt_get (sessions q) (p, l) = None"
    using lease_bound [OF assms(1), of p l] l by fastforce
  show "bt_get (sessions q') = (bt_get (sessions q))((p, l) \<mapsto> \<lparr>usage_flows = 0\<rparr>)"
    by (simp add: q' bt_get_insert)
  show "admission_inv lim q'"
    by (rule admission_inv_open [OF assms])
qed

lemma open_flow_cases:
  assumes "open_flow q p l = (r, q', events)" "bt_get (sessions q) (p, l) = Some u"
  obtains (refused) e where "r = Err e" "q' = q"
  | (granted) "r = Ok ()" "q' = snd (AdmissionControl_open_flow q p l)"
      "bt_get (sessions q') = (bt_get (sessions q))((p, l) \<mapsto> u\<lparr>usage_flows := usage_flows u + 1\<rparr>)"
proof -
  have "(\<exists>e. r = Err e \<and> q' = q) \<or> (r = Ok () \<and> q' = snd (AdmissionControl_open_flow q p l)
      \<and> bt_get (sessions q') = (bt_get (sessions q))((p, l) \<mapsto> u\<lparr>usage_flows := usage_flows u + 1\<rparr>))"
    using assms
    by (auto simp: open_flow_def AdmissionControl_open_flow_def bt_get_insert split: if_splits)
  then show thesis
    using refused granted by blast
qed

lemma close_flow_get:
  assumes "bt_get (sessions q) (p, l) = Some u" "0 < usage_flows u"
  shows "bt_get (sessions (snd (AdmissionControl_close_flow q p l))) =
    (bt_get (sessions q))((p, l) \<mapsto> u\<lparr>usage_flows := usage_flows u - 1\<rparr>)"
  using assms by (simp add: AdmissionControl_close_flow_def bt_get_insert)

lemma close_session_get:
  "bt_get (sessions (snd (AdmissionControl_close_session q p l))) = (bt_get (sessions q))((p, l) := None)"
  by (cases "bt_get (sessions q) (p, l)")
    (auto simp: AdmissionControl_close_session_def bt_get_remove)

lemma quota_steps_inv:
  assumes "admission_inv lim q"
  shows "admission_inv lim (snd (AdmissionControl_open_flow q p l))"
    and "admission_inv lim (snd (AdmissionControl_close_flow q p l))"
    and "admission_inv lim (snd (AdmissionControl_close_session q p l))"
  using admission_step_inv [OF assms, of "OpenFlow p l"] admission_step_inv [OF assms, of "CloseFlow p l"]
    admission_step_inv [OF assms, of "CloseSession p l"]
  by auto

section \<open>Sections of a connection\<close>

definition section_ok ::
  "PrincipalQuota \<Rightarrow> nat \<Rightarrow> AdmissionControl \<Rightarrow> relay_connection \<Rightarrow> AdmissionControl \<Rightarrow> relay_connection \<Rightarrow> bool" where
  "section_ok lim n q c q' c' = (admission_inv lim q' \<and> conn_ok n q' c' \<and> touches_own q c q' c')"

lemma rolls_back_reserving: "may_roll_back ph \<Longrightarrow> reserving ph \<noteq> None"
  by (cases ph) auto

lemma active_phases [simp]:
  "stream_active ReadingControl" "stream_active (ReservingFlow p t)" "stream_active (OpeningFlow p l b t)"
  "stream_active (RollingBack p l e)" "stream_active (RelayingFlow l t)" "stream_active (ReleasingFlow l r)"
  "\<not> stream_active (StreamEnded r)"
  by (simp_all add: stream_active_def)

lemma no_reserving:
  "length (filter (\<lambda>ph. reserving ph \<noteq> None) xs) = 0 \<Longrightarrow> ph \<in> set xs \<Longrightarrow> reserving ph = None \<and> \<not> may_roll_back ph"
  by (metis (mono_tags, lifting) filter_empty_conv length_0_conv rolls_back_reserving)

lemma no_flows: "flows_in_use c = 0 \<Longrightarrow> ph \<in> set (conn_streams c) \<Longrightarrow> flow_lease ph = None"
  by (auto simp: flows_in_use_def filter_empty_conv)

lemma active_not_closed:
  "streams_ok n c \<Longrightarrow> i < length (conn_streams c) \<Longrightarrow> stream_active (conn_streams c ! i) \<Longrightarrow> \<not> conn_closed c"
  by (auto simp: streams_ok_def list_all_length)

lemma set_stream_fields [simp]:
  "conn_session (set_stream i ph c) = conn_session c" "conn_locked (set_stream i ph c) = conn_locked c"
  "conn_closed (set_stream i ph c) = conn_closed c" "conn_draining (set_stream i ph c) = conn_draining c"
  "conn_streams (set_stream i ph c) = (conn_streams c)[i := ph]" "conn_key (set_stream i ph c) = conn_key c"
  by (simp_all add: set_stream_def conn_key_def)

lemma conn_key_update [simp]:
  "conn_key (c\<lparr>conn_locked := b\<rparr>) = conn_key c" "conn_key (c\<lparr>conn_streams := xs\<rparr>) = conn_key c"
  "conn_key (c\<lparr>conn_draining := b\<rparr>) = conn_key c" "conn_key (c\<lparr>conn_session := None\<rparr>) = None"
  "conn_key (c\<lparr>conn_session := Some a\<rparr>) = Some (adm_principal a, adm_lease a)"
  "conn_key (c\<lparr>conn_session := conn_session d\<rparr>) = conn_key d"
  by (simp_all add: conn_key_def)

lemma datagrams_irrelevant [simp]:
  "conn_key (c\<lparr>conn_datagrams := d\<rparr>) = conn_key c" "flows_in_use (c\<lparr>conn_datagrams := d\<rparr>) = flows_in_use c"
  by (simp_all add: conn_key_def flows_in_use_def)

lemma conn_ok_datagrams [simp]: "conn_ok n q (c\<lparr>conn_datagrams := d\<rparr>) = conn_ok n q c"
  by (simp add: conn_ok_def accounted_def streams_ok_def cong: option.case_cong)

lemma section_ok_datagrams [simp]: "section_ok lim n q c q' (c'\<lparr>conn_datagrams := d\<rparr>) = section_ok lim n q c q' c'"
  by (simp add: section_ok_def touches_own_def)

lemma flows_update_irrelevant [simp]:
  "flows_in_use (c\<lparr>conn_locked := b\<rparr>) = flows_in_use c" "flows_in_use (c\<lparr>conn_session := s\<rparr>) = flows_in_use c"
  "flows_in_use (c\<lparr>conn_draining := b\<rparr>) = flows_in_use c" "flows_in_use (c\<lparr>conn_closed := b\<rparr>) = flows_in_use c"
  by (simp_all add: flows_in_use_def)

lemma flows_set_stream:
  "i < length (conn_streams c) \<Longrightarrow> flows_in_use (set_stream i ph c) + (if flow_lease (conn_streams c ! i) \<noteq> None then 1 else 0)
    = flows_in_use c + (if flow_lease ph \<noteq> None then 1 else 0)"
  unfolding flows_in_use_def set_stream_fields by (rule length_filter_update)

lemma in_update: "y \<in> set (xs[i := x]) \<Longrightarrow> y = x \<or> y \<in> set xs"
  using set_update_subset_insert [of xs i x] by auto

lemma accounted_same:
  "flows_in_use c' = flows_in_use c \<Longrightarrow> conn_key c' = conn_key c \<Longrightarrow> accounted q c' = accounted q c"
  by (simp add: accounted_def cong: option.case_cong)

lemma same_session: "conn_session c = s \<Longrightarrow> c\<lparr>conn_session := s\<rparr> = c"
  by (cases c) auto

text \<open>A stream whose new phase holds the same flow and the same mutex.\<close>

lemma streams_okI:
  assumes "\<And>ph. ph \<in> set (conn_streams c) \<Longrightarrow> phase_ok (conn_key c) (flows_in_use c) ph"
    and "length (filter (\<lambda>ph. reserving ph \<noteq> None) (conn_streams c)) = (if conn_locked c then 1 else 0)"
    and "length (filter stream_active (conn_streams c)) \<le> limit" and "\<not> conn_closed c"
  shows "streams_ok limit c"
  unfolding streams_ok_def using assms by blast

lemma streams_okD:
  assumes "streams_ok limit c"
  shows "\<And>ph. ph \<in> set (conn_streams c) \<Longrightarrow> phase_ok (conn_key c) (flows_in_use c) ph"
    and "length (filter (\<lambda>ph. reserving ph \<noteq> None) (conn_streams c)) = (if conn_locked c then 1 else 0)"
    and "length (filter stream_active (conn_streams c)) \<le> limit"
  using assms unfolding streams_ok_def by blast+

lemma phase_at:
  "streams_ok n c \<Longrightarrow> i < length (conn_streams c) \<Longrightarrow> conn_streams c ! i = ph \<Longrightarrow> phase_ok (conn_key c) (flows_in_use c) ph"
  using streams_okD(1) nth_mem by blast

text \<open>The phases of the other streams stay, and the active ones do not grow in number.\<close>

lemma streams_update:
  assumes "streams_ok n c" "i < length (conn_streams c)" "stream_active (conn_streams c ! i)"
    and "conn_streams c' = (conn_streams c)[i := ph]" "conn_closed c' = conn_closed c"
    and "\<And>x. x = ph \<or> x \<in> set (conn_streams c) \<Longrightarrow> x \<in> set (conn_streams c')
      \<Longrightarrow> phase_ok (conn_key c') (flows_in_use c') x"
    and "(if conn_locked c' then 1 else 0) + (if reserving (conn_streams c ! i) \<noteq> None then 1 else 0)
      = (if conn_locked c then 1 else 0) + (if reserving ph \<noteq> None then 1 else (0 :: nat))"
  shows "streams_ok n c'"
proof (rule streams_okI)
  show "phase_ok (conn_key c') (flows_in_use c') x" if "x \<in> set (conn_streams c')" for x
    using assms(6) [OF _ that] that in_update unfolding assms(4) by metis
  show "length (filter (\<lambda>ph. reserving ph \<noteq> None) (conn_streams c')) = (if conn_locked c' then 1 else 0)"
    using length_filter_update [OF assms(2), of "\<lambda>ph. reserving ph \<noteq> None" ph] streams_okD(2) [OF assms(1)] assms(7)
    unfolding assms(4) by linarith
  show "length (filter stream_active (conn_streams c')) \<le> n"
    using length_filter_update [OF assms(2), of stream_active ph] streams_okD(3) [OF assms(1)] assms(3)
    unfolding assms(4) by (cases "stream_active ph") simp_all
  show "\<not> conn_closed c'"
    using active_not_closed [OF assms(1-3)] assms(5) by simp
qed

lemma quiet_phase:
  assumes "conn_ok n q c" "i < length (conn_streams c)" "flow_lease ph = flow_lease (conn_streams c ! i)"
    "reserving ph = reserving (conn_streams c ! i)" "may_roll_back ph \<Longrightarrow> may_roll_back (conn_streams c ! i)"
    "stream_active (conn_streams c ! i)"
  shows "conn_ok n q (set_stream i ph c)"
proof -
  have ok: "streams_ok n c"
    using assms(1) by (simp add: conn_ok_def)
  have flows: "flows_in_use (set_stream i ph c) = flows_in_use c"
    using flows_set_stream [OF assms(2), of ph] unfolding assms(3) by linarith
  have "phase_ok (conn_key c) (flows_in_use c) (conn_streams c ! i)"
    using streams_okD(1) [OF ok] assms(2) by simp
  then have "phase_ok (conn_key c) (flows_in_use c) ph"
    using assms(5) unfolding phase_ok_def assms(3,4) by blast
  then have "streams_ok n (set_stream i ph c)"
    by (intro streams_update [OF ok assms(2,6), where ph = ph])
      (auto simp: flows assms(4) intro: streams_okD(1) [OF ok])
  then show ?thesis
    using assms(1) accounted_same [OF flows, of q] by (simp add: conn_ok_def)
qed

lemma quiet_section:
  assumes "admission_inv lim q" "conn_ok n q c" "i < length (conn_streams c)"
    "flow_lease ph = flow_lease (conn_streams c ! i)"
    "reserving ph = reserving (conn_streams c ! i)" "may_roll_back ph \<Longrightarrow> may_roll_back (conn_streams c ! i)"
    "stream_active (conn_streams c ! i)"
  shows "section_ok lim n q c q (set_stream i ph c)"
  using quiet_phase [OF assms(2-7)] assms(1) by (simp add: section_ok_def touches_own_def)

lemma unchanged_section: "admission_inv lim q \<Longrightarrow> conn_ok n q c \<Longrightarrow> section_ok lim n q c q c"
  by (simp add: section_ok_def touches_own_def)

text \<open>The session of a connection: refused, the one it has, or a fresh one.\<close>

lemma session_cases:
  assumes "ConnectionAdmission_session q s pid = Some (r, q', s', events)"
  obtains (refused) e where "r = Err e" "q' = q" "s' = s"
  | (existing) a where "s = Some a" "adm_principal a = pid" "r = Ok (adm_lease a, False)" "q' = q" "s' = s"
  | (created) l where "s = None" "r = Ok (l, True)" "s' = Some \<lparr>adm_principal = pid, adm_lease = l\<rparr>"
      "AdmissionControl_open_session q pid = Some (Ok l, q')"
proof (cases s)
  case None
  then obtain x ev where x: "open_session q pid = Some (x, q', ev)"
    and r: "(\<exists>e. x = Err e \<and> r = Err e \<and> s' = None)
      \<or> (\<exists>l. x = Ok l \<and> r = Ok (l, True) \<and> s' = Some \<lparr>adm_principal = pid, adm_lease = l\<rparr>)"
    using assms by (auto simp: ConnectionAdmission_session_def split: option.splits sum.splits prod.splits)
  from x show ?thesis
  proof (cases rule: open_session_cases)
    case (refused e)
    then show ?thesis
      using r None that(1) by auto
  next
    case (granted l)
    then show ?thesis
      using r None that(3) by auto
  qed
next
  case (Some a)
  show ?thesis
  proof (cases "adm_principal a = pid")
    case True
    then show ?thesis
      using assms Some by (intro that(2) [of a]) (auto simp: ConnectionAdmission_session_def)
  next
    case False
    then show ?thesis
      using assms Some by (intro that(1) [of AuthenticationRejected]) (auto simp: ConnectionAdmission_session_def)
  qed
qed

text \<open>A session that a connection takes: the flows are none, and the key is fresh.\<close>

lemma created_section:
  assumes "admission_inv lim q" "conn_ok n q c" "conn_session c = None"
    "AdmissionControl_open_session q pid = Some (Ok l, q')"
    and "conn_key c' = Some (pid, l)" "flows_in_use c' = 0" "streams_ok n c'" "conn_closed c \<Longrightarrow> conn_closed c'"
  shows "section_ok lim n q c q' c'"
proof -
  note granted = granted_session [OF assms(1,4)]
  have "conn_key c = None"
    using assms(3) by (simp add: conn_key_def)
  then have "touches_own q c q' c'"
    using assms(5,8) granted(1,2) by (auto simp: touches_own_def)
  moreover have "accounted q' c'"
    using assms(5,6) granted(2) by (simp add: accounted_def)
  ultimately show ?thesis
    using assms(7) granted(3) by (simp add: section_ok_def conn_ok_def)
qed

lemma key_none_flows: "conn_ok n q c \<Longrightarrow> conn_session c = None \<Longrightarrow> flows_in_use c = 0"
  by (simp add: conn_ok_def accounted_def conn_key_def)

lemma datagram_section:
  assumes "admission_inv lim q" "conn_ok n q c" "\<not> conn_locked c" "\<not> conn_draining c"
    "ConnectionAdmission_session q (conn_session c) pid = Some (r, q', s', events)"
  shows "section_ok lim n q c q' (c\<lparr>conn_session := s'\<rparr>)"
  using assms(5)
proof (cases rule: session_cases)
  case (created l)
  let ?c = "c\<lparr>conn_session := s'\<rparr>"
  have none: "flows_in_use c = 0"
    by (rule key_none_flows [OF assms(2) created(1)])
  have ok: "streams_ok n c"
    using assms(2) by (simp add: conn_ok_def)
  have "streams_ok n ?c"
  proof (rule streams_okI)
    show "phase_ok (conn_key ?c) (flows_in_use ?c) ph" if "ph \<in> set (conn_streams ?c)" for ph
      using that no_flows [OF none, of ph] no_reserving [of "conn_streams c" ph] streams_okD(2) [OF ok] assms(3)
      by (simp add: phase_ok_def)
    show "\<not> conn_closed ?c"
      using ok assms(4) by (simp add: streams_ok_def)
  qed (use streams_okD(2,3) [OF ok] in simp_all)
  then show ?thesis
    using created none by (intro created_section [OF assms(1,2) created(1,4)]) simp_all
qed (use unchanged_section [OF assms(1,2)] in \<open>simp_all add: same_session\<close>)

lemma reserve_section:
  assumes "admission_inv lim q" "conn_ok n q c" "\<not> conn_locked c" "i < length (conn_streams c)"
    "conn_streams c ! i = ReservingFlow pid t"
    "ConnectionAdmission_session q (conn_session c) pid = Some (Ok (l, new), q', s', events)"
  shows "section_ok lim n q c q' (set_stream i (OpeningFlow pid l new t) (c\<lparr>conn_session := s', conn_locked := True\<rparr>))"
    (is "section_ok lim n q c q' ?c")
proof -
  have ok: "streams_ok n c" and acc: "accounted q c"
    using assms(2) by (simp_all add: conn_ok_def)
  have idle: "reserving ph = None \<and> \<not> may_roll_back ph" if "ph \<in> set (conn_streams c)" for ph
    using that no_reserving [of "conn_streams c" ph] streams_okD(2) [OF ok] assms(3) by simp
  have flows: "flows_in_use ?c = flows_in_use c"
    using flows_set_stream [OF assms(4), of "OpeningFlow pid l new t"] assms(5)
    by (simp add: flows_in_use_def)
  have streams: "streams_ok n ?c" if "conn_key ?c = Some (pid, l)"
    and "new \<Longrightarrow> flows_in_use c = 0"
    and "\<And>ph. ph \<in> set (conn_streams c) \<Longrightarrow> flow_lease ph \<noteq> None \<Longrightarrow> flow_lease ph = Some l"
  proof (rule streams_update [OF ok assms(4), where ph = "OpeningFlow pid l new t"])
    show "phase_ok (conn_key ?c) (flows_in_use ?c) x"
      if "x = OpeningFlow pid l new t \<or> x \<in> set (conn_streams c)" for x
      using that \<open>conn_key ?c = Some (pid, l)\<close> \<open>new \<Longrightarrow> flows_in_use c = 0\<close> idle [of x]
        \<open>\<And>ph. ph \<in> set (conn_streams c) \<Longrightarrow> flow_lease ph \<noteq> None \<Longrightarrow> flow_lease ph = Some l\<close> [of x]
      unfolding phase_ok_def flows by auto
  qed (use assms(3,5) in simp_all)
  show ?thesis
    using assms(6)
  proof (cases rule: session_cases)
    case (existing a)
    then have key: "conn_key ?c = Some (pid, l)" "conn_key c = Some (pid, l)" "q' = q"
      by (simp_all add: conn_key_def)
    have "streams_ok n ?c"
      using streams [OF key(1)] existing(3) streams_okD(1) [OF ok] key(2) by (auto simp: phase_ok_def)
    then show ?thesis
      using key acc assms(1) flows by (simp add: section_ok_def conn_ok_def accounted_def touches_own_def)
  next
    case (created l')
    have none: "flows_in_use c = 0"
      by (rule key_none_flows [OF assms(2) created(1)])
    have key: "conn_key ?c = Some (pid, l)"
      using created by (simp add: conn_key_def)
    show ?thesis
      using created none flows key streams [OF key] no_flows [OF none]
      by (intro created_section [OF assms(1,2) created(1)]) auto
  qed simp
qed

text \<open>The usage of the session of a connection, and a section that changes it.\<close>

lemma usage_of:
  assumes "conn_ok n q c" "conn_key c = Some k"
  obtains u where "bt_get (sessions q) k = Some u" "usage_flows u = flows_in_use c"
  using assms by (auto simp: conn_ok_def accounted_def)

lemma usage_section:
  assumes "conn_key c = Some k" "conn_key c' = Some k" "admission_inv lim q'" "streams_ok n c'"
    "bt_get (sessions q') = (bt_get (sessions q))(k \<mapsto> u)" "usage_flows u = flows_in_use c'"
    "conn_closed c \<Longrightarrow> conn_closed c'"
  shows "section_ok lim n q c q' c'"
  using assms by (auto simp: section_ok_def conn_ok_def accounted_def touches_own_def)

text \<open>While a stream is in \<^verbatim>\<open>reserve_flow\<close> the others are not.\<close>

lemma sole_reserving:
  assumes "streams_ok n c" "i < length (conn_streams c)" "reserving (conn_streams c ! i) \<noteq> None" "reserving ph = None"
  shows "conn_locked c" and "\<forall>x \<in> set ((conn_streams c)[i := ph]). reserving x = None \<and> \<not> may_roll_back x"
proof -
  let ?r = "\<lambda>ph. reserving ph \<noteq> None"
  have "conn_streams c ! i \<in> set (filter ?r (conn_streams c))"
    using assms(2,3) by simp
  then have "length (filter ?r (conn_streams c)) \<noteq> 0"
    by (metis length_0_conv list.set(1) empty_iff)
  then show locked: "conn_locked c"
    using streams_okD(2) [OF assms(1)] by (cases "conn_locked c") simp_all
  have "length (filter ?r ((conn_streams c)[i := ph])) = 0"
    using length_filter_update [OF assms(2), of ?r ph] streams_okD(2) [OF assms(1)] locked assms(3,4) by simp
  then show "\<forall>x \<in> set ((conn_streams c)[i := ph]). reserving x = None \<and> \<not> may_roll_back x"
    using no_reserving by blast
qed

lemma unlocked_phases:
  assumes "streams_ok n c" "\<not> conn_locked c" "x \<in> set (conn_streams c)"
  shows "reserving x = None \<and> \<not> may_roll_back x"
  using no_reserving [OF _ assms(3)] streams_okD(2) [OF assms(1)] assms(2) by simp

lemma open_flow_section:
  assumes "admission_inv lim q" "conn_ok n q c" "i < length (conn_streams c)"
    "conn_streams c ! i = OpeningFlow pid l new t" "open_flow q pid l = (Ok u, q', events)"
  shows "section_ok lim n q c q' (set_stream i (RelayingFlow l t) (c\<lparr>conn_locked := False\<rparr>))"
    (is "section_ok lim n q c q' ?c")
proof -
  have ok: "streams_ok n c"
    using assms(2) by (simp add: conn_ok_def)
  have old: "phase_ok (conn_key c) (flows_in_use c) (OpeningFlow pid l new t)"
    by (rule phase_at [OF ok assms(3,4)])
  then have key: "conn_key c = Some (pid, l)"
    by (simp add: phase_ok_def)
  obtain usage where usage: "bt_get (sessions q) (pid, l) = Some usage" "usage_flows usage = flows_in_use c"
    by (rule usage_of [OF assms(2) key])
  have sole: "conn_locked c" "\<forall>x \<in> set ((conn_streams c)[i := RelayingFlow l t]). reserving x = None \<and> \<not> may_roll_back x"
    using sole_reserving [OF ok assms(3), of "RelayingFlow l t"] assms(4) by simp_all
  have flows: "flows_in_use ?c = flows_in_use c + 1"
    using flows_set_stream [OF assms(3), of "RelayingFlow l t"] assms(4) by (simp add: flows_in_use_def)
  have "streams_ok n ?c"
  proof (rule streams_update [OF ok assms(3), where ph = "RelayingFlow l t"])
    show "phase_ok (conn_key ?c) (flows_in_use ?c) x"
      if "x = RelayingFlow l t \<or> x \<in> set (conn_streams c)" "x \<in> set (conn_streams ?c)" for x
      using that sole(2) streams_okD(1) [OF ok, of x] key by (auto simp: phase_ok_def)
  qed (use sole(1) assms(4) in simp_all)
  from assms(5) usage(1) show ?thesis
  proof (cases rule: open_flow_cases)
    case granted
    have "admission_inv lim q'"
      unfolding granted(2) by (rule quota_steps_inv(1) [OF assms(1)])
    then show ?thesis
      using \<open>streams_ok n ?c\<close> key flows usage(2)
      by (intro usage_section [OF key _ _ _ granted(3)]) simp_all
  qed simp
qed

lemma refused_flow_section:
  assumes "admission_inv lim q" "conn_ok n q c" "i < length (conn_streams c)"
    "conn_streams c ! i = OpeningFlow pid l False t"
  shows "section_ok lim n q c q (set_stream i (StreamEnded r) (c\<lparr>conn_locked := False\<rparr>))"
    (is "section_ok lim n q c q ?c")
proof -
  have ok: "streams_ok n c" and acc: "accounted q c"
    using assms(2) by (simp_all add: conn_ok_def)
  have sole: "conn_locked c" "\<forall>x \<in> set ((conn_streams c)[i := StreamEnded r]). reserving x = None \<and> \<not> may_roll_back x"
    using sole_reserving [OF ok assms(3), of "StreamEnded r"] assms(4) by simp_all
  have flows: "flows_in_use ?c = flows_in_use c"
    using flows_set_stream [OF assms(3), of "StreamEnded r"] assms(4) by (simp add: flows_in_use_def)
  have "streams_ok n ?c"
  proof (rule streams_update [OF ok assms(3), where ph = "StreamEnded r"])
    show "phase_ok (conn_key ?c) (flows_in_use ?c) x"
      if "x = StreamEnded r \<or> x \<in> set (conn_streams c)" "x \<in> set (conn_streams ?c)" for x
      using that sole(2) streams_okD(1) [OF ok, of x] by (auto simp: phase_ok_def)
  qed (use sole(1) assms(4) in simp_all)
  then show ?thesis
    using assms(1) acc accounted_same [OF flows] by (simp add: section_ok_def conn_ok_def touches_own_def)
qed

text \<open>A session that is given up: by a failed first flow, or when the connection closes.\<close>

lemma given_up:
  assumes "admission_inv lim q" "conn_key c = Some (p, l)" "conn_key c' = None" "flows_in_use c' = 0" "streams_ok n c'"
    "conn_closed c \<Longrightarrow> conn_closed c'"
  shows "section_ok lim n q c (snd (AdmissionControl_close_session q p l)) c'"
  using assms quota_steps_inv(3) [OF assms(1)] close_session_get [of q p l]
  by (auto simp: section_ok_def conn_ok_def accounted_def touches_own_def)

lemma rollback_section:
  assumes "admission_inv lim q" "conn_ok n q c" "i < length (conn_streams c)"
    "conn_streams c ! i = RollingBack pid l e"
  shows "section_ok lim n q c (snd (AdmissionControl_close_session q pid l))
    (set_stream i (StreamEnded r) (c\<lparr>conn_session := None, conn_locked := False\<rparr>))"
    (is "section_ok lim n q c _ ?c")
proof -
  have ok: "streams_ok n c"
    using assms(2) by (simp add: conn_ok_def)
  have old: "phase_ok (conn_key c) (flows_in_use c) (RollingBack pid l e)"
    by (rule phase_at [OF ok assms(3,4)])
  then have key: "conn_key c = Some (pid, l)" and none: "flows_in_use c = 0"
    by (simp_all add: phase_ok_def)
  have sole: "conn_locked c" "\<forall>x \<in> set ((conn_streams c)[i := StreamEnded r]). reserving x = None \<and> \<not> may_roll_back x"
    using sole_reserving [OF ok assms(3), of "StreamEnded r"] assms(4) by simp_all
  have flows: "flows_in_use ?c = 0"
    using flows_set_stream [OF assms(3), of "StreamEnded r"] assms(4) none by (simp add: flows_in_use_def)
  have "streams_ok n ?c"
  proof (rule streams_update [OF ok assms(3), where ph = "StreamEnded r"])
    show "phase_ok (conn_key ?c) (flows_in_use ?c) x"
      if "x = StreamEnded r \<or> x \<in> set (conn_streams c)" "x \<in> set (conn_streams ?c)" for x
      using that sole(2) no_flows [OF none, of x] by (auto simp: phase_ok_def)
  qed (use sole(1) assms(4) in simp_all)
  then show ?thesis
    using flows key by (intro given_up [OF assms(1)]) (simp_all add: conn_key_def)
qed

lemma release_section:
  assumes "admission_inv lim q" "conn_ok n q c" "i < length (conn_streams c)" "\<not> conn_locked c"
    "conn_streams c ! i = ReleasingFlow l r"
  shows "section_ok lim n q c (ConnectionAdmission_release_flow q (conn_session c) l) (set_stream i (StreamEnded r) c)"
    (is "section_ok lim n q c ?q ?c")
proof -
  have ok: "streams_ok n c"
    using assms(2) by (simp add: conn_ok_def)
  have old: "phase_ok (conn_key c) (flows_in_use c) (ReleasingFlow l r)"
    by (rule phase_at [OF ok assms(3,5)])
  then obtain a where a: "conn_session c = Some a" "adm_lease a = l"
    by (cases "conn_session c") (auto simp: phase_ok_def conn_key_def)
  then have key: "conn_key c = Some (adm_principal a, l)"
    by (simp add: conn_key_def)
  have q: "?q = snd (AdmissionControl_close_flow q (adm_principal a) l)"
    by (simp add: ConnectionAdmission_release_flow_def a)
  obtain usage where usage: "bt_get (sessions q) (adm_principal a, l) = Some usage" "usage_flows usage = flows_in_use c"
    by (rule usage_of [OF assms(2) key])
  have flows: "flows_in_use ?c + 1 = flows_in_use c"
    using flows_set_stream [OF assms(3), of "StreamEnded r"] assms(5) by simp
  have get: "bt_get (sessions ?q) =
      (bt_get (sessions q))((adm_principal a, l) \<mapsto> usage\<lparr>usage_flows := usage_flows usage - 1\<rparr>)"
    unfolding q by (rule close_flow_get [OF usage(1)]) (use usage(2) flows in simp)
  have "streams_ok n ?c"
  proof (rule streams_update [OF ok assms(3), where ph = "StreamEnded r"])
    show "phase_ok (conn_key ?c) (flows_in_use ?c) x" if "x = StreamEnded r \<or> x \<in> set (conn_streams c)" for x
      using that unlocked_phases [OF ok assms(4), of x] streams_okD(1) [OF ok, of x] by (auto simp: phase_ok_def)
  qed (use assms(4,5) in simp_all)
  moreover have "admission_inv lim ?q"
    unfolding q by (rule quota_steps_inv(2) [OF assms(1)])
  ultimately show ?thesis
    using key flows usage(2) by (intro usage_section [OF key _ _ _ get]) simp_all
qed

text \<open>Every section of a stream.\<close>

lemma reserving_section:
  assumes "admission_inv lim q" "conn_ok n q c" "i < length (conn_streams c)"
    "stream_step env i input q c = Some (events, q', c')" "conn_streams c ! i = ReservingFlow pid t"
  shows "section_ok lim n q c q' c'"
proof (cases "input = Scheduled \<and> \<not> conn_locked c")
  case True
  then obtain r s' ev where session: "ConnectionAdmission_session q (conn_session c) pid = Some (r, q', s', ev)"
    and c': "c' = (case r of Inl e \<Rightarrow> set_stream i (StreamEnded (Err e)) (c\<lparr>conn_session := s'\<rparr>)
      | Inr (l, new) \<Rightarrow> set_stream i (OpeningFlow pid l new t) (c\<lparr>conn_session := s', conn_locked := True\<rparr>))"
    using assms(4,5) by (auto simp: stream_step_def split: option.splits sum.splits prod.splits)
  show ?thesis
  proof (cases r)
    case (Inl e)
    from session [unfolded Inl] have "q' = q" "s' = conn_session c"
      by (cases rule: session_cases; simp)+
    then show ?thesis
      using quiet_section [OF assms(1-3), of "StreamEnded (Err e)"] assms(5) c' Inl same_session [of c] by simp
  next
    case (Inr x)
    then show ?thesis
      using session c' reserve_section [OF assms(1,2) _ assms(3,5)] True by (cases x) auto
  qed
next
  case False
  then show ?thesis
    using assms(4,5) unchanged_section [OF assms(1,2)] by (cases input) (auto simp: stream_step_def)
qed

lemma opening_section:
  assumes "admission_inv lim q" "conn_ok n q c" "i < length (conn_streams c)"
    "stream_step env i input q c = Some (events, q', c')" "conn_streams c ! i = OpeningFlow pid l new t"
  shows "section_ok lim n q c q' c'"
proof (cases input)
  case Scheduled
  obtain r q1 ev where flow: "open_flow q pid l = (r, q1, ev)"
    using prod_cases3 by blast
  have key: "conn_key c = Some (pid, l)"
    using phase_at [OF _ assms(3,5), of n] assms(2) by (auto simp: conn_ok_def phase_ok_def)
  obtain u where u: "bt_get (sessions q) (pid, l) = Some u"
    by (rule usage_of [OF assms(2) key])
  show ?thesis
  proof (cases r)
    case (Inl e)
    from flow u Inl have "q1 = q"
      by (cases rule: open_flow_cases) simp_all
    then show ?thesis
      using assms(4,5) Scheduled flow Inl quiet_section [OF assms(1-3), of "RollingBack pid l e"]
        refused_flow_section [OF assms(1-3)]
      by (auto simp: stream_step_def split: if_splits)
  next
    case (Inr x)
    then show ?thesis
      using assms(4,5) Scheduled flow open_flow_section [OF assms(1-3,5)] by (simp add: stream_step_def)
  qed
qed (use assms(4,5) unchanged_section [OF assms(1,2)] in \<open>auto simp: stream_step_def\<close>)

lemma stream_section:
  assumes "admission_inv lim q" "conn_ok n q c" "i < length (conn_streams c)"
    "stream_step env i input q c = Some (events, q', c')"
  shows "section_ok lim n q c q' c'"
proof -
  note stay = unchanged_section [OF assms(1,2)]
  note quiet = quiet_section [OF assms(1-3)]
  show ?thesis
  proof (cases "conn_streams c ! i")
    case ReadingControl
    have "section_ok lim n q c q (set_stream i (StreamEnded r) c)"
      "section_ok lim n q c q (set_stream i (ReservingFlow pid t) c)" for r pid t
      by (rule quiet; simp add: ReadingControl)+
    then show ?thesis
      using assms(4) stay ReadingControl
      by (cases input)
        (auto simp: stream_step_def relay_control_def split: if_splits sum.splits)
  next
    case (ReservingFlow pid t)
    then show ?thesis
      by (rule reserving_section [OF assms])
  next
    case (OpeningFlow pid l new t)
    then show ?thesis
      by (rule opening_section [OF assms])
  next
    case (RollingBack pid l e)
    then show ?thesis
      using assms(4) stay rollback_section [OF assms(1-3) RollingBack]
      by (cases input) (auto simp: stream_step_def)
  next
    case (RelayingFlow l t)
    have "section_ok lim n q c q (set_stream i (ReleasingFlow l r) c)" for r
      by (rule quiet; simp add: RelayingFlow)
    then show ?thesis
      using assms(4) stay RelayingFlow by (cases input) (auto simp: stream_step_def)
  next
    case (ReleasingFlow l r)
    then show ?thesis
      using assms(4) stay release_section [OF assms(1-3) _ ReleasingFlow]
      by (cases input) (auto simp: stream_step_def split: if_splits)
  next
    case (StreamEnded r)
    then show ?thesis
      using assms(4) stay by (cases input) (auto simp: stream_step_def)
  qed
qed

text \<open>The sections of the connection itself.\<close>

lemma accept_section:
  assumes "admission_inv lim q" "conn_ok (max_streams_per_connection (env_config env)) q c"
    "accept_stream env q c = Some (events, q', c')"
  shows "section_ok lim (max_streams_per_connection (env_config env)) q c q' c'"
proof -
  let ?n = "max_streams_per_connection (env_config env)"
  have ok: "streams_ok ?n c" and acc: "accounted q c"
    using assms(2) by (simp_all add: conn_ok_def)
  consider (same) "q' = q" "c' = c"
    | (more) "q' = q" "c' = c\<lparr>conn_streams := conn_streams c @ [ReadingControl]\<rparr>" "\<not> conn_draining c"
        "length (filter stream_active (conn_streams c)) < ?n"
    using assms(3) by (auto simp: accept_stream_def split: if_splits)
  then show ?thesis
  proof cases
    case same
    then show ?thesis
      using unchanged_section [OF assms(1,2)] by simp
  next
    case more
    have flows: "flows_in_use c' = flows_in_use c" and key: "conn_key c' = conn_key c"
      by (simp_all add: more(2) flows_in_use_def)
    have "\<not> conn_closed c"
      using ok more(3) by (simp add: streams_ok_def)
    have "streams_ok ?n c'"
    proof (rule streams_okI)
      show "phase_ok (conn_key c') (flows_in_use c') ph" if "ph \<in> set (conn_streams c')" for ph
        using that streams_okD(1) [OF ok, of ph] unfolding flows key by (auto simp: more(2) phase_ok_def)
    qed (use streams_okD(2) [OF ok] more \<open>\<not> conn_closed c\<close> in simp_all)
    then show ?thesis
      using acc accounted_same [OF flows key] assms(1) more(1) \<open>\<not> conn_closed c\<close> key
      by (simp add: section_ok_def conn_ok_def touches_own_def)
  qed
qed

lemma admit_datagram_section:
  assumes "admission_inv lim q" "conn_ok n q c" "\<not> conn_locked c" "\<not> conn_draining c"
    "ConnectionAdmission_admit_datagram env q (conn_session c) credential = Some (r, q', s', events)"
  shows "section_ok lim n q c q' (c\<lparr>conn_session := s'\<rparr>)"
proof (cases "Authenticator_authenticate (env_authenticator env) credential")
  case (Inl e)
  then show ?thesis
    using assms(5) unchanged_section [OF assms(1,2)]
    by (auto simp: ConnectionAdmission_admit_datagram_def same_session)
next
  case (Inr pid)
  then obtain r2 where "ConnectionAdmission_session q (conn_session c) pid = Some (r2, q', s', events)"
    using assms(5)
    by (auto simp: ConnectionAdmission_admit_datagram_def split: option.splits sum.splits)
  then show ?thesis
    by (rule datagram_section [OF assms(1-4)])
qed

lemma arrival_section:
  assumes "admission_inv lim q" "conn_ok n q c" "datagram_arrives env now out datagram q c = Some (events, q', c')"
  shows "section_ok lim n q c q' c'"
proof (cases "conn_draining c \<or> conn_locked c \<or> (\<nexists>credential sid a pl. Datagram_decode datagram = Ok (ClientToServer credential sid a pl))")
  case True
  then have "q' = q" "c' = c"
    using assms(3) by (auto simp: datagram_arrives_def split: sum.splits Datagram.splits if_splits)
  then show ?thesis
    using unchanged_section [OF assms(1,2)] by simp
next
  case False
  then obtain credential sid a pl where decoded: "Datagram_decode datagram = Ok (ClientToServer credential sid a pl)"
    and free: "\<not> conn_draining c" "\<not> conn_locked c"
    by auto
  then obtain r s' ev where admitted:
      "ConnectionAdmission_admit_datagram env q (conn_session c) credential = Some (r, q', s', ev)"
    and c': "c' = c\<lparr>conn_session := s'\<rparr> \<or> (\<exists>d. c' = c\<lparr>conn_session := s', conn_datagrams := d\<rparr>)"
    using assms(3) by (auto simp: datagram_arrives_def split: option.splits sum.splits prod.splits)
  show ?thesis
    using admit_datagram_section [OF assms(1,2) free(2,1) admitted] c' by auto
qed

lemma ended_phases:
  assumes "list_all (\<lambda>ph. \<not> stream_active ph) (conn_streams c)"
  shows "flows_in_use c = 0" and "ph \<in> set (conn_streams c) \<Longrightarrow> phase_ok key flows ph"
proof -
  have inactive: "\<exists>r. ph = StreamEnded r" if "\<not> stream_active ph" for ph
    using that by (cases ph) auto
  have ended: "\<exists>r. ph = StreamEnded r" if "ph \<in> set (conn_streams c)" for ph
    using that assms inactive by (simp add: list_all_iff)
  then show "flows_in_use c = 0"
    by (fastforce simp: flows_in_use_def filter_empty_conv)
  show "phase_ok key flows ph" if "ph \<in> set (conn_streams c)"
    using ended [OF that] by (auto simp: phase_ok_def)
qed

lemma close_section:
  assumes "admission_inv lim q" "conn_ok n q c" "close_connection q c = Some (events, q', c')"
  shows "section_ok lim n q c q' c'"
proof (cases "conn_draining c \<and> list_all (\<lambda>ph. \<not> stream_active ph) (conn_streams c) \<and> \<not> conn_locked c")
  case False
  then show ?thesis
    using assms unchanged_section [OF assms(1,2)] by (auto simp: close_connection_def)
next
  case True
  then have ended: "list_all (\<lambda>ph. \<not> stream_active ph) (conn_streams c)"
    by simp
  have c': "c' = c\<lparr>conn_session := None, conn_closed := True\<rparr>"
    and q': "q' = ConnectionAdmission_close q (conn_session c)"
    using assms(3) True by (simp_all add: close_connection_def)
  have ok: "streams_ok n c"
    using assms(2) by (simp add: conn_ok_def)
  have flows: "flows_in_use c' = 0" and key: "conn_key c' = None"
    using ended_phases(1) [OF ended] by (simp_all add: c' conn_key_def)
  have streams: "streams_ok n c'"
    using True ended_phases(2) [OF ended] streams_okD(2,3) [OF ok] key by (simp add: streams_ok_def c')
  show ?thesis
  proof (cases "conn_session c")
    case None
    then show ?thesis
      using assms(1) streams flows key q'
      by (simp add: section_ok_def conn_ok_def accounted_def touches_own_def conn_key_def ConnectionAdmission_close_def c')
  next
    case (Some a)
    then have "conn_key c = Some (adm_principal a, adm_lease a)"
      by (simp add: conn_key_def)
    from given_up [OF assms(1) this key flows streams] show ?thesis
      using q' Some by (simp add: ConnectionAdmission_close_def c')
  qed
qed

lemma drain_section:
  assumes "admission_inv lim q" "conn_ok n q c"
  shows "section_ok lim n q c q (c\<lparr>conn_draining := True\<rparr>)"
proof -
  have "streams_ok n (c\<lparr>conn_draining := True\<rparr>)"
    using assms(2) by (auto simp: conn_ok_def streams_ok_def)
  then show ?thesis
    using assms accounted_same [of "c\<lparr>conn_draining := True\<rparr>" c q]
    by (simp add: section_ok_def conn_ok_def touches_own_def)
qed

section \<open>The relay\<close>

lemma conn_ok_frame:
  assumes "conn_ok n q c" "\<And>k. conn_key c = Some k \<Longrightarrow> bt_get (sessions q') k = bt_get (sessions q) k"
  shows "conn_ok n q' c"
  using assms by (auto simp: conn_ok_def accounted_def split: option.splits)

lemma conn_key_known: "conn_ok n q c \<Longrightarrow> conn_key c = Some k \<Longrightarrow> bt_get (sessions q) k \<noteq> None"
  by (auto simp: conn_ok_def accounted_def)

lemma open_connections_update:
  assumes "k < length cs" "conn_closed (cs ! k) \<Longrightarrow> conn_closed c"
  shows "open_connections (cs[k := c]) \<le> open_connections cs"
  using length_filter_update [OF assms(1), of "\<lambda>c. \<not> conn_closed c" c] assms(2)
  unfolding open_connections_def by (cases "conn_closed c"; cases "conn_closed (cs ! k)") simp_all

lemma touches_ownD:
  assumes "touches_own q c q' c'"
  shows "conn_key c \<noteq> Some k \<Longrightarrow> conn_key c' \<noteq> Some k \<Longrightarrow> bt_get (sessions q') k = bt_get (sessions q) k"
    and "conn_key c = Some k \<Longrightarrow> conn_key c' \<noteq> Some k \<Longrightarrow> bt_get (sessions q') k = None"
    and "conn_key c' = Some k \<Longrightarrow> bt_get (sessions q) k \<noteq> None \<Longrightarrow> conn_key c = Some k"
    and "conn_closed c \<Longrightarrow> conn_closed c'"
proof -
  note parts = assms [unfolded touches_own_def]
  show "conn_key c \<noteq> Some k \<Longrightarrow> conn_key c' \<noteq> Some k \<Longrightarrow> bt_get (sessions q') k = bt_get (sessions q) k"
    by (rule conjunct1 [OF parts, rule_format])
  show "conn_key c = Some k \<Longrightarrow> conn_key c' \<noteq> Some k \<Longrightarrow> bt_get (sessions q') k = None"
    by (rule conjunct1 [OF conjunct2 [OF parts], rule_format])
  show "conn_key c' = Some k \<Longrightarrow> bt_get (sessions q) k \<noteq> None \<Longrightarrow> conn_key c = Some k"
    using conjunct1 [OF conjunct2 [OF conjunct2 [OF parts]], rule_format, of k] by argo
  show "conn_closed c \<Longrightarrow> conn_closed c'"
    by (rule conjunct2 [OF conjunct2 [OF conjunct2 [OF parts]], rule_format])
qed

lemma relay_invD:
  assumes "relay_inv env lim s"
  shows "conn_key (rl_connections s ! i) = Some k \<Longrightarrow> conn_key (rl_connections s ! j) = Some k
      \<Longrightarrow> i < length (rl_connections s) \<Longrightarrow> j < length (rl_connections s) \<Longrightarrow> i = j"
    and "bt_get (sessions (rl_quotas s)) k \<noteq> None
      \<Longrightarrow> \<exists>j < length (rl_connections s). conn_key (rl_connections s ! j) = Some k"
proof -
  show "conn_key (rl_connections s ! i) = Some k \<Longrightarrow> conn_key (rl_connections s ! j) = Some k
      \<Longrightarrow> i < length (rl_connections s) \<Longrightarrow> j < length (rl_connections s) \<Longrightarrow> i = j"
    using assms unfolding relay_inv_def by metis
  show "\<exists>j < length (rl_connections s). conn_key (rl_connections s ! j) = Some k"
    if "bt_get (sessions (rl_quotas s)) k \<noteq> None"
  proof -
    have "\<exists>c \<in> set (rl_connections s). conn_key c = Some k"
      using assms that unfolding relay_inv_def by blast
    then show ?thesis
      by (auto simp: in_set_conv_nth)
  qed
qed

lemma with_connection_inv:
  assumes inv: "relay_inv env lim s" and step: "with_connection k s f = Some (out, s')"
    and "\<And>c events q' c'. k < length (rl_connections s) \<Longrightarrow> c = rl_connections s ! k
      \<Longrightarrow> conn_ok (max_streams_per_connection (env_config env)) (rl_quotas s) c
      \<Longrightarrow> f (rl_quotas s) c = Some (events, q', c')
      \<Longrightarrow> section_ok lim (max_streams_per_connection (env_config env)) (rl_quotas s) c q' c'"
  shows "relay_inv env lim s'"
proof (cases "k < length (rl_connections s)")
  case False
  then show ?thesis
    using inv step by (simp add: with_connection_def)
next
  case True
  let ?n = "max_streams_per_connection (env_config env)"
  let ?cs = "rl_connections s"
  let ?c = "?cs ! k"
  have old: "conn_ok ?n (rl_quotas s) c" if "c \<in> set ?cs" for c
    using inv that by (simp add: relay_inv_def)
  obtain events q' c' where f: "f (rl_quotas s) ?c = Some (events, q', c')"
    and s': "s' = s\<lparr>rl_quotas := q', rl_connections := ?cs[k := c'], rl_events := rl_events s @ events\<rparr>"
    using step True by (auto simp: with_connection_def split: option.splits)
  have sec: "admission_inv lim q'" "conn_ok ?n q' c'" "touches_own (rl_quotas s) ?c q' c'"
    using assms(3) [OF True refl _ f] old [of ?c] True by (simp_all add: section_ok_def)
  have apart: "conn_key (?cs ! j) \<noteq> Some x"
    if "j < length ?cs" "j \<noteq> k" "conn_key ?c = Some x \<or> conn_key c' = Some x" for j x
  proof
    assume key: "conn_key (?cs ! j) = Some x"
    then have "bt_get (sessions (rl_quotas s)) x \<noteq> None"
      using conn_key_known [OF old [of "?cs ! j"] key] that(1) by simp
    then have "conn_key ?c = Some x"
      using that(3) touches_ownD(3) [OF sec(3), of x] by blast
    then show False
      using relay_invD(1) [OF inv, of j x k] that(1,2) True key by simp
  qed
  have others: "conn_ok ?n q' (?cs ! j)" if "j < length ?cs" "j \<noteq> k" for j
  proof (rule conn_ok_frame [OF old])
    show "bt_get (sessions q') x = bt_get (sessions (rl_quotas s)) x" if "conn_key (?cs ! j) = Some x" for x
      using that apart [OF \<open>j < length ?cs\<close> \<open>j \<noteq> k\<close>, of x] touches_ownD(1) [OF sec(3), of x] by blast
  qed (use that in simp)
  have all_ok: "conn_ok ?n q' c" if "c \<in> set (?cs[k := c'])" for c
  proof -
    obtain j where "j < length ?cs" "c = ?cs[k := c'] ! j"
      using \<open>c \<in> set (?cs[k := c'])\<close> by (auto simp: in_set_conv_nth)
    then show ?thesis
      using others [of j] sec(2) by (cases "j = k") simp_all
  qed
  have distinct: "i = j" if "i < length ?cs" "j < length ?cs"
    "conn_key (?cs[k := c'] ! i) = Some x" "conn_key (?cs[k := c'] ! j) = Some x" for i j x
    using that apart [of i x] apart [of j x] relay_invD(1) [OF inv, of i x j]
    by (cases "i = k"; cases "j = k") (simp_all add: nth_list_update)
  have covered: "\<exists>c \<in> set (?cs[k := c']). conn_key c = Some x" if "bt_get (sessions q') x \<noteq> None" for x
  proof (cases "conn_key c' = Some x")
    case True
    then show ?thesis
      using \<open>k < length ?cs\<close> set_update_memI by fast
  next
    case False
    then have "conn_key ?c \<noteq> Some x" "bt_get (sessions (rl_quotas s)) x \<noteq> None"
      using that touches_ownD(1,2) [OF sec(3), of x] by metis+
    then obtain j where "j < length ?cs" "conn_key (?cs ! j) = Some x"
      using relay_invD(2) [OF inv] by blast
    moreover from this have "j \<noteq> k"
      using \<open>conn_key ?c \<noteq> Some x\<close> by auto
    ultimately have "conn_key (?cs[k := c'] ! j) = Some x" "?cs[k := c'] ! j \<in> set (?cs[k := c'])"
      using nth_mem [of j "?cs[k := c']"] by simp_all
    then show ?thesis
      by blast
  qed
  have "open_connections (?cs[k := c']) \<le> open_connections ?cs"
    by (rule open_connections_update [OF True]) (rule touches_ownD(4) [OF sec(3)])
  also have "\<dots> \<le> max_connections (env_config env)"
    using inv by (simp add: relay_inv_def)
  finally have limit: "open_connections (?cs[k := c']) \<le> max_connections (env_config env)" .
  have fields: "rl_quotas s' = q'" "rl_connections s' = ?cs[k := c']"
    by (simp_all add: s')
  show ?thesis
    unfolding relay_inv_def fields length_list_update using limit sec(1) all_ok distinct covered by blast
qed

lemma accept_connection_inv:
  assumes "relay_inv env lim s" "open_connections (rl_connections s) < max_connections (env_config env)"
    "new_connection = Some c"
  shows "relay_inv env lim (s\<lparr>rl_connections := rl_connections s @ [c], rl_events := ev\<rparr>)"
proof -
  have c: "conn_session c = None" "conn_locked c = False" "conn_draining c = False" "conn_closed c = False" "conn_streams c = []"
    using assms(3) by (auto simp: new_connection_def split: sum.splits)
  then have key: "conn_key c = None" and flows: "flows_in_use c = 0"
    by (simp_all add: conn_key_def flows_in_use_def)
  have "conn_ok n q c" for n q
    using key flows c by (simp add: conn_ok_def accounted_def streams_ok_def)
  moreover have "i = j" if "i < Suc (length (rl_connections s))" "j < Suc (length (rl_connections s))"
    "conn_key ((rl_connections s @ [c]) ! i) = Some k"
    "conn_key ((rl_connections s @ [c]) ! j) = Some k" for i j k
    using that key relay_invD(1) [OF assms(1), of i k j]
    by (cases "i = length (rl_connections s)"; cases "j = length (rl_connections s)") (simp_all add: nth_append)
  moreover have "open_connections (rl_connections s @ [c]) \<le> max_connections (env_config env)"
    using assms(2) by (simp add: open_connections_def c)
  ultimately show ?thesis
    using assms(1) unfolding relay_inv_def by auto
qed

lemma relay_step_inv:
  assumes "relay_inv env lim s" "relay_step env op s = Some (out, s')"
  shows "relay_inv env lim s'"
proof -
  have quotas: "admission_inv lim (rl_quotas s)"
    using assms(1) by (simp add: relay_inv_def)
  show ?thesis
  proof (cases op)
    case AcceptConnection
    have "relay_inv env lim (s\<lparr>rl_events := ev\<rparr>)" for ev
      using assms(1) by (simp add: relay_inv_def)
    then show ?thesis
      using assms AcceptConnection accept_connection_inv [OF assms(1)]
      by (auto simp: relay_step_def open_connections_def not_le split: if_splits)
  next
    case (StreamRuns k i input)
    then have "with_connection k s (\<lambda>q c. if i < length (conn_streams c) then stream_step env i input q c
        else Some ([], q, c)) = Some (out, s')"
      using assms(2) by (simp add: relay_step_def)
    then show ?thesis
      by (rule with_connection_inv [OF assms(1)])
        (auto split: if_splits intro: stream_section [OF quotas] unchanged_section [OF quotas])
  next
    case (ConnectionFails k)
    then have "with_connection k s connection_fails = Some (out, s')"
      using assms(2) by (simp add: relay_step_def)
    then show ?thesis
      by (rule with_connection_inv [OF assms(1)]) (auto simp: connection_fails_def intro: drain_section [OF quotas])
  next
    case (ResponseTaskRuns k now t event)
    then have "with_connection k s (response_task_runs now t event) = Some (out, s')"
      using assms(2) by (simp add: relay_step_def)
    then show ?thesis
      by (rule with_connection_inv [OF assms(1)]) (auto simp: response_task_runs_def intro: unchanged_section [OF quotas])
  qed (use assms(2) with_connection_inv [OF assms(1)] accept_section [OF quotas] arrival_section [OF quotas]
      close_section [OF quotas] in \<open>auto simp: relay_step_def\<close>)
qed

interpretation relay_runs: invariant_system "relay_step env" "relay_inv env lim" for env lim
  by unfold_locales (rule relay_step_inv)

lemma relay_new_inv: "relay_inv env lim (relay_new lim)"
  using admission_inv_new [of lim]
  by (simp add: relay_inv_def relay_new_def open_connections_def AdmissionControl_new_def)

section \<open>Counting sessions\<close>

lemma sessions_of_card:
  assumes "bt_sorted (sessions q)"
  shows "sessions_of q p = card {k. bt_get (sessions q) k \<noteq> None \<and> fst k = p}"
proof -
  have "distinct (filter (\<lambda>(c, _). c = p) (map fst (sessions q)))"
    using assms by (intro distinct_filter bt_sorted_distinct)
  from distinct_card [OF this] have "sessions_of q p = card (set (filter (\<lambda>(c, _). c = p) (map fst (sessions q))))"
    by (simp only: sessions_of_def bt_keys_def)
  moreover have "set (filter (\<lambda>(c, _). c = p) (map fst (sessions q))) = {k. bt_get (sessions q) k \<noteq> None \<and> fst k = p}"
  proof (rule set_eqI)
    show "k \<in> set (filter (\<lambda>(c, _). c = p) (map fst (sessions q))) \<longleftrightarrow>
        k \<in> {k. bt_get (sessions q) k \<noteq> None \<and> fst k = p}" for k
      unfolding mem_Collect_eq bt_get_None_iff by (cases k) auto
  qed
  ultimately show ?thesis
    by simp
qed

text \<open>The sessions a principal has in the quotas are its connections that have one.\<close>

lemma sessions_of_connections:
  assumes "relay_inv env lim s"
  shows "sessions_of (rl_quotas s) p =
    card {i. i < length (rl_connections s) \<and> map_option fst (conn_key (rl_connections s ! i)) = Some p}"
proof -
  let ?cs = "rl_connections s"
  let ?I = "{i. i < length ?cs \<and> map_option fst (conn_key (?cs ! i)) = Some p}"
  let ?key = "\<lambda>i. the (conn_key (?cs ! i))"
  have some: "conn_key (?cs ! i) = Some (?key i)" "i < length ?cs" if "i \<in> ?I" for i
    using that by auto
  have inj: "inj_on ?key ?I"
  proof (rule inj_onI)
    fix i j assume i: "i \<in> ?I" and j: "j \<in> ?I" and eq: "?key i = ?key j"
    have "conn_key (?cs ! j) = Some (?key i)"
      unfolding eq by (rule some(1) [OF j])
    then show "i = j"
      by (rule relay_invD(1) [OF assms some(1) [OF i] _ some(2) [OF i] some(2) [OF j]])
  qed
  have image: "?key ` ?I = {k. bt_get (sessions (rl_quotas s)) k \<noteq> None \<and> fst k = p}"
  proof (intro equalityI subsetI)
    fix k assume "k \<in> ?key ` ?I"
    then obtain i where i: "i \<in> ?I" "k = ?key i"
      by blast
    have "conn_ok (max_streams_per_connection (env_config env)) (rl_quotas s) (?cs ! i)"
      using assms some(2) [OF i(1)] by (simp add: relay_inv_def)
    then have "bt_get (sessions (rl_quotas s)) k \<noteq> None"
      using conn_key_known some(1) [OF i(1)] i(2) by blast
    moreover have "fst k = p"
      using i some(1) [OF i(1)] by auto
    ultimately show "k \<in> {k. bt_get (sessions (rl_quotas s)) k \<noteq> None \<and> fst k = p}"
      by blast
  next
    fix k assume k: "k \<in> {k. bt_get (sessions (rl_quotas s)) k \<noteq> None \<and> fst k = p}"
    then obtain i where "i < length ?cs" "conn_key (?cs ! i) = Some k"
      using relay_invD(2) [OF assms, of k] by blast
    then show "k \<in> ?key ` ?I"
      using k by (cases k) (auto intro!: image_eqI [of _ _ i])
  qed
  have "bt_sorted (sessions (rl_quotas s))"
    using assms by (simp add: relay_inv_def admission_inv_def)
  from sessions_of_card [OF this, of p] show ?thesis
    unfolding image [symmetric] card_image [OF inj] .
qed

text \<open>When every connection is closed no session is left.\<close>

lemma closed_sessions:
  assumes inv: "relay_inv env lim s" and closed: "list_all conn_closed (rl_connections s)"
  shows "sessions (rl_quotas s) = []"
proof (rule ccontr)
  assume "sessions (rl_quotas s) \<noteq> []"
  then obtain k v m where "sessions (rl_quotas s) = (k, v) # m"
    by (cases "sessions (rl_quotas s)") auto
  then have "bt_get (sessions (rl_quotas s)) k \<noteq> None"
    by simp
  then obtain j where j: "j < length (rl_connections s)" "conn_key (rl_connections s ! j) = Some k"
    using relay_invD(2) [OF inv] by blast
  then have "conn_closed (rl_connections s ! j)"
    using closed by (simp add: list_all_length)
  moreover have "conn_ok (max_streams_per_connection (env_config env)) (rl_quotas s) (rl_connections s ! j)"
    using inv j(1) by (simp add: relay_inv_def)
  ultimately show False
    using j(2) by (simp add: conn_ok_def streams_ok_def)
qed

section \<open>The control record\<close>

lemma decode_open_unfold:
  assumes "n = unat (u16_from_be_bytes (take 2 msg))" "t = unat (u16_from_be_bytes (take 2 (drop 2 msg)))"
  shows "decode_open msg =
      (if length msg < 4 then Err ControlInvalid
       else if n = 0 \<or> n > MAX_SECRET_BYTES \<or> length msg \<noteq> 4 + n + t then Err ControlInvalid
       else case (if utf8_valid (ascii_text (drop (4 + n) msg)) then SockAddr_parse (ascii_text (drop (4 + n) msg)) else None) of
           None \<Rightarrow> Err ControlInvalid
         | Some a \<Rightarrow> Ok \<lparr>open_secret = take n (drop 4 msg), open_target = socket_of a\<rparr>)"
  unfolding decode_open_def Let_def assms by (rule refl)

lemma decode_open_iff:
  "decode_open msg = Ok r \<longleftrightarrow>
    (\<exists>address a. msg = u16_to_be_bytes (word_of_nat (length (open_secret r)))
         @ u16_to_be_bytes (word_of_nat (length address)) @ open_secret r @ address
       \<and> 0 < length (open_secret r) \<and> length (open_secret r) \<le> MAX_SECRET_BYTES \<and> length address < 2 ^ 16
       \<and> utf8_valid (ascii_text address) \<and> SockAddr_parse (ascii_text address) = Some a
       \<and> open_target r = socket_of a)"
  (is "?L \<longleftrightarrow> ?R")
proof
  assume L: ?L
  define n where "n = unat (u16_from_be_bytes (take 2 msg))"
  define t where "t = unat (u16_from_be_bytes (take 2 (drop 2 msg)))"
  let ?address = "drop (4 + n) msg"
  note unfolded = decode_open_unfold [OF n_def t_def]
  obtain a where len: "length msg = 4 + n + t" and s: "0 < n" "n \<le> MAX_SECRET_BYTES"
    and a: "utf8_valid (ascii_text ?address)" "SockAddr_parse (ascii_text ?address) = Some a"
    and r: "open_secret r = take n (drop 4 msg)" "open_target r = socket_of a"
    using L unfolding unfolded by (auto split: if_splits option.splits)
  have lengths: "length (open_secret r) = n" "length ?address = t"
    using len r(1) by simp_all
  have header: "u16_to_be_bytes (word_of_nat n) = take 2 msg"
    "u16_to_be_bytes (word_of_nat t) = take 2 (drop 2 msg)"
    unfolding n_def t_def using len by simp_all
  have "msg = take 4 msg @ drop 4 msg"
    by simp
  also have "take 4 msg = take 2 msg @ take 2 (drop 2 msg)"
    using take_add [of 2 2 msg] by simp
  also have "drop 4 msg = take n (drop 4 msg) @ ?address"
    using append_take_drop_id [of n "drop 4 msg"] by (simp add: add.commute)
  finally have "msg = u16_to_be_bytes (word_of_nat (length (open_secret r)))
      @ u16_to_be_bytes (word_of_nat (length ?address)) @ open_secret r @ ?address"
    unfolding lengths header unfolding r(1) append.assoc .
  moreover have "t < 2 ^ 16"
    unfolding t_def using unat_less_power [of "u16_from_be_bytes (take 2 (drop 2 msg))"] by simp
  ultimately show ?R
    using s a r(2) lengths by (intro exI [of _ ?address] exI [of _ a]) argo
next
  assume ?R
  then obtain address a where rec: "msg = u16_to_be_bytes (word_of_nat (length (open_secret r)))
         @ u16_to_be_bytes (word_of_nat (length address)) @ open_secret r @ address"
    and ok: "0 < length (open_secret r)" "length (open_secret r) \<le> MAX_SECRET_BYTES" "length address < 2 ^ 16"
      "utf8_valid (ascii_text address)" "SockAddr_parse (ascii_text address) = Some a" "open_target r = socket_of a"
    by blast
  have nums: "unat (word_of_nat (length (open_secret r)) :: u16) = length (open_secret r)"
    "unat (word_of_nat (length address) :: u16) = length address"
    using ok(2,3) by (simp_all add: unat_of_nat)
  have "take 2 msg = u16_to_be_bytes (word_of_nat (length (open_secret r)))"
    "take 2 (drop 2 msg) = u16_to_be_bytes (word_of_nat (length address))"
    "drop 4 msg = open_secret r @ address"
    "length msg = 4 + length (open_secret r) + length address"
    by (simp_all add: rec)
  moreover have "drop (4 + length (open_secret r)) msg = address"
    by (simp add: rec)
  ultimately show ?L
    using ok nums by (simp add: decode_open_def)
qed

lemma decode_open_length:
  assumes "decode_open msg = Ok r"
    and n: "n = unat (u16_from_be_bytes (take 2 msg))" and t: "t = unat (u16_from_be_bytes (take 2 (drop 2 msg)))"
  shows "length msg = 4 + n + t"
  using assms(1) unfolding decode_open_unfold [OF n t] by (auto split: if_splits)

text \<open>The reader takes exactly the bytes of one record.\<close>

lemma read_open_request_unfold:
  assumes "4 \<le> maximum" "\<not> length input < 4"
    and n: "n = unat (u16_from_be_bytes (take 2 (take 4 input)))" and t: "t = unat (u16_from_be_bytes (drop 2 (take 4 input)))"
  shows "read_open_request input maximum =
      (if 4 + n + t > maximum then (Err InvalidControl, drop 4 input)
       else if length input < 4 + n + t then (Err RelayTransport, [])
       else (map_err (\<lambda>_. InvalidControl) (decode_open (take (4 + n + t) input)), drop (4 + n + t) input))"
proof -
  have small: "n < 2 ^ 16" "t < 2 ^ 16"
    unfolding n t by (rule unat_less_power [where 'a = 16, simplified, THEN less_le_trans]; simp)+
  then have add: "Option.bind (usize_checked_add HEADER_BYTES n) (\<lambda>v. usize_checked_add v t) = Some (4 + n + t)"
    by (simp add: usize_checked_add_def)
  have "read_open_request input maximum =
      (case Option.bind (usize_checked_add HEADER_BYTES n) (\<lambda>v. usize_checked_add v t) of
         None \<Rightarrow> (Err InvalidControl, drop 4 input)
       | Some len \<Rightarrow>
           if len > maximum then (Err InvalidControl, drop 4 input)
           else if length (drop 4 input) < len - 4 then (Err RelayTransport, [])
           else (map_err (\<lambda>_. InvalidControl) (decode_open (take 4 input @ take (len - 4) (drop 4 input))),
              drop (len - 4) (drop 4 input)))"
    using assms(1,2) unfolding read_open_request_def Let_def n t by simp
  also have "\<dots> =
      (if 4 + n + t > maximum then (Err InvalidControl, drop 4 input)
       else if length input < 4 + n + t then (Err RelayTransport, [])
       else (map_err (\<lambda>_. InvalidControl) (decode_open (take (4 + n + t) input)), drop (4 + n + t) input))"
  proof -
    have "take 4 input @ take (n + t) (drop 4 input) = take (4 + n + t) input" "drop (n + t) (drop 4 input) = drop (4 + n + t) input"
      using take_add [of 4 "n + t" input] by (simp_all add: ac_simps)
    moreover have "length (drop 4 input) < n + t \<longleftrightarrow> length input < 4 + n + t"
      using assms(2) unfolding length_drop by linarith
    ultimately show ?thesis
      unfolding add by simp
  qed
  finally show ?thesis .
qed

lemma read_open_request_iff:
  assumes "4 \<le> maximum" "maximum < 2 ^ 64"
  shows "read_open_request input maximum = (Ok r, rest) \<longleftrightarrow>
    (\<exists>msg. input = msg @ rest \<and> length msg \<le> maximum \<and> decode_open msg = Ok r)" (is "?L \<longleftrightarrow> ?R")
proof (cases "length input < 4")
  case True
  then have "length msg \<noteq> 4 + n + t" if "input = msg @ rest" for msg n t
    using that by simp
  then have "\<not> ?R"
    using decode_open_length [OF _ refl refl] by blast
  then show ?thesis
    using True assms(1) by (simp add: read_open_request_def)
next
  case False
  define n where "n = unat (u16_from_be_bytes (take 2 (take 4 input)))"
  define t where "t = unat (u16_from_be_bytes (drop 2 (take 4 input)))"
  let ?msg = "take (4 + n + t) input"
  have read: "?L \<longleftrightarrow> 4 + n + t \<le> maximum \<and> 4 + n + t \<le> length input \<and> decode_open ?msg = Ok r
      \<and> rest = drop (4 + n + t) input"
    unfolding read_open_request_unfold [OF assms(1) False n_def t_def] by (auto simp: map_err_Ok_iff)
  show ?thesis
  proof
    assume ?L
    then show ?R
      unfolding read by (intro exI [of _ ?msg]) auto
  next
    assume ?R
    then obtain msg where msg: "input = msg @ rest" "length msg \<le> maximum" "decode_open msg = Ok r"
      by blast
    define n' where "n' = unat (u16_from_be_bytes (take 2 msg))"
    define t' where "t' = unat (u16_from_be_bytes (take 2 (drop 2 msg)))"
    have len: "length msg = 4 + n' + t'"
      by (rule decode_open_length [OF msg(3) n'_def t'_def])
    have "take 2 (take 4 input) = take 2 msg" "drop 2 (take 4 input) = take 2 (drop 2 msg)"
      using len by (simp_all add: msg(1) drop_take)
    then have "n' = n" "t' = t"
      unfolding n_def n'_def t_def t'_def by simp_all
    then have "length msg = 4 + n + t"
      using len by simp
    then have "?msg = msg" "rest = drop (4 + n + t) input" "4 + n + t \<le> length input" "4 + n + t \<le> maximum"
      using msg(1,2) by simp_all
    then show ?L
      unfolding read using msg(3) by simp
  qed
qed

text \<open>The text of an address, read digit by digit.\<close>

lemma sample_digits:
  "digit_of 10 CHR ''1'' = Some 1" "digit_of 10 CHR ''.'' = None" "digit_of 10 CHR '':'' = None"
  by (simp_all add: digit_of_def is_ascii_digit_def is_ascii_lower_def is_ascii_upper_def)

lemma sample_octets:
  "read_octet True (''1.'' @ rest) = Some (1, CHR ''.'' # rest)"
  "read_octet False (''.1.'' @ rest) = Some (1, CHR ''.'' # rest)"
  "read_octet False (''.1:'' @ rest) = Some (1, CHR '':'' # rest)"
  by (simp_all add: read_octet_def read_separated_def read_number_def sample_digits)

lemma sample_address: "\<exists>a. SockAddr_parse ''1.1.1.1:1'' = Some a"
proof -
  have "read_port '':1'' = Some (1, [])"
    by (simp add: read_port_def read_number_def sample_digits)
  then show ?thesis
    using sample_octets(1) [of "''1.1.1:1''"] sample_octets(2) [of "''1.1:1''"] sample_octets(2) [of "''1:1''"]
      sample_octets(3) [of "''1''"]
    by (simp add: SockAddr_parse_def read_socket_addr_v4_def read_ipv4_addr_def)
qed

section \<open>A run\<close>

lemmas small_defs = small_env_def small_quota_def small_request_def small_ops_def relay_new_def AdmissionControl_new_def
  relay_step_def with_connection_def new_connection_def accept_stream_def stream_step_def set_stream_def
  relay_control_def QuicRelayConfig_default_def QuicRelayConfig_validate_def Authenticator_authenticate_def
  DestinationPolicy_allows_def ConnectionAdmission_session_def open_session_def open_flow_def
  AdmissionControl_open_session_def AdmissionControl_open_flow_def sessions_of_def bt_keys_def Let_def checked_add_def
  DatagramRelay_new_def DatagramRelayConfig_validate_def DatagramRelayConfig_default_def and_then_def

lemma small_run:
  "\<exists>log s. run (relay_step small_env) (relay_new small_quota) log s
     \<and> sessions_of (rl_quotas s) (PrincipalId 7) = 1 \<and> (\<exists>c \<in> set (rl_connections s). conn_session c \<noteq> None)"
proof -
  have "\<exists>log s. execute (relay_step small_env) (relay_new small_quota) small_ops = Some (log, s)
      \<and> sessions_of (rl_quotas s) (PrincipalId 7) = 1 \<and> (\<exists>c \<in> set (rl_connections s). conn_session c \<noteq> None)"
    by (simp add: small_defs)
  then show ?thesis
    by (elim exE conjE) (intro exI conjI, rule execute_run, assumption+)
qed

section \<open>Properties\<close>

text \<open>
  C28. The quotas of the relay account exactly for what is in use. Connections, streams and datagrams
  run in any order, with any records, failures and interleaving of the sections of \<^verbatim>\<open>reserve_flow\<close>.
  In every state, the flows counted for the session of a connection are the streams of that
  connection that relay or are about to release, and within the quota; the sessions counted for a
  principal are the connections that have a session for it, and within the quota; the limits on
  connections and streams hold; and once every connection is closed no session is left.
\<close>

theorem relay_quota_exact:
  assumes "run (relay_step env) (relay_new lim) log s"
  shows "(\<forall>c \<in> set (rl_connections s). \<forall>k. conn_key c = Some k \<longrightarrow>
        map_option usage_flows (bt_get (sessions (rl_quotas s)) k) = Some (flows_in_use c)
        \<and> flows_in_use c \<le> max_flows_per_session lim)
    \<and> (\<forall>p. sessions_of (rl_quotas s) p =
          card {i. i < length (rl_connections s) \<and> map_option fst (conn_key (rl_connections s ! i)) = Some p}
        \<and> sessions_of (rl_quotas s) p \<le> max_sessions lim)
    \<and> length (filter (\<lambda>c. \<not> conn_closed c) (rl_connections s)) \<le> max_connections (env_config env)
    \<and> (\<forall>c \<in> set (rl_connections s).
         length (filter stream_active (conn_streams c)) \<le> max_streams_per_connection (env_config env))
    \<and> (list_all conn_closed (rl_connections s) \<longrightarrow> sessions (rl_quotas s) = [])"
proof -
  have inv: "relay_inv env lim s"
    by (rule relay_runs.run_inv [OF assms relay_new_inv])
  have quotas: "admission_inv lim (rl_quotas s)"
    and conns: "\<And>c. c \<in> set (rl_connections s) \<Longrightarrow> conn_ok (max_streams_per_connection (env_config env)) (rl_quotas s) c"
    and limit: "open_connections (rl_connections s) \<le> max_connections (env_config env)"
    using inv unfolding relay_inv_def by blast+
  have flows: "map_option usage_flows (bt_get (sessions (rl_quotas s)) k) = Some (flows_in_use c)
      \<and> flows_in_use c \<le> max_flows_per_session lim"
    if member: "c \<in> set (rl_connections s)" and key: "conn_key c = Some k" for c k
  proof -
    obtain u where u: "bt_get (sessions (rl_quotas s)) k = Some u" "usage_flows u = flows_in_use c"
      by (rule usage_of [OF conns [OF member] key])
    then have "usage_flows u \<le> max_flows_per_session lim"
      using quotas bt_get_SomeD [OF u(1)] by (cases k) (auto simp: admission_inv_def)
    then show ?thesis
      using u by simp
  qed
  have "sessions_of (rl_quotas s) p \<le> max_sessions lim" for p
    using quotas by (simp add: admission_inv_def)
  then show ?thesis
    using flows sessions_of_connections [OF inv] limit conns closed_sessions [OF inv]
    unfolding open_connections_def conn_ok_def streams_ok_def by blast
qed

theorem relay_quota_exact_witness:
  "\<exists>log s. run (relay_step small_env) (relay_new small_quota) log s
     \<and> sessions_of (rl_quotas s) (PrincipalId 7) = 1
     \<and> (\<forall>c \<in> set (rl_connections s). \<forall>k. conn_key c = Some k \<longrightarrow>
        map_option usage_flows (bt_get (sessions (rl_quotas s)) k) = Some (flows_in_use c)
        \<and> flows_in_use c \<le> max_flows_per_session small_quota)"
proof -
  obtain log s where r: "run (relay_step small_env) (relay_new small_quota) log s"
    and one: "sessions_of (rl_quotas s) (PrincipalId 7) = 1"
    using small_run by blast
  then show ?thesis
    using relay_quota_exact [OF r] by blast
qed

text \<open>
  C30. The control record is read exactly. The reader returns a request precisely when the stream begins
  with a record no longer than the limit that decodes to it, and leaves everything after the record
  unread. A record decodes precisely when it is the two lengths, a secret of 1 to 128 bytes and
  the text of a socket address, and nothing else.
\<close>

theorem control_record_exact:
  assumes "4 \<le> maximum" "maximum < 2 ^ 64"
  shows "(read_open_request input maximum = (Ok r, rest) \<longleftrightarrow>
      (\<exists>msg. input = msg @ rest \<and> length msg \<le> maximum \<and> decode_open msg = Ok r))
    \<and> (decode_open msg = Ok r \<longleftrightarrow>
      (\<exists>address a. msg = u16_to_be_bytes (word_of_nat (length (open_secret r)))
           @ u16_to_be_bytes (word_of_nat (length address)) @ open_secret r @ address
         \<and> 0 < length (open_secret r) \<and> length (open_secret r) \<le> MAX_SECRET_BYTES \<and> length address < 2 ^ 16
         \<and> utf8_valid (ascii_text address) \<and> SockAddr_parse (ascii_text address) = Some a
         \<and> open_target r = socket_of a))"
  using read_open_request_iff [OF assms] decode_open_iff by blast

theorem control_record_exact_witness:
  "\<exists>r. read_open_request ([0, 2, 0, 9, 1, 2] @ [49, 46, 49, 46, 49, 46, 49, 58, 49] @ [9]) 192 = (Ok r, [9])
     \<and> open_secret r = [1, 2]"
proof -
  define address :: bytes where "address = [49, 46, 49, 46, 49, 46, 49, 58, 49]"
  have t: "ascii_text address = ''1.1.1.1:1''"
    by (simp add: ascii_text_def address_def char_of_def bit_0)
  obtain a where parsed: "SockAddr_parse (ascii_text address) = Some a"
    using sample_address unfolding t by blast
  define r where "r = \<lparr>open_secret = [1, 2], open_target = socket_of a\<rparr>"
  define msg where "msg = u16_to_be_bytes (word_of_nat (length (open_secret r)))
    @ u16_to_be_bytes (word_of_nat (length address)) @ open_secret r @ address"
  have "utf8_valid (ascii_text address)" "length address < 2 ^ 16"
    unfolding t by (simp_all add: address_def byte_in_def)
  then have "decode_open msg = Ok r"
    using control_record_exact [of 192 "[]" r "[]" msg] parsed by (auto simp: msg_def r_def)
  moreover have "[0, 2, 0, 9, 1, 2] @ address @ [9] = msg @ [9]" "length msg \<le> 192"
    by (simp_all add: msg_def r_def be_eval address_def)
  ultimately have "read_open_request ([0, 2, 0, 9, 1, 2] @ address @ [9]) 192 = (Ok r, [9])"
    using control_record_exact [of 192 "[0, 2, 0, 9, 1, 2] @ address @ [9]" r "[9]" msg] by auto
  then show ?thesis
    unfolding address_def by (intro exI [of _ r]) (simp add: r_def)
qed

end
