(* ===== verification/Relay_Admission.thy ===== *)
theory Relay_Admission
  imports Relay_Properties
begin

text \<open>
  What a relay carries goes back to what its clients sent. The history of a relay holds the control
  records its streams read and the datagrams that arrived; every session, every stream that has a
  target and every datagram that was sent out is traced back to one of them, on the same
  connection, with a secret that authenticates as the principal it is counted for.
\<close>

section \<open>Where traffic comes from\<close>

type_synonym relay_log = "(relay_op \<times> unit) list"

text \<open>A control record for a target that was read on stream \<open>i\<close> of connection \<open>k\<close>.\<close>

definition recorded :: "RelayEnv \<Rightarrow> relay_log \<Rightarrow> nat \<Rightarrow> nat \<Rightarrow> PrincipalId \<Rightarrow> SocketAddr \<Rightarrow> bool" where
  "recorded env log k i p target =
     (\<exists>request. (StreamRuns k i (ControlRead (Ok request)), ()) \<in> set log
        \<and> Authenticator_authenticate (env_authenticator env) (open_secret request) = Ok p
        \<and> open_target request = target \<and> DestinationPolicy_allows (env_destinations env) target)"

text \<open>A datagram for a destination that arrived on connection \<open>k\<close>.\<close>

definition enveloped :: "RelayEnv \<Rightarrow> relay_log \<Rightarrow> nat \<Rightarrow> PrincipalId \<Rightarrow> SocketAddr \<Rightarrow> bytes \<Rightarrow> bool" where
  "enveloped env log k p destination payload =
     (\<exists>now out datagram credential sid. (DatagramArrives k now out datagram, ()) \<in> set log
        \<and> Datagram_decode datagram = Ok (ClientToServer credential sid destination payload)
        \<and> Authenticator_authenticate (env_authenticator env) credential = Ok p)"

fun stream_target :: "stream_phase \<Rightarrow> SocketAddr option" where
  "stream_target (ReservingFlow _ t) = Some t"
| "stream_target (OpeningFlow _ _ _ t) = Some t"
| "stream_target (RelayingFlow _ t) = Some t"
| "stream_target _ = None"

text \<open>The principal a stream with a target is counted for, given the session of its connection.\<close>

fun stream_principal :: "AdmittedSession option \<Rightarrow> stream_phase \<Rightarrow> PrincipalId option" where
  "stream_principal session (ReservingFlow p _) = Some p"
| "stream_principal session ph = map_option adm_principal session"

fun stream_origin :: "(PrincipalId \<Rightarrow> SocketAddr \<Rightarrow> bool) \<Rightarrow> AdmittedSession option \<Rightarrow> stream_phase \<Rightarrow> bool" where
  "stream_origin T session (ReservingFlow p t) = T p t"
| "stream_origin T session (OpeningFlow p _ _ t) = T p t"
| "stream_origin T session (RelayingFlow _ t) = (\<exists>a. session = Some a \<and> T (adm_principal a) t)"
| "stream_origin T session _ = True"

text \<open>The same of a connection, relative to the records of its streams and its datagrams.\<close>

definition datagrams_origin :: "(PrincipalId \<Rightarrow> SocketAddr \<Rightarrow> bytes \<Rightarrow> bool) \<Rightarrow> RelayEnv \<Rightarrow> DatagramRelay \<Rightarrow> bool" where
  "datagrams_origin G env d =
     (associations_ok d \<and> dr_config d = DatagramRelayConfig_default
      \<and> traffic_in UNIV {x. DestinationPolicy_allows (env_destinations env) (fst x) \<and> (\<exists>p. G p (fst x) (snd x))} d)"

definition conn_origin ::
  "(nat \<Rightarrow> PrincipalId \<Rightarrow> SocketAddr \<Rightarrow> bool) \<Rightarrow> (PrincipalId \<Rightarrow> SocketAddr \<Rightarrow> bytes \<Rightarrow> bool) \<Rightarrow> RelayEnv
   \<Rightarrow> relay_connection \<Rightarrow> bool" where
  "conn_origin T G env c =
     (datagrams_origin G env (conn_datagrams c)
      \<and> (conn_draining c \<longrightarrow> dr_associations (conn_datagrams c) = [])
      \<and> pred_option (\<lambda>a. (\<exists>i t. T i (adm_principal a) t) \<or> (\<exists>t payload. G (adm_principal a) t payload)) (conn_session c)
      \<and> (\<forall>i < length (conn_streams c). stream_origin (T i) (conn_session c) (conn_streams c ! i)))"

definition relay_origin :: "RelayEnv \<Rightarrow> relay_log \<Rightarrow> relay_state \<Rightarrow> bool" where
  "relay_origin env log s =
     (\<forall>k < length (rl_connections s). conn_origin (recorded env log k) (enveloped env log k) env (rl_connections s ! k))"

section \<open>Longer histories\<close>

lemma recorded_mono: "recorded env log k i p t \<Longrightarrow> recorded env (log @ later) k i p t"
  unfolding recorded_def by auto

lemma enveloped_mono: "enveloped env log k p t payload \<Longrightarrow> enveloped env (log @ later) k p t payload"
  unfolding enveloped_def set_append by blast

lemma conn_origin_mono:
  assumes "conn_origin T G env c" "\<And>i p t. T i p t \<Longrightarrow> T' i p t" "\<And>p t payload. G p t payload \<Longrightarrow> G' p t payload"
  shows "conn_origin T' G' env c"
proof -
  have "stream_origin (T' i) session ph" if "stream_origin (T i) session ph" for i session ph
    using that assms(2) by (cases ph) auto
  moreover have "datagrams_origin G' env (conn_datagrams c)"
    using assms(1,3) unfolding conn_origin_def datagrams_origin_def
    by (auto elim!: traffic_in_mono)
  ultimately show ?thesis
    using assms unfolding conn_origin_def by (cases "conn_session c") (auto, blast+)
qed

lemma relay_origin_mono: "relay_origin env log s \<Longrightarrow> relay_origin env (log @ later) s"
  unfolding relay_origin_def by (auto intro: conn_origin_mono recorded_mono enveloped_mono)

lemma with_connection_origin:
  assumes "relay_origin env log s" "relay_inv env lim s" "with_connection k s f = Some (out, s')"
    and "\<And>c events q' c'. conn_origin (recorded env (log @ later) k) (enveloped env (log @ later) k) env c
      \<Longrightarrow> conn_ok (max_streams_per_connection (env_config env)) (rl_quotas s) c
      \<Longrightarrow> f (rl_quotas s) c = Some (events, q', c')
      \<Longrightarrow> conn_origin (recorded env (log @ later) k) (enveloped env (log @ later) k) env c'"
  shows "relay_origin env (log @ later) s'"
proof (cases "k < length (rl_connections s)")
  case True
  note old = relay_origin_mono [OF assms(1), of later]
  obtain events q' c' where f: "f (rl_quotas s) (rl_connections s ! k) = Some (events, q', c')"
    and s': "rl_connections s' = (rl_connections s)[k := c']"
    using assms(3) True by (auto simp: with_connection_def split: option.splits)
  have "conn_origin (recorded env (log @ later) k) (enveloped env (log @ later) k) env c'"
    by (rule assms(4) [OF _ _ f]) (use old assms(2) True in \<open>simp_all add: relay_origin_def relay_inv_def\<close>)
  then show ?thesis
    using old unfolding relay_origin_def s' length_list_update by (metis nth_list_update_eq nth_list_update_neq)
qed (use assms(1,3) relay_origin_mono in \<open>auto simp: with_connection_def\<close>)

section \<open>Streams\<close>

lemma origin_update:
  assumes "conn_origin T G env c" "i < length (conn_streams c)" "stream_origin (T i) session ph"
    and "pred_option (\<lambda>a. (\<exists>i t. T i (adm_principal a) t) \<or> (\<exists>t payload. G (adm_principal a) t payload)) session"
    and "session = conn_session c \<or> (\<forall>j < length (conn_streams c). j \<noteq> i \<longrightarrow> flow_lease (conn_streams c ! j) = None)"
  shows "conn_origin T G env (set_stream i ph (c\<lparr>conn_session := session, conn_locked := b\<rparr>))"
proof -
  have "stream_origin (T j) session (conn_streams c ! j)" if "j < length (conn_streams c)" "j \<noteq> i" for j
  proof -
    have "stream_origin (T j) (conn_session c) (conn_streams c ! j)"
      using assms(1) that(1) by (simp add: conn_origin_def)
    then show ?thesis
      using assms(5) that by (cases "conn_streams c ! j") auto
  qed
  then show ?thesis
    using assms(1-4) by (auto simp: conn_origin_def set_stream_def nth_list_update)
qed

lemma origin_phase:
  assumes "conn_origin T G env c" "i < length (conn_streams c)" "stream_origin (T i) (conn_session c) ph"
  shows "conn_origin T G env (set_stream i ph c)" "conn_origin T G env (set_stream i ph (c\<lparr>conn_locked := b\<rparr>))"
proof -
  have "conn_origin T G env (set_stream i ph (c\<lparr>conn_session := conn_session c, conn_locked := b\<rparr>))" for b
    by (rule origin_update [OF assms]) (use assms(1) in \<open>simp_all add: conn_origin_def\<close>)
  note this [of b] this [of "conn_locked c"]
  moreover have "c\<lparr>conn_session := conn_session c, conn_locked := conn_locked c\<rparr> = c"
    "c\<lparr>conn_session := conn_session c, conn_locked := b\<rparr> = c\<lparr>conn_locked := b\<rparr>"
    by simp_all
  ultimately show "conn_origin T G env (set_stream i ph c)" "conn_origin T G env (set_stream i ph (c\<lparr>conn_locked := b\<rparr>))"
    by simp_all
qed

lemma session_origin:
  assumes "ConnectionAdmission_session q s pid = Some (r, q', s', events)" "P pid" "pred_option (\<lambda>a. P (adm_principal a)) s"
  shows "pred_option (\<lambda>a. P (adm_principal a)) s'" "s' = s \<or> s = None"
  using assms(1) by (cases rule: session_cases; use assms(2,3) in auto)+

lemma no_session_no_flows:
  assumes "conn_origin T G env c" "conn_ok n q c" "conn_session c = None" "j < length (conn_streams c)"
  shows "flow_lease (conn_streams c ! j) = None"
proof -
  have "flows_in_use c = 0"
    using assms(2,3) by (simp add: conn_ok_def accounted_def conn_key_def)
  then show ?thesis
    using no_flows nth_mem [OF assms(4)] by blast
qed

lemma stream_step_origin:
  assumes "conn_origin T G env c" "conn_ok n q c" "i < length (conn_streams c)"
    and "stream_step env i input q c = Some (events, q', c')"
    and "\<And>request p. input = ControlRead (Ok request) \<Longrightarrow> Authenticator_authenticate (env_authenticator env) (open_secret request) = Ok p
      \<Longrightarrow> DestinationPolicy_allows (env_destinations env) (open_target request) \<Longrightarrow> T i p (open_target request)"
  shows "conn_origin T G env c'"
proof -
  have old: "stream_origin (T i) (conn_session c) (conn_streams c ! i)"
    using assms(1,3) by (simp add: conn_origin_def)
  have ok: "phase_ok (conn_key c) (flows_in_use c) (conn_streams c ! i)"
    using phase_at [OF _ assms(3) refl] assms(2) by (auto simp: conn_ok_def)
  note phase = origin_phase [OF assms(1,3)]
  show ?thesis
  proof (cases "conn_streams c ! i")
    case ReadingControl
    then show ?thesis
      using assms(1,4,5) phase
      by (cases input) (auto simp: stream_step_def relay_control_def split: if_splits prod.splits sum.splits)
  next
    case (ReservingFlow pid t)
    show ?thesis
    proof (cases "input = Scheduled \<and> \<not> conn_locked c")
      case True
      then obtain r s' ev where session: "ConnectionAdmission_session q (conn_session c) pid = Some (r, q', s', ev)"
        and c': "c' = (case r of Inl e \<Rightarrow> set_stream i (StreamEnded (Err e)) (c\<lparr>conn_session := s'\<rparr>)
          | Inr (l, new) \<Rightarrow> set_stream i (OpeningFlow pid l new t) (c\<lparr>conn_session := s', conn_locked := True\<rparr>))"
        using assms(4) ReservingFlow by (auto simp: stream_step_def split: option.splits sum.splits prod.splits)
      note sess = session_origin [OF session, where P = "\<lambda>p. (\<exists>i t. T i p t) \<or> (\<exists>t payload. G p t payload)"]
      have P: "pred_option (\<lambda>a. (\<exists>i t. T i (adm_principal a) t) \<or> (\<exists>t payload. G (adm_principal a) t payload)) s'"
        "s' = conn_session c \<or> conn_session c = None"
        by (rule sess; use old ReservingFlow assms(1) in \<open>auto simp: conn_origin_def\<close>)+
      then have "s' = conn_session c \<or> (\<forall>j < length (conn_streams c). j \<noteq> i \<longrightarrow> flow_lease (conn_streams c ! j) = None)"
        using no_session_no_flows [OF assms(1,2)] by blast
      note new = origin_update [OF assms(1,3) _ P(1) this]
      have "conn_origin T G env (set_stream i (StreamEnded e) (c\<lparr>conn_session := s', conn_locked := conn_locked c\<rparr>))" for e
        by (rule new) simp
      moreover have "conn_origin T G env (set_stream i (OpeningFlow pid l created t) (c\<lparr>conn_session := s', conn_locked := True\<rparr>))" for l created
        by (rule new) (use old ReservingFlow in simp)
      ultimately show ?thesis
        using c' by (cases r) (auto split: prod.splits)
    next
      case False
      then show ?thesis
        using assms(1,4) ReservingFlow by (cases input) (auto simp: stream_step_def)
    qed
  next
    case (OpeningFlow pid l new t)
    then have "conn_key c = Some (pid, l)"
      using ok by (auto simp: phase_ok_def)
    then have "stream_origin (T i) (conn_session c) (RelayingFlow l t)"
      using old OpeningFlow by (auto simp: conn_key_def)
    then show ?thesis
      using assms(1,4) phase OpeningFlow
      by (cases input) (auto simp: stream_step_def split: sum.splits prod.splits if_splits)
  next
    case (RollingBack pid l e)
    then have "flows_in_use c = 0"
      using ok by (simp add: phase_ok_def)
    then have "\<forall>j < length (conn_streams c). j \<noteq> i \<longrightarrow> flow_lease (conn_streams c ! j) = None"
      using no_flows nth_mem by blast
    then have "conn_origin T G env (set_stream i (StreamEnded (Err e)) (c\<lparr>conn_session := None, conn_locked := False\<rparr>))"
      by (intro origin_update [OF assms(1,3)]) simp_all
    then show ?thesis
      using assms(1,4) RollingBack by (cases input) (auto simp: stream_step_def)
  next
    case (RelayingFlow l t)
    then show ?thesis
      using assms(1,4) phase by (cases input) (auto simp: stream_step_def)
  next
    case (ReleasingFlow l r)
    then show ?thesis
      using assms(1,4) phase by (cases input) (auto simp: stream_step_def split: if_splits)
  next
    case (StreamEnded r)
    then show ?thesis
      using assms(1,4) by (cases input) (auto simp: stream_step_def)
  qed
qed

section \<open>Datagrams\<close>

lemma new_origin: "DatagramRelay_new DatagramRelayConfig_default = Ok d \<Longrightarrow> datagrams_origin G env d"
  using new_relay_ok(1,3) [of DatagramRelayConfig_default d] new_relay_ok(2) [of DatagramRelayConfig_default d "env_destinations env"]
  by (auto simp: datagrams_origin_def traffic_ok_in requested_def asked_def elim: traffic_in_mono)

lemma turn_origin:
  assumes "datagrams_origin G env d"
  shows "datagrams_origin G env (receive_responses now k event d)"
    and "dr_associations (receive_responses now k event d) = dr_associations d"
proof -
  have "dr_config (receive_responses now k event d) = dr_config d"
    by (auto simp: receive_responses_def stop_task_def Let_def split: task_event.split sum.split)
  then show "datagrams_origin G env (receive_responses now k event d)"
    using assms turn_ok turn_traffic by (simp add: datagrams_origin_def)
  show "dr_associations (receive_responses now k event d) = dr_associations d"
    by (auto simp: receive_responses_def stop_task_def Let_def split: task_event.split sum.split)
qed

lemma shutdown_origin:
  "datagrams_origin G env d \<Longrightarrow> datagrams_origin G env (DatagramRelay_shutdown d)"
  "dr_associations (DatagramRelay_shutdown d) = []"
  using shutdown_ok [of d] shutdown_traffic by (simp_all add: datagrams_origin_def DatagramRelay_shutdown_def)

lemma forward_origin:
  assumes "datagrams_origin G env d" "DatagramRelay_forward now out (env_destinations env) encoded d = (r, d')"
    and "\<And>credential sid t payload. Datagram_decode encoded = Ok (ClientToServer credential sid t payload) \<Longrightarrow> \<exists>p. G p t payload"
  shows "datagrams_origin G env d'"
proof -
  have "dr_config d' = dr_config d"
    by (rule config_step [of "env_destinations env" "Forward now out encoded" d r d'])
      (simp add: datagram_step_def assms(2))
  moreover have "associations_ok d'"
    by (rule forward_ok [OF _ assms(2)]) (use assms(1) in \<open>simp add: datagrams_origin_def\<close>)
  moreover have "traffic_in UNIV {x. DestinationPolicy_allows (env_destinations env) (fst x) \<and> (\<exists>p. G p (fst x) (snd x))} d'"
    by (rule forward_traffic [OF _ _ assms(2)]) (use assms(1,3) in \<open>auto simp: datagrams_origin_def\<close>)
  ultimately show ?thesis
    using assms(1) by (simp add: datagrams_origin_def)
qed

lemma datagram_origin:
  assumes "conn_origin T G env c" "conn_ok n q c" "datagram_arrives env now out datagram q c = Some (events, q', c')"
    and "\<And>credential sid t payload p. Datagram_decode datagram = Ok (ClientToServer credential sid t payload)
      \<Longrightarrow> Authenticator_authenticate (env_authenticator env) credential = Ok p \<Longrightarrow> G p t payload"
  shows "conn_origin T G env c'"
proof (cases "\<exists>credential sid t payload p. Datagram_decode datagram = Ok (ClientToServer credential sid t payload)
    \<and> Authenticator_authenticate (env_authenticator env) credential = Ok p \<and> \<not> conn_draining c \<and> \<not> conn_locked c")
  case False
  then have "c' = c"
    using assms(3) same_session [of c]
    by (auto simp: datagram_arrives_def ConnectionAdmission_admit_datagram_def split: sum.splits Datagram.splits if_splits)
  then show ?thesis
    using assms(1) by simp
next
  case True
  then obtain credential sid t payload p where decoded: "Datagram_decode datagram = Ok (ClientToServer credential sid t payload)"
    and auth: "Authenticator_authenticate (env_authenticator env) credential = Ok p" and free: "\<not> conn_draining c" "\<not> conn_locked c"
    by blast
  obtain r s' ev where session: "ConnectionAdmission_session q (conn_session c) p = Some (r, q', s', ev)"
    and c': "c' = c\<lparr>conn_session := s'\<rparr>
      \<or> (\<exists>r d. DatagramRelay_forward now out (env_destinations env) datagram (conn_datagrams c) = (r, d)
            \<and> c' = c\<lparr>conn_session := s', conn_datagrams := d\<rparr>)"
    using assms(3) decoded auth free
    by (auto simp: datagram_arrives_def ConnectionAdmission_admit_datagram_def split: option.splits sum.splits prod.splits)
  have G: "G p t payload"
    by (rule assms(4) [OF decoded auth])
  have P: "pred_option (\<lambda>a. (\<exists>i t. T i (adm_principal a) t) \<or> (\<exists>t payload. G (adm_principal a) t payload)) s'"
    "s' = conn_session c \<or> conn_session c = None"
    by (rule session_origin [OF session, where P = "\<lambda>p. (\<exists>i t. T i p t) \<or> (\<exists>t payload. G p t payload)"];
        use G assms(1) in \<open>auto simp: conn_origin_def\<close>)+
  have "stream_origin (T j) s' (conn_streams c ! j)" if "j < length (conn_streams c)" for j
  proof -
    have "stream_origin (T j) (conn_session c) (conn_streams c ! j)"
      using assms(1) that by (simp add: conn_origin_def)
    then show ?thesis
      using P(2) no_session_no_flows [OF assms(1,2) _ that] by (cases "conn_streams c ! j") auto
  qed
  moreover have "datagrams_origin G env d" if "DatagramRelay_forward now out (env_destinations env) datagram (conn_datagrams c) = (r, d)" for r d
    by (rule forward_origin [OF _ that]) (use assms(1) G decoded in \<open>auto simp: conn_origin_def\<close>)
  ultimately show ?thesis
    using assms(1) P(1) c' free(1) by (auto simp: conn_origin_def)
qed

section \<open>Histories\<close>

lemma recorded_now:
  "Authenticator_authenticate (env_authenticator env) (open_secret request) = Ok p \<Longrightarrow> DestinationPolicy_allows (env_destinations env) (open_target request)
   \<Longrightarrow> recorded env (log @ [(StreamRuns k i (ControlRead (Ok request)), ())]) k i p (open_target request)"
  unfolding recorded_def by (rule exI [of _ request]) simp

lemma enveloped_now:
  "Datagram_decode datagram = Ok (ClientToServer credential sid t payload) \<Longrightarrow> Authenticator_authenticate (env_authenticator env) credential = Ok p
   \<Longrightarrow> enveloped env (log @ [(DatagramArrives k now out datagram, ())]) k p t payload"
  unfolding enveloped_def
  by (rule exI [of _ now], rule exI [of _ out], rule exI [of _ datagram], rule exI [of _ credential], rule exI [of _ sid]) simp

lemma relay_step_origin:
  assumes "relay_inv env lim s" "relay_origin env log s" "relay_step env op s = Some (out, s')"
  shows "relay_origin env (log @ [(op, out)]) s'"
proof (cases op)
  case AcceptConnection
  have "conn_origin T G env c" if "new_connection = Some c" for T G c
    using that by (auto simp: new_connection_def conn_origin_def new_origin split: sum.splits)
  then show ?thesis
    using relay_origin_mono [OF assms(2), of "[(op, out)]"] assms(3) AcceptConnection
    by (auto simp: relay_step_def relay_origin_def nth_append less_Suc_eq split: if_splits)
next
  case (AcceptStream k)
  then have "with_connection k s (accept_stream env) = Some (out, s')"
    using assms(3) by (simp add: relay_step_def)
  then show ?thesis
    by (rule with_connection_origin [OF assms(2,1)])
      (auto simp: accept_stream_def conn_origin_def nth_append less_Suc_eq split: if_splits)
next
  case (StreamRuns k i input)
  then have "with_connection k s (\<lambda>q c. if i < length (conn_streams c) then stream_step env i input q c
      else Some ([], q, c)) = Some (out, s')"
    using assms(3) by (simp add: relay_step_def)
  then show ?thesis
  proof (rule with_connection_origin [OF assms(2,1)])
    fix c events q' c'
    assume c: "conn_origin (recorded env (log @ [(op, out)]) k) (enveloped env (log @ [(op, out)]) k) env c"
      "conn_ok (max_streams_per_connection (env_config env)) (rl_quotas s) c"
      and step: "(if i < length (conn_streams c) then stream_step env i input (rl_quotas s) c else Some ([], rl_quotas s, c)) = Some (events, q', c')"
    show "conn_origin (recorded env (log @ [(op, out)]) k) (enveloped env (log @ [(op, out)]) k) env c'"
    proof (cases "i < length (conn_streams c)")
      case True
      then have "stream_step env i input (rl_quotas s) c = Some (events, q', c')"
        using step by simp
      then show ?thesis
        by (rule stream_step_origin [OF c True]) (simp add: StreamRuns recorded_now)
    qed (use c step in simp)
  qed
next
  case (DatagramArrives k now so datagram)
  then have "with_connection k s (datagram_arrives env now so datagram) = Some (out, s')"
    using assms(3) by (simp add: relay_step_def)
  then show ?thesis
    by (rule with_connection_origin [OF assms(2,1)]) (rule datagram_origin, assumption+, simp add: DatagramArrives enveloped_now)
next
  case (ConnectionFails k)
  then have "with_connection k s connection_fails = Some (out, s')"
    using assms(3) by (simp add: relay_step_def)
  then show ?thesis
    by (rule with_connection_origin [OF assms(2,1)]) (auto simp: connection_fails_def conn_origin_def shutdown_origin)
next
  case (ResponseTaskRuns k now t event)
  then have "with_connection k s (response_task_runs now t event) = Some (out, s')"
    using assms(3) by (simp add: relay_step_def)
  then show ?thesis
    by (rule with_connection_origin [OF assms(2,1)]) (auto simp: response_task_runs_def conn_origin_def turn_origin)
next
  case (CloseConnection k)
  then have step: "with_connection k s close_connection = Some (out, s')"
    using assms(3) by (simp add: relay_step_def)
  have idle: "stream_origin T None ph" if "\<not> stream_active ph" for T ph
    using that by (cases ph) (auto simp: stream_active_def)
  show ?thesis
    by (rule with_connection_origin [OF assms(2,1) step])
      (auto simp: close_connection_def conn_origin_def list_all_length idle split: if_splits)
qed

interpretation origin_runs: history_system "relay_step env" "relay_inv env lim" "relay_origin env" for env lim
  by unfold_locales (rule relay_step_origin)

lemma small_relaying:
  "\<exists>log s l. run (relay_step small_env) (relay_new small_quota) log s \<and> map fst log = small_ops
     \<and> 0 < length (rl_connections s) \<and> 0 < length (conn_streams (rl_connections s ! 0))
     \<and> conn_streams (rl_connections s ! 0) ! 0 = RelayingFlow l (open_target small_request)"
proof -
  have "\<exists>log s l. execute (relay_step small_env) (relay_new small_quota) small_ops = Some (log, s) \<and> map fst log = small_ops
      \<and> 0 < length (rl_connections s) \<and> 0 < length (conn_streams (rl_connections s ! 0))
      \<and> conn_streams (rl_connections s ! 0) ! 0 = RelayingFlow l (open_target small_request)"
    by (simp add: small_defs)
  then show ?thesis
    using execute_run by fast
qed

section \<open>Properties\<close>

text \<open>
  C29. Only admitted traffic is relayed, and everything goes back to what the client of that connection
  sent. A stream that reserves, opens or relays a flow has the target of a control record that was
  read on that stream, which the policy allows and whose secret authenticates as the principal the
  stream is counted for; the session of a connection belongs to a principal that a record or a
  datagram of that connection authenticated as; every datagram that was sent out is the payload of
  one that arrived on that connection with an accepted secret, for an allowed destination; at most
  256 associations are open; and a connection whose carrier failed has no association left and has
  told every response task to stop.
\<close>

theorem relay_only_admitted:
  assumes "run (relay_step env) (relay_new lim) log s" "k < length (rl_connections s)" "rl_connections s ! k = c"
  shows "(\<forall>i < length (conn_streams c). \<forall>target. stream_target (conn_streams c ! i) = Some target
        \<longrightarrow> (\<exists>p. stream_principal (conn_session c) (conn_streams c ! i) = Some p \<and> recorded env log k i p target))
    \<and> (\<forall>a. conn_session c = Some a \<longrightarrow> (\<exists>i target. recorded env log k i (adm_principal a) target)
        \<or> (\<exists>target payload. enveloped env log k (adm_principal a) target payload))
    \<and> (\<forall>(target, payload) \<in> set (dr_sent (conn_datagrams c)).
        DestinationPolicy_allows (env_destinations env) target \<and> (\<exists>p. enveloped env log k p target payload))
    \<and> length (dr_associations (conn_datagrams c)) \<le> 256
    \<and> (conn_draining c \<longrightarrow> dr_associations (conn_datagrams c) = []
        \<and> (\<forall>t \<in> set (dr_tasks (conn_datagrams c)). task_cancelled t))"
proof -
  have "relay_origin env [] (relay_new lim)"
    by (simp add: relay_origin_def relay_new_def)
  from origin_runs.run_hist [OF assms(1) relay_new_inv this]
  have c: "conn_origin (recorded env log k) (enveloped env log k) env c"
    using assms(2,3) by (auto simp: relay_origin_def)
  have ok: "streams_ok (max_streams_per_connection (env_config env)) c"
    using relay_runs.run_inv [OF assms(1) relay_new_inv] assms(2,3) by (auto simp: relay_inv_def conn_ok_def)
  have streams: "\<exists>p. stream_principal (conn_session c) (conn_streams c ! i) = Some p \<and> recorded env log k i p target"
    if i: "i < length (conn_streams c)" "stream_target (conn_streams c ! i) = Some target" for i target
  proof -
    have "stream_origin (recorded env log k i) (conn_session c) (conn_streams c ! i)"
      using c i(1) by (simp add: conn_origin_def)
    then show ?thesis
      using phase_at [OF ok i(1) refl] i(2)
      by (cases "conn_streams c ! i"; cases "conn_session c") (auto simp: phase_ok_def conn_key_def)
  qed
  have d: "datagrams_origin (enveloped env log k) env (conn_datagrams c)"
    using c by (simp add: conn_origin_def)
  then have assocs: "associations_ok (conn_datagrams c)" and "length (dr_associations (conn_datagrams c)) \<le> 256"
    by (auto simp: datagrams_origin_def associations_ok_def DatagramRelayConfig_default_def)
  moreover have "\<forall>t \<in> set (dr_tasks (conn_datagrams c)). task_cancelled t" if "conn_draining c"
    using live_tasks_bounded [OF assocs] c that by (simp add: conn_origin_def filter_empty_conv)
  moreover have "\<forall>(target, payload) \<in> set (dr_sent (conn_datagrams c)).
      DestinationPolicy_allows (env_destinations env) target \<and> (\<exists>p. enveloped env log k p target payload)"
    using d unfolding datagrams_origin_def traffic_in_def by fastforce
  moreover have "\<forall>a. conn_session c = Some a \<longrightarrow> (\<exists>i target. recorded env log k i (adm_principal a) target)
      \<or> (\<exists>target payload. enveloped env log k (adm_principal a) target payload)"
    using c by (auto simp: conn_origin_def)
  ultimately show ?thesis
    using streams c by (simp add: conn_origin_def)
qed

theorem relay_only_admitted_witness:
  "\<exists>log s l p. run (relay_step small_env) (relay_new small_quota) log s \<and> map fst log = small_ops
     \<and> conn_streams (rl_connections s ! 0) ! 0 = RelayingFlow l (open_target small_request)
     \<and> map_option adm_principal (conn_session (rl_connections s ! 0)) = Some p
     \<and> recorded small_env log 0 0 p (open_target small_request)"
proof -
  obtain log s l where r: "run (relay_step small_env) (relay_new small_quota) log s" "map fst log = small_ops"
    and c: "0 < length (rl_connections s)" "0 < length (conn_streams (rl_connections s ! 0))"
      "conn_streams (rl_connections s ! 0) ! 0 = RelayingFlow l (open_target small_request)"
    using small_relaying by blast
  have "stream_target (conn_streams (rl_connections s ! 0) ! 0) = Some (open_target small_request)"
    by (simp add: c(3))
  then show ?thesis
    using relay_only_admitted [OF r(1) c(1) refl] r c(2,3) by (metis stream_principal.simps(5))
qed

end
