(* ===== verification/Forest.thy ===== *)
theory Forest
  imports Rust_Text State_Runs Ordered_Map Wire_Datagram
begin

text \<open>
  \<^verbatim>\<open>crates/velum-forest/src/lib.rs\<close>: the cover service (a static HTTP/1.1 service or a reverse proxy) and
  the rotation of traffic profiles. A connection is the bytes the client sends; every write and the
  calls on the upstream are given their outcome. Points in time and durations are natural numbers;
  the verifier of profile updates is a parameter.
\<close>

section \<open>Text\<close>

text \<open>\<^verbatim>\<open>str::split_ascii_whitespace\<close>: the pieces between ASCII white space that are not empty.\<close>

definition is_ascii_whitespace :: "char \<Rightarrow> bool" where
  "is_ascii_whitespace c = (c \<in> {CHR 0x09, LF, CHR 0x0C, CR, CHR '' ''})"

fun split_at :: "(char \<Rightarrow> bool) \<Rightarrow> string \<Rightarrow> string list" where
  "split_at P [] = [[]]"
| "split_at P (c # s) =
     (if P c then [] # split_at P s else (c # hd (split_at P s)) # tl (split_at P s))"

definition split_ascii_whitespace :: "string \<Rightarrow> string list" where
  "split_ascii_whitespace s = filter (\<lambda>w. w \<noteq> []) (split_at is_ascii_whitespace s)"

section \<open>Cover service\<close>

definition MAX_REQUEST_HEAD_BYTES :: nat where
  "MAX_REQUEST_HEAD_BYTES = 16 * 1024"

record StaticAsset =
  content_type :: string
  asset_body :: string

record StaticService =
  assets :: "(string, StaticAsset) btree_map"

datatype CoverServiceMode = Static StaticService | ReverseProxy (upstream: SocketAddr)

record CoverServiceConfig =
  cover_schema_version :: u16
  cover_mode :: CoverServiceMode
  request_head_timeout :: nat
  upstream_timeout :: nat

datatype CoverConfigError =
    UnsupportedSchema
  | ZeroRequestHeadTimeout
  | ZeroUpstreamTimeout
  | InvalidStaticService

definition valid_path :: "string \<Rightarrow> bool" where
  "valid_path path = (prefix ''/'' path \<and> \<not> sublist ''..'' path \<and> CR \<notin> set path \<and> LF \<notin> set path)"

definition valid_content_type :: "string \<Rightarrow> bool" where
  "valid_content_type t = (t \<noteq> [] \<and> \<not> list_ex is_ascii_control t)"

definition StaticService_validate :: "StaticService \<Rightarrow> (CoverConfigError, unit) result" where
  "StaticService_validate self =
     (if assets self = [] \<or> list_ex (\<lambda>path. \<not> valid_path path) (bt_keys (assets self))
         \<or> list_ex (\<lambda>asset. \<not> valid_content_type (content_type asset)) (bt_values (assets self))
      then Err InvalidStaticService
      else Ok ())"

definition CoverServiceMode_validate :: "CoverServiceMode \<Rightarrow> (CoverConfigError, unit) result" where
  "CoverServiceMode_validate self =
     (case self of Static service \<Rightarrow> StaticService_validate service | ReverseProxy _ \<Rightarrow> Ok ())"

definition CoverServiceConfig_validate :: "CoverServiceConfig \<Rightarrow> (CoverConfigError, unit) result" where
  "CoverServiceConfig_validate self =
     (if cover_schema_version self \<noteq> 1 then Err UnsupportedSchema
      else if upstream_timeout self = 0 then Err ZeroUpstreamTimeout
      else if request_head_timeout self = 0 then Err ZeroRequestHeadTimeout
      else CoverServiceMode_validate (cover_mode self))"

datatype CoverServiceError =
    InvalidConfig
  | MalformedRequest
  | RequestTimedOut
  | UpstreamUnavailable
  | Transport

text \<open>The head read so far and the bytes that follow; the rest is what was not read.\<close>

fun read_request_head :: "string \<Rightarrow> string \<Rightarrow> (CoverServiceError, string) result \<times> string" where
  "read_request_head head [] =
     (if length head < MAX_REQUEST_HEAD_BYTES then (Err Transport, []) else (Err MalformedRequest, []))"
| "read_request_head head (byte # input) =
     (if length head < MAX_REQUEST_HEAD_BYTES then
        (let head = head @ [byte] in
         if suffix (CRLF @ CRLF) head then (Ok head, input) else read_request_head head input)
      else (Err MalformedRequest, byte # input))"

definition request_path :: "string \<Rightarrow> string option" where
  "request_path head =
     (if utf8_valid head then
        (case split_ascii_whitespace (hd (split_crlf head)) of
           verb # path # _ \<Rightarrow> if verb = ''GET'' \<or> verb = ''HEAD'' then Some path else None
         | _ \<Rightarrow> None)
      else None)"

definition request_method :: "string \<Rightarrow> string option" where
  "request_method head =
     (if utf8_valid head then
        (case split_ascii_whitespace (hd (split_crlf head)) of verb # _ \<Rightarrow> Some verb | [] \<Rightarrow> None)
      else None)"

definition missing_asset :: StaticAsset where
  "missing_asset = \<lparr>content_type = ''text/plain; charset=utf-8'', asset_body = ''Not Found'' @ [LF]\<rparr>"

definition response_head :: "string \<Rightarrow> StaticAsset \<Rightarrow> string" where
  "response_head status asset =
     ''HTTP/1.1 '' @ status @ CRLF @ ''Content-Type: '' @ content_type asset @ CRLF
     @ ''Content-Length: '' @ decimal_string (length (asset_body asset)) @ CRLF
     @ ''Connection: close'' @ CRLF @ CRLF"

definition find_asset :: "StaticService \<Rightarrow> string \<Rightarrow> string \<times> StaticAsset" where
  "find_asset service path =
     (case bt_get (assets service) path of
        Some asset \<Rightarrow> (''200 OK'', asset)
      | None \<Rightarrow> (''404 Not Found'', missing_asset))"

text \<open>
  A write that fails after some bytes, and the outcomes of one connection: whether the head is
  late, the two writes to the client, and connecting, writing and copying for the reverse proxy.
\<close>

definition write_all :: "nat option \<Rightarrow> string \<Rightarrow> string \<times> bool" where
  "write_all failure bs = (case failure of None \<Rightarrow> (bs, True) | Some n \<Rightarrow> (take n bs, False))"

record cover_outcome =
  co_late :: bool
  co_head_write :: "nat option"
  co_body_write :: "nat option"
  co_connect :: bool
  co_upstream_write :: "nat option"
  co_upstream_sends :: string
  co_copy :: "(nat \<times> nat) option"

text \<open>What was written to the client and to the upstream.\<close>

record cover_traffic =
  to_client :: string
  to_upstream :: string

definition serve_static ::
  "cover_outcome \<Rightarrow> StaticService \<Rightarrow> string \<Rightarrow> (CoverServiceError, unit) result \<times> cover_traffic" where
  "serve_static out service head =
     (case request_path head of
        None \<Rightarrow> (Err MalformedRequest, \<lparr>to_client = [], to_upstream = []\<rparr>)
      | Some path \<Rightarrow>
          (case find_asset service path of (status, asset) \<Rightarrow>
             (case write_all (co_head_write out) (response_head status asset) of (written, ok) \<Rightarrow>
                if \<not> ok then (Err Transport, \<lparr>to_client = written, to_upstream = []\<rparr>)
                else if request_method head \<noteq> Some ''HEAD''
                then (case write_all (co_body_write out) (asset_body asset) of (body, ok) \<Rightarrow>
                        (if ok then Ok () else Err Transport, \<lparr>to_client = written @ body, to_upstream = []\<rparr>))
                else (Ok (), \<lparr>to_client = written, to_upstream = []\<rparr>))))"

text \<open>The copy in both directions: everything, or a part of each when it fails.\<close>

definition serve_upstream ::
  "cover_outcome \<Rightarrow> string \<Rightarrow> string \<Rightarrow> (CoverServiceError, unit) result \<times> cover_traffic" where
  "serve_upstream out head rest =
     (if \<not> co_connect out then (Err UpstreamUnavailable, \<lparr>to_client = [], to_upstream = []\<rparr>)
      else
        (case write_all (co_upstream_write out) head of (written, ok) \<Rightarrow>
           if \<not> ok then (Err Transport, \<lparr>to_client = [], to_upstream = written\<rparr>)
           else
             (case co_copy out of
                None \<Rightarrow> (Ok (), \<lparr>to_client = co_upstream_sends out, to_upstream = written @ rest\<rparr>)
              | Some (down, up) \<Rightarrow>
                  (Err Transport, \<lparr>to_client = take down (co_upstream_sends out), to_upstream = written @ take up rest\<rparr>))))"

definition serve_cover_connection ::
  "cover_outcome \<Rightarrow> CoverServiceConfig \<Rightarrow> string \<Rightarrow> (CoverServiceError, unit) result \<times> cover_traffic" where
  "serve_cover_connection out config input =
     (if CoverServiceConfig_validate config \<noteq> Ok () then (Err InvalidConfig, \<lparr>to_client = [], to_upstream = []\<rparr>)
      else if co_late out then (Err RequestTimedOut, \<lparr>to_client = [], to_upstream = []\<rparr>)
      else
        (case read_request_head [] input of
           (Inl e, _) \<Rightarrow> (Err e, \<lparr>to_client = [], to_upstream = []\<rparr>)
         | (Inr head, rest) \<Rightarrow>
             (case cover_mode config of
                Static service \<Rightarrow> serve_static out service head
              | ReverseProxy _ \<Rightarrow> serve_upstream out head rest)))"

section \<open>Traffic profiles\<close>

record TrafficProfile =
  profile_schema_version :: u16
  profile_identifier :: string
  digest :: bytes
  expires_at :: nat
  write_size_classes :: "u16 list"

datatype ProfileError =
    ProfileUnsupportedSchema
  | InvalidProfile
  | Expired
  | AuthenticationRejected
  | InvalidRotation

fun increasing :: "u16 list \<Rightarrow> bool" where
  "increasing (a # b # xs) = (a < b \<and> increasing (b # xs))"
| "increasing _ = True"

definition TrafficProfile_validate :: "TrafficProfile \<Rightarrow> nat \<Rightarrow> (ProfileError, unit) result" where
  "TrafficProfile_validate self now =
     (if profile_schema_version self \<noteq> 1 then Err ProfileUnsupportedSchema
      else if profile_identifier self = [] \<or> length (profile_identifier self) > 64 \<or> write_size_classes self = []
      then Err InvalidProfile
      else if \<not> increasing (write_size_classes self) then Err InvalidProfile
      else if expires_at self \<le> now then Err Expired
      else Ok ())"

record ProfileUpdate =
  profile :: TrafficProfile
  proof_bytes :: bytes

record ProfileStore =
  active :: TrafficProfile

definition ProfileStore_new :: "TrafficProfile \<Rightarrow> nat \<Rightarrow> (ProfileError, ProfileStore) result" where
  "ProfileStore_new p now = and_then (TrafficProfile_validate p now) (\<lambda>_. Ok \<lparr>active = p\<rparr>)"

definition ProfileStore_rotate ::
  "(ProfileUpdate \<Rightarrow> bool) \<Rightarrow> ProfileUpdate \<Rightarrow> nat \<Rightarrow> ProfileStore
   \<Rightarrow> (ProfileError, unit) result \<times> ProfileStore" where
  "ProfileStore_rotate verify update now self =
     (if \<not> verify update then (Err AuthenticationRejected, self)
      else
        (case TrafficProfile_validate (profile update) now of
           Inl e \<Rightarrow> (Err e, self)
         | Inr _ \<Rightarrow>
             if profile_identifier (profile update) = profile_identifier (active self)
                \<or> expires_at (profile update) \<le> expires_at (active self)
             then (Err InvalidRotation, self)
             else (Ok (), self\<lparr>active := profile update\<rparr>)))"

record ForestRuntime =
  profiles :: ProfileStore
  traffic_enabled :: bool

definition ForestRuntime_new :: "ProfileStore \<Rightarrow> ForestRuntime" where
  "ForestRuntime_new ps = \<lparr>profiles = ps, traffic_enabled = True\<rparr>"

definition ForestRuntime_disable_after_failure :: "ForestRuntime \<Rightarrow> ForestRuntime" where
  "ForestRuntime_disable_after_failure self = self\<lparr>traffic_enabled := False\<rparr>"

definition ForestRuntime_enable :: "ForestRuntime \<Rightarrow> ForestRuntime" where
  "ForestRuntime_enable self = self\<lparr>traffic_enabled := True\<rparr>"

definition ForestRuntime_active_profile :: "ForestRuntime \<Rightarrow> nat \<Rightarrow> TrafficProfile option" where
  "ForestRuntime_active_profile self now =
     (if traffic_enabled self \<and> expires_at (active (profiles self)) > now
      then Some (active (profiles self)) else None)"

text \<open>The calls on a runtime; a rotation goes through \<^verbatim>\<open>profiles_mut\<close>.\<close>

datatype forest_op = Rotate ProfileUpdate nat | DisableAfterFailure | Enable

definition forest_step ::
  "(ProfileUpdate \<Rightarrow> bool) \<Rightarrow> forest_op \<Rightarrow> ForestRuntime \<Rightarrow> ((ProfileError, unit) result \<times> ForestRuntime) option" where
  "forest_step verify op s =
     Some (case op of
        Rotate update now \<Rightarrow>
          (case ProfileStore_rotate verify update now (profiles s) of (r, ps) \<Rightarrow> (r, s\<lparr>profiles := ps\<rparr>))
      | DisableAfterFailure \<Rightarrow> (Ok (), ForestRuntime_disable_after_failure s)
      | Enable \<Rightarrow> (Ok (), ForestRuntime_enable s))"

section \<open>Specification\<close>

text \<open>A head that ends at the first empty line.\<close>

definition first_head :: "string \<Rightarrow> string \<Rightarrow> bool" where
  "first_head done_bytes head =
     (suffix (CRLF @ CRLF) head \<and> (\<forall>n. length done_bytes < n \<longrightarrow> n < length head \<longrightarrow> \<not> suffix (CRLF @ CRLF) (take n head)))"

text \<open>The profiles a run made active, in order.\<close>

definition rotated :: "(forest_op \<times> (ProfileError, unit) result) list \<Rightarrow> ProfileUpdate list" where
  "rotated log = List.map_filter (\<lambda>(op, r). case op of Rotate u _ \<Rightarrow> if r = Ok () then Some u else None | _ \<Rightarrow> None) log"

text \<open>The last switch of a run, if any.\<close>

definition switched :: "(forest_op \<times> (ProfileError, unit) result) list \<Rightarrow> bool" where
  "switched log = (case filter (\<lambda>(op, _). op = DisableAfterFailure \<or> op = Enable) (rev log) of
     [] \<Rightarrow> True | (op, _) # _ \<Rightarrow> op = Enable)"

definition valid_profile :: "TrafficProfile \<Rightarrow> bool" where
  "valid_profile p =
     (profile_schema_version p = 1 \<and> profile_identifier p \<noteq> [] \<and> length (profile_identifier p) \<le> 64
      \<and> write_size_classes p \<noteq> [] \<and> sorted_wrt (<) (write_size_classes p))"

definition rotation_history ::
  "(ProfileUpdate \<Rightarrow> bool) \<Rightarrow> TrafficProfile
   \<Rightarrow> (forest_op \<times> (ProfileError, unit) result) list \<Rightarrow> ForestRuntime \<Rightarrow> bool" where
  "rotation_history verify initial log s =
     (active (profiles s) = last (initial # map profile (rotated log))
      \<and> sorted_wrt (<) (map expires_at (initial # map profile (rotated log)))
      \<and> (\<forall>u \<in> set (rotated log). verify u \<and> valid_profile (profile u))
      \<and> traffic_enabled s = switched log)"

definition sample_profile :: "char \<Rightarrow> nat \<Rightarrow> TrafficProfile" where
  "sample_profile c expiry = \<lparr>profile_schema_version = 1, profile_identifier = [c], digest = replicate 32 7, expires_at = expiry,
     write_size_classes = [256, 512]\<rparr>"

definition sample_service :: StaticService where
  "sample_service = \<lparr>assets = [(''/'', \<lparr>content_type = ''text/plain'', asset_body = ''hi''\<rparr>)]\<rparr>"

definition sample_cover :: CoverServiceConfig where
  "sample_cover = \<lparr>cover_schema_version = 1, cover_mode = Static sample_service, request_head_timeout = 1, upstream_timeout = 1\<rparr>"

definition all_well :: cover_outcome where
  "all_well = \<lparr>co_late = False, co_head_write = None, co_body_write = None, co_connect = True, co_upstream_write = None,
     co_upstream_sends = [], co_copy = None\<rparr>"

section \<open>Heads\<close>

lemma suffix_four: "suffix (CRLF @ CRLF) s \<Longrightarrow> 4 \<le> length s"
  by (drule suffix_length_le) (simp add: CRLF_def)

lemma first_head_now:
  assumes "first_head h head" "length h < length head" "head = h @ b # t" "suffix (CRLF @ CRLF) (h @ [b])"
  shows "t = []"
proof (rule ccontr)
  assume "t \<noteq> []"
  then have "Suc (length h) < length head"
    using assms(3) by (cases t) auto
  moreover have "take (Suc (length h)) head = h @ [b]"
    using assms(3) by simp
  ultimately show False
    using assms(1,4) by (auto simp: first_head_def)
qed

lemma first_head_later:
  assumes "head = h @ b # t" "t \<noteq> []" "\<not> suffix (CRLF @ CRLF) (h @ [b])"
  shows "first_head h head \<longleftrightarrow> first_head (h @ [b]) head"
proof -
  have "\<not> suffix (CRLF @ CRLF) (take (Suc (length h)) head)"
    using assms by simp
  then have "(\<forall>n. length h < n \<longrightarrow> n < length head \<longrightarrow> \<not> suffix (CRLF @ CRLF) (take n head)) \<longleftrightarrow>
      (\<forall>n. length (h @ [b]) < n \<longrightarrow> n < length head \<longrightarrow> \<not> suffix (CRLF @ CRLF) (take n head))"
    by (metis Suc_lessI length_append_singleton less_Suc_eq not_less_eq)
  then show ?thesis
    unfolding first_head_def by blast
qed

lemma head_split:
  assumes "h @ b # input = head @ rest" "length h < length head"
  obtains t where "head = h @ b # t"
proof -
  obtain u where u: "head = h @ u"
    using assms by (auto simp: append_eq_append_conv2)
  then obtain c t where "u = c # t"
    using assms(2) by (cases u) auto
  then show thesis
    using that [of t] assms(1) u by simp
qed

lemma first_head_shift:
  assumes "\<not> suffix (CRLF @ CRLF) (h @ [b])"
  shows "h @ b # input = head @ rest \<and> length h < length head \<and> first_head h head \<longleftrightarrow>
    (h @ [b]) @ input = head @ rest \<and> length (h @ [b]) < length head \<and> first_head (h @ [b]) head"
    (is "?L \<longleftrightarrow> ?R")
proof (cases "\<exists>t. head = h @ b # t \<and> t \<noteq> []")
  case True
  then show ?thesis
    using first_head_later [OF _ _ assms] by auto
next
  case nope: False
  have "\<not> ?R"
  proof
    assume r: ?R
    then have "h @ b # input = head @ rest" "length h < length head"
      by simp_all
    then obtain t where "head = h @ b # t"
      by (rule head_split)
    then show False
      using nope r by auto
  qed
  moreover have "\<not> ?L"
  proof
    assume l: ?L
    then have "h @ b # input = head @ rest" "length h < length head"
      by simp_all
    then obtain t where t: "head = h @ b # t"
      by (rule head_split)
    with nope have "head = h @ [b]"
      by simp
    then show False
      using l assms by (simp add: first_head_def)
  qed
  ultimately show ?thesis
    by blast
qed

lemma read_request_head_iff:
  "read_request_head h input = (Ok head, rest) \<longleftrightarrow>
     h @ input = head @ rest \<and> length h < length head \<and> length head \<le> MAX_REQUEST_HEAD_BYTES \<and> first_head h head"
proof (induction input arbitrary: h)
  case Nil
  have "\<not> (h = head @ rest \<and> length h < length head)"
    by auto
  then show ?case
    by auto
next
  case (Cons b input)
  show ?case
  proof (cases "length h < MAX_REQUEST_HEAD_BYTES")
    case False
    then show ?thesis
      by auto
  next
    case room: True
    show ?thesis
    proof (cases "suffix (CRLF @ CRLF) (h @ [b])")
      case True
      have "first_head h (h @ [b])"
        using True by (auto simp: first_head_def)
      moreover have "head = h @ [b] \<and> input = rest"
        if all: "h @ b # input = head @ rest" and longer: "length h < length head" and first: "first_head h head"
      proof -
        obtain t where t: "head = h @ b # t"
          using all longer by (rule head_split)
        then have "t = []"
          using first_head_now [OF first longer t True] by simp
        then show ?thesis
          using t all by simp
      qed
      ultimately show ?thesis
        using room True by (auto simp: Let_def)
    next
      case False
      note first_head_shift [OF False, of input head rest]
      moreover have "read_request_head h (b # input) = read_request_head (h @ [b]) input"
        using room False by (simp only: read_request_head.simps Let_def if_True if_False)
      with Cons.IH [of "h @ [b]"] have "read_request_head h (b # input) = (Ok head, rest) \<longleftrightarrow>
          (h @ [b]) @ input = head @ rest \<and> length (h @ [b]) < length head \<and> length head \<le> MAX_REQUEST_HEAD_BYTES
          \<and> first_head (h @ [b]) head"
        by (simp only:)
      ultimately show ?thesis
        by argo
    qed
  qed
qed

section \<open>Responses\<close>

lemma is_ascii_control_line: "is_ascii_control CR" "is_ascii_control LF"
  by (simp_all add: is_ascii_control_def)

lemma content_type_line: "valid_content_type t \<Longrightarrow> no_line_byte t"
  using is_ascii_control_line by (auto simp: valid_content_type_def no_line_byte_def list_ex_iff list_all_iff)

lemma decimal_line: "no_line_byte (decimal_string n)"
  using decimal_string_digits [of n] by (auto simp: no_line_byte_def list_all_iff is_ascii_digit_def)

lemma response_head_lines:
  assumes "no_line_byte status" "valid_content_type (content_type asset)"
  shows "split_crlf (response_head status asset) =
    [''HTTP/1.1 '' @ status, ''Content-Type: '' @ content_type asset,
     ''Content-Length: '' @ decimal_string (length (asset_body asset)), ''Connection: close'', [], []]"
proof -
  have line: "split_crlf (l @ CRLF @ rest) = l # split_crlf rest" if "no_line_byte l" for l rest
    by (rule split_crlf_line [OF no_line_byte_crlf_free [OF that]])
  have free: "no_line_byte (''HTTP/1.1 '' @ status)" "no_line_byte (''Content-Type: '' @ content_type asset)"
    "no_line_byte (''Content-Length: '' @ decimal_string (length (asset_body asset)))" "no_line_byte ''Connection: close''"
    "no_line_byte []"
    using assms(1) content_type_line [OF assms(2)] decimal_line by simp_all
  have "response_head status asset = (''HTTP/1.1 '' @ status) @ CRLF @ (''Content-Type: '' @ content_type asset) @ CRLF
      @ (''Content-Length: '' @ decimal_string (length (asset_body asset))) @ CRLF @ ''Connection: close'' @ CRLF @ [] @ CRLF @ []"
    by (simp add: response_head_def)
  then show ?thesis
    by (simp only: line [OF free(1)] line [OF free(2)] line [OF free(3)] line [OF free(4)] line [OF free(5)]) simp
qed

lemma found_asset:
  assumes "StaticService_validate service = Ok ()" "find_asset service path = (status, asset)"
  shows "no_line_byte status" "valid_content_type (content_type asset)"
proof -
  have valid: "valid_content_type (content_type a)" if "bt_get (assets service) path = Some a" for a
    using bt_get_SomeD [OF that] assms(1)
    by (force simp: StaticService_validate_def bt_values_def list_ex_iff split: if_splits)
  show "no_line_byte status" "valid_content_type (content_type asset)"
    using assms(2) valid
    by (auto simp: find_asset_def missing_asset_def valid_content_type_def is_ascii_control_def split: option.splits)
qed

section \<open>Rotation\<close>

lemma increasing_sorted: "increasing xs \<longleftrightarrow> sorted_wrt (<) xs"
  by (induction xs rule: increasing.induct) (auto intro: order.strict_trans)

lemma validated_profile: "TrafficProfile_validate p now = Ok u \<Longrightarrow> valid_profile p \<and> now < expires_at p"
  by (auto simp: TrafficProfile_validate_def valid_profile_def increasing_sorted split: if_splits)

lemma rotate_cases:
  assumes "ProfileStore_rotate verify u now ps = (r, ps')"
  obtains (refused) e where "r = Err e" "ps' = ps"
  | (accepted) "r = Ok ()" "ps' = ps\<lparr>active := profile u\<rparr>" "verify u" "valid_profile (profile u)"
      "expires_at (active ps) < expires_at (profile u)"
proof -
  have "(\<exists>e. r = Err e \<and> ps' = ps) \<or> (r = Ok () \<and> ps' = ps\<lparr>active := profile u\<rparr> \<and> verify u \<and> valid_profile (profile u)
      \<and> expires_at (active ps) < expires_at (profile u))"
  proof (cases "TrafficProfile_validate (profile u) now")
    case (Inl e)
    then have "(r, ps') = (Err (if verify u then e else AuthenticationRejected), ps)"
      using assms by (simp add: ProfileStore_rotate_def split: if_splits)
    then show ?thesis
      by blast
  next
    case (Inr x)
    from validated_profile [OF this] show ?thesis
      using assms Inr by (auto simp: ProfileStore_rotate_def not_le split: if_splits)
  qed
  then show thesis
    using refused accepted by blast
qed

lemma rotated_snoc:
  "rotated (log @ [(op, r)]) = rotated log @ (case op of Rotate u _ \<Rightarrow> if r = Ok () then [u] else [] | _ \<Rightarrow> [])"
  by (simp add: rotated_def List.map_filter_def split: forest_op.split)

lemma switched_snoc:
  "switched (log @ [(op, r)]) = (case op of Rotate _ _ \<Rightarrow> switched log | DisableAfterFailure \<Rightarrow> False | Enable \<Rightarrow> True)"
  by (simp add: switched_def split: forest_op.split)

lemma sorted_snoc:
  assumes "sorted_wrt (<) xs" "xs \<noteq> []" "last xs < (x :: nat)"
  shows "sorted_wrt (<) (xs @ [x])"
proof -
  have "y \<le> last xs" if "y \<in> set xs" for y
    using assms(1,2) that by (induction xs) (auto intro: less_imp_le)
  then show ?thesis
    using assms(1,3) by (fastforce simp: sorted_wrt_append)
qed

lemma rotation_step:
  assumes "rotation_history verify initial log s" "forest_step verify op s = Some (r, s')"
  shows "rotation_history verify initial (log @ [(op, r)]) s'"
proof (cases op)
  case (Rotate u now)
  then obtain ps where rot: "ProfileStore_rotate verify u now (profiles s) = (r, ps)" and s': "s' = s\<lparr>profiles := ps\<rparr>"
    using assms(2) by (auto simp: forest_step_def split: prod.splits)
  from rot show ?thesis
  proof (cases rule: rotate_cases)
    case (refused e)
    then show ?thesis
      using assms(1) Rotate s' by (simp add: rotation_history_def rotated_snoc switched_snoc)
  next
    case accepted
    let ?xs = "map expires_at (initial # map profile (rotated log))"
    have "last ?xs = expires_at (active (profiles s))"
      using assms(1) by (simp only: rotation_history_def last_map list.distinct not_False_eq_True)
    then have "sorted_wrt (<) (?xs @ [expires_at (profile u)])"
      using assms(1) accepted(5) by (intro sorted_snoc) (simp_all only: rotation_history_def map_is_Nil_conv list.distinct not_False_eq_True)
    then show ?thesis
      using assms(1) accepted Rotate s' unfolding rotation_history_def rotated_snoc switched_snoc by simp
  qed
qed (use assms in \<open>auto simp: rotation_history_def forest_step_def rotated_snoc switched_snoc
    ForestRuntime_disable_after_failure_def ForestRuntime_enable_def\<close>)

interpretation forest_runs: invariant_system "forest_step verify" "\<lambda>_. True" for verify
  by unfold_locales

interpretation forest_history: history_system "forest_step verify" "\<lambda>_. True" "rotation_history verify initial"
  for verify initial
  by unfold_locales (rule rotation_step)

section \<open>Properties\<close>

text \<open>
  C40. The static cover service answers a complete request head of at most 16 KiB, and nothing is read
  past its first empty line: a GET or HEAD request gets exactly one response whose head consists of
  the four lines of the code and nothing else, with the content type of the asset and the length
  of its body, and whose status is 200 precisely when the path is configured; the body follows
  for every method but HEAD; other requests get no bytes at all. Nothing is sent upstream.
\<close>

theorem cover_response_exact:
  assumes "CoverServiceConfig_validate config = Ok ()" "cover_mode config = Static service"
    and "input = head @ rest" "length head \<le> MAX_REQUEST_HEAD_BYTES" "suffix (CRLF @ CRLF) head"
    and "\<forall>n. n < length head \<longrightarrow> \<not> suffix (CRLF @ CRLF) (take n head)"
    and "\<not> co_late out" "co_head_write out = None" "co_body_write out = None"
  shows "read_request_head [] input = (Ok head, rest)
    \<and> (request_path head = None \<longrightarrow> serve_cover_connection out config input =
          (Err MalformedRequest, \<lparr>to_client = [], to_upstream = []\<rparr>))
    \<and> (\<forall>path. request_path head = Some path \<longrightarrow>
         (\<exists>status asset lines. serve_cover_connection out config input =
             (Ok (), \<lparr>to_client = lines @ (if request_method head = Some ''HEAD'' then [] else asset_body asset),
                      to_upstream = []\<rparr>)
           \<and> split_crlf lines = [''HTTP/1.1 '' @ status, ''Content-Type: '' @ content_type asset,
                ''Content-Length: '' @ decimal_string (length (asset_body asset)), ''Connection: close'', [], []]
           \<and> (if path \<in> set (bt_keys (assets service))
              then status = ''200 OK'' \<and> bt_get (assets service) path = Some asset
              else status = ''404 Not Found'' \<and> asset = missing_asset)))"
proof -
  have "first_head [] head"
    using assms(5,6) by (simp add: first_head_def)
  then have read: "read_request_head [] input = (Ok head, rest)"
    using assms(3,4) suffix_four [OF assms(5)] by (auto simp: read_request_head_iff)
  have service: "StaticService_validate service = Ok ()"
    using assms(1,2) by (auto simp: CoverServiceConfig_validate_def CoverServiceMode_validate_def split: if_splits)
  have serve: "serve_cover_connection out config input = serve_static out service head"
    using assms(1,2,7) read by (simp add: serve_cover_connection_def)
  show ?thesis
  proof (intro conjI allI impI)
    show "serve_cover_connection out config input = (Err MalformedRequest, \<lparr>to_client = [], to_upstream = []\<rparr>)"
      if "request_path head = None"
      using that by (simp add: serve serve_static_def)
  next
    fix path assume path: "request_path head = Some path"
    obtain status asset where found: "find_asset service path = (status, asset)"
      by fastforce
    have "serve_static out service head = (Ok (), \<lparr>to_client = response_head status asset
        @ (if request_method head = Some ''HEAD'' then [] else asset_body asset), to_upstream = []\<rparr>)"
      using path found assms(8,9) by (simp add: serve_static_def write_all_def)
    moreover have "if path \<in> set (bt_keys (assets service))
        then status = ''200 OK'' \<and> bt_get (assets service) path = Some asset
        else status = ''404 Not Found'' \<and> asset = missing_asset"
      using found bt_get_None_iff [of "assets service" path]
      by (auto simp: find_asset_def bt_keys_def split: option.splits)
    ultimately show "\<exists>status asset lines. serve_cover_connection out config input =
             (Ok (), \<lparr>to_client = lines @ (if request_method head = Some ''HEAD'' then [] else asset_body asset),
                      to_upstream = []\<rparr>)
           \<and> split_crlf lines = [''HTTP/1.1 '' @ status, ''Content-Type: '' @ content_type asset,
                ''Content-Length: '' @ decimal_string (length (asset_body asset)), ''Connection: close'', [], []]
           \<and> (if path \<in> set (bt_keys (assets service))
              then status = ''200 OK'' \<and> bt_get (assets service) path = Some asset
              else status = ''404 Not Found'' \<and> asset = missing_asset)"
      using response_head_lines [OF found_asset [OF service found]] serve by metis
  qed (rule read)
qed

theorem cover_response_exact_witness:
  "\<exists>lines. serve_cover_connection all_well sample_cover (''GET / HTTP/1.1'' @ CRLF @ CRLF @ ''more'') =
       (Ok (), \<lparr>to_client = lines @ ''hi'', to_upstream = []\<rparr>) \<and> hd (split_crlf lines) = ''HTTP/1.1 200 OK''"
proof -
  let ?head = "''GET / HTTP/1.1'' @ CRLF @ CRLF"
  have valid: "CoverServiceConfig_validate sample_cover = Ok ()" and mode: "cover_mode sample_cover = Static sample_service"
    by (simp_all add: CoverServiceConfig_validate_def sample_cover_def CoverServiceMode_validate_def StaticService_validate_def
        sample_service_def bt_keys_def bt_values_def valid_path_def valid_content_type_def is_ascii_control_def sublist_Cons_right)
  have early: "\<forall>n. n < length ?head \<longrightarrow> \<not> suffix (CRLF @ CRLF) (take n ?head)"
    by code_simp
  have "utf8_valid ?head"
    by (simp add: CRLF_def byte_in_def)
  then have parsed: "request_path ?head = Some ''/''" "request_method ?head = Some ''GET''"
    using split_crlf_line [of "''GET / HTTP/1.1''" CRLF]
    by (simp_all add: request_path_def request_method_def CRLF_def split_ascii_whitespace_def is_ascii_whitespace_def)
  show ?thesis
    using cover_response_exact [OF valid mode refl _ _ early, of all_well "''more''"] parsed
    by (auto simp: all_well_def MAX_REQUEST_HEAD_BYTES_def suffix_def sample_service_def bt_keys_def CRLF_def)
qed

text \<open>
  C39. Rotation of traffic profiles is authenticated and only moves forward. Over every sequence of
  rotations and switches the active profile is the last one that was accepted; the expiries of the
  profiles that were active are strictly increasing; every accepted update was verified and has the
  supported schema, a bounded identifier and strictly increasing size classes; and a profile is
  used at a time exactly when the last switch enabled traffic and it has not expired.
\<close>

theorem profile_rotation_forward:
  assumes "ProfileStore_new initial start = Ok ps" "run (forest_step verify) (ForestRuntime_new ps) log s"
  shows "let accepted = initial # map profile (rotated log) in
    sorted_wrt (<) (map expires_at accepted)
    \<and> (\<forall>u \<in> set (rotated log). verify u) \<and> (\<forall>p \<in> set accepted. valid_profile p)
    \<and> (\<forall>now. ForestRuntime_active_profile s now =
         (if switched log \<and> now < expires_at (last accepted) then Some (last accepted) else None))"
proof -
  have ps: "ps = \<lparr>active = initial\<rparr>" and initial: "valid_profile initial"
    using assms(1) validated_profile by (auto simp: ProfileStore_new_def and_then_def split: sum.splits)
  have "rotation_history verify initial [] (ForestRuntime_new ps)"
    by (simp add: rotation_history_def ForestRuntime_new_def ps rotated_def List.map_filter_def switched_def)
  then have "rotation_history verify initial log s"
    by (intro forest_history.run_hist [OF assms(2)]) simp_all
  then show ?thesis
    using initial unfolding rotation_history_def Let_def ForestRuntime_active_profile_def by simp
qed

theorem profile_rotation_forward_witness:
  "\<exists>log s. run (forest_step (\<lambda>u. proof_bytes u = [1])) (ForestRuntime_new \<lparr>active = sample_profile CHR ''a'' 100\<rparr>) log s
     \<and> map profile (rotated log) = [sample_profile CHR ''b'' 200]
     \<and> ForestRuntime_active_profile s 150 = Some (sample_profile CHR ''b'' 200)"
proof -
  define ps where "ps = \<lparr>active = sample_profile CHR ''a'' 100\<rparr>"
  let ?verify = "\<lambda>u. proof_bytes u = [1]"
  have new: "ProfileStore_new (sample_profile CHR ''a'' 100) 1 = Ok ps"
    by (simp add: ProfileStore_new_def TrafficProfile_validate_def sample_profile_def and_then_def ps_def)
  obtain log s where e: "execute (forest_step ?verify) (ForestRuntime_new ps)
      [Rotate \<lparr>profile = sample_profile CHR ''b'' 200, proof_bytes = [1]\<rparr> 2, DisableAfterFailure,
       Rotate \<lparr>profile = sample_profile CHR ''c'' 150, proof_bytes = [1]\<rparr> 3, Enable] = Some (log, s)"
    and log: "map profile (rotated log) = [sample_profile CHR ''b'' 200]" "switched log"
    by (simp add: forest_step_def ProfileStore_rotate_def TrafficProfile_validate_def sample_profile_def ps_def
        ForestRuntime_new_def ForestRuntime_disable_after_failure_def ForestRuntime_enable_def rotated_def List.map_filter_def
        switched_def)
  note r = execute_run [OF e]
  have "ForestRuntime_active_profile s 150 = Some (sample_profile CHR ''b'' 200)"
    using profile_rotation_forward [OF new r] log by (simp add: Let_def sample_profile_def)
  then show ?thesis
    by (intro exI [of _ log] exI [of _ s] conjI r [unfolded ps_def] log(1))
qed

end
