(* ===== verification/Client_Profile.thy ===== *)
theory Client_Profile
  imports Client_Routing Rust_Text
begin

text \<open>
  \<^verbatim>\<open>crates/velum-client-profile/src/lib.rs\<close>: profiles of a client. A profile is validated and its node
  references (identifiers or aliases) are replaced by identifiers; its rules compile to a routing
  policy. YAML is read and written by the \<^verbatim>\<open>serde_yaml_ng\<close> crate, a pair of functions here.
  A method that changes a profile in place works on a copy which its callers drop on an error, so
  it returns the changed profile.
\<close>

section \<open>Errors\<close>

datatype ProfileErrorKind = Syntax | UnsupportedVersion | Limit | Validation

record ProfileError =
  error_kind :: ProfileErrorKind
  error_message :: string

definition ProfileError_new :: "ProfileErrorKind \<Rightarrow> string \<Rightarrow> ProfileError" where
  "ProfileError_new k m = \<lparr>error_kind = k, error_message = m\<rparr>"

definition ProfileError_validation :: "string \<Rightarrow> ProfileError" where
  "ProfileError_validation m = ProfileError_new Validation m"

definition ProfileError_routing :: "RoutingError \<Rightarrow> ProfileError" where
  "ProfileError_routing e = ProfileError_validation (message e)"

section \<open>Data\<close>

abbreviation PROFILE_VERSION :: u16 where "PROFILE_VERSION \<equiv> 1"
definition MAX_PROFILE_BYTES :: nat where "MAX_PROFILE_BYTES = 1024 * 1024"
definition MAX_NODES :: nat where "MAX_NODES = 128"
definition MAX_RULES :: nat where "MAX_RULES = 10000"

datatype SecretRef = SecretRef (secret_ref_str: string)

definition secret_byte :: "char \<Rightarrow> bool" where
  "secret_byte c = (is_ascii_alphanumeric c \<or> c \<in> {CHR ''-'', CHR ''_'', CHR ''.''})"

definition SecretRef_parse :: "string \<Rightarrow> (ProfileError, SecretRef) result" where
  "SecretRef_parse v =
     and_then (ok_or (strip_prefix ''secret://velum/'' v)
        (ProfileError_validation ''secret reference must use secret://velum/ namespace''))
     (\<lambda>path.
        if path = [] \<or> length v > 512
           \<or> list_ex (\<lambda>segment. segment = [] \<or> segment = ''.'' \<or> segment = ''..'' \<or> \<not> list_all secret_byte segment)
               (split_char CHR ''/'' path)
        then Err (ProfileError_validation ''secret reference is invalid'')
        else Ok (SecretRef v))"

datatype TrustConfig = System | CustomCa SecretRef

fun TrustConfig_ca_ref :: "TrustConfig \<Rightarrow> SecretRef option" where
  "TrustConfig_ca_ref System = None"
| "TrustConfig_ca_ref (CustomCa r) = Some r"

record ProfileMetadata =
  profile_id :: string
  profile_name :: string
  default_node :: string

record NodeConfig =
  node_id :: string
  node_alias :: "string option"
  relay_address :: SockAddr
  server_name :: string
  node_credential_ref :: SecretRef
  node_trust :: TrustConfig

datatype PreferredAdapter = SystemProxy | Tun

record SystemProxyConfig =
  proxy_port :: u16
  proxy_bypass :: "string list"

record InterfaceAddress =
  interface_address :: Ip
  interface_prefix_length :: u8

fun is_ipv4 :: "Ip \<Rightarrow> bool" where
  "is_ipv4 (V4 _) = True"
| "is_ipv4 (V6 _) = False"

definition InterfaceAddress_new :: "Ip \<Rightarrow> u8 \<Rightarrow> (ProfileError, InterfaceAddress) result" where
  "InterfaceAddress_new address prefix_len =
     (let valid = (case address of V4 _ \<Rightarrow> prefix_len \<le> 32 | V6 _ \<Rightarrow> prefix_len \<le> 128) in
      if \<not> valid then Err (ProfileError_validation ''interface prefix length is out of range'')
      else Ok \<lparr>interface_address = address, interface_prefix_length = prefix_len\<rparr>)"

definition InterfaceAddress_from_str :: "string \<Rightarrow> (ProfileError, InterfaceAddress) result" where
  "InterfaceAddress_from_str source =
     and_then (ok_or (split_once CHR ''/'' (trim source)) (ProfileError_validation ''interface address requires a prefix''))
     (\<lambda>(address, prefix_len).
        and_then (ok_or (Ip_parse address) (ProfileError_validation ''interface address is invalid'')) (\<lambda>address.
        and_then (ok_or (parse_u8 prefix_len) (ProfileError_validation ''interface prefix is invalid'')) (\<lambda>prefix_len.
          InterfaceAddress_new address prefix_len)))"

record TunConfig =
  tun_mtu :: u16
  tun_ipv4 :: InterfaceAddress
  tun_ipv6 :: InterfaceAddress
  tun_dns :: "Ip list"

record TrafficConfig =
  preferred_adapter :: PreferredAdapter
  system_proxy :: SystemProxyConfig
  tun :: TunConfig

datatype RoutingMode = Rule

datatype MatchConfig =
    MatchDomain string
  | MatchDomainSuffix string
  | MatchIpCidr string
  | MatchDstPort string
  | MatchAll

datatype ActionConfig = ActionDirect | ActionReject | ActionProxy | ActionNode string

record RuleConfig =
  rule_matcher :: MatchConfig
  rule_action :: ActionConfig

record RoutingConfig =
  routing_mode :: RoutingMode
  routing_rules :: "RuleConfig list"

record ClientProfile =
  profile_version :: u16
  profile_metadata :: ProfileMetadata
  nodes :: "NodeConfig list"
  traffic :: TrafficConfig
  routing :: RoutingConfig

section \<open>Rules\<close>

definition MatchConfig_compile :: "MatchConfig \<Rightarrow> (ProfileError, RuleMatcher) result" where
  "MatchConfig_compile m =
     (case m of
        MatchDomain v \<Rightarrow> map_err ProfileError_routing (RuleMatcher_domain v)
      | MatchDomainSuffix v \<Rightarrow> map_err ProfileError_routing (RuleMatcher_domain_suffix v)
      | MatchIpCidr v \<Rightarrow> and_then (map_err ProfileError_routing (IpCidr_from_str v)) (\<lambda>c. Ok (IpCidrMatcher c))
      | MatchDstPort v \<Rightarrow> and_then (map_err ProfileError_routing (PortRange_from_str v)) (\<lambda>r. Ok (DestinationPort r))
      | MatchAll \<Rightarrow> Ok Match)"

fun ActionConfig_compile :: "ActionConfig \<Rightarrow> RoutingAction" where
  "ActionConfig_compile ActionDirect = Direct"
| "ActionConfig_compile ActionReject = Reject"
| "ActionConfig_compile ActionProxy = Proxy"
| "ActionConfig_compile (ActionNode target) = Node target"

definition RuleConfig_compile :: "RuleConfig \<Rightarrow> (ProfileError, RoutingRule) result" where
  "RuleConfig_compile self =
     and_then (MatchConfig_compile (rule_matcher self)) (\<lambda>m.
       Ok \<lparr>matcher = m, action = ActionConfig_compile (rule_action self)\<rparr>)"

definition RuleConfig_validate :: "RuleConfig \<Rightarrow> (ProfileError, unit) result" where
  "RuleConfig_validate self = and_then (RuleConfig_compile self) (\<lambda>_. Ok ())"

section \<open>Validation\<close>

text \<open>The references are an association list; a key is never inserted twice without an error.\<close>

type_synonym references = "(string \<times> string) list"

definition insert_reference :: "references \<Rightarrow> string \<Rightarrow> string \<Rightarrow> (ProfileError, references) result" where
  "insert_reference references reference identity =
     (if map_of references reference \<noteq> None then Err (ProfileError_validation ''duplicate node id or alias'')
      else Ok ((reference, identity) # references))"

definition resolve_node :: "references \<Rightarrow> string \<Rightarrow> (ProfileError, string) result" where
  "resolve_node references reference =
     ok_or (map_of references reference) (ProfileError_validation ''node reference does not exist'')"

definition identifier_start :: "char \<Rightarrow> bool" where
  "identifier_start c = (is_ascii_lower c \<or> is_ascii_digit c)"

definition identifier_byte :: "nat \<Rightarrow> char \<Rightarrow> bool" where
  "identifier_byte index c = (identifier_start c \<or> (index > 0 \<and> c \<in> {CHR ''-'', CHR ''_''}))"

definition validate_identifier :: "string \<Rightarrow> string \<Rightarrow> (ProfileError, unit) result" where
  "validate_identifier v field =
     (if v = [] \<or> length v > 64 \<or> \<not> list_all (\<lambda>(i, c). identifier_byte i c) (enumerate 0 v)
      then Err (ProfileError_validation (field @ '' is invalid''))
      else Ok ())"

definition validate_server_name :: "string \<Rightarrow> (ProfileError, unit) result" where
  "validate_server_name v =
     (if Ip_parse v \<noteq> None then Ok ()
      else map_err (\<lambda>_. ProfileError_validation ''server name is invalid'') (and_then (RuleMatcher_domain v) (\<lambda>_. Ok ())))"

fun validate_nodes :: "NodeConfig list \<Rightarrow> string list \<Rightarrow> references \<Rightarrow> (ProfileError, references) result" where
  "validate_nodes [] ids references = Ok references"
| "validate_nodes (node # rest) ids references =
     and_then (validate_identifier (node_id node) ''node id'') (\<lambda>_.
       if node_id node \<in> set ids then Err (ProfileError_validation ''duplicate node id'')
       else
         and_then (insert_reference references (node_id node) (node_id node)) (\<lambda>references.
         and_then (case node_alias node of
             None \<Rightarrow> Ok references
           | Some nick \<Rightarrow>
               and_then (validate_identifier nick ''node alias'') (\<lambda>_.
                 insert_reference references nick (node_id node))) (\<lambda>references.
         and_then (validate_server_name (server_name node)) (\<lambda>_.
           validate_nodes rest (node_id node # ids) references))))"

definition normalize_action :: "references \<Rightarrow> ActionConfig \<Rightarrow> (ProfileError, ActionConfig) result" where
  "normalize_action references a =
     (case a of
        ActionNode target \<Rightarrow> and_then (resolve_node references target) (\<lambda>target. Ok (ActionNode target))
      | _ \<Rightarrow> Ok a)"

fun normalize_rules :: "references \<Rightarrow> RuleConfig list \<Rightarrow> (ProfileError, RuleConfig list) result" where
  "normalize_rules references [] = Ok []"
| "normalize_rules references (rule # rest) =
     and_then (RuleConfig_validate rule) (\<lambda>_.
     and_then (normalize_action references (rule_action rule)) (\<lambda>a.
     and_then (normalize_rules references rest) (\<lambda>rest.
       Ok (rule\<lparr>rule_action := a\<rparr> # rest))))"

definition match_misplaced :: "RuleConfig list \<Rightarrow> bool" where
  "match_misplaced rs =
     (case find (\<lambda>i. rule_matcher (rs ! i) = MatchAll) [0..<length rs] of
        Some i \<Rightarrow> i + 1 \<noteq> length rs
      | None \<Rightarrow> False)"

definition validate_traffic :: "TrafficConfig \<Rightarrow> (ProfileError, unit) result" where
  "validate_traffic t =
     (if \<not> (576 \<le> tun_mtu (tun t) \<and> tun_mtu (tun t) \<le> 9000)
      then Err (ProfileError_validation ''TUN MTU is out of range'')
      else if \<not> is_ipv4 (interface_address (tun_ipv4 (tun t))) \<or> is_ipv4 (interface_address (tun_ipv6 (tun t)))
      then Err (ProfileError_validation ''TUN ipv4 and ipv6 networks use the wrong address family'')
      else if tun_dns (tun t) = [] then Err (ProfileError_validation ''TUN DNS list must not be empty'')
      else Ok ())"

definition ClientProfile_validate_and_normalize :: "ClientProfile \<Rightarrow> (ProfileError, ClientProfile) result" where
  "ClientProfile_validate_and_normalize self =
     (if profile_version self \<noteq> PROFILE_VERSION
      then Err (ProfileError_new UnsupportedVersion ''unsupported profile version'')
      else
        and_then (validate_identifier (profile_id (profile_metadata self)) ''profile id'') (\<lambda>_.
          if trim (profile_name (profile_metadata self)) = [] \<or> length (profile_name (profile_metadata self)) > 128
          then Err (ProfileError_validation ''profile name is invalid'')
          else if nodes self = [] \<or> length (nodes self) > MAX_NODES
          then Err (ProfileError_new Limit ''profile must contain 1 to 128 nodes'')
          else if length (routing_rules (routing self)) > MAX_RULES
          then Err (ProfileError_new Limit ''profile exceeds 10000 routing rules'')
          else
            and_then (validate_nodes (nodes self) [] []) (\<lambda>references.
            and_then (resolve_node references (default_node (profile_metadata self))) (\<lambda>dn.
            and_then (normalize_rules references (routing_rules (routing self))) (\<lambda>rs.
              if match_misplaced rs then Err (ProfileError_validation ''MATCH must be the final routing rule'')
              else
                and_then (validate_traffic (traffic self)) (\<lambda>_.
                  Ok (self\<lparr>profile_metadata := (profile_metadata self)\<lparr>default_node := dn\<rparr>,
                           routing := (routing self)\<lparr>routing_rules := rs\<rparr>\<rparr>)))))))"

fun compile_rules :: "RuleConfig list \<Rightarrow> (ProfileError, RoutingRule list) result" where
  "compile_rules [] = Ok []"
| "compile_rules (rule # rest) =
     and_then (RuleConfig_compile rule) (\<lambda>r. and_then (compile_rules rest) (\<lambda>rs. Ok (r # rs)))"

definition ClientProfile_routing_policy :: "ClientProfile \<Rightarrow> (ProfileError, RoutingPolicy) result" where
  "ClientProfile_routing_policy self =
     and_then (ClientProfile_validate_and_normalize self) (\<lambda>normalized.
     and_then (compile_rules (routing_rules (routing normalized))) (\<lambda>rs.
       map_err ProfileError_routing (RoutingPolicy_new rs)))"

text \<open>YAML, as a reader that reports a message and a writer.\<close>

record yaml =
  yaml_read :: "string \<Rightarrow> string + ClientProfile"
  yaml_write :: "ClientProfile \<Rightarrow> string + string"

definition ClientProfile_from_yaml :: "yaml \<Rightarrow> string \<Rightarrow> (ProfileError, ClientProfile) result" where
  "ClientProfile_from_yaml y source =
     (if length source > MAX_PROFILE_BYTES then Err (ProfileError_new Limit ''profile exceeds 1 MiB'')
      else and_then (map_err (ProfileError_new Syntax) (yaml_read y source)) ClientProfile_validate_and_normalize)"

definition ClientProfile_to_canonical_yaml :: "yaml \<Rightarrow> ClientProfile \<Rightarrow> (ProfileError, string) result" where
  "ClientProfile_to_canonical_yaml y self =
     and_then (ClientProfile_validate_and_normalize self) (\<lambda>normalized.
       map_err (ProfileError_new Syntax) (yaml_write y normalized))"

section \<open>Specification\<close>

text \<open>The node names a profile declares: every identifier, and every alias for its node.\<close>

definition node_names :: "NodeConfig list \<Rightarrow> (string \<times> string) list" where
  "node_names ns = concat (map (\<lambda>n. (node_id n, node_id n) # (case node_alias n of None \<Rightarrow> [] | Some a \<Rightarrow> [(a, node_id n)])) ns)"

definition action_target :: "ActionConfig \<Rightarrow> string option" where
  "action_target a = (case a of ActionNode t \<Rightarrow> Some t | _ \<Rightarrow> None)"

text \<open>A rule and its normal form: the same matcher, and the identifier of the node it names.\<close>

definition rule_normalized :: "(string \<times> string) set \<Rightarrow> RuleConfig \<Rightarrow> RuleConfig \<Rightarrow> bool" where
  "rule_normalized names r r' =
     (rule_matcher r' = rule_matcher r
      \<and> (case rule_action r of
           ActionNode t \<Rightarrow> (\<exists>i. rule_action r' = ActionNode i \<and> (t, i) \<in> names)
         | a \<Rightarrow> rule_action r' = a))"

definition sample_node :: NodeConfig where
  "sample_node = \<lparr>node_id = ''n1'', node_alias = Some ''home'', relay_address = SockAddr_new (V4 0x01020304) 443,
     server_name = ''relay.example'', node_credential_ref = SecretRef ''secret://velum/a'', node_trust = System\<rparr>"

definition sample_client_profile :: ClientProfile where
  "sample_client_profile = \<lparr>profile_version = 1,
     profile_metadata = \<lparr>profile_id = ''p'', profile_name = ''P'', default_node = ''home''\<rparr>,
     nodes = [sample_node],
     traffic = \<lparr>preferred_adapter = Tun, system_proxy = \<lparr>proxy_port = 0, proxy_bypass = []\<rparr>,
       tun = \<lparr>tun_mtu = 1500, tun_ipv4 = \<lparr>interface_address = V4 1, interface_prefix_length = 24\<rparr>,
         tun_ipv6 = \<lparr>interface_address = V6 1, interface_prefix_length = 64\<rparr>, tun_dns = [V4 1]\<rparr>\<rparr>,
     routing = \<lparr>routing_mode = Rule, routing_rules =
       [\<lparr>rule_matcher = MatchDomainSuffix ''example.com'', rule_action = ActionNode ''home''\<rparr>,
        \<lparr>rule_matcher = MatchAll, rule_action = ActionDirect\<rparr>]\<rparr>\<rparr>"

section \<open>Node references\<close>

lemma insert_reference_Ok:
  "insert_reference refs r i = Ok refs' \<longleftrightarrow> r \<notin> fst ` set refs \<and> refs' = (r, i) # refs"
  by (auto simp: insert_reference_def map_of_eq_None_iff)

lemma validate_nodes_step:
  assumes "validate_nodes (n # ns) ids refs = Ok refs'" "distinct (map fst refs)"
  obtains refs1 where "validate_nodes ns (node_id n # ids) refs1 = Ok refs'"
    "set refs1 = set refs \<union> set (node_names [n])" "distinct (map fst refs1)"
proof -
  obtain refs0 where refs0: "insert_reference refs (node_id n) (node_id n) = Ok refs0"
    and rest: "and_then (case node_alias n of
             None \<Rightarrow> Ok refs0
           | Some nick \<Rightarrow>
               and_then (validate_identifier nick ''node alias'') (\<lambda>_.
                 insert_reference refs0 nick (node_id n))) (\<lambda>references.
         and_then (validate_server_name (server_name n)) (\<lambda>_.
           validate_nodes ns (node_id n # ids) references)) = Ok refs'"
    using assms(1) by (auto simp: and_then_Ok_iff split: if_splits)
  show thesis
  proof (cases "node_alias n")
    case None
    then show thesis
      using that [of refs0] refs0 rest assms(2)
      by (auto simp: and_then_Ok_iff insert_reference_Ok node_names_def)
  next
    case (Some nick)
    then obtain refs1 where "insert_reference refs0 nick (node_id n) = Ok refs1"
      "validate_nodes ns (node_id n # ids) refs1 = Ok refs'"
      using rest by (auto simp: and_then_Ok_iff)
    then show thesis
      using that [of refs1] refs0 Some assms(2) by (auto simp: insert_reference_Ok node_names_def)
  qed
qed

lemma validate_nodes_names:
  assumes "validate_nodes ns ids refs = Ok refs'" "distinct (map fst refs)"
  shows "set refs' = set refs \<union> set (node_names ns) \<and> distinct (map fst refs')"
  using assms
proof (induction ns arbitrary: ids refs)
  case Nil
  then show ?case
    by (simp add: node_names_def)
next
  case (Cons n ns)
  obtain refs1 where step: "validate_nodes ns (node_id n # ids) refs1 = Ok refs'"
    "set refs1 = set refs \<union> set (node_names [n])" "distinct (map fst refs1)"
    using Cons.prems by (rule validate_nodes_step)
  have "node_names (n # ns) = node_names [n] @ node_names ns"
    by (simp add: node_names_def)
  then show ?case
    using Cons.IH [OF step(1,3)] step(2) by auto
qed

text \<open>The names of all nodes are pairwise different.\<close>

lemma distinct_names:
  assumes "validate_nodes ns ids refs = Ok refs'" "distinct (map fst refs)"
  shows "distinct (map fst (node_names ns)) \<and> fst ` set (node_names ns) \<inter> fst ` set refs = {}"
  using assms
proof (induction ns arbitrary: ids refs)
  case (Cons n ns)
  have names: "node_names (n # ns) = node_names [n] @ node_names ns"
    by (simp add: node_names_def)
  have own: "distinct (map fst (node_names [n])) \<and> fst ` set (node_names [n]) \<inter> fst ` set refs = {}"
    using Cons.prems(1)
    by (cases "node_alias n") (auto simp: node_names_def and_then_Ok_iff insert_reference_Ok split: if_splits)
  obtain refs1 where step: "validate_nodes ns (node_id n # ids) refs1 = Ok refs'"
    "set refs1 = set refs \<union> set (node_names [n])" "distinct (map fst refs1)"
    using Cons.prems by (rule validate_nodes_step)
  have rest: "distinct (map fst (node_names ns))" "fst ` set (node_names ns) \<inter> (fst ` set refs \<union> fst ` set (node_names [n])) = {}"
    using Cons.IH [OF step(1,3)] unfolding step(2) by (simp_all add: image_Un)
  show ?case
    using own rest unfolding names by auto
qed (simp add: node_names_def)

lemma id_in_names: "n \<in> set ns \<Longrightarrow> (node_id n, node_id n) \<in> set (node_names ns)"
  by (auto simp: node_names_def)

lemma names_are_ids: "(r, i) \<in> set (node_names ns) \<Longrightarrow> i \<in> set (map node_id ns) \<and> (i, i) \<in> set (node_names ns)"
  by (auto simp: node_names_def split: option.splits)

lemma resolve_iff:
  assumes "validate_nodes ns [] [] = Ok refs"
  shows "resolve_node refs r = Ok i \<longleftrightarrow> (r, i) \<in> set (node_names ns)"
proof -
  have "set refs = set (node_names ns)" "distinct (map fst refs)"
    using validate_nodes_names [OF assms] by simp_all
  then show ?thesis
    by (simp add: resolve_node_def ok_or_Ok_iff map_of_eq_Some_iff)
qed

section \<open>Rules\<close>

lemma normalize_action_Ok:
  assumes "\<And>r i. resolve_node refs r = Ok i \<longleftrightarrow> (r, i) \<in> names"
  shows "normalize_action refs a = Ok a' \<longleftrightarrow>
    (case a of ActionNode t \<Rightarrow> (\<exists>i. a' = ActionNode i \<and> (t, i) \<in> names) | a \<Rightarrow> a' = a)"
  by (auto simp: normalize_action_def and_then_Ok_iff assms split: ActionConfig.splits)

lemma normalize_rules_Ok:
  assumes "\<And>r i. resolve_node refs r = Ok i \<longleftrightarrow> (r, i) \<in> names"
  shows "normalize_rules refs rs = Ok rs' \<Longrightarrow> list_all2 (rule_normalized names) rs rs' \<and> (\<forall>r \<in> set rs. \<exists>c. RuleConfig_compile r = Ok c)"
proof (induction rs arbitrary: rs')
  case (Cons r rs)
  then obtain a rest where a: "normalize_action refs (rule_action r) = Ok a" and rest: "normalize_rules refs rs = Ok rest"
    and rs': "rs' = r\<lparr>rule_action := a\<rparr> # rest" and valid: "RuleConfig_validate r = Ok ()"
    by (auto simp: and_then_Ok_iff)
  have "rule_normalized names r (r\<lparr>rule_action := a\<rparr>)"
    using a by (cases "rule_action r") (simp_all add: rule_normalized_def normalize_action_Ok [OF assms])
  moreover have "\<exists>c. RuleConfig_compile r = Ok c"
    using valid by (auto simp: RuleConfig_validate_def and_then_Ok_iff)
  ultimately show ?case
    using Cons.IH [OF rest] by (simp add: rs')
qed simp

lemma compile_normalized:
  assumes "rule_normalized names r r'" "RuleConfig_compile r = Ok c"
  shows "\<exists>c'. RuleConfig_compile r' = Ok c'"
  using assms by (auto simp: rule_normalized_def RuleConfig_compile_def and_then_Ok_iff)

text \<open>A normal form is kept: its references are identifiers, which resolve to themselves.\<close>

lemma normalize_rules_again:
  assumes "\<And>r i. resolve_node refs r = Ok i \<longleftrightarrow> (r, i) \<in> names" "\<And>r i. (r, i) \<in> names \<Longrightarrow> (i, i) \<in> names"
    and "list_all2 (rule_normalized names) rs rs'" "\<forall>r \<in> set rs. \<exists>c. RuleConfig_compile r = Ok c"
  shows "normalize_rules refs rs' = Ok rs'"
  using assms(3,4)
proof (induction rule: list_all2_induct)
  case (Cons r rs r' rs')
  obtain c where "RuleConfig_compile r' = Ok c"
    using Cons by (auto dest: compile_normalized)
  then have "RuleConfig_validate r' = Ok ()"
    by (simp add: RuleConfig_validate_def)
  moreover have "normalize_action refs (rule_action r') = Ok (rule_action r')"
    using Cons(1) assms(2) unfolding normalize_action_Ok [OF assms(1)]
    by (auto simp: rule_normalized_def split: ActionConfig.splits)
  ultimately show ?case
    using Cons by simp
qed simp

lemma compile_matcher:
  "MatchConfig_compile x = Ok m \<Longrightarrow> (m = Match \<longleftrightarrow> x = MatchAll) \<and> wf_matcher m"
  by (cases x)
    (auto simp: MatchConfig_compile_def RuleMatcher_domain_def RuleMatcher_domain_suffix_def result_simps
      dest: normalize_domain_idem IpCidr_from_str_wf PortRange_from_str_wf)

lemma compile_matchers:
  assumes "RuleConfig_compile r = Ok c"
  shows "matcher c = Match \<longleftrightarrow> rule_matcher r = MatchAll" "wf_matcher (matcher c)"
    "action c = ActionConfig_compile (rule_action r)"
proof -
  have m: "MatchConfig_compile (rule_matcher r) = Ok (matcher c)" and "action c = ActionConfig_compile (rule_action r)"
    using assms by (auto simp: RuleConfig_compile_def and_then_Ok_iff)
  then show "action c = ActionConfig_compile (rule_action r)"
    by simp
  show "matcher c = Match \<longleftrightarrow> rule_matcher r = MatchAll" "wf_matcher (matcher c)"
    using compile_matcher [OF m] by simp_all
qed

lemma compile_rules_Ok:
  "\<forall>r \<in> set rs. \<exists>c. RuleConfig_compile r = Ok c \<Longrightarrow>
   \<exists>cs. compile_rules rs = Ok cs \<and> list_all2 (\<lambda>r c. RuleConfig_compile r = Ok c) rs cs"
  by (induction rs) (fastforce simp: and_then_Ok_iff)+

lemma match_misplaced_iff:
  "match_misplaced rs \<longleftrightarrow> (\<exists>i < length rs. rule_matcher (rs ! i) = MatchAll \<and> i + 1 \<noteq> length rs)"
proof (cases "find (\<lambda>i. rule_matcher (rs ! i) = MatchAll) [0..<length rs]")
  case None
  then have "\<forall>i < length rs. rule_matcher (rs ! i) \<noteq> MatchAll"
    by (auto simp: find_None_iff)
  then show ?thesis
    using None by (auto simp: match_misplaced_def)
next
  case (Some i)
  then have i: "i < length rs" "rule_matcher (rs ! i) = MatchAll" "\<forall>j < i. rule_matcher (rs ! j) \<noteq> MatchAll"
    by (auto simp: find_Some_iff)
  then have "i + 1 = length rs \<Longrightarrow> \<forall>j < length rs. rule_matcher (rs ! j) = MatchAll \<longrightarrow> j + 1 = length rs"
    by (metis Suc_eq_plus1 less_Suc_eq)
  then show ?thesis
    using Some i by (auto simp: match_misplaced_def)
qed

section \<open>Normal forms\<close>

lemma normalize_Ok:
  assumes "ClientProfile_validate_and_normalize p = Ok q"
  obtains refs dn rs where "validate_nodes (nodes p) [] [] = Ok refs"
    "resolve_node refs (default_node (profile_metadata p)) = Ok dn"
    "normalize_rules refs (routing_rules (routing p)) = Ok rs" "\<not> match_misplaced rs"
    "q = p\<lparr>profile_metadata := (profile_metadata p)\<lparr>default_node := dn\<rparr>,
           routing := (routing p)\<lparr>routing_rules := rs\<rparr>\<rparr>"
  using assms that
  by (fastforce simp: ClientProfile_validate_and_normalize_def and_then_Ok_iff split: if_splits)

lemma normalize_again:
  assumes "ClientProfile_validate_and_normalize p = Ok (p\<lparr>profile_metadata := (profile_metadata p)\<lparr>default_node := dn\<rparr>,
           routing := (routing p)\<lparr>routing_rules := rs\<rparr>\<rparr>)" "validate_nodes (nodes p) [] [] = Ok refs"
    "resolve_node refs dn = Ok dn" "normalize_rules refs rs = Ok rs" "\<not> match_misplaced rs"
    "length rs = length (routing_rules (routing p))"
  shows "ClientProfile_validate_and_normalize (p\<lparr>profile_metadata := (profile_metadata p)\<lparr>default_node := dn\<rparr>,
           routing := (routing p)\<lparr>routing_rules := rs\<rparr>\<rparr>)
    = Ok (p\<lparr>profile_metadata := (profile_metadata p)\<lparr>default_node := dn\<rparr>, routing := (routing p)\<lparr>routing_rules := rs\<rparr>\<rparr>)"
  using assms by (auto simp: ClientProfile_validate_and_normalize_def and_then_Ok_iff split: if_splits)

lemma normalized_fixed:
  assumes "ClientProfile_validate_and_normalize p = Ok q"
  shows "ClientProfile_validate_and_normalize q = Ok q"
proof -
  obtain refs dn rs where n: "validate_nodes (nodes p) [] [] = Ok refs"
    "resolve_node refs (default_node (profile_metadata p)) = Ok dn"
    "normalize_rules refs (routing_rules (routing p)) = Ok rs" "\<not> match_misplaced rs"
    and q: "q = p\<lparr>profile_metadata := (profile_metadata p)\<lparr>default_node := dn\<rparr>,
           routing := (routing p)\<lparr>routing_rules := rs\<rparr>\<rparr>"
    by (rule normalize_Ok [OF assms])
  note resolve = resolve_iff [OF n(1)]
  note norm = normalize_rules_Ok [OF resolve n(3)]
  have "resolve_node refs dn = Ok dn"
    using n(2) names_are_ids by (auto simp: resolve)
  moreover have "normalize_rules refs rs = Ok rs"
    using names_are_ids norm by (intro normalize_rules_again [OF resolve]) auto
  moreover have "length rs = length (routing_rules (routing p))"
    using norm list_all2_lengthD by fastforce
  ultimately show ?thesis
    using normalize_again assms n(1,4) unfolding q by blast
qed

section \<open>A profile\<close>

lemma sample_checks:
  "validate_identifier ''p'' f = Ok ()" "validate_identifier ''n1'' f = Ok ()" "validate_identifier ''home'' f = Ok ()"
  by (simp_all add: validate_identifier_def identifier_byte_def identifier_start_def is_ascii_lower_def is_ascii_digit_def)

lemma sample_domains:
  "RuleMatcher_domain ''relay.example'' = Ok (Domain ''relay.example'')" "trim ''P'' = ''P''"
  "RuleConfig_validate \<lparr>rule_matcher = MatchDomainSuffix ''example.com'', rule_action = ActionNode ''home''\<rparr> = Ok ()"
  "RuleConfig_validate \<lparr>rule_matcher = MatchAll, rule_action = ActionDirect\<rparr> = Ok ()"
  by code_simp+

lemma sample_server: "validate_server_name ''relay.example'' = Ok ()"
  by (simp add: validate_server_name_def sample_domains)

lemma sample_profile_accepted:
  "\<exists>q. ClientProfile_validate_and_normalize sample_client_profile = Ok q
     \<and> default_node (profile_metadata q) = ''n1''"
  by (simp add: ClientProfile_validate_and_normalize_def sample_client_profile_def sample_node_def sample_checks sample_domains
      sample_server MAX_NODES_def MAX_RULES_def insert_reference_def resolve_node_def normalize_action_def
      validate_traffic_def match_misplaced_def)

text \<open>The rules of a normal form compile, to a policy over the nodes of the profile.\<close>

lemma compiled_rules:
  assumes "list_all2 (rule_normalized (set (node_names ns))) rs0 rs" "\<forall>r \<in> set rs0. \<exists>c. RuleConfig_compile r = Ok c"
    and "\<not> match_misplaced rs"
  shows "\<exists>cs. compile_rules rs = Ok cs \<and> RoutingPolicy_new cs = Ok \<lparr>rules = cs\<rparr>
    \<and> (\<forall>i < length cs. wf_matcher (matcher (cs ! i)) \<and> (matcher (cs ! i) = Match \<longrightarrow> i + 1 = length cs)
         \<and> (\<forall>target. action (cs ! i) = Node target \<longrightarrow> target \<in> set (map node_id ns)))"
proof -
  have rule: "rule_normalized (set (node_names ns)) (rs0 ! i) (rs ! i)" "rs0 ! i \<in> set rs0" if "i < length rs" for i
    using assms(1) that by (auto simp: list_all2_conv_all_nth)
  then have "\<forall>r \<in> set rs. \<exists>c. RuleConfig_compile r = Ok c"
    using assms(2) compile_normalized by (metis in_set_conv_nth)
  from compile_rules_Ok [OF this] obtain cs where cs: "compile_rules rs = Ok cs"
    "list_all2 (\<lambda>r c. RuleConfig_compile r = Ok c) rs cs"
    by blast
  have lens: "length cs = length rs"
    using list_all2_lengthD [OF cs(2)] by simp
  have compiled: "RuleConfig_compile (rs ! i) = Ok (cs ! i)" if "i < length rs" for i
    using cs(2) that by (auto simp: list_all2_conv_all_nth)
  have last: "i + 1 = length rs" if "i < length rs" "matcher (cs ! i) = Match" for i
    using assms(3) that compile_matchers(1) [OF compiled [OF that(1)]] by (auto simp: match_misplaced_iff)
  have "target \<in> set (map node_id ns)" if "i < length rs" "action (cs ! i) = Node target" for i target
  proof -
    have "rule_action (rs ! i) = ActionNode target"
      using compile_matchers(3) [OF compiled [OF that(1)]] that(2) by (cases "rule_action (rs ! i)") simp_all
    then have "\<exists>r. (r, target) \<in> set (node_names ns)"
      using rule(1) [OF that(1)] by (auto simp: rule_normalized_def split: ActionConfig.splits)
    then show ?thesis
      using names_are_ids by blast
  qed
  then show ?thesis
    using cs(1) last lens compile_matchers(2) [OF compiled] by (auto simp: RoutingPolicy_new_Ok)
qed

section \<open>Properties\<close>

text \<open>
  C36. An accepted profile is normalised once and for all. The names of its nodes (identifiers and
  aliases) are pairwise different; the default node and the node of every rule are replaced by the
  identifier of the node they name, and nothing else changes; normalising again changes nothing;
  and the rules always compile, to the same policy before and after, with well-formed matchers,
  only identifiers of existing nodes as targets, and a catch-all rule only at the end.
\<close>

theorem profile_normalization:
  assumes "ClientProfile_validate_and_normalize p = Ok q"
  shows "distinct (map fst (node_names (nodes p)))
    \<and> (default_node (profile_metadata p), default_node (profile_metadata q)) \<in> set (node_names (nodes p))
    \<and> list_all2 (rule_normalized (set (node_names (nodes p)))) (routing_rules (routing p)) (routing_rules (routing q))
    \<and> p = q\<lparr>profile_metadata := (profile_metadata q)\<lparr>default_node := default_node (profile_metadata p)\<rparr>,
        routing := (routing q)\<lparr>routing_rules := routing_rules (routing p)\<rparr>\<rparr>
    \<and> ClientProfile_validate_and_normalize q = Ok q
    \<and> (\<exists>policy. ClientProfile_routing_policy p = Ok policy \<and> ClientProfile_routing_policy q = Ok policy
         \<and> (\<forall>i < length (rules policy). wf_matcher (matcher (rules policy ! i))
              \<and> (matcher (rules policy ! i) = Match \<longrightarrow> i + 1 = length (rules policy))
              \<and> (\<forall>target. action (rules policy ! i) = Node target \<longrightarrow> target \<in> set (map node_id (nodes p)))))"
proof -
  let ?names = "set (node_names (nodes p))"
  obtain refs dn rs where n: "validate_nodes (nodes p) [] [] = Ok refs"
    "resolve_node refs (default_node (profile_metadata p)) = Ok dn"
    "normalize_rules refs (routing_rules (routing p)) = Ok rs" "\<not> match_misplaced rs"
    and q: "q = p\<lparr>profile_metadata := (profile_metadata p)\<lparr>default_node := dn\<rparr>,
           routing := (routing p)\<lparr>routing_rules := rs\<rparr>\<rparr>"
    by (rule normalize_Ok [OF assms])
  note resolve = resolve_iff [OF n(1)]
  have names: "(default_node (profile_metadata p), dn) \<in> ?names"
    using n(2) by (simp add: resolve)
  note norm = normalize_rules_Ok [OF resolve n(3)] and fixed = normalized_fixed [OF assms]
  obtain cs where cs: "compile_rules rs = Ok cs" "RoutingPolicy_new cs = Ok \<lparr>rules = cs\<rparr>"
    and good: "\<forall>i < length cs. wf_matcher (matcher (cs ! i)) \<and> (matcher (cs ! i) = Match \<longrightarrow> i + 1 = length cs)
      \<and> (\<forall>target. action (cs ! i) = Node target \<longrightarrow> target \<in> set (map node_id (nodes p)))"
    using compiled_rules [OF conjunct1 [OF norm] conjunct2 [OF norm] n(4)] by blast
  have policy: "ClientProfile_routing_policy p = Ok \<lparr>rules = cs\<rparr>" "ClientProfile_routing_policy q = Ok \<lparr>rules = cs\<rparr>"
    using assms fixed cs by (simp_all add: ClientProfile_routing_policy_def q)
  have "list_all2 (rule_normalized ?names) (routing_rules (routing p)) (routing_rules (routing q))"
    "p = q\<lparr>profile_metadata := (profile_metadata q)\<lparr>default_node := default_node (profile_metadata p)\<rparr>,
        routing := (routing q)\<lparr>routing_rules := routing_rules (routing p)\<rparr>\<rparr>"
    "(default_node (profile_metadata p), default_node (profile_metadata q)) \<in> ?names"
    using norm names by (simp_all add: q)
  then show ?thesis
    using policy good fixed distinct_names [OF n(1)] by auto
qed

theorem profile_normalization_witness:
  "\<exists>q policy. ClientProfile_validate_and_normalize sample_client_profile = Ok q \<and> ClientProfile_routing_policy q = Ok policy
     \<and> ClientProfile_validate_and_normalize q = Ok q"
proof -
  obtain q where q: "ClientProfile_validate_and_normalize sample_client_profile = Ok q"
    using sample_profile_accepted by blast
  then show ?thesis
    using profile_normalization [OF q] by blast
qed

text \<open>
  Reading back the canonical YAML of a profile gives its normal form, whose canonical YAML is
  the same text, provided that the YAML library reads what it wrote and the text is within the
  limit of one megabyte.
\<close>

theorem profile_yaml_roundtrip:
  assumes "\<forall>p text. yaml_write y p = Ok text \<longrightarrow> yaml_read y text = Ok p"
    and "ClientProfile_to_canonical_yaml y p = Ok source" "length source \<le> MAX_PROFILE_BYTES"
  shows "\<exists>q. ClientProfile_validate_and_normalize p = Ok q \<and> ClientProfile_from_yaml y source = Ok q
    \<and> ClientProfile_to_canonical_yaml y q = Ok source"
proof -
  obtain q where q: "ClientProfile_validate_and_normalize p = Ok q" and written: "yaml_write y q = Ok source"
    using assms(2) by (auto simp: ClientProfile_to_canonical_yaml_def result_simps)
  have "ClientProfile_validate_and_normalize q = Ok q"
    by (rule normalized_fixed [OF q])
  then show ?thesis
    using q written assms(1,3)
    by (auto simp: ClientProfile_from_yaml_def ClientProfile_to_canonical_yaml_def not_less)
qed

theorem profile_yaml_roundtrip_witness:
  "\<exists>q (y :: yaml). ClientProfile_validate_and_normalize sample_client_profile = Ok q \<and> ClientProfile_from_yaml y ''yes'' = Ok q"
proof -
  obtain q where q: "ClientProfile_validate_and_normalize sample_client_profile = Ok q"
    using sample_profile_accepted by blast
  define y where "y = \<lparr>yaml_read = (\<lambda>text. Ok q), yaml_write = (\<lambda>p. if p = q then Ok ''yes'' else Err ''no'')\<rparr>"
  have "\<forall>p text. yaml_write y p = Ok text \<longrightarrow> yaml_read y text = Ok p"
    by (auto simp: y_def split: if_splits)
  moreover have "ClientProfile_to_canonical_yaml y sample_client_profile = Ok ''yes''"
    using q by (simp add: ClientProfile_to_canonical_yaml_def y_def)
  ultimately show ?thesis
    using profile_yaml_roundtrip [of y sample_client_profile "''yes''"] by (auto simp: MAX_PROFILE_BYTES_def)
qed

end
