(* ===== verification/Enrollment.thy ===== *)
theory Enrollment
  imports Client_Profile
begin

text \<open>
  \<^verbatim>\<open>crates/velum-client-profile/src/enrollment.rs\<close>: the enrollment bundle, a JSON document that carries the
  credential of a new client. Decoding the credential may panic, so the operations that do it return
  \<open>None\<close> for a panic. JSON is read and written by \<^verbatim>\<open>serde_json\<close>, a pair of functions here.
\<close>

section \<open>Data\<close>

definition ENROLLMENT_KIND :: string where "ENROLLMENT_KIND = ''velum-enrollment''"
abbreviation ENROLLMENT_VERSION :: u16 where "ENROLLMENT_VERSION \<equiv> 1"
definition MAX_ENROLLMENT_BYTES :: nat where "MAX_ENROLLMENT_BYTES = 16 * 1024"
definition CREDENTIAL_BYTES :: nat where "CREDENTIAL_BYTES = 32"
definition MAX_CERTIFICATE_BYTES :: nat where "MAX_CERTIFICATE_BYTES = 12 * 1024"

record EnrollmentNode =
  en_id :: string
  en_name :: string
  en_relay_address :: SockAddr
  en_server_name :: string

datatype EnrollmentTrust = TrustSystem | TrustCustomCa (certificate_pem: string)

record EnrollmentBundle =
  kind :: string
  version :: u16
  node :: EnrollmentNode
  principal_id :: u64
  credential :: string
  trust :: EnrollmentTrust

section \<open>Hexadecimal text\<close>

definition hex_char :: "nat \<Rightarrow> char" where
  "hex_char n = (if n < 10 then char_of (48 + n) else char_of (87 + n))"

definition encode_hex :: "bytes \<Rightarrow> string" where
  "encode_hex bs = concat (map (\<lambda>b. [hex_char (unat b div 16), hex_char (unat b mod 16)]) bs)"

text \<open>\<^verbatim>\<open>u8::from_str_radix(_, 16)\<close>: a leading plus sign is accepted when digits follow.\<close>

definition u8_from_str_radix_16 :: "string \<Rightarrow> u8 option" where
  "u8_from_str_radix_16 s =
     (let digits = (case s of c # rest \<Rightarrow> if c = CHR ''+'' then rest else s | [] \<Rightarrow> s);
          v = foldl (\<lambda>acc c. acc * 16 + the (digit_of 16 c)) 0 digits
      in if digits = [] \<or> \<not> list_all (\<lambda>c. digit_of 16 c \<noteq> None) digits \<or> v \<ge> 256 then None
         else Some (word_of_nat v))"

definition hex_error :: ProfileError where
  "hex_error = ProfileError_validation ''enrollment credential must be hexadecimal''"

text \<open>Pairs of bytes from the left; the \<^verbatim>\<open>expect\<close> panics on a pair that is not UTF-8.\<close>

fun decode_pairs :: "string \<Rightarrow> (ProfileError, bytes) result option" where
  "decode_pairs (a # b # rest) =
     (if \<not> utf8_valid [a, b] then None
      else
        (case u8_from_str_radix_16 [a, b] of
           None \<Rightarrow> Some (Err hex_error)
         | Some v \<Rightarrow> map_option (\<lambda>r. and_then r (\<lambda>vs. Ok (v # vs))) (decode_pairs rest)))"
| "decode_pairs _ = Some (Ok [])"

definition decode_hex :: "string \<Rightarrow> (ProfileError, bytes) result option" where
  "decode_hex v = (if v = [] \<or> length v mod 2 \<noteq> 0 then Some (Err hex_error) else decode_pairs v)"

section \<open>Operations\<close>

fun ip_is_unspecified :: "Ip \<Rightarrow> bool" where
  "ip_is_unspecified (V4 a) = (a = 0)"
| "ip_is_unspecified (V6 a) = (a = 0)"

definition trust_invalid :: "EnrollmentTrust \<Rightarrow> bool" where
  "trust_invalid t =
     (case t of
        TrustSystem \<Rightarrow> False
      | TrustCustomCa pem \<Rightarrow>
          pem = [] \<or> length pem > MAX_CERTIFICATE_BYTES \<or> \<not> sublist ''-----BEGIN CERTIFICATE-----'' pem)"

definition EnrollmentBundle_validate_and_normalize ::
  "EnrollmentBundle \<Rightarrow> (ProfileError, EnrollmentBundle) result option" where
  "EnrollmentBundle_validate_and_normalize self =
     (if kind self \<noteq> ENROLLMENT_KIND then Some (Err (ProfileError_validation ''enrollment kind is invalid''))
      else if version self \<noteq> ENROLLMENT_VERSION
      then Some (Err (ProfileError_new UnsupportedVersion ''unsupported enrollment version''))
      else
        (case validate_identifier (en_id (node self)) ''enrollment node id'' of
           Inl e \<Rightarrow> Some (Err e)
         | Inr _ \<Rightarrow>
             if trim (en_name (node self)) = [] \<or> length (en_name (node self)) > 128
             then Some (Err (ProfileError_validation ''enrollment node name is invalid''))
             else if ip_is_unspecified (sock_ip (en_relay_address (node self)))
             then Some (Err (ProfileError_validation ''enrollment relay address must be client reachable''))
             else
               (case validate_server_name (en_server_name (node self)) of
                  Inl e \<Rightarrow> Some (Err e)
                | Inr _ \<Rightarrow>
                    (case decode_hex (credential self) of
                       None \<Rightarrow> None
                     | Some (Inl e) \<Rightarrow> Some (Err e)
                     | Some (Inr secret) \<Rightarrow>
                         if length secret \<noteq> CREDENTIAL_BYTES
                         then Some (Err (ProfileError_validation ''enrollment credential must contain exactly 32 bytes''))
                         else if trust_invalid (trust self)
                         then Some (Err (ProfileError_validation ''enrollment CA certificate is invalid or too large''))
                         else Some (Ok (self\<lparr>credential := to_ascii_lowercase (credential self)\<rparr>))))))"

definition EnrollmentBundle_new ::
  "EnrollmentNode \<Rightarrow> u64 \<Rightarrow> bytes \<Rightarrow> EnrollmentTrust \<Rightarrow> (ProfileError, EnrollmentBundle) result option" where
  "EnrollmentBundle_new n pid secret t =
     EnrollmentBundle_validate_and_normalize
       \<lparr>kind = ENROLLMENT_KIND, version = ENROLLMENT_VERSION, node = n, principal_id = pid,
        credential = encode_hex secret, trust = t\<rparr>"

record json =
  json_read :: "string \<Rightarrow> string + EnrollmentBundle"
  json_write :: "EnrollmentBundle \<Rightarrow> string + string"

definition EnrollmentBundle_from_json :: "json \<Rightarrow> string \<Rightarrow> (ProfileError, EnrollmentBundle) result option" where
  "EnrollmentBundle_from_json j source =
     (if length source > MAX_ENROLLMENT_BYTES then Some (Err (ProfileError_new Limit ''enrollment exceeds 16 KiB''))
      else
        (case json_read j source of
           Inl m \<Rightarrow> Some (Err (ProfileError_new Syntax m))
         | Inr bundle \<Rightarrow> EnrollmentBundle_validate_and_normalize bundle))"

definition EnrollmentBundle_to_canonical_json :: "json \<Rightarrow> EnrollmentBundle \<Rightarrow> (ProfileError, string) result option" where
  "EnrollmentBundle_to_canonical_json j self =
     map_option (\<lambda>r. and_then r (\<lambda>normalized. map_err (ProfileError_new Syntax) (json_write j normalized)))
       (EnrollmentBundle_validate_and_normalize self)"

definition EnrollmentBundle_credential_bytes :: "EnrollmentBundle \<Rightarrow> (ProfileError, bytes) result option" where
  "EnrollmentBundle_credential_bytes self = decode_hex (credential self)"

definition EnrollmentBundle_credential_ref :: "EnrollmentBundle \<Rightarrow> string" where
  "EnrollmentBundle_credential_ref self =
     ''secret://velum/enrollment/'' @ en_id (node self) @ ''/'' @ decimal_string (unat (principal_id self))"

section \<open>What the reader checks first\<close>

text \<open>A bundle that passes every check made before its credential is decoded.\<close>

definition credential_reached :: "EnrollmentBundle \<Rightarrow> bool" where
  "credential_reached b =
     (kind b = ENROLLMENT_KIND \<and> version b = ENROLLMENT_VERSION
      \<and> validate_identifier (en_id (node b)) ''enrollment node id'' = Ok ()
      \<and> trim (en_name (node b)) \<noteq> [] \<and> length (en_name (node b)) \<le> 128
      \<and> \<not> ip_is_unspecified (sock_ip (en_relay_address (node b)))
      \<and> validate_server_name (en_server_name (node b)) = Ok ())"

text \<open>Text whose pairs of bytes are all read, up to a pair that cuts a character.\<close>

definition cuts_character :: "string \<Rightarrow> bool" where
  "cuts_character s =
     (\<exists>pre c1 c2 rest bytes. s = pre @ c1 # c2 # rest \<and> even (length pre)
        \<and> decode_pairs pre = Some (Ok bytes) \<and> \<not> utf8_valid [c1, c2])"

section \<open>Samples\<close>

definition sample_enrollment_node :: EnrollmentNode where
  "sample_enrollment_node = \<lparr>en_id = ''relay-sg'', en_name = ''P'', en_relay_address = SockAddr_new (V4 1) 443,
     en_server_name = ''relay.example''\<rparr>"

text \<open>A credential of 64 bytes in which a two-byte character (U+00E9) crosses a pair.\<close>

definition split_credential :: string where
  "split_credential = [CHR ''0'', CHR 0xC3, CHR 0xA9] @ replicate 61 CHR ''0''"

definition panicking_bundle :: EnrollmentBundle where
  "panicking_bundle = \<lparr>kind = ENROLLMENT_KIND, version = 1, node = sample_enrollment_node, principal_id = 7,
     credential = split_credential, trust = TrustSystem\<rparr>"

section \<open>Hexadecimal text is read back\<close>

lemma hex_char_digit: "n < 16 \<Longrightarrow> digit_of 16 (hex_char n) = Some n"
  by (auto simp: digit_of_def hex_char_def is_ascii_digit_def is_ascii_lower_def is_ascii_upper_def)

lemma hex_char_plain:
  assumes "n < 16"
  shows "hex_char n \<noteq> CHR ''+''" "byte_in 0 0x7F (hex_char n)" "ascii_lower (hex_char n) = hex_char n"
proof -
  have "digit_of 16 CHR ''+'' = None"
    by (simp add: digit_of_def is_ascii_digit_def is_ascii_lower_def is_ascii_upper_def)
  then show "hex_char n \<noteq> CHR ''+''"
    using hex_char_digit [OF assms] by auto
  show "byte_in 0 0x7F (hex_char n)" "ascii_lower (hex_char n) = hex_char n"
    using assms by (auto simp: hex_char_def byte_in_def ascii_lower_def is_ascii_upper_def)
qed

lemma u8_bound: "unat (b :: u8) < 256"
  using unat_less_power [of b] by simp

lemma nibbles: "unat (b :: u8) div 16 < 16" "unat b mod 16 < 16"
  using u8_bound [of b] by (simp_all add: less_mult_imp_div_less)

lemma hex_pair:
  fixes b :: u8
  shows "u8_from_str_radix_16 [hex_char (unat b div 16), hex_char (unat b mod 16)] = Some b"
    and "utf8_valid [hex_char (unat b div 16), hex_char (unat b mod 16)]"
proof -
  show "u8_from_str_radix_16 [hex_char (unat b div 16), hex_char (unat b mod 16)] = Some b"
    using hex_char_plain(1) [OF nibbles(1)] u8_bound [of b]
    by (simp add: u8_from_str_radix_16_def hex_char_digit nibbles div_mult_mod_eq)
  show "utf8_valid [hex_char (unat b div 16), hex_char (unat b mod 16)]"
    by (simp add: hex_char_plain(2) nibbles)
qed

lemma encode_hex_Cons: "encode_hex (b # bs) = hex_char (unat b div 16) # hex_char (unat b mod 16) # encode_hex bs"
  by (simp add: encode_hex_def)

lemma decode_encode_pairs: "decode_pairs (encode_hex bs) = Some (Ok bs)"
proof (induction bs)
  case (Cons b bs)
  then show ?case
    using hex_pair [of b] unfolding encode_hex_Cons by (simp del: utf8_valid.simps)
qed (simp add: encode_hex_def)

lemma length_encode_hex: "length (encode_hex bs) = 2 * length bs"
  by (induction bs) (simp_all add: encode_hex_def)

lemma decode_encode_hex: "bs \<noteq> [] \<Longrightarrow> decode_hex (encode_hex bs) = Some (Ok bs)"
  using length_encode_hex [of bs] by (auto simp: decode_hex_def decode_encode_pairs)

lemma encode_hex_lower: "to_ascii_lowercase (encode_hex bs) = encode_hex bs"
  by (induction bs) (simp_all add: encode_hex_def to_ascii_lowercase_def hex_char_plain nibbles)

section \<open>References\<close>

lemma decimal_length: "n < 10 ^ Suc k \<Longrightarrow> length (decimal_string n) \<le> Suc k"
proof (induction k arbitrary: n)
  case (Suc k)
  then have "n div 10 < 10 ^ Suc k"
    by (simp add: less_mult_imp_div_less)
  then show ?case
    using Suc.IH [of "n div 10"] by (subst decimal_string.simps) simp
qed (subst decimal_string.simps, simp)

lemma identifier_chars:
  assumes "validate_identifier v f = Ok u"
  shows "v \<noteq> []" "length v \<le> 64" "list_all (\<lambda>c. identifier_start c \<or> c \<in> {CHR ''-'', CHR ''_''}) v"
proof -
  have all: "\<forall>(i, c) \<in> set (enumerate 0 v). identifier_byte i c"
    and "v \<noteq> []" "length v \<le> 64"
    using assms by (auto simp: validate_identifier_def list_all_iff split: if_splits)
  have "identifier_start c \<or> c \<in> {CHR ''-'', CHR ''_''}" if member: "c \<in> set v" for c
  proof -
    obtain i where "i < length v" "v ! i = c"
      using member by (auto simp: in_set_conv_nth)
    then have "(i, c) \<in> set (enumerate 0 v)"
      by (auto simp: in_set_enumerate_eq)
    then show ?thesis
      using all by (auto simp: identifier_byte_def)
  qed
  then show "list_all (\<lambda>c. identifier_start c \<or> c \<in> {CHR ''-'', CHR ''_''}) v"
    by (simp add: list_all_iff)
  show "v \<noteq> []" "length v \<le> 64"
    by fact+
qed

text \<open>What a segment of a secret reference may be.\<close>

definition good_segment :: "string \<Rightarrow> bool" where
  "good_segment s = (s \<noteq> [] \<and> CHR ''.'' \<notin> set s \<and> CHR ''/'' \<notin> set s \<and> list_all secret_byte s)"

lemma identifier_segment: "validate_identifier v f = Ok u \<Longrightarrow> good_segment v"
  using identifier_chars [of v f u]
  by (auto simp: good_segment_def list_all_iff identifier_start_def secret_byte_def is_ascii_alphanumeric_def
      is_ascii_lower_def is_ascii_digit_def)

lemma decimal_segment: "good_segment (decimal_string n)"
  using decimal_string_digits [of n]
  by (auto simp: good_segment_def list_all_iff secret_byte_def is_ascii_alphanumeric_def is_ascii_digit_def)

lemma secret_ref_parts:
  assumes "good_segment a" "good_segment b" "length a \<le> 64" "length b \<le> 64"
  shows "SecretRef_parse (''secret://velum/enrollment/'' @ a @ ''/'' @ b)
    = Ok (SecretRef (''secret://velum/enrollment/'' @ a @ ''/'' @ b))"
proof -
  let ?path = "''enrollment'' @ CHR ''/'' # a @ CHR ''/'' # b"
  have strip: "strip_prefix ''secret://velum/'' (''secret://velum/enrollment/'' @ a @ ''/'' @ b) = Some ?path"
    by (simp add: strip_prefix_def)
  have "split_char CHR ''/'' ?path = [''enrollment'', a, b]"
    using assms(1,2) by (simp only: split_char_append) (simp add: split_char_single good_segment_def)
  moreover have "list_all secret_byte ''enrollment''"
    by (simp add: secret_byte_def is_ascii_alphanumeric_def is_ascii_lower_def)
  moreover have "\<not> (s = [] \<or> s = ''.'' \<or> s = ''..'' \<or> \<not> list_all secret_byte s)" if "good_segment s" for s
    using that by (auto simp: good_segment_def)
  ultimately show ?thesis
    using assms strip unfolding SecretRef_parse_def by simp
qed

section \<open>Validation\<close>

lemma validated_bundle:
  assumes "EnrollmentBundle_validate_and_normalize b = Some (Ok b')"
  shows "b' = b\<lparr>credential := to_ascii_lowercase (credential b)\<rparr>"
    and "\<exists>secret. decode_hex (credential b) = Some (Ok secret) \<and> length secret = CREDENTIAL_BYTES"
    and "validate_identifier (en_id (node b)) ''enrollment node id'' = Ok ()"
  using assms
  by (auto simp: EnrollmentBundle_validate_and_normalize_def split: if_splits sum.splits option.splits)

lemma decode_pairs_read:
  assumes "utf8_valid [a, b]" "u8_from_str_radix_16 [a, b] = Some v"
  shows "decode_pairs (a # b # s) = map_option (\<lambda>r. and_then r (\<lambda>vs. Ok (v # vs))) (decode_pairs s)"
  using assms by (simp del: utf8_valid.simps)

lemma cuts_character_Cons:
  assumes "utf8_valid [a, b]" "u8_from_str_radix_16 [a, b] = Some v"
  shows "cuts_character (a # b # s) \<longleftrightarrow> cuts_character s"
proof
  assume "cuts_character (a # b # s)"
  then obtain pre c1 c2 rest bytes where split: "a # b # s = pre @ c1 # c2 # rest" "even (length pre)"
    and pre: "decode_pairs pre = Some (Ok bytes)" "\<not> utf8_valid [c1, c2]"
    by (auto simp: cuts_character_def simp del: utf8_valid.simps)
  have "pre \<noteq> []"
    using split(1) pre(2) assms(1) by (auto simp del: utf8_valid.simps)
  then obtain pre' where pre': "pre = a # b # pre'" "s = pre' @ c1 # c2 # rest"
    using split by (cases pre rule: decode_pairs.cases) auto
  then have "\<exists>bytes. decode_pairs pre' = Some (Ok bytes)"
    using pre(1) by (auto simp: decode_pairs_read [OF assms] and_then_Ok_iff simp del: utf8_valid.simps decode_pairs.simps)
  then show "cuts_character s"
    using pre' pre(2) split(2) unfolding cuts_character_def
    by (metis even_Suc length_Cons)
next
  assume "cuts_character s"
  then obtain pre c1 c2 rest bytes where "s = pre @ c1 # c2 # rest" "even (length pre)"
    "decode_pairs pre = Some (Ok bytes)" "\<not> utf8_valid [c1, c2]"
    by (auto simp: cuts_character_def simp del: utf8_valid.simps)
  then show "cuts_character (a # b # s)"
    unfolding cuts_character_def
    by (intro exI [of _ "a # b # pre"] exI [of _ c1] exI [of _ c2] exI [of _ rest] exI [of _ "v # bytes"])
      (simp add: decode_pairs_read [OF assms] del: utf8_valid.simps decode_pairs.simps)
qed

lemma decode_pairs_panics: "decode_pairs s = None \<longleftrightarrow> cuts_character s"
proof (induction s rule: decode_pairs.induct)
  case (1 a b s)
  show ?case
  proof (cases "utf8_valid [a, b]")
    case False
    then have "cuts_character (a # b # s)"
      unfolding cuts_character_def by (intro exI [of _ "[]"] exI [of _ a] exI [of _ b] exI [of _ s]) simp
    then show ?thesis
      using False by simp
  next
    case True
    show ?thesis
    proof (cases "u8_from_str_radix_16 [a, b]")
      case None
      have "\<not> cuts_character (a # b # s)"
      proof
        assume "cuts_character (a # b # s)"
        then obtain pre c1 c2 rest bytes where split: "a # b # s = pre @ c1 # c2 # rest" "even (length pre)"
          and pre: "decode_pairs pre = Some (Ok bytes)" "\<not> utf8_valid [c1, c2]"
          by (auto simp: cuts_character_def simp del: utf8_valid.simps)
        then show False
          using True None by (cases pre rule: decode_pairs.cases) (auto simp del: utf8_valid.simps)
      qed
      then show ?thesis
        using True None by (simp del: utf8_valid.simps)
    next
      case (Some v)
      then show ?thesis
        using 1 [OF _ Some] True cuts_character_Cons [OF True Some] by (simp add: decode_pairs_read del: utf8_valid.simps decode_pairs.simps)
    qed
  qed
qed (auto simp: cuts_character_def Cons_eq_append_conv)

lemma validate_panics:
  "EnrollmentBundle_validate_and_normalize b = None \<longleftrightarrow> credential_reached b \<and> decode_hex (credential b) = None"
  by (auto simp: EnrollmentBundle_validate_and_normalize_def credential_reached_def split: sum.splits option.splits)

lemma validate_no_panic:
  "decode_hex (credential b) \<noteq> None \<Longrightarrow> EnrollmentBundle_validate_and_normalize b \<noteq> None"
  by (auto simp: EnrollmentBundle_validate_and_normalize_def split: sum.splits)

lemma validate_again:
  assumes "EnrollmentBundle_validate_and_normalize b = Some (Ok b')" "to_ascii_lowercase (credential b) = credential b"
  shows "EnrollmentBundle_validate_and_normalize b' = Some (Ok b') \<and> b' = b"
proof -
  have "b' = b"
    using validated_bundle(1) [OF assms(1)] assms(2) by simp
  then show ?thesis
    using assms(1) by simp
qed

section \<open>A bundle\<close>

lemma sample_enrollment_id: "validate_identifier ''relay-sg'' f = Ok ()"
  by (simp add: validate_identifier_def identifier_byte_def identifier_start_def is_ascii_lower_def is_ascii_digit_def)

lemma sample_enrollment:
  "\<exists>b. EnrollmentBundle_new sample_enrollment_node 7 (replicate 32 0x5A) TrustSystem = Some (Ok b)"
proof -
  have "decode_hex (encode_hex (replicate 32 0x5A)) = Some (Ok (replicate 32 0x5A))"
    by (rule decode_encode_hex) simp
  then show ?thesis
    by (simp add: EnrollmentBundle_new_def EnrollmentBundle_validate_and_normalize_def sample_enrollment_node_def
        sample_enrollment_id sample_domains sample_server SockAddr_new_def CREDENTIAL_BYTES_def trust_invalid_def)
qed

section \<open>Properties\<close>

text \<open>
  C37. A bundle made for a credential is complete and stable. Making one never panics; when it
  succeeds the credential has 32 bytes and is read back exactly; the reference under which the
  secret is stored is a valid secret reference; and reading the canonical JSON gives the same
  bundle, provided that the JSON library reads what it wrote and the text is within the limit.
\<close>

theorem enrollment_roundtrip:
  assumes "\<forall>b text. json_write j b = Ok text \<longrightarrow> json_read j text = Ok b"
  shows "EnrollmentBundle_new n pid secret t \<noteq> None
    \<and> (\<forall>b. EnrollmentBundle_new n pid secret t = Some (Ok b) \<longrightarrow>
         length secret = 32 \<and> EnrollmentBundle_credential_bytes b = Some (Ok secret)
         \<and> SecretRef_parse (EnrollmentBundle_credential_ref b) = Ok (SecretRef (EnrollmentBundle_credential_ref b))
         \<and> (\<forall>source. EnrollmentBundle_to_canonical_json j b = Some (Ok source) \<longrightarrow> length source \<le> MAX_ENROLLMENT_BYTES
              \<longrightarrow> EnrollmentBundle_from_json j source = Some (Ok b)))"
proof -
  define b0 where "b0 = \<lparr>kind = ENROLLMENT_KIND, version = ENROLLMENT_VERSION, node = n, principal_id = pid,
        credential = encode_hex secret, trust = t\<rparr>"
  have new: "EnrollmentBundle_new n pid secret t = EnrollmentBundle_validate_and_normalize b0"
    by (simp add: EnrollmentBundle_new_def b0_def)
  have "decode_hex (credential b0) \<noteq> None"
    by (cases "secret = []") (simp_all add: b0_def decode_encode_hex, simp add: decode_hex_def encode_hex_def)
  then have total: "EnrollmentBundle_new n pid secret t \<noteq> None"
    unfolding new by (rule validate_no_panic)
  have lower: "to_ascii_lowercase (credential b0) = credential b0"
    by (simp add: b0_def encode_hex_lower)
  have "length secret = 32 \<and> EnrollmentBundle_credential_bytes b = Some (Ok secret)
       \<and> SecretRef_parse (EnrollmentBundle_credential_ref b) = Ok (SecretRef (EnrollmentBundle_credential_ref b))
       \<and> (EnrollmentBundle_to_canonical_json j b = Some (Ok source) \<longrightarrow> length source \<le> MAX_ENROLLMENT_BYTES
              \<longrightarrow> EnrollmentBundle_from_json j source = Some (Ok b))"
    if ok: "EnrollmentBundle_validate_and_normalize b0 = Some (Ok b)" for b source
  proof -
    have b: "b = b0" "EnrollmentBundle_validate_and_normalize b = Some (Ok b)"
      using validate_again [OF ok lower] by blast+
    have "secret \<noteq> []"
      using validated_bundle(2) [OF ok] by (auto simp: b0_def decode_hex_def encode_hex_def)
    then have bytes: "decode_hex (credential b0) = Some (Ok secret)" "length secret = 32"
      using validated_bundle(2) [OF ok] decode_encode_hex [of secret] by (simp_all add: b0_def CREDENTIAL_BYTES_def)
    have "unat pid < 10 ^ Suc 19"
      using unat_less_power [of pid] by simp
    from decimal_length [OF this] have "length (decimal_string (unat pid)) \<le> 64"
      by simp
    then have "SecretRef_parse (EnrollmentBundle_credential_ref b) = Ok (SecretRef (EnrollmentBundle_credential_ref b))"
      using identifier_segment [OF validated_bundle(3) [OF ok]] identifier_chars(2) [OF validated_bundle(3) [OF ok]] decimal_segment
      unfolding EnrollmentBundle_credential_ref_def b(1) by (intro secret_ref_parts) (simp_all add: b0_def)
    moreover have "json_write j b = Ok source" if "EnrollmentBundle_to_canonical_json j b = Some (Ok source)"
      using that b(2) by (simp add: EnrollmentBundle_to_canonical_json_def map_err_Ok_iff)
    ultimately show ?thesis
      using bytes b assms
      by (auto simp: EnrollmentBundle_credential_bytes_def EnrollmentBundle_from_json_def not_less)
  qed
  then show ?thesis
    using total unfolding new by blast
qed

theorem enrollment_roundtrip_witness:
  "\<exists>b (j :: json). EnrollmentBundle_new sample_enrollment_node 7 (replicate 32 0x5A) TrustSystem = Some (Ok b)
     \<and> EnrollmentBundle_credential_bytes b = Some (Ok (replicate 32 0x5A)) \<and> EnrollmentBundle_from_json j ''yes'' = Some (Ok b)"
proof -
  obtain b where b: "EnrollmentBundle_new sample_enrollment_node 7 (replicate 32 0x5A) TrustSystem = Some (Ok b)"
    using sample_enrollment by blast
  define j where "j = \<lparr>json_read = (\<lambda>text. Ok b), json_write = (\<lambda>c. if c = b then Ok ''yes'' else Err ''no'')\<rparr>"
  have law: "\<forall>b text. json_write j b = Ok text \<longrightarrow> json_read j text = Ok b"
    by (auto simp: j_def split: if_splits)
  have "EnrollmentBundle_validate_and_normalize b = Some (Ok b)"
    using b encode_hex_lower validate_again unfolding EnrollmentBundle_new_def by fastforce
  then have "EnrollmentBundle_to_canonical_json j b = Some (Ok ''yes'')"
    by (simp add: EnrollmentBundle_to_canonical_json_def j_def)
  moreover have "length ''yes'' \<le> MAX_ENROLLMENT_BYTES"
    by (simp add: MAX_ENROLLMENT_BYTES_def)
  ultimately show ?thesis
    using enrollment_roundtrip [OF law, of sample_enrollment_node 7 "replicate 32 0x5A" TrustSystem] b by blast
qed

text \<open>
  C38. When the reader of an enrollment panics: exactly when the text is within the limit and is JSON of
  a bundle that passes every check made before its credential, and whose credential, of even
  length, cuts a character: after pairs of bytes that are all read comes a pair that is not UTF-8.
  Every other text is read or refused.
\<close>

theorem enrollment_reader_panics:
  "EnrollmentBundle_from_json j source = None \<longleftrightarrow>
     length source \<le> MAX_ENROLLMENT_BYTES
     \<and> (\<exists>b. json_read j source = Ok b \<and> credential_reached b \<and> even (length (credential b)) \<and> cuts_character (credential b))"
proof -
  have "decode_hex s = None \<longleftrightarrow> even (length s) \<and> cuts_character s" for s
    using decode_pairs_panics [of "[]"] by (auto simp: decode_hex_def decode_pairs_panics even_iff_mod_2_eq_zero)
  then show ?thesis
    by (auto simp: EnrollmentBundle_from_json_def validate_panics not_less split: sum.splits)
qed

theorem enrollment_reader_panics_witness:
  "utf8_valid (credential panicking_bundle)
   \<and> EnrollmentBundle_from_json \<lparr>json_read = (\<lambda>_. Ok panicking_bundle), json_write = (\<lambda>_. Err ''no'')\<rparr> ''x'' = None"
proof -
  have "utf8_valid (replicate k CHR ''0'')" for k
    by (induction k) (simp_all add: byte_in_def)
  then have "utf8_valid split_credential"
    by (simp add: split_credential_def byte_in_def)
  moreover have "cuts_character split_credential"
    unfolding cuts_character_def split_credential_def
    by (intro exI [of _ "[]"] exI [of _ "CHR ''0''"] exI [of _ "CHR 0xC3"]
        exI [of _ "CHR 0xA9 # replicate 61 CHR ''0''"] exI [of _ "[]"]) (simp add: byte_in_def)
  moreover have "credential_reached panicking_bundle"
    by (simp add: credential_reached_def panicking_bundle_def sample_enrollment_node_def sample_enrollment_id sample_domains
        sample_server SockAddr_new_def)
  ultimately show ?thesis
    using enrollment_reader_panics [of "\<lparr>json_read = (\<lambda>_. Ok panicking_bundle), json_write = (\<lambda>_. Err ''no'')\<rparr>" "''x''"]
    by (simp add: MAX_ENROLLMENT_BYTES_def panicking_bundle_def split_credential_def)
qed

text \<open>A pair with a plus sign is read as a byte.\<close>

lemma plus_sign_accepted: "decode_hex ''+5'' = Some (Ok [5])"
  by (simp add: decode_hex_def u8_from_str_radix_16_def byte_in_def digit_of_def is_ascii_digit_def)

end
