(* ===== verification/Node_Config.thy ===== *)
theory Node_Config
  imports Relay_Properties Forest Enrollment
begin

text \<open>
  \<^verbatim>\<open>apps/velum-node/src/config.rs\<close>: the operator's configuration of a relay node, its credential files and
  what a running relay is built from. A path is the list of its components, the file system maps
  paths to files with their text and whether only the owner can read them. TOML, name resolution
  and TLS material are parameters; every call that writes is given its outcome, and a read fails
  only for a missing or unreadable text. A secret that makes the decoder panic gives \<open>None\<close>.
\<close>

section \<open>Files\<close>

type_synonym path = "string list"

definition parent :: "path \<Rightarrow> path option" where
  "parent p = (if p = [] then None else Some (butlast p))"

definition file_stem :: "string \<Rightarrow> string" where
  "file_stem name =
     (case rsplit_once CHR ''.'' name of
        None \<Rightarrow> name
      | Some (before, _) \<Rightarrow> if before = [] then name else before)"

definition with_extension :: "path \<Rightarrow> string \<Rightarrow> path" where
  "with_extension p extension = (if p = [] then p else butlast p @ [file_stem (last p) @ ''.'' @ extension])"

record stored_file =
  file_text :: string
  file_private :: bool

type_synonym files = "path \<Rightarrow> stored_file option"

text \<open>
  \<^verbatim>\<open>fs::write\<close>: all of the text or, when it fails, nothing (the file was not opened) or a part of the
  text; the mode of a file is kept.
\<close>

datatype write_failure =
    NotOpened
  | Stopped nat

definition fs_write :: "write_failure option \<Rightarrow> path \<Rightarrow> string \<Rightarrow> files \<Rightarrow> files \<times> bool" where
  "fs_write failure p content fs =
     (let mode = (case fs p of Some f \<Rightarrow> file_private f | None \<Rightarrow> False) in
      case failure of
        None \<Rightarrow> (fs(p \<mapsto> \<lparr>file_text = content, file_private = mode\<rparr>), True)
      | Some NotOpened \<Rightarrow> (fs, False)
      | Some (Stopped n) \<Rightarrow> (fs(p \<mapsto> \<lparr>file_text = take n content, file_private = mode\<rparr>), False))"

record write_outcome =
  wo_mkdir :: bool
  wo_write :: "write_failure option"
  wo_chmod :: bool
  wo_rename :: bool

definition restrict_permissions :: "bool \<Rightarrow> path \<Rightarrow> files \<Rightarrow> files" where
  "restrict_permissions ok p fs =
     (if ok then fs(p := map_option (\<lambda>f. f\<lparr>file_private := True\<rparr>) (fs p)) else fs)"

section \<open>Configuration\<close>

abbreviation VERSION :: u16 where "VERSION \<equiv> 1"
abbreviation CONFIG_MAX_SECRET_BYTES :: nat where "CONFIG_MAX_SECRET_BYTES \<equiv> 128"

record ListenerConfig =
  listener_bind :: string
  listener_certificate :: path
  listener_private_key :: path

record CredentialConfig =
  cc_id :: u64
  cc_name :: "string option"
  cc_secret_file :: path

record Limits =
  limit_max_sessions :: nat
  limit_max_flows_per_session :: nat
  limit_max_connections :: nat
  limit_max_streams_per_connection :: nat
  limit_connect_timeout_secs :: u64
  limit_control_timeout_secs :: u64
  limit_shutdown_timeout_secs :: u64

record NodeCoverConfig =
  ncover_bind :: string
  ncover_upstream :: string
  ncover_request_head_timeout_secs :: u64
  ncover_upstream_timeout_secs :: u64
  ncover_max_connections :: nat

record AcmeConfig =
  acme_email :: string
  acme_domains :: "string list"
  acme_dns_provider :: string
  acme_directory_url :: string
  acme_state_dir :: path
  acme_renew_before_days :: u16

record Config =
  config_version :: u16
  config_listener :: ListenerConfig
  config_admin_socket :: path
  config_credentials :: "CredentialConfig list"
  config_allowed_targets :: "string list"
  config_limits :: Limits
  config_cover_service :: "NodeCoverConfig option"
  config_acme :: "AcmeConfig option"

datatype NodeError =
    CannotRead
  | InvalidConfiguration
  | NoParentDirectory
  | CannotCreateDirectory
  | CannotEncode
  | CannotWrite
  | CannotRestrict
  | CannotActivate
  | FileExists
  | UnsupportedConfigVersion u16
  | NotSocketAddress string
  | NoCredential
  | NoTarget
  | CannotInspect
  | NotPrivate
  | SecretLength
  | SecretNotHexadecimal
  | InvalidCredentialEntry u64
  | InvalidCredentialSet AuthenticationError
  | NotPositive string
  | InvalidRelayLimits ConfigError
  | UpstreamFormat
  | UpstreamPort
  | UpstreamUnresolved
  | InvalidCover CoverConfigError
  | InvalidTls
  | InvalidTransport

text \<open>An operation that may also panic.\<close>

definition bind_run ::
  "('e, 'a) result option \<Rightarrow> ('a \<Rightarrow> ('e, 'b) result option) \<Rightarrow> ('e, 'b) result option" where
  "bind_run r f = (case r of None \<Rightarrow> None | Some (Inl e) \<Rightarrow> Some (Err e) | Some (Inr a) \<Rightarrow> f a)"

record toml =
  toml_read :: "string \<Rightarrow> string + Config"
  toml_write :: "Config \<Rightarrow> string + string"

definition config_read :: "toml \<Rightarrow> files \<Rightarrow> path \<Rightarrow> (NodeError, Config) result" where
  "config_read t fs p =
     (case fs p of
        None \<Rightarrow> Err CannotRead
      | Some f \<Rightarrow>
          if \<not> utf8_valid (file_text f) then Err CannotRead
          else map_err (\<lambda>_. InvalidConfiguration) (toml_read t (file_text f)))"

text \<open>The commented template that is appended to a configuration, with the bind address in it.\<close>

function str_replace :: "string \<Rightarrow> string \<Rightarrow> string \<Rightarrow> string" where
  "str_replace pat new [] = []"
| "str_replace pat new (c # s) =
     (if pat \<noteq> [] \<and> prefix pat (c # s) then new @ str_replace pat new (drop (length pat) (c # s))
      else c # str_replace pat new s)"
  by pat_completeness auto

termination
proof (relation "measure (\<lambda>(_, _, s). length s)")
  show "((pat, new, drop (length pat) (c # s)), pat, new, c # s) \<in> measure (\<lambda>(_, _, s). length s)"
    if "pat \<noteq> [] \<and> prefix pat (c # s)" for pat new c s
    using that by (cases pat) auto
qed auto

definition COVER_SERVICE_TEMPLATE :: string where
  "COVER_SERVICE_TEMPLATE = concat (map (\<lambda>l. l @ [LF])
     [[], ''# Optional reverse-proxy cover service. It accepts plaintext HTTP/1.1 behind'',
      ''# an operator-owned TLS terminator; omit this section to keep it disabled.'',
      ''# [cover_service]'', ''# bind = \"0.0.0.0:4433\"'', ''# upstream = \"cover.example.com:8080\"'',
      ''# request_head_timeout_secs = 5'', ''# upstream_timeout_secs = 5'', ''# max_connections = 256''])"

definition config_text :: "string \<Rightarrow> Config \<Rightarrow> string" where
  "config_text encoded config =
     encoded @ [LF] @ str_replace ''0.0.0.0:4433'' (listener_bind (config_listener config)) COVER_SERVICE_TEMPLATE"

definition config_write ::
  "toml \<Rightarrow> write_outcome \<Rightarrow> path \<Rightarrow> Config \<Rightarrow> files \<Rightarrow> (NodeError, unit) result \<times> files" where
  "config_write t out p config fs =
     (case parent p of
        None \<Rightarrow> (Err NoParentDirectory, fs)
      | Some _ \<Rightarrow>
          if \<not> wo_mkdir out then (Err CannotCreateDirectory, fs)
          else
            (case toml_write t config of
               Inl _ \<Rightarrow> (Err CannotEncode, fs)
             | Inr encoded \<Rightarrow>
                 (let temporary = with_extension p ''toml.tmp'' in
                  case fs_write (wo_write out) temporary (config_text encoded config) fs of (fs, ok) \<Rightarrow>
                    if \<not> ok then (Err CannotWrite, fs)
                    else
                      (let fs = restrict_permissions (wo_chmod out) temporary fs in
                       if \<not> wo_chmod out then (Err CannotRestrict, fs)
                       else if \<not> wo_rename out then (Err CannotActivate, fs)
                       else (Ok (), fs(p := fs temporary, temporary := None))))))"

definition write_secret ::
  "write_outcome \<Rightarrow> path \<Rightarrow> bytes \<Rightarrow> files \<Rightarrow> (NodeError, unit) result \<times> files" where
  "write_secret out p secret fs =
     (case parent p of
        None \<Rightarrow> (Err NoParentDirectory, fs)
      | Some _ \<Rightarrow>
          if \<not> wo_mkdir out then (Err CannotCreateDirectory, fs)
          else if fs p \<noteq> None then (Err FileExists, fs)
          else
            (case fs_write (wo_write out) p (encode_hex secret @ [LF]) fs of (fs, ok) \<Rightarrow>
               if \<not> ok then (Err CannotWrite, fs)
               else
                 (let fs = restrict_permissions (wo_chmod out) p fs in
                  if wo_chmod out then (Ok (), fs) else (Err CannotRestrict, fs))))"

section \<open>Secrets\<close>

fun decode_secret_pairs :: "string \<Rightarrow> (NodeError, bytes) result option" where
  "decode_secret_pairs (a # b # rest) =
     (if \<not> utf8_valid [a, b] then None
      else
        (case u8_from_str_radix_16 [a, b] of
           None \<Rightarrow> Some (Err SecretNotHexadecimal)
         | Some v \<Rightarrow> bind_run (decode_secret_pairs rest) (\<lambda>vs. Some (Ok (v # vs)))))"
| "decode_secret_pairs _ = Some (Ok [])"

definition decode_secret :: "string \<Rightarrow> (NodeError, bytes) result option" where
  "decode_secret v =
     (if v = [] \<or> length v mod 2 \<noteq> 0 \<or> length v div 2 > CONFIG_MAX_SECRET_BYTES then Some (Err SecretLength)
      else decode_secret_pairs v)"

definition read_secret :: "files \<Rightarrow> path \<Rightarrow> (NodeError, bytes) result option" where
  "read_secret fs p =
     (case fs p of
        None \<Rightarrow> Some (Err CannotInspect)
      | Some f \<Rightarrow>
          if \<not> file_private f then Some (Err NotPrivate)
          else if \<not> utf8_valid (file_text f) then Some (Err CannotRead)
          else decode_secret (trim (file_text f)))"

section \<open>Loading\<close>

definition parse_socket :: "string \<Rightarrow> string \<Rightarrow> (NodeError, SockAddr) result" where
  "parse_socket name v = ok_or (SockAddr_parse v) (NotSocketAddress name)"

definition positive_limit :: "string \<Rightarrow> nat \<Rightarrow> (NodeError, nat) result" where
  "positive_limit name v = (if v = 0 then Err (NotPositive name) else Ok v)"

definition positive_duration :: "string \<Rightarrow> u64 \<Rightarrow> (NodeError, nat) result" where
  "positive_duration name v = (if v = 0 then Err (NotPositive name) else Ok (unat v))"

definition resolve_upstream :: "(string \<Rightarrow> SockAddr list option) \<Rightarrow> string \<Rightarrow> (NodeError, SockAddr) result" where
  "resolve_upstream dns v =
     (case SockAddr_parse v of
        Some address \<Rightarrow> Ok address
      | None \<Rightarrow>
          and_then (ok_or (rsplit_once CHR '':'' v) UpstreamFormat) (\<lambda>(_, port).
            case parse_u16 port of
              None \<Rightarrow> Err UpstreamPort
            | Some n \<Rightarrow>
                if n = 0 then Err UpstreamPort
                else
                  (case dns v of
                     None \<Rightarrow> Err UpstreamUnresolved
                   | Some addresses \<Rightarrow> (case addresses of [] \<Rightarrow> Err UpstreamUnresolved | a # _ \<Rightarrow> Ok a))))"

record LoadedCoverService =
  loaded_cover_bind :: SockAddr
  loaded_cover_config :: CoverServiceConfig
  loaded_cover_max_connections :: nat

definition load_cover_service ::
  "(string \<Rightarrow> SockAddr list option) \<Rightarrow> NodeCoverConfig \<Rightarrow> (NodeError, LoadedCoverService) result" where
  "load_cover_service dns config =
     and_then (parse_socket ''cover_service.bind'' (ncover_bind config)) (\<lambda>bind.
     and_then (resolve_upstream dns (ncover_upstream config)) (\<lambda>up.
     and_then (positive_duration ''cover_service.request_head_timeout_secs'' (ncover_request_head_timeout_secs config)) (\<lambda>head_t.
     and_then (positive_duration ''cover_service.upstream_timeout_secs'' (ncover_upstream_timeout_secs config)) (\<lambda>up_t.
       (let service = \<lparr>cover_schema_version = 1, cover_mode = ReverseProxy (socket_of up),
                        request_head_timeout = head_t, upstream_timeout = up_t\<rparr> in
        and_then (map_err InvalidCover (CoverServiceConfig_validate service)) (\<lambda>_.
        and_then (positive_limit ''cover_service.max_connections'' (ncover_max_connections config)) (\<lambda>n.
          Ok \<lparr>loaded_cover_bind = bind, loaded_cover_config = service, loaded_cover_max_connections = n\<rparr>)))))))"

record LoadedConfig =
  loaded_bind :: SockAddr
  loaded_admin_socket :: path
  loaded_authenticator :: Authenticator
  loaded_destinations :: DestinationPolicy
  loaded_quotas :: AdmissionControl
  loaded_relay :: QuicRelayConfig
  loaded_cover_service :: "LoadedCoverService option"

definition load_credential :: "files \<Rightarrow> CredentialConfig \<Rightarrow> (NodeError, PrincipalCredential) result option" where
  "load_credential fs entry =
     bind_run (read_secret fs (cc_secret_file entry)) (\<lambda>secret.
       Some (map_err (\<lambda>_. InvalidCredentialEntry (cc_id entry)) (PrincipalCredential_new (PrincipalId (cc_id entry)) secret)))"

fun load_credentials :: "files \<Rightarrow> CredentialConfig list \<Rightarrow> (NodeError, PrincipalCredential list) result option" where
  "load_credentials fs [] = Some (Ok [])"
| "load_credentials fs (entry # rest) =
     bind_run (load_credential fs entry) (\<lambda>c. bind_run (load_credentials fs rest) (\<lambda>cs. Some (Ok (c # cs))))"

fun load_targets :: "string list \<Rightarrow> (NodeError, SocketAddr list) result" where
  "load_targets [] = Ok []"
| "load_targets (target # rest) =
     and_then (parse_socket ''allowed_targets'' target) (\<lambda>a. and_then (load_targets rest) (\<lambda>as. Ok (socket_of a # as)))"

definition load_relay :: "Limits \<Rightarrow> (NodeError, QuicRelayConfig) result" where
  "load_relay limits =
     and_then (positive_duration ''limits.connect_timeout_secs'' (limit_connect_timeout_secs limits)) (\<lambda>connect_t.
     and_then (positive_duration ''limits.control_timeout_secs'' (limit_control_timeout_secs limits)) (\<lambda>control_t.
     and_then (positive_duration ''limits.shutdown_timeout_secs'' (limit_shutdown_timeout_secs limits)) (\<lambda>shutdown_t.
     and_then (positive_limit ''limits.max_connections'' (limit_max_connections limits)) (\<lambda>conns.
     and_then (positive_limit ''limits.max_streams_per_connection'' (limit_max_streams_per_connection limits)) (\<lambda>streams.
       (let relay = \<lparr>schema_version = VERSION, connect_timeout = connect_t, control_timeout = control_t,
                      shutdown_timeout = shutdown_t, max_control_bytes = 192, max_connections = conns,
                      max_streams_per_connection = streams\<rparr> in
        and_then (map_err InvalidRelayLimits (QuicRelayConfig_validate relay)) (\<lambda>_. Ok relay)))))))"

definition load_quota :: "Limits \<Rightarrow> (NodeError, PrincipalQuota) result" where
  "load_quota limits =
     and_then (positive_limit ''limits.max_sessions'' (limit_max_sessions limits)) (\<lambda>s.
     and_then (positive_limit ''limits.max_flows_per_session'' (limit_max_flows_per_session limits)) (\<lambda>f.
       Ok \<lparr>max_sessions = s, max_flows_per_session = f\<rparr>))"

text \<open>What TOML, DNS and TLS answer: the certificate and key of a listener, and a transport profile.\<close>

record node_env =
  env_toml :: toml
  env_dns :: "string \<Rightarrow> SockAddr list option"
  env_tls :: "files \<Rightarrow> ListenerConfig \<Rightarrow> bool"
  env_transport :: "u32 \<Rightarrow> bool"

definition load_services ::
  "node_env \<Rightarrow> files \<Rightarrow> Config \<Rightarrow> SockAddr \<Rightarrow> Authenticator \<Rightarrow> (NodeError, LoadedConfig) result" where
  "load_services env fs config bind authenticator =
     and_then (load_targets (config_allowed_targets config)) (\<lambda>targets.
     and_then (load_relay (config_limits config)) (\<lambda>relay.
     and_then (case config_cover_service config of
         None \<Rightarrow> Ok None
       | Some cover \<Rightarrow> and_then (load_cover_service (env_dns env) cover) (\<lambda>c. Ok (Some c))) (\<lambda>cover.
     and_then (load_quota (config_limits config)) (\<lambda>quota.
       if \<not> env_tls env fs (config_listener config) then Err InvalidTls
       else
         and_then (map_err (\<lambda>_. InvalidTransport) (QuicRelayConfig_transport_profile relay)) (\<lambda>profile.
           if \<not> env_transport env profile then Err InvalidTransport
           else Ok \<lparr>loaded_bind = bind, loaded_admin_socket = config_admin_socket config,
                     loaded_authenticator = authenticator, loaded_destinations = DestinationPolicy_new targets,
                     loaded_quotas = AdmissionControl_new quota, loaded_relay = relay,
                     loaded_cover_service = cover\<rparr>)))))"

definition load_authenticator :: "files \<Rightarrow> Config \<Rightarrow> (NodeError, Authenticator) result option" where
  "load_authenticator fs config =
     bind_run (load_credentials fs (config_credentials config)) (\<lambda>cs.
       Some (map_err InvalidCredentialSet (Authenticator_new cs)))"

definition load :: "node_env \<Rightarrow> files \<Rightarrow> path \<Rightarrow> (NodeError, LoadedConfig) result option" where
  "load env fs p =
     bind_run (Some (config_read (env_toml env) fs p)) (\<lambda>config.
       if config_version config \<noteq> VERSION then Some (Err (UnsupportedConfigVersion (config_version config)))
       else
         bind_run (Some (parse_socket ''listener.bind'' (listener_bind (config_listener config)))) (\<lambda>bind.
           if config_credentials config = [] then Some (Err NoCredential)
           else if config_allowed_targets config = [] then Some (Err NoTarget)
           else
             bind_run (load_authenticator fs config) (\<lambda>authenticator.
               Some (load_services env fs config bind authenticator))))"

section \<open>Samples\<close>

definition sample_config :: "CredentialConfig list \<Rightarrow> Config" where
  "sample_config cs =
     \<lparr>config_version = 1,
      config_listener = \<lparr>listener_bind = ''1.1.1.1:1'', listener_certificate = [''cert''], listener_private_key = [''key'']\<rparr>,
      config_admin_socket = [''sock''], config_credentials = cs, config_allowed_targets = [''1.1.1.1:1''],
      config_limits = \<lparr>limit_max_sessions = 1, limit_max_flows_per_session = 1, limit_max_connections = 1,
        limit_max_streams_per_connection = 1, limit_connect_timeout_secs = 1, limit_control_timeout_secs = 1,
        limit_shutdown_timeout_secs = 1\<rparr>,
      config_cover_service = None, config_acme = None\<rparr>"

text \<open>A TOML for two configurations.\<close>

definition sample_toml :: "Config \<Rightarrow> Config \<Rightarrow> toml" where
  "sample_toml a b =
     \<lparr>toml_read = (\<lambda>text. if text = config_text ''a'' a then Ok a else if text = config_text ''b'' b then Ok b else Err ''no''),
      toml_write = (\<lambda>c. if c = a then Ok ''a'' else if c = b then Ok ''b'' else Err ''no'')\<rparr>"

definition sample_files :: "Config \<Rightarrow> files" where
  "sample_files config =
     Map.empty([''node.toml''] \<mapsto> \<lparr>file_text = config_text ''a'' config, file_private = True\<rparr>,
       [''c7.hex''] \<mapsto> \<lparr>file_text = encode_hex (replicate 32 1) @ [LF], file_private = True\<rparr>,
       [''c8.hex''] \<mapsto> \<lparr>file_text = encode_hex (replicate 32 2) @ [LF], file_private = True\<rparr>)"

definition sample_credentials :: "CredentialConfig list" where
  "sample_credentials = [\<lparr>cc_id = 7, cc_name = None, cc_secret_file = [''c7.hex'']\<rparr>,
     \<lparr>cc_id = 8, cc_name = Some ''Tablet'', cc_secret_file = [''c8.hex'']\<rparr>]"

definition sample_env :: "Config \<Rightarrow> Config \<Rightarrow> node_env" where
  "sample_env a b = \<lparr>env_toml = sample_toml a b, env_dns = (\<lambda>_. None), env_tls = (\<lambda>_ _. True), env_transport = (\<lambda>_. True)\<rparr>"

section \<open>Chained results\<close>

lemma bind_run_simps [simp]:
  "bind_run None f = None" "bind_run (Some (Err e)) f = Some (Err e)" "bind_run (Some (Ok a)) f = f a"
  by (simp_all add: bind_run_def)

lemma bind_run_Ok_iff [result_simps]:
  "bind_run r f = Some (Ok b) \<longleftrightarrow> (\<exists>a. r = Some (Ok a) \<and> f a = Some (Ok b))"
  by (auto simp: bind_run_def split: option.splits sum.splits)

section \<open>Paths\<close>

lemma split_once_first: "split_once d s = Some (a, b) \<Longrightarrow> s = a @ d # b \<and> d \<notin> set a"
  by (induction d s arbitrary: a rule: split_once.induct) (auto split: if_splits option.splits)

lemma rsplit_once_last: "rsplit_once d s = Some (a, b) \<Longrightarrow> s = a @ d # b \<and> d \<notin> set b"
proof -
  assume "rsplit_once d s = Some (a, b)"
  then obtain x y where xy: "split_once d (rev s) = Some (x, y)" "a = rev y" "b = rev x"
    by (auto simp: rsplit_once_def)
  from split_once_first [OF xy(1)] have "rev (rev s) = rev (x @ d # y)" "d \<notin> set x"
    by simp_all
  then show ?thesis
    using xy by simp
qed

lemma file_stem_cases:
  "name = file_stem name \<or> (\<exists>after. CHR ''.'' \<notin> set after \<and> name = file_stem name @ ''.'' @ after)"
proof (cases "rsplit_once CHR ''.'' name")
  case None
  then show ?thesis
    by (simp add: file_stem_def)
next
  case (Some p)
  then have "name = fst p @ CHR ''.'' # snd p \<and> CHR ''.'' \<notin> set (snd p)"
    by (cases p) (auto dest: rsplit_once_last)
  then show ?thesis
    using Some by (cases p) (auto simp: file_stem_def)
qed

lemma temporary_differs: "p \<noteq> [] \<Longrightarrow> with_extension p ''toml.tmp'' \<noteq> p"
proof
  assume p: "p \<noteq> []" and "with_extension p ''toml.tmp'' = p"
  then have eq: "file_stem (last p) @ ''.toml.tmp'' = last p"
    by (metis (no_types, lifting) append_Cons append_Nil last_snoc with_extension_def)
  from file_stem_cases [of "last p"] show False
  proof (elim disjE exE conjE)
    assume "last p = file_stem (last p)"
    then show False
      using eq by (metis append_self_conv list.distinct(1))
  next
    fix after assume "CHR ''.'' \<notin> set after" "last p = file_stem (last p) @ ''.'' @ after"
    then have "''.toml.tmp'' = ''.'' @ after" "CHR ''.'' \<notin> set after"
      using eq by (metis same_append_eq)+
    then show False
      by auto
  qed
qed

section \<open>Secrets are read back\<close>

lemma decode_secret_encode: "decode_secret_pairs (encode_hex bs) = Some (Ok bs)"
proof (induction bs)
  case (Cons b bs)
  then show ?case
    using hex_pair [of b] unfolding encode_hex_Cons by (simp del: utf8_valid.simps)
qed (simp add: encode_hex_def)

lemma hex_char_printable: "n < 16 \<Longrightarrow> plain_char (hex_char n)"
  by (auto simp: hex_char_def plain_char_def)

lemma trim_line:
  assumes "s \<noteq> []" "plain_char (hd s)" "plain_char (last s)"
  shows "trim (s @ [LF]) = s"
proof -
  have "trim_start (s @ [LF]) = s @ [LF]"
    unfolding trim_start_def using assms white_space_edges by (intro strip_words_plain) auto
  moreover have "strip_words (map rev white_space) (LF # rev s) = strip_words (map rev white_space) (rev s)"
    by (subst strip_words.simps) (simp add: white_space_def)
  moreover have "strip_words (map rev white_space) (rev s) = rev s"
    using trim_plain [of s] assms white_space_edges by (intro strip_words_plain) (auto simp: hd_rev)
  ultimately show ?thesis
    by (simp add: trim_def trim_end_def)
qed

lemma encode_hex_ends:
  assumes "bs \<noteq> []"
  shows "encode_hex bs \<noteq> []" "plain_char (hd (encode_hex bs))" "plain_char (last (encode_hex bs))"
proof -
  show "encode_hex bs \<noteq> []" "plain_char (hd (encode_hex bs))"
    using assms by (cases bs; simp add: encode_hex_Cons hex_char_printable nibbles)+
  obtain xs b where "bs = xs @ [b]"
    using assms by (cases bs rule: rev_cases) auto
  then show "plain_char (last (encode_hex bs))"
    by (simp add: encode_hex_def hex_char_printable nibbles)
qed

lemma encode_hex_utf8: "utf8_valid (encode_hex bs @ [LF])"
  by (induction bs) (simp_all add: encode_hex_def hex_char_plain nibbles byte_in_def [of _ _ LF])

lemma read_written_secret:
  assumes "fs p = Some \<lparr>file_text = encode_hex secret @ [LF], file_private = True\<rparr>" "secret \<noteq> []" "length secret \<le> 128"
  shows "read_secret fs p = Some (Ok secret)"
  using assms encode_hex_ends [OF assms(2)] encode_hex_utf8 [of secret]
  by (simp add: read_secret_def trim_line decode_secret_def decode_secret_encode length_encode_hex)

section \<open>The configuration is read back\<close>

text \<open>
  The law of TOML: a value is read from its text also when comments follow it. The appended comment
  holds the bind address as it is, so the law speaks of addresses only: TOML forbids control
  characters in a comment.
\<close>

definition toml_law :: "toml \<Rightarrow> bool" where
  "toml_law t = (\<forall>config encoded. toml_write t config = Ok encoded \<longrightarrow> SockAddr_parse (listener_bind (config_listener config)) \<noteq> None
      \<longrightarrow> utf8_valid (config_text encoded config) \<and> toml_read t (config_text encoded config) = Ok config)"

lemma config_write_cases:
  assumes "config_write t out p config fs = (r, fs')"
  shows "(\<exists>e. r = Err e \<and> (\<forall>q. q \<noteq> with_extension p ''toml.tmp'' \<longrightarrow> fs' q = fs q))
    \<or> (\<exists>encoded. r = Ok () \<and> toml_write t config = Ok encoded
          \<and> fs' p = Some \<lparr>file_text = config_text encoded config, file_private = True\<rparr>
          \<and> (\<forall>q. q \<noteq> p \<longrightarrow> q \<noteq> with_extension p ''toml.tmp'' \<longrightarrow> fs' q = fs q))"
proof -
  have "p \<noteq> [] \<Longrightarrow> with_extension p ''toml.tmp'' \<noteq> p"
    by (rule temporary_differs)
  then show ?thesis
    using assms
    by (auto simp: config_write_def parent_def fs_write_def restrict_permissions_def Let_def
        split: option.splits sum.splits write_failure.splits if_splits)
qed

lemma config_write_read:
  assumes "toml_law t" "config_write t out p config fs = (Ok (), fs')"
    and "SockAddr_parse (listener_bind (config_listener config)) \<noteq> None"
  shows "config_read t fs' p = Ok config"
  using config_write_cases [OF assms(2)] assms(1,3) by (auto simp: toml_law_def config_read_def)

lemma config_write_failed:
  assumes "config_write t out p config fs = (Err e, fs')" "p \<noteq> []"
  shows "config_read t fs' p = config_read t fs p"
  using config_write_cases [OF assms(1)] temporary_differs [OF assms(2)] by (simp add: config_read_def)

section \<open>Credentials\<close>

lemma load_credential_Ok:
  "load_credential fs e = Some (Ok c) \<longleftrightarrow>
     (\<exists>secret. read_secret fs (cc_secret_file e) = Some (Ok secret) \<and> secret \<noteq> []
        \<and> c = \<lparr>cred_principal = PrincipalId (cc_id e), cred_secret = secret\<rparr>)"
  by (auto simp: load_credential_def result_simps PrincipalCredential_new_def split: if_splits)

lemma load_credentials_Ok:
  "load_credentials fs es = Some (Ok cs) \<longleftrightarrow> list_all2 (\<lambda>e c. load_credential fs e = Some (Ok c)) es cs"
proof (induction es arbitrary: cs)
  case (Cons e es)
  then show ?case
    by (cases cs) (auto simp: result_simps)
qed auto

lemma loaded_entries:
  assumes "list_all2 (\<lambda>e c. load_credential fs e = Some (Ok c)) es cs"
  shows "(\<exists>d \<in> set cs. cred_principal d = pid \<and> cred_secret d = secret) \<longleftrightarrow>
    (\<exists>e \<in> set es. pid = PrincipalId (cc_id e) \<and> read_secret fs (cc_secret_file e) = Some (Ok secret))"
  using assms
proof (induction rule: list_all2_induct)
  case (Cons e es c cs)
  then show ?case
    by (auto simp: load_credential_Ok)
qed simp

lemma load_credentials_cong:
  "(\<And>e. e \<in> set es \<Longrightarrow> fs' (cc_secret_file e) = fs (cc_secret_file e)) \<Longrightarrow> load_credentials fs' es = load_credentials fs es"
  by (induction es) (simp_all add: load_credential_def read_secret_def)

lemma authenticator_new_exact:
  assumes "Authenticator_new cs = Ok a"
  shows "distinct (map cred_principal cs)" "distinct (map cred_secret cs)"
    "c \<in> set cs \<Longrightarrow> secret_length a = Some (length (cred_secret c))"
    "Authenticator_authenticate a secret = Ok pid \<longleftrightarrow> (\<exists>c \<in> set cs. cred_principal c = pid \<and> cred_secret c = secret)"
  using Authenticator_configure_distinct [of "[]" None cs a]
    Authenticator_configure_Ok [of "[]" None cs a] authenticate_iff assms
  by (fastforce simp: Authenticator_new_def)+

text \<open>Adding a credential at the end, and leaving one out.\<close>

lemma configure_append:
  "Authenticator_configure m len (cs @ ds) =
     and_then (Authenticator_configure m len cs) (\<lambda>a. Authenticator_configure (credentials a) (secret_length a) ds)"
  by (induction cs arbitrary: m len) auto

lemma authenticator_append:
  assumes "Authenticator_new cs = Ok a" "cred_principal c \<notin> cred_principal ` set cs" "cred_secret c \<notin> cred_secret ` set cs"
    "\<forall>d \<in> set cs. length (cred_secret d) = length (cred_secret c)"
  shows "\<exists>a'. Authenticator_new (cs @ [c]) = Ok a'"
proof -
  have inv: "set (credentials a) = (\<lambda>c. (cred_principal c, cred_secret c)) ` set cs"
    using Authenticator_configure_Ok [of "[]" None cs a] assms(1) by (simp add: Authenticator_new_def)
  have len: "secret_length a = None \<or> secret_length a = Some (length (cred_secret c))"
  proof (cases cs)
    case Nil
    then show ?thesis
      using assms(1) by (auto simp: Authenticator_new_def)
  next
    case (Cons d ds)
    then show ?thesis
      using authenticator_new_exact(3) [OF assms(1), of d] assms(4) by simp
  qed
  have "bt_get (credentials a) (cred_principal c) = None" "cred_secret c \<notin> set (bt_values (credentials a))"
    using assms(2,3) by (auto simp: bt_get_None_iff bt_values_def inv image_image)
  then show ?thesis
    using assms(1) len by (auto simp: Authenticator_new_def configure_append)
qed

lemma authenticator_new_total:
  "distinct (map cred_principal cs) \<Longrightarrow> distinct (map cred_secret cs) \<Longrightarrow> \<forall>c \<in> set cs. length (cred_secret c) = n
   \<Longrightarrow> \<exists>a. Authenticator_new cs = Ok a"
proof (induction cs rule: rev_induct)
  case (snoc c cs)
  then show ?case
    by (auto intro!: authenticator_append)
qed (simp add: Authenticator_new_def)

section \<open>Properties\<close>

lemma load_targets_Ok:
  "load_targets ts = Ok as \<Longrightarrow> x \<in> set as \<longleftrightarrow> (\<exists>t \<in> set ts. \<exists>s. SockAddr_parse t = Some s \<and> x = socket_of s)"
proof (induction ts arbitrary: as)
  case (Cons t ts)
  then show ?case
    by (auto simp: result_simps parse_socket_def) blast
qed simp

lemma load_relay_valid: "load_relay l = Ok r \<Longrightarrow> QuicRelayConfig_validate r = Ok ()"
  by (auto simp: load_relay_def Let_def result_simps)

lemma load_quota_positive: "load_quota l = Ok q \<Longrightarrow> 0 < max_sessions q \<and> 0 < max_flows_per_session q"
  by (auto simp: load_quota_def positive_limit_def result_simps split: if_splits)

lemma load_cover_valid: "load_cover_service dns c = Ok l \<Longrightarrow> CoverServiceConfig_validate (loaded_cover_config l) = Ok ()"
  by (auto simp: load_cover_service_def Let_def result_simps)

lemma read_secret_private: "read_secret fs p = Some (Ok secret) \<Longrightarrow> \<exists>f. fs p = Some f \<and> file_private f"
  by (auto simp: read_secret_def split: option.splits if_splits)

text \<open>The sample loads.\<close>

lemma sample_text_utf8:
  "listener_bind (config_listener c) = ''1.1.1.1:1'' \<Longrightarrow> utf8_valid (config_text ''a'' c) \<and> utf8_valid (config_text ''b'' c)"
proof -
  have "utf8_valid (''a'' @ [LF] @ str_replace ''0.0.0.0:4433'' ''1.1.1.1:1'' COVER_SERVICE_TEMPLATE)
      \<and> utf8_valid (''b'' @ [LF] @ str_replace ''0.0.0.0:4433'' ''1.1.1.1:1'' COVER_SERVICE_TEMPLATE)"
    by code_simp
  then show "listener_bind (config_listener c) = ''1.1.1.1:1'' \<Longrightarrow> ?thesis"
    by (simp add: config_text_def)
qed

lemma sample_toml_law:
  assumes "listener_bind (config_listener a) = ''1.1.1.1:1''" "listener_bind (config_listener b) = ''1.1.1.1:1''"
  shows "toml_law (sample_toml a b)"
proof -
  have "config_text ''b'' x \<noteq> config_text ''a'' y" for x y
    by (simp add: config_text_def)
  then show ?thesis
    using sample_text_utf8 [OF assms(1)] sample_text_utf8 [OF assms(2)] unfolding toml_law_def
    by (auto simp: sample_toml_def simp del: utf8_valid.simps split: if_splits)
qed

lemma sample_config_read: "config_read (sample_toml (sample_config cs) b) (sample_files (sample_config cs)) [''node.toml''] = Ok (sample_config cs)"
  using sample_text_utf8 [of "sample_config cs"]
  by (simp add: config_read_def sample_files_def sample_toml_def) (simp add: sample_config_def)

lemma sample_secrets:
  "read_secret (sample_files c) [''c7.hex''] = Some (Ok (replicate 32 1))"
  "read_secret (sample_files c) [''c8.hex''] = Some (Ok (replicate 32 2))"
  by (rule read_written_secret; simp add: sample_files_def)+

lemma sample_authenticator:
  "\<exists>a. load_authenticator (sample_files c) (sample_config sample_credentials) = Some (Ok a)"
  "\<exists>a. load_authenticator (sample_files c) (sample_config [hd sample_credentials]) = Some (Ok a)"
  by (simp_all add: load_authenticator_def sample_config_def sample_credentials_def load_credential_def sample_secrets
      PrincipalCredential_new_def Authenticator_new_def bt_values_def less_PrincipalId_def)

lemma sample_load:
  "\<exists>c. load (sample_env (sample_config sample_credentials) b) (sample_files (sample_config sample_credentials)) [''node.toml''] = Some (Ok c)"
proof -
  obtain a where a: "load_authenticator (sample_files (sample_config sample_credentials)) (sample_config sample_credentials) = Some (Ok a)"
    using sample_authenticator(1) by blast
  obtain s where "SockAddr_parse ''1.1.1.1:1'' = Some s"
    using sample_address by blast
  then show ?thesis
    using a sample_config_read [of sample_credentials b]
    by (simp add: load_def sample_env_def parse_socket_def load_services_def load_relay_def
      load_quota_def sample_config_def sample_credentials_def positive_limit_def positive_duration_def QuicRelayConfig_validate_def Let_def
      QuicRelayConfig_transport_profile_def)
qed

text \<open>
  A credential file with valid UTF-8 in it can make its reader panic: the decoder takes pairs of bytes
  apart from the characters they belong to.
\<close>

theorem secret_reader_panics:
  assumes "fs p = Some \<lparr>file_text = [CHR ''0'', CHR 0xC3, CHR 0xA9, CHR ''0''], file_private = True\<rparr>"
  shows "utf8_valid [CHR ''0'', CHR 0xC3, CHR 0xA9, CHR ''0''] \<and> read_secret fs p = None"
proof -
  have "utf8_valid [CHR ''0'', CHR 0xC3, CHR 0xA9, CHR ''0'']"
      "decode_secret (trim [CHR ''0'', CHR 0xC3, CHR 0xA9, CHR ''0'']) = None"
    by code_simp+
  then show ?thesis
    using assms by (simp add: read_secret_def del: utf8_valid.simps)
qed

text \<open>
  C35. A relay that was loaded from a configuration does exactly what it says: a secret authenticates
  as a principal precisely when the file of that principal holds it, and every such file is readable
  by its owner only; exactly the configured targets are allowed; and the relay limits, the quotas
  (which start with no session) and the cover service pass the validation of their components.
\<close>

theorem loaded_relay_sound:
  assumes "load env fs p = Some (Ok c)"
  shows "\<exists>config q. config_read (env_toml env) fs p = Ok config \<and> config_version config = 1
    \<and> (\<forall>secret pid. Authenticator_authenticate (loaded_authenticator c) secret = Ok pid \<longleftrightarrow>
         (\<exists>e \<in> set (config_credentials config). pid = PrincipalId (cc_id e)
            \<and> read_secret fs (cc_secret_file e) = Some (Ok secret)))
    \<and> (\<forall>e \<in> set (config_credentials config). \<exists>f. fs (cc_secret_file e) = Some f \<and> file_private f)
    \<and> (\<forall>a. DestinationPolicy_allows (loaded_destinations c) a \<longleftrightarrow>
         (\<exists>t \<in> set (config_allowed_targets config). \<exists>s. SockAddr_parse t = Some s \<and> a = socket_of s))
    \<and> QuicRelayConfig_validate (loaded_relay c) = Ok ()
    \<and> loaded_quotas c = AdmissionControl_new q \<and> 0 < max_sessions q \<and> 0 < max_flows_per_session q
    \<and> (\<forall>cover. loaded_cover_service c = Some cover \<longrightarrow> CoverServiceConfig_validate (loaded_cover_config cover) = Ok ())"
proof -
  obtain config b a where read: "config_read (env_toml env) fs p = Ok config" "config_version config = 1"
    and auth: "load_authenticator fs config = Some (Ok a)" and rest: "load_services env fs config b a = Ok c"
    using assms by (auto simp: load_def result_simps split: if_splits)
  obtain cs where cs: "load_credentials fs (config_credentials config) = Some (Ok cs)" and new: "Authenticator_new cs = Ok a"
    using auth by (auto simp: load_authenticator_def result_simps)
  obtain ts r cov q where parts: "load_targets (config_allowed_targets config) = Ok ts" "load_relay (config_limits config) = Ok r"
      "(case config_cover_service config of None \<Rightarrow> Ok None
        | Some cover \<Rightarrow> and_then (load_cover_service (env_dns env) cover) (\<lambda>c. Ok (Some c))) = Ok cov"
      "load_quota (config_limits config) = Ok q"
    and c: "loaded_authenticator c = a" "loaded_destinations c = DestinationPolicy_new ts" "loaded_relay c = r"
      "loaded_quotas c = AdmissionControl_new q" "loaded_cover_service c = cov"
    using rest by (auto simp: load_services_def result_simps split: if_splits)
  have all2: "list_all2 (\<lambda>e c. load_credential fs e = Some (Ok c)) (config_credentials config) cs"
    using cs by (simp add: load_credentials_Ok)
  have entries: "(\<exists>d \<in> set cs. cred_principal d = pid \<and> cred_secret d = secret) \<longleftrightarrow>
      (\<exists>e \<in> set (config_credentials config). pid = PrincipalId (cc_id e) \<and> read_secret fs (cc_secret_file e) = Some (Ok secret))"
    for pid secret
    using all2 by (rule loaded_entries)
  have files: "\<exists>f. fs (cc_secret_file e) = Some f \<and> file_private f" if "e \<in> set (config_credentials config)" for e
    using all2 that by (auto simp: list_all2_conv_all_nth in_set_conv_nth load_credential_Ok dest!: spec read_secret_private)
  have targets: "DestinationPolicy_allows (loaded_destinations c) a \<longleftrightarrow>
      (\<exists>t \<in> set (config_allowed_targets config). \<exists>s. SockAddr_parse t = Some s \<and> a = socket_of s)" for a
    using load_targets_Ok [OF parts(1)] by (auto simp: c DestinationPolicy_allows_def DestinationPolicy_new_def)
  have cover: "CoverServiceConfig_validate (loaded_cover_config cover) = Ok ()" if "loaded_cover_service c = Some cover" for cover
    using parts(3) that by (auto simp: c result_simps dest: load_cover_valid split: option.splits)
  show ?thesis
    using read files targets cover load_relay_valid [OF parts(2)] load_quota_positive [OF parts(4)]
      authenticator_new_exact(4) [OF new] entries c
    by (intro exI [of _ config] exI [of _ q]) simp
qed

theorem loaded_relay_sound_witness:
  "\<exists>c. load (sample_env (sample_config sample_credentials) (sample_config [])) (sample_files (sample_config sample_credentials)) [''node.toml''] = Some (Ok c)
     \<and> Authenticator_authenticate (loaded_authenticator c) (replicate 32 2) = Ok (PrincipalId 8)
     \<and> QuicRelayConfig_validate (loaded_relay c) = Ok ()"
proof -
  obtain c where c: "load (sample_env (sample_config sample_credentials) (sample_config []))
      (sample_files (sample_config sample_credentials)) [''node.toml''] = Some (Ok c)"
    using sample_load by blast
  from loaded_relay_sound [OF c] show ?thesis
    using c sample_secrets sample_config_read
    by (auto simp: sample_env_def sample_credentials_def sample_config_def)
qed

end
