(* ===== verification/Node_Credentials.thy ===== *)
theory Node_Credentials
  imports Node_Config
begin

text \<open>
  \<^verbatim>\<open>apps/velum-node/src/enrollment.rs\<close>: issuing and revoking client credentials. Issuing makes a secret,
  stores it in a file, adds it to the configuration and delivers the enrollment bundle; when a
  later step fails the earlier ones are undone. Every call on the file system is given its outcome;
  the terminal dialogue and the drawing of the QR code are not modelled, only whether it succeeds.
\<close>

section \<open>Options and errors\<close>

datatype Delivery = Qr | File path

record IssueOptions =
  io_config_path :: path
  io_client_name :: string
  io_relay_address :: SockAddr
  io_server_name :: string
  io_custom_ca :: bool
  io_delivery :: Delivery

datatype Selector = ById u64 | ByName string

datatype CommandError =
    ConfigFailed NodeError
  | InvalidClientName
  | LegacyCredential u64
  | ClientExists
  | PrincipalIdsExhausted
  | NoRandomness
  | CannotReadCertificate
  | InvalidEnrollment ProfileError
  | CannotEncodeEnrollment ProfileError
  | QrRefused
  | CannotCreateEnrollment
  | CannotWriteEnrollment
  | RollbackFailed CommandError NodeError
  | FinalCredential
  | CredentialNotFound
  | CleanupFailed u64
  | RelayNotSocketAddress
  | RelayUnspecified
  | MissingValue string
  | UnknownTrust string
  | OneDelivery
  | OneSelector
  | IdNotInteger
  | UnknownOption string
  | MissingOption string
  | UnknownCommand

text \<open>\<^verbatim>\<open>char::is_control\<close> on the bytes of a string: C0, DEL, and C1 as two bytes.\<close>

fun has_control :: "string \<Rightarrow> bool" where
  "has_control [] = False"
| "has_control (a # s) =
     (is_ascii_control a \<or> (byte_in 0xC2 0xC2 a \<and> s \<noteq> [] \<and> byte_in 0x80 0x9F (hd s)) \<or> has_control s)"

definition validate_client_name :: "string \<Rightarrow> (CommandError, unit) result" where
  "validate_client_name name =
     (if trim name = [] \<or> length name > 64 \<or> has_control name then Err InvalidClientName else Ok ())"

text \<open>One hyphen for a character that is not alphanumeric, whatever the number of its bytes.\<close>

definition slug_byte :: "char \<Rightarrow> string" where
  "slug_byte c =
     (if is_ascii_alphanumeric c then [ascii_lower c] else if byte_in 0x80 0xBF c then [] else ''-'')"

definition trim_hyphens :: "string \<Rightarrow> string" where
  "trim_hyphens s = rev (dropWhile (\<lambda>c. c = CHR ''-'') (rev (dropWhile (\<lambda>c. c = CHR ''-'') s)))"

definition slug :: "string \<Rightarrow> string" where
  "slug v = (let s = trim_hyphens (concat (map slug_byte v)) in if s = [] then ''client'' else s)"

definition parse_relay :: "string \<Rightarrow> (CommandError, SockAddr) result" where
  "parse_relay v =
     and_then (ok_or (SockAddr_parse v) RelayNotSocketAddress) (\<lambda>address.
       if ip_is_unspecified (sock_ip address) then Err RelayUnspecified else Ok address)"

section \<open>Arguments\<close>

text \<open>The options read so far. How the platform reads a path is the function \<open>pathbuf\<close>.\<close>

record issue_flags =
  fl_config_path :: path
  fl_client_name :: "string option"
  fl_relay_address :: "SockAddr option"
  fl_server_name :: "string option"
  fl_custom_ca :: bool
  fl_delivery :: "Delivery option"

fun issue_arguments :: "(string \<Rightarrow> path) \<Rightarrow> issue_flags \<Rightarrow> string list \<Rightarrow> (CommandError, issue_flags) result" where
  "issue_arguments pathbuf st [] = Ok st"
| "issue_arguments pathbuf st (flag # rest) =
     (if flag = ''--config'' then
        (case rest of [] \<Rightarrow> Err (MissingValue flag)
         | v # rest \<Rightarrow> issue_arguments pathbuf (st\<lparr>fl_config_path := pathbuf v\<rparr>) rest)
      else if flag = ''--name'' then
        (case rest of [] \<Rightarrow> Err (MissingValue flag)
         | v # rest \<Rightarrow> issue_arguments pathbuf (st\<lparr>fl_client_name := Some v\<rparr>) rest)
      else if flag = ''--relay'' then
        (case rest of [] \<Rightarrow> Err (MissingValue flag)
         | v # rest \<Rightarrow>
             (case parse_relay v of
                Inl e \<Rightarrow> Err e
              | Inr address \<Rightarrow> issue_arguments pathbuf (st\<lparr>fl_relay_address := Some address\<rparr>) rest))
      else if flag = ''--server-name'' then
        (case rest of [] \<Rightarrow> Err (MissingValue flag)
         | v # rest \<Rightarrow> issue_arguments pathbuf (st\<lparr>fl_server_name := Some v\<rparr>) rest)
      else if flag = ''--trust'' then
        (case rest of [] \<Rightarrow> Err (MissingValue flag)
         | v # rest \<Rightarrow>
             if v = ''system'' then issue_arguments pathbuf (st\<lparr>fl_custom_ca := False\<rparr>) rest
             else if v = ''custom-ca'' then issue_arguments pathbuf (st\<lparr>fl_custom_ca := True\<rparr>) rest
             else Err (UnknownTrust v))
      else if flag = ''--qr'' \<and> fl_delivery st = None then
        issue_arguments pathbuf (st\<lparr>fl_delivery := Some Qr\<rparr>) rest
      else if flag = ''--output'' \<and> fl_delivery st = None then
        (case rest of [] \<Rightarrow> Err (MissingValue flag)
         | v # rest \<Rightarrow> issue_arguments pathbuf (st\<lparr>fl_delivery := Some (File (pathbuf v))\<rparr>) rest)
      else if flag = ''--qr'' \<or> flag = ''--output'' then Err OneDelivery
      else Err (UnknownOption flag))"

definition parse_issue :: "(string \<Rightarrow> path) \<Rightarrow> path \<Rightarrow> string list \<Rightarrow> (CommandError, IssueOptions) result" where
  "parse_issue pathbuf default_config_path arguments =
     and_then (issue_arguments pathbuf
         \<lparr>fl_config_path = default_config_path, fl_client_name = None, fl_relay_address = None, fl_server_name = None,
          fl_custom_ca = False, fl_delivery = None\<rparr> arguments) (\<lambda>st.
     and_then (ok_or (fl_client_name st) (MissingOption ''--name'')) (\<lambda>name.
     and_then (ok_or (fl_relay_address st) (MissingOption ''--relay'')) (\<lambda>relay.
     and_then (ok_or (fl_server_name st) (MissingOption ''--server-name'')) (\<lambda>server.
     and_then (ok_or (fl_delivery st) (MissingOption ''--qr'')) (\<lambda>delivery.
       Ok \<lparr>io_config_path = fl_config_path st, io_client_name = name, io_relay_address = relay,
           io_server_name = server, io_custom_ca = fl_custom_ca st, io_delivery = delivery\<rparr>)))))"

definition parse_u64 :: "string \<Rightarrow> u64 option" where
  "parse_u64 s = map_option word_of_nat (parse_unsigned (2 ^ 64) s)"

fun revoke_arguments ::
  "(string \<Rightarrow> path) \<Rightarrow> path \<times> Selector option \<Rightarrow> string list \<Rightarrow> (CommandError, path \<times> Selector option) result" where
  "revoke_arguments pathbuf st [] = Ok st"
| "revoke_arguments pathbuf st (flag # rest) =
     (if flag = ''--config'' then
        (case rest of [] \<Rightarrow> Err (MissingValue flag)
         | v # rest \<Rightarrow> revoke_arguments pathbuf (pathbuf v, snd st) rest)
      else if flag = ''--id'' \<and> snd st = None then
        (case rest of [] \<Rightarrow> Err (MissingValue flag)
         | v # rest \<Rightarrow>
             (case parse_u64 v of
                None \<Rightarrow> Err IdNotInteger
              | Some i \<Rightarrow> revoke_arguments pathbuf (fst st, Some (ById i)) rest))
      else if flag = ''--name'' \<and> snd st = None then
        (case rest of [] \<Rightarrow> Err (MissingValue flag)
         | v # rest \<Rightarrow> revoke_arguments pathbuf (fst st, Some (ByName v)) rest)
      else if flag = ''--id'' \<or> flag = ''--name'' then Err OneSelector
      else Err (UnknownOption flag))"

definition parse_revoke :: "(string \<Rightarrow> path) \<Rightarrow> path \<Rightarrow> string list \<Rightarrow> (CommandError, path \<times> Selector) result" where
  "parse_revoke pathbuf default_config_path arguments =
     and_then (revoke_arguments pathbuf (default_config_path, None) arguments) (\<lambda>(p, selector).
     and_then (ok_or selector (MissingOption ''--id'')) (\<lambda>selector. Ok (p, selector)))"

section \<open>Issuing\<close>

text \<open>The outcome of each call of \<^verbatim>\<open>issue\<close> on the outside.\<close>

record issue_outcome =
  out_random :: "bytes option"
  out_qr :: bool
  out_secret :: write_outcome
  out_config :: write_outcome
  out_open :: bool
  out_mkdir :: bool
  out_deliver :: "nat option"
  out_discard :: bool
  out_rollback :: write_outcome
  out_remove :: bool

definition remove_file :: "bool \<Rightarrow> path \<Rightarrow> files \<Rightarrow> files" where
  "remove_file ok p fs = (if ok then fs(p := None) else fs)"

definition write_private_new ::
  "issue_outcome \<Rightarrow> path \<Rightarrow> string \<Rightarrow> files \<Rightarrow> (CommandError, unit) result \<times> files" where
  "write_private_new out p contents fs =
     (case parent p of
        None \<Rightarrow> (Err CannotCreateEnrollment, fs)
      | Some _ \<Rightarrow>
          if \<not> out_mkdir out then (Err CannotCreateEnrollment, fs)
          else if fs p \<noteq> None \<or> \<not> out_open out then (Err CannotCreateEnrollment, fs)
          else
            (case out_deliver out of
               None \<Rightarrow> (Ok (), fs(p \<mapsto> \<lparr>file_text = contents @ [LF], file_private = True\<rparr>))
             | Some n \<Rightarrow>
                 (Err CannotWriteEnrollment,
                  remove_file (out_discard out) p
                    (fs(p \<mapsto> \<lparr>file_text = take n (contents @ [LF]), file_private = True\<rparr>)))))"

text \<open>Every configured credential must have 32 bytes.\<close>

fun check_legacy :: "files \<Rightarrow> CredentialConfig list \<Rightarrow> (CommandError, unit) result option" where
  "check_legacy fs [] = Some (Ok ())"
| "check_legacy fs (c # rest) =
     (case read_secret fs (cc_secret_file c) of
        None \<Rightarrow> None
      | Some (Inl e) \<Rightarrow> Some (Err (ConfigFailed e))
      | Some (Inr secret) \<Rightarrow> if length secret \<noteq> 32 then Some (Err (LegacyCredential (cc_id c))) else check_legacy fs rest)"

definition next_principal :: "CredentialConfig list \<Rightarrow> u64 option" where
  "next_principal cs = checked_add (foldr max (map cc_id cs) 0) 1"

record prepared =
  pr_original :: Config
  pr_principal :: u64
  pr_secret_file :: path
  pr_secret :: bytes
  pr_bundle :: EnrollmentBundle
  pr_canonical :: string

definition issue_trust :: "files \<Rightarrow> Config \<Rightarrow> bool \<Rightarrow> (CommandError, EnrollmentTrust) result" where
  "issue_trust fs original custom_ca =
     (if custom_ca then
        (case fs (listener_certificate (config_listener original)) of
           None \<Rightarrow> Err CannotReadCertificate
         | Some f \<Rightarrow> if utf8_valid (file_text f) then Ok (TrustCustomCa (file_text f)) else Err CannotReadCertificate)
      else Ok TrustSystem)"

definition prepare_bundle ::
  "json \<Rightarrow> issue_outcome \<Rightarrow> IssueOptions \<Rightarrow> files \<Rightarrow> Config \<Rightarrow> u64 \<Rightarrow> path \<Rightarrow> bytes
   \<Rightarrow> (CommandError, prepared) result option" where
  "prepare_bundle j out options fs original pid secret_file secret =
     bind_run (Some (issue_trust fs original (io_custom_ca options))) (\<lambda>t.
     bind_run (map_option (map_err InvalidEnrollment)
         (EnrollmentBundle_new
            \<lparr>en_id = ''relay-'' @ decimal_string (unat pid), en_name = io_server_name options,
             en_relay_address = io_relay_address options, en_server_name = io_server_name options\<rparr> pid secret t)) (\<lambda>bundle.
     bind_run (map_option (map_err CannotEncodeEnrollment) (EnrollmentBundle_to_canonical_json j bundle)) (\<lambda>canonical.
       if io_delivery options = Qr \<and> \<not> out_qr out then Some (Err QrRefused)
       else Some (Ok \<lparr>pr_original = original, pr_principal = pid, pr_secret_file = secret_file,
                      pr_secret = secret, pr_bundle = bundle, pr_canonical = canonical\<rparr>))))"

definition prepare_issue ::
  "toml \<Rightarrow> json \<Rightarrow> issue_outcome \<Rightarrow> IssueOptions \<Rightarrow> files \<Rightarrow> (CommandError, prepared) result option" where
  "prepare_issue t j out options fs =
     bind_run (Some (validate_client_name (io_client_name options))) (\<lambda>_.
     bind_run (Some (map_err ConfigFailed (config_read t fs (io_config_path options)))) (\<lambda>original.
     bind_run (check_legacy fs (config_credentials original)) (\<lambda>_.
       if list_ex (\<lambda>c. cc_name c = Some (io_client_name options)) (config_credentials original)
       then Some (Err ClientExists)
       else
         (case next_principal (config_credentials original) of
            None \<Rightarrow> Some (Err PrincipalIdsExhausted)
          | Some pid \<Rightarrow>
              (case parent (io_config_path options) of
                 None \<Rightarrow> Some (Err (ConfigFailed NoParentDirectory))
               | Some base \<Rightarrow>
                   (case out_random out of
                      None \<Rightarrow> Some (Err NoRandomness)
                    | Some secret \<Rightarrow>
                        prepare_bundle j out options fs original pid
                          (base @ [''credentials'', slug (io_client_name options) @ ''-'' @ decimal_string (unat pid) @ ''.hex''])
                          secret))))))"

definition with_credential :: "Config \<Rightarrow> CredentialConfig \<Rightarrow> Config" where
  "with_credential original c = original\<lparr>config_credentials := config_credentials original @ [c]\<rparr>"

text \<open>The steps that change files; what is shown as a QR code is returned with them.\<close>

definition commit_issue ::
  "toml \<Rightarrow> issue_outcome \<Rightarrow> IssueOptions \<Rightarrow> prepared \<Rightarrow> files
   \<Rightarrow> (CommandError, unit) result \<times> files \<times> string option" where
  "commit_issue t out options pr fs =
     (case write_secret (out_secret out) (pr_secret_file pr) (pr_secret pr) fs of
        (Inl e, fs) \<Rightarrow> (Err (ConfigFailed e), fs, None)
      | (Inr _, fs) \<Rightarrow>
          (case config_write t (out_config out) (io_config_path options)
                  (with_credential (pr_original pr)
                     \<lparr>cc_id = pr_principal pr, cc_name = Some (io_client_name options), cc_secret_file = pr_secret_file pr\<rparr>) fs of
             (Inl e, fs) \<Rightarrow> (Err (ConfigFailed e), remove_file (out_remove out) (pr_secret_file pr) fs, None)
           | (Inr _, fs) \<Rightarrow>
               (case io_delivery options of
                  Qr \<Rightarrow> (Ok (), fs, Some (pr_canonical pr))
                | File p \<Rightarrow>
                    (case write_private_new out p (pr_canonical pr) fs of
                       (Inr _, fs) \<Rightarrow> (Ok (), fs, None)
                     | (Inl e, fs) \<Rightarrow>
                         (case config_write t (out_rollback out) (io_config_path options) (pr_original pr) fs of
                            (Inr _, fs) \<Rightarrow> (Err e, remove_file (out_remove out) (pr_secret_file pr) fs, None)
                          | (Inl e2, fs) \<Rightarrow>
                              (Err (RollbackFailed e e2), remove_file (out_remove out) (pr_secret_file pr) fs, None))))))"

definition issue ::
  "toml \<Rightarrow> json \<Rightarrow> issue_outcome \<Rightarrow> IssueOptions \<Rightarrow> files
   \<Rightarrow> ((CommandError, unit) result \<times> files \<times> string option) option" where
  "issue t j out options fs =
     (case prepare_issue t j out options fs of
        None \<Rightarrow> None
      | Some (Inl e) \<Rightarrow> Some (Err e, fs, None)
      | Some (Inr pr) \<Rightarrow> Some (commit_issue t out options pr fs))"

section \<open>Revoking\<close>

fun selects :: "Selector \<Rightarrow> CredentialConfig \<Rightarrow> bool" where
  "selects (ById i) c = (cc_id c = i)"
| "selects (ByName name) c = (cc_name c = Some name)"

fun remove_first :: "('a \<Rightarrow> bool) \<Rightarrow> 'a list \<Rightarrow> 'a list" where
  "remove_first P [] = []"
| "remove_first P (x # xs) = (if P x then xs else x # remove_first P xs)"

text \<open>\<open>removal\<close> is the outcome of removing the secret file: done, not found, or another error.\<close>

definition revoke ::
  "toml \<Rightarrow> write_outcome \<Rightarrow> bool \<Rightarrow> path \<Rightarrow> Selector \<Rightarrow> files \<Rightarrow> (CommandError, unit) result \<times> files" where
  "revoke t out removal p selector fs =
     (case config_read t fs p of
        Inl e \<Rightarrow> (Err (ConfigFailed e), fs)
      | Inr config \<Rightarrow>
          if length (config_credentials config) = 1 then (Err FinalCredential, fs)
          else
            (case find (selects selector) (config_credentials config) of
               None \<Rightarrow> (Err CredentialNotFound, fs)
             | Some removed \<Rightarrow>
                 (case config_write t out p
                         (config\<lparr>config_credentials := remove_first (selects selector) (config_credentials config)\<rparr>) fs of
                    (Inl e, fs) \<Rightarrow> (Err (ConfigFailed e), fs)
                  | (Inr _, fs) \<Rightarrow>
                      if fs (cc_secret_file removed) = None then (Ok (), fs)
                      else if removal then (Ok (), remove_file True (cc_secret_file removed) fs)
                      else (Err (CleanupFailed (cc_id removed)), fs))))"

section \<open>Commands\<close>

definition command ::
  "toml \<Rightarrow> json \<Rightarrow> (string \<Rightarrow> path) \<Rightarrow> path \<Rightarrow> issue_outcome \<Rightarrow> string \<Rightarrow> string list \<Rightarrow> files
   \<Rightarrow> ((CommandError, unit) result \<times> files \<times> string option) option" where
  "command t j pathbuf default_config_path out verb arguments fs =
     (if verb = ''issue'' then
        (case parse_issue pathbuf default_config_path arguments of
           Inl e \<Rightarrow> Some (Err e, fs, None)
         | Inr options \<Rightarrow> issue t j out options fs)
      else if verb = ''revoke'' then
        (case parse_revoke pathbuf default_config_path arguments of
           Inl e \<Rightarrow> Some (Err e, fs, None)
         | Inr (p, selector) \<Rightarrow> (case revoke t (out_config out) (out_remove out) p selector fs of (r, fs) \<Rightarrow> Some (r, fs, None)))
      else Some (Err UnknownCommand, fs, None))"

section \<open>Samples\<close>

definition sample_options :: "Delivery \<Rightarrow> IssueOptions" where
  "sample_options delivery = \<lparr>io_config_path = [''node.toml''], io_client_name = ''Pad'',
     io_relay_address = SockAddr_new (V4 1) 443, io_server_name = ''relay.example'', io_custom_ca = False, io_delivery = delivery\<rparr>"

definition sample_written :: write_outcome where
  "sample_written = \<lparr>wo_mkdir = True, wo_write = None, wo_chmod = True, wo_rename = True\<rparr>"

definition sample_outcome :: "bool \<Rightarrow> issue_outcome" where
  "sample_outcome opens = \<lparr>out_random = Some (replicate 32 3), out_qr = True, out_secret = sample_written,
     out_config = sample_written, out_open = opens, out_mkdir = True, out_deliver = None, out_discard = True,
     out_rollback = sample_written, out_remove = True\<rparr>"

definition sample_old :: Config where
  "sample_old = sample_config [hd sample_credentials]"

definition sample_issued :: CredentialConfig where
  "sample_issued = \<lparr>cc_id = 8, cc_name = Some ''Pad'', cc_secret_file = [''credentials'', ''pad-8.hex'']\<rparr>"

definition sample_json :: json where
  "sample_json = \<lparr>json_read = (\<lambda>_. Err ''no''), json_write = (\<lambda>_. Ok ''yes'')\<rparr>"

section \<open>Preparation\<close>

lemma map_option_Some_result: "map_option (map_err g) r = Some (Ok a) \<longleftrightarrow> r = Some (Ok a)"
  by (auto simp: map_err_Ok_iff)

lemma foldr_max: "x \<in> set xs \<Longrightarrow> x \<le> foldr max xs (0 :: 'a::len word)"
  by (induction xs) (auto simp: le_max_iff_disj)

lemma next_principal_fresh:
  assumes "next_principal cs = Some pid" "c \<in> set cs"
  shows "cc_id c < pid"
proof -
  let ?m = "foldr max (map cc_id cs) 0"
  have "unat ?m + 1 < 2 ^ 64" and pid: "pid = ?m + 1"
    using assms(1) by (auto simp: next_principal_def checked_add_def split: if_splits)
  then have "?m < pid"
    by (simp add: word_less_nat_alt unat_word_ariths)
  moreover have "cc_id c \<le> ?m"
    using assms(2) by (intro foldr_max) simp
  ultimately show ?thesis
    by (rule le_less_trans [rotated])
qed

lemma check_legacy_Ok:
  "check_legacy fs cs = Some (Ok ()) \<Longrightarrow> c \<in> set cs \<Longrightarrow> \<exists>secret. read_secret fs (cc_secret_file c) = Some (Ok secret) \<and> length secret = 32"
  by (induction cs) (auto split: option.splits sum.splits if_splits)

lemma prepared_issue:
  assumes "prepare_issue t j out options fs = Some (Ok pr)"
  shows "config_read t fs (io_config_path options) = Ok (pr_original pr)"
    and "check_legacy fs (config_credentials (pr_original pr)) = Some (Ok ())"
    and "next_principal (config_credentials (pr_original pr)) = Some (pr_principal pr)"
    and "\<forall>c \<in> set (config_credentials (pr_original pr)). cc_name c \<noteq> Some (io_client_name options)"
    and "\<exists>n tr. EnrollmentBundle_new n (pr_principal pr) (pr_secret pr) tr = Some (Ok (pr_bundle pr))"
    and "EnrollmentBundle_to_canonical_json j (pr_bundle pr) = Some (Ok (pr_canonical pr))"
    and "io_config_path options \<noteq> []"
  using assms
  by (auto simp: prepare_issue_def prepare_bundle_def parent_def list_ex_iff result_simps map_option_Some_result
      split: if_splits option.splits) blast+

lemma prepared_paths:
  assumes "prepare_issue t j out options fs = Some (Ok pr)"
  shows "length (pr_secret_file pr) = Suc (length (io_config_path options))" "out_random out = Some (pr_secret pr)"
  using assms
  by (auto simp: prepare_issue_def prepare_bundle_def parent_def result_simps map_option_Some_result
      split: if_splits option.splits)

lemma new_bundle:
  assumes "EnrollmentBundle_new n pid secret tr = Some (Ok b)"
  shows "EnrollmentBundle_credential_bytes b = Some (Ok secret)" "length secret = 32" "principal_id b = pid"
proof -
  note valid = assms [unfolded EnrollmentBundle_new_def]
  have "secret \<noteq> []"
    using validated_bundle(2) [OF valid] by (auto simp: decode_hex_def encode_hex_def)
  then show "EnrollmentBundle_credential_bytes b = Some (Ok secret)" "length secret = 32" "principal_id b = pid"
    using validated_bundle(1,2) [OF valid] decode_encode_hex [of secret]
    by (auto simp: EnrollmentBundle_credential_bytes_def encode_hex_lower CREDENTIAL_BYTES_def)
qed

section \<open>Commitment\<close>

lemma write_secret_cases:
  assumes "write_secret out p secret fs = (r, fs')"
  shows "(\<exists>e. r = Err e \<and> (\<forall>q. q \<noteq> p \<longrightarrow> fs' q = fs q) \<and> ((\<forall>n. wo_write out \<noteq> Some (Stopped n)) \<longrightarrow> wo_chmod out \<longrightarrow> fs' = fs))
    \<or> (r = Ok () \<and> fs p = None
       \<and> fs' = fs(p \<mapsto> \<lparr>file_text = encode_hex secret @ [LF], file_private = True\<rparr>))"
  using assms
  by (auto simp: write_secret_def parent_def fs_write_def restrict_permissions_def Let_def
      split: option.splits write_failure.splits if_splits)

lemma write_private_cases:
  assumes "write_private_new out p contents fs = (r, fs')"
  shows "(\<exists>e. r = Err e \<and> (\<forall>q. q \<noteq> p \<longrightarrow> fs' q = fs q) \<and> (out_discard out \<longrightarrow> fs' = fs))
    \<or> (r = Ok () \<and> fs p = None \<and> fs' = fs(p \<mapsto> \<lparr>file_text = contents @ [LF], file_private = True\<rparr>))"
  using assms
  by (auto simp: write_private_new_def remove_file_def fun_upd_idem split: option.splits if_splits)

lemma temporary_length: "length (with_extension p e) = length p"
  by (simp add: with_extension_def)

text \<open>What is in the files after a successful commitment.\<close>

lemma committed_issue:
  assumes "prepare_issue t j out options fs = Some (Ok pr)" "commit_issue t out options pr fs = (Ok (), fs', shown)"
    and "toml_law t" "SockAddr_parse (listener_bind (config_listener (pr_original pr))) \<noteq> None"
  shows "config_read t fs' (io_config_path options) = Ok (with_credential (pr_original pr)
      \<lparr>cc_id = pr_principal pr, cc_name = Some (io_client_name options), cc_secret_file = pr_secret_file pr\<rparr>)"
    and "fs' (pr_secret_file pr) = Some \<lparr>file_text = encode_hex (pr_secret pr) @ [LF], file_private = True\<rparr>"
    and "\<And>q. fs q \<noteq> None \<Longrightarrow> q \<noteq> io_config_path options \<Longrightarrow> q \<noteq> with_extension (io_config_path options) ''toml.tmp''
      \<Longrightarrow> fs' q = fs q"
    and "case io_delivery options of Qr \<Rightarrow> shown = Some (pr_canonical pr)
      | File d \<Rightarrow> fs' d = Some \<lparr>file_text = pr_canonical pr @ [LF], file_private = True\<rparr>"
proof -
  let ?p = "io_config_path options"
  let ?tmp = "with_extension ?p ''toml.tmp''"
  let ?sf = "pr_secret_file pr"
  let ?new = "with_credential (pr_original pr)
      \<lparr>cc_id = pr_principal pr, cc_name = Some (io_client_name options), cc_secret_file = ?sf\<rparr>"
  have sf: "?sf \<noteq> ?p" "?sf \<noteq> ?tmp"
    using prepared_paths(1) [OF assms(1)] temporary_length [of ?p] by (metis n_not_Suc_n)+
  obtain fs1 fs2 where s1: "write_secret (out_secret out) ?sf (pr_secret pr) fs = (Ok (), fs1)"
    and s2: "config_write t (out_config out) ?p ?new fs1 = (Ok (), fs2)"
    and s3: "case io_delivery options of Qr \<Rightarrow> fs' = fs2 \<and> shown = Some (pr_canonical pr)
      | File d \<Rightarrow> write_private_new out d (pr_canonical pr) fs2 = (Ok (), fs')"
    using assms(2) by (auto simp: commit_issue_def split: prod.splits sum.splits Delivery.splits)
  have fs1: "fs ?sf = None" "fs1 = fs(?sf \<mapsto> \<lparr>file_text = encode_hex (pr_secret pr) @ [LF], file_private = True\<rparr>)"
    using write_secret_cases [OF s1] by auto
  have fs2: "fs2 ?p \<noteq> None" "\<And>q. q \<noteq> ?p \<Longrightarrow> q \<noteq> ?tmp \<Longrightarrow> fs2 q = fs1 q"
    using config_write_cases [OF s2] by auto
  have read2: "config_read t fs2 ?p = Ok ?new"
    by (rule config_write_read [OF assms(3) s2]) (simp add: with_credential_def assms(4))
  have kept: "fs' q = fs2 q" if "fs2 q \<noteq> None" for q
  proof (cases "io_delivery options")
    case (File d)
    then have "write_private_new out d (pr_canonical pr) fs2 = (Ok (), fs')"
      using s3 by simp
    from write_private_cases [OF this] that show ?thesis
      by auto
  qed (use s3 in simp)
  show "config_read t fs' ?p = Ok ?new"
    using read2 kept [OF fs2(1)] by (simp add: config_read_def)
  show "fs' ?sf = Some \<lparr>file_text = encode_hex (pr_secret pr) @ [LF], file_private = True\<rparr>"
    using kept [of ?sf] fs2(2) [OF sf] fs1 by simp
  show "fs' q = fs q" if "fs q \<noteq> None" "q \<noteq> ?p" "q \<noteq> ?tmp" for q
    using kept [of q] fs2(2) [OF that(2,3)] fs1 that(1) by (cases "q = ?sf") auto
  show "case io_delivery options of Qr \<Rightarrow> shown = Some (pr_canonical pr)
      | File d \<Rightarrow> fs' d = Some \<lparr>file_text = pr_canonical pr @ [LF], file_private = True\<rparr>"
  proof (cases "io_delivery options")
    case (File d)
    then have "write_private_new out d (pr_canonical pr) fs2 = (Ok (), fs')"
      using s3 by simp
    from write_private_cases [OF this] File show ?thesis
      by simp
  qed (use s3 in simp)
qed

text \<open>What a failed commitment leaves, when the files it removes can be removed.\<close>

lemma failed_commit:
  assumes "commit_issue t out options pr fs = (Err e, fs', shown)" "pr_original pr = config"
    and "toml_law t" "SockAddr_parse (listener_bind (config_listener config)) \<noteq> None"
    and "\<forall>n. wo_write (out_secret out) \<noteq> Some (Stopped n)" "wo_chmod (out_secret out)" "out_remove out" "out_discard out"
    and "io_config_path options \<noteq> []" "length (pr_secret_file pr) = Suc (length (io_config_path options))"
    and "config_read t fs (io_config_path options) = Ok config" "\<forall>e1 e2. e \<noteq> RollbackFailed e1 e2"
  shows "config_read t fs' (io_config_path options) = Ok config \<and> shown = None
    \<and> (\<forall>q. q \<noteq> io_config_path options \<longrightarrow> q \<noteq> with_extension (io_config_path options) ''toml.tmp'' \<longrightarrow> fs' q = fs q)"
proof -
  let ?p = "io_config_path options" and ?sf = "pr_secret_file pr"
  let ?tmp = "with_extension ?p ''toml.tmp''"
  let ?new = "with_credential config
      \<lparr>cc_id = pr_principal pr, cc_name = Some (io_client_name options), cc_secret_file = ?sf\<rparr>"
  have sf: "?sf \<noteq> ?p" "?sf \<noteq> ?tmp"
    using assms(10) temporary_length [of ?p] by (metis n_not_Suc_n)+
  have tmp: "?tmp \<noteq> ?p"
    using temporary_differs [OF assms(9)] .
  obtain r1 fs1 where s1: "write_secret (out_secret out) ?sf (pr_secret pr) fs = (r1, fs1)"
    by fastforce
  obtain r2 fs2 where s2: "config_write t (out_config out) ?p ?new fs1 = (r2, fs2)"
    by fastforce
  consider (secret) e1 where "r1 = Err e1" | (config) e2 where "r1 = Ok ()" "r2 = Err e2" | (deliver) "r1 = Ok ()" "r2 = Ok ()"
    by (cases r1; cases r2) auto
  then show ?thesis
  proof cases
    case secret
    then have "fs1 = fs"
      using write_secret_cases [OF s1] assms(5,6) by auto
    then show ?thesis
      using assms(1,2,11) secret s1 by (simp add: commit_issue_def)
  next
    case config
    then have fs1: "fs ?sf = None" "\<And>q. q \<noteq> ?sf \<Longrightarrow> fs1 q = fs q"
      using write_secret_cases [OF s1] by auto
    have fs2: "\<And>q. q \<noteq> ?tmp \<Longrightarrow> fs2 q = fs1 q"
      using config_write_cases [OF s2] config(2) by auto
    have "fs' = fs2(?sf := None)" "shown = None"
      using assms(1,2,7) config s1 s2 by (auto simp: commit_issue_def remove_file_def)
    then show ?thesis
      using fs1 fs2 sf tmp assms(11) by (auto simp: config_read_def)
  next
    case deliver
    then have fs1: "fs ?sf = None" "\<And>q. q \<noteq> ?sf \<Longrightarrow> fs1 q = fs q"
      using write_secret_cases [OF s1] by auto
    have fs2: "\<And>q. q \<noteq> ?p \<Longrightarrow> q \<noteq> ?tmp \<Longrightarrow> fs2 q = fs1 q"
      using config_write_cases [OF s2] deliver(2) by auto
    obtain d r3 fs3 where d: "io_delivery options = File d" and s3: "write_private_new out d (pr_canonical pr) fs2 = (r3, fs3)"
      using assms(1,2) deliver s1 s2 by (cases "io_delivery options") (fastforce simp: commit_issue_def)+
    obtain r4 fs4 where s4: "config_write t (out_rollback out) ?p config fs3 = (r4, fs4)"
      by fastforce
    have r: "r3 = Err e" "r4 = Ok ()" "fs' = fs4(?sf := None)" "shown = None"
      using assms(1,2,7,12) deliver s1 s2 s3 s4 d
      by (auto simp: commit_issue_def remove_file_def split: sum.splits)
    have "fs3 = fs2"
      using write_private_cases [OF s3] r(1) assms(8) by auto
    moreover have "config_read t fs4 ?p = Ok config"
      using config_write_read [OF assms(3) s4 [unfolded r(2)] assms(4)] .
    moreover have "\<And>q. q \<noteq> ?p \<Longrightarrow> q \<noteq> ?tmp \<Longrightarrow> fs4 q = fs3 q"
      using config_write_cases [OF s4] r(2) by auto
    ultimately show ?thesis
      using r(3,4) fs1 fs2 sf by (auto simp: config_read_def)
  qed
qed

section \<open>Arguments are understood\<close>

lemma issue_arguments_understood:
  assumes "parse_relay relay = Ok (io_relay_address options)" "pathbuf config = io_config_path options"
    and "pathbuf output = d"
  shows "parse_issue pathbuf q ([''--config'', config, ''--name'', io_client_name options, ''--relay'', relay,
        ''--server-name'', io_server_name options, ''--trust'', if io_custom_ca options then ''custom-ca'' else ''system'']
      @ [''--output'', output]) = Ok (options\<lparr>io_delivery := File d\<rparr>)"
  using assms by (simp add: parse_issue_def ok_or_def)

lemma revoke_arguments_understood:
  "parse_revoke pathbuf q [''--id'', decimal_string (unat i)] = Ok (q, ById i)"
  "parse_revoke pathbuf q [''--name'', name] = Ok (q, ByName name)"
proof -
  have "unat i < 2 ^ 64"
    using unat_less_power [of i] by simp
  then have "parse_u64 (decimal_string (unat i)) = Some i"
    by (simp add: parse_u64_def parse_decimal_string)
  then show "parse_revoke pathbuf q [''--id'', decimal_string (unat i)] = Ok (q, ById i)"
    "parse_revoke pathbuf q [''--name'', name] = Ok (q, ByName name)"
    by (simp_all add: parse_revoke_def ok_or_def)
qed

lemma issue_arguments_relay:
  "issue_arguments pathbuf st arguments = Ok st' \<Longrightarrow> fl_relay_address st' = Some a
   \<Longrightarrow> fl_relay_address st = Some a \<or> \<not> ip_is_unspecified (sock_ip a)"
  by (induction pathbuf st arguments rule: issue_arguments.induct)
    (auto simp: parse_relay_def result_simps split: if_splits list.splits sum.splits)

text \<open>The relay of an accepted command line is an address clients can reach.\<close>

lemma issued_relay_specified:
  "parse_issue pathbuf q arguments = Ok options \<Longrightarrow> \<not> ip_is_unspecified (sock_ip (io_relay_address options))"
  by (auto simp: parse_issue_def result_simps dest!: issue_arguments_relay)

section \<open>The authenticator of an issued and of a revoked client\<close>

lemma load_authenticator_Ok:
  "load_authenticator fs config = Some (Ok a) \<longleftrightarrow>
     (\<exists>cs. load_credentials fs (config_credentials config) = Some (Ok cs) \<and> Authenticator_new cs = Ok a)"
  by (auto simp: load_authenticator_def result_simps)

lemma loaded_principals:
  assumes "list_all2 (\<lambda>e c. load_credential fs e = Some (Ok c)) es cs"
  shows "map cred_principal cs = map (\<lambda>e. PrincipalId (cc_id e)) es"
  using assms by (induction rule: list_all2_induct) (auto simp: load_credential_Ok)

lemma load_appended:
  assumes load: "load_authenticator fs config = Some (Ok a)" "check_legacy fs (config_credentials config) = Some (Ok ())"
    and same: "\<And>e. e \<in> set (config_credentials config) \<Longrightarrow> fs' (cc_secret_file e) = fs (cc_secret_file e)"
    and new: "read_secret fs' (cc_secret_file c) = Some (Ok secret)" "length secret = 32"
      "\<And>e. e \<in> set (config_credentials config) \<Longrightarrow> cc_id e \<noteq> cc_id c"
      "\<And>pid. Authenticator_authenticate a secret \<noteq> Ok pid"
  shows "\<exists>a'. load_authenticator fs' (with_credential config c) = Some (Ok a')
    \<and> (\<forall>s pid. Authenticator_authenticate a' s = Ok pid \<longleftrightarrow>
          Authenticator_authenticate a s = Ok pid \<or> (s = secret \<and> pid = PrincipalId (cc_id c)))"
proof -
  let ?es = "config_credentials config" and ?d = "\<lparr>cred_principal = PrincipalId (cc_id c), cred_secret = secret\<rparr>"
  obtain cs where cs: "load_credentials fs ?es = Some (Ok cs)" and a: "Authenticator_new cs = Ok a"
    using load(1) by (auto simp: load_authenticator_Ok)
  note all2 = cs [unfolded load_credentials_Ok]
  note exact = authenticator_new_exact(4) [OF a]
  have "cred_principal ` set cs = (\<lambda>e. PrincipalId (cc_id e)) ` set ?es"
    using arg_cong [OF loaded_principals [OF all2], of set] by simp
  then have "cred_principal ?d \<notin> cred_principal ` set cs"
    by (simp add: image_iff) (metis new(3))
  moreover have "cred_secret ?d \<notin> cred_secret ` set cs"
    using new(4) exact by auto
  moreover have "\<forall>d \<in> set cs. length (cred_secret d) = length (cred_secret ?d)"
  proof
    fix d assume "d \<in> set cs"
    then obtain e where "e \<in> set ?es" "read_secret fs (cc_secret_file e) = Some (Ok (cred_secret d))"
      using loaded_entries [OF all2, of "cred_principal d" "cred_secret d"] by auto
    with check_legacy_Ok [OF load(2)] new(2) show "length (cred_secret d) = length (cred_secret ?d)"
      by fastforce
  qed
  ultimately obtain a' where a': "Authenticator_new (cs @ [?d]) = Ok a'"
    using authenticator_append [OF a, of ?d] by blast
  have "load_credentials fs' ?es = Some (Ok cs)"
    using load_credentials_cong [of ?es fs' fs] same cs by simp
  then have "load_credentials fs' (config_credentials (with_credential config c)) = Some (Ok (cs @ [?d]))"
    using new(1,2) by (auto simp: load_credentials_Ok with_credential_def load_credential_Ok intro!: list_all2_appendI)
  then show ?thesis
    using a' authenticator_new_exact(4) [OF a'] exact by (auto simp: load_authenticator_Ok)
qed

lemma remove_first_split:
  "find P xs = Some x \<Longrightarrow> P x \<and> (\<exists>ys zs. xs = ys @ x # zs \<and> remove_first P xs = ys @ zs)"
proof (induction xs)
  case (Cons y xs)
  show ?case
  proof (cases "P y")
    case False
    then obtain ys zs where "P x" "y # xs = (y # ys) @ x # zs" "remove_first P (y # xs) = (y # ys) @ zs"
      using Cons by auto
    then show ?thesis
      by blast
  qed (use Cons.prems in \<open>auto intro: exI [of _ "[]"]\<close>)
qed simp

lemma loaded_files_distinct:
  assumes "list_all2 (\<lambda>e c. load_credential fs e = Some (Ok c)) es cs" "distinct (map cred_secret cs)"
  shows "distinct (map cc_secret_file es)"
proof -
  have "map cred_secret cs = map (\<lambda>p. projr (the (read_secret fs p))) (map cc_secret_file es)"
    using assms(1) by (induction rule: list_all2_induct) (auto simp: load_credential_Ok)
  then show ?thesis
    using assms(2) by (metis distinct_map)
qed

lemma load_removed:
  assumes load: "load_authenticator fs config = Some (Ok a)" and split: "config_credentials config = ys @ x # zs"
    and same: "\<And>e. e \<in> set (ys @ zs) \<Longrightarrow> cc_secret_file e \<noteq> cc_secret_file x \<Longrightarrow> fs' (cc_secret_file e) = fs (cc_secret_file e)"
  shows "\<exists>a'. load_authenticator fs' (config\<lparr>config_credentials := ys @ zs\<rparr>) = Some (Ok a')
    \<and> (\<forall>s pid. Authenticator_authenticate a' s = Ok pid \<longleftrightarrow>
          Authenticator_authenticate a s = Ok pid \<and> pid \<noteq> PrincipalId (cc_id x))"
proof -
  let ?R = "\<lambda>e c. load_credential fs e = Some (Ok c)"
  obtain cs where cs: "list_all2 ?R (ys @ x # zs) cs" and a: "Authenticator_new cs = Ok a"
    using load by (auto simp: load_authenticator_Ok split load_credentials_Ok)
  then obtain us d vs where parts: "list_all2 ?R ys us" "list_all2 ?R zs vs" "?R x d" "cs = us @ d # vs"
    by (auto simp: list_all2_append1 list_all2_Cons1)
  note dist = authenticator_new_exact(1,2) [OF a]
  have "\<forall>c \<in> set (us @ vs). length (cred_secret c) = the (secret_length a)"
    using authenticator_new_exact(3) [OF a] unfolding parts(4) by fastforce
  then obtain a' where a': "Authenticator_new (us @ vs) = Ok a'"
    using authenticator_new_total [of "us @ vs" "the (secret_length a)"] dist by (auto simp: parts(4))
  have "cc_secret_file e \<noteq> cc_secret_file x" if "e \<in> set (ys @ zs)" for e
    using loaded_files_distinct [OF cs dist(2)] that by (auto simp: image_iff)
  then have "load_credentials fs' (ys @ zs) = Some (Ok (us @ vs))"
    using load_credentials_cong [of "ys @ zs" fs' fs] same parts(1,2)
    by (simp add: load_credentials_Ok list_all2_appendI)
  moreover have "Authenticator_authenticate a' s = Ok q \<longleftrightarrow>
      Authenticator_authenticate a s = Ok q \<and> q \<noteq> PrincipalId (cc_id x)" for s q
  proof -
    have "cred_principal d = PrincipalId (cc_id x)"
      using parts(3) by (auto simp: load_credential_Ok)
    moreover have "\<forall>c \<in> set us \<union> set vs. cred_principal c \<noteq> cred_principal d"
      using dist(1) by (auto simp: parts(4) image_iff)
    ultimately show ?thesis
      unfolding authenticator_new_exact(4) [OF a'] authenticator_new_exact(4) [OF a] parts(4) by auto
  qed
  ultimately show ?thesis
    using a' by (simp add: load_authenticator_Ok)
qed

text \<open>\<^verbatim>\<open>revoke\<close> either changes nothing that is read later, or writes the configuration without one credential.\<close>

lemma revoke_cases:
  assumes "config_read t fs p = Ok config" "revoke t out removal p selector fs = (r, fs')"
  shows "\<not> (r = Ok () \<or> (\<exists>i. r = Err (CleanupFailed i))) \<and> (\<forall>q. q \<noteq> with_extension p ''toml.tmp'' \<longrightarrow> fs' q = fs q)
    \<or> (\<exists>x ys zs fs1. selects selector x \<and> config_credentials config = ys @ x # zs
        \<and> config_write t out p (config\<lparr>config_credentials := ys @ zs\<rparr>) fs = (Ok (), fs1)
        \<and> (\<forall>q. q \<noteq> cc_secret_file x \<longrightarrow> fs' q = fs1 q)
        \<and> (\<forall>e. r = Err e \<longrightarrow> (\<exists>i. e = CleanupFailed i)) \<and> (r = Ok () \<longrightarrow> fs' (cc_secret_file x) = None))"
proof (cases "length (config_credentials config) = 1 \<or> find (selects selector) (config_credentials config) = None")
  case True
  then have "fs' = fs \<and> (r = Err FinalCredential \<or> r = Err CredentialNotFound)"
    using assms by (auto simp: revoke_def split: if_splits)
  then show ?thesis
    by auto
next
  case False
  then obtain x ys zs where found: "find (selects selector) (config_credentials config) = Some x"
    and x: "selects selector x" "config_credentials config = ys @ x # zs"
      "remove_first (selects selector) (config_credentials config) = ys @ zs"
    using remove_first_split by fastforce
  obtain r1 fs1 where s1: "config_write t out p (config\<lparr>config_credentials := ys @ zs\<rparr>) fs = (r1, fs1)"
    by fastforce
  have r: "(r, fs') = (case r1 of Inl e \<Rightarrow> (Err (ConfigFailed e), fs1)
      | Inr _ \<Rightarrow> if fs1 (cc_secret_file x) = None then (Ok (), fs1)
          else if removal then (Ok (), fs1(cc_secret_file x := None)) else (Err (CleanupFailed (cc_id x)), fs1))"
    unfolding assms(2) [symmetric] using assms(1) False found s1 x(3)
    by (auto simp: revoke_def remove_file_def split: sum.splits)
  show ?thesis
  proof (cases r1)
    case (Inl e)
    then show ?thesis
      using r config_write_cases [OF s1] by auto
  next
    case (Inr u)
    then have "(\<forall>q. q \<noteq> cc_secret_file x \<longrightarrow> fs' q = fs1 q) \<and> (\<forall>e. r = Err e \<longrightarrow> (\<exists>i. e = CleanupFailed i))
        \<and> (r = Ok () \<longrightarrow> fs' (cc_secret_file x) = None)"
      using r by (auto split: if_splits)
    moreover have "config_write t out p (config\<lparr>config_credentials := ys @ zs\<rparr>) fs = (Ok (), fs1)"
      using s1 Inr by simp
    ultimately show ?thesis
      using x(1,2) by blast
  qed
qed

section \<open>A sample run\<close>

lemma sample_bundle:
  "\<exists>b. EnrollmentBundle_new \<lparr>en_id = ''relay-8'', en_name = ''relay.example'', en_relay_address = SockAddr_new (V4 1) 443,
      en_server_name = ''relay.example''\<rparr> 8 (replicate 32 3) TrustSystem = Some (Ok b)
    \<and> EnrollmentBundle_to_canonical_json sample_json b = Some (Ok ''yes'')"
proof -
  have hex: "decode_hex (encode_hex (replicate 32 3)) = Some (Ok (replicate 32 3))"
    by (rule decode_encode_hex) simp
  have ids: "validate_identifier ''relay-8'' f = Ok ()" "trim ''relay.example'' = ''relay.example''" for f
    by (simp add: validate_identifier_def identifier_byte_def identifier_start_def is_ascii_lower_def is_ascii_digit_def) code_simp
  show ?thesis
    using hex
    by (simp add: EnrollmentBundle_new_def EnrollmentBundle_validate_and_normalize_def ids
        sample_domains sample_server SockAddr_new_def CREDENTIAL_BYTES_def trust_invalid_def
        EnrollmentBundle_to_canonical_json_def sample_json_def encode_hex_lower)
qed

lemma sample_names: "slug ''Pad'' = ''pad''" "validate_client_name ''Pad'' = Ok ()" "decimal_string 8 = ''8''"
  by code_simp+

lemma sample_prepared:
  "\<exists>pr. prepare_issue (sample_toml sample_old b) sample_json (sample_outcome opens) (sample_options delivery) (sample_files sample_old)
        = Some (Ok pr) \<and> pr_original pr = sample_old \<and> pr_principal pr = 8
      \<and> pr_secret_file pr = [''credentials'', ''pad-8.hex''] \<and> pr_secret pr = replicate 32 3 \<and> pr_canonical pr = ''yes''"
proof -
  note read = sample_config_read [of "[hd sample_credentials]" b, folded sample_old_def]
  have "check_legacy (sample_files sample_old) (config_credentials sample_old) = Some (Ok ())"
    by (simp add: sample_old_def sample_config_def sample_credentials_def sample_secrets)
  moreover have "next_principal (config_credentials sample_old) = Some 8"
    "list_ex (\<lambda>c. cc_name c = Some ''Pad'') (config_credentials sample_old) = False"
    by (simp_all add: next_principal_def sample_old_def sample_config_def sample_credentials_def checked_add_def)
  ultimately show ?thesis
    using sample_bundle read
    by (auto simp: prepare_issue_def prepare_bundle_def sample_options_def sample_outcome_def sample_names parent_def map_err_def issue_trust_def)
qed

lemma sample_temporary: "with_extension [''node.toml''] ''toml.tmp'' = [''node.toml.tmp'']"
  by code_simp

lemma sample_law: "toml_law (sample_toml sample_old (with_credential sample_old sample_issued))"
  by (rule sample_toml_law) (simp_all add: sample_old_def sample_config_def with_credential_def)

lemma sample_fresh:
  assumes "load_authenticator (sample_files sample_old) sample_old = Some (Ok a)"
  shows "\<forall>pid. Authenticator_authenticate a (replicate 32 3) \<noteq> Ok pid"
proof -
  obtain cs where cs: "load_credentials (sample_files sample_old) (config_credentials sample_old) = Some (Ok cs)"
    and a: "Authenticator_new cs = Ok a"
    using assms by (auto simp: load_authenticator_Ok)
  have "cs = [\<lparr>cred_principal = PrincipalId 7, cred_secret = replicate 32 1\<rparr>]"
    using cs by (simp add: sample_old_def sample_config_def sample_credentials_def load_credential_def sample_secrets
        PrincipalCredential_new_def)
  then show ?thesis
    using authenticator_new_exact(4) [OF a] by simp
qed

lemma sample_secret_written: "p \<noteq> [] \<Longrightarrow> fs p = None \<Longrightarrow> \<exists>fs'. write_secret sample_written p secret fs = (Ok (), fs')"
  by (simp add: write_secret_def parent_def fs_write_def restrict_permissions_def sample_written_def)

lemma sample_config_written: "p \<noteq> [] \<Longrightarrow> toml_write t c = Ok encoded \<Longrightarrow> \<exists>fs'. config_write t sample_written p c fs = (Ok (), fs')"
  by (simp add: config_write_def parent_def fs_write_def restrict_permissions_def sample_written_def Let_def)

lemma sample_differs: "with_credential sample_old c \<noteq> sample_old"
proof -
  have "length (config_credentials (with_credential sample_old c)) \<noteq> length (config_credentials sample_old)"
    by (simp add: with_credential_def)
  then show ?thesis
    by auto
qed

lemma sample_issue:
  assumes "delivery = Qr \<or> delivery = File [''out'']"
  shows "\<exists>fs'. issue (sample_toml sample_old (with_credential sample_old sample_issued)) sample_json (sample_outcome (delivery = Qr))
        (sample_options delivery) (sample_files sample_old)
      = Some (if delivery = Qr then (Ok (), fs', Some ''yes'') else (Err CannotCreateEnrollment, fs', None))"
proof -
  let ?t = "sample_toml sample_old (with_credential sample_old sample_issued)"
  let ?o = "sample_options delivery" and ?out = "sample_outcome (delivery = Qr)"
  obtain pr where prep: "prepare_issue ?t sample_json ?out ?o (sample_files sample_old) = Some (Ok pr)"
    and pr: "pr_original pr = sample_old" "pr_principal pr = 8" "pr_secret_file pr = [''credentials'', ''pad-8.hex'']"
      "pr_canonical pr = ''yes''"
    using sample_prepared by blast
  have fields: "out_secret (sample_outcome b) = sample_written" "out_config (sample_outcome b) = sample_written"
      "out_rollback (sample_outcome b) = sample_written" "io_config_path (sample_options d) = [''node.toml'']"
      "io_client_name (sample_options d) = ''Pad''" "io_delivery (sample_options d) = d" for b d
    by (simp_all add: sample_outcome_def sample_options_def)
  have texts: "toml_write ?t (with_credential sample_old sample_issued) = Ok ''b''" "toml_write ?t sample_old = Ok ''a''"
    using sample_differs by (simp_all add: sample_toml_def)
  obtain fs1 where s1: "write_secret sample_written [''credentials'', ''pad-8.hex''] (pr_secret pr) (sample_files sample_old) = (Ok (), fs1)"
    using sample_secret_written [of "[''credentials'', ''pad-8.hex'']"] by (fastforce simp: sample_files_def)
  obtain fs2 where s2: "config_write ?t sample_written [''node.toml''] (with_credential sample_old sample_issued) fs1 = (Ok (), fs2)"
    using sample_config_written [OF _ texts(1)] by blast
  obtain fs4 where s4: "config_write ?t sample_written [''node.toml''] sample_old fs2 = (Ok (), fs4)"
    using sample_config_written [OF _ texts(2)] by blast
  have deliver: "write_private_new (sample_outcome False) [''out''] ''yes'' fs2 = (Err CannotCreateEnrollment, fs2)"
    by (simp add: write_private_new_def sample_outcome_def parent_def)
  show ?thesis
    using assms s1 s2 s4 deliver prep
    by (auto simp: issue_def commit_issue_def pr fields simp flip: sample_issued_def)
qed

lemma sample_revoke:
  "\<exists>fs'. revoke (sample_toml (sample_config sample_credentials) sample_old) sample_written True [''node.toml''] (ByName ''Tablet'')
        (sample_files (sample_config sample_credentials)) = (Ok (), fs')"
proof -
  have "(sample_config sample_credentials)\<lparr>config_credentials := remove_first (selects (ByName ''Tablet'')) sample_credentials\<rparr> = sample_old"
    "find (selects (ByName ''Tablet'')) sample_credentials = Some (sample_credentials ! 1)" "length sample_credentials = 2"
    "config_credentials (sample_config sample_credentials) = sample_credentials"
    by (simp_all add: sample_credentials_def sample_old_def sample_config_def)
  moreover have "sample_old \<noteq> sample_config sample_credentials"
    by (simp add: sample_old_def sample_config_def sample_credentials_def)
  moreover from this have "toml_write (sample_toml (sample_config sample_credentials) sample_old) sample_old = Ok ''b''"
    by (simp add: sample_toml_def)
  from sample_config_written [OF _ this] obtain fs1 where
    "config_write (sample_toml (sample_config sample_credentials) sample_old) sample_written [''node.toml''] sample_old
       (sample_files (sample_config sample_credentials)) = (Ok (), fs1)"
    by blast
  ultimately show ?thesis
    using sample_config_read [of sample_credentials sample_old] by (simp add: revoke_def)
qed

section \<open>Properties\<close>

text \<open>
  C32. A client that was issued a credential can use it. The configuration must name a socket address to
  bind to, its credential files must not be the configuration or its temporary file, and the random
  secret must not be one that is already accepted. Then, after a successful \<^verbatim>\<open>issue\<close> the configuration is read
  back, a relay loads it, and its authenticator accepts exactly what it accepted before and the new
  secret, as a principal larger than every configured one; what was delivered (shown as a QR code or
  written to a new owner-only file) is the canonical text of a bundle with that secret and principal.
\<close>

theorem issued_client_authenticates:
  assumes "toml_law t" "config_read t fs (io_config_path options) = Ok config"
    and "SockAddr_parse (listener_bind (config_listener config)) \<noteq> None"
    and "load_authenticator fs config = Some (Ok a)"
    and "\<forall>c \<in> set (config_credentials config). cc_secret_file c \<noteq> io_config_path options
      \<and> cc_secret_file c \<noteq> with_extension (io_config_path options) ''toml.tmp''"
    and "out_random out = Some secret" "\<forall>pid. Authenticator_authenticate a secret \<noteq> Ok pid"
    and "issue t j out options fs = Some (Ok (), fs', shown)"
  shows "\<exists>config' a' pid bundle canonical. config_read t fs' (io_config_path options) = Ok config'
    \<and> load_authenticator fs' config' = Some (Ok a')
    \<and> (\<forall>s q. Authenticator_authenticate a' s = Ok q \<longleftrightarrow>
          Authenticator_authenticate a s = Ok q \<or> (s = secret \<and> q = PrincipalId pid))
    \<and> (\<forall>c \<in> set (config_credentials config). cc_id c < pid)
    \<and> EnrollmentBundle_to_canonical_json j bundle = Some (Ok canonical)
    \<and> principal_id bundle = pid \<and> EnrollmentBundle_credential_bytes bundle = Some (Ok secret)
    \<and> (case io_delivery options of Qr \<Rightarrow> shown = Some canonical
        | File d \<Rightarrow> fs' d = Some \<lparr>file_text = canonical @ [LF], file_private = True\<rparr>)"
proof -
  obtain pr where prep: "prepare_issue t j out options fs = Some (Ok pr)"
    and com: "commit_issue t out options pr fs = (Ok (), fs', shown)"
    using assms(8) by (auto simp: issue_def split: option.splits sum.splits)
  note ready = prepared_issue [OF prep]
  have orig: "pr_original pr = config" and sec: "pr_secret pr = secret"
    using ready(1) assms(2,6) prepared_paths(2) [OF prep] by simp_all
  obtain n tr where "EnrollmentBundle_new n (pr_principal pr) secret tr = Some (Ok (pr_bundle pr))"
    using ready(5) sec by blast
  note made = new_bundle [OF this]
  have "SockAddr_parse (listener_bind (config_listener (pr_original pr))) \<noteq> None"
    using assms(3) by (simp add: orig)
  note after = committed_issue [OF prep com assms(1) this, unfolded orig sec]
  let ?c = "\<lparr>cc_id = pr_principal pr, cc_name = Some (io_client_name options), cc_secret_file = pr_secret_file pr\<rparr>"
  have "\<exists>a'. load_authenticator fs' (with_credential config ?c) = Some (Ok a')
      \<and> (\<forall>s q. Authenticator_authenticate a' s = Ok q \<longleftrightarrow>
          Authenticator_authenticate a s = Ok q \<or> (s = secret \<and> q = PrincipalId (cc_id ?c)))"
  proof (rule load_appended [OF assms(4) ready(2) [unfolded orig]])
    show "fs' (cc_secret_file e) = fs (cc_secret_file e)" if "e \<in> set (config_credentials config)" for e
    proof (rule after(3))
      show "fs (cc_secret_file e) \<noteq> None"
        using check_legacy_Ok [OF ready(2) [unfolded orig] that] read_secret_private by force
    qed (use assms(5) that in blast)+
    show "read_secret fs' (cc_secret_file ?c) = Some (Ok secret)"
      using read_written_secret [of fs' "pr_secret_file pr" secret] after(2) made(2) by (cases "secret = []") auto
    show "cc_id e \<noteq> cc_id ?c" if "e \<in> set (config_credentials config)" for e
      using next_principal_fresh [OF ready(3) [unfolded orig] that] by auto
  qed (use made(2) assms(7) in simp_all)
  then show ?thesis
    using after(1,4) made(1,3) ready(6) next_principal_fresh [OF ready(3) [unfolded orig]] by (simp) blast
qed

theorem issued_client_authenticates_witness:
  "\<exists>fs' config' a'. issue (sample_toml sample_old (with_credential sample_old sample_issued)) sample_json (sample_outcome True)
        (sample_options Qr) (sample_files sample_old) = Some (Ok (), fs', Some ''yes'')
     \<and> load_authenticator fs' config' = Some (Ok a')
     \<and> (\<exists>pid. Authenticator_authenticate a' (replicate 32 3) = Ok (PrincipalId pid))"
proof -
  let ?t = "sample_toml sample_old (with_credential sample_old sample_issued)" and ?o = "sample_options Qr"
  obtain fs' where run: "issue ?t sample_json (sample_outcome True) ?o (sample_files sample_old) = Some (Ok (), fs', Some ''yes'')"
    using sample_issue [of Qr] by auto
  obtain a where a: "load_authenticator (sample_files sample_old) sample_old = Some (Ok a)"
    using sample_authenticator(2) [of sample_old, folded sample_old_def] by blast
  have fresh: "\<forall>pid. Authenticator_authenticate a (replicate 32 3) \<noteq> Ok pid"
    by (rule sample_fresh [OF a])
  have apart: "\<forall>c \<in> set (config_credentials sample_old). cc_secret_file c \<noteq> io_config_path ?o
      \<and> cc_secret_file c \<noteq> with_extension (io_config_path ?o) ''toml.tmp''"
    using sample_temporary by (simp add: sample_old_def sample_config_def sample_credentials_def sample_options_def)
  have read: "config_read ?t (sample_files sample_old) (io_config_path ?o) = Ok sample_old"
    using sample_config_read by (simp add: sample_old_def sample_options_def)
  have addr: "SockAddr_parse (listener_bind (config_listener sample_old)) \<noteq> None"
    using sample_address by (auto simp: sample_old_def sample_config_def)
  have random: "out_random (sample_outcome True) = Some (replicate 32 3)"
    by (simp add: sample_outcome_def)
  show ?thesis
    using issued_client_authenticates [OF sample_law read addr a apart random fresh run] run by blast
qed

text \<open>
  The one step that is not undone: when writing the secret stops half way or restricting its
  permissions fails, the file stays, readable by others, and the same client cannot be issued again until it is removed,
  because its path depends only on the name and the next principal.
\<close>

theorem failed_secret_blocks_retry:
  assumes "p \<noteq> []" "fs p = None" "wo_mkdir out" "wo_write out \<noteq> Some NotOpened"
    "write_secret out p secret fs = (Err e, fs1)"
  shows "(\<exists>f. fs1 p = Some f \<and> \<not> file_private f)
    \<and> (\<forall>out' secret'. wo_mkdir out' \<longrightarrow> write_secret out' p secret' fs1 = (Err FileExists, fs1))"
  using assms
  by (auto simp: write_secret_def parent_def fs_write_def restrict_permissions_def split: option.splits write_failure.splits if_splits)

text \<open>
  C33. A failed \<^verbatim>\<open>issue\<close> is rolled back: the configuration reads as before, every file other than the
  configuration and its temporary file is as it was (no credential file and no delivered file is
  left), and nothing was shown. The temporary file may stay behind, and the configuration may be a
  newly written copy of the old one. This needs a configuration that names a socket address to bind
  to, the files it removes to be removable, a write of the secret that did not stop half way (a
  partly written secret file is not removed) and left it private, and the roll back of the
  configuration to succeed when it is reached.
\<close>

theorem failed_issue_rolls_back:
  assumes "toml_law t" "config_read t fs (io_config_path options) = Ok config"
    and "SockAddr_parse (listener_bind (config_listener config)) \<noteq> None"
    and "\<forall>n. wo_write (out_secret out) \<noteq> Some (Stopped n)" "wo_chmod (out_secret out)" "out_remove out" "out_discard out"
    and "issue t j out options fs = Some (Err e, fs', shown)" "\<forall>e1 e2. e \<noteq> RollbackFailed e1 e2"
  shows "config_read t fs' (io_config_path options) = Ok config \<and> shown = None
    \<and> (\<forall>q. q \<noteq> io_config_path options \<longrightarrow> q \<noteq> with_extension (io_config_path options) ''toml.tmp'' \<longrightarrow> fs' q = fs q)"
proof (cases "prepare_issue t j out options fs")
  case (Some r)
  show ?thesis
  proof (cases r)
    case (Inr pr)
    with Some have prep: "prepare_issue t j out options fs = Some (Ok pr)"
      by simp
    have com: "commit_issue t out options pr fs = (Err e, fs', shown)"
      using assms(8) prep by (simp add: issue_def)
    have orig: "pr_original pr = config"
      using prepared_issue(1) [OF prep] assms(2) by simp
    show ?thesis
      using failed_commit [OF com orig assms(1) assms(3-7) prepared_issue(7) [OF prep] prepared_paths(1) [OF prep]]
        assms(2,9) by blast
  qed (use assms Some in \<open>simp add: issue_def\<close>)
qed (use assms(8) in \<open>simp add: issue_def\<close>)

theorem failed_issue_rolls_back_witness:
  "\<exists>fs'. issue (sample_toml sample_old (with_credential sample_old sample_issued)) sample_json (sample_outcome False)
        (sample_options (File [''out''])) (sample_files sample_old) = Some (Err CannotCreateEnrollment, fs', None)
     \<and> fs' [''credentials'', ''pad-8.hex''] = None
     \<and> config_read (sample_toml sample_old (with_credential sample_old sample_issued)) fs' [''node.toml''] = Ok sample_old"
proof -
  let ?t = "sample_toml sample_old (with_credential sample_old sample_issued)" and ?o = "sample_options (File [''out''])"
  obtain fs' where run: "issue ?t sample_json (sample_outcome False) ?o (sample_files sample_old)
      = Some (Err CannotCreateEnrollment, fs', None)"
    using sample_issue [of "File [''out'']"] by auto
  have read: "config_read ?t (sample_files sample_old) (io_config_path ?o) = Ok sample_old"
    using sample_config_read by (simp add: sample_old_def sample_options_def)
  have addr: "SockAddr_parse (listener_bind (config_listener sample_old)) \<noteq> None"
    using sample_address by (auto simp: sample_old_def sample_config_def)
  have "config_read ?t fs' (io_config_path ?o) = Ok sample_old \<and> (None :: string option) = None
      \<and> (\<forall>q. q \<noteq> io_config_path ?o \<longrightarrow> q \<noteq> with_extension (io_config_path ?o) ''toml.tmp''
            \<longrightarrow> fs' q = sample_files sample_old q)"
    by (rule failed_issue_rolls_back [OF sample_law read addr _ _ _ _ run]) (simp_all add: sample_outcome_def sample_written_def)
  moreover have "sample_files sample_old [''credentials'', ''pad-8.hex''] = None"
    by (simp add: sample_files_def)
  ultimately show ?thesis
    using run sample_temporary by (simp add: sample_options_def)
qed

text \<open>
  C34. \<^verbatim>\<open>revoke\<close> removes one client and no other. The configuration must name a socket address to bind to
  and its credential files must not be the configuration or its temporary file. When the
  configuration was written (also when the secret file could not be removed afterwards), the
  configuration is read back, a relay loads it, and its authenticator accepts exactly what it
  accepted before, less the principal that was selected; after a success its secret file is gone. In
  every other case every file but the temporary one is as before.
\<close>

theorem revoked_client_refused:
  assumes "toml_law t" "config_read t fs p = Ok config"
    and "SockAddr_parse (listener_bind (config_listener config)) \<noteq> None"
    and "load_authenticator fs config = Some (Ok a)"
    and "\<forall>c \<in> set (config_credentials config). cc_secret_file c \<noteq> p \<and> cc_secret_file c \<noteq> with_extension p ''toml.tmp''"
    and "revoke t out removal p selector fs = (r, fs')"
  shows "if r = Ok () \<or> (\<exists>i. r = Err (CleanupFailed i)) then
      \<exists>x \<in> set (config_credentials config). \<exists>config' a'. selects selector x \<and> config_read t fs' p = Ok config'
        \<and> load_authenticator fs' config' = Some (Ok a')
        \<and> (\<forall>s q. Authenticator_authenticate a' s = Ok q \<longleftrightarrow> Authenticator_authenticate a s = Ok q \<and> q \<noteq> PrincipalId (cc_id x))
        \<and> (r = Ok () \<longrightarrow> fs' (cc_secret_file x) = None)
    else \<forall>q. q \<noteq> with_extension p ''toml.tmp'' \<longrightarrow> fs' q = fs q"
  using revoke_cases [OF assms(2,6)]
proof (elim disjE exE conjE)
  fix x ys zs fs1 assume x: "selects selector x" "config_credentials config = ys @ x # zs"
    and s1: "config_write t out p (config\<lparr>config_credentials := ys @ zs\<rparr>) fs = (Ok (), fs1)"
    and fs': "\<forall>q. q \<noteq> cc_secret_file x \<longrightarrow> fs' q = fs1 q"
    and ends: "\<forall>e. r = Err e \<longrightarrow> (\<exists>i. e = CleanupFailed i)" "r = Ok () \<longrightarrow> fs' (cc_secret_file x) = None"
  let ?new = "config\<lparr>config_credentials := ys @ zs\<rparr>"
  have fs1: "\<And>q. q \<noteq> p \<Longrightarrow> q \<noteq> with_extension p ''toml.tmp'' \<Longrightarrow> fs1 q = fs q"
    using config_write_cases [OF s1] by auto
  have "SockAddr_parse (listener_bind (config_listener ?new)) \<noteq> None"
    using assms(3) by simp
  note read = config_write_read [OF assms(1) s1 this]
  have "fs' p = fs1 p"
    using fs' assms(5) x(2) by (metis in_set_conv_decomp)
  then have "config_read t fs' p = Ok ?new"
    using read by (simp add: config_read_def)
  moreover have "\<exists>a'. load_authenticator fs' ?new = Some (Ok a')
      \<and> (\<forall>s q. Authenticator_authenticate a' s = Ok q \<longleftrightarrow> Authenticator_authenticate a s = Ok q \<and> q \<noteq> PrincipalId (cc_id x))"
    using fs' fs1 assms(5) x(2) by (intro load_removed [OF assms(4) x(2)]) auto
  moreover have "r = Ok () \<or> (\<exists>i. r = Err (CleanupFailed i))"
    using ends(1) by (cases r) auto
  ultimately show ?thesis
    using ends(2) x by (simp only: if_True) auto
qed simp

theorem revoked_client_refused_witness:
  "\<exists>r fs' config' a'. revoke (sample_toml (sample_config sample_credentials) sample_old) sample_written True [''node.toml''] (ByName ''Tablet'')
        (sample_files (sample_config sample_credentials)) = (r, fs')
     \<and> r = Ok () \<and> load_authenticator fs' config' = Some (Ok a') \<and> (\<forall>s. Authenticator_authenticate a' s \<noteq> Ok (PrincipalId 8))"
proof -
  let ?c = "sample_config sample_credentials"
  let ?t = "sample_toml ?c sample_old"
  obtain a where a: "load_authenticator (sample_files ?c) ?c = Some (Ok a)"
    using sample_authenticator(1) by blast
  have addr: "SockAddr_parse (listener_bind (config_listener ?c)) \<noteq> None"
    using sample_address by (auto simp: sample_config_def)
  have law: "toml_law ?t"
    by (rule sample_toml_law) (simp_all add: sample_config_def sample_old_def)
  have apart: "\<forall>c \<in> set (config_credentials ?c). cc_secret_file c \<noteq> [''node.toml'']
      \<and> cc_secret_file c \<noteq> with_extension [''node.toml''] ''toml.tmp''"
    by (simp add: sample_config_def sample_credentials_def sample_temporary)
  obtain fs' where run: "revoke ?t sample_written True [''node.toml''] (ByName ''Tablet'') (sample_files ?c) = (Ok (), fs')"
    using sample_revoke by blast
  from revoked_client_refused [OF law sample_config_read addr a apart run]
  obtain x config' a' where x: "x \<in> set (config_credentials ?c)" "selects (ByName ''Tablet'') x"
      "load_authenticator fs' config' = Some (Ok a')"
      "\<forall>s q. Authenticator_authenticate a' s = Ok q \<longleftrightarrow> Authenticator_authenticate a s = Ok q \<and> q \<noteq> PrincipalId (cc_id x)"
    by auto
  have "cc_id x = 8"
    using x(1,2) by (auto simp: sample_config_def sample_credentials_def)
  then show ?thesis
    using x(3,4) run by auto
qed

end
