(* ===== verification/Spec2Isabelle.thy ===== *)
theory Spec2Isabelle
  imports Session_Delivery Session_Dispatcher Wire_Decoder Server_Admission Tun_Properties Pool_Properties
    Proxy_Properties Traffic_Properties Recovery_Journal Relay_Admission
    Forest Enrollment Node_Credentials
begin

text \<open>
  \<^bold>\<open>Velum.\<close> Velum is a relay. A client captures the traffic of a machine, decides per flow what to do
  with it, and carries reliable flows and datagrams to a relay node over interchangeable carriers
  (QUIC, TLS). A session outlives its carriers: when the carrier changes, the session moves to a
  new epoch, a new carrier is attached with an authenticated proof, and what was not acknowledged
  is sent again. This library models the protocol core, the admission of the relay, and the
  client's routing, lifecycle and TUN bookkeeping, and proves that they do what the session layer
  promises. Paths below are relative to \<^verbatim>\<open>src/\<close>.

  \<^bold>\<open>How the parts interact.\<close> Bytes from a carrier go through the incremental frame decoder; every
  frame goes to the dispatcher of its carrier, which admits it only when that carrier has an
  authenticated attachment and then applies at most one operation to the session tracer. The
  tracer keeps the flows, their unacknowledged segments, the epoch and the accepted attachment; it
  verifies attachment proofs with the crypto component, which signs the canonical transcript the
  protocol types define. The policy component recommends when to change the carrier. On the relay
  the authenticator and the admission control stand in front of sessions and flows: every stream
  opens with a control record, all streams and datagrams of a connection share one session lease,
  and admitted datagrams go to the UDP associations of the connection. On the client
  the lifecycle owns the one connection of a runtime, the routing policy decides about flows, and
  the TUN adapter classifies packets, asks the fake DNS table and the routing policy, and keeps
  the UDP associations whose envelopes the datagram codec encodes. The proxy adapter is the other way
  in: it reads a SOCKS5 or HTTP request, asks the same routing policy and rewrites the head of a
  forwarded request. A privileged host installs the network configuration a client asks for over
  the helper protocol, under a recovery journal.

  \<^bold>\<open>Conventions.\<close> A struct is a record, an enum a datatype, and a method \<^verbatim>\<open>T::m\<close> is the constant
  \<open>T_m\<close>; a method with \<^verbatim>\<open>&mut self\<close> returns the updated record. Integers keep their width as
  words where the sources compute with them; \<^verbatim>\<open>usize\<close> lengths and counters, which are bounded by
  memory, are natural numbers. \<^verbatim>\<open>Result\<close> is the sum type with \<open>Err\<close> and \<open>Ok\<close> of
  \<open>Velum_Prelude\<close>; a panic (\<^verbatim>\<open>expect\<close>, overflow of a checked counter) is \<open>None\<close> of an outer
  option, so that its absence is a theorem. A \<^verbatim>\<open>BTreeMap\<close> is a sorted association list, a
  \<^verbatim>\<open>HashMap\<close> an association list with distinct keys, \<^verbatim>\<open>str\<close> and \<^verbatim>\<open>[u8]\<close> are lists. Asynchronous code is
  cut at its await points: what a lock protects is one step, and a completion is a step that may
  come at any later state. Histories are lists of operations; the locales of \<open>State_Runs\<close> give
  invariants and history invariants once for all of them.

  \<^bold>\<open>Foundations.\<close> \<open>Velum_Prelude\<close>: result type, checked arithmetic, big-endian bytes, shared lemmas.
  \<open>Ordered_Map\<close>: the map operations and the locale \<open>ordered_map\<close> the components rely on,
  interpreted on the sorted lists. \<open>State_Runs\<close>: the inductive \<open>run\<close> relation and the locales
  \<open>invariant_system\<close> and \<open>history_system\<close>, interpreted in every stateful component.
  \<open>Rust_Strings\<close>, \<open>Rust_Text\<close> and \<open>Ip_Text\<close>: the string, UTF-8, integer and address functions of the
  standard library that the client uses.

  \<^bold>\<open>Wire format\<close> (\<^verbatim>\<open>crates/velum-protocol\<close>). \<open>Wire_Types\<close> is \<^verbatim>\<open>types.rs\<close>: versions, capabilities,
  negotiation and the canonical transcript; a negotiated answer passes the offerer's validation
  and the transcript is injective. \<open>Wire_Reader\<close> and \<open>Wire_Frame\<close> are the payload reader, encoder
  and exact decoder of \<^verbatim>\<open>frame.rs\<close>, with the locale \<open>wire_codec\<close> interpreted on every field codec;
  \<open>Wire_Decoder\<close> is the incremental decoder: round trip in both directions, independence of the
  chunking, no loss, and what happens after a malformed frame. \<open>Wire_Datagram\<close> is \<^verbatim>\<open>datagram.rs\<close>:
  the codec is exact and its size bound is tight.

  \<^bold>\<open>Session\<close> (\<^verbatim>\<open>crates/velum-session\<close>, \<^verbatim>\<open>velum-crypto\<close>, \<^verbatim>\<open>velum-policy\<close>, \<^verbatim>\<open>velum-carrier-api\<close>,
  \<^verbatim>\<open>velum-telemetry\<close>). \<open>Session_Tracer\<close> is every operation of \<^verbatim>\<open>lib.rs\<close> and \<^verbatim>\<open>transition.rs\<close>.
  \<open>Session_Invariant\<close>, \<open>Session_Runs\<close> and \<open>Session_Properties\<close> show, over every history: the
  accounting invariant, that only the exhaustion of a 64-bit counter panics, that identifiers are
  not reused, exactly-once in-order delivery, the exact effect of acknowledgements, timeouts and
  attachments, and one attachment per epoch. \<open>Session_Dispatcher\<close> is \<^verbatim>\<open>dispatcher.rs\<close>; it
  refines the tracer one operation per frame, so that the history theorems hold for any traffic on any number of carriers.
  \<open>Attachment_Crypto\<close> and \<open>Carrier_Policy\<close> are the proof, the replay window and the carrier
  policy. \<open>Carrier_Simulator\<close> is \<^verbatim>\<open>simulator.rs\<close>, and \<open>Session_Delivery\<close> composes two tracers and
  the faulty carrier: delivered data is always a prefix of the data sent, and after any history
  one resume over an available carrier delivers the rest, if the receiver admits the sender's epoch.

  \<^bold>\<open>Relay\<close> (\<^verbatim>\<open>crates/velum-server\<close>, \<^verbatim>\<open>apps/velum-node\<close>). \<open>Server_Admission\<close>: authentication is exact, quotas
  hold on every history. \<open>Datagram_Relay\<close> is \<^verbatim>\<open>datagram.rs\<close>: the associations of a connection and their
  response tasks; limits, isolation of sessions, and what a dead task leaves behind. \<open>Relay_Node\<close> is
  \<^verbatim>\<open>lib.rs\<close> and the connection loop of \<^verbatim>\<open>listener.rs\<close>: the control record and the admission of streams
  and datagrams, cut into the sections between two acquisitions of the quota mutex.
  \<open>Relay_Properties\<close>: whatever the interleaving, the quotas count exactly what is in use, and the
  control record is read exactly. \<open>Relay_Admission\<close>: every flow, session and datagram goes back to a
  record or datagram of its own connection that was authenticated and allowed. \<open>Node_Config\<close> is \<^verbatim>\<open>config.rs\<close>: the
  configuration and the secret files of a node; a loaded relay accepts exactly what they say.
  \<open>Node_Credentials\<close> is \<^verbatim>\<open>issue\<close> and \<^verbatim>\<open>revoke\<close> of \<^verbatim>\<open>enrollment.rs\<close>, every file operation with its outcome:
  an issued client is accepted with the bundle it was given, a revoked one is not and nobody else is
  affected, and a failed command is undone.

  \<^bold>\<open>Client.\<close> \<open>Client_Lifecycle\<close> (\<^verbatim>\<open>crates/velum-client-runtime\<close>): the phases, stale completions and
  the ownership of clients. \<open>Node_Pool\<close> and \<open>Pool_Properties\<close> (\<^verbatim>\<open>velum-client-engine\<close>): the calls of a
  node pool as interleaved tasks over shared entries; no runtime is leaked or stopped twice, no
  deadlock, exact resolution of node references. \<open>Client_Routing\<close> (\<^verbatim>\<open>velum-client-routing\<close>): matching against independent
  specifications (labels of a domain, address blocks) and the rule parser. \<open>Fake_Dns\<close>,
  \<open>Tun_Adapter\<close> and \<open>Tun_Properties\<close> (\<^verbatim>\<open>velum-adapter-tun\<close>): the fake address table, classification,
  flow registry, associations and the UDP engine: limits on every history, one-to-one
  associations, how long a fake address stands for its name (until it expires, is evicted by later
  allocations or the generation changes), and routing of fake addresses by name. \<open>Proxy_Adapter\<close> and \<open>Proxy_Properties\<close>
  (\<^verbatim>\<open>velum-adapter-proxy\<close>): target validation, the SOCKS5 and HTTP handshakes on a connection of
  bytes; the framing of a head, the exact lines of a forwarded head, the round trip of SOCKS5
  requests, and the refusal of CONNECT requests with fields.

  \<open>Client_Profile\<close> and \<open>Enrollment\<close> (\<^verbatim>\<open>velum-client-profile\<close>): profiles are normalised once and for
  all and compile to a policy over their own nodes; an enrollment bundle is read back exactly, and
  the texts that make its reader panic are characterised.

  \<^bold>\<open>Cover service.\<close> \<open>Forest\<close> (\<^verbatim>\<open>velum-forest\<close>): the head and the response of the static service, the
  reverse proxy, and the rotation of traffic profiles, which only moves forward.

  \<^bold>\<open>Privileged host.\<close> \<open>Helper_Protocol\<close> (\<^verbatim>\<open>velum-helper-protocol\<close>): messages, framing and the
  incremental decoder, which refines a stateless specification and is independent of the chunking.
  \<open>Traffic_Host\<close> and \<open>Traffic_Properties\<close> (\<^verbatim>\<open>velum-desktop-traffic-host\<close>): the host with every outcome of
  its calls and with crashes between any two effects; a configuration in place always has a
  recovery record, the reported state is true, retries are answered from the cache and when not.
  \<open>Recovery_Journal\<close>: the file journal of the same crate refines the journal the host is proved
  against, through the locale \<open>atomic_replacement\<close>.

  \<^bold>\<open>Parameters.\<close> HMAC-SHA256 of the \<^verbatim>\<open>ring\<close> crate is the function \<open>sign\<close>; where unforgeability matters
  the conclusion names the collision, and nothing assumes injectivity. The packet views of the
  \<^verbatim>\<open>smoltcp\<close> crate are the record of functions \<open>smoltcp\<close>. The transport (opening a connection or a
  stream) is an argument of the step that receives its result. The JSON of \<^verbatim>\<open>serde_json\<close> and the YAML
  of \<^verbatim>\<open>serde_yaml_ng\<close> are pairs of functions, with the hypothesis that a value is read back from its text where a theorem needs it.
  So is the TOML of a node's configuration (\<open>toml_law\<close>: comments after a value, with a socket address in them, do not matter); name
  resolution, TLS material and the platform's reading of a path are functions as well.
  The platform backend of the traffic host is the outcome of each of its calls.

  \<^bold>\<open>Bounds and termination.\<close> No definition has an artificial fuel. The address search of the fake
  DNS table is bounded in the sources by the capacity plus one and is proved to succeed below the
  pool size. The search for a free association number is a \<^theory_text>\<open>partial_function\<close>, since the
  loop of the sources has no bound; the engine theorem shows that it always returns. The decoder loop
  terminates because every frame shortens the buffer.

  \<^bold>\<open>Not modelled.\<close> The QUIC and TLS carriers, the client API over \<^verbatim>\<open>quinn\<close>, the endpoint, command line, terminal dialogue, ACME, setup and
  administration of \<^verbatim>\<open>apps/velum-node\<close>, the accept and copy loops of the proxy adapter, the foreign-function bindings and
  \<^verbatim>\<open>xtask\<close> are input/output around libraries that are not part of the sources. The smoltcp
  interface driver and the checksum rewriting of the TUN adapter depend on that crate's internals.
  The reload, drain and shutdown controls of the listener, and its abort of connections after the
  shutdown timeout, have no step; a caller that replaces the whole profile store through
  \<^verbatim>\<open>profiles_mut\<close> of the cover service has none either. The traffic host keeps one flag for the
  applied configuration, so while one replaces another the model does not say which is in place.
  Timing side channels (the constant-time comparison) are outside a functional model.
\<close>

end
